(* ===== verification/Lambda_Prelude.thy ===== *)
theory Lambda_Prelude
  imports Main "HOL-Library.Word" "HOL-Library.Monad_Syntax"
begin

unbundle bit_operations_syntax

text \<open>
  Shared vocabulary of the development: the machine types of the kernel (an ILP32 target, so
  \<open>int\<close>, \<open>long\<close>, \<open>size_t\<close> and pointers have 32 bits), the error numbers of
  \<open>kernel/inc/errno.h\<close>, C strings as lists of characters, and the generic lemmas on lists,
  options and words that the component theories use.

  Conventions.
  \<^item> An address is a \<open>nat\<close>; \<open>0\<close> is \<open>NULL\<close>.
  \<^item> A C \<open>int\<close> result is an \<open>int\<close>; error returns are negated error numbers, as in the code.
  \<^item> A call that does not come back (a kernel panic, a fault on a bad address, a loop that
    never ends) is \<open>None\<close>; a call that returns is \<open>Some\<close> of its result.
\<close>

section \<open>Machine types\<close>

type_synonym u8 = "8 word"
type_synonym u16 = "16 word"
type_synonym u32 = "32 word"
type_synonym u64 = "64 word"

type_synonym addr = nat

text \<open>Byte-addressed memory.\<close>

type_synonym mem = "addr \<Rightarrow> u8"

abbreviation (input) NULL :: addr where "NULL \<equiv> 0"

named_theorems k_defs \<open>definitions of the model, for unfolding\<close>
named_theorems k_inv \<open>preservation of invariants by the operations\<close>

section \<open>Error numbers (kernel/inc/errno.h)\<close>

abbreviation (input) ENOENT :: int where "ENOENT \<equiv> 2"
abbreviation (input) ENOEXEC :: int where "ENOEXEC \<equiv> 8"
abbreviation (input) EBADF :: int where "EBADF \<equiv> 9"
abbreviation (input) ENOMEM :: int where "ENOMEM \<equiv> 12"
abbreviation (input) ENOTDIR :: int where "ENOTDIR \<equiv> 20"
abbreviation (input) EINVAL :: int where "EINVAL \<equiv> 22"
abbreviation (input) ENFILE :: int where "ENFILE \<equiv> 23"
abbreviation (input) EROFS :: int where "EROFS \<equiv> 30"
abbreviation (input) ETIMEDOUT :: int where "ETIMEDOUT \<equiv> 60"
abbreviation (input) ENOSYS :: int where "ENOSYS \<equiv> 78"
abbreviation (input) EUNSPEC :: int where "EUNSPEC \<equiv> 512"
abbreviation (input) ENODATA :: int where "ENODATA \<equiv> 513"

section \<open>Words\<close>

lemma unat_u32_lt [simp]: "unat (x :: u32) < 4294967296"
  using unsigned_less [of x, where ?'a = nat] by simp

lemma unat_u8_lt [simp]: "unat (x :: u8) < 256"
  using unsigned_less [of x, where ?'a = nat] by simp

lemma unat_u64_lt [simp]: "unat (x :: u64) < 18446744073709551616"
  using unsigned_less [of x, where ?'a = nat] by simp

lemma unat_of_nat_u32: "n < 4294967296 \<Longrightarrow> unat (of_nat n :: u32) = n"
  by (simp add: unat_of_nat take_bit_nat_eq_self)

lemma unat_of_nat_u8: "n < 256 \<Longrightarrow> unat (of_nat n :: u8) = n"
  by (simp add: unat_of_nat take_bit_nat_eq_self)

lemma unat_add_u32: "unat (a + b :: u32) = (unat a + unat b) mod 4294967296"
  by (simp add: unat_word_ariths)

lemma unat_add_u32_lt:
  "unat a + unat b < 4294967296 \<Longrightarrow> unat (a + b :: u32) = unat a + unat b"
  by (simp add: unat_add_u32)

lemma unat_sub_u32: "b \<le> a \<Longrightarrow> unat (a - b :: u32) = unat a - unat b"
  by (rule unat_sub)

lemma unat_Suc_u32: "unat a < 4294967295 \<Longrightarrow> unat (a + 1 :: u32) = Suc (unat a)"
  by (simp add: unat_add_u32)

lemma unat_pred_u32: "a \<noteq> 0 \<Longrightarrow> unat (a - 1 :: u32) = unat a - 1"
  by (simp add: unat_minus_one)

section \<open>Characters and C strings\<close>

text \<open>
  The text of a C string is the list of its characters before the terminating \<open>NUL\<close>, which
  is no element of it.
\<close>

abbreviation (input) NUL :: char where "NUL \<equiv> CHR 0x00"

abbreviation code_of :: "char \<Rightarrow> nat" where "code_of c \<equiv> of_char c"

lemma code_of_lt [simp]: "code_of c < 256"
  by simp

lemma code_of_inject: "code_of c = code_of d \<longleftrightarrow> c = d"
  by (metis char_of_char)

lemma of_char_u8: "(of_char c :: u8) = of_nat (code_of c)"
  by (simp add: of_nat_of_char)

lemma unat_of_char_u8 [simp]: "unat (of_char c :: u8) = code_of c"
  by (simp add: of_char_u8 unat_of_nat_u8)

lemma of_char_u8_inject [simp]: "(of_char c :: u8) = of_char d \<longleftrightarrow> c = d"
  by (metis code_of_inject unat_of_char_u8)

lemma of_char_u8_zero [simp]: "(of_char c :: u8) = 0 \<longleftrightarrow> c = NUL"
  using of_char_u8_inject [of c NUL] by simp

text \<open>
  \<open>cstr_at m p s\<close>: the C string with text \<open>s\<close> is stored at address \<open>p\<close>.
\<close>

definition cstr_at :: "mem \<Rightarrow> addr \<Rightarrow> string \<Rightarrow> bool" where
  "cstr_at m p s \<longleftrightarrow>
     (\<forall>i < length s. m (p + i) = of_char (s ! i)) \<and> NUL \<notin> set s \<and> m (p + length s) = 0"

lemma cstr_at_Nil [simp]: "cstr_at m p [] \<longleftrightarrow> m p = 0"
  by (simp add: cstr_at_def)

lemma cstr_at_Cons [simp]:
  "cstr_at m p (c # s) \<longleftrightarrow> c \<noteq> NUL \<and> m p = of_char c \<and> cstr_at m (Suc p) s"
  by (auto simp: cstr_at_def All_less_Suc2)

lemma cstr_at_unique: "cstr_at m p s \<Longrightarrow> cstr_at m p t \<Longrightarrow> s = t"
proof (induction s arbitrary: p t)
  case Nil
  then show ?case by (cases t) auto
next
  case (Cons c s)
  then show ?case by (cases t) auto
qed

section \<open>Lists\<close>

lemma nth_list_update_if: "i < length xs \<Longrightarrow> xs[i := v] ! j = (if i = j then v else xs ! j)"
  by (simp add: nth_list_update)

lemma list_all_update:
  "list_all P xs \<Longrightarrow> P v \<Longrightarrow> list_all P (xs[i := v])"
  by (auto simp: list_all_iff dest: set_update_subset_insert [THEN subsetD])

lemma find_in_set: "find P xs = Some x \<Longrightarrow> x \<in> set xs \<and> P x"
  by (auto simp: find_Some_iff)

lemma find_snoc:
  "find P (xs @ [x]) = (case find P xs of Some y \<Rightarrow> Some y | None \<Rightarrow> if P x then Some x else None)"
  by (induction xs) auto

lemma find_distinct:
  "distinct (map f xs) \<Longrightarrow> j < length xs \<Longrightarrow> find (\<lambda>c. f c = f (xs ! j)) xs = Some (xs ! j)"
proof (induction xs arbitrary: j)
  case (Cons x xs)
  show ?case
  proof (cases j)
    case (Suc i)
    with Cons.prems have "f x \<noteq> f (xs ! i)" by (auto simp: image_iff)
    with Cons Suc show ?thesis by simp
  qed simp
qed simp

end
