(* ===== verification/Katomic.thy ===== *)
theory Katomic
  imports Lambda_Prelude
begin

text \<open>
  The spin locks of \<open>kernel/inc/proc/atomic/lock.h\<close> and \<open>kernel/src/proc/atomic/lock.c\<close>. A lock
  is an \<open>atomic_int\<close>; every operation is one atomic exchange or store. What other threads do
  while the caller is in \<open>run_sched\<close> is a parameter: the lock word (and for \<open>lock_for\<close> the
  value of \<open>kerneltime\<close>, in nanoseconds) that the caller finds at its next attempt.
\<close>

type_synonym lock_t = int

section \<open>Operations\<close>

definition unlock :: "lock_t \<Rightarrow> lock_t" where
  "unlock l = 0"

text \<open>Value returned, and the lock word afterwards.\<close>

definition lock_try :: "lock_t \<Rightarrow> int \<times> lock_t" where
  "lock_try l = (if l \<noteq> 0 then 0 else - EUNSPEC, 1)"

text \<open>\<open>env k\<close>: the lock word after the caller's \<open>k\<close>-th \<open>run_sched\<close>, from the word 1 it left.\<close>

partial_function (option) lock :: "(nat \<Rightarrow> lock_t \<Rightarrow> lock_t) \<Rightarrow> nat \<Rightarrow> lock_t \<Rightarrow> lock_t option" where
  "lock env k l = (if l \<noteq> 0 then lock env (Suc k) (env k 1) else Some 1)"

declare lock.simps [code]

text \<open>
  \<open>env k\<close>: the lock word that the caller's \<open>k\<close>-th exchange finds, counted from 0, and the value of
  \<open>kerneltime\<close> when it looks at it afterwards. The result is the value returned, the lock word and
  how many times \<open>run_sched\<close> has been called.
\<close>

partial_function (option) lock_for_loop ::
    "(nat \<Rightarrow> lock_t \<times> u64) \<Rightarrow> u64 \<Rightarrow> nat \<Rightarrow> (int \<times> lock_t \<times> nat) option" where
  "lock_for_loop env end k =
     (if fst (env k) \<noteq> 0
      then (if end \<le> snd (env k) then Some (- ETIMEDOUT, 1, k)
            else lock_for_loop env end (Suc k))
      else Some (0, 1, k))"

declare lock_for_loop.simps [code]

definition lock_for ::
    "(nat \<Rightarrow> lock_t \<times> u64) \<Rightarrow> u64 \<Rightarrow> u32 \<Rightarrow> (int \<times> lock_t \<times> nat) option" where
  "lock_for env kerneltime ms = lock_for_loop env (kerneltime + ucast ms) 0"

text \<open>No other thread runs: the lock word stays as the caller left it.\<close>

abbreviation uncontended :: "nat \<Rightarrow> lock_t \<Rightarrow> lock_t" where
  "uncontended \<equiv> \<lambda>_ v. v"

section \<open>Lemmas\<close>

lemma lock_free [simp]: "lock env k 0 = Some 1"
  by (simp add: lock.simps)

lemma lock_acquired:
  assumes "lock env k l = Some r"
  shows "r = 1 \<and> (l = 0 \<or> (\<exists>j \<ge> k. env j 1 = 0))"
proof (rule lock.raw_induct
    [where P = "\<lambda>env k l r. r = 1 \<and> (l = 0 \<or> (\<exists>j \<ge> k. env j 1 = 0))", OF _ assms])
  fix f :: "(nat \<Rightarrow> lock_t \<Rightarrow> lock_t) \<Rightarrow> nat \<Rightarrow> lock_t \<Rightarrow> lock_t option" and env k l r
  assume IH: "\<And>env k l r. f env k l = Some r \<Longrightarrow> r = 1 \<and> (l = 0 \<or> (\<exists>j \<ge> k. env j 1 = 0))"
    and eq: "(if l \<noteq> 0 then f env (Suc k) (env k 1) else Some 1) = Some r"
  show "r = 1 \<and> (l = 0 \<or> (\<exists>j \<ge> k. env j 1 = 0))"
  proof (cases "l = 0")
    case True
    with eq show ?thesis by simp
  next
    case False
    with eq have "f env (Suc k) (env k 1) = Some r" by simp
    from IH [OF this] show ?thesis by (meson Suc_leD order_refl)
  qed
qed

lemma lock_released:
  assumes "env (k + n) 1 = 0"
  shows "lock env k l = Some 1"
  using assms
proof (induction n arbitrary: k l)
  case 0
  then show ?case by (simp add: lock.simps [of env k l])
next
  case (Suc n)
  from Suc.IH [of "Suc k" "env k 1"] Suc.prems show ?case by (simp add: lock.simps [of env k l])
qed

text \<open>The attempt at which \<open>lock_for\<close> is over: the lock is found free, or the time has come.\<close>

definition lock_for_over :: "(nat \<Rightarrow> lock_t \<times> u64) \<Rightarrow> u64 \<Rightarrow> nat \<Rightarrow> bool" where
  "lock_for_over env end k \<longleftrightarrow> fst (env k) = 0 \<or> end \<le> snd (env k)"

lemma lock_for_loop_over:
  assumes "lock_for_over env end (k + j)" "\<forall>i<j. \<not> lock_for_over env end (k + i)"
  shows "lock_for_loop env end k =
    Some (if fst (env (k + j)) = 0 then 0 else - ETIMEDOUT, 1, k + j)"
  using assms
proof (induction j arbitrary: k)
  case 0
  then show ?case by (auto simp: lock_for_loop.simps [of env "end" k] lock_for_over_def)
next
  case (Suc j)
  from Suc.prems(2) have "\<not> lock_for_over env end k" by force
  moreover have "\<forall>i<j. \<not> lock_for_over env end (Suc k + i)" using Suc.prems(2) by force
  ultimately show ?case using Suc.IH [of "Suc k"] Suc.prems(1)
    by (simp add: lock_for_loop.simps [of env "end" k] lock_for_over_def)
qed

lemma lock_for_loop_returns:
  assumes "lock_for_loop env end k = Some r"
  shows "\<exists>j \<ge> k. lock_for_over env end j"
proof (rule lock_for_loop.raw_induct
    [where P = "\<lambda>env end k r. \<exists>j \<ge> k. lock_for_over env end j", OF _ assms])
  fix f :: "(nat \<Rightarrow> lock_t \<times> u64) \<Rightarrow> u64 \<Rightarrow> nat \<Rightarrow> (int \<times> lock_t \<times> nat) option"
    and env e k r
  assume IH: "\<And>env e k r. f env e k = Some r \<Longrightarrow> \<exists>j \<ge> k. lock_for_over env e j"
    and eq: "(if fst (env k) \<noteq> 0
      then (if e \<le> snd (env k) then Some (- ETIMEDOUT, 1, k) else f env e (Suc k))
      else Some (0, 1, k)) = Some r"
  show "\<exists>j \<ge> k. lock_for_over env e j"
  proof (cases "lock_for_over env e k")
    case True
    then show ?thesis by blast
  next
    case False
    with eq have "f env e (Suc k) = Some r" by (auto simp: lock_for_over_def)
    from IH [OF this] show ?thesis by (meson Suc_leD)
  qed
qed

lemma lock_for_loop_first:
  assumes "lock_for_over env end m"
  obtains n where "n \<le> m" "lock_for_over env end n" "\<forall>k<n. \<not> lock_for_over env end k"
    "lock_for_loop env end 0 = Some (if fst (env n) = 0 then 0 else - ETIMEDOUT, 1, n)"
proof -
  let ?n = "LEAST k. lock_for_over env end k"
  have le: "?n \<le> m" using assms by (rule Least_le)
  have over: "lock_for_over env end ?n" using assms by (rule LeastI)
  have first: "\<forall>k<?n. \<not> lock_for_over env end k" using not_less_Least by blast
  from lock_for_loop_over [of env "end" 0 ?n] over first
  show ?thesis by (intro that [OF le over first]) (simp only: add_0)
qed

section \<open>Properties\<close>

text \<open>
  \<open>lock\<close> returns exactly when the lock is free at the first attempt or is found
  released after some \<open>run_sched\<close>; when it returns, the caller holds the lock (the word is 1).
\<close>

theorem lock_returns_iff_released:
  "lock env 0 l = (if l = 0 \<or> (\<exists>k. env k 1 = 0) then Some 1 else None)"
  using lock_acquired [of env 0 l] lock_released [of env 0 _ l]
  by (cases "lock env 0 l") auto

text \<open>
  \<open>lock_try\<close> leaves the lock held; the value it returns is inverted with respect
  to its documentation ("0 on success, -EUNSPEC on failure"): it is 0 exactly when the lock was
  already held by someone else, and \<open>-EUNSPEC\<close> exactly when the caller got it.
\<close>

theorem lock_try_inverted:
  "snd (lock_try l) = 1 \<and> (fst (lock_try l) = 0 \<longleftrightarrow> l \<noteq> 0) \<and>
   (fst (lock_try l) = - EUNSPEC \<longleftrightarrow> l = 0)"
  by (simp_all add: lock_try_def)

text \<open>
  C17 (timed locking). \<open>lock_for\<close> returns exactly when some attempt finds the lock free or the clock
  at or past its value at the call plus \<open>ms\<close>. It then returns at the first such attempt, having
  called \<open>run_sched\<close> once per attempt before it: with 0 when the lock was free there, and otherwise
  with \<open>-ETIMEDOUT\<close>; so it does not give up before the time has come, and a lock that it
  finds released before that is taken. The lock word is 1 in both cases. The argument documented
  as milliseconds is a number of nanoseconds here, as \<open>kerneltime\<close> is; their sum is one of 64
  bits. What happens between two attempts, the releases and the ticks, is arbitrary.
\<close>

theorem lock_for_timeout:
  "(lock_for env kerneltime ms = None \<longleftrightarrow> (\<forall>k. \<not> lock_for_over env (kerneltime + ucast ms) k)) \<and>
   (lock_for env kerneltime ms = Some (r, l, n) \<longleftrightarrow>
      lock_for_over env (kerneltime + ucast ms) n \<and>
      (\<forall>k<n. \<not> lock_for_over env (kerneltime + ucast ms) k) \<and> l = 1 \<and>
      r = (if fst (env n) = 0 then 0 else - ETIMEDOUT))"
proof -
  let ?e = "kerneltime + ucast ms :: u64"
  have none: "lock_for env kerneltime ms = None" if "\<forall>k. \<not> lock_for_over env ?e k"
    using that lock_for_loop_returns [of env ?e 0]
    by (cases "lock_for env kerneltime ms") (auto simp: lock_for_def)
  show ?thesis
  proof (cases "\<exists>k. lock_for_over env ?e k")
    case True
    then obtain m where "lock_for_over env ?e m" by blast
    then obtain j where j: "lock_for_over env ?e j" "\<forall>k<j. \<not> lock_for_over env ?e k"
      "lock_for env kerneltime ms = Some (if fst (env j) = 0 then 0 else - ETIMEDOUT, 1, j)"
      unfolding lock_for_def by (rule lock_for_loop_first)
    moreover have "n = j" if "lock_for_over env ?e n" "\<forall>k<n. \<not> lock_for_over env ?e k"
      using that j(1,2) by (meson linorder_neqE_nat)
    ultimately show ?thesis using True by auto
  next
    case False
    with none show ?thesis by simp
  qed
qed

theorem lock_for_timeout_witness:
  "lock_for (\<lambda>k. (1, 5000 + 1000 * of_nat k)) 5000 2000 = Some (- ETIMEDOUT, 1, 2)"
proof -
  have "lock_for_over (\<lambda>k. (1, 5000 + 1000 * of_nat k)) (5000 + ucast (2000 :: u32)) k \<longleftrightarrow> 2 \<le> k"
    if "k \<le> 2" for k :: nat
  proof -
    from that consider "k = 0" | "k = 1" | "k = 2" by linarith
    then show ?thesis by cases (simp_all add: lock_for_over_def)
  qed
  with lock_for_timeout [of "\<lambda>k. (1, 5000 + 1000 * of_nat k)" 5000 2000 "- ETIMEDOUT" 1 2]
  show ?thesis by simp
qed

end
