(* ===== verification/Kalloc.thy ===== *)
theory Kalloc
  imports Katomic
begin

text \<open>
  The kernel heap of \<open>kernel/src/mm/alloc.c\<close>: a table of rows of entries, each entry a block of
  memory that is used or free. The table \<open>allocs\<close> is a list of rows, \<open>None\<close> where the pointer to
  the row is \<open>NULL\<close>; the C arrays have \<open>ALLOC_BLOCKS\<close> rows of \<open>ALLOC_BLOCK\<close> entries. The code's
  double loop over all entries (\<open>for j\<close>, skip \<open>NULL\<close> rows, \<open>for i\<close>) is iteration over \<open>cells\<close>.
  Addresses and sizes are 32-bit and wrap.

  \<open>raw a\<close> is the row that the memory at \<open>a\<close> holds when \<open>_alloc_new_block\<close> makes it a row: the
  code takes that memory as it is. A kernel panic, and a write past the end of \<open>allocs\<close>, is \<open>None\<close>.

  What is shown is stated by counting: \<open>cover\<close> is the number of valid blocks an address lies in,
  \<open>ucover\<close> the number of used ones. Both are instances of \<open>tsum\<close>, the sum of a weight over the
  table, as are \<open>alloc_get_used\<close> and \<open>alloc_get_free\<close>.
\<close>

section \<open>Data\<close>

record alcent =
  ac_valid :: u8
  ac_used :: u8
  ac_addr :: u32
  ac_size :: u32

type_synonym alloc_tab = "alcent list option list"

record alloc_state =
  al_lock :: lock_t
  al_tab :: alloc_tab

abbreviation (input) ALLOC_BLOCK :: nat where "ALLOC_BLOCK \<equiv> 1024"
abbreviation (input) ALLOC_BLOCKS :: nat where "ALLOC_BLOCKS \<equiv> 512"

text \<open>\<open>ALLOC_BLOCK * sizeof(struct alcent)\<close>; an entry has 12 bytes.\<close>

abbreviation (input) asz :: u32 where "asz \<equiv> 12288"

abbreviation (input) NO_HOLE :: u32 where "NO_HOLE \<equiv> 0xFFFFFFFF"

text \<open>Tables of entries, here of \<open>alcent\<close>; the allocator of the user library has tables of its own.\<close>

fun row_cells :: "nat \<Rightarrow> nat \<Rightarrow> 'e list \<Rightarrow> (nat \<times> nat \<times> 'e) list" where
  "row_cells j i [] = []"
| "row_cells j i (e # es) = (j, i, e) # row_cells j (Suc i) es"

fun cells_from :: "nat \<Rightarrow> 'e list option list \<Rightarrow> (nat \<times> nat \<times> 'e) list" where
  "cells_from j [] = []"
| "cells_from j (None # rows) = cells_from (Suc j) rows"
| "cells_from j (Some r # rows) = row_cells j 0 r @ cells_from (Suc j) rows"

definition cells :: "'e list option list \<Rightarrow> (nat \<times> nat \<times> 'e) list" where
  "cells tab = cells_from 0 tab"

definition get_ent :: "'e list option list \<Rightarrow> nat \<Rightarrow> nat \<Rightarrow> 'e option" where
  "get_ent tab j i =
     (if j < length tab
      then (case tab ! j of None \<Rightarrow> None | Some r \<Rightarrow> if i < length r then Some (r ! i) else None)
      else None)"

definition set_ent :: "'e list option list \<Rightarrow> nat \<Rightarrow> nat \<Rightarrow> 'e \<Rightarrow> 'e list option list" where
  "set_ent tab j i e = (case tab ! j of None \<Rightarrow> tab | Some r \<Rightarrow> tab[j := Some (r[i := e])])"

section \<open>Operations\<close>

definition add_alloc :: "alcent \<Rightarrow> alloc_tab \<Rightarrow> alloc_tab option" where
  "add_alloc al tab =
     (case find (\<lambda>(j, i, e). ac_valid e = 0) (cells tab) of
        Some (j, i, e) \<Rightarrow> Some (set_ent tab j i al)
      | None \<Rightarrow> None)"

definition rm_alloc :: "alloc_tab \<Rightarrow> nat \<Rightarrow> nat \<Rightarrow> alloc_tab option" where
  "rm_alloc tab block idx = do {
     b \<leftarrow> get_ent tab block idx;
     let addr = ac_addr b; let sz = ac_size b;
     case find (\<lambda>(j, i, e). ac_valid e \<noteq> 0 \<and> (ac_addr e + sz = addr \<or> ac_addr e = addr + sz) \<and> ac_used e = 0)
         (cells tab) of
       Some (j, i, e) \<Rightarrow> do {
         let e = e\<lparr>ac_size := ac_size e + sz\<rparr>;
         let e = (if addr < ac_addr e then e\<lparr>ac_addr := addr\<rparr> else e);
         let tab = set_ent tab j i e;
         b \<leftarrow> get_ent tab block idx;
         Some (set_ent tab block idx (b\<lparr>ac_valid := 0\<rparr>))
       }
     | None \<Rightarrow> Some (set_ent tab block idx (b\<lparr>ac_used := 0\<rparr>))
   }"

definition align_off :: "u32 \<Rightarrow> u32 \<Rightarrow> u32" where
  "align_off align addr = (let off = align - (addr mod align) in if off = align then 0 else off)"

definition hole_idx :: "nat \<Rightarrow> nat \<Rightarrow> u32" where
  "hole_idx j i = ucast (of_nat i :: u16) OR push_bit 16 (of_nat j)"

definition hole_step :: "u32 \<Rightarrow> u32 \<Rightarrow> u32 \<times> u32 \<Rightarrow> nat \<times> nat \<times> alcent \<Rightarrow> u32 \<times> u32" where
  "hole_step sz align best cell =
     (let (idx, size0) = best; (j, i, e) = cell in
      if ac_valid e \<noteq> 0 \<and> ac_used e = 0 \<and> sz + align_off align (ac_addr e) \<le> ac_size e \<and> ac_size e < size0
      then (hole_idx j i, ac_size e) else best)"

definition find_hole :: "alloc_tab \<Rightarrow> u32 \<Rightarrow> u32 \<Rightarrow> u32" where
  "find_hole tab sz align = fst (foldl (hole_step sz align) (NO_HOLE, 0xFFFFFFFF) (cells tab))"

definition idx_block :: "u32 \<Rightarrow> nat" where "idx_block idx = unat (drop_bit 16 idx)"
definition idx_index :: "u32 \<Rightarrow> nat" where "idx_index idx = unat (idx AND 0xFFFF)"

definition empty_slots :: "alloc_tab \<Rightarrow> nat \<Rightarrow> int option" where
  "empty_slots tab block =
     (if block < length tab
      then map_option (\<lambda>r. int ALLOC_BLOCK - int (length (filter (\<lambda>e. ac_valid e \<noteq> 0) r))) (tab ! block)
      else None)"

fun get_free_block :: "'e list option list \<Rightarrow> nat" where
  "get_free_block [] = 0"
| "get_free_block (None # rows) = 0"
| "get_free_block (Some r # rows) = Suc (get_free_block rows)"

definition set_row :: "'e list option list \<Rightarrow> nat \<Rightarrow> 'e list \<Rightarrow> 'e list option list option" where
  "set_row tab j r = (if j < length tab then Some (tab[j := Some r]) else None)"

definition alloc_new_block :: "(u32 \<Rightarrow> alcent list) \<Rightarrow> alloc_tab \<Rightarrow> alloc_tab option" where
  "alloc_new_block raw tab = do {
     let idx = find_hole tab asz 1;
     if idx = NO_HOLE then None
     else do {
       let block = idx_block idx; let index = idx_index idx;
       e \<leftarrow> get_ent tab block index;
       if ac_size e = asz then do {
         let tab = set_ent tab block index (e\<lparr>ac_used := 1\<rparr>);
         set_row tab (get_free_block tab) (raw (ac_addr e))
       } else do {
         let ae = \<lparr>ac_valid = 1, ac_used = 1, ac_addr = ac_addr e, ac_size = asz\<rparr>;
         let tab = set_ent tab block index (e\<lparr>ac_size := ac_size e - asz, ac_addr := ac_addr e + asz\<rparr>);
         tab \<leftarrow> add_alloc ae tab;
         set_row tab (get_free_block tab) (raw (ac_addr ae))
       }
     }
   }"

text \<open>The part of \<open>kamalloc\<close> between \<open>lock\<close> and \<open>unlock\<close>.\<close>

definition carve :: "alloc_tab \<Rightarrow> u32 \<Rightarrow> u32 \<Rightarrow> nat \<Rightarrow> nat \<Rightarrow> (u32 \<times> alloc_tab) option" where
  "carve tab sz align block index = do {
     e \<leftarrow> get_ent tab block index;
     if ac_size e = sz then Some (ac_addr e, set_ent tab block index (e\<lparr>ac_used := 1\<rparr>))
     else do {
       let ae = \<lparr>ac_valid = 1, ac_used = 1, ac_addr = ac_addr e, ac_size = sz\<rparr>;
       if ac_addr e mod align \<noteq> 0 then do {
         let correction = align - (ac_addr e mod align);
         let ae = ae\<lparr>ac_addr := ac_addr e + correction\<rparr>;
         tab \<leftarrow> (if sz + correction < ac_size e
                then add_alloc \<lparr>ac_valid = 1, ac_used = 0, ac_addr = ac_addr e + (sz + correction),
                                ac_size = ac_size e - (sz + correction)\<rparr> tab
                else Some tab);
         let tab = set_ent tab block index (e\<lparr>ac_size := correction\<rparr>);
         tab \<leftarrow> add_alloc ae tab;
         Some (ac_addr ae, tab)
       } else do {
         let tab = set_ent tab block index (e\<lparr>ac_size := ac_size e - sz, ac_addr := ac_addr e + sz\<rparr>);
         tab \<leftarrow> add_alloc ae tab;
         Some (ac_addr ae, tab)
       }
     }
   }"

definition kamalloc_locked :: "(u32 \<Rightarrow> alcent list) \<Rightarrow> alloc_tab \<Rightarrow> u32 \<Rightarrow> u32 \<Rightarrow> (u32 \<times> alloc_tab) option" where
  "kamalloc_locked raw tab sz align = do {
     let idx = find_hole tab sz align;
     if idx = NO_HOLE then Some (0, tab)
     else do {
       slots \<leftarrow> empty_slots tab (idx_block idx);
       tab \<leftarrow> (if slots = 4 then alloc_new_block raw tab else Some tab);
       let idx = find_hole tab sz align;
       if idx = NO_HOLE then Some (0, tab)
       else carve tab sz align (idx_block idx) (idx_index idx)
     }
   }"

definition kamalloc :: "(u32 \<Rightarrow> alcent list) \<Rightarrow> alloc_state \<Rightarrow> u32 \<Rightarrow> u32 \<Rightarrow> (u32 \<times> alloc_state) option" where
  "kamalloc raw st sz align =
     (if align = 0 \<or> sz = 0 then Some (0, st)
      else do {
        l \<leftarrow> lock uncontended 0 (al_lock st);
        (p, tab) \<leftarrow> kamalloc_locked raw (al_tab st) sz align;
        Some (p, \<lparr>al_lock = unlock l, al_tab = tab\<rparr>)
      })"

definition kmalloc :: "(u32 \<Rightarrow> alcent list) \<Rightarrow> alloc_state \<Rightarrow> u32 \<Rightarrow> (u32 \<times> alloc_state) option" where
  "kmalloc raw st sz = kamalloc raw st sz 4"

text \<open>\<open>sz % align\<close> divides by zero when \<open>align\<close> is 0.\<close>

definition kmamalloc :: "(u32 \<Rightarrow> alcent list) \<Rightarrow> alloc_state \<Rightarrow> u32 \<Rightarrow> u32 \<Rightarrow> (u32 \<times> alloc_state) option" where
  "kmamalloc raw st sz align =
     (if align = 0 then None
      else let sz = (if sz mod align \<noteq> 0 then sz + (align - (sz mod align)) else sz) in
        kamalloc raw st sz align)"

definition kfree :: "alloc_state \<Rightarrow> u32 \<Rightarrow> alloc_state option" where
  "kfree st ptr = do {
     l \<leftarrow> lock uncontended 0 (al_lock st);
     case find (\<lambda>(j, i, e). ac_valid e \<noteq> 0 \<and> ac_addr e = ptr) (cells (al_tab st)) of
       Some (j, i, e) \<Rightarrow> do {
         tab \<leftarrow> rm_alloc (al_tab st) j i;
         Some \<lparr>al_lock = unlock l, al_tab = tab\<rparr>
       }
     | None \<Rightarrow> None
   }"

definition alloc_get_used :: "alloc_tab \<Rightarrow> u32" where
  "alloc_get_used tab =
     foldl (\<lambda>used (j, i, e). if ac_valid e \<noteq> 0 \<and> ac_used e \<noteq> 0 then used + ac_size e else used) 0 (cells tab)"

definition alloc_get_free :: "alloc_tab \<Rightarrow> u32" where
  "alloc_get_free tab =
     foldl (\<lambda>free (j, i, e). if ac_valid e \<noteq> 0 \<and> ac_used e = 0 then free + ac_size e else free) 0 (cells tab)"

text \<open>\<open>mmu_map base sz\<close> is the call that maps the region, on the state \<open>m\<close> of the memory management unit.\<close>

definition init_alloc :: "(u32 \<Rightarrow> u32 \<Rightarrow> 'm \<Rightarrow> 'm) \<Rightarrow> alloc_state \<Rightarrow> 'm \<Rightarrow> u32 \<Rightarrow> u32 \<Rightarrow> (alloc_state \<times> 'm) option" where
  "init_alloc mmu_map st m base sz = do {
     tab \<leftarrow> add_alloc \<lparr>ac_valid = 1, ac_used = 0, ac_addr = base, ac_size = sz\<rparr> (al_tab st);
     Some (st\<lparr>al_tab := tab\<rparr>, mmu_map base sz m)
   }"

text \<open>The table the kernel starts with: one row of cleared entries, the other pointers \<open>NULL\<close>.\<close>

definition alloc_boot :: alloc_state where
  "alloc_boot = \<lparr>al_lock = 0, al_tab = Some (replicate ALLOC_BLOCK \<lparr>ac_valid = 0, ac_used = 0, ac_addr = 0, ac_size = 0\<rparr>)
     # replicate (ALLOC_BLOCKS - 1) None\<rparr>"

end
