(* ===== verification/Kalloc_Heap.thy ===== *)
theory Kalloc_Heap
  imports Kalloc "HOL-Library.Multiset"
begin

text \<open>
  The kernel heap as a multiset of blocks: the abstraction of the table of \<open>alloc.c\<close>, the
  abstract operations that allocation and release perform on it, and the lemmas that the
  operations of \<open>Kalloc\<close> refine them.
\<close>

section \<open>Blocks\<close>

text \<open>A block: used or not, first address, number of bytes.\<close>

type_synonym block = "bool \<times> nat \<times> nat"

definition bl :: "alcent \<Rightarrow> block multiset" where
  "bl e = (if ac_valid e = 0 then {#} else {#(ac_used e \<noteq> 0, unat (ac_addr e), unat (ac_size e))#})"

definition tsum :: "('e \<Rightarrow> 'm :: comm_monoid_add) \<Rightarrow> 'e list option list \<Rightarrow> 'm" where
  "tsum f tab = sum_list (map (\<lambda>(j, i, e). f e) (cells tab))"

definition blocks :: "alloc_tab \<Rightarrow> block multiset" where
  "blocks tab = tsum bl tab"

definition cover :: "block multiset \<Rightarrow> nat \<Rightarrow> nat" where
  "cover M x = size {#(u, a, n) \<in># M. a \<le> x \<and> x < a + n#}"

definition ucover :: "block multiset \<Rightarrow> nat \<Rightarrow> nat" where
  "ucover M x = size {#(u, a, n) \<in># M. u \<and> a \<le> x \<and> x < a + n#}"

text \<open>Blocks do not overlap, are not empty, and lie between 1 and \<open>2 ^ 32\<close>.\<close>

definition ok_heap :: "block multiset \<Rightarrow> bool" where
  "ok_heap M \<longleftrightarrow> (\<forall>(u, a, n) \<in># M. 0 < a \<and> 0 < n \<and> a + n < 4294967296) \<and> (\<forall>x. cover M x \<le> 1)"

definition dims :: "alloc_tab \<Rightarrow> nat option list" where
  "dims tab = map (map_option length) tab"

definition dims_ok :: "alloc_tab \<Rightarrow> bool" where
  "dims_ok tab \<longleftrightarrow> length tab \<le> 1024 \<and>
     list_all (\<lambda>n. case n of None \<Rightarrow> True | Some n \<Rightarrow> n \<le> ALLOC_BLOCK) (dims tab)"

definition alloc_inv :: "alloc_tab \<Rightarrow> bool" where
  "alloc_inv tab \<longleftrightarrow> dims_ok tab \<and> ok_heap (blocks tab)"

section \<open>Abstract operations\<close>

definition pieces :: "nat \<Rightarrow> nat \<Rightarrow> nat \<Rightarrow> nat \<Rightarrow> block multiset" where
  "pieces A S p n = {#(True, p, n)#} + (if A < p then {#(False, A, p - A)#} else {#})
     + (if p + n < A + S then {#(False, p + n, A + S - (p + n))#} else {#})"

text \<open>The block of \<open>n\<close> bytes at \<open>p\<close> is cut out of one free block; what is left of it stays free.\<close>

definition heap_alloc :: "block multiset \<Rightarrow> block multiset \<Rightarrow> nat \<Rightarrow> nat \<Rightarrow> bool" where
  "heap_alloc M M' p n \<longleftrightarrow> (\<exists>R A S. M = add_mset (False, A, S) R \<and> M' = R + pieces A S p n \<and>
     A \<le> p \<and> p + n \<le> A + S \<and> 0 < n)"

text \<open>The block at \<open>p\<close> becomes free, alone or merged with one adjacent free block.\<close>

definition heap_free :: "block multiset \<Rightarrow> block multiset \<Rightarrow> nat \<Rightarrow> bool" where
  "heap_free M M' p \<longleftrightarrow> (\<exists>R u n. M = add_mset (u, p, n) R \<and>
     (M' = add_mset (False, p, n) R \<or>
      (\<exists>R' b m. R = add_mset (False, b, m) R' \<and> (b + m = p \<and> M' = add_mset (False, b, m + n) R' \<or>
         p + n = b \<and> M' = add_mset (False, p, n + m) R'))))"

lemma cover_simps [simp]:
  "cover {#} x = 0"
  "cover (M + N) x = cover M x + cover N x"
  "cover (add_mset (u, a, n) M) x = of_bool (a \<le> x \<and> x < a + n) + cover M x"
  by (simp_all add: cover_def)

lemma ucover_simps [simp]:
  "ucover {#} x = 0"
  "ucover (M + N) x = ucover M x + ucover N x"
  "ucover (add_mset (u, a, n) M) x = of_bool (u \<and> a \<le> x \<and> x < a + n) + ucover M x"
  by (simp_all add: ucover_def)

lemma ucover_le_cover: "ucover M x \<le> cover M x"
  by (induction M) auto

lemma pieces_cover:
  assumes "A \<le> p" "p + n \<le> A + S"
  shows "cover (pieces A S p n) x = of_bool (A \<le> x \<and> x < A + S)"
    and "ucover (pieces A S p n) x = of_bool (p \<le> x \<and> x < p + n)"
  using assms by (auto simp: pieces_def)

lemma heap_alloc_cover:
  assumes "heap_alloc M M' p n"
  shows "cover M' x = cover M x" and "ucover M' x = ucover M x + of_bool (p \<le> x \<and> x < p + n)"
  using assms by (auto simp: heap_alloc_def pieces_cover)

lemma heap_alloc_was_free:
  assumes "heap_alloc M M' p n" and "cover M x \<le> 1" and "p \<le> x" "x < p + n"
  shows "cover M x = 1 \<and> ucover M x = 0"
proof -
  from assms(1) obtain R A S where M: "M = add_mset (False, A, S) R" "A \<le> p" "p + n \<le> A + S"
    by (auto simp: heap_alloc_def)
  with assms(2-) have "cover R x = 0" by simp
  with ucover_le_cover [of R x] M assms(2-) show ?thesis by simp
qed

lemma heap_alloc_ok:
  assumes "heap_alloc M M' p n" and "ok_heap M"
  shows "ok_heap M'"
proof -
  from assms(1) obtain R A S where M: "M = add_mset (False, A, S) R" "M' = R + pieces A S p n"
    "A \<le> p" "p + n \<le> A + S" "0 < n" by (auto simp: heap_alloc_def)
  with assms(2) have "\<forall>(u, a, n) \<in># M'. 0 < a \<and> 0 < n \<and> a + n < 4294967296"
    by (auto simp: ok_heap_def pieces_def)
  with assms(2) show ?thesis
    unfolding ok_heap_def heap_alloc_cover(1) [OF assms(1)] by blast
qed

lemma heap_free_cover:
  assumes "heap_free M M' p" and "ok_heap M" and "cover M p = 1" and "ucover M p = 1"
  obtains n where "(True, p, n) \<in># M" "\<And>x. cover M' x = cover M x"
    "\<And>x. ucover M x = ucover M' x + of_bool (p \<le> x \<and> x < p + n)" "ok_heap M'"
proof -
  from assms(1) obtain R u n where M: "M = add_mset (u, p, n) R" and
    M': "M' = add_mset (False, p, n) R \<or>
      (\<exists>R' b m. R = add_mset (False, b, m) R' \<and> (b + m = p \<and> M' = add_mset (False, b, m + n) R' \<or>
         p + n = b \<and> M' = add_mset (False, p, n + m) R'))"
    unfolding heap_free_def by blast
  from M assms(2) have n: "0 < n" by (auto simp: ok_heap_def)
  from M n assms(3) have "cover R p = 0" by simp
  with ucover_le_cover [of R p] have "ucover R p = 0" by simp
  with M n assms(4) have u: "u" by (cases u) simp_all
  have cov: "cover M' x = cover M x" for x using M M' by (auto split: if_splits)
  have "ucover M x = ucover M' x + of_bool (p \<le> x \<and> x < p + n)" for x using M M' u by auto
  moreover have "ok_heap M'"
    using assms(2) cov M M' unfolding ok_heap_def by auto
  ultimately show thesis using that M u cov by auto
qed

section \<open>The table\<close>

lemma cells_from_row [simp]: "map (\<lambda>(j, i, e). f e) (row_cells j i es) = map f es"
  by (induction j i es rule: row_cells.induct) auto

lemma row_cells_mem: "(j', i', e) \<in> set (row_cells j i es) \<longleftrightarrow> j' = j \<and> i \<le> i' \<and> i' < i + length es \<and> e = es ! (i' - i)"
proof (induction j i es rule: row_cells.induct)
  case (2 j i e es)
  then show ?case by (auto simp: nth_Cons' Suc_diff_le Suc_le_eq)
qed auto

lemma cells_from_mem:
  "(j', i, e) \<in> set (cells_from j tab) \<longleftrightarrow> j \<le> j' \<and> get_ent tab (j' - j) i = Some e"
proof (induction j tab rule: cells_from.induct)
  case (1 j)
  then show ?case by (simp add: get_ent_def)
next
  case (2 j rows)
  then show ?case by (auto simp: get_ent_def nth_Cons' Suc_diff_le Suc_le_eq split: if_splits)
next
  case (3 j r rows)
  then show ?case by (auto simp: get_ent_def nth_Cons' row_cells_mem Suc_diff_le Suc_le_eq split: if_splits)
qed

lemma cells_mem: "(j, i, e) \<in> set (cells tab) \<longleftrightarrow> get_ent tab j i = Some e"
  by (simp add: cells_def cells_from_mem)

lemma find_cells:
  assumes "find P (cells tab) = Some (j, i, e)"
  shows "get_ent tab j i = Some e" and "P (j, i, e)"
  using assms by (auto simp: find_Some_iff simp flip: cells_mem)

definition row_sum :: "('e \<Rightarrow> 'm :: comm_monoid_add) \<Rightarrow> 'e list option \<Rightarrow> 'm" where
  "row_sum f r = (case r of None \<Rightarrow> 0 | Some es \<Rightarrow> sum_list (map f es))"

lemma tsum_rows: "tsum f tab = sum_list (map (row_sum f) tab)"
proof -
  have "sum_list (map (\<lambda>(j, i, e). f e) (cells_from j tab)) = sum_list (map (row_sum f) tab)" for j
    by (induction j tab rule: cells_from.induct) (auto simp: row_sum_def)
  then show ?thesis by (simp add: tsum_def cells_def)
qed

lemma sum_list_upd:
  "i < length xs \<Longrightarrow> sum_list (map f (xs[i := x])) + f (xs ! i) = sum_list (map f xs) + (f x :: 'a :: comm_monoid_add)"
  by (induction xs arbitrary: i) (auto split: nat.split simp: add_ac)

lemma get_entE:
  assumes "get_ent tab j i = Some e"
  obtains r where "j < length tab" "tab ! j = Some r" "i < length r" "r ! i = e"
  using assms by (auto simp: get_ent_def split: if_splits option.splits)

lemma tsum_set_ent:
  fixes f :: "'e \<Rightarrow> 'm :: cancel_comm_monoid_add"
  assumes "get_ent tab j i = Some old"
  shows "tsum f (set_ent tab j i e) + f old = tsum f tab + f e"
proof -
  from assms obtain r where r: "j < length tab" "tab ! j = Some r" "i < length r" "r ! i = old"
    by (rule get_entE)
  let ?r = "Some (r[i := e])"
  have "row_sum f ?r + f old = row_sum f (tab ! j) + f e"
    using sum_list_upd [OF r(3), of f e] r by (simp add: row_sum_def)
  moreover have "tsum f (set_ent tab j i e) + row_sum f (tab ! j) = tsum f tab + row_sum f ?r"
    using sum_list_upd [OF r(1), of "row_sum f" ?r] r by (simp add: tsum_rows set_ent_def)
  ultimately have "(tsum f (set_ent tab j i e) + f old) + row_sum f (tab ! j)
      = (tsum f tab + f e) + row_sum f (tab ! j)"
    by (metis (no_types, lifting) add.commute add.left_commute)
  then show ?thesis by simp
qed

lemma blocks_set_ent: "get_ent tab j i = Some old \<Longrightarrow> blocks (set_ent tab j i e) + bl old = blocks tab + bl e"
  unfolding blocks_def by (rule tsum_set_ent)

lemma blocks_split:
  assumes "get_ent tab j i = Some e"
  obtains R where "blocks tab = R + bl e" "\<And>e'. blocks (set_ent tab j i e') = R + bl e'"
proof -
  let ?R = "blocks tab - bl e"
  have "bl e \<subseteq># blocks tab"
  proof -
    have "blocks (set_ent tab j i (e\<lparr>ac_valid := 0\<rparr>)) + bl e = blocks tab"
      using blocks_set_ent [OF assms, of "e\<lparr>ac_valid := 0\<rparr>"] by (simp add: bl_def)
    then show ?thesis by (metis mset_subset_eq_add_right)
  qed
  then have R: "blocks tab = ?R + bl e" by simp
  moreover have "blocks (set_ent tab j i e') = ?R + bl e'" for e'
  proof -
    have "blocks (set_ent tab j i e') + bl e = (?R + bl e') + bl e"
      unfolding blocks_set_ent [OF assms, of e'] by (subst R) (simp add: add_ac)
    then show ?thesis by simp
  qed
  ultimately show thesis by (rule that)
qed

lemma get_set_ent:
  assumes "get_ent tab j i = Some old"
  shows "get_ent (set_ent tab j i e) j' i' = (if j' = j \<and> i' = i then Some e else get_ent tab j' i')"
  using assms by (auto simp: get_ent_def set_ent_def nth_list_update split: if_splits option.splits)

lemma dims_set_ent [simp]: "dims (set_ent tab j i e) = dims tab"
  by (cases "j < length tab")
    (auto simp: dims_def set_ent_def map_update list_update_same_conv list_update_beyond split: option.split)

lemma dims_ok_set_ent [simp]: "dims_ok (set_ent tab j i e) = dims_ok tab"
  by (simp add: dims_ok_def set_ent_def [of tab j i e] dims_set_ent [unfolded set_ent_def] split: option.split)

lemma length_set_ent [simp]: "length (set_ent tab j i e) = length tab"
  by (simp add: set_ent_def split: option.split)

end
