(* ===== verification/Kalloc_Sound.thy ===== *)
theory Kalloc_Sound
  imports Kalloc_Heap
begin

text \<open>
  The operations of the kernel heap refine the abstract heap: \<open>find_hole\<close> finds the smallest
  free block that is large enough, \<open>kamalloc\<close> cuts the result out of it, \<open>kfree\<close> gives a block
  back. The properties of the allocator are at the end.
\<close>

section \<open>Entries\<close>

lemma bl_valid: "ac_valid e \<noteq> 0 \<Longrightarrow> bl e = {#(ac_used e \<noteq> 0, unat (ac_addr e), unat (ac_size e))#}"
  by (simp add: bl_def)

lemma ent_in_blocks:
  assumes "get_ent tab j i = Some e" and "ac_valid e \<noteq> 0"
  shows "(ac_used e \<noteq> 0, unat (ac_addr e), unat (ac_size e)) \<in># blocks tab"
  by (rule blocks_split [OF assms(1)]) (simp add: bl_valid assms(2))

lemma blocks_ent:
  assumes "b \<in># blocks tab"
  obtains j i e where "get_ent tab j i = Some e" "ac_valid e \<noteq> 0"
    "b = (ac_used e \<noteq> 0, unat (ac_addr e), unat (ac_size e))"
proof -
  have "x \<in># sum_list (map (\<lambda>(j, i, e). bl e) cs) \<Longrightarrow> \<exists>(j, i, e) \<in> set cs. x \<in># bl e" for x cs
    by (induction cs) auto
  with assms obtain j i e where "(j, i, e) \<in> set (cells tab)" "b \<in># bl e"
    unfolding blocks_def tsum_def by blast
  with that [of j i e] show thesis by (simp add: cells_mem bl_def split: if_splits)
qed

lemma ent_ok:
  assumes "alloc_inv tab" "get_ent tab j i = Some e" "ac_valid e \<noteq> 0"
  shows "0 < unat (ac_addr e)" "0 < unat (ac_size e)" "unat (ac_addr e) + unat (ac_size e) < 4294967296"
  using ent_in_blocks [OF assms(2,3)] assms(1) by (auto simp: alloc_inv_def ok_heap_def)

lemma ent_dims:
  assumes "dims_ok tab" "get_ent tab j i = Some e"
  shows "j < 1024" "i < 1024"
proof -
  from assms(2) obtain r where r: "j < length tab" "tab ! j = Some r" "i < length r" by (rule get_entE)
  with assms(1) have "case dims tab ! j of None \<Rightarrow> True | Some n \<Rightarrow> n \<le> 1024"
    by (auto simp: dims_ok_def list_all_length dims_def simp del: nth_map)
  with r assms(1) show "j < 1024" "i < 1024" by (auto simp: dims_def dims_ok_def)
qed

section \<open>Adding an entry\<close>

lemma add_alloc_SomeE:
  assumes "add_alloc al tab = Some tab'"
  obtains j i e where "get_ent tab j i = Some e" "ac_valid e = 0" "tab' = set_ent tab j i al"
  using assms by (auto simp: add_alloc_def split: option.splits dest: find_cells)

lemma add_alloc_blocks: "add_alloc al tab = Some tab' \<Longrightarrow> blocks tab' = blocks tab + bl al"
  by (elim add_alloc_SomeE) (metis blocks_split bl_def add.right_neutral)

lemma add_alloc_dims: "add_alloc al tab = Some tab' \<Longrightarrow> dims tab' = dims tab \<and> length tab' = length tab"
  by (elim add_alloc_SomeE) simp

lemma add_alloc_keeps:
  assumes "add_alloc al tab = Some tab'" "get_ent tab j i = Some e" "ac_valid e \<noteq> 0"
  shows "get_ent tab' j i = Some e"
  using assms by (elim add_alloc_SomeE) (auto simp: get_set_ent)

section \<open>Finding a hole\<close>

lemma bit_lt_16: "j < 65536 \<Longrightarrow> bit (j :: nat) n \<Longrightarrow> n < 16"
  using bit_take_bit_iff [of 16 j n] by (simp add: take_bit_nat_eq_self)

lemma hole_idx_block:
  assumes "j < 65536" and "i < 65536"
  shows "idx_block (hole_idx j i) = j" and "idx_index (hole_idx j i) = i"
proof -
  have m: "(0xFFFF :: u32) = mask 16" by (simp add: mask_eq_exp_minus_1)
  have "drop_bit 16 (hole_idx j i) = (of_nat j :: u32)"
    by (rule bit_word_eqI) (auto simp: hole_idx_def bit_simps dest: bit_lt_16 [OF assms(1)])
  then show "idx_block (hole_idx j i) = j" using assms by (simp add: idx_block_def unat_of_nat_u32)
  have "hole_idx j i AND mask 16 = (of_nat i :: u32)"
    by (rule bit_word_eqI) (auto simp: hole_idx_def bit_simps dest: bit_lt_16 [OF assms(2)])
  then show "idx_index (hole_idx j i) = i" using assms by (simp add: idx_index_def m unat_of_nat_u32)
qed

lemma hole_idx_valid: "j < 1024 \<Longrightarrow> i < 1024 \<Longrightarrow> hole_idx j i \<noteq> NO_HOLE"
proof
  assume j: "j < 1024" "i < 1024" and eq: "hole_idx j i = NO_HOLE"
  from hole_idx_block(2) [of j i] j have "idx_index (hole_idx j i) = i" by simp
  with j show False unfolding eq by (simp add: idx_index_def)
qed

definition fits :: "u32 \<Rightarrow> u32 \<Rightarrow> alcent \<Rightarrow> bool" where
  "fits sz align e \<longleftrightarrow> ac_valid e \<noteq> 0 \<and> ac_used e = 0 \<and> sz + align_off align (ac_addr e) \<le> ac_size e"

lemma hole_fold:
  "let r = foldl (hole_step sz align) best cs in
     snd r \<le> snd best \<and> (\<forall>(j, i, e) \<in> set cs. fits sz align e \<longrightarrow> snd r \<le> ac_size e) \<and>
     (r = best \<or> (\<exists>(j, i, e) \<in> set cs. fits sz align e \<and> r = (hole_idx j i, ac_size e)))"
proof (induction cs arbitrary: best)
  case Nil
  then show ?case by simp
next
  case (Cons c cs)
  obtain j i e where c: "c = (j, i, e)" by (cases c)
  obtain idx s where best: "best = (idx, s)" by (cases best)
  let ?b = "hole_step sz align best c"
  have b: "?b = (if fits sz align e \<and> ac_size e < s then (hole_idx j i, ac_size e) else (idx, s))"
    by (simp add: hole_step_def fits_def c best)
  from Cons.IH [of ?b] show ?case
    unfolding foldl_Cons Let_def using b by (auto simp: c best fits_def not_less split: if_splits)
qed

lemma find_hole_cases:
  assumes "alloc_inv tab"
  obtains (none) "find_hole tab sz align = NO_HOLE"
      "\<And>j i e. get_ent tab j i = Some e \<Longrightarrow> \<not> fits sz align e"
  | (some) j i e where "find_hole tab sz align \<noteq> NO_HOLE" "get_ent tab j i = Some e" "fits sz align e"
      "idx_block (find_hole tab sz align) = j" "idx_index (find_hole tab sz align) = i"
      "\<And>j' i' e'. get_ent tab j' i' = Some e' \<Longrightarrow> fits sz align e' \<Longrightarrow> ac_size e \<le> ac_size e'"
proof -
  define r where "r = foldl (hole_step sz align) (NO_HOLE, 0xFFFFFFFF) (cells tab)"
  have h: "find_hole tab sz align = fst r" by (simp add: find_hole_def r_def)
  from hole_fold [of sz align "(NO_HOLE, 0xFFFFFFFF)" "cells tab"]
  have low: "\<And>j i e. get_ent tab j i = Some e \<Longrightarrow> fits sz align e \<Longrightarrow> snd r \<le> ac_size e"
    and res: "r = (NO_HOLE, 0xFFFFFFFF) \<or>
      (\<exists>j i e. get_ent tab j i = Some e \<and> fits sz align e \<and> r = (hole_idx j i, ac_size e))"
    by (auto simp: Let_def r_def simp flip: cells_mem)
  from res show thesis
  proof (elim disjE exE conjE)
    assume r: "r = (NO_HOLE, 0xFFFFFFFF)"
    have "\<not> fits sz align e" if e: "get_ent tab j i = Some e" for j i e
    proof
      assume f: "fits sz align e"
      from low [OF e f] r have "4294967295 \<le> unat (ac_size e)" by (simp add: word_le_nat_alt)
      with ent_ok [OF assms e] f show False by (simp add: fits_def)
    qed
    with none r h show thesis by simp
  next
    fix j i e
    assume e: "get_ent tab j i = Some e" and f: "fits sz align e" and r: "r = (hole_idx j i, ac_size e)"
    from assms have "dims_ok tab" by (simp add: alloc_inv_def)
    note d = ent_dims [OF this e]
    from some [of j i e] e f r h low hole_idx_block [of j i] hole_idx_valid [OF d] d show thesis by simp
  qed
qed

section \<open>Alignment\<close>

lemma align_off:
  assumes "align \<noteq> 0"
  shows "unat (align_off align a) < unat align" and "unat align dvd unat a + unat (align_off align a)"
    and "align_off align a = 0 \<longleftrightarrow> a mod align = 0"
    and "a mod align \<noteq> 0 \<Longrightarrow> align_off align a = align - a mod align"
proof -
  let ?m = "a mod align"
  have m: "unat ?m = unat a mod unat align" by (rule unat_mod)
  have pos: "0 < unat align" using assms by (simp add: unat_gt_0)
  have lt: "unat ?m < unat align" using pos by (simp add: m)
  have sub: "unat (align - ?m) = unat align - unat ?m"
    by (rule unat_sub) (use lt in \<open>simp add: word_le_nat_alt\<close>)
  have eq: "align_off align a = (if ?m = 0 then 0 else align - ?m)"
    by (auto simp: align_off_def Let_def)
  show "unat (align_off align a) < unat align"
  proof (cases "?m = 0")
    case True
    then show ?thesis using pos by (simp add: eq)
  next
    case False
    then have "0 < unat ?m" by (simp add: unat_gt_0)
    then show ?thesis using False pos sub by (simp add: eq)
  qed
  have "unat a + (unat align - unat a mod unat align) = unat align * (unat a div unat align) + unat align"
    using mult_div_mod_eq [of "unat align" "unat a"] lt m by linarith
  then have "unat align dvd unat a + (unat align - unat a mod unat align)" by simp
  then show "unat align dvd unat a + unat (align_off align a)"
    using m sub by (cases "?m = 0") (auto simp: eq)
  show "align_off align a = 0 \<longleftrightarrow> ?m = 0" using assms lt sub by (auto simp: eq)
  show "?m \<noteq> 0 \<Longrightarrow> align_off align a = align - ?m" by (simp add: eq)
qed

section \<open>Cutting a block\<close>

text \<open>The numbers in a fitting entry: none of the sums the code forms wraps.\<close>

lemma fits_nums:
  assumes "alloc_inv tab" "get_ent tab j i = Some e" "fits sz align e" "align \<noteq> 0"
    and "unat sz + unat align \<le> 4294967296"
  defines "off \<equiv> align_off align (ac_addr e)"
  shows "unat (sz + off) = unat sz + unat off"
    and "unat sz + unat off \<le> unat (ac_size e)"
    and "unat (ac_addr e + off) = unat (ac_addr e) + unat off"
    and "unat (ac_addr e + (sz + off)) = unat (ac_addr e) + unat sz + unat off"
    and "unat (ac_size e - (sz + off)) = unat (ac_size e) - (unat sz + unat off)"
    and "unat (ac_addr e) + unat (ac_size e) < 4294967296"
proof -
  have v: "ac_valid e \<noteq> 0" "sz + off \<le> ac_size e" using assms(3) by (auto simp: fits_def off_def)
  note ok = ent_ok [OF assms(1,2) v(1)]
  then show "unat (ac_addr e) + unat (ac_size e) < 4294967296" by simp
  have "unat off < unat align" unfolding off_def by (rule align_off(1) [OF assms(4)])
  with assms(5) show s: "unat (sz + off) = unat sz + unat off" by (intro unat_add_u32_lt) simp
  with v(2) show le: "unat sz + unat off \<le> unat (ac_size e)" by (simp add: word_le_nat_alt)
  from le ok show "unat (ac_addr e + off) = unat (ac_addr e) + unat off" by (intro unat_add_u32_lt) simp
  have "unat (ac_addr e + (sz + off)) = unat (ac_addr e) + unat (sz + off)"
    using s le ok by (intro unat_add_u32_lt) simp
  then show "unat (ac_addr e + (sz + off)) = unat (ac_addr e) + unat sz + unat off" using s by simp
  show "unat (ac_size e - (sz + off)) = unat (ac_size e) - (unat sz + unat off)"
    using v(2) s by (simp add: unat_sub_u32)
qed

lemma alloc_pieces:
  assumes "blocks tab = R + bl e" "ac_valid e \<noteq> 0" "ac_used e = 0" "M' = R + pieces (unat (ac_addr e)) (unat (ac_size e)) p n"
    and "unat (ac_addr e) \<le> p" "p + n \<le> unat (ac_addr e) + unat (ac_size e)" "0 < n"
  shows "heap_alloc (blocks tab) M' p n"
  unfolding heap_alloc_def using assms
  by (intro exI [of _ R] exI [of _ "unat (ac_addr e)"] exI [of _ "unat (ac_size e)"]) (simp add: bl_valid)

lemma carve_aligned:
  assumes e: "get_ent tab j i = Some e" "ac_valid e \<noteq> 0" "ac_used e = 0"
    and tab': "add_alloc \<lparr>ac_valid = 1, ac_used = 1, ac_addr = ac_addr e, ac_size = sz\<rparr>
      (set_ent tab j i (e\<lparr>ac_size := ac_size e - sz, ac_addr := ac_addr e + sz\<rparr>)) = Some tab'"
    and sz: "sz < ac_size e" "sz \<noteq> 0" "unat (ac_addr e) + unat (ac_size e) < 4294967296"
  shows "heap_alloc (blocks tab) (blocks tab') (unat (ac_addr e)) (unat sz) \<and> dims tab' = dims tab \<and> length tab' = length tab"
proof -
  from e(1) obtain R where R: "blocks tab = R + bl e" "\<And>e'. blocks (set_ent tab j i e') = R + bl e'"
    by (rule blocks_split) (rule that)
  have n: "unat (ac_size e - sz) = unat (ac_size e) - unat sz" "unat sz < unat (ac_size e)"
    "unat (ac_addr e + sz) = unat (ac_addr e) + unat sz"
    using sz by (auto simp: unat_sub_u32 word_less_nat_alt word_le_nat_alt intro!: unat_add_u32_lt)
  have "blocks tab' = R + pieces (unat (ac_addr e)) (unat (ac_size e)) (unat (ac_addr e)) (unat sz)"
    using n e add_alloc_blocks [OF tab'] by (simp add: R(2) bl_def pieces_def)
  with n sz(2) alloc_pieces [OF R(1) e(2,3)] add_alloc_dims [OF tab'] show ?thesis
    by (simp add: unat_gt_0)
qed

lemma carve_unaligned:
  assumes e: "get_ent tab j i = Some e" "ac_valid e \<noteq> 0" "ac_used e = 0"
    and tab1: "(if sz + off < ac_size e
        then add_alloc \<lparr>ac_valid = 1, ac_used = 0, ac_addr = ac_addr e + (sz + off), ac_size = ac_size e - (sz + off)\<rparr> tab
        else Some tab) = Some tab1"
    and tab': "add_alloc \<lparr>ac_valid = 1, ac_used = 1, ac_addr = ac_addr e + off, ac_size = sz\<rparr>
      (set_ent tab1 j i (e\<lparr>ac_size := off\<rparr>)) = Some tab'"
    and nums: "unat (sz + off) = unat sz + unat off" "unat sz + unat off \<le> unat (ac_size e)"
      "unat (ac_addr e + off) = unat (ac_addr e) + unat off"
      "unat (ac_addr e + (sz + off)) = unat (ac_addr e) + unat sz + unat off"
      "unat (ac_size e - (sz + off)) = unat (ac_size e) - (unat sz + unat off)"
    and sz: "sz \<noteq> 0" "off \<noteq> 0"
  shows "heap_alloc (blocks tab) (blocks tab') (unat (ac_addr e + off)) (unat sz) \<and> dims tab' = dims tab \<and> length tab' = length tab"
proof -
  let ?A = "unat (ac_addr e)" and ?S = "unat (ac_size e)" and ?n = "unat sz" and ?o = "unat off"
  let ?rest = "if ?n + ?o < ?S then {#(False, ?A + ?n + ?o, ?S - (?n + ?o))#} else {#}"
  have c: "sz + off < ac_size e \<longleftrightarrow> ?n + ?o < ?S" using nums(1) by (simp add: word_less_nat_alt)
  have b1: "blocks tab1 = blocks tab + ?rest" and e1: "get_ent tab1 j i = Some e"
    and d1: "dims tab1 = dims tab \<and> length tab1 = length tab"
    using tab1 nums e by (auto simp: c bl_def dest: add_alloc_blocks add_alloc_keeps add_alloc_dims split: if_splits)
  from e1 obtain R1 where R1: "blocks tab1 = R1 + bl e" "\<And>e'. blocks (set_ent tab1 j i e') = R1 + bl e'"
    by (rule blocks_split) (rule that)
  from e(1) obtain R where R: "blocks tab = R + bl e" by (rule blocks_split)
  from b1 R R1(1) have "R1 + bl e = (R + ?rest) + bl e" by (simp add: add_ac)
  then have "R1 = R + ?rest" by simp
  with add_alloc_blocks [OF tab'] R1(2) e nums sz have "blocks tab' = R + pieces ?A ?S (?A + ?o) ?n"
    by (simp add: bl_def pieces_def add_ac unat_gt_0)
  with nums sz alloc_pieces [OF R e(2,3)] add_alloc_dims [OF tab'] d1 show ?thesis
    by (simp add: unat_gt_0)
qed

lemma carve_refines:
  assumes inv: "alloc_inv tab" and e: "get_ent tab j i = Some e" "fits sz align e"
    and sz: "align \<noteq> 0" "sz \<noteq> 0" "unat sz + unat align \<le> 4294967296"
    and res: "carve tab sz align j i = Some (p, tab')"
  shows "heap_alloc (blocks tab) (blocks tab') (unat p) (unat sz) \<and> dims tab' = dims tab \<and>
    length tab' = length tab \<and> unat align dvd unat p"
proof -
  define off where "off = align_off align (ac_addr e)"
  note nums = fits_nums [OF inv e sz(1,3), folded off_def]
  from e(2) have v: "ac_valid e \<noteq> 0" "ac_used e = 0" by (auto simp: fits_def)
  note al = align_off [OF sz(1), of "ac_addr e", folded off_def]
  consider (whole) "ac_size e = sz" | (unaligned) "ac_size e \<noteq> sz" "ac_addr e mod align \<noteq> 0"
    | (aligned) "ac_size e \<noteq> sz" "ac_addr e mod align = 0"
    by (cases "ac_size e = sz"; cases "ac_addr e mod align = 0") auto
  then show ?thesis
  proof cases
    case whole
    with nums have "off = 0" by (simp add: word_unat_eq_iff)
    from e(1) obtain R where R: "blocks tab = R + bl e" "\<And>e'. blocks (set_ent tab j i e') = R + bl e'"
      by (rule blocks_split) (rule that)
    from whole res e(1) have p: "p = ac_addr e" "tab' = set_ent tab j i (e\<lparr>ac_used := 1\<rparr>)"
      by (auto simp: carve_def)
    have "heap_alloc (blocks tab) (blocks tab') (unat p) (unat sz)"
      unfolding p by (rule alloc_pieces [OF R(1) v])
        (use whole sz(2) v in \<open>auto simp: R(2) bl_def pieces_def unat_gt_0\<close>)
    with p al(2) \<open>off = 0\<close> show ?thesis by simp
  next
    case unaligned
    with al(3,4) have o: "off \<noteq> 0" "align - ac_addr e mod align = off" by auto
    from unaligned res e(1) obtain tab1 where
      tab1: "(if sz + off < ac_size e
        then add_alloc \<lparr>ac_valid = 1, ac_used = 0, ac_addr = ac_addr e + (sz + off), ac_size = ac_size e - (sz + off)\<rparr> tab
        else Some tab) = Some tab1"
      and tab': "add_alloc \<lparr>ac_valid = 1, ac_used = 1, ac_addr = ac_addr e + off, ac_size = sz\<rparr>
        (set_ent tab1 j i (e\<lparr>ac_size := off\<rparr>)) = Some tab'" and p: "p = ac_addr e + off"
      unfolding carve_def o(2) [symmetric] by (auto simp: Let_def split: bind_splits)
    from carve_unaligned [OF e(1) v tab1 tab' nums(1-5) sz(2) o(1)] p nums(3) al(2) show ?thesis by simp
  next
    case aligned
    with al(3) have o: "off = 0" by simp
    from aligned res e(1) have tab': "add_alloc \<lparr>ac_valid = 1, ac_used = 1, ac_addr = ac_addr e, ac_size = sz\<rparr>
      (set_ent tab j i (e\<lparr>ac_size := ac_size e - sz, ac_addr := ac_addr e + sz\<rparr>)) = Some tab'"
      and p: "p = ac_addr e"
      unfolding carve_def by (auto simp: Let_def split: bind_splits)
    have "sz < ac_size e" using aligned(1) nums(2) o by (simp add: word_less_nat_alt word_unat_eq_iff)
    from carve_aligned [OF e(1) v tab' this sz(2) nums(6)] p al(2) o show ?thesis by simp
  qed
qed

section \<open>A new row\<close>

text \<open>
  What \<open>_alloc_new_block\<close> relies on: the memory it takes reads as a row of entries that are not
  valid.
\<close>

definition raw_clear :: "(u32 \<Rightarrow> alcent list) \<Rightarrow> bool" where
  "raw_clear raw \<longleftrightarrow> (\<forall>a. length (raw a) = ALLOC_BLOCK \<and> (\<forall>e \<in> set (raw a). ac_valid e = 0))"

lemma get_free_block_None: "get_free_block tab < length tab \<Longrightarrow> tab ! get_free_block tab = None"
  by (induction tab rule: get_free_block.induct) auto

lemma set_row_blocks:
  assumes "set_row tab (get_free_block tab) r = Some tab'" and "\<forall>e \<in> set r. ac_valid e = 0"
    and "length r \<le> ALLOC_BLOCK" and "dims_ok tab"
  shows "blocks tab' = blocks tab \<and> dims_ok tab'"
proof -
  let ?j = "get_free_block tab"
  from assms(1) have j: "?j < length tab" and t: "tab' = tab[?j := Some r]"
    by (auto simp: set_row_def split: if_splits)
  have "sum_list (map bl r) = {#}" using assms(2) by (induction r) (auto simp: bl_def)
  then have "blocks tab' = blocks tab"
    using sum_list_upd [OF j, of "row_sum bl" "Some r"] get_free_block_None [OF j]
    by (simp add: blocks_def tsum_rows t row_sum_def)
  moreover have "dims_ok tab'" using assms(3,4)
    by (simp add: dims_ok_def dims_def t map_update list_all_update)
  ultimately show ?thesis by simp
qed

lemma alloc_new_block_refines:
  assumes inv: "alloc_inv tab" and raw: "raw_clear raw" and res: "alloc_new_block raw tab = Some tab'"
  obtains p where "heap_alloc (blocks tab) (blocks tab') p 12288" "dims_ok tab'"
proof (rule find_hole_cases [OF inv, of asz 1])
  assume "find_hole tab asz 1 = NO_HOLE"
  with res show thesis by (simp add: alloc_new_block_def)
next
  fix j i e
  assume h: "find_hole tab asz 1 \<noteq> NO_HOLE" "idx_block (find_hole tab asz 1) = j" "idx_index (find_hole tab asz 1) = i"
    and e: "get_ent tab j i = Some e" and f: "fits asz 1 e"
  have v: "ac_valid e \<noteq> 0" "ac_used e = 0" using f by (auto simp: fits_def)
  have off: "align_off 1 (ac_addr e) = 0" by (simp add: align_off(3))
  have nums: "asz \<le> ac_size e" "unat (ac_addr e) + unat (ac_size e) < 4294967296"
    using f off ent_ok [OF inv e v(1)] by (auto simp: fits_def)
  have rows: "length (raw a) \<le> ALLOC_BLOCK" "\<forall>e \<in> set (raw a). ac_valid e = 0" for a
    using raw by (auto simp: raw_clear_def)
  have d: "dims_ok tab" using inv by (simp add: alloc_inv_def)
  show thesis
  proof (cases "ac_size e = asz")
    case True
    let ?t = "set_ent tab j i (e\<lparr>ac_used := 1\<rparr>)"
    from True h e res have t: "set_row ?t (get_free_block ?t) (raw (ac_addr e)) = Some tab'"
      by (simp add: alloc_new_block_def Let_def)
    from e obtain R where R: "blocks tab = R + bl e" "\<And>e'. blocks (set_ent tab j i e') = R + bl e'"
      by (rule blocks_split) (rule that)
    have "heap_alloc (blocks tab) (blocks ?t) (unat (ac_addr e)) 12288"
      by (rule alloc_pieces [OF R(1) v]) (use True v in \<open>auto simp: R(2) bl_def pieces_def\<close>)
    with set_row_blocks [OF t rows(2,1)] d show thesis by (auto intro: that)
  next
    case False
    let ?t = "set_ent tab j i (e\<lparr>ac_size := ac_size e - asz, ac_addr := ac_addr e + asz\<rparr>)"
    from False h e res obtain t1 where
      t1: "add_alloc \<lparr>ac_valid = 1, ac_used = 1, ac_addr = ac_addr e, ac_size = asz\<rparr> ?t = Some t1"
      and t: "set_row t1 (get_free_block t1) (raw (ac_addr e)) = Some tab'"
      by (auto simp: alloc_new_block_def Let_def split: bind_splits)
    have "asz < ac_size e" using nums(1) False by simp
    from carve_aligned [OF e v t1 this _ nums(2)]
    have a: "heap_alloc (blocks tab) (blocks t1) (unat (ac_addr e)) 12288" "dims t1 = dims tab" "length t1 = length tab"
      by simp_all
    with set_row_blocks [OF t rows(2,1)] d show thesis by (auto simp: dims_ok_def intro: that)
  qed
qed

section \<open>Allocation\<close>

lemma inv_alloc: "alloc_inv tab \<Longrightarrow> heap_alloc (blocks tab) (blocks tab') p n \<Longrightarrow> dims_ok tab' \<Longrightarrow> alloc_inv tab'"
  by (simp add: alloc_inv_def heap_alloc_ok)

text \<open>What two steps, the second of which may not happen, do to the bytes of the heap.\<close>

lemma alloc_effect:
  assumes ok: "\<And>x. cover M0 x \<le> 1" and row: "M1 = M0 \<or> (\<exists>q m. heap_alloc M0 M1 q m)"
    and res: "if p = 0 then M2 = M1 else heap_alloc M1 M2 p n"
  shows "cover M2 x = cover M0 x" and "ucover M0 x \<le> ucover M2 x"
    and "p \<noteq> 0 \<Longrightarrow> p \<le> x \<Longrightarrow> x < p + n \<Longrightarrow> cover M0 x = 1 \<and> ucover M0 x = 0 \<and> ucover M2 x = 1"
proof -
  have r: "cover M1 y = cover M0 y" "ucover M0 y \<le> ucover M1 y" for y
    using row by (auto simp: heap_alloc_cover)
  have c: "cover M2 y = cover M1 y" "ucover M1 y \<le> ucover M2 y" for y
    using res by (auto simp: heap_alloc_cover split: if_splits)
  show "cover M2 x = cover M0 x" using r c by simp
  show "ucover M0 x \<le> ucover M2 x" using r c le_trans by blast
  assume p: "p \<noteq> 0" "p \<le> x" "x < p + n"
  have "cover M1 x \<le> 1" using ok r(1) by simp
  with res p have "cover M1 x = 1 \<and> ucover M1 x = 0 \<and> ucover M2 x = 1"
    using heap_alloc_was_free [of M1 M2 p n x] by (auto simp: heap_alloc_cover)
  with r [of x] show "cover M0 x = 1 \<and> ucover M0 x = 0 \<and> ucover M2 x = 1" by simp
qed

text \<open>What \<open>kamalloc\<close> may do before it looks for the hole: nothing, or take a new row.\<close>

definition maybe_row :: "block multiset \<Rightarrow> block multiset \<Rightarrow> bool" where
  "maybe_row M M' \<longleftrightarrow> M' = M \<or> (\<exists>p. heap_alloc M M' p 12288)"

lemma kamalloc_locked_refines:
  assumes inv: "alloc_inv tab" and raw: "raw_clear raw"
    and sz: "align \<noteq> 0" "sz \<noteq> 0" "unat sz + unat align \<le> 4294967296"
    and res: "kamalloc_locked raw tab sz align = Some (p, tab')"
  shows "alloc_inv tab' \<and> (\<exists>M. maybe_row (blocks tab) M \<and>
    (if p = 0 then blocks tab' = M else heap_alloc M (blocks tab') (unat p) (unat sz) \<and> unat align dvd unat p))"
proof (cases "find_hole tab sz align = NO_HOLE")
  case True
  with res inv show ?thesis by (auto simp: kamalloc_locked_def maybe_row_def)
next
  case False
  let ?slots = "empty_slots tab (idx_block (find_hole tab sz align))"
  from False res obtain slots :: int and tab1 where
    tab1: "(if slots = 4 then alloc_new_block raw tab else Some tab) = Some tab1" and
    res1: "(if find_hole tab1 sz align = NO_HOLE then Some (0, tab1)
       else carve tab1 sz align (idx_block (find_hole tab1 sz align)) (idx_index (find_hole tab1 sz align))) = Some (p, tab')"
    by (auto simp: kamalloc_locked_def Let_def split: bind_splits)
  have row: "maybe_row (blocks tab) (blocks tab1) \<and> alloc_inv tab1"
  proof (cases "slots = 4")
    case True
    with tab1 have "alloc_new_block raw tab = Some tab1" by simp
    from alloc_new_block_refines [OF inv raw this] obtain q
      where "heap_alloc (blocks tab) (blocks tab1) q 12288" "dims_ok tab1" .
    with inv_alloc [OF inv] show ?thesis by (auto simp: maybe_row_def)
  next
    case False
    with tab1 inv show ?thesis by (simp add: maybe_row_def)
  qed
  show ?thesis
  proof (rule find_hole_cases [of tab1 sz align])
    show "alloc_inv tab1" using row by simp
  next
    assume "find_hole tab1 sz align = NO_HOLE"
    with res1 row show ?thesis by auto
  next
    fix j i e
    assume h: "find_hole tab1 sz align \<noteq> NO_HOLE" "idx_block (find_hole tab1 sz align) = j"
        "idx_index (find_hole tab1 sz align) = i"
      and e: "get_ent tab1 j i = Some e" "fits sz align e"
    from h res1 have c: "carve tab1 sz align j i = Some (p, tab')" by simp
    from carve_refines [OF conjunct2 [OF row] e sz c]
    have a: "heap_alloc (blocks tab1) (blocks tab') (unat p) (unat sz)" "dims tab' = dims tab1"
      "length tab' = length tab1" "unat align dvd unat p" by simp_all
    have inv': "alloc_inv tab'"
      using row a(2,3) by (intro inv_alloc [OF _ a(1)]) (auto simp: alloc_inv_def dims_ok_def)
    have "0 < unat p"
    proof -
      from a(1) have "(True, unat p, unat sz) \<in># blocks tab'" by (auto simp: heap_alloc_def pieces_def)
      with inv' show ?thesis by (auto simp: alloc_inv_def ok_heap_def)
    qed
    then have "p \<noteq> 0" by auto
    with inv' row a show ?thesis by auto
  qed
qed

section \<open>Release\<close>

lemma cell_at:
  assumes inv: "alloc_inv tab" and b: "(u, unat ptr, n) \<in># blocks tab"
  obtains j i e where "find (\<lambda>(j, i, e). ac_valid e \<noteq> 0 \<and> ac_addr e = ptr) (cells tab) = Some (j, i, e)"
    "get_ent tab j i = Some e" "ac_valid e \<noteq> 0" "(ac_used e \<noteq> 0) = u" "ac_addr e = ptr" "unat (ac_size e) = n"
proof -
  let ?P = "\<lambda>(j, i, e). ac_valid e \<noteq> 0 \<and> ac_addr e = ptr"
  from b obtain j i e where e: "get_ent tab j i = Some e" "ac_valid e \<noteq> 0"
      "u = (ac_used e \<noteq> 0)" "ac_addr e = ptr" "n = unat (ac_size e)"
    by (rule blocks_ent) (auto simp: word_unat_eq_iff)
  then have "find ?P (cells tab) \<noteq> None"
    by (auto simp: find_None_iff simp flip: cells_mem)
  then obtain j' i' e' where fnd: "find ?P (cells tab) = Some (j', i', e')" by auto
  note f = find_cells [OF fnd]
  from f(2) e(4) have e': "ac_valid e' \<noteq> 0" "ac_addr e' = ac_addr e" by auto
  have "bl e' = bl e"
  proof (rule ccontr)
    assume ne: "bl e' \<noteq> bl e"
    from f(1) obtain R where R: "blocks tab = R + bl e'" by (rule blocks_split)
    with ent_in_blocks [OF e(1,2)] ne e(2) e'(1)
    have "(ac_used e \<noteq> 0, unat (ac_addr e), unat (ac_size e)) \<in># R" by (auto simp: bl_def)
    then obtain R' where "R = add_mset (ac_used e \<noteq> 0, unat (ac_addr e), unat (ac_size e)) R'"
      by (metis insert_DiffM)
    with R e' ent_ok [OF inv e(1,2)] ent_ok [OF inv f(1) e'(1)] have "2 \<le> cover (blocks tab) (unat (ac_addr e))"
      by (simp add: bl_valid)
    with inv show False by (metis alloc_inv_def ok_heap_def not_less_eq_eq numeral_2_eq_2 One_nat_def)
  qed
  with e e' have "(ac_used e' \<noteq> 0) = u" "unat (ac_size e') = n" by (auto simp: bl_def)
  with that [OF fnd f(1)] e e' show thesis by simp
qed

lemma rm_alloc_merge:
  assumes b: "get_ent tab block idx = Some b" "ac_valid b \<noteq> 0" "0 < unat (ac_size b)"
    "unat (ac_addr b) + unat (ac_size b) < 4294967296"
    and m: "find (\<lambda>(j, i, e). ac_valid e \<noteq> 0 \<and> (ac_addr e + ac_size b = ac_addr b \<or> ac_addr e = ac_addr b + ac_size b) \<and> ac_used e = 0)
        (cells tab) = Some (j, i, e)"
  defines "M \<equiv> blocks tab - bl b - bl e"
  shows "\<exists>tab'. rm_alloc tab block idx = Some tab' \<and> dims tab' = dims tab \<and> length tab' = length tab \<and>
     get_ent tab j i = Some e \<and> ac_valid e \<noteq> 0 \<and> ac_used e = 0 \<and> blocks tab = M + bl b + bl e \<and>
     blocks tab' = add_mset (False, unat (min (ac_addr b) (ac_addr e)), unat (ac_size e + ac_size b)) M"
proof -
  note f = find_cells [OF m]
  then have e: "get_ent tab j i = Some e" "ac_valid e \<noteq> 0" "ac_used e = 0"
    "ac_addr e + ac_size b = ac_addr b \<or> ac_addr e = ac_addr b + ac_size b" by auto
  have "ac_size b \<noteq> 0" using b(3) by auto
  have ne: "\<not> (j = block \<and> i = idx)"
  proof
    assume "j = block \<and> i = idx"
    with e(1) b(1) have "e = b" by simp
    with e(4) \<open>ac_size b \<noteq> 0\<close> show False by simp
  qed
  let ?e = "e\<lparr>ac_size := ac_size e + ac_size b, ac_addr := min (ac_addr b) (ac_addr e)\<rparr>"
  let ?t = "set_ent tab j i ?e"
  have b1: "get_ent ?t block idx = Some b" using ne b(1) e(1) by (auto simp: get_set_ent)
  have "rm_alloc tab block idx = Some (set_ent ?t block idx (b\<lparr>ac_valid := 0\<rparr>))"
    using b(1) m b1 by (auto simp: rm_alloc_def Let_def min_def)
  moreover from e(1) obtain R where R: "blocks tab = R + bl e" "\<And>e'. blocks (set_ent tab j i e') = R + bl e'"
    by (rule blocks_split) (rule that)
  moreover from b1 obtain R' where R': "blocks ?t = R' + bl b" "\<And>e'. blocks (set_ent ?t block idx e') = R' + bl e'"
    by (rule blocks_split) (rule that)
  moreover have "R = M + bl b \<and> R' = M + bl ?e"
  proof -
    have eq: "R + bl ?e = R' + bl b" using R(2) R'(1) by simp
    from e(1) b(1) ne have "get_ent (set_ent tab j i (e\<lparr>ac_valid := 0\<rparr>)) block idx = Some b" by (auto simp: get_set_ent)
    then obtain Q where "blocks (set_ent tab j i (e\<lparr>ac_valid := 0\<rparr>)) = Q + bl b" by (rule blocks_split)
    with R(2) have Q: "R = Q + bl b" by (simp add: bl_def)
    then have "M = Q" unfolding M_def R(1) by simp
    with Q eq show ?thesis by (simp add: add_ac)
  qed
  moreover have "bl (b\<lparr>ac_valid := 0\<rparr>) = {#}" "bl ?e = {#(False, unat (min (ac_addr b) (ac_addr e)), unat (ac_size e + ac_size b))#}"
    using e by (simp_all add: bl_def)
  ultimately show ?thesis using e by simp
qed

lemma kfree_refines:
  assumes inv: "alloc_inv (al_tab st)" and lck: "al_lock st = 0"
    and b: "(True, unat ptr, n) \<in># blocks (al_tab st)"
    and adj: "\<And>c m. (False, c, m) \<in># blocks (al_tab st) \<Longrightarrow> (c + n) mod 4294967296 = unat ptr \<Longrightarrow> m = n"
  shows "\<exists>st'. kfree st ptr = Some st' \<and> al_lock st' = 0 \<and> dims (al_tab st') = dims (al_tab st) \<and>
    length (al_tab st') = length (al_tab st) \<and> heap_free (blocks (al_tab st)) (blocks (al_tab st')) (unat ptr)"
proof -
  let ?tab = "al_tab st"
  from inv b obtain j i e where
    fnd: "find (\<lambda>(j, i, e). ac_valid e \<noteq> 0 \<and> ac_addr e = ptr) (cells ?tab) = Some (j, i, e)" and
    e: "get_ent ?tab j i = Some e" "ac_valid e \<noteq> 0" "ac_used e \<noteq> 0" "ac_addr e = ptr" "unat (ac_size e) = n"
    by (rule cell_at) simp
  note ok = ent_ok [OF inv e(1,2)]
  have k: "kfree st ptr = map_option (\<lambda>t. \<lparr>al_lock = 0, al_tab = t\<rparr>) (rm_alloc ?tab j i)"
    using fnd lck by (cases "rm_alloc ?tab j i") (simp_all add: kfree_def unlock_def)
  let ?P = "\<lambda>(j', i', e'). ac_valid e' \<noteq> 0 \<and> (ac_addr e' + ac_size e = ac_addr e \<or> ac_addr e' = ac_addr e + ac_size e) \<and> ac_used e' = 0"
  show ?thesis
  proof (cases "find ?P (cells ?tab)")
    case None
    then have rm: "rm_alloc ?tab j i = Some (set_ent ?tab j i (e\<lparr>ac_used := 0\<rparr>))"
      using e by (simp add: rm_alloc_def Let_def)
    from e(1) obtain R where R: "blocks ?tab = R + bl e" "\<And>e'. blocks (set_ent ?tab j i e') = R + bl e'"
      by (rule blocks_split) (rule that)
    have "heap_free (blocks ?tab) (blocks (set_ent ?tab j i (e\<lparr>ac_used := 0\<rparr>))) (unat ptr)"
      unfolding heap_free_def R using e
      by (intro exI [of _ R] exI [of _ True] exI [of _ n]) (simp add: bl_valid)
    with k rm show ?thesis by simp
  next
    case (Some c)
    then obtain j' i' e' where c: "find ?P (cells ?tab) = Some (j', i', e')" by (cases c) auto
    from rm_alloc_merge [OF e(1,2) ok(2,3) c] obtain tab' R where
      rm: "rm_alloc ?tab j i = Some tab'" "dims tab' = dims ?tab" "length tab' = length ?tab" and
      e': "get_ent ?tab j' i' = Some e'" "ac_valid e' \<noteq> 0" "ac_used e' = 0" and
      M: "blocks ?tab = R + bl e + bl e'" and
      M': "blocks tab' = add_mset (False, unat (min ptr (ac_addr e')), unat (ac_size e' + ac_size e)) R"
      using e(4) by metis
    note ok' = ent_ok [OF inv e'(1,2)]
    let ?m = "unat (ac_size e')" and ?c = "unat (ac_addr e')"
    have Ms: "blocks ?tab = add_mset (True, unat ptr, n) (add_mset (False, ?c, ?m) R)"
      using M e e' by (simp add: bl_valid)
    from find_cells(2) [OF c] e(4) have "ac_addr e' + ac_size e = ptr \<or> ac_addr e' = ptr + ac_size e" by auto
    then have "heap_free (blocks ?tab) (blocks tab') (unat ptr)"
    proof
      assume a: "ac_addr e' + ac_size e = ptr"
      then have "(?c + n) mod 4294967296 = unat ptr" using e(5) by (metis unat_add_u32)
      with adj [of ?c ?m] Ms have "?m = n" by simp
      with ok' a e(5) have s: "?c + ?m = unat ptr" by (metis add.right_neutral unat_add_u32_lt)
      with ok ok' e have "unat (ac_size e' + ac_size e) = ?m + n"
        using unat_add_u32_lt [of "ac_size e'" "ac_size e"] by simp
      moreover have "min ptr (ac_addr e') = ac_addr e'" using s by (intro min.absorb2) (simp add: word_le_nat_alt)
      ultimately show ?thesis using Ms M' s unfolding heap_free_def by force
    next
      assume a: "ac_addr e' = ptr + ac_size e"
      then have s: "?c = unat ptr + n" using ok e by (simp add: unat_add_u32_lt)
      with ok' e have "unat (ac_size e' + ac_size e) = n + ?m"
        using unat_add_u32_lt [of "ac_size e'" "ac_size e"] by simp
      moreover have "min ptr (ac_addr e') = ptr" using s by (intro min.absorb1) (simp add: word_le_nat_alt)
      ultimately show ?thesis using Ms M' s unfolding heap_free_def by force
    qed
    with k rm show ?thesis by simp
  qed
qed

section \<open>Properties\<close>

text \<open>A small heap: 64 bytes at 16, of which 4 at 16 are free, 8 at 20 and 12 at 28 are used.\<close>

definition ex_ent :: "u8 \<Rightarrow> u32 \<Rightarrow> u32 \<Rightarrow> alcent" where
  "ex_ent u a n = \<lparr>ac_valid = 1, ac_used = u, ac_addr = a, ac_size = n\<rparr>"

definition no_ent :: alcent where
  "no_ent = \<lparr>ac_valid = 0, ac_used = 0, ac_addr = 0, ac_size = 0\<rparr>"

definition ex_state :: "alcent list \<Rightarrow> alloc_state" where
  "ex_state es = \<lparr>al_lock = 0, al_tab = [Some es, None]\<rparr>"

definition ex_heap1 :: alloc_state where
  "ex_heap1 = ex_state [ex_ent 0 18 62, no_ent, no_ent, no_ent]"

definition ex_heap2 :: alloc_state where
  "ex_heap2 = ex_state [ex_ent 0 16 4, ex_ent 1 20 8, ex_ent 1 28 12, no_ent]"

lemma ex_blocks:
  "blocks (al_tab ex_heap1) = {#(False, 18, 62)#}"
  "blocks (al_tab ex_heap2) = {#(False, 16, 4), (True, 20, 8), (True, 28, 12)#}"
  by (simp_all add: ex_heap1_def ex_heap2_def ex_state_def blocks_def tsum_def cells_def bl_def ex_ent_def no_ent_def)

lemma ex_inv: "alloc_inv (al_tab ex_heap1)" "alloc_inv (al_tab ex_heap2)"
proof -
  have "dims_ok (al_tab ex_heap1)" "dims_ok (al_tab ex_heap2)"
    by (simp_all add: ex_heap1_def ex_heap2_def ex_state_def dims_ok_def dims_def)
  then show "alloc_inv (al_tab ex_heap1)" "alloc_inv (al_tab ex_heap2)"
    by (simp_all add: alloc_inv_def ok_heap_def ex_blocks)
qed

lemma ex_lock [simp]: "al_lock ex_heap1 = 0" "al_lock ex_heap2 = 0"
  by (simp_all add: ex_heap1_def ex_heap2_def ex_state_def)

definition ex_raw :: "u32 \<Rightarrow> alcent list" where
  "ex_raw a = replicate ALLOC_BLOCK no_ent"

lemma ex_raw_clear: "raw_clear ex_raw"
  by (simp add: raw_clear_def ex_raw_def no_ent_def)

text \<open>
  C1 (kamalloc). When \<open>kamalloc\<close> returns a pointer, the pointer has the alignment asked for, every
  byte of the block lay in exactly one block before and in no used block, and lies in one used block
  now; every used byte stays used, no byte enters or leaves the heap, and the table stays well
  formed and unlocked. (\<open>sz + align\<close> must not exceed \<open>2 ^ 32\<close>, and the memory of a new row must
  read as cleared.)
\<close>

theorem kamalloc_sound:
  assumes "alloc_inv (al_tab st)" and "raw_clear raw" and "unat sz + unat align \<le> 2 ^ 32"
    and "al_lock st = 0" and "kamalloc raw st sz align = Some (p, st')"
  shows "alloc_inv (al_tab st') \<and> al_lock st' = 0 \<and>
    (\<forall>x. cover (blocks (al_tab st')) x = cover (blocks (al_tab st)) x \<and>
         ucover (blocks (al_tab st)) x \<le> ucover (blocks (al_tab st')) x) \<and>
    (p \<noteq> 0 \<longrightarrow> unat align dvd unat p \<and>
      (\<forall>x. unat p \<le> x \<and> x < unat p + unat sz \<longrightarrow>
         cover (blocks (al_tab st)) x = 1 \<and> ucover (blocks (al_tab st)) x = 0 \<and> ucover (blocks (al_tab st')) x = 1))"
proof (cases "align = 0 \<or> sz = 0")
  case True
  with assms show ?thesis by (simp add: kamalloc_def)
next
  case False
  with assms(4,5) have k: "kamalloc_locked raw (al_tab st) sz align = Some (p, al_tab st')" "al_lock st' = 0"
    by (auto simp: kamalloc_def unlock_def split: bind_splits)
  let ?M0 = "blocks (al_tab st)" and ?M2 = "blocks (al_tab st')"
  from kamalloc_locked_refines [OF assms(1,2) _ _ _ k(1)] False assms(3) obtain M1 where
    inv: "alloc_inv (al_tab st')" and row: "maybe_row ?M0 M1" and
    res: "if p = 0 then ?M2 = M1 else heap_alloc M1 ?M2 (unat p) (unat sz) \<and> unat align dvd unat p"
    by auto
  have ok: "cover ?M0 x \<le> 1" for x using assms(1) by (simp add: alloc_inv_def ok_heap_def)
  have row': "M1 = ?M0 \<or> (\<exists>q m. heap_alloc ?M0 M1 q m)" using row by (auto simp: maybe_row_def)
  have "if unat p = 0 then ?M2 = M1 else heap_alloc M1 ?M2 (unat p) (unat sz)"
    using res by (simp add: unat_eq_zero split: if_splits)
  note eff = alloc_effect [OF ok row' this]
  have "cover ?M2 x = cover ?M0 x \<and> ucover ?M0 x \<le> ucover ?M2 x" for x using eff(1,2) by blast
  moreover have "cover ?M0 x = 1 \<and> ucover ?M0 x = 0 \<and> ucover ?M2 x = 1"
    if "p \<noteq> 0" "unat p \<le> x" "x < unat p + unat sz" for x using eff(3) that by (simp add: unat_eq_zero)
  ultimately show ?thesis using inv k(2) res by simp
qed

theorem kamalloc_sound_witness:
  "\<exists>st'. kamalloc ex_raw ex_heap1 8 4 = Some (20, st') \<and> alloc_inv (al_tab st') \<and>
     ucover (blocks (al_tab st')) 27 = 1 \<and> ucover (blocks (al_tab ex_heap1)) 27 = 0"
proof -
  have "kamalloc ex_raw ex_heap1 8 4 = Some (20, ex_state [ex_ent 0 18 2, ex_ent 0 28 52, ex_ent 1 20 8, no_ent])"
    by code_simp
  from kamalloc_sound [OF ex_inv(1) ex_raw_clear _ _ this] this show ?thesis by simp
qed

text \<open>
  C2 (kfree). Freeing a used block returns, marks exactly its bytes unused, keeps every byte in
  the heap and the table well formed and unlocked, provided that no free block at distance
  \<open>n\<close> below the freed block (of \<open>n\<close> bytes) has a size other than \<open>n\<close>.
\<close>

theorem kfree_sound:
  assumes "alloc_inv (al_tab st)" and "al_lock st = 0"
    and "(True, unat ptr, n) \<in># blocks (al_tab st)"
    and "\<forall>c m. (False, c, m) \<in># blocks (al_tab st) \<longrightarrow> (c + n) mod 2 ^ 32 = unat ptr \<longrightarrow> m = n"
  shows "\<exists>st'. kfree st ptr = Some st' \<and> alloc_inv (al_tab st') \<and> al_lock st' = 0 \<and>
    (\<forall>x. cover (blocks (al_tab st')) x = cover (blocks (al_tab st)) x \<and>
      ucover (blocks (al_tab st)) x = ucover (blocks (al_tab st')) x + of_bool (unat ptr \<le> x \<and> x < unat ptr + n))"
proof -
  let ?M = "blocks (al_tab st)"
  from kfree_refines [OF assms(1-3)] assms(4) obtain st' where
    k: "kfree st ptr = Some st'" "al_lock st' = 0" "dims (al_tab st') = dims (al_tab st)"
      "length (al_tab st') = length (al_tab st)" "heap_free ?M (blocks (al_tab st')) (unat ptr)"
    by auto
  from assms(1) have ok: "ok_heap ?M" by (simp add: alloc_inv_def)
  obtain R where R: "?M = add_mset (True, unat ptr, n) R" using assms(3) by (metis insert_DiffM)
  with ok have n: "0 < n" by (auto simp: ok_heap_def)
  from ok have "cover ?M (unat ptr) \<le> 1" by (simp add: ok_heap_def)
  with R n have one: "cover ?M (unat ptr) = 1" "cover R (unat ptr) = 0" by auto
  with ucover_le_cover [of R "unat ptr"] R n have "ucover ?M (unat ptr) = 1" by simp
  with k(5) ok one obtain n' where
    n': "(True, unat ptr, n') \<in># ?M" "\<And>x. cover (blocks (al_tab st')) x = cover ?M x"
      "\<And>x. ucover ?M x = ucover (blocks (al_tab st')) x + of_bool (unat ptr \<le> x \<and> x < unat ptr + n')"
      "ok_heap (blocks (al_tab st'))" by (metis heap_free_cover)
  have "n' = n"
  proof (rule ccontr)
    assume "n' \<noteq> n"
    with n'(1) R have "(True, unat ptr, n') \<in># R" by auto
    then obtain R' where "R = add_mset (True, unat ptr, n') R'" by (metis insert_DiffM)
    with one(2) n'(1) ok show False by (auto simp: ok_heap_def)
  qed
  with k n' assms(1) show ?thesis by (auto simp: alloc_inv_def dims_ok_def)
qed

theorem kfree_sound_witness:
  "\<exists>st'. kfree ex_heap2 20 = Some st' \<and> alloc_inv (al_tab st') \<and> ucover (blocks (al_tab st')) 20 = 0"
  using kfree_sound [of ex_heap2 20 8, OF ex_inv(2)] by (auto simp: ex_blocks dest: spec [of _ 20])

text \<open>
  C10 (kfree merges by the wrong size). When the only free block starts \<open>n\<close> bytes below the freed
  block of \<open>n\<close> bytes but is shorter than \<open>n\<close>, \<open>kfree\<close> still merges the two: the free block then
  reaches into whatever lies between them, so that the first byte of a used block there is both
  used and free, and the end of the freed block is in no block any more.
\<close>

theorem kfree_mismerge:
  assumes "alloc_inv (al_tab st)" and "al_lock st = 0"
    and "blocks (al_tab st) = add_mset (False, c, m) (add_mset (True, unat ptr, n) U)"
    and "\<forall>(u, a, k) \<in># U. u" and "c + n = unat ptr" and "m < n"
    and "(True, d, k) \<in># U" and "c \<le> d" and "d < unat ptr"
  shows "\<exists>st'. kfree st ptr = Some st' \<and> blocks (al_tab st') = add_mset (False, c, m + n) U \<and>
    cover (blocks (al_tab st')) d = 2 \<and> ucover (blocks (al_tab st')) d = 1"
proof -
  let ?tab = "al_tab st"
  from assms(1) assms(3) have b: "(True, unat ptr, n) \<in># blocks ?tab" "(False, c, m) \<in># blocks ?tab" by auto
  from assms(1) b(1) obtain j i e where
    fnd: "find (\<lambda>(j, i, e). ac_valid e \<noteq> 0 \<and> ac_addr e = ptr) (cells ?tab) = Some (j, i, e)" and
    e: "get_ent ?tab j i = Some e" "ac_valid e \<noteq> 0" "ac_used e \<noteq> 0" "ac_addr e = ptr" "unat (ac_size e) = n"
    by (rule cell_at) simp
  note ok = ent_ok [OF assms(1) e(1,2)]
  let ?P = "\<lambda>(j', i', e'). ac_valid e' \<noteq> 0 \<and> (ac_addr e' + ac_size e = ac_addr e \<or> ac_addr e' = ac_addr e + ac_size e) \<and> ac_used e' = 0"
  from b(2) obtain j1 i1 e1 where e1: "get_ent ?tab j1 i1 = Some e1" "ac_valid e1 \<noteq> 0" "ac_used e1 = 0"
    "unat (ac_addr e1) = c" "unat (ac_size e1) = m" by (rule blocks_ent) auto
  have "ac_addr e1 + ac_size e = ac_addr e"
    using e e1 assms(5) by (simp add: word_unat_eq_iff unat_add_u32_lt)
  with e1 have "find ?P (cells ?tab) \<noteq> None" by (auto simp: find_None_iff simp flip: cells_mem)
  then obtain j' i' e' where c: "find ?P (cells ?tab) = Some (j', i', e')" by auto
  from rm_alloc_merge [OF e(1,2) ok(2,3) c] obtain tab' R where
    rm: "rm_alloc ?tab j i = Some tab'" and e': "get_ent ?tab j' i' = Some e'" "ac_valid e' \<noteq> 0" "ac_used e' = 0" and
    M: "blocks ?tab = R + bl e + bl e'" and
    M': "blocks tab' = add_mset (False, unat (min ptr (ac_addr e')), unat (ac_size e' + ac_size e)) R"
    using e(4) by metis
  from ent_in_blocks [OF e'(1,2)] e'(3) assms(3,4) have ce: "unat (ac_addr e') = c" "unat (ac_size e') = m"
    by auto
  with M e e' assms(3) have R: "R = U" by (simp add: bl_valid add_mset_commute)
  have "min ptr (ac_addr e') = ac_addr e'"
    using ce assms(5) by (intro min.absorb2) (simp add: word_le_nat_alt)
  moreover have "unat (ac_size e' + ac_size e) = m + n"
    using ce e(4,5) ok assms(5,6) unat_add_u32_lt [of "ac_size e'" "ac_size e"] by simp
  ultimately have tab': "blocks tab' = add_mset (False, c, m + n) U" using M' R ce by simp
  obtain U' where U: "U = add_mset (True, d, k) U'" using assms(7) by (metis insert_DiffM)
  have "cover (blocks ?tab) d \<le> 1" using assms(1) by (simp add: alloc_inv_def ok_heap_def)
  moreover have "0 < k" using assms(1,3,7) by (auto simp: alloc_inv_def ok_heap_def)
  ultimately have "cover U' d = 0" using assms(3) U by simp
  with ucover_le_cover [of U' d] tab' U \<open>0 < k\<close> assms(5,8,9)
  have "cover (blocks tab') d = 2" "ucover (blocks tab') d = 1" by auto
  moreover have "kfree st ptr = Some \<lparr>al_lock = 0, al_tab = tab'\<rparr>"
    using fnd rm assms(2) by (simp add: kfree_def unlock_def)
  ultimately show ?thesis using tab' by simp
qed

theorem kfree_mismerge_witness:
  "\<exists>st'. kfree ex_heap2 28 = Some st' \<and> blocks (al_tab st') = {#(False, 16, 16), (True, 20, 8)#} \<and>
     cover (blocks (al_tab st')) 20 = 2"
  using kfree_mismerge [of ex_heap2 16 4 28 12 "{#(True, 20, 8)#}" 20 8, OF ex_inv(2)]
  by (auto simp: ex_blocks)

text \<open>The bytes to skip in a block at \<open>A\<close> to reach a multiple of \<open>align\<close>.\<close>

definition pad :: "nat \<Rightarrow> nat \<Rightarrow> nat" where
  "pad align A = (if A mod align = 0 then 0 else align - A mod align)"

lemma unat_align_off: "align \<noteq> 0 \<Longrightarrow> unat (align_off align a) = pad (unat align) (unat a)"
proof -
  assume al: "align \<noteq> 0"
  have m: "unat (a mod align) = unat a mod unat align" by (rule unat_mod)
  have "0 < unat align" using al by (simp add: unat_gt_0)
  then have le: "a mod align \<le> align" by (simp add: word_le_nat_alt m less_imp_le)
  show ?thesis
  proof (cases "a mod align = 0")
    case True
    with align_off(3) [OF al, of a] m show ?thesis by (simp add: pad_def)
  next
    case False
    then have "unat a mod unat align \<noteq> 0" using m by (metis unat_eq_zero)
    with align_off(4) [OF al False] unat_sub_u32 [OF le] m show ?thesis by (simp add: pad_def)
  qed
qed

lemma fits_room:
  assumes "align \<noteq> 0" "unat sz + unat align \<le> 4294967296" "ac_valid e \<noteq> 0"
  shows "fits sz align e \<longleftrightarrow> ac_used e = 0 \<and> unat sz + pad (unat align) (unat (ac_addr e)) \<le> unat (ac_size e)"
proof -
  let ?o = "align_off align (ac_addr e)"
  have "unat (sz + ?o) = unat sz + unat ?o"
    using align_off(1) [OF assms(1), of "ac_addr e"] assms(2) by (intro unat_add_u32_lt) simp
  then show ?thesis using assms(1,3) by (simp add: fits_def word_le_nat_alt unat_align_off)
qed

text \<open>
  C9 (best fit). The size and the alignment are not 0 and \<open>sz + align\<close> does not exceed \<open>2 ^ 32\<close> (a larger sum wraps
  around in \<open>_find_hole\<close>), the table's lock is free, and no row is down to four empty slots. When no free
  block has room for the request at the alignment asked for, \<open>kamalloc\<close> returns 0 and changes nothing. Otherwise
  it does not return 0: if it returns (it panics when it finds no slot for what is left of the block) the block is the first aligned one in a
  smallest free block with room.
\<close>

theorem kamalloc_best_fit:
  assumes "alloc_inv (al_tab st)" and "al_lock st = 0" and "align \<noteq> 0" and "sz \<noteq> 0"
    and "unat sz + unat align \<le> 2 ^ 32" and "\<forall>j. empty_slots (al_tab st) j \<noteq> Some 4"
  shows "if \<exists>A S. (False, A, S) \<in># blocks (al_tab st) \<and> unat sz + pad (unat align) A \<le> S
    then \<forall>p st'. kamalloc raw st sz align = Some (p, st') \<longrightarrow>
      (\<exists>A S. (False, A, S) \<in># blocks (al_tab st) \<and> unat sz + pad (unat align) A \<le> S \<and>
        unat p = A + pad (unat align) A \<and> p \<noteq> 0 \<and>
        (\<forall>B T. (False, B, T) \<in># blocks (al_tab st) \<and> unat sz + pad (unat align) B \<le> T \<longrightarrow> S \<le> T))
    else kamalloc raw st sz align = Some (0, st)"
proof -
  let ?tab = "al_tab st"
  from assms(5) have lim: "unat sz + unat align \<le> 4294967296" by simp
  have fit: "fits sz align e \<longleftrightarrow> ac_used e = 0 \<and> unat sz + pad (unat align) (unat (ac_addr e)) \<le> unat (ac_size e)"
    if "ac_valid e \<noteq> 0" for e using that by (rule fits_room [OF assms(3) lim])
  show ?thesis
  proof (rule find_hole_cases [OF assms(1), of sz align])
    assume h: "find_hole ?tab sz align = NO_HOLE" and no: "\<And>j i e. get_ent ?tab j i = Some e \<Longrightarrow> \<not> fits sz align e"
    have "\<not> unat sz + pad (unat align) A \<le> S" if "(False, A, S) \<in># blocks ?tab" for A S
      using that by (rule blocks_ent) (use no fit in auto)
    moreover have "kamalloc raw st sz align = Some (0, st)" using h assms(2-4) by (simp add: kamalloc_def kamalloc_locked_def unlock_def)
    ultimately show ?thesis by auto
  next
    fix j i e
    assume h: "find_hole ?tab sz align \<noteq> NO_HOLE" "idx_block (find_hole ?tab sz align) = j"
        "idx_index (find_hole ?tab sz align) = i"
      and e: "get_ent ?tab j i = Some e" "fits sz align e"
      and best: "\<And>j' i' e'. get_ent ?tab j' i' = Some e' \<Longrightarrow> fits sz align e' \<Longrightarrow> ac_size e \<le> ac_size e'"
    from e(2) have v: "ac_valid e \<noteq> 0" "ac_used e = 0" by (auto simp: fits_def)
    note nums = fits_nums [OF assms(1) e assms(3) lim]
    have best': "unat (ac_size e) \<le> T" if "(False, B, T) \<in># blocks ?tab" "unat sz + pad (unat align) B \<le> T" for B T
      using that(1) by (rule blocks_ent) (use best fit that(2) in \<open>auto simp: word_le_nat_alt\<close>)
    have blk: "(False, unat (ac_addr e), unat (ac_size e)) \<in># blocks ?tab"
      using ent_in_blocks [OF e(1) v(1)] v(2) by simp
    have room: "unat sz + pad (unat align) (unat (ac_addr e)) \<le> unat (ac_size e)"
      using e(2) fit v(1) by simp
    have "unat p = unat (ac_addr e) + pad (unat align) (unat (ac_addr e)) \<and> p \<noteq> 0"
      if ret: "kamalloc raw st sz align = Some (p, st')" for p st'
    proof -
      from assms(2-4) ret have k: "kamalloc_locked raw ?tab sz align = Some (p, al_tab st')"
        by (auto simp: kamalloc_def unlock_def split: bind_splits)
      have c: "carve ?tab sz align j i = Some (p, al_tab st')"
      proof (cases "empty_slots ?tab j")
        case None
        with h k show ?thesis by (simp add: kamalloc_locked_def Let_def)
      next
        case (Some n)
        with assms(6) have "n \<noteq> 4" by auto
        with Some h k show ?thesis by (simp add: kamalloc_locked_def Let_def)
      qed
      have p: "p = ac_addr e + align_off align (ac_addr e)"
      proof (cases "ac_size e = sz")
        case True
        with nums(2) have "align_off align (ac_addr e) = 0" by (simp add: word_unat_eq_iff)
        with True c e(1) show ?thesis by (auto simp: carve_def)
      next
        case False
        with c e(1) align_off(3,4) [OF assms(3), of "ac_addr e"] show ?thesis
          by (auto simp: carve_def Let_def split: bind_splits if_splits)
      qed
      with nums(3) ent_ok(1) [OF assms(1) e(1) v(1)] show ?thesis
        by (auto simp: unat_align_off [OF assms(3)] simp flip: unat_gt_0)
    qed
    moreover have "\<forall>B T. (False, B, T) \<in># blocks ?tab \<and> unat sz + pad (unat align) B \<le> T \<longrightarrow> unat (ac_size e) \<le> T" using best' by blast
    moreover have "\<exists>A S. (False, A, S) \<in># blocks ?tab \<and> unat sz + pad (unat align) A \<le> S" using blk room by blast
    ultimately show ?thesis using blk room by (simp only: if_True) blast
  qed
qed

theorem kamalloc_best_fit_witness:
  "(\<exists>st'. kamalloc ex_raw ex_heap1 8 16 = Some (32, st')) \<and> kamalloc ex_raw ex_heap1 70 4 = Some (0, ex_heap1)"
proof -
  have slots: "\<forall>j. empty_slots (al_tab ex_heap1) j \<noteq> Some 4"
    by (simp add: ex_heap1_def ex_state_def empty_slots_def nth_Cons' ex_ent_def no_ent_def)
  have "kamalloc ex_raw ex_heap1 8 16 \<noteq> None" "kamalloc ex_raw ex_heap1 70 4 \<noteq> None" by code_simp+
  then obtain p1 st1 p2 st2 where k1: "kamalloc ex_raw ex_heap1 8 16 = Some (p1, st1)"
    and k2: "kamalloc ex_raw ex_heap1 70 4 = Some (p2, st2)" by auto
  from kamalloc_best_fit [OF ex_inv(1) _ _ _ _ slots, of 16 8 ex_raw] k1 have "unat p1 = 32" by (simp add: ex_blocks pad_def)
  moreover from kamalloc_best_fit [OF ex_inv(1) _ _ _ _ slots, of 4 70 ex_raw] k2 have "p2 = 0 \<and> st2 = ex_heap1"
    by (simp add: ex_blocks pad_def)
  ultimately show ?thesis using k1 k2 by (auto simp: word_unat_eq_iff)
qed

lemma sum_list_empty: "sum_list (replicate n {#}) = {#}"
  by (induction n) auto

text \<open>
  From the table the kernel starts with, \<open>init_alloc\<close> gives a well-formed heap
  that consists of the one free block it was passed, and maps that region.
\<close>

theorem init_alloc_establishes:
  assumes "0 < unat base" and "0 < unat sz" and "unat base + unat sz < 2 ^ 32"
  shows "\<exists>st. init_alloc mmu_map alloc_boot m base sz = Some (st, mmu_map base sz m) \<and> al_lock st = 0 \<and>
    alloc_inv (al_tab st) \<and> blocks (al_tab st) = {#(False, unat base, unat sz)#} \<and>
    length (al_tab st) = ALLOC_BLOCKS"
proof -
  let ?r = "replicate 1023 \<lparr>ac_valid = 0, ac_used = 0, ac_addr = 0, ac_size = 0\<rparr>"
  let ?e = "\<lparr>ac_valid = 1, ac_used = 0, ac_addr = base, ac_size = sz\<rparr>"
  have boot: "al_tab alloc_boot = Some (\<lparr>ac_valid = 0, ac_used = 0, ac_addr = 0, ac_size = 0\<rparr> # ?r) # replicate 511 None"
    by (simp add: alloc_boot_def flip: replicate_Suc)
  let ?tab = "Some (?e # ?r) # replicate 511 None"
  have "init_alloc mmu_map alloc_boot m base sz = Some (alloc_boot\<lparr>al_tab := ?tab\<rparr>, mmu_map base sz m)"
    by (simp add: init_alloc_def add_alloc_def boot cells_def set_ent_def)
  moreover have "blocks ?tab = {#(False, unat base, unat sz)#}"
    by (simp add: blocks_def tsum_rows row_sum_def bl_def sum_list_empty)
  moreover have "dims_ok ?tab" by (simp add: dims_ok_def dims_def list_all_iff)
  ultimately show ?thesis using assms by (simp add: alloc_inv_def ok_heap_def alloc_boot_def)
qed

theorem init_alloc_establishes_witness:
  "\<exists>st. init_alloc (\<lambda>b n m. (b, n) # m) alloc_boot [] 0x100000 0x100000 = Some (st, [(0x100000, 0x100000)]) \<and>
     alloc_inv (al_tab st)"
  using init_alloc_establishes [of "0x100000" "0x100000" "\<lambda>b n m. (b, n) # m" "[]"] by auto

end
