(* ===== verification/Ualloc.thy ===== *)
theory Ualloc
  imports Kalloc_Sound
begin

text \<open>
  The allocator of the user library, \<open>user/lib/src/stdlib/alloc.c\<close>, and its relation to the one of
  the kernel. It has a table of the same kind (the loops over it are those of \<open>Kalloc\<close>), but keeps
  the state of an entry in flag bits, aligns with masks, ignores a full table instead of stopping,
  and has no lock. \<open>raw\<close> is, as there, what the memory of a new row holds.

  \<open>uabs\<close> turns its table into a table of the kernel's allocator; the operations are shown to
  correspond, and what holds of the kernel's heap is carried over.
\<close>

record ualcent =
  ua_flags :: u8
  ua_addr :: u32
  ua_size :: u32

type_synonym utab = "ualcent list option list"

abbreviation (input) ALCENTFLAG_VALID :: u8 where "ALCENTFLAG_VALID \<equiv> 1"
abbreviation (input) ALCENTFLAG_USED :: u8 where "ALCENTFLAG_USED \<equiv> 2"
abbreviation (input) PAGE_SZ :: u32 where "PAGE_SZ \<equiv> 4096"
abbreviation (input) U_ALLOC_BLOCK :: nat where "U_ALLOC_BLOCK \<equiv> 341"
abbreviation (input) U_ALLOC_BLOCKS :: nat where "U_ALLOC_BLOCKS \<equiv> 1024"
abbreviation (input) INITIAL_SZ :: u32 where "INITIAL_SZ \<equiv> 32768"
abbreviation (input) U_MIN_ALIGN :: u32 where "U_MIN_ALIGN \<equiv> 8"

abbreviation u_valid :: "ualcent \<Rightarrow> bool" where "u_valid e \<equiv> ua_flags e AND ALCENTFLAG_VALID \<noteq> 0"
abbreviation u_used :: "ualcent \<Rightarrow> bool" where "u_used e \<equiv> ua_flags e AND ALCENTFLAG_USED \<noteq> 0"

section \<open>Operations\<close>

text \<open>The results of the three calls of \<open>mmap\<close> (0 when it fails) are arguments.\<close>

definition lib_alloc_init :: "u32 \<Rightarrow> u32 \<Rightarrow> u32 \<Rightarrow> int \<times> utab option" where
  "lib_alloc_init m0 m1 m2 =
     (if m0 = 0 then (- 1, None)
      else let tab = replicate U_ALLOC_BLOCKS None in
        if m1 = 0 then (- 1, Some tab)
        else let row = replicate U_ALLOC_BLOCK \<lparr>ua_flags = 0, ua_addr = 0, ua_size = 0\<rparr> in
          if m2 = 0 then (- 1, Some (tab[0 := Some row]))
          else (0, Some (tab[0 := Some (row[0 := \<lparr>ua_flags = ALCENTFLAG_VALID, ua_addr = m2, ua_size = INITIAL_SZ\<rparr>])])))"

definition u_add_alloc :: "ualcent \<Rightarrow> utab \<Rightarrow> int \<times> utab" where
  "u_add_alloc al tab =
     (case find (\<lambda>(j, i, e). \<not> u_valid e) (cells tab) of
        Some (j, i, e) \<Rightarrow> (0, set_ent tab j i al)
      | None \<Rightarrow> (- 1, tab))"

definition u_rm_alloc :: "utab \<Rightarrow> nat \<Rightarrow> nat \<Rightarrow> utab option" where
  "u_rm_alloc tab block idx = do {
     b \<leftarrow> get_ent tab block idx;
     let addr = ua_addr b; let sz = ua_size b;
     case find (\<lambda>(j, i, e). u_valid e \<and> \<not> u_used e \<and> (ua_addr e + sz = addr \<or> ua_addr e = addr + sz)) (cells tab) of
       Some (j, i, e) \<Rightarrow> do {
         let e = e\<lparr>ua_size := ua_size e + sz\<rparr>;
         let e = (if addr < ua_addr e then e\<lparr>ua_addr := addr\<rparr> else e);
         let tab = set_ent tab j i e;
         b \<leftarrow> get_ent tab block idx;
         Some (set_ent tab block idx (b\<lparr>ua_flags := ua_flags b AND NOT ALCENTFLAG_VALID\<rparr>))
       }
     | None \<Rightarrow> Some (set_ent tab block idx (b\<lparr>ua_flags := ua_flags b AND NOT ALCENTFLAG_USED\<rparr>))
   }"

definition u_align_off :: "u32 \<Rightarrow> u32 \<Rightarrow> u32" where
  "u_align_off align addr = (let off = align - (addr AND (align - 1)) in if off = align then 0 else off)"

definition u_hole_step :: "u32 \<Rightarrow> u32 \<Rightarrow> u32 \<times> u32 \<Rightarrow> nat \<times> nat \<times> ualcent \<Rightarrow> u32 \<times> u32" where
  "u_hole_step sz align best cell =
     (let (idx, size0) = best; (j, i, e) = cell in
      if u_valid e \<and> \<not> u_used e \<and> sz + u_align_off align (ua_addr e) \<le> ua_size e \<and> ua_size e < size0
      then (hole_idx j i, ua_size e) else best)"

definition u_find_hole :: "utab \<Rightarrow> u32 \<Rightarrow> u32 \<Rightarrow> u32" where
  "u_find_hole tab sz align = fst (foldl (u_hole_step sz align) (NO_HOLE, 0xFFFFFFFF) (cells tab))"

definition u_empty_slots :: "utab \<Rightarrow> nat \<Rightarrow> int option" where
  "u_empty_slots tab block =
     (if block < length tab
      then map_option (\<lambda>r. int U_ALLOC_BLOCK - int (length (filter u_valid r))) (tab ! block)
      else None)"

text \<open>A table has \<open>ALLOC_BLOCKS\<close> rows, so \<open>get_free_block\<close> returns its length when no row is free.\<close>

definition u_alloc_new_block :: "(u32 \<Rightarrow> ualcent list) \<Rightarrow> utab \<Rightarrow> (int \<times> utab) option" where
  "u_alloc_new_block raw tab = do {
     let idx = u_find_hole tab PAGE_SZ U_MIN_ALIGN;
     if idx = NO_HOLE then Some (- 1, tab)
     else do {
       let block = idx_block idx; let index = idx_index idx;
       let blk = get_free_block tab;
       if blk = length tab then Some (- 1, tab)
       else do {
         e \<leftarrow> get_ent tab block index;
         if ua_size e = PAGE_SZ then
           Some (0, (set_ent tab block index (e\<lparr>ua_flags := ua_flags e OR ALCENTFLAG_USED\<rparr>))[blk := Some (raw (ua_addr e))])
         else do {
           let ae = \<lparr>ua_flags = ALCENTFLAG_VALID OR ALCENTFLAG_USED, ua_addr = ua_addr e, ua_size = PAGE_SZ\<rparr>;
           let tab = set_ent tab block index (e\<lparr>ua_size := ua_size e - PAGE_SZ, ua_addr := ua_addr e + PAGE_SZ\<rparr>);
           let tab = snd (u_add_alloc ae tab);
           Some (0, tab[blk := Some (raw (ua_addr ae))])
         }
       }
     }
   }"

text \<open>The end of \<open>_alloc\<close>, from the test for an exact fit on.\<close>

definition u_carve :: "utab \<Rightarrow> u32 \<Rightarrow> u32 \<Rightarrow> nat \<Rightarrow> nat \<Rightarrow> (u32 \<times> utab) option" where
  "u_carve tab sz align block index = do {
     e \<leftarrow> get_ent tab block index;
     if ua_size e = sz then Some (ua_addr e, set_ent tab block index (e\<lparr>ua_flags := ua_flags e OR ALCENTFLAG_USED\<rparr>))
     else do {
       let ae = \<lparr>ua_flags = ALCENTFLAG_VALID OR ALCENTFLAG_USED, ua_addr = ua_addr e, ua_size = sz\<rparr>;
       if ua_addr e AND (align - 1) \<noteq> 0 then do {
         let correction = align - (ua_addr e AND (align - 1));
         let ae = ae\<lparr>ua_addr := ua_addr e + correction\<rparr>;
         let tab = (if sz + correction < ua_size e
                    then snd (u_add_alloc \<lparr>ua_flags = ALCENTFLAG_VALID, ua_addr = ua_addr e + (sz + correction),
                                           ua_size = ua_size e - (sz + correction)\<rparr> tab)
                    else tab);
         let tab = set_ent tab block index (e\<lparr>ua_size := correction\<rparr>);
         Some (ua_addr ae, snd (u_add_alloc ae tab))
       } else do {
         let tab = set_ent tab block index (e\<lparr>ua_size := ua_size e - sz, ua_addr := ua_addr e + sz\<rparr>);
         Some (ua_addr ae, snd (u_add_alloc ae tab))
       }
     }
   }"

definition u_alloc :: "(u32 \<Rightarrow> ualcent list) \<Rightarrow> utab \<Rightarrow> u32 \<Rightarrow> u32 \<Rightarrow> (u32 \<times> utab) option" where
  "u_alloc raw tab sz align =
     (if align = 0 \<or> sz = 0 then Some (0, tab)
      else if align AND (align - 1) \<noteq> 0 then Some (0, tab)
      else do {
        let idx = u_find_hole tab sz align;
        if idx = NO_HOLE then Some (0, tab)
        else do {
          slots \<leftarrow> u_empty_slots tab (idx_block idx);
          tab \<leftarrow> (if slots = 4 then map_option snd (u_alloc_new_block raw tab) else Some tab);
          let idx = u_find_hole tab sz align;
          if idx = NO_HOLE then Some (0, tab)
          else u_carve tab sz align (idx_block idx) (idx_index idx)
        }
      })"

definition malloc :: "(u32 \<Rightarrow> ualcent list) \<Rightarrow> utab \<Rightarrow> u32 \<Rightarrow> (u32 \<times> utab) option" where
  "malloc raw tab sz = u_alloc raw tab sz U_MIN_ALIGN"

definition find_addr :: "utab \<Rightarrow> u32 \<Rightarrow> (nat \<times> nat) option" where
  "find_addr tab addr = map_option (\<lambda>(j, i, e). (j, i)) (find (\<lambda>(j, i, e). u_valid e \<and> ua_addr e = addr) (cells tab))"

definition free :: "utab \<Rightarrow> u32 \<Rightarrow> utab option" where
  "free tab ptr = (case find_addr tab ptr of None \<Rightarrow> Some tab | Some (j, i) \<Rightarrow> u_rm_alloc tab j i)"

text \<open>\<open>m\<close> is the memory of the program; copying to \<open>NULL\<close>, when \<open>malloc\<close> failed, is \<open>None\<close>.\<close>

definition copy_bytes :: "u32 \<Rightarrow> u32 \<Rightarrow> u32 \<Rightarrow> (u32 \<Rightarrow> u8) \<Rightarrow> u32 \<Rightarrow> u8" where
  "copy_bytes dst src n m = (\<lambda>a. if a - dst < n then m (src + (a - dst)) else m a)"

definition realloc ::
    "(u32 \<Rightarrow> ualcent list) \<Rightarrow> utab \<times> (u32 \<Rightarrow> u8) \<Rightarrow> u32 \<Rightarrow> u32 \<Rightarrow> (u32 \<times> utab \<times> (u32 \<Rightarrow> u8)) option" where
  "realloc raw st ptr sz =
     (let (tab, m) = st; at = find_addr tab ptr in
      if ptr \<noteq> 0 \<and> at = None then Some (0, tab, m)
      else do {
        (new, tab, m) \<leftarrow> (if sz \<noteq> 0 then do {
            (new, tab) \<leftarrow> malloc raw tab sz;
            if ptr \<noteq> 0 then do {
              e \<leftarrow> get_ent tab (fst (the at)) (snd (the at));
              let n = (if sz < ua_size e then sz else ua_size e);
              if new = 0 \<and> n \<noteq> 0 then None else Some (new, tab, copy_bytes new ptr n m)
            }
            else Some (new, tab, m)
          }
          else Some (0, tab, m));
        tab \<leftarrow> (if ptr \<noteq> 0 then free tab ptr else Some tab);
        Some (new, tab, m)
      })"

section \<open>The kernel's view of the table\<close>

definition uent :: "ualcent \<Rightarrow> alcent" where
  "uent e = \<lparr>ac_valid = of_bool (u_valid e), ac_used = of_bool (u_used e), ac_addr = ua_addr e, ac_size = ua_size e\<rparr>"

definition uabs :: "utab \<Rightarrow> alloc_tab" where
  "uabs tab = map (map_option (map uent)) tab"

lemma uent_simps [simp]:
  "ac_valid (uent e) = 0 \<longleftrightarrow> \<not> u_valid e" "ac_used (uent e) = 0 \<longleftrightarrow> \<not> u_used e"
  "ac_addr (uent e) = ua_addr e" "ac_size (uent e) = ua_size e"
  by (simp_all add: uent_def)

lemma uent_new [simp]:
  "uent \<lparr>ua_flags = 1, ua_addr = a, ua_size = n\<rparr> = \<lparr>ac_valid = 1, ac_used = 0, ac_addr = a, ac_size = n\<rparr>"
  "uent \<lparr>ua_flags = 3, ua_addr = a, ua_size = n\<rparr> = \<lparr>ac_valid = 1, ac_used = 1, ac_addr = a, ac_size = n\<rparr>"
  by (simp_all add: uent_def)

lemma uent_upd [simp]:
  "uent (e\<lparr>ua_size := n\<rparr>) = (uent e)\<lparr>ac_size := n\<rparr>" "uent (e\<lparr>ua_addr := a\<rparr>) = (uent e)\<lparr>ac_addr := a\<rparr>"
  by (simp_all add: uent_def)

lemma uent_flags:
  "uent (e\<lparr>ua_flags := ua_flags e OR 2\<rparr>) = (uent e)\<lparr>ac_used := 1\<rparr>"
  "uent (e\<lparr>ua_flags := ua_flags e AND - 2\<rparr>) = (uent e)\<lparr>ac_valid := 0\<rparr>"
  "uent (e\<lparr>ua_flags := ua_flags e AND - 3\<rparr>) = (uent e)\<lparr>ac_used := 0\<rparr>"
  by (simp_all add: uent_def bit.conj_disj_distrib2 and.assoc or_eq_0_iff)

lemma cells_uabs: "cells (uabs tab) = map (\<lambda>(j, i, e). (j, i, uent e)) (cells tab)"
proof -
  have row: "row_cells j i (map uent es) = map (\<lambda>(j, i, e). (j, i, uent e)) (row_cells j i es)" for j i es
    by (induction j i es rule: row_cells.induct) auto
  have "cells_from j (uabs tab) = map (\<lambda>(j, i, e). (j, i, uent e)) (cells_from j tab)" for j
    by (induction j tab rule: cells_from.induct) (auto simp: uabs_def row)
  then show ?thesis by (simp add: cells_def)
qed

lemma find_map: "find P (map f xs) = map_option f (find (\<lambda>x. P (f x)) xs)"
  by (induction xs) auto

lemma find_uabs:
  "find (\<lambda>(j, i, e). P e) (cells (uabs tab)) =
     map_option (\<lambda>(j, i, e). (j, i, uent e)) (find (\<lambda>(j, i, e). P (uent e)) (cells tab))"
  by (simp add: cells_uabs find_map case_prod_unfold)

lemma get_ent_uabs: "get_ent (uabs tab) j i = map_option uent (get_ent tab j i)"
  by (simp add: get_ent_def uabs_def split: option.split)

lemma uabs_set_ent: "get_ent tab j i \<noteq> None \<Longrightarrow> uabs (set_ent tab j i e) = set_ent (uabs tab) j i (uent e)"
  by (auto simp: get_ent_def set_ent_def uabs_def map_update split: if_splits option.splits)

lemma length_uabs [simp]: "length (uabs tab) = length tab"
  by (simp add: uabs_def)

lemma get_free_block_uabs: "get_free_block (uabs tab) = get_free_block tab"
  by (induction tab rule: get_free_block.induct) (auto simp: uabs_def)

lemma uabs_row: "uabs (tab[j := Some r]) = (uabs tab)[j := Some (map uent r)]"
  by (simp add: uabs_def map_update)

text \<open>Adding an entry: where the kernel stops, the library goes on.\<close>

lemma u_add_alloc_sim: "add_alloc (uent al) (uabs tab) = Some t \<Longrightarrow> uabs (snd (u_add_alloc al tab)) = t \<and> fst (u_add_alloc al tab) = 0"
  using find_uabs [of "\<lambda>e. ac_valid e = 0" tab]
  by (auto simp: add_alloc_def u_add_alloc_def uabs_set_ent split: option.splits dest: find_cells)

lemma pow2_mod: "k < 32 \<Longrightarrow> (a :: u32) AND (2 ^ k - 1) = a mod 2 ^ k"
  using take_bit_eq_mask [of k a] mask_eq_exp_minus_1 [of k, where 'a = "32 word"] by (simp add: take_bit_eq_mod)

lemma u_align_off: "k < 32 \<Longrightarrow> u_align_off (2 ^ k) a = align_off (2 ^ k) a"
  by (simp add: u_align_off_def align_off_def pow2_mod)

lemma u_find_hole_sim: "k < 32 \<Longrightarrow> u_find_hole tab sz (2 ^ k) = find_hole (uabs tab) sz (2 ^ k)"
proof -
  assume k: "k < 32"
  have "u_hole_step sz (2 ^ k) b c = hole_step sz (2 ^ k) b ((\<lambda>(j, i, e). (j, i, uent e)) c)" for b c
    by (cases c) (simp add: u_hole_step_def hole_step_def u_align_off [OF k] case_prod_unfold Let_def)
  then have "u_hole_step sz (2 ^ k) = (\<lambda>b c. hole_step sz (2 ^ k) b ((\<lambda>(j, i, e). (j, i, uent e)) c))" by blast
  then show ?thesis by (simp only: u_find_hole_def find_hole_def cells_uabs foldl_map)
qed

lemma get_set_None: "get_ent (set_ent tab j i e) j' i' = None \<longleftrightarrow> get_ent tab j' i' = None"
  by (cases "j < length tab")
    (auto simp: get_ent_def set_ent_def nth_list_update list_update_beyond split: if_splits option.splits)

lemma get_add_None: "get_ent (snd (u_add_alloc al tab)) j i = None \<longleftrightarrow> get_ent tab j i = None"
  by (simp add: u_add_alloc_def get_set_None split: option.split)

lemma u_carve_sim:
  assumes k: "k < 32" and c: "carve (uabs tab) sz (2 ^ k) j i = Some (p, t)"
  shows "\<exists>tab'. u_carve tab sz (2 ^ k) j i = Some (p, tab') \<and> uabs tab' = t"
proof -
  obtain e where e: "get_ent tab j i = Some e" using c by (cases "get_ent tab j i") (auto simp: carve_def get_ent_uabs)
  have set1: "uabs (set_ent t j i x) = set_ent (uabs t) j i (uent x)" if "get_ent t j i \<noteq> None" for t x
    by (rule uabs_set_ent [OF that])
  consider (whole) "ua_size e = sz" | (unaligned) "ua_size e \<noteq> sz" "ua_addr e mod 2 ^ k \<noteq> 0"
    | (aligned) "ua_size e \<noteq> sz" "ua_addr e mod 2 ^ k = 0"
    by (cases "ua_size e = sz"; cases "ua_addr e mod 2 ^ k = 0") auto
  then show ?thesis
  proof cases
    case whole
    then show ?thesis using c e by (auto simp: carve_def u_carve_def get_ent_uabs set1 uent_flags)
  next
    case unaligned
    let ?c = "2 ^ k - ua_addr e mod 2 ^ k"
    let ?fe = "\<lparr>ua_flags = 1, ua_addr = ua_addr e + (sz + ?c), ua_size = ua_size e - (sz + ?c)\<rparr>"
    let ?ae = "\<lparr>ua_flags = 3, ua_addr = ua_addr e + ?c, ua_size = sz\<rparr>"
    let ?t1 = "if sz + ?c < ua_size e then snd (u_add_alloc ?fe tab) else tab"
    let ?t2 = "set_ent ?t1 j i (e\<lparr>ua_size := ?c\<rparr>)"
    from c unaligned e obtain k1 where
      k1: "(if sz + ?c < ua_size e then add_alloc (uent ?fe) (uabs tab) else Some (uabs tab)) = Some k1"
      and p: "p = ua_addr e + ?c"
      and k2: "add_alloc (uent ?ae) (set_ent k1 j i (uent (e\<lparr>ua_size := ?c\<rparr>))) = Some t"
      by (auto simp: carve_def get_ent_uabs Let_def split: bind_splits if_splits)
    have t1: "uabs ?t1 = k1" using k1 u_add_alloc_sim [of ?fe tab k1] by (simp split: if_splits)
    have "get_ent ?t1 j i \<noteq> None" using e get_add_None [of ?fe tab j i] by (simp del: not_None_eq)
    from set1 [OF this] have t2: "uabs ?t2 = set_ent k1 j i (uent (e\<lparr>ua_size := ?c\<rparr>))" unfolding t1 .
    have "add_alloc (uent ?ae) (uabs ?t2) = Some t" using k2 unfolding t2 .
    then have "uabs (snd (u_add_alloc ?ae ?t2)) = t" using u_add_alloc_sim by blast
    moreover have "u_carve tab sz (2 ^ k) j i = Some (ua_addr e + ?c, snd (u_add_alloc ?ae ?t2))"
      using unaligned e by (simp add: u_carve_def Let_def pow2_mod [OF k])
    ultimately show ?thesis by (simp add: p)
  next
    case aligned
    let ?ae = "\<lparr>ua_flags = 3, ua_addr = ua_addr e, ua_size = sz\<rparr>"
    let ?t2 = "set_ent tab j i (e\<lparr>ua_size := ua_size e - sz, ua_addr := ua_addr e + sz\<rparr>)"
    have k2: "add_alloc (uent ?ae) (uabs ?t2) = Some t" and p: "p = ua_addr e"
      using c aligned e by (auto simp: carve_def get_ent_uabs Let_def set1 split: bind_splits)
    then have "uabs (snd (u_add_alloc ?ae ?t2)) = t" using u_add_alloc_sim by blast
    moreover have "u_carve tab sz (2 ^ k) j i = Some (ua_addr e, snd (u_add_alloc ?ae ?t2))"
      using aligned e by (simp add: u_carve_def Let_def pow2_mod [OF k])
    ultimately show ?thesis by (simp add: p)
  qed
qed

lemma u_rm_alloc_sim: "rm_alloc (uabs tab) block idx = map_option uabs (u_rm_alloc tab block idx)"
proof (cases "get_ent tab block idx")
  case None
  then show ?thesis by (simp add: rm_alloc_def u_rm_alloc_def get_ent_uabs)
next
  case (Some b)
  let ?P = "\<lambda>e. ac_valid e \<noteq> 0 \<and> (ac_addr e + ua_size b = ua_addr b \<or> ac_addr e = ua_addr b + ua_size b) \<and> ac_used e = 0"
  let ?Q = "\<lambda>(j, i, e). u_valid e \<and> \<not> u_used e \<and> (ua_addr e + ua_size b = ua_addr b \<or> ua_addr e = ua_addr b + ua_size b)"
  have Q: "(\<lambda>(j, i, e). ?P (uent e)) = ?Q" by auto
  have f: "find (\<lambda>(j, i, e). ?P e) (cells (uabs tab)) = map_option (\<lambda>(j, i, e). (j, i, uent e)) (find ?Q (cells tab))"
    unfolding Q [symmetric] by (rule find_uabs)
  show ?thesis
  proof (cases "find ?Q (cells tab)")
    case None
    then show ?thesis using Some f by (simp add: rm_alloc_def u_rm_alloc_def get_ent_uabs uabs_set_ent uent_flags)
  next
    case (Some c)
    obtain j i e where c: "c = (j, i, e)" by (cases c)
    have e: "get_ent tab j i = Some e" by (rule find_cells(1) [OF Some [unfolded c]])
    let ?e = "let e = e\<lparr>ua_size := ua_size e + ua_size b\<rparr> in if ua_addr b < ua_addr e then e\<lparr>ua_addr := ua_addr b\<rparr> else e"
    let ?t = "set_ent tab j i ?e"
    have t: "uabs ?t = set_ent (uabs tab) j i (uent ?e)" by (rule uabs_set_ent) (simp add: e)
    let ?E = "let e = (uent e)\<lparr>ac_size := ac_size (uent e) + ua_size b\<rparr> in if ua_addr b < ac_addr e then e\<lparr>ac_addr := ua_addr b\<rparr> else e"
    have E: "?E = uent ?e" by (simp add: Let_def)
    obtain b' where b': "get_ent ?t block idx = Some b'"
      using \<open>get_ent tab block idx = Some b\<close> get_set_None [of tab j i ?e block idx] by auto
    have "rm_alloc (uabs tab) block idx =
        Option.bind (get_ent (set_ent (uabs tab) j i ?E) block idx) (\<lambda>b. Some (set_ent (set_ent (uabs tab) j i ?E) block idx (b\<lparr>ac_valid := 0\<rparr>)))"
      using \<open>get_ent tab block idx = Some b\<close> f Some c by (simp add: rm_alloc_def get_ent_uabs Let_def)
    also have "\<dots> = Some (set_ent (uabs ?t) block idx ((uent b')\<lparr>ac_valid := 0\<rparr>))"
      unfolding E t [symmetric] get_ent_uabs b' by simp
    finally have "rm_alloc (uabs tab) block idx = Some (set_ent (uabs ?t) block idx ((uent b')\<lparr>ac_valid := 0\<rparr>))" .
    moreover have "u_rm_alloc tab block idx = Some (set_ent ?t block idx (b'\<lparr>ua_flags := ua_flags b' AND NOT 1\<rparr>))"
      using \<open>get_ent tab block idx = Some b\<close> Some c b' by (simp add: u_rm_alloc_def Let_def)
    ultimately show ?thesis using b' by (simp add: uabs_set_ent uent_flags)
  qed
qed

section \<open>Free slots\<close>

definition nslots :: "alloc_tab \<Rightarrow> nat" where
  "nslots tab = tsum (\<lambda>e. of_bool (ac_valid e = 0)) tab"

lemma nslots_set: "get_ent tab j i = Some old \<Longrightarrow> nslots (set_ent tab j i e) + of_bool (ac_valid old = 0) = nslots tab + of_bool (ac_valid e = 0)"
  unfolding nslots_def by (rule tsum_set_ent)

lemma nslots_find: "0 < nslots tab \<Longrightarrow> find (\<lambda>(j, i, e). ac_valid e = 0) (cells tab) \<noteq> None"
proof (rule notI)
  assume n: "0 < nslots tab" and "find (\<lambda>(j, i, e). ac_valid e = 0) (cells tab) = None"
  then have "\<forall>c \<in> set (cells tab). (\<lambda>(j, i, e). of_bool (ac_valid e = 0)) c = (0 :: nat)" by (auto simp: find_None_iff)
  then have "nslots tab = 0" unfolding nslots_def tsum_def sum_list_eq_0_iff set_map ball_simps by blast
  with n show False by simp
qed

lemma add_alloc_room:
  assumes "0 < nslots tab" "ac_valid al \<noteq> 0"
  obtains t where "add_alloc al tab = Some t" "nslots t + 1 = nslots tab"
proof -
  obtain j i e where f: "find (\<lambda>(j, i, e). ac_valid e = 0) (cells tab) = Some (j, i, e)" using nslots_find [OF assms(1)] by auto
  have "nslots (set_ent tab j i al) + 1 = nslots tab" using find_cells [OF f] nslots_set [of tab j i e al] assms(2) by simp
  with f show thesis by (intro that) (simp_all add: add_alloc_def)
qed

lemma carve_room:
  assumes e: "get_ent tab j i = Some e" "ac_valid e \<noteq> 0" and room: "2 \<le> nslots tab"
  obtains p t where "carve tab sz align j i = Some (p, t)" "nslots tab \<le> nslots t + 2"
proof (cases "ac_size e = sz")
  case True
  let ?t = "set_ent tab j i (e\<lparr>ac_used := 1\<rparr>)"
  have n: "nslots ?t = nslots tab" using nslots_set [OF e(1), of "e\<lparr>ac_used := 1\<rparr>"] e by simp
  have "carve tab sz align j i = Some (ac_addr e, ?t)" using True e by (simp add: carve_def)
  with n show thesis by (intro that) (assumption, linarith)
next
  case False
  show thesis
  proof (cases "ac_addr e mod align = 0")
    case True
    let ?t = "set_ent tab j i (e\<lparr>ac_size := ac_size e - sz, ac_addr := ac_addr e + sz\<rparr>)"
    have "nslots ?t = nslots tab" using nslots_set [OF e(1), of "e\<lparr>ac_size := ac_size e - sz, ac_addr := ac_addr e + sz\<rparr>"] e by simp
    moreover obtain t where "add_alloc \<lparr>ac_valid = 1, ac_used = 1, ac_addr = ac_addr e, ac_size = sz\<rparr> ?t = Some t" "nslots t + 1 = nslots ?t"
      by (rule add_alloc_room [of ?t]) (use room \<open>nslots ?t = nslots tab\<close> in auto)
    ultimately show thesis using e False True by (intro that [of "ac_addr e" t]) (simp add: carve_def, linarith)
  next
    case un: False
    let ?c = "align - ac_addr e mod align"
    let ?fe = "\<lparr>ac_valid = 1, ac_used = 0, ac_addr = ac_addr e + (sz + ?c), ac_size = ac_size e - (sz + ?c)\<rparr>"
    obtain t1 where t1: "(if sz + ?c < ac_size e then add_alloc ?fe tab else Some tab) = Some t1" "nslots tab \<le> nslots t1 + 1"
        "get_ent t1 j i = Some e"
    proof (cases "sz + ?c < ac_size e")
      case True
      obtain t where "add_alloc ?fe tab = Some t" "nslots t + 1 = nslots tab" by (rule add_alloc_room [of tab ?fe]) (use room in auto)
      then show thesis using True add_alloc_keeps [OF _ e] by (intro that [of t]) (simp, linarith, blast)
    qed (use e that in simp)
    let ?t2 = "set_ent t1 j i (e\<lparr>ac_size := ?c\<rparr>)"
    have n2: "nslots ?t2 = nslots t1" using nslots_set [OF t1(3), of "e\<lparr>ac_size := ?c\<rparr>"] e by simp
    obtain t where "add_alloc \<lparr>ac_valid = 1, ac_used = 1, ac_addr = ac_addr e + ?c, ac_size = sz\<rparr> ?t2 = Some t" "nslots t + 1 = nslots ?t2"
      by (rule add_alloc_room [of ?t2]) (use room n2 t1(2) in auto)
    then show thesis using e False un t1 n2 by (intro that [of "ac_addr e + ?c" t]) (simp add: carve_def Let_def, linarith)
  qed
qed

section \<open>A new row\<close>

definition u_raw_clear :: "(u32 \<Rightarrow> ualcent list) \<Rightarrow> bool" where
  "u_raw_clear raw \<longleftrightarrow> (\<forall>a. length (raw a) = U_ALLOC_BLOCK \<and> (\<forall>e \<in> set (raw a). \<not> u_valid e))"

lemma u_new_block_carve:
  assumes "u_find_hole tab PAGE_SZ 8 \<noteq> NO_HOLE" "get_free_block tab < length tab"
  shows "u_alloc_new_block raw tab = map_option (\<lambda>(p, t). (0, t[get_free_block tab := Some (raw p)]))
    (u_carve tab PAGE_SZ 1 (idx_block (u_find_hole tab PAGE_SZ 8)) (idx_index (u_find_hole tab PAGE_SZ 8)))"
  using assms
  by (cases "get_ent tab (idx_block (u_find_hole tab PAGE_SZ 8)) (idx_index (u_find_hole tab PAGE_SZ 8))")
    (simp_all add: u_alloc_new_block_def u_carve_def Let_def)

lemma get_free_block_dims: "get_free_block t = length (takeWhile (\<lambda>d. d \<noteq> None) (dims t))"
  by (induction t rule: get_free_block.induct) (simp_all add: dims_def)

lemma nslots_row:
  assumes "j < length tab" "tab ! j = None"
  shows "nslots tab \<le> nslots (tab[j := Some r])"
  using sum_list_upd [OF assms(1), of "row_sum (\<lambda>e. of_bool (ac_valid e = 0) :: nat)" "Some r"] assms(2)
  by (simp add: nslots_def tsum_rows row_sum_def)

lemma u_new_block_refines:
  assumes inv: "alloc_inv (uabs tab)" and raw: "u_raw_clear raw" and room: "2 \<le> nslots (uabs tab)"
  obtains r t where "u_alloc_new_block raw tab = Some (r, t)" "alloc_inv (uabs t)" "nslots (uabs tab) \<le> nslots (uabs t) + 2"
    "blocks (uabs t) = blocks (uabs tab) \<or> (\<exists>q. heap_alloc (blocks (uabs tab)) (blocks (uabs t)) q 4096)"
proof (cases "u_find_hole tab PAGE_SZ 8 = NO_HOLE \<or> get_free_block tab = length tab")
  case True
  then have "u_alloc_new_block raw tab = Some (- 1, tab)" by (auto simp: u_alloc_new_block_def Let_def)
  then show thesis using inv by (intro that) auto
next
  case False
  have "get_free_block tab \<le> length tab" by (induction tab rule: get_free_block.induct) auto
  with False have hole: "u_find_hole tab PAGE_SZ 8 \<noteq> NO_HOLE" and blk: "get_free_block tab < length tab" by auto
  have h8: "u_find_hole tab PAGE_SZ 8 = find_hole (uabs tab) PAGE_SZ 8" using u_find_hole_sim [of 3 tab PAGE_SZ] by simp
  show thesis
  proof (rule find_hole_cases [OF inv, of PAGE_SZ 8])
    assume "find_hole (uabs tab) PAGE_SZ 8 = NO_HOLE"
    then show thesis using hole h8 by simp
  next
    fix j i e
    assume e: "get_ent (uabs tab) j i = Some e" and f: "fits PAGE_SZ 8 e"
      and ji: "idx_block (find_hole (uabs tab) PAGE_SZ 8) = j" "idx_index (find_hole (uabs tab) PAGE_SZ 8) = i"
    have v: "ac_valid e \<noteq> 0" using f by (simp add: fits_def)
    have "PAGE_SZ \<le> ac_size e"
      using fits_nums(2) [OF inv e f] by (simp add: word_le_nat_alt)
    then have f1: "fits PAGE_SZ 1 e" using f by (simp add: fits_def align_off_def)
    obtain p k where c: "carve (uabs tab) PAGE_SZ 1 j i = Some (p, k)" "nslots (uabs tab) \<le> nslots k + 2"
      by (rule carve_room [OF e v room])
    have ref: "heap_alloc (blocks (uabs tab)) (blocks k) (unat p) 4096" "dims k = dims (uabs tab)" "length k = length (uabs tab)"
      using carve_refines [OF inv e f1 _ _ _ c(1)] by simp_all
    obtain t where t: "u_carve tab PAGE_SZ 1 j i = Some (p, t)" "uabs t = k" using u_carve_sim [of 0 tab PAGE_SZ j i p k] c(1) by auto
    let ?b = "get_free_block tab"
    let ?t = "t[?b := Some (raw p)]"
    have b: "?b = get_free_block k" using ref(2) get_free_block_dims get_free_block_uabs by metis
    have ut: "uabs ?t = k[get_free_block k := Some (map uent (raw p))]" by (simp add: uabs_row t(2) b [symmetric])
    have row: "set_row k (get_free_block k) (map uent (raw p)) = Some (uabs ?t)"
      using blk ref(3) b unfolding ut by (simp add: set_row_def)
    have d: "dims_ok k" using inv ref(2,3) by (simp add: alloc_inv_def dims_ok_def)
    have bl: "blocks (uabs ?t) = blocks k" "dims_ok (uabs ?t)"
      using set_row_blocks [OF row _ _ d] raw by (auto simp: u_raw_clear_def)
    have "nslots k \<le> nslots (uabs ?t)"
      unfolding ut by (rule nslots_row) (use blk ref(3) b get_free_block_None [of k] in auto)
    moreover have "u_alloc_new_block raw tab = Some (0, ?t)"
      using u_new_block_carve [OF hole blk, of raw] t(1) ji h8 by simp
    ultimately show thesis using c(2) inv_alloc [OF inv, of "uabs ?t"] ref(1) bl by (intro that) auto
  qed
qed

section \<open>Properties\<close>

text \<open>
  C28 (two allocators, one behaviour). Seen through \<open>uabs\<close>, the library's allocator and the kernel's do
  the same wherever the kernel's does not stop: allocation with an alignment that is a power of two
  (in a row that does not have exactly four free entries) returns the same address and leaves the same
  table, and so does freeing.
\<close>

theorem u_alloc_is_kernel:
  assumes "k < 32" "sz \<noteq> 0" "\<forall>j. u_empty_slots tab j \<noteq> Some 4 \<and> empty_slots (uabs tab) j \<noteq> Some 4"
  shows "(\<forall>p t. kamalloc_locked kraw (uabs tab) sz (2 ^ k) = Some (p, t) \<longrightarrow>
      (\<exists>tab'. u_alloc raw tab sz (2 ^ k) = Some (p, tab') \<and> uabs tab' = t)) \<and>
    (\<forall>ptr st. kfree \<lparr>al_lock = 0, al_tab = uabs tab\<rparr> ptr = Some st \<longrightarrow>
      (\<exists>tab'. free tab ptr = Some tab' \<and> uabs tab' = al_tab st))"
proof (intro conjI allI impI)
  fix p t assume r: "kamalloc_locked kraw (uabs tab) sz (2 ^ k) = Some (p, t)"
  let ?h = "u_find_hole tab sz (2 ^ k)"
  have h: "find_hole (uabs tab) sz (2 ^ k) = ?h" using u_find_hole_sim [OF assms(1)] by simp
  have pow: "(2 ^ k :: u32) \<noteq> 0" "2 ^ k AND (2 ^ k - 1) = (0 :: u32)"
    using assms(1) pow2_mod [OF assms(1), of "2 ^ k"] by simp_all
  show "\<exists>tab'. u_alloc raw tab sz (2 ^ k) = Some (p, tab') \<and> uabs tab' = t"
  proof (cases "?h = NO_HOLE")
    case True
    then show ?thesis using r h pow assms(2) by (auto simp: kamalloc_locked_def u_alloc_def)
  next
    case False
    obtain n where n: "empty_slots (uabs tab) (idx_block ?h) = Some n" "n \<noteq> 4"
      using r h False assms(3) by (auto simp: kamalloc_locked_def split: bind_splits)
    have "u_empty_slots tab (idx_block ?h) \<noteq> None" using n(1) by (auto simp: u_empty_slots_def empty_slots_def uabs_def split: if_splits)
    then obtain u where u: "u_empty_slots tab (idx_block ?h) = Some u" "u \<noteq> 4" using assms(3) by auto
    have "carve (uabs tab) sz (2 ^ k) (idx_block ?h) (idx_index ?h) = Some (p, t)"
      using r h False n by (simp add: kamalloc_locked_def Let_def)
    from u_carve_sim [OF assms(1) this] show ?thesis using False u pow assms(2) by (simp add: u_alloc_def Let_def)
  qed
next
  fix ptr st assume r: "kfree \<lparr>al_lock = 0, al_tab = uabs tab\<rparr> ptr = Some st"
  let ?P = "\<lambda>e. ac_valid e \<noteq> 0 \<and> ac_addr e = ptr"
  obtain j i e where f: "find (\<lambda>(j, i, e). ?P e) (cells (uabs tab)) = Some (j, i, e)"
    and rm: "rm_alloc (uabs tab) j i = Some (al_tab st)"
    using r by (auto simp: kfree_def split: bind_splits option.splits)
  from f obtain e' where "find (\<lambda>(j, i, e). u_valid e \<and> ua_addr e = ptr) (cells tab) = Some (j, i, e')"
    using find_uabs [of ?P tab] by auto
  then have "find_addr tab ptr = Some (j, i)" by (simp add: find_addr_def)
  then show "\<exists>tab'. free tab ptr = Some tab' \<and> uabs tab' = al_tab st"
    using rm u_rm_alloc_sim [of tab j i] by (auto simp: free_def)
qed

text \<open>
  With at least four free entries in a well-formed table, \<open>malloc\<close> returns; the table stays
  well formed, no byte enters or leaves the heap, and used bytes stay used. If the result is not
  \<open>NULL\<close> it is aligned to 8, and the bytes of the block were unused before and are used in one block
  now. Unless a row has exactly four free entries, the result is \<open>NULL\<close> only if no free block has room.
\<close>

theorem malloc_sound:
  assumes inv: "alloc_inv (uabs tab)" and raw: "u_raw_clear raw" and room: "4 \<le> nslots (uabs tab)"
    and sz: "sz \<noteq> 0" "unat sz + 8 \<le> 2 ^ 32"
  shows "\<exists>p tab'. malloc raw tab sz = Some (p, tab') \<and> alloc_inv (uabs tab') \<and>
    (\<forall>x. cover (blocks (uabs tab')) x = cover (blocks (uabs tab)) x \<and> ucover (blocks (uabs tab)) x \<le> ucover (blocks (uabs tab')) x) \<and>
    (p \<noteq> 0 \<longrightarrow> 8 dvd unat p \<and> (\<forall>x. unat p \<le> x \<and> x < unat p + unat sz \<longrightarrow>
      cover (blocks (uabs tab)) x = 1 \<and> ucover (blocks (uabs tab)) x = 0 \<and> ucover (blocks (uabs tab')) x = 1)) \<and>
    ((\<forall>j. u_empty_slots tab j \<noteq> Some 4) \<longrightarrow> p = 0 \<longrightarrow> (\<forall>j i e. get_ent (uabs tab) j i = Some e \<longrightarrow> \<not> fits sz 8 e))"
proof (cases "u_find_hole tab sz 8 = NO_HOLE")
  case True
  then have "malloc raw tab sz = Some (0, tab)" using sz(1) by (simp add: malloc_def u_alloc_def)
  moreover have "\<forall>j i e. get_ent (uabs tab) j i = Some e \<longrightarrow> \<not> fits sz 8 e"
    using True u_find_hole_sim [of 3 tab sz] by (intro allI impI, cases rule: find_hole_cases [OF inv, of sz 8]) auto
  ultimately show ?thesis using inv by auto
next
  case False
  have h: "u_find_hole t sz 8 = find_hole (uabs t) sz 8" for t using u_find_hole_sim [of 3 t sz] by simp
  let ?b = "idx_block (u_find_hole tab sz 8)"
  obtain u where u: "u_empty_slots tab ?b = Some u"
  proof (rule find_hole_cases [OF inv, of sz 8])
    fix j i e
    assume "get_ent (uabs tab) j i = Some e" "idx_block (find_hole (uabs tab) sz 8) = j"
    then have "get_ent tab ?b i \<noteq> None" using h [of tab] by (auto simp: get_ent_uabs)
    then show thesis using that by (auto simp: u_empty_slots_def get_ent_def split: if_splits option.splits)
  qed (use False h [of tab] in simp)
  obtain t1 where t1: "(if u = 4 then map_option snd (u_alloc_new_block raw tab) else Some tab) = Some t1" "alloc_inv (uabs t1)"
      "2 \<le> nslots (uabs t1)" "blocks (uabs t1) = blocks (uabs tab) \<or> (\<exists>q m. heap_alloc (blocks (uabs tab)) (blocks (uabs t1)) q m)"
      "u \<noteq> 4 \<Longrightarrow> t1 = tab"
  proof (cases "u = 4")
    case True
    obtain r t where "u_alloc_new_block raw tab = Some (r, t)" "alloc_inv (uabs t)" "nslots (uabs tab) \<le> nslots (uabs t) + 2"
      "blocks (uabs t) = blocks (uabs tab) \<or> (\<exists>q. heap_alloc (blocks (uabs tab)) (blocks (uabs t)) q 4096)"
      by (rule u_new_block_refines [OF inv raw]) (use room in auto)
    then show thesis using True room by (intro that [of t]) auto
  qed (use inv room that in auto)
  have ok: "cover (blocks (uabs tab)) x \<le> 1" for x using inv by (simp add: alloc_inv_def ok_heap_def)
  show ?thesis
  proof (rule find_hole_cases [OF t1(2), of sz 8])
    assume none: "find_hole (uabs t1) sz 8 = NO_HOLE" "\<And>j i e. get_ent (uabs t1) j i = Some e \<Longrightarrow> \<not> fits sz 8 e"
    then have "malloc raw tab sz = Some (0, t1)" using False u t1(1) sz(1) h [of t1] by (simp add: malloc_def u_alloc_def)
    moreover have "u = 4" using none t1(5) False h [of tab] by auto
    ultimately show ?thesis using t1(2) alloc_effect(1,2) [OF ok t1(4), of 0] u by auto
  next
    fix j i e
    assume e: "get_ent (uabs t1) j i = Some e" "fits sz 8 e" and hole: "find_hole (uabs t1) sz 8 \<noteq> NO_HOLE"
      and ji: "idx_block (find_hole (uabs t1) sz 8) = j" "idx_index (find_hole (uabs t1) sz 8) = i"
    have v: "ac_valid e \<noteq> 0" using e(2) by (simp add: fits_def)
    obtain p k where c: "carve (uabs t1) sz 8 j i = Some (p, k)" by (rule carve_room [OF e(1) v t1(3)])
    have ref: "heap_alloc (blocks (uabs t1)) (blocks k) (unat p) (unat sz)" "dims k = dims (uabs t1)" "length k = length (uabs t1)" "8 dvd unat p"
      using carve_refines [OF t1(2) e _ sz(1) _ c] sz(2) by simp_all
    obtain t where t: "u_carve t1 sz 8 j i = Some (p, t)" "uabs t = k" using u_carve_sim [of 3 t1 sz j i p k] c by auto
    have run: "malloc raw tab sz = Some (p, t)"
      using False u t1(1) sz(1) h [of t1] hole ji t(1) by (simp add: malloc_def u_alloc_def Let_def)
    have "0 < unat p" using ref(1) t1(2) by (auto simp: heap_alloc_def alloc_inv_def ok_heap_def)
    then have p: "p \<noteq> 0" by auto
    have "alloc_inv (uabs t)"
      unfolding t(2) by (rule inv_alloc [OF t1(2) ref(1)]) (use t1(2) ref(2,3) in \<open>simp add: alloc_inv_def dims_ok_def\<close>)
    moreover have "if unat p = 0 then blocks k = blocks (uabs t1) else heap_alloc (blocks (uabs t1)) (blocks k) (unat p) (unat sz)"
      using ref(1) \<open>0 < unat p\<close> by simp
    note eff = alloc_effect [OF ok t1(4) this]
    ultimately show ?thesis using run p ref(4) eff \<open>0 < unat p\<close> t(2) by auto
  qed
qed

definition ex_uent :: "u8 \<Rightarrow> u32 \<Rightarrow> u32 \<Rightarrow> ualcent" where
  "ex_uent f a n = \<lparr>ua_flags = f, ua_addr = a, ua_size = n\<rparr>"

definition ex_utab :: utab where
  "ex_utab = [Some [ex_uent 1 18 62, ex_uent 3 80 8, ex_uent 0 0 0, ex_uent 0 0 0, ex_uent 0 0 0, ex_uent 0 0 0], None]"

definition ex_uraw :: "u32 \<Rightarrow> ualcent list" where
  "ex_uraw a = replicate U_ALLOC_BLOCK (ex_uent 0 0 0)"

lemma ex_utab_facts:
  "alloc_inv (uabs ex_utab)" "u_raw_clear ex_uraw" "4 \<le> nslots (uabs ex_utab)" "u_empty_slots ex_utab j \<noteq> Some 4"
  "empty_slots (uabs ex_utab) j \<noteq> Some 4" "get_ent (uabs ex_utab) 0 0 = Some \<lparr>ac_valid = 1, ac_used = 0, ac_addr = 18, ac_size = 62\<rparr>"
proof -
  have "blocks (uabs ex_utab) = {#(False, 18, 62), (True, 80, 8)#}"
    by (simp add: ex_utab_def uabs_def uent_def ex_uent_def blocks_def tsum_def cells_def bl_def add_mset_commute)
  then show "alloc_inv (uabs ex_utab)"
    by (auto simp: alloc_inv_def ok_heap_def dims_ok_def dims_def ex_utab_def uabs_def)
  show "u_raw_clear ex_uraw" by (simp add: u_raw_clear_def ex_uraw_def ex_uent_def)
  show "4 \<le> nslots (uabs ex_utab)"
    by (simp add: ex_utab_def uabs_def uent_def ex_uent_def nslots_def tsum_def cells_def)
  show "u_empty_slots ex_utab j \<noteq> Some 4" "empty_slots (uabs ex_utab) j \<noteq> Some 4"
    by (auto simp: u_empty_slots_def empty_slots_def ex_utab_def uabs_def uent_def ex_uent_def less_Suc_eq nth_Cons')
  show "get_ent (uabs ex_utab) 0 0 = Some \<lparr>ac_valid = 1, ac_used = 0, ac_addr = 18, ac_size = 62\<rparr>"
    by (simp add: get_ent_def ex_utab_def uabs_def uent_def ex_uent_def)
qed

theorem u_alloc_is_kernel_witness:
  "(\<exists>tab'. u_alloc ex_uraw ex_utab 8 4 = Some (20, tab')) \<and> (\<exists>tab'. free ex_utab 80 = Some tab')"
proof -
  have "\<forall>j. u_empty_slots ex_utab j \<noteq> Some 4 \<and> empty_slots (uabs ex_utab) j \<noteq> Some 4" using ex_utab_facts(4,5) by blast
  from u_alloc_is_kernel [OF _ _ this, of 2 8 "\<lambda>_. []" ex_uraw]
  have eq: "(\<forall>p t. kamalloc_locked (\<lambda>_. []) (uabs ex_utab) 8 4 = Some (p, t) \<longrightarrow>
      (\<exists>tab'. u_alloc ex_uraw ex_utab 8 4 = Some (p, tab') \<and> uabs tab' = t)) \<and>
    (\<forall>ptr st. kfree \<lparr>al_lock = 0, al_tab = uabs ex_utab\<rparr> ptr = Some st \<longrightarrow>
      (\<exists>tab'. free ex_utab ptr = Some tab' \<and> uabs tab' = al_tab st))" by simp
  have "map_option fst (kamalloc_locked (\<lambda>_. []) (uabs ex_utab) 8 4) = Some 20" by code_simp
  then obtain t where "kamalloc_locked (\<lambda>_. []) (uabs ex_utab) 8 4 = Some (20, t)" by auto
  moreover have "kfree \<lparr>al_lock = 0, al_tab = uabs ex_utab\<rparr> 80 \<noteq> None" by code_simp
  ultimately show ?thesis using eq by blast
qed

theorem malloc_sound_witness:
  "\<exists>p tab'. malloc ex_uraw ex_utab 8 = Some (p, tab') \<and> alloc_inv (uabs tab') \<and> p \<noteq> 0 \<and> 8 dvd unat p"
proof -
  have "fits 8 8 \<lparr>ac_valid = 1, ac_used = 0, ac_addr = 18, ac_size = 62\<rparr>" by (simp add: fits_def align_off_def)
  with malloc_sound [OF ex_utab_facts(1-3), of 8] ex_utab_facts(4,6) show ?thesis by force
qed

end
