(* ===== verification/Kstdlib.thy ===== *)
theory Kstdlib
  imports Lambda_Prelude
begin

text \<open>
  \<open>kernel/inc/ctype.h\<close>, \<open>kernel/src/std/stdlib.c\<close> and \<open>kernel/src/std/libgen.c\<close> on the texts of C
  strings: number parsing, and splitting a path into directory and file name.
\<close>

section \<open>Character classes\<close>

definition isspace :: "char \<Rightarrow> bool" where
  "isspace c \<longleftrightarrow> c \<in> {CHR '' '', CHR 0x09, CHR 0x0B, CHR 0x0D, CHR 0x0A}"

definition isnum :: "char \<Rightarrow> bool" where
  "isnum c \<longleftrightarrow> code_of CHR ''0'' \<le> code_of c \<and> code_of c \<le> code_of CHR ''9''"

definition isupper :: "char \<Rightarrow> bool" where
  "isupper c \<longleftrightarrow> code_of CHR ''A'' \<le> code_of c \<and> code_of c \<le> code_of CHR ''Z''"

definition islower :: "char \<Rightarrow> bool" where
  "islower c \<longleftrightarrow> code_of CHR ''a'' \<le> code_of c \<and> code_of c \<le> code_of CHR ''z''"

definition isalpha :: "char \<Rightarrow> bool" where
  "isalpha c \<longleftrightarrow> islower c \<or> isupper c"

definition isalnum :: "char \<Rightarrow> bool" where
  "isalnum c \<longleftrightarrow> isnum c \<or> isalpha c"

text \<open>The code of the lower-case letter; 0 for a character that is no letter.\<close>

definition tolower :: "char \<Rightarrow> int" where
  "tolower c = (if islower c then int (code_of c) else if isupper c then int (code_of c) + (97 - 65) else 0)"

section \<open>Numbers\<close>

definition conv_checkchar :: "char \<Rightarrow> int \<Rightarrow> bool" where
  "conv_checkchar c base =
     (if \<not> isalnum c then False
      else if isnum c \<and> int (code_of c) - 48 \<ge> base then False
      else if isalpha c \<and> tolower c - 97 \<ge> base - 10 then False
      else True)"

definition conv_convertchar :: "char \<Rightarrow> int" where
  "conv_convertchar c =
     (if isnum c then int (code_of c) - 48 else if isalpha c then tolower c - 97 + 10 else 1)"

fun strtoul_loop :: "int \<Rightarrow> u32 \<Rightarrow> string \<Rightarrow> u32 \<times> string" where
  "strtoul_loop base val [] = (val, [])"
| "strtoul_loop base val (c # cs) =
     (if \<not> conv_checkchar c base then (val, c # cs)
      else strtoul_loop base (val * of_int base + of_int (conv_convertchar c)) cs)"

text \<open>The base and the text left after a leading \<open>0x\<close> or \<open>0\<close> was looked at.\<close>

fun strtoul_prefix :: "int \<Rightarrow> string \<Rightarrow> int \<times> string" where
  "strtoul_prefix base (z # x # rest) =
     (if z = CHR ''0'' then
        if x = CHR ''x'' \<or> x = CHR ''X'' then
          (if base = 0 \<or> base = 16 then (16, rest) else (base, z # x # rest))
        else (if base = 0 then 8 else base, z # x # rest)
      else (base, z # x # rest))"
| "strtoul_prefix base [z] = (if z = CHR ''0'' \<and> base = 0 then 8 else base, [z])"
| "strtoul_prefix base [] = (base, [])"

text \<open>The value, and what \<open>*endptr\<close> points to (\<open>None\<close> where it is not written).\<close>

definition strtoul :: "string \<Rightarrow> int \<Rightarrow> u32 \<times> string option" where
  "strtoul str base =
     (if base < 0 \<or> base > 35 then (0, None)
      else
        let (base, ptr) = strtoul_prefix base (dropWhile isspace str);
            base = (if base = 0 then 10 else base);
            (val, rest) = strtoul_loop base 0 ptr
        in (val, Some rest))"

section \<open>Paths\<close>

text \<open>Text before and after the last slash, if there is one.\<close>

fun last_sep :: "string \<Rightarrow> (string \<times> string) option" where
  "last_sep [] = None"
| "last_sep (c # cs) =
     (case last_sep cs of
        Some (a, b) \<Rightarrow> Some (c # a, b)
      | None \<Rightarrow> if c = CHR ''/'' then Some ([], cs) else None)"

definition dirname :: "string \<Rightarrow> string" where
  "dirname path = (case last_sep path of None \<Rightarrow> ''.'' | Some (a, b) \<Rightarrow> a)"

definition basename :: "string \<Rightarrow> string" where
  "basename path = (case last_sep path of None \<Rightarrow> path | Some (a, b) \<Rightarrow> b)"

section \<open>Lemmas\<close>

lemma last_sep_None: "last_sep p = None \<longleftrightarrow> CHR ''/'' \<notin> set p"
  by (induction p) (auto split: option.splits)

lemma last_sep_Some: "last_sep p = Some (a, b) \<Longrightarrow> p = a @ CHR ''/'' # b \<and> CHR ''/'' \<notin> set b"
  by (induction p arbitrary: a) (auto simp: last_sep_None split: option.splits if_splits)

section \<open>Properties\<close>

text \<open>
  A path with a slash is its directory name, a slash and its base name,
  and the base name has no slash; a path without one is its own base name, in directory \<open>.\<close>.
\<close>

theorem dirname_basename:
  "if CHR ''/'' \<in> set p
   then p = dirname p @ CHR ''/'' # basename p \<and> CHR ''/'' \<notin> set (basename p)
   else dirname p = ''.'' \<and> basename p = p"
proof (cases "last_sep p")
  case None
  then show ?thesis using last_sep_None [of p] by (simp add: dirname_def basename_def)
next
  case (Some ab)
  then obtain a b where ab: "last_sep p = Some (a, b)" by (cases ab) auto
  with last_sep_Some [OF ab] show ?thesis by (auto simp: dirname_def basename_def)
qed

end
