(* ===== verification/Koutput.thy ===== *)
theory Koutput
  imports Kstdlib
begin

text \<open>
  The formatter of \<open>kernel/src/io/output.c\<close>. Output is the text written to \<open>out\<close>; the variable
  arguments are a list of what the caller passed. Reading an argument of another type than the
  one passed, or more than were passed, is \<open>None\<close>.
\<close>

section \<open>Integers\<close>

abbreviation (input) PRINTFLAG_UNSIGNED :: u32 where "PRINTFLAG_UNSIGNED \<equiv> 1"
abbreviation (input) PRINTFLAG_PADZERO :: u32 where "PRINTFLAG_PADZERO \<equiv> 2"
abbreviation (input) PRINTFLAG_POSSIGN :: u32 where "PRINTFLAG_POSSIGN \<equiv> 4"
abbreviation (input) PRINTFLAG_POSSPACE :: u32 where "PRINTFLAG_POSSPACE \<equiv> 8"
abbreviation (input) PRINTFLAG_UPPERCASE :: u32 where "PRINTFLAG_UPPERCASE \<equiv> 16"
abbreviation (input) PRINTFLAG_LEFTALIGN :: u32 where "PRINTFLAG_LEFTALIGN \<equiv> 32"

text \<open>The digits, last one first, as the array \<open>ans\<close> holds them; the callers' bases are 8, 10 and 16.\<close>

function print_digits :: "string \<Rightarrow> nat \<Rightarrow> nat \<Rightarrow> string" where
  "print_digits nums base num =
     (if num = 0 \<or> base < 2 then [] else (nums ! (num mod base)) # print_digits nums base (num div base))"
  by pat_completeness auto

termination
  by (relation "measure (\<lambda>(nums, base, num). num)") auto

declare print_digits.simps [simp del]

text \<open>The array \<open>ans\<close> up to index \<open>i\<close>: the digits, or a single 0.\<close>

definition int_digits :: "u64 \<Rightarrow> nat \<Rightarrow> u32 \<Rightarrow> string" where
  "int_digits num base flags =
     (let nums = (if flags AND PRINTFLAG_UPPERCASE \<noteq> 0 then ''0123456789ABCDEF'' else ''0123456789abcdef'');
          digits = print_digits nums base (unat num)
      in if digits = [] then ''0'' else digits)"

definition int_sign :: "bool \<Rightarrow> u32 \<Rightarrow> string" where
  "int_sign neg flags =
     (if neg then ''-'' else if flags AND PRINTFLAG_POSSIGN \<noteq> 0 then ''+''
      else if flags AND PRINTFLAG_POSSPACE \<noteq> 0 then '' '' else [])"

definition print_int :: "u64 \<Rightarrow> nat \<Rightarrow> nat \<Rightarrow> u32 \<Rightarrow> string" where
  "print_int num base pad flags =
     (let neg = (flags AND PRINTFLAG_UNSIGNED = 0 \<and> num AND 0x8000000000000000 \<noteq> 0);
          num = (if neg then NOT num + 1 else num);
          ans = int_digits num base flags
      in int_sign neg flags @
         replicate (pad - length ans) (if flags AND PRINTFLAG_PADZERO \<noteq> 0 then CHR ''0'' else CHR '' '') @ rev ans)"

fun get_dec :: "nat \<Rightarrow> string \<Rightarrow> nat \<times> string" where
  "get_dec n (c # cs) = (if isnum c then get_dec (n * 10 + (code_of c - 48)) cs else (n, c # cs))"
| "get_dec n [] = (n, [])"

section \<open>Arguments\<close>

datatype varg = VInt u32 | VLong u64 | VStr "string option" | VDouble

text \<open>\<open>long\<close> has 32 bits and is converted to 64 bits with its sign.\<close>

definition get_arg :: "varg list \<Rightarrow> int \<Rightarrow> (u64 \<times> varg list) option" where
  "get_arg varg sz =
     (case varg of
        VInt a # rest \<Rightarrow>
          if sz = - 2 then Some (ucast (a AND 0xFF), rest)
          else if sz = - 1 then Some (ucast (a AND 0xFFFF), rest)
          else if sz = 0 then Some (ucast a, rest)
          else if sz = 1 then Some (scast a, rest)
          else None
      | VLong a # rest \<Rightarrow> if sz = 2 then Some (a, rest) else None
      | _ \<Rightarrow> None)"

definition sign_extend :: "u64 \<Rightarrow> int \<Rightarrow> u64" where
  "sign_extend val sz =
     (if sz = - 2 then scast (ucast val :: u8)
      else if sz = - 1 then scast (ucast val :: u16)
      else if sz = 0 then scast (ucast val :: u32)
      else if sz = 1 then scast (ucast val :: u32)
      else val)"

section \<open>The formatter\<close>

record fmt_state =
  ps_in_spec :: bool
  ps_size :: int
  ps_width :: nat
  ps_precision :: nat
  ps_flags :: u32
  ps_nchars :: nat
  ps_out :: string
  ps_varg :: "varg list"

definition zero_all :: "fmt_state \<Rightarrow> fmt_state" where
  "zero_all s = s\<lparr>ps_in_spec := False, ps_size := 0, ps_width := 0, ps_precision := 0, ps_flags := 0\<rparr>"

definition emit :: "string \<Rightarrow> fmt_state \<Rightarrow> fmt_state" where
  "emit t s = s\<lparr>ps_out := ps_out s @ t, ps_nchars := ps_nchars s + length t\<rparr>"

definition print_number :: "nat \<Rightarrow> u32 \<Rightarrow> bool \<Rightarrow> fmt_state \<Rightarrow> fmt_state option" where
  "print_number base set_flags sgn_arg s = do {
     (arg, varg) \<leftarrow> get_arg (ps_varg s) (ps_size s);
     let arg = (if sgn_arg then sign_extend arg (ps_size s) else arg);
     Some (zero_all (emit (print_int arg base (ps_width s) (ps_flags s OR set_flags)) (s\<lparr>ps_varg := varg\<rparr>)))
   }"

text \<open>\<open>nchars\<close> grows by the length of the whole string, \<open>out\<close> by what the precision lets through.\<close>

definition print_string :: "fmt_state \<Rightarrow> fmt_state option" where
  "print_string s =
     (case ps_varg s of
        VStr t # varg \<Rightarrow>
          let str = (case t of None \<Rightarrow> ''(null)'' | Some t \<Rightarrow> t);
              cut = (if ps_precision s = 0 then str else take (ps_precision s) str)
          in Some (zero_all (s\<lparr>ps_varg := varg, ps_nchars := ps_nchars s + length str, ps_out := ps_out s @ cut\<rparr>))
      | _ \<Rightarrow> None)"

definition skip_double :: "fmt_state \<Rightarrow> fmt_state option" where
  "skip_double s = (case ps_varg s of VDouble # varg \<Rightarrow> Some (zero_all (s\<lparr>ps_varg := varg\<rparr>)) | _ \<Rightarrow> None)"

definition flag :: "u32 \<Rightarrow> fmt_state \<Rightarrow> fmt_state" where
  "flag f s = s\<lparr>ps_flags := ps_flags s OR f\<rparr>"

text \<open>The cases of the \<open>switch\<close> that do not move \<open>format\<close>.\<close>

definition print_spec :: "char \<Rightarrow> fmt_state \<Rightarrow> fmt_state option" where
  "print_spec c s =
     (if c = CHR ''%'' then Some (emit ''%'' (s\<lparr>ps_in_spec := False\<rparr>))
      else if c = CHR ''l'' then Some (if ps_size s < 2 then s\<lparr>ps_size := ps_size s + 1\<rparr> else s)
      else if c = CHR ''L'' then Some (s\<lparr>ps_size := 1\<rparr>)
      else if c = CHR ''h'' then Some (if ps_size s > - 2 then s\<lparr>ps_size := ps_size s - 1\<rparr> else s)
      else if c \<in> {CHR ''z'', CHR ''j'', CHR ''t''} then Some (s\<lparr>ps_size := 0\<rparr>)
      else if c = CHR ''+'' then Some (flag PRINTFLAG_POSSIGN s)
      else if c = CHR '' '' then Some (flag PRINTFLAG_POSSPACE s)
      else if c = CHR ''-'' then Some (flag PRINTFLAG_LEFTALIGN s)
      else if c = CHR ''0'' then Some (flag PRINTFLAG_PADZERO s)
      else if c = CHR ''u'' then print_number 10 PRINTFLAG_UNSIGNED False s
      else if c = CHR ''d'' \<or> c = CHR ''i'' then print_number 10 0 True s
      else if c \<in> {CHR ''f'', CHR ''F'', CHR ''e'', CHR ''E'', CHR ''g'', CHR ''G''} then skip_double s
      else if c = CHR ''X'' then print_number 16 (PRINTFLAG_UNSIGNED OR PRINTFLAG_UPPERCASE) False s
      else if c = CHR ''x'' then print_number 16 PRINTFLAG_UNSIGNED False s
      else if c = CHR ''o'' then print_number 8 PRINTFLAG_UNSIGNED False s
      else if c = CHR ''s'' then print_string s
      else if c = CHR ''c'' then
        (case ps_varg s of VInt a # varg \<Rightarrow> Some (zero_all (emit [char_of (unat a mod 256)] (s\<lparr>ps_varg := varg\<rparr>)))
         | _ \<Rightarrow> None)
      else if c = CHR ''p'' then
        print_number 16 PRINTFLAG_UNSIGNED False (s\<lparr>ps_width := (if ps_width s = 0 then 8 else ps_width s)\<rparr>)
      else if c = CHR ''a'' \<or> c = CHR ''A'' then skip_double s
      else if c = CHR ''n'' then
        (case ps_varg s of VInt a # varg \<Rightarrow> Some (zero_all (s\<lparr>ps_varg := varg\<rparr>)) | _ \<Rightarrow> None)
      else Some s)"

lemma get_dec_shorter: "length (snd (get_dec n cs)) \<le> length cs"
  by (induction n cs rule: get_dec.induct) auto

function print_loop :: "string \<Rightarrow> fmt_state \<Rightarrow> fmt_state option" where
  "print_loop [] s = Some s"
| "print_loop (c # cs) s =
     (if \<not> ps_in_spec s then
        (if c = CHR ''%'' then print_loop cs (s\<lparr>ps_in_spec := True\<rparr>) else print_loop cs (emit [c] s))
      else if isnum c \<and> c \<noteq> CHR ''0'' then
        (let (n, rest) = get_dec 0 (c # cs) in
         print_loop rest (s\<lparr>ps_width := n mod 256\<rparr>))
      else if c = CHR ''.'' then
        (let (n, rest) = get_dec 0 cs in
         print_loop rest (s\<lparr>ps_precision := n mod 256\<rparr>))
      else do {
        s \<leftarrow> print_spec c s;
        print_loop cs s
      })"
  by pat_completeness auto

termination
proof (relation "measure (\<lambda>(cs, s). length cs)", goal_cases)
  case (4 c cs s x n rest)
  then have "rest = snd (get_dec (code_of c - 48) cs)" by (metis add_0 get_dec.simps(1) mult_0 snd_conv)
  with get_dec_shorter [of "code_of c - 48" cs] show ?case by simp
next
  case (5 c cs s x n rest)
  then have "rest = snd (get_dec 0 cs)" by (metis snd_conv)
  with get_dec_shorter [of 0 cs] show ?case by simp
qed auto

definition print :: "string \<Rightarrow> varg list \<Rightarrow> (int \<times> string) option" where
  "print format varg = do {
     s \<leftarrow> print_loop format \<lparr>ps_in_spec = False, ps_size = 0, ps_width = 0, ps_precision = 0, ps_flags = 0,
            ps_nchars = 0, ps_out = [], ps_varg = varg\<rparr>;
     Some (int (ps_nchars s), ps_out s)
   }"

definition sprintf :: "string \<Rightarrow> varg list \<Rightarrow> (int \<times> string) option" where
  "sprintf format varg = print format varg"

section \<open>Digits\<close>

lemma print_digits_0 [simp]: "print_digits nums base 0 = []"
  by (simp add: print_digits.simps)

definition digit_chars :: "string \<Rightarrow> bool" where
  "digit_chars nums \<longleftrightarrow> nums = ''0123456789ABCDEF'' \<or> nums = ''0123456789abcdef''"

lemma digit_conv:
  assumes "digit_chars nums" "d < base" "base \<in> {8, 10, 16}"
  shows "conv_checkchar (nums ! d) (int base)" "conv_convertchar (nums ! d) = int d"
    "nums ! d \<noteq> CHR ''x''" "nums ! d \<noteq> CHR ''X''" "\<not> isspace (nums ! d)"
proof -
  let ?ok = "\<lambda>nums base. list_all (\<lambda>d. conv_checkchar (nums ! d) (int base) \<and> conv_convertchar (nums ! d) = int d \<and>
    nums ! d \<noteq> CHR ''x'' \<and> nums ! d \<noteq> CHR ''X'' \<and> \<not> isspace (nums ! d)) [0..<base]"
  have "?ok ''0123456789ABCDEF'' 8" "?ok ''0123456789ABCDEF'' 10" "?ok ''0123456789ABCDEF'' 16"
    "?ok ''0123456789abcdef'' 8" "?ok ''0123456789abcdef'' 10" "?ok ''0123456789abcdef'' 16"
    by code_simp+
  with assms have "?ok nums base" by (auto simp: digit_chars_def)
  with assms(2) show "conv_checkchar (nums ! d) (int base)" "conv_convertchar (nums ! d) = int d"
    "nums ! d \<noteq> CHR ''x''" "nums ! d \<noteq> CHR ''X''" "\<not> isspace (nums ! d)"
    by (simp_all add: list_all_iff)
qed

text \<open>Every digit printed is a digit of the base.\<close>

lemma print_digits_set:
  "c \<in> set (print_digits nums base n) \<Longrightarrow> \<exists>d < base. c = nums ! d"
proof (induction nums base n rule: print_digits.induct)
  case (1 nums base n)
  have "n mod base < base" if "2 \<le> base" using that by simp
  with 1 show ?case by (subst (asm) (2) print_digits.simps) (force split: if_splits)
qed

lemma strtoul_print_digits:
  assumes "digit_chars nums" "base \<in> {8, 10, 16}"
  shows "strtoul_loop (int base) 0 (rev (print_digits nums base n) @ rest) = strtoul_loop (int base) (of_nat n) rest"
proof (induction n arbitrary: rest rule: less_induct)
  case (less n)
  show ?case
  proof (cases "n = 0")
    case True
    then show ?thesis by simp
  next
    case False
    have b: "2 \<le> base" "0 < base" using assms(2) by auto
    then have lt: "n div base < n" "n mod base < base" using False by simp_all
    have "strtoul_loop (int base) 0 (rev (print_digits nums base n) @ rest) =
        strtoul_loop (int base) (of_nat (n div base)) (nums ! (n mod base) # rest)"
      using less [OF lt(1), of "nums ! (n mod base) # rest"] False b by (simp add: print_digits.simps [of nums base n])
    moreover have "(of_nat (n div base) * of_nat base + of_nat (n mod base) :: u32) = of_nat n"
      by (metis div_mult_mod_eq of_nat_add of_nat_mult)
    ultimately show ?thesis using digit_conv [OF assms(1) lt(2) assms(2)] by simp
  qed
qed

lemma print_digits_length:
  "2 \<le> base \<Longrightarrow> n < base ^ k \<Longrightarrow> length (print_digits nums base n) \<le> k"
proof (induction k arbitrary: n)
  case 0
  then show ?case by simp
next
  case (Suc k)
  then have "n div base < base ^ k" by (simp add: less_mult_imp_div_less mult.commute)
  with Suc show ?case by (subst print_digits.simps) simp
qed

lemma isspace_blank [simp]: "isspace CHR '' ''" "\<not> isspace CHR ''0''"
  by (simp_all add: isspace_def)

lemma strtoul_zeros:
  assumes "base \<in> {8, 10, 16}"
  shows "strtoul_loop (int base) 0 (replicate k CHR ''0'' @ cs) = strtoul_loop (int base) 0 cs"
proof -
  have "conv_checkchar CHR ''0'' (int base)" "conv_convertchar CHR ''0'' = 0"
    using digit_conv [of "''0123456789abcdef''" 0 base] assms by (auto simp: digit_chars_def)
  then show ?thesis by (induction k) auto
qed

text \<open>A character that is no blank and no part of a base prefix.\<close>

definition numeral_char :: "char \<Rightarrow> bool" where
  "numeral_char c \<longleftrightarrow> c \<noteq> CHR ''x'' \<and> c \<noteq> CHR ''X'' \<and> \<not> isspace c"

lemma numeral_char_0 [simp]: "numeral_char CHR ''0''"
  by (simp add: numeral_char_def)

lemma strtoul_prefix_none:
  "base \<noteq> 0 \<Longrightarrow> \<forall>c \<in> set cs. numeral_char c \<Longrightarrow> strtoul_prefix base (c # cs) = (base, c # cs)"
  by (cases cs) (simp_all add: numeral_char_def)

lemma strtoul_no_prefix:
  assumes "base \<in> {8, 10, 16}" "t \<noteq> []" "\<forall>c \<in> set t. numeral_char c"
  shows "strtoul (replicate k CHR '' '' @ t) (int base) =
    (let (v, r) = strtoul_loop (int base) 0 t in (v, Some r))"
proof -
  from assms(2) obtain c cs where t: "t = c # cs" by (cases t) auto
  with assms(3) have c: "numeral_char c" "\<forall>c \<in> set cs. numeral_char c" by simp_all
  have "dropWhile isspace (replicate k CHR '' '' @ t) = dropWhile isspace t"
    by (rule dropWhile_append2) simp
  also have "\<dots> = t" using c(1) by (simp add: t numeral_char_def)
  finally have dw: "dropWhile isspace (replicate k CHR '' '' @ t) = t" .
  have b: "\<not> (int base < 0 \<or> int base > 35)" "int base \<noteq> 0" using assms(1) by auto
  from strtoul_prefix_none [OF b(2) c(2)] have "strtoul_prefix (int base) t = (int base, t)" by (simp add: t)
  with dw b show ?thesis by (simp add: strtoul_def)
qed

section \<open>Properties\<close>

lemma print_int_unsigned:
  assumes "flags AND PRINTFLAG_UNSIGNED \<noteq> 0"
  shows "print_int n base pad flags = int_sign False flags @
    replicate (pad - length (int_digits n base flags)) (if flags AND PRINTFLAG_PADZERO \<noteq> 0 then CHR ''0'' else CHR '' '') @
    rev (int_digits n base flags)"
  using assms by (simp add: print_int_def Let_def)

lemma int_digits_text:
  assumes "base \<in> {8, 10, 16}"
  shows "int_digits n base flags \<noteq> []" and "\<forall>c \<in> set (int_digits n base flags). numeral_char c"
    and "strtoul_loop (int base) 0 (rev (int_digits n base flags)) = (of_nat (unat n), [])"
proof -
  define nums where "nums = (if flags AND PRINTFLAG_UPPERCASE \<noteq> 0 then ''0123456789ABCDEF'' else ''0123456789abcdef'')"
  have d: "digit_chars nums" by (simp add: digit_chars_def nums_def)
  have eq: "int_digits n base flags =
      (if print_digits nums base (unat n) = [] then ''0'' else print_digits nums base (unat n))"
    by (simp add: int_digits_def nums_def Let_def)
  show "int_digits n base flags \<noteq> []" by (simp add: eq)
  have "numeral_char c" if "c \<in> set (print_digits nums base (unat n))" for c
    using print_digits_set [OF that] digit_conv(3-5) [OF d _ assms] unfolding numeral_char_def by metis
  then show "\<forall>c \<in> set (int_digits n base flags). numeral_char c" by (simp add: eq)
  have b: "\<not> base < 2" using assms by auto
  show "strtoul_loop (int base) 0 (rev (int_digits n base flags)) = (of_nat (unat n), [])"
  proof (cases "unat n = 0")
    case True
    then show ?thesis using strtoul_zeros [OF assms, of 1 "[]"] by (simp add: eq)
  next
    case False
    with b have "print_digits nums base (unat n) \<noteq> []" by (simp add: print_digits.simps [of nums base "unat n"])
    then show ?thesis using strtoul_print_digits [OF d assms, of "unat n" "[]"] by (simp add: eq)
  qed
qed

text \<open>
  C13 (number round trip). Printing an unsigned number in base 8, 10 or 16, with any padding width,
  padded with spaces or zeros and in either case, and parsing the text with \<open>strtoul\<close> in the same
  base gives the number back (its low 32 bits) and consumes the whole text.
\<close>

theorem print_int_strtoul:
  assumes "base \<in> {8, 10, 16}" and "flags AND PRINTFLAG_UNSIGNED \<noteq> 0" and "flags AND PRINTFLAG_POSSIGN = 0"
  shows "strtoul (print_int n base pad flags) (int base) = (ucast n, Some [])"
proof -
  let ?t = "rev (int_digits n base flags)" and ?sp = "of_bool (flags AND PRINTFLAG_POSSPACE \<noteq> 0) :: nat"
  let ?k = "pad - length (int_digits n base flags)"
  note t = int_digits_text [OF assms(1), of n flags]
  have v: "(of_nat (unat n) :: u32) = ucast n" by (simp add: unsigned_of_nat)
  have sp: "int_sign False flags = replicate ?sp CHR '' ''" using assms(3) by (simp add: int_sign_def)
  define z where "z = (if flags AND PRINTFLAG_PADZERO \<noteq> 0 then ?k else 0)"
  define s where "s = ?sp + (if flags AND PRINTFLAG_PADZERO \<noteq> 0 then 0 else ?k)"
  have p: "print_int n base pad flags = replicate s CHR '' '' @ (replicate z CHR ''0'' @ ?t)"
    unfolding print_int_unsigned [OF assms(2)] sp s_def z_def by (simp add: replicate_add)
  have ne: "replicate z CHR ''0'' @ ?t \<noteq> []" and nc: "\<forall>c \<in> set (replicate z CHR ''0'' @ ?t). numeral_char c"
    using t(1,2) by (auto simp: set_replicate_conv_if)
  have l: "strtoul_loop (int base) 0 (replicate z CHR ''0'' @ ?t) = (ucast n, [])"
    unfolding strtoul_zeros [OF assms(1)] t(3) v ..
  show ?thesis unfolding p strtoul_no_prefix [OF assms(1) ne nc] l Let_def by simp
qed

theorem print_int_strtoul_witness:
  "strtoul (print_int 0xBEEF 16 8 (PRINTFLAG_UNSIGNED OR PRINTFLAG_PADZERO)) 16 = (0xBEEF, Some [])"
  using print_int_strtoul [of 16 "PRINTFLAG_UNSIGNED OR PRINTFLAG_PADZERO" "0xBEEF" 8] by simp

text \<open>
  In base 8 and above a number has at most 22 digits, so the 25 bytes of
  \<open>ans\<close> are enough, and the text of a number is at most one longer than the padding width or 22.
\<close>

theorem print_int_bounds:
  assumes "8 \<le> base"
  shows "length (print_digits nums base (unat (n :: u64))) \<le> 22 \<and>
    length (print_int n base pad flags) \<le> max pad 22 + 1"
proof -
  have d: "length (print_digits nums base (unat m)) \<le> 22" for nums and m :: u64
  proof (rule print_digits_length)
    have "unat m < 8 ^ 22" by (rule less_le_trans [OF unat_u64_lt]) simp
    also have "(8 :: nat) ^ 22 \<le> base ^ 22" using assms by (rule power_mono) simp
    finally show "unat m < base ^ 22" .
  qed (use assms in simp)
  have digits: "length (int_digits m base flags) \<le> 22" for m
    using d [of "if flags AND PRINTFLAG_UPPERCASE \<noteq> 0 then ''0123456789ABCDEF'' else ''0123456789abcdef''" m]
    by (simp add: int_digits_def Let_def)
  have sign: "length (int_sign neg flags) \<le> 1" for neg by (simp add: int_sign_def)
  have pad: "(pad - k) + k \<le> max pad 22" if "k \<le> 22" for k using that by simp
  have "length (int_sign neg flags) + ((pad - length (int_digits m base flags)) + length (int_digits m base flags))
      \<le> max pad 22 + 1" for m neg
    using add_le_mono [OF sign [of neg] pad [OF digits [of m]]] by simp
  then show ?thesis using d by (simp add: print_int_def Let_def)
qed

theorem print_int_bounds_witness:
  "length (print_digits ''0123456789abcdef'' 8 (unat (0xFFFFFFFFFFFFFFFF :: u64))) \<le> 22"
  using print_int_bounds [of 8 "''0123456789abcdef''" "0xFFFFFFFFFFFFFFFF" 0 0] by simp

text \<open>The state of the formatter in which no precision was given, and its count is right.\<close>

definition counted :: "fmt_state \<Rightarrow> bool" where
  "counted s \<longleftrightarrow> ps_precision s = 0 \<and> ps_nchars s = length (ps_out s)"

definition counted_opt :: "fmt_state option \<Rightarrow> bool" where
  "counted_opt r \<longleftrightarrow> (\<forall>s. r = Some s \<longrightarrow> counted s)"

lemma counted_emit: "counted s \<Longrightarrow> counted (emit t s)"
  by (simp add: counted_def emit_def)

lemma counted_zero_all: "ps_nchars s = length (ps_out s) \<Longrightarrow> counted (zero_all s)"
  by (simp add: counted_def zero_all_def)

lemma counted_opt_if: "counted_opt x \<Longrightarrow> counted_opt y \<Longrightarrow> counted_opt (if b then x else y)"
  by simp

lemma counted_opt_steps:
  assumes "counted s"
  shows "counted_opt (Some s)" "counted_opt (Some (emit t (s\<lparr>ps_in_spec := b\<rparr>)))"
    "counted_opt (Some (if q then s\<lparr>ps_size := z\<rparr> else s))" "counted_opt (Some (s\<lparr>ps_size := z\<rparr>))"
    "counted_opt (Some (flag f s))" "counted_opt (print_number base f sg s)" "counted_opt (skip_double s)"
    "counted_opt (print_string s)" "counted_opt (print_number base f sg (s\<lparr>ps_width := w\<rparr>))"
    "counted_opt (case ps_varg s of VInt a # varg \<Rightarrow> Some (zero_all (emit [g a] (s\<lparr>ps_varg := varg\<rparr>))) | _ \<Rightarrow> None)"
    "counted_opt (case ps_varg s of VInt a # varg \<Rightarrow> Some (zero_all (s\<lparr>ps_varg := varg\<rparr>)) | _ \<Rightarrow> None)"
  using assms
  by (auto simp: counted_opt_def counted_def emit_def zero_all_def flag_def print_number_def skip_double_def
      print_string_def Let_def split: bind_splits list.splits varg.splits)

lemma counted_spec: "counted s \<Longrightarrow> counted_opt (print_spec c s)"
  unfolding print_spec_def by (intro counted_opt_if counted_opt_steps)

lemma get_dec_suffix: "set (snd (get_dec n cs)) \<subseteq> set cs"
  by (induction n cs rule: get_dec.induct) auto

lemma counted_loop:
  "counted s \<Longrightarrow> CHR ''.'' \<notin> set cs \<Longrightarrow> print_loop cs s = Some s' \<Longrightarrow> counted s'"
proof (induction cs s arbitrary: s' rule: print_loop.induct)
  case (1 s)
  then show ?case by simp
next
  case (2 c cs s)
  note c = "2.prems"(1) and dot = "2.prems"(2) and res = "2.prems"(3)
  consider (pct) "\<not> ps_in_spec s" "c = CHR ''%''" | (plain) "\<not> ps_in_spec s" "c \<noteq> CHR ''%''"
    | (width) "ps_in_spec s" "isnum c \<and> c \<noteq> CHR ''0''"
    | (spec) "ps_in_spec s" "\<not> (isnum c \<and> c \<noteq> CHR ''0'')" by blast
  then show ?case
  proof cases
    case pct
    have "counted (s\<lparr>ps_in_spec := True\<rparr>)" using c by (simp add: counted_def)
    with "2.IH"(1) pct dot res show ?thesis by simp
  next
    case plain
    with "2.IH"(2) counted_emit [OF c] dot res show ?thesis by simp
  next
    case width
    obtain n rest where g: "get_dec 0 (c # cs) = (n, rest)" by (cases "get_dec 0 (c # cs)")
    with get_dec_suffix [of 0 "c # cs"] dot have "CHR ''.'' \<notin> set rest" by (metis snd_conv subsetD)
    moreover have "counted (s\<lparr>ps_width := n mod 256\<rparr>)" using c by (simp add: counted_def)
    moreover have "print_loop rest (s\<lparr>ps_width := n mod 256\<rparr>) = Some s'"
      using res width g by (simp del: get_dec.simps)
    ultimately show ?thesis using "2.IH"(3) [OF _ width(2) g [symmetric] refl] width(1) by blast
  next
    case spec
    then have nd: "c \<noteq> CHR ''.''" using dot by auto
    with spec res obtain s1 where s1: "print_spec c s = Some s1" "print_loop cs s1 = Some s'"
      by (auto split: bind_splits if_splits)
    from counted_spec [OF c] s1(1) have "counted s1" by (simp add: counted_opt_def)
    with "2.IH"(5) spec nd dot s1 show ?thesis by auto
  qed
qed

text \<open>
  A format without a precision makes \<open>sprintf\<close> return the number of
  characters it wrote. With a precision on \<open>%s\<close> it returns the length of the whole argument instead.
\<close>

theorem sprintf_count:
  assumes "sprintf format varg = Some (n, out)" and "CHR ''.'' \<notin> set format"
  shows "n = int (length out) \<and> (\<forall>t. sprintf ''%.3s'' [VStr (Some t)] = Some (int (length t), take 3 t))"
proof -
  let ?s = "\<lparr>ps_in_spec = False, ps_size = 0, ps_width = 0, ps_precision = 0, ps_flags = 0,
            ps_nchars = 0, ps_out = [], ps_varg = varg\<rparr>"
  from assms(1) obtain s where s: "print_loop format ?s = Some s" "n = int (ps_nchars s)" "out = ps_out s"
    by (auto simp: sprintf_def print_def split: bind_splits)
  have "counted ?s" by (simp add: counted_def)
  from counted_loop [OF this assms(2) s(1)] s have "n = int (length out)" by (simp add: counted_def)
  moreover have "sprintf ''%.3s'' [VStr (Some t)] = Some (int (length t), take 3 t)" for t
    by (simp add: sprintf_def print_def isnum_def print_spec_def print_string_def zero_all_def)
  ultimately show ?thesis by simp
qed

theorem sprintf_count_witness:
  "sprintf ''%s=%5d'' [VStr (Some ''x''), VInt 42] = Some (7, ''x=   42'') \<and> (7 :: int) = int (length ''x=   42'')"
proof -
  have "sprintf ''%s=%5d'' [VStr (Some ''x''), VInt 42] = Some (7, ''x=   42'')" by code_simp
  with sprintf_count [OF this] show ?thesis by simp
qed

end
