(* ===== verification/Lzop.thy ===== *)
theory Lzop
  imports Lambda_Prelude
begin

text \<open>
  The LZOP decompressor of \<open>kernel/src/crypto/comp/lzop.c\<close> and its dispatcher \<open>comp.c\<close>.

  A block is decoded from the memory \<open>inp\<close> that starts at the block's address; \<open>in_len\<close> is the
  length of the block, and memory goes on behind it. Positions \<open>inb\<close> are offsets from the block's
  start. The output is the list of bytes written so far. The distance \<open>in_end - inb\<close> is converted
  to \<open>size_t\<close>, so it wraps when \<open>inb\<close> is past the end. \<open>temp\<close>, \<open>next\<close> and \<open>lookbehind\<close> stay below
  \<open>2 ^ 32\<close> and are natural numbers. An error return (always \<open>-EUNSPEC\<close>) ends a block.
\<close>

section \<open>One block\<close>

definition in_left :: "nat \<Rightarrow> nat \<Rightarrow> nat" where
  "in_left in_len inb = nat ((int in_len - int inb) mod 2 ^ 32)"

text \<open>\<open>((size_t)~0) / 255 - 2\<close>\<close>

abbreviation (input) MAX_255_COUNT :: nat where "MAX_255_COUNT \<equiv> 16843007"

text \<open>
  \<open>while(!*inb)\<close> of \<open>SKIP_AND_COUNT_ZEROES\<close>: \<open>None\<close> inside is the error return, and no result at
  all a loop that does not end.
\<close>

partial_function (option) skip_zeroes :: "(nat \<Rightarrow> u8) \<Rightarrow> nat \<Rightarrow> nat \<Rightarrow> nat option option" where
  "skip_zeroes inp in_len inb =
     (if inp inb \<noteq> 0 then Some (Some inb)
      else if in_left in_len inb < 1 then Some None
      else skip_zeroes inp in_len (Suc inb))"

declare skip_zeroes.simps [code]

text \<open>The value of the macro followed by \<open>+ add + *inb++\<close>, and the position afterwards.\<close>

definition run_length :: "(nat \<Rightarrow> u8) \<Rightarrow> nat \<Rightarrow> nat \<Rightarrow> nat \<Rightarrow> (nat \<times> nat) option option" where
  "run_length inp in_len add inb = do {
     r \<leftarrow> skip_zeroes inp in_len inb;
     Some (case r of None \<Rightarrow> None
           | Some inb' \<Rightarrow>
               if inb' - inb > MAX_255_COUNT then None
               else Some ((inb' - inb) * 255 + add + unat (inp inb'), Suc inb'))
   }"

definition le16_at :: "(nat \<Rightarrow> u8) \<Rightarrow> nat \<Rightarrow> nat" where
  "le16_at inp i = unat (inp i) + 256 * unat (inp (Suc i))"

datatype lzo_step =
    Lz_error
  | Lz_verbatim (lz_temp: nat) (lz_inb: nat)
  | Lz_match (lz_lookbehind: nat) (lz_len: nat) (lz_next: nat) (lz_pos: nat)
  | Lz_done nat nat

text \<open>The body of \<open>while(1)\<close> up to the copying: one instruction read in \<open>state\<close> at \<open>inb\<close>.\<close>

definition lzo_decode :: "(nat \<Rightarrow> u8) \<Rightarrow> nat \<Rightarrow> nat \<Rightarrow> nat \<Rightarrow> lzo_step option" where
  "lzo_decode inp in_len state inb =
     (let temp = unat (inp inb); inb = Suc inb in
      if temp < 16 then
        if state = 0 then
          (if temp = 0 then do {
             r \<leftarrow> run_length inp in_len 15 inb;
             Some (case r of None \<Rightarrow> Lz_error | Some (temp, inb) \<Rightarrow> Lz_verbatim (temp + 3) inb)
           }
           else Some (Lz_verbatim (temp + 3) inb))
        else if state = 4 then
          Some (Lz_match (1 + 0x0800 + temp div 4 + unat (inp inb) * 4) 3 (temp mod 4) (Suc inb))
        else
          Some (Lz_match (1 + temp div 4 + unat (inp inb) * 4) 2 (temp mod 4) (Suc inb))
      else if temp < 32 then do {
        let lookbehind = (temp div 8 mod 2) * 0x4000;
        r \<leftarrow> (if temp mod 8 + 2 = 2 then run_length inp in_len (2 + 7) inb else Some (Some (temp mod 8 + 2, inb)));
        Some (case r of None \<Rightarrow> Lz_error
              | Some (temp, inb) \<Rightarrow>
                  if in_left in_len inb < 2 then Lz_error
                  else
                    let next = le16_at inp inb; inb = inb + 2; lookbehind = lookbehind + next div 4 in
                    if lookbehind = 0 then Lz_done temp inb
                    else Lz_match (lookbehind + 0x4000) temp (next mod 4) inb)
      }
      else if temp < 64 then do {
        r \<leftarrow> (if temp mod 32 + 2 = 2 then run_length inp in_len (2 + 31) inb else Some (Some (temp mod 32 + 2, inb)));
        Some (case r of None \<Rightarrow> Lz_error
              | Some (temp, inb) \<Rightarrow>
                  if in_left in_len inb < 2 then Lz_error
                  else let next = le16_at inp inb; inb = inb + 2 in
                    Lz_match (1 + next div 4) temp (next mod 4) inb)
      }
      else Some (Lz_match (1 + temp div 4 mod 8 + unat (inp inb) * 8) (temp div 32 + 1) (temp mod 4) (Suc inb)))"

text \<open>The copies: \<open>n\<close> bytes of input, and \<open>n\<close> bytes from \<open>lb\<close> back in the output, one by one.\<close>

definition copy_input :: "(nat \<Rightarrow> u8) \<Rightarrow> nat \<Rightarrow> nat \<Rightarrow> u8 list \<Rightarrow> u8 list" where
  "copy_input inp inb n out = out @ map inp [inb..<inb + n]"

fun copy_back :: "nat \<Rightarrow> nat \<Rightarrow> u8 list \<Rightarrow> u8 list" where
  "copy_back lb 0 out = out"
| "copy_back lb (Suc n) out = copy_back lb n (out @ [out ! (length out - lb)])"

text \<open>From \<open>skip_lookbehind\<close> on: \<open>None\<close> is the error return.\<close>

definition lzo_literals :: "(nat \<Rightarrow> u8) \<Rightarrow> nat \<Rightarrow> nat \<Rightarrow> nat \<Rightarrow> nat \<Rightarrow> u8 list \<Rightarrow> (nat \<times> u8 list) option" where
  "lzo_literals inp in_len out_len next inb out =
     (if in_left in_len inb < next + 3 then None
      else if out_len - length out < next then None
      else Some (inb + next, copy_input inp inb next out))"

definition lzo_verbatim :: "(nat \<Rightarrow> u8) \<Rightarrow> nat \<Rightarrow> nat \<Rightarrow> nat \<Rightarrow> nat \<Rightarrow> u8 list \<Rightarrow> (nat \<times> u8 list) option" where
  "lzo_verbatim inp in_len out_len temp inb out =
     (if in_left in_len inb < temp + 3 then None
      else if out_len - length out < temp then None
      else Some (inb + temp, copy_input inp inb temp out))"

partial_function (option) lzo_loop ::
    "(nat \<Rightarrow> u8) \<Rightarrow> nat \<Rightarrow> nat \<Rightarrow> nat \<Rightarrow> nat \<Rightarrow> u8 list \<Rightarrow> (int \<times> u8 list) option" where
  "lzo_loop inp in_len out_len state inb out = do {
     s \<leftarrow> lzo_decode inp in_len state inb;
     case s of
       Lz_error \<Rightarrow> Some (- EUNSPEC, out)
     | Lz_verbatim temp inb \<Rightarrow>
         (case lzo_verbatim inp in_len out_len temp inb out of
            None \<Rightarrow> Some (- EUNSPEC, out)
          | Some (inb, out) \<Rightarrow> lzo_loop inp in_len out_len 4 inb out)
     | Lz_match lookbehind temp next inb \<Rightarrow>
         if length out < lookbehind then Some (- EUNSPEC, out)
         else if out_len - length out < temp then Some (- EUNSPEC, out)
         else (case lzo_literals inp in_len out_len next inb (copy_back lookbehind temp out) of
                 None \<Rightarrow> Some (- EUNSPEC, copy_back lookbehind temp out)
               | Some (inb, out) \<Rightarrow> lzo_loop inp in_len out_len next inb out)
     | Lz_done temp inb \<Rightarrow> if temp \<noteq> 3 \<or> inb < in_len then Some (- EUNSPEC, out) else Some (0, out)
   }"

declare lzo_loop.simps [code]

text \<open>The value returned and the bytes written to the output, of which there is room for \<open>out_len\<close>.\<close>

definition lzo1x_decompress_block :: "(nat \<Rightarrow> u8) \<Rightarrow> nat \<Rightarrow> nat \<Rightarrow> (int \<times> u8 list) option" where
  "lzo1x_decompress_block inp in_len out_len =
     (if in_len < 3 then Some (- EUNSPEC, [])
      else if inp 0 = 17 then Some (- EUNSPEC, [])
      else if unat (inp 0) > 17 then
        (let temp = unat (inp 0) - 17 in
         if temp < 4 then
           (case lzo_literals inp in_len out_len temp 1 [] of
              None \<Rightarrow> Some (- EUNSPEC, [])
            | Some (inb, out) \<Rightarrow> lzo_loop inp in_len out_len temp inb out)
         else
           (case lzo_verbatim inp in_len out_len temp 1 [] of
              None \<Rightarrow> Some (- EUNSPEC, [])
            | Some (inb, out) \<Rightarrow> lzo_loop inp in_len out_len 4 inb out))
      else lzo_loop inp in_len out_len 0 0 [])"

section \<open>The container\<close>

text \<open>Addresses are 32-bit and wrap; \<open>m\<close> is memory.\<close>

definition BE16 :: "(u32 \<Rightarrow> u8) \<Rightarrow> u32 \<Rightarrow> u16" where
  "BE16 m p = push_bit 8 (ucast (m p)) OR ucast (m (p + 1))"

definition BE32 :: "(u32 \<Rightarrow> u8) \<Rightarrow> u32 \<Rightarrow> u32" where
  "BE32 m p = push_bit 24 (ucast (m p)) OR push_bit 16 (ucast (m (p + 1))) OR push_bit 8 (ucast (m (p + 2))) OR ucast (m (p + 3))"

definition lzop_magic :: "u8 list" where
  "lzop_magic = [0x89, 0x4C, 0x5A, 0x4F, 0x00, 0x0d, 0x0a, 0x1a, 0x0a]"

text \<open>The flags and the address of the first block.\<close>

definition lzop_header :: "(u32 \<Rightarrow> u8) \<Rightarrow> u32 \<Rightarrow> u32 \<times> u32" where
  "lzop_header m input =
     (let inb = input + 9;
          version = BE16 m inb;
          inb = inb + 7;
          inb = (if 0x0940 \<le> version then inb + 1 else inb);
          flags = BE32 m inb;
          inb = inb + 4;
          inb = (if flags AND 0x800 \<noteq> 0 then inb + 4 else inb);
          inb = inb + 12;
          inb = inb + 1 + ucast (m inb);
          inb = inb + 4;
          inb = (if flags AND 0x40 \<noteq> 0 then inb + (BE32 m inb + 8) else inb)
      in (flags, inb))"

partial_function (option) lzop_size :: "(u32 \<Rightarrow> u8) \<Rightarrow> u32 \<Rightarrow> u32 \<Rightarrow> u32 \<Rightarrow> u32 option" where
  "lzop_size m in_end ptr n =
     (if ptr < in_end then
        let sz = BE32 m ptr in
        if sz = 0 then Some n
        else lzop_size m in_end (ptr + 4 + (BE32 m (ptr + 4) + 8)) (n + sz)
      else Some n)"

declare lzop_size.simps [code]

text \<open>Writing bytes to the output buffer, from position \<open>pos\<close> on.\<close>

definition put_bytes :: "(nat \<Rightarrow> u8) \<Rightarrow> nat \<Rightarrow> u8 list \<Rightarrow> (nat \<Rightarrow> u8)" where
  "put_bytes buf pos bytes = (\<lambda>i. if pos \<le> i \<and> i < pos + length bytes then bytes ! (i - pos) else buf i)"

partial_function (option) lzop_blocks ::
    "(u32 \<Rightarrow> u8) \<Rightarrow> u32 \<Rightarrow> u32 \<Rightarrow> u32 \<Rightarrow> nat \<Rightarrow> (nat \<Rightarrow> u8) \<Rightarrow> (int \<times> (nat \<Rightarrow> u8)) option" where
  "lzop_blocks m in_end flags inb pos buf =
     (if inb < in_end then
        let output_blk_sz = BE32 m inb; inb = inb + 4 in
        if output_blk_sz = 0 then Some (0, buf)
        else
          let input_blk_sz = BE32 m inb; inb = inb + 4;
              inb = (if flags AND 0x101 \<noteq> 0 then inb + 4 else inb) in
          if output_blk_sz = input_blk_sz then
            lzop_blocks m in_end flags (inb + input_blk_sz) (pos + unat output_blk_sz)
              (put_bytes buf pos (map (\<lambda>i. m (inb + of_nat i)) [0..<unat input_blk_sz]))
          else
            let inb = (if flags AND 0x202 \<noteq> 0 then inb + 4 else inb) in
            do {
              (ret, out) \<leftarrow> lzo1x_decompress_block (\<lambda>i. m (inb + of_nat i)) (unat input_blk_sz) (unat output_blk_sz);
              if ret \<noteq> 0 then Some (ret, put_bytes buf pos out)
              else lzop_blocks m in_end flags (inb + input_blk_sz) (pos + unat output_blk_sz) (put_bytes buf pos out)
            }
      else Some (0, buf))"

declare lzop_blocks.simps [code]

text \<open>
  \<open>new n\<close>: what \<open>kmalloc(n)\<close> returned, as the memory from there on. The result: the value returned,
  the output buffer (\<open>None\<close> for \<open>NULL\<close>) and its size.
\<close>

definition lzop_decompress ::
    "(u32 \<Rightarrow> (nat \<Rightarrow> u8) option) \<Rightarrow> (u32 \<Rightarrow> u8) \<Rightarrow> u32 \<Rightarrow> u32 \<Rightarrow> (int \<times> (nat \<Rightarrow> u8) option \<times> u32) option" where
  "lzop_decompress new m input input_len =
     (if input_len < 9 then Some (- EUNSPEC, None, 0)
      else if map (\<lambda>i. m (input + of_nat i)) [0..<9] \<noteq> lzop_magic then Some (- EUNSPEC, None, 0)
      else
        let (flags, inb) = lzop_header m input; in_end = input + input_len in
        do {
          output_len \<leftarrow> lzop_size m in_end inb 0;
          case new output_len of None \<Rightarrow> Some (- ENOMEM, None, output_len)
          | Some buf \<Rightarrow> do {
              (ret, buf) \<leftarrow> lzop_blocks m in_end flags inb 0 buf;
              if ret \<noteq> 0 then Some (ret, None, 0) else Some (0, Some buf, output_len)
            }
        })"

text \<open>\<open>CRYPTO_COMP_FMT_LZOP\<close> is 1, the only format in the table.\<close>

definition crypto_comp_decompress ::
    "(u32 \<Rightarrow> (nat \<Rightarrow> u8) option) \<Rightarrow> (u32 \<Rightarrow> u8) \<Rightarrow> u8 \<Rightarrow> u32 \<Rightarrow> u32 \<Rightarrow> (int \<times> (nat \<Rightarrow> u8) option \<times> u32) option" where
  "crypto_comp_decompress new m format input input_len =
     (if format = 1 then lzop_decompress new m input input_len else Some (- EINVAL, None, 0))"

section \<open>Decoding always ends within the output\<close>

text \<open>
  \<open>SKIP_AND_COUNT_ZEROES\<close> ends at a non-zero byte, or where the distance to the end of the input is
  0 modulo \<open>2 ^ 32\<close>.
\<close>

lemma in_left_hits_zero: "\<exists>k. in_left in_len (inb + k) = 0"
proof -
  have "in_left in_len (inb + nat ((int in_len - int inb) mod 2 ^ 32)) = 0"
    by (simp add: in_left_def mod_diff_right_eq diff_diff_eq [symmetric])
  then show ?thesis by blast
qed

lemma skip_zeroes_returns: "\<exists>r. skip_zeroes inp in_len inb = Some r"
proof -
  obtain k where "in_left in_len (inb + k) = 0"
    using in_left_hits_zero by blast
  then show ?thesis
  proof (induction k arbitrary: inb)
    case 0
    then show ?case by (subst skip_zeroes.simps) simp
  next
    case (Suc k)
    then have "\<exists>r. skip_zeroes inp in_len (Suc inb) = Some r" by simp
    then show ?case by (subst skip_zeroes.simps) auto
  qed
qed

lemma run_length_returns:
  "\<exists>r. run_length inp in_len add inb = Some r \<and> (\<forall>n j. r = Some (n, j) \<longrightarrow> add \<le> n)"
proof -
  obtain r where "skip_zeroes inp in_len inb = Some r"
    using skip_zeroes_returns by blast
  then show ?thesis by (auto simp: run_length_def split: option.splits)
qed

text \<open>What one decoded instruction appends: at least two bytes, unless it ends the block.\<close>

fun step_room :: "lzo_step \<Rightarrow> bool" where
  "step_room (Lz_verbatim n _) \<longleftrightarrow> 2 \<le> n"
| "step_room (Lz_match _ n _ _) \<longleftrightarrow> 2 \<le> n"
| "step_room _ \<longleftrightarrow> True"

lemma lzo_decode_returns: "\<exists>s. lzo_decode inp in_len state inb = Some s \<and> step_room s"
proof -
  define t where "t = unat (inp inb)"
  obtain r1 where r1: "run_length inp in_len 15 (Suc inb) = Some r1" "\<forall>n j. r1 = Some (n, j) \<longrightarrow> 15 \<le> n"
    using run_length_returns by blast
  obtain r2 where r2: "run_length inp in_len 9 (Suc inb) = Some r2" "\<forall>n j. r2 = Some (n, j) \<longrightarrow> 9 \<le> n"
    using run_length_returns by blast
  obtain r3 where r3: "run_length inp in_len 33 (Suc inb) = Some r3" "\<forall>n j. r3 = Some (n, j) \<longrightarrow> 33 \<le> n"
    using run_length_returns by blast
  have u: "unat (inp inb) = t" by (simp add: t_def)
  consider "t < 16" | "16 \<le> t" "t < 32" | "32 \<le> t" "t < 64" | "64 \<le> t" by linarith
  then show ?thesis
  proof cases
    case 1
    then show ?thesis using r1 unfolding lzo_decode_def u Let_def by (cases r1) (auto split: prod.splits)
  next
    case 2
    then show ?thesis using r2 unfolding lzo_decode_def u Let_def by (cases r2) (auto split: prod.splits)
  next
    case 3
    then show ?thesis using r3 unfolding lzo_decode_def u Let_def by (cases r3) (auto split: prod.splits)
  next
    case 4
    then have "2 \<le> t div 32 + 1" by linarith
    with 4 show ?thesis unfolding lzo_decode_def u Let_def by simp
  qed
qed

lemma length_copy_back [simp]: "length (copy_back lb n out) = length out + n"
  by (induction lb n out rule: copy_back.induct) auto

lemma length_copy_input [simp]: "length (copy_input inp inb n out) = length out + n"
  by (simp add: copy_input_def)

lemma lzo_literals_room:
  "lzo_literals inp in_len out_len n inb out = Some (inb', out') \<Longrightarrow> length out \<le> out_len \<Longrightarrow>
   length out' = length out + n \<and> length out' \<le> out_len"
  by (auto simp: lzo_literals_def split: if_splits)

lemma lzo_verbatim_room:
  "lzo_verbatim inp in_len out_len n inb out = Some (inb', out') \<Longrightarrow> length out \<le> out_len \<Longrightarrow>
   length out' = length out + n \<and> length out' \<le> out_len"
  by (auto simp: lzo_verbatim_def split: if_splits)

definition block_result :: "nat \<Rightarrow> (int \<times> u8 list) option \<Rightarrow> bool" where
  "block_result out_len r = (case r of None \<Rightarrow> False
     | Some (ret, out) \<Rightarrow> (ret = 0 \<or> ret = - EUNSPEC) \<and> length out \<le> out_len)"

lemma block_result_Some [simp]:
  "block_result out_len (Some (ret, out)) \<longleftrightarrow> (ret = 0 \<or> ret = - EUNSPEC) \<and> length out \<le> out_len"
  by (simp add: block_result_def)

lemma lzo_loop_returns:
  "length out \<le> out_len \<Longrightarrow> block_result out_len (lzo_loop inp in_len out_len state inb out)"
proof (induction "out_len - length out" arbitrary: state inb out rule: less_induct)
  case less
  obtain s where s: "lzo_decode inp in_len state inb = Some s" "step_room s"
    using lzo_decode_returns by blast
  show ?case
  proof (cases s)
    case (Lz_verbatim n j)
    show ?thesis
    proof (cases "lzo_verbatim inp in_len out_len n j out")
      case (Some q)
      obtain inb' out' where q: "q = (inb', out')" by fastforce
      have l: "length out' = length out + n" "length out' \<le> out_len"
        using lzo_verbatim_room Some q less.prems by blast+
      then have "block_result out_len (lzo_loop inp in_len out_len 4 inb' out')"
        using less.hyps s(2) Lz_verbatim by auto
      then show ?thesis using s(1) Lz_verbatim Some q by (subst lzo_loop.simps) simp
    qed (use s Lz_verbatim less.prems in \<open>subst lzo_loop.simps, simp\<close>)
  next
    case (Lz_match lb n nx j)
    define mid where "mid = copy_back lb n out"
    show ?thesis
    proof (cases "length out < lb \<or> out_len - length out < n")
      case False
      have mid: "length mid = length out + n" "length mid \<le> out_len"
        using False less.prems by (auto simp: mid_def)
      show ?thesis
      proof (cases "lzo_literals inp in_len out_len nx j mid")
        case (Some q)
        obtain inb' out' where q: "q = (inb', out')" by fastforce
        have l: "length out' = length mid + nx" "length out' \<le> out_len"
          using lzo_literals_room Some q mid(2) by blast+
        then have "block_result out_len (lzo_loop inp in_len out_len nx inb' out')"
          using less.hyps s(2) Lz_match mid by auto
        then show ?thesis using s(1) Lz_match False Some q
          by (subst lzo_loop.simps) (simp add: mid_def [symmetric])
      qed (use s Lz_match False mid in \<open>subst lzo_loop.simps, simp add: mid_def [symmetric]\<close>)
    qed (use s Lz_match less.prems in \<open>subst lzo_loop.simps, auto\<close>)
  qed (use s less.prems in \<open>subst lzo_loop.simps, auto\<close>)+
qed

text \<open>
  C23 (lzo1x_decompress_block_bounds). Decompressing a block returns on every input, whatever bytes it
  holds and whatever follows it in memory; it returns 0 or \<open>-EUNSPEC\<close>, and never writes more bytes
  than the output has room for.
\<close>

theorem lzo1x_decompress_block_bounds:
  "\<exists>ret out. lzo1x_decompress_block inp in_len out_len = Some (ret, out) \<and>
     (ret = 0 \<or> ret = - EUNSPEC) \<and> length out \<le> out_len"
proof -
  have "block_result out_len (lzo1x_decompress_block inp in_len out_len)"
    unfolding lzo1x_decompress_block_def
    by (auto simp: Let_def lzo_loop_returns split: option.splits dest: lzo_literals_room lzo_verbatim_room
        intro!: lzo_loop_returns)
  then show ?thesis by (auto simp: block_result_def split: option.splits)
qed

section \<open>Bytes of the input\<close>

primrec holds_bytes :: "(nat \<Rightarrow> u8) \<Rightarrow> nat \<Rightarrow> u8 list \<Rightarrow> bool" where
  "holds_bytes inp p [] \<longleftrightarrow> True"
| "holds_bytes inp p (b # bs) \<longleftrightarrow> inp p = b \<and> holds_bytes inp (Suc p) bs"

lemma holds_bytes_append [simp]:
  "holds_bytes inp p (xs @ ys) \<longleftrightarrow> holds_bytes inp p xs \<and> holds_bytes inp (p + length xs) ys"
  by (induction xs arbitrary: p) auto

lemma holds_bytes_map: "holds_bytes inp p bs \<Longrightarrow> map inp [p..<p + length bs] = bs"
proof (induction bs arbitrary: p)
  case (Cons b bs)
  then have "map inp [Suc p..<Suc p + length bs] = bs" by (metis holds_bytes.simps(2))
  moreover have "[p..<p + length (b # bs)] = p # [Suc p..<Suc p + length bs]"
    by (simp add: upt_conv_Cons del: upt_Suc)
  ultimately show ?case using Cons.prems by (simp del: upt_Suc)
qed simp

lemma in_left_inside: "inb \<le> in_len \<Longrightarrow> in_len < 2 ^ 32 \<Longrightarrow> in_left in_len inb = in_len - inb"
  by (simp add: in_left_def nat_diff_distrib' flip: of_nat_diff)

lemma skip_zeroes_run:
  "holds_bytes inp p (replicate z 0 @ [b]) \<Longrightarrow> b \<noteq> 0 \<Longrightarrow> p + z \<le> in_len \<Longrightarrow> in_len < 2 ^ 32 \<Longrightarrow>
   skip_zeroes inp in_len p = Some (Some (p + z))"
proof (induction z arbitrary: p)
  case 0
  then show ?case by (subst skip_zeroes.simps) simp
next
  case (Suc z)
  then have "skip_zeroes inp in_len (Suc p) = Some (Some (Suc p + z))"
    by simp
  with Suc.prems show ?case by (subst skip_zeroes.simps) (simp add: in_left_inside)
qed

section \<open>Reading past the end of the input\<close>

text \<open>
  The check on the input left does not stop a run of zero bytes
  that reaches the end of the block: the byte behind the block ends the run, the distance to the end
  is then negative and wraps to almost \<open>2 ^ 32\<close>, and the decoder goes on in whatever memory follows.
  Three zero bytes with the byte 5 behind them copy 533 bytes from behind the block into the output
  and return 0, when an end marker follows those.
\<close>

theorem lzo1x_decompress_block_overread:
  assumes "inp 0 = 0" "inp 1 = 0" "inp 2 = 0" "inp 3 = 5" "holds_bytes inp 537 [17, 0, 0]" "533 \<le> out_len"
  shows "lzo1x_decompress_block inp 3 out_len = Some (0, map inp [4..<537])"
proof -
  have "holds_bytes inp 1 (replicate 2 0 @ [5])"
    using assms by (simp add: numeral_2_eq_2 numeral_3_eq_3)
  then have "skip_zeroes inp 3 1 = Some (Some 3)"
    by (subst skip_zeroes_run) auto
  then have "run_length inp 3 15 1 = Some (Some (530, 4))"
    using assms by (simp add: run_length_def)
  then have d: "lzo_decode inp 3 0 0 = Some (Lz_verbatim 533 4)"
    using assms by (simp add: lzo_decode_def)
  have v: "lzo_verbatim inp 3 out_len 533 4 [] = Some (537, map inp [4..<537])"
    using assms by (simp add: lzo_verbatim_def in_left_def copy_input_def del: upt_rec_numeral)
  have e: "lzo_decode inp 3 4 537 = Some (Lz_done 3 540)"
    using assms by (simp add: lzo_decode_def in_left_def le16_at_def)
  have "lzo_loop inp 3 out_len 4 537 (map inp [4..<537]) = Some (0, map inp [4..<537])"
    using e by (subst lzo_loop.simps) simp
  then have "lzo_loop inp 3 out_len 0 0 [] = Some (0, map inp [4..<537])"
    using d v by (subst lzo_loop.simps) (simp del: upt_rec_numeral)
  then show ?thesis using assms by (simp add: lzo1x_decompress_block_def del: upt_rec_numeral)
qed

theorem lzo1x_decompress_block_overread_witness:
  "lzo1x_decompress_block (\<lambda>i. if i = 3 then 5 else if i = 537 then 17 else 0) 3 4096 =
     Some (0, map (\<lambda>i. if i = 3 then 5 else if i = 537 then 17 else 0) [4..<537])"
  by (rule lzo1x_decompress_block_overread) simp_all

end
