(* ===== verification/Lzop_Tokens.thy ===== *)
theory Lzop_Tokens
  imports Lzop
begin

text \<open>
  The instructions of an LZO1X block as data, their bytes and their meaning, and that the decoder of
  \<open>lzop.c\<close> computes the meaning of every block of them: a specification of the format that is
  independent of the decoder's control flow.
\<close>

section \<open>The instructions\<close>

text \<open>
  A literal run, and the five forms of a match, which has up to three literals behind it. A run is
  possible after a match without literals and at the start of a block; where there are literals
  before it, the same first byte is a match of two bytes (after up to three literals) or of three
  (after a run, or after four or more literals at the start of the block).
\<close>

datatype lz_token =
    Literal_run "u8 list"
  | Match2 nat "u8 list"
  | Match3 nat "u8 list"
  | Short_match nat nat "u8 list"
  | Long_match nat nat "u8 list"
  | Far_match nat nat "u8 list"

text \<open>A length in the low bits of the operation \<open>op\<close>; above \<open>m\<close> as 255 for each zero byte and a last byte.\<close>

definition run_bytes :: "nat \<Rightarrow> nat \<Rightarrow> nat \<Rightarrow> u8 list" where
  "run_bytes op m l = (if l \<le> m then [of_nat (op + l)]
     else of_nat op # replicate ((l - m - 1) div 255) 0 @ [of_nat ((l - m - 1) mod 255 + 1)])"

text \<open>Two bytes: a number of 14 bits and how many literals follow.\<close>

definition dist_bytes :: "nat \<Rightarrow> u8 list \<Rightarrow> u8 list" where
  "dist_bytes d lits = [of_nat (d mod 64 * 4 + length lits), of_nat (d div 64)] @ lits"

definition near_bytes :: "nat \<Rightarrow> u8 list \<Rightarrow> u8 list" where
  "near_bytes d lits = [of_nat (d mod 4 * 4 + length lits), of_nat (d div 4)] @ lits"

fun token_bytes :: "lz_token \<Rightarrow> u8 list" where
  "token_bytes (Literal_run lits) = run_bytes 0 15 (length lits - 3) @ lits"
| "token_bytes (Match2 dist lits) = near_bytes (dist - 1) lits"
| "token_bytes (Match3 dist lits) = near_bytes (dist - 2049) lits"
| "token_bytes (Short_match len dist lits) =
     [of_nat ((len - 1) * 32 + (dist - 1) mod 8 * 4 + length lits), of_nat ((dist - 1) div 8)] @ lits"
| "token_bytes (Long_match len dist lits) = run_bytes 32 31 (len - 2) @ dist_bytes (dist - 1) lits"
| "token_bytes (Far_match len dist lits) =
     run_bytes (16 + 8 * ((dist - 16384) div 16384)) 7 (len - 2) @ dist_bytes ((dist - 16384) mod 16384) lits"

text \<open>A block: up to 238 literals with their count, if there are any, the instructions and the end marker.\<close>

definition block_bytes :: "u8 list \<Rightarrow> lz_token list \<Rightarrow> u8 list" where
  "block_bytes first ts =
     (if first = [] then [] else of_nat (17 + length first) # first) @ concat (map token_bytes ts) @ [17, 0, 0]"

text \<open>What an instruction means: \<open>len\<close> bytes from \<open>dist\<close> back, repeating, and the literals.\<close>

definition lz_copy :: "nat \<Rightarrow> nat \<Rightarrow> u8 list \<Rightarrow> u8 list \<Rightarrow> u8 list" where
  "lz_copy len dist lits out = out @ map (\<lambda>i. out ! (length out - dist + i mod dist)) [0..<len] @ lits"

fun token_expand :: "lz_token \<Rightarrow> u8 list \<Rightarrow> u8 list" where
  "token_expand (Literal_run lits) out = out @ lits"
| "token_expand (Match2 dist lits) out = lz_copy 2 dist lits out"
| "token_expand (Match3 dist lits) out = lz_copy 3 dist lits out"
| "token_expand (Short_match len dist lits) out = lz_copy len dist lits out"
| "token_expand (Long_match len dist lits) out = lz_copy len dist lits out"
| "token_expand (Far_match len dist lits) out = lz_copy len dist lits out"

text \<open>How many literals an instruction leaves before the next one: 4 stands for four or more.\<close>

fun token_state :: "lz_token \<Rightarrow> nat" where
  "token_state (Literal_run lits) = 4"
| "token_state (Match2 dist lits) = length lits"
| "token_state (Match3 dist lits) = length lits"
| "token_state (Short_match len dist lits) = length lits"
| "token_state (Long_match len dist lits) = length lits"
| "token_state (Far_match len dist lits) = length lits"

fun token_ok :: "nat \<Rightarrow> u8 list \<Rightarrow> lz_token \<Rightarrow> bool" where
  "token_ok st out (Literal_run lits) \<longleftrightarrow> st = 0 \<and> 4 \<le> length lits \<and> length lits < 2 ^ 31"
| "token_ok st out (Match2 dist lits) \<longleftrightarrow>
     1 \<le> st \<and> st \<le> 3 \<and> 1 \<le> dist \<and> dist \<le> 1024 \<and> dist \<le> length out \<and> length lits \<le> 3"
| "token_ok st out (Match3 dist lits) \<longleftrightarrow> st = 4 \<and> 2049 \<le> dist \<and> dist \<le> 3072 \<and> dist \<le> length out \<and> length lits \<le> 3"
| "token_ok st out (Short_match len dist lits) \<longleftrightarrow>
     3 \<le> len \<and> len \<le> 8 \<and> 1 \<le> dist \<and> dist \<le> 2048 \<and> dist \<le> length out \<and> length lits \<le> 3"
| "token_ok st out (Long_match len dist lits) \<longleftrightarrow>
     3 \<le> len \<and> len < 2 ^ 31 \<and> 1 \<le> dist \<and> dist \<le> 16384 \<and> dist \<le> length out \<and> length lits \<le> 3"
| "token_ok st out (Far_match len dist lits) \<longleftrightarrow>
     3 \<le> len \<and> len < 2 ^ 31 \<and> 16384 < dist \<and> dist < 49152 \<and> dist \<le> length out \<and> length lits \<le> 3"

fun tokens_ok :: "nat \<Rightarrow> u8 list \<Rightarrow> lz_token list \<Rightarrow> bool" where
  "tokens_ok st out [] \<longleftrightarrow> True"
| "tokens_ok st out (t # ts) \<longleftrightarrow> token_ok st out t \<and> tokens_ok (token_state t) (token_expand t out) ts"

section \<open>Decoding\<close>

text \<open>The byte-by-byte copy repeats the last \<open>dist\<close> bytes.\<close>

lemma copy_back_periodic:
  assumes "0 < dist" "dist \<le> length out"
  shows "copy_back dist n out = out @ map (\<lambda>i. out ! (length out - dist + i mod dist)) [0..<n]"
proof -
  have "copy_back dist n (out @ map (\<lambda>i. out ! (length out - dist + i mod dist)) [0..<k]) =
        out @ map (\<lambda>i. out ! (length out - dist + i mod dist)) [0..<k + n]" for k
  proof (induction n arbitrary: k)
    case (Suc n)
    let ?f = "\<lambda>i. out ! (length out - dist + i mod dist)"
    have "(out @ map ?f [0..<k]) ! (length out + k - dist) = ?f k"
    proof (cases "k < dist")
      case True
      then have "length out + k - dist = length out - dist + k" "length out - dist + k < length out"
        using assms by auto
      then show ?thesis using True by (simp add: nth_append)
    next
      case False
      then have "length out + k - dist = length out + (k - dist)" "k - dist < k"
        using assms by auto
      then show ?thesis using False by (simp add: nth_append mod_if [of k dist])
    qed
    then have "copy_back dist (Suc n) (out @ map ?f [0..<k]) = copy_back dist n (out @ map ?f [0..<Suc k])"
      by simp
    with Suc [of "Suc k"] show ?case by simp
  qed simp
  from this [of 0] show ?thesis by simp
qed

lemma lz_copy_split:
  "0 < dist \<Longrightarrow> dist \<le> length out \<Longrightarrow> lz_copy len dist lits out = copy_back dist len out @ lits"
  by (simp add: lz_copy_def copy_back_periodic)

lemma le16_parts:
  assumes "d < 16384" "n \<le> 3"
  shows "unat (of_nat (d mod 64 * 4 + n) :: u8) = d mod 64 * 4 + n" "unat (of_nat (d div 64) :: u8) = d div 64"
    and "(d mod 64 * 4 + n + 256 * (d div 64)) div 4 = d" "(d mod 64 * 4 + n + 256 * (d div 64)) mod 4 = n mod 4"
proof -
  have m: "d mod 64 < 64" by simp
  then have "d mod 64 * 4 + n < 256" using assms by linarith
  then show "unat (of_nat (d mod 64 * 4 + n) :: u8) = d mod 64 * 4 + n" by (rule unat_of_nat_u8)
  show "unat (of_nat (d div 64) :: u8) = d div 64" using assms by (intro unat_of_nat_u8) linarith
  have e: "d mod 64 * 4 + n + 256 * (d div 64) = 4 * d + n"
    using div_mult_mod_eq [of d 64] by linarith
  show "(d mod 64 * 4 + n + 256 * (d div 64)) div 4 = d" unfolding e using assms by linarith
  show "(d mod 64 * 4 + n + 256 * (d div 64)) mod 4 = n mod 4" unfolding e by presburger
qed

text \<open>The length field: in the operation itself, or as a run that \<open>run_length\<close> reads.\<close>

lemma run_bytes_read:
  assumes h: "holds_bytes inp p (run_bytes op m l)" and room: "p + length (run_bytes op m l) \<le> in_len" "in_len < 2 ^ 32"
    and op: "op + m < 256" "l < 2 ^ 31"
  shows "if l \<le> m then unat (inp p) = op + l \<and> length (run_bytes op m l) = 1
    else unat (inp p) = op \<and> run_length inp in_len (add + m) (Suc p) = Some (Some (l + add, p + length (run_bytes op m l)))"
proof (cases "l \<le> m")
  case True
  then show ?thesis using h op unat_of_nat_u8 [of "op + l"] by (simp add: run_bytes_def)
next
  case False
  let ?z = "(l - m - 1) div 255" and ?b = "(l - m - 1) mod 255 + 1"
  have r: "run_bytes op m l = of_nat op # replicate ?z 0 @ [of_nat ?b]" using False by (simp add: run_bytes_def)
  have "?b < 256" using mod_less_divisor [of 255 "l - m - 1"] by linarith
  then have b: "unat (of_nat ?b :: u8) = ?b" by (rule unat_of_nat_u8)
  then have nz: "(of_nat ?b :: u8) \<noteq> 0" by (metis Suc_eq_plus1 nat.distinct(1) unat_0)
  have hz: "holds_bytes inp (Suc p) (replicate ?z 0 @ [of_nat ?b])" and o: "unat (inp p) = op"
    using h op unat_of_nat_u8 [of op] unfolding r by auto
  have sk: "skip_zeroes inp in_len (Suc p) = Some (Some (Suc p + ?z))"
    by (rule skip_zeroes_run [OF hz nz]) (use room r in auto)
  have last: "unat (inp (Suc p + ?z)) = ?b" using hz b by simp
  have "?z \<le> 16843007" using op(2) div_le_mono [of "l - m - 1" "2 ^ 31" 255] by auto
  moreover have "?z * 255 + m + ?b = l" using False div_mult_mod_eq [of "l - m - 1" 255] by linarith
  ultimately have "run_length inp in_len (add + m) (Suc p) = Some (Some (l + add, Suc (Suc p + ?z)))"
    using last by (simp add: run_length_def sk)
  then show ?thesis using False o unfolding r by simp
qed

lemma dist_bytes_read:
  assumes "holds_bytes inp q (dist_bytes d lits)" "q + length (dist_bytes d lits) \<le> in_len" "in_len < 2 ^ 32"
    and "d < 16384" "length lits \<le> 3"
  shows "\<not> in_left in_len q < 2" "le16_at inp q div 4 = d" "le16_at inp q mod 4 = length lits"
  using assms le16_parts [OF assms(4,5)]
  by (auto simp: dist_bytes_def le16_at_def in_left_inside simp del: of_nat_add of_nat_mult)

lemma near_bytes_read:
  assumes "holds_bytes inp p (near_bytes d lits)" "d < 1024" "length lits \<le> 3"
  shows "unat (inp p) < 16" "unat (inp p) div 4 + unat (inp (Suc p)) * 4 = d" "unat (inp p) mod 4 = length lits"
proof -
  define e n where "e = d mod 4" and "n = length lits"
  have e: "e < 4" "e + d div 4 * 4 = d" and n: "n \<le> 3" using assms(3) by (simp_all add: e_def n_def)
  have i: "inp p = of_nat (e * 4 + n)" "inp (Suc p) = of_nat (d div 4)"
    using assms(1) by (simp_all add: near_bytes_def e_def n_def)
  have k: "unat (inp p) = e * 4 + n" unfolding i(1) by (rule unat_of_nat_u8) (use e n in linarith)
  have "d div 4 < 256" using assms(2) by linarith
  then have b: "unat (inp (Suc p)) = d div 4" unfolding i(2) by (rule unat_of_nat_u8)
  have "(e * 4 + n) div 4 = e" "(e * 4 + n) mod 4 = n" "e * 4 + n < 16" using e(1) n by (linarith, presburger, linarith)
  then show "unat (inp p) < 16" "unat (inp p) div 4 + unat (inp (Suc p)) * 4 = d" "unat (inp p) mod 4 = length lits"
    unfolding k b using e(2) by (simp_all add: n_def)
qed

text \<open>The operation and its length field, as the decoder takes them apart.\<close>

lemma length_field:
  assumes "holds_bytes inp p (run_bytes op m l)" "p + length (run_bytes op m l) \<le> in_len" "in_len < 2 ^ 32"
    and "op + m < 256" "l < 2 ^ 31" and w: "w = Suc m" "w dvd op" "1 \<le> l"
  shows "op \<le> unat (inp p)" "unat (inp p) < op + w" "unat (inp p) div w = op div w"
    "(if unat (inp p) mod w + 2 = 2 then run_length inp in_len (2 + m) (Suc p) else Some (Some (unat (inp p) mod w + 2, Suc p))) =
      Some (Some (l + 2, p + length (run_bytes op m l)))"
proof -
  note run = run_bytes_read [OF assms(1-5), of 2]
  from w(2) obtain j where op: "op = w * j" by (rule dvdE)
  have "op \<le> unat (inp p) \<and> unat (inp p) < op + w \<and> unat (inp p) div w = op div w \<and>
    (if unat (inp p) mod w + 2 = 2 then run_length inp in_len (2 + m) (Suc p) else Some (Some (unat (inp p) mod w + 2, Suc p))) =
      Some (Some (l + 2, p + length (run_bytes op m l)))"
  proof (cases "l \<le> m")
    case True
    with run have k: "unat (inp p) = w * j + l" "length (run_bytes op m l) = 1" by (simp_all add: op)
    have "l < w" using True w(1) by simp
    then show ?thesis unfolding k using w(3) by (simp add: op)
  next
    case False
    with run have k: "unat (inp p) = w * j" by (simp add: op)
    have "0 < w" using w(1) by simp
    with run False show ?thesis unfolding k by (simp add: op)
  qed
  then show "op \<le> unat (inp p)" "unat (inp p) < op + w" "unat (inp p) div w = op div w"
    "(if unat (inp p) mod w + 2 = 2 then run_length inp in_len (2 + m) (Suc p) else Some (Some (unat (inp p) mod w + 2, Suc p))) =
      Some (Some (l + 2, p + length (run_bytes op m l)))" by blast+
qed

text \<open>Each form of instruction is decoded to what it stands for, up to its literals.\<close>

lemma decode_run:
  assumes h: "holds_bytes inp p (token_bytes (Literal_run lits))" and ok: "token_ok st out (Literal_run lits)"
    and room: "p + length (token_bytes (Literal_run lits)) \<le> in_len" "in_len < 2 ^ 32"
  shows "lzo_decode inp in_len st p =
    Some (Lz_verbatim (length lits) (p + length (token_bytes (Literal_run lits)) - length lits))"
proof -
  let ?l = "length lits - 3"
  have l: "1 \<le> ?l" "?l + 3 = length lits" "st = 0" using ok by auto
  have "if ?l \<le> 15 then unat (inp p) = 0 + ?l \<and> length (run_bytes 0 15 ?l) = 1
    else unat (inp p) = 0 \<and> run_length inp in_len (0 + 15) (Suc p) = Some (Some (?l + 0, p + length (run_bytes 0 15 ?l)))"
    by (rule run_bytes_read) (use h ok room in auto)
  then show ?thesis using l by (auto simp: lzo_decode_def split: if_splits)
qed

lemma decode_near:
  assumes "holds_bytes inp p (near_bytes d lits)" "d < 1024" "length lits \<le> 3" "0 < st"
  shows "lzo_decode inp in_len st p =
    Some (Lz_match (1 + (if st = 4 then 2048 else 0) + d) (if st = 4 then 3 else 2) (length lits) (p + 2))"
proof -
  define k b where "k = unat (inp p)" and "b = unat (inp (Suc p))"
  have k: "k < 16" "k div 4 + b * 4 = d" "k mod 4 = length lits"
    using near_bytes_read [OF assms(1-3)] by (simp_all add: k_def b_def)
  show ?thesis using k assms(4)
    by (simp add: lzo_decode_def Let_def flip: k_def b_def)
qed

lemma decode_long:
  assumes h: "holds_bytes inp p (token_bytes (Long_match len dist lits))" and ok: "token_ok st out (Long_match len dist lits)"
    and room: "p + length (token_bytes (Long_match len dist lits)) \<le> in_len" "in_len < 2 ^ 32"
  shows "lzo_decode inp in_len state p =
     Some (Lz_match dist len (length lits) (p + length (token_bytes (Long_match len dist lits)) - length lits))"
proof -
  let ?l = "len - 2" and ?r = "length (run_bytes 32 31 (len - 2))"
  have l: "1 \<le> ?l" "?l + 2 = len" "1 + (dist - 1) = dist" using ok by auto
  have q: "holds_bytes inp (p + ?r) (dist_bytes (dist - 1) lits)" "p + ?r + length (dist_bytes (dist - 1) lits) \<le> in_len" "dist - 1 < 16384"
    using h ok room(1) by (simp, simp add: add.assoc, simp, linarith)
  have d: "\<not> in_left in_len (p + ?r) < 2" "le16_at inp (p + ?r) div 4 = dist - 1" "le16_at inp (p + ?r) mod 4 = length lits"
    using dist_bytes_read [of inp "p + ?r" "dist - 1" lits in_len] q ok room(2) by auto
  have "holds_bytes inp p (run_bytes 32 31 ?l)" "p + ?r \<le> in_len" "32 + 31 < (256 :: nat)" "?l < 2 ^ 31" "32 = Suc 31" "(32 :: nat) dvd 32"
    using h ok room by auto
  note f = length_field [OF this(1,2) room(2) this(3-6) l(1)]
  have len: "length (token_bytes (Long_match len dist lits)) = ?r + 2 + length lits" by (simp add: dist_bytes_def)
  show ?thesis
    unfolding len lzo_decode_def Let_def f(4) using f(1,2) d l by simp
qed

lemma decode_far:
  assumes h: "holds_bytes inp p (token_bytes (Far_match len dist lits))" and ok: "token_ok st out (Far_match len dist lits)"
    and room: "p + length (token_bytes (Far_match len dist lits)) \<le> in_len" "in_len < 2 ^ 32"
  shows "lzo_decode inp in_len state p =
     Some (Lz_match dist len (length lits) (p + length (token_bytes (Far_match len dist lits)) - length lits))"
proof -
  define e where "e = dist - 16384"
  define op where "op = 16 + 8 * (e div 16384)"
  let ?l = "len - 2" and ?r = "length (run_bytes op 7 (len - 2))" and ?d = "e mod 16384"
  have "0 < e" "e + 16384 = dist" "e < 32768" using ok by (auto simp: e_def)
  moreover from this have "e div 16384 = 0 \<or> e div 16384 = 1" by linarith
  ultimately have e: "0 < e" "e + 16384 = dist" "e div 16384 = 0 \<or> e div 16384 = 1" "e div 16384 * 16384 + ?d = e"
    by simp_all
  have l: "1 \<le> ?l" "?l + 2 = len" using ok by auto
  have q: "holds_bytes inp (p + ?r) (dist_bytes ?d lits)" "p + ?r + length (dist_bytes ?d lits) \<le> in_len" "?d < 16384"
    using h room(1) by (simp add: e_def op_def, simp add: e_def op_def add.assoc, simp)
  have d: "\<not> in_left in_len (p + ?r) < 2" "le16_at inp (p + ?r) div 4 = ?d" "le16_at inp (p + ?r) mod 4 = length lits"
    using dist_bytes_read [of inp "p + ?r" ?d lits in_len] q ok room(2) by auto
  have "op = 16 \<or> op = 24" using e(3) by (auto simp: op_def)
  then have "holds_bytes inp p (run_bytes op 7 ?l)" "p + ?r \<le> in_len" "op + 7 < 256" "?l < 2 ^ 31" "8 = Suc 7" "8 dvd op"
    using h ok room by (auto simp: e_def op_def)
  note f = length_field [OF this(1,2) room(2) this(3-6) l(1)]
  have k: "16 \<le> unat (inp p)" "unat (inp p) < 32" "unat (inp p) div 8 mod 2 = e div 16384"
    using f(1-3) e(3) by (auto simp: op_def)
  have len: "length (token_bytes (Far_match len dist lits)) = ?r + 2 + length lits" by (simp add: e_def op_def dist_bytes_def)
  show ?thesis
    unfolding len lzo_decode_def Let_def f(4) k(3) using k(1,2) d e(1,2,4) l by simp
qed

lemma decode_short:
  assumes h: "holds_bytes inp p (token_bytes (Short_match len dist lits))"
    and ok: "token_ok st out (Short_match len dist lits)"
  shows "lzo_decode inp in_len state p =
     Some (Lz_match dist len (length lits) (p + length (token_bytes (Short_match len dist lits)) - length lits))"
proof -
  define d n where "d = dist - 1" and "n = length lits"
  have dn: "d < 2048" "n \<le> 3" "dist = d + 1" using ok by (auto simp: d_def n_def)
  have m: "d mod 8 < 8" by simp
  have b: "(len - 1) * 32 + d mod 8 * 4 + n < 256"
  proof -
    have "len - 1 \<le> 7" using ok by auto
    then show ?thesis using m dn(2) by linarith
  qed
  have t: "unat (inp p) = (len - 1) * 32 + d mod 8 * 4 + n"
    using h unat_of_nat_u8 [OF b] by (simp add: d_def n_def del: of_nat_add of_nat_mult)
  have u: "unat (inp (Suc p)) = d div 8"
    using h dn(1) unat_of_nat_u8 [of "d div 8"] by (simp add: d_def)
  obtain l where l: "len = Suc l" "2 \<le> l" "l \<le> 7" using ok by (cases len) auto
  define t' where "t' = l * 32 + d mod 8 * 4 + n"
  have t': "unat (inp p) = t'" using t l(1) by (simp add: t'_def)
  define e where "e = d mod 8"
  have te: "t' = l * 32 + e * 4 + n" "e < 8" using m by (simp_all add: t'_def e_def)
  have "t' div 4 = l * 8 + e" using te dn(2) by linarith
  then have "t' div 4 mod 8 = e" using te(2) by simp
  moreover have "\<not> t' < 64" "t' div 32 = l" using te dn(2) l(2) by linarith+
  moreover have "t' mod 4 = n mod 4" unfolding te(1) by presburger
  ultimately have parts: "\<not> t' < 64" "t' div 4 mod 8 = d mod 8" "t' div 32 = l" "t' mod 4 = n mod 4"
    by (simp_all add: e_def)
  have "1 + d mod 8 + d div 8 * 8 = dist" using dn(3) div_mult_mod_eq [of d 8] by linarith
  then show ?thesis
    using parts t' u l dn(2) by (simp add: lzo_decode_def Let_def n_def)
qed

lemma decode_end:
  assumes "holds_bytes inp p [17, 0, 0]" "p + 3 = in_len" "in_len < 2 ^ 32"
  shows "lzo_decode inp in_len state p = Some (Lz_done 3 in_len)"
  using assms by (simp add: lzo_decode_def in_left_inside le16_at_def numeral_3_eq_3)


text \<open>One instruction: the decoder is behind its last literal afterwards, and has appended its meaning.\<close>

lemma loop_run:
  assumes h: "holds_bytes inp p (token_bytes (Literal_run lits))" and ok: "token_ok st out (Literal_run lits)"
    and room: "p + length (token_bytes (Literal_run lits)) + 3 \<le> in_len" "in_len < 2 ^ 32"
    and out: "length out + length lits \<le> out_len"
  shows "lzo_loop inp in_len out_len st p out =
    lzo_loop inp in_len out_len 4 (p + length (token_bytes (Literal_run lits))) (out @ lits)"
proof -
  let ?q = "p + length (run_bytes 0 15 (length lits - 3))"
  have "lzo_decode inp in_len st p = Some (Lz_verbatim (length lits) ?q)" using decode_run [OF h ok] room by simp
  moreover have "holds_bytes inp ?q lits" using h by simp
  then have "lzo_verbatim inp in_len out_len (length lits) ?q out = Some (?q + length lits, out @ lits)"
    using room out by (auto simp: lzo_verbatim_def in_left_inside copy_input_def holds_bytes_map)
  ultimately show ?thesis by (subst lzo_loop.simps) (simp add: add.assoc)
qed

lemma loop_match:
  assumes d: "lzo_decode inp in_len st p = Some (Lz_match dist len (length lits) (q - length lits))"
    and dist: "0 < dist" "dist \<le> length out" and ll: "p + length lits \<le> q" and hl: "holds_bytes inp (q - length lits) lits"
    and room: "q + 3 \<le> in_len" "in_len < 2 ^ 32" and out: "length (lz_copy len dist lits out) \<le> out_len"
  shows "lzo_loop inp in_len out_len st p out = lzo_loop inp in_len out_len (length lits) q (lz_copy len dist lits out)"
proof -
  have e: "lz_copy len dist lits out = copy_back dist len out @ lits" using lz_copy_split dist by simp
  have fits: "\<not> out_len - length out < len" using out e by auto
  have "map inp [q - length lits..<q] = lits" using holds_bytes_map [OF hl] ll by simp
  then have "lzo_literals inp in_len out_len (length lits) (q - length lits) (copy_back dist len out) = Some (q, lz_copy len dist lits out)"
    using room out ll by (auto simp: lzo_literals_def in_left_inside copy_input_def e)
  then show ?thesis using d dist fits by (subst lzo_loop.simps) simp
qed

lemma loop_token:
  assumes h: "holds_bytes inp p (token_bytes t)" and ok: "token_ok st out t"
    and room: "p + length (token_bytes t) + 3 \<le> in_len" "in_len < 2 ^ 32"
    and out: "length (token_expand t out) \<le> out_len"
  shows "lzo_loop inp in_len out_len st p out =
    lzo_loop inp in_len out_len (token_state t) (p + length (token_bytes t)) (token_expand t out)"
proof -
  have r: "p + length (token_bytes t) \<le> in_len" using room by simp
  show ?thesis
  proof (cases t)
    case (Literal_run lits)
    then show ?thesis using loop_run [of inp p lits st out in_len out_len] assms by simp
  next
    case (Match2 dist lits)
    then have "lzo_decode inp in_len st p = Some (Lz_match dist 2 (length lits) (p + 2))"
      using decode_near [of inp p "dist - 1" lits st in_len] h ok by auto
    then show ?thesis using Match2 assms loop_match [of inp in_len st p dist 2 lits "p + 2 + length lits" out out_len]
      by (simp add: near_bytes_def)
  next
    case (Match3 dist lits)
    then have "lzo_decode inp in_len st p = Some (Lz_match dist 3 (length lits) (p + 2))"
      using decode_near [of inp p "dist - 2049" lits st in_len] h ok by auto
    then show ?thesis using Match3 assms loop_match [of inp in_len st p dist 3 lits "p + 2 + length lits" out out_len]
      by (simp add: near_bytes_def)
  next
    case (Short_match len dist lits)
    with assms show ?thesis using loop_match [OF decode_short [of inp p len dist lits st out in_len st]] by simp
  next
    case (Long_match len dist lits)
    with assms r show ?thesis using loop_match [OF decode_long [of inp p len dist lits st out in_len st]]
      by (simp add: dist_bytes_def)
  next
    case (Far_match len dist lits)
    with assms r show ?thesis using loop_match [OF decode_far [of inp p len dist lits st out in_len st]]
      by (simp add: dist_bytes_def)
  qed
qed

lemma token_expand_grows: "length out \<le> length (fold token_expand ts out)"
proof (induction ts arbitrary: out)
  case (Cons t ts)
  have "length out \<le> length (token_expand t out)" by (cases t) (simp_all add: lz_copy_def)
  with Cons [of "token_expand t out"] show ?case by simp
qed simp

lemma loop_tokens:
  assumes "holds_bytes inp p (concat (map token_bytes ts) @ [17, 0, 0])" "tokens_ok st out ts"
    and "p + length (concat (map token_bytes ts)) + 3 = in_len" "in_len < 2 ^ 32"
    and "length (fold token_expand ts out) \<le> out_len"
  shows "lzo_loop inp in_len out_len st p out = Some (0, fold token_expand ts out)"
  using assms
proof (induction ts arbitrary: st p out)
  case Nil
  then have "lzo_decode inp in_len st p = Some (Lz_done 3 in_len)" by (intro decode_end) auto
  then show ?case by (subst lzo_loop.simps) simp
next
  case (Cons t ts)
  let ?p = "p + length (token_bytes t)" and ?o = "token_expand t out"
  have "length ?o \<le> out_len" using token_expand_grows [of ?o ts] Cons.prems by simp
  then have "lzo_loop inp in_len out_len st p out = lzo_loop inp in_len out_len (token_state t) ?p ?o"
    using loop_token [of inp p t st out in_len out_len] Cons.prems by auto
  moreover have "lzo_loop inp in_len out_len (token_state t) ?p ?o = Some (0, fold token_expand ts ?o)"
    using Cons.prems by (intro Cons.IH) auto
  ultimately show ?case by simp
qed

text \<open>A block without a count starts with a literal run, for there is nothing yet to be matched.\<close>

lemma first_run:
  assumes "tokens_ok 0 [] ts" "ts \<noteq> []" "holds_bytes inp 0 (concat (map token_bytes ts) @ rest)"
  shows "unat (inp 0) < 16"
proof -
  obtain lits us where ts: "ts = Literal_run lits # us" and l: "4 \<le> length lits" "length lits < 2 ^ 31"
    using assms(1,2) by (cases ts rule: list.exhaust; cases "hd ts") auto
  with assms(3) show ?thesis
    by (auto simp: run_bytes_def unat_of_nat_u8 simp flip: of_nat_diff split: if_splits)
qed

text \<open>
  C24 (lzo1x_decompress_block_decodes). The blocks of LZO1X are: a run of up to 238 literals, with its
  count, or none; instructions of every form (a literal run where no literals are before it, a match of two
  bytes after one to three literals, one of three after four or more, and short, long and far matches
  everywhere, with up to three literals behind each), of lengths below \<open>2 ^ 31\<close>, whose distances
  stay within what has been decoded; the end marker. Decompressing such a block, except the empty one, succeeds
  when the output has room and yields what the instructions mean: each match repeats the bytes at its
  distance, followed by its literals. (The empty block is the end marker alone, whose first byte the decoder
  takes for an extension it refuses.)
\<close>

theorem lzo1x_decompress_block_decodes:
  assumes "holds_bytes inp 0 (block_bytes first ts)" "length first \<le> 238" "first \<noteq> [] \<or> ts \<noteq> []"
    and "tokens_ok (min 4 (length first)) first ts" "length (block_bytes first ts) < 2 ^ 32"
    and "length (fold token_expand ts first) \<le> out_len"
  shows "lzo1x_decompress_block inp (length (block_bytes first ts)) out_len = Some (0, fold token_expand ts first)"
proof (cases "first = []")
  case True
  let ?n = "length (block_bytes first ts)"
  have "unat (inp 0) < 16" using first_run [of ts inp "[17, 0, 0]"] assms(1,3,4) True by (simp add: block_bytes_def)
  moreover from this have "inp 0 \<noteq> 17" by auto
  moreover have "lzo_loop inp ?n out_len 0 0 [] = Some (0, fold token_expand ts [])"
    using assms True by (intro loop_tokens) (simp_all add: block_bytes_def)
  ultimately show ?thesis using True by (simp add: lzo1x_decompress_block_def block_bytes_def Let_def)
next
  case False
  let ?n = "length (block_bytes first ts)"
  have b: "unat (inp 0) = 17 + length first"
    using assms(1,2) False unat_of_nat_u8 [of "17 + length first"] by (simp add: block_bytes_def)
  have cp: "map inp [Suc 0..<Suc (length first)] = first"
    using holds_bytes_map [of inp 1 first] assms(1) False by (simp add: block_bytes_def)
  have room: "length first \<le> out_len" using token_expand_grows [of first ts] assms(6) by simp
  have left: "length first + 3 \<le> in_left ?n 1" using assms(5) False by (simp add: in_left_inside block_bytes_def)
  have l: "lzo_literals inp ?n out_len (length first) 1 [] = Some (Suc (length first), first)"
    "lzo_verbatim inp ?n out_len (length first) 1 [] = Some (Suc (length first), first)"
    using left room cp by (simp_all add: lzo_literals_def lzo_verbatim_def copy_input_def)
  have loop: "lzo_loop inp ?n out_len (min 4 (length first)) (Suc (length first)) first = Some (0, fold token_expand ts first)"
    using assms False by (intro loop_tokens) (simp_all add: block_bytes_def)
  have "inp 0 \<noteq> 17"
  proof
    assume "inp 0 = 17"
    then have "17 = 17 + length first" using b by simp
    then show False using False by simp
  qed
  moreover have "\<not> ?n < 3" by (simp add: block_bytes_def)
  moreover have "17 < unat (inp 0)" using b False by simp
  ultimately show ?thesis using l loop b by (cases "length first < 4") (simp_all add: lzo1x_decompress_block_def Let_def)
qed

text \<open>
  Three literals \<open>abc\<close>; six bytes from three back and \<open>d\<close>; two bytes from one back; four literals
  \<open>efgh\<close> as a run; the end.
\<close>

theorem lzo1x_decompress_block_decodes_witness:
  "lzo1x_decompress_block (\<lambda>i. [20, 97, 98, 99, 169, 0, 100, 0, 0, 1, 101, 102, 103, 104, 17, 0, 0] ! i) 17 16 =
     Some (0, [97, 98, 99, 97, 98, 99, 97, 98, 99, 100, 100, 100, 101, 102, 103, 104])"
proof -
  let ?ts = "[Short_match 6 3 [100], Match2 1 [], Literal_run [101, 102, 103, 104]]" and ?f = "[97, 98, 99]"
  let ?b = "[20, 97, 98, 99, 169, 0, 100, 0, 0, 1, 101, 102, 103, 104, 17, 0, 0] :: u8 list"
  have b: "block_bytes ?f ?ts = ?b" by (simp add: block_bytes_def near_bytes_def run_bytes_def)
  have ex: "fold token_expand ?ts ?f = [97, 98, 99, 97, 98, 99, 97, 98, 99, 100, 100, 100, 101, 102, 103, 104]"
    by (simp add: lz_copy_def upt_rec)
  have len: "length ?b = 17" by simp
  have ok: "tokens_ok (min 4 (length ?f)) ?f ?ts" by (simp add: lz_copy_def upt_rec)
  have h: "holds_bytes (\<lambda>i. ?b ! i) 0 ?b" by simp
  have "lzo1x_decompress_block (\<lambda>i. ?b ! i) (length (block_bytes ?f ?ts)) 16 = Some (0, fold token_expand ?ts ?f)"
    by (rule lzo1x_decompress_block_decodes) (simp_all only: b h ok ex, simp_all)
  then show ?thesis by (simp only: b ex len)
qed

end
