(* ===== verification/Mmu.thy ===== *)
theory Mmu
  imports Lambda_Prelude
begin

text \<open>
  Virtual memory: the two-level page tables of \<open>arch/x86/src/mm/paging.c\<close> and \<open>arch/x86/src/mm/mmu.c\<close>,
  and the copying between address spaces of \<open>kernel/src/mm/mmu.c\<close>.

  Addresses are 32-bit words. \<open>mm_word\<close> holds the 32-bit words of page directories and page tables
  by address, \<open>mm_byte\<close> the bytes of the memory they map; the two do not overlap. Page directories
  and tables are reached at their physical addresses (the kernel maps them there), so the kernel's
  own directory is \<open>kernel_cr3\<close>. \<open>mm_new\<close> holds the results of the coming calls of \<open>kamalloc\<close> (0 when
  it fails, which is not checked here). The translation look-aside buffer is not modelled.
\<close>

unbundle bit_operations_syntax

record mmu_state =
  mm_word :: "u32 \<Rightarrow> u32"
  mm_byte :: "u32 \<Rightarrow> u8"
  mm_cr3 :: u32
  mm_kernel_cr3 :: u32
  mm_new :: "u32 list"

abbreviation (input) KERNEL_OFFSET :: u32 where "KERNEL_OFFSET \<equiv> 0xC0000000"
abbreviation (input) PAGE_SZ :: u32 where "PAGE_SZ \<equiv> 4096"
abbreviation (input) PAGE_MASK :: u32 where "PAGE_MASK \<equiv> 0xFFFFF000"

abbreviation (input) MAP_READ :: u32 where "MAP_READ \<equiv> 1"
abbreviation (input) MAP_WRITE :: u32 where "MAP_WRITE \<equiv> 2"
abbreviation (input) MAP_KERNEL :: u32 where "MAP_KERNEL \<equiv> 0x10"

definition wr :: "u32 \<Rightarrow> u32 \<Rightarrow> mmu_state \<Rightarrow> mmu_state" where
  "wr a v m = m\<lparr>mm_word := (mm_word m)(a := v)\<rparr>"

definition kamalloc_page :: "mmu_state \<Rightarrow> u32 \<times> mmu_state" where
  "kamalloc_page m = (case mm_new m of [] \<Rightarrow> (0, m) | a # as \<Rightarrow> (a, m\<lparr>mm_new := as\<rparr>))"

section \<open>Page directories and tables\<close>

definition pdindex :: "u32 \<Rightarrow> u32" where "pdindex v = drop_bit 22 v"
definition ptindex :: "u32 \<Rightarrow> u32" where "ptindex v = drop_bit 12 v AND 0x3FF"

text \<open>The address of the directory entry for \<open>v\<close>, and of its entry in the table the directory names.\<close>

definition pde_addr :: "u32 \<Rightarrow> u32 \<Rightarrow> u32" where
  "pde_addr pgdir v = pgdir + 4 * pdindex v"

definition pte_addr :: "u32 \<Rightarrow> u32 \<Rightarrow> u32" where
  "pte_addr pde v = (pde AND PAGE_MASK) + 4 * ptindex v"

definition pgdir_get_page_entry :: "mmu_state \<Rightarrow> u32 \<Rightarrow> u32 \<Rightarrow> u32" where
  "pgdir_get_page_entry m pgdir virt =
     (let pde = mm_word m (pde_addr pgdir virt) in
      if pde AND 1 \<noteq> 0 then mm_word m (pte_addr pde virt) else 0)"

definition page_present :: "mmu_state \<Rightarrow> u32 \<Rightarrow> u32" where
  "page_present m virt =
     (let pde = mm_word m (pde_addr (mm_cr3 m) virt) in
      if pde AND 1 \<noteq> 0 then mm_word m (pte_addr pde virt) AND 1 else 0)"

definition get_page_entry :: "mmu_state \<Rightarrow> u32 \<Rightarrow> u32" where
  "get_page_entry m virt = pgdir_get_page_entry m (mm_cr3 m) virt"

definition pgdir_get_page_table :: "mmu_state \<Rightarrow> u32 \<Rightarrow> u32 \<Rightarrow> u32" where
  "pgdir_get_page_table m pgdir virt = mm_word m (pde_addr pgdir virt)"

definition zero_page :: "u32 \<Rightarrow> mmu_state \<Rightarrow> mmu_state" where
  "zero_page base m = m\<lparr>mm_word := (\<lambda>a. if a - base < PAGE_SZ then 0 else mm_word m a)\<rparr>"

text \<open>A directory entry without a table gets a new, cleared one.\<close>

definition need_table :: "u32 \<Rightarrow> mmu_state \<Rightarrow> mmu_state" where
  "need_table pde m =
     (if mm_word m pde AND 1 = 0
      then let (t, m) = kamalloc_page m; m = wr pde (t OR 1 OR 2) m in zero_page (mm_word m pde AND PAGE_MASK) m
      else m)"

text \<open>Pages from \<open>KERNEL_OFFSET\<close> on are entered in the kernel's directory, whose entry is then copied.\<close>

definition pgdir_map_page :: "u32 \<Rightarrow> u32 \<Rightarrow> u32 \<Rightarrow> u32 \<Rightarrow> mmu_state \<Rightarrow> mmu_state" where
  "pgdir_map_page pgdir phys virt flags m =
     (let virt = virt AND PAGE_MASK; phys = phys AND PAGE_MASK;
          dir = (if KERNEL_OFFSET \<le> virt then mm_kernel_cr3 m else pgdir);
          pde = pde_addr dir virt;
          m = need_table pde m;
          m = wr pde (mm_word m pde OR (flags AND 4)) m;
          m = wr (pte_addr (mm_word m pde) virt) (phys OR (flags AND 0xFFF) OR 1) m
      in if dir \<noteq> pgdir then wr (pde_addr pgdir virt) (mm_word m pde) m else m)"

definition map_page :: "u32 \<Rightarrow> u32 \<Rightarrow> u32 \<Rightarrow> mmu_state \<Rightarrow> mmu_state" where
  "map_page phys virt flags m = pgdir_map_page (mm_cr3 m) phys virt flags m"

definition fill_pagetable :: "u32 \<Rightarrow> u32 \<Rightarrow> u32 \<Rightarrow> mmu_state \<Rightarrow> mmu_state" where
  "fill_pagetable table a flags m =
     foldl (\<lambda>m i. wr (table + 4 * of_nat i) ((a + PAGE_SZ * of_nat i) OR (flags AND 0xFFF)) m) m [0..<1024]"

section \<open>Mapping and unmapping ranges\<close>

definition page_flags_of :: "u32 \<Rightarrow> u32" where
  "page_flags_of flags = 1 OR (if flags AND MAP_WRITE \<noteq> 0 then 2 else 0) OR (if flags AND MAP_KERNEL = 0 then 4 else 0)"

text \<open>\<open>for(off = 0; off < sz; off += PAGE_SZ)\<close>, where \<open>off\<close> may wrap around.\<close>

partial_function (option) map_table_loop ::
    "u32 \<Rightarrow> u32 \<Rightarrow> u32 \<Rightarrow> u32 \<Rightarrow> u32 \<Rightarrow> u32 \<Rightarrow> mmu_state \<Rightarrow> mmu_state option" where
  "map_table_loop table virt phys sz flags off m =
     (if off < sz
      then map_table_loop table virt phys sz flags (off + PAGE_SZ) (pgdir_map_page table (phys + off) (virt + off) flags m)
      else Some m)"

declare map_table_loop.simps [code]

definition mmu_map_table :: "u32 \<Rightarrow> u32 \<Rightarrow> u32 \<Rightarrow> u32 \<Rightarrow> u32 \<Rightarrow> mmu_state \<Rightarrow> (int \<times> mmu_state) option" where
  "mmu_map_table table virt phys sz flags m = do {
     m \<leftarrow> map_table_loop table (virt AND PAGE_MASK) (phys AND PAGE_MASK) sz (page_flags_of flags) 0 m;
     Some (0, m)
   }"

definition unmap_page :: "u32 \<Rightarrow> u32 \<Rightarrow> mmu_state \<Rightarrow> mmu_state" where
  "unmap_page table virt m =
     (let pde = mm_word m (pde_addr table virt) in
      if pde AND 1 \<noteq> 0 then wr (pte_addr pde virt) 0 m else m)"

partial_function (option) unmap_table_loop :: "u32 \<Rightarrow> u32 \<Rightarrow> u32 \<Rightarrow> u32 \<Rightarrow> mmu_state \<Rightarrow> mmu_state option" where
  "unmap_table_loop table virt sz off m =
     (if off < sz then unmap_table_loop table virt sz (off + PAGE_SZ) (unmap_page table (virt + off) m) else Some m)"

declare unmap_table_loop.simps [code]

definition mmu_unmap_table :: "u32 \<Rightarrow> u32 \<Rightarrow> u32 \<Rightarrow> mmu_state \<Rightarrow> (int \<times> mmu_state) option" where
  "mmu_unmap_table table virt sz m = do { m \<leftarrow> unmap_table_loop table virt sz 0 m; Some (0, m) }"

text \<open>The flags (or an error) and the address stored in \<open>*phys\<close>, if any.\<close>

definition mmu_map_get_table :: "mmu_state \<Rightarrow> u32 \<Rightarrow> u32 \<Rightarrow> int \<times> u32 option" where
  "mmu_map_get_table m table virt =
     (let entry = pgdir_get_page_entry m table virt in
      if entry AND 1 = 0 then (- EUNSPEC, None)
      else (uint (MAP_READ OR (if entry AND 2 \<noteq> 0 then MAP_WRITE else 0) OR (if entry AND 4 = 0 then MAP_KERNEL else 0)),
            Some (entry AND PAGE_MASK)))"

definition copy_page :: "u32 \<Rightarrow> u32 \<Rightarrow> mmu_state \<Rightarrow> mmu_state" where
  "copy_page dst src m = m\<lparr>mm_word := (\<lambda>a. if a - dst < PAGE_SZ then mm_word m (src + (a - dst)) else mm_word m a)\<rparr>"

section \<open>The current table\<close>

definition mmu_map :: "u32 \<Rightarrow> u32 \<Rightarrow> u32 \<Rightarrow> u32 \<Rightarrow> mmu_state \<Rightarrow> (int \<times> mmu_state) option" where
  "mmu_map virt phys sz flags m =
     (if mm_cr3 m = 0 then Some (- EINVAL, m) else mmu_map_table (mm_cr3 m) virt phys sz flags m)"

definition mmu_unmap :: "u32 \<Rightarrow> u32 \<Rightarrow> mmu_state \<Rightarrow> (int \<times> mmu_state) option" where
  "mmu_unmap virt sz m =
     (if mm_cr3 m = 0 then Some (- EINVAL, m) else mmu_unmap_table (mm_cr3 m) virt sz m)"

text \<open>\<open>has_phys\<close>: whether the caller's pointer \<open>phys\<close> is not \<open>NULL\<close>; without a table it is written regardless.\<close>

definition mmu_map_get :: "bool \<Rightarrow> mmu_state \<Rightarrow> u32 \<Rightarrow> (int \<times> u32 option) option" where
  "mmu_map_get has_phys m virt =
     (if mm_cr3 m = 0 then if has_phys then Some (3, Some (virt AND PAGE_MASK)) else None
      else Some (mmu_map_get_table m (mm_cr3 m) virt))"

record mmu_map_entry =
  ent_virt :: u32
  ent_phys :: u32
  ent_flags :: u32

text \<open>\<open>None\<close> inside: the error return.\<close>

definition mmu_map_save :: "mmu_state \<Rightarrow> u32 \<Rightarrow> mmu_map_entry option option" where
  "mmu_map_save m virt = do {
     (flags, phys) \<leftarrow> mmu_map_get True m virt;
     Some (if flags < 0 then None else Some \<lparr>ent_virt = virt, ent_phys = the phys, ent_flags = of_int flags\<rparr>)
   }"

definition mmu_map_restore :: "mmu_map_entry \<Rightarrow> mmu_state \<Rightarrow> (int \<times> mmu_state) option" where
  "mmu_map_restore e m = mmu_map (ent_virt e) (ent_phys e) PAGE_SZ (ent_flags e) m"

text \<open>What each of the three copying functions does after a copy: put a saved mapping back, or remove the temporary one.\<close>

definition undo_map :: "mmu_map_entry option \<Rightarrow> u32 \<Rightarrow> mmu_state \<Rightarrow> mmu_state option" where
  "undo_map saved phys m = do {
     (_, m) \<leftarrow> (case saved of Some e \<Rightarrow> mmu_map_restore e m | None \<Rightarrow> mmu_unmap phys 1 m);
     Some m
   }"

definition count_tables :: "mmu_state \<Rightarrow> u32 \<Rightarrow> nat" where
  "count_tables m src = length (filter (\<lambda>i. mm_word m (src + 4 * of_nat i) AND 1 \<noteq> 0) [0..<1024])"

definition clone_entry :: "u32 \<Rightarrow> u32 \<Rightarrow> u32 \<times> mmu_state \<Rightarrow> nat \<Rightarrow> u32 \<times> mmu_state" where
  "clone_entry new src st i =
     (let (off, m) = st; a = new + 4 * of_nat i in
      if mm_word m a AND 1 \<noteq> 0 then
        let m = wr a ((mm_word m a AND 0xFFF) OR (new + off)) m;
            m = copy_page (mm_word m a AND PAGE_MASK) (mm_word m (src + 4 * of_nat i) AND PAGE_MASK) m
        in (off + 0x1000, m)
      else (off, m))"

definition mmu_clone_table :: "u32 \<Rightarrow> mmu_state \<Rightarrow> (u32 \<times> mmu_state) option" where
  "mmu_clone_table src m = do {
     let dirsz = (0x1000 + 0x1000 * of_nat (count_tables m src) :: u32);
     let (new, m) = kamalloc_page m;
     (_, m) \<leftarrow> mmu_map new new dirsz (MAP_READ OR MAP_WRITE OR MAP_KERNEL) m;
     let m = copy_page new src m;
     Some (new, snd (foldl (clone_entry new src) (0x1000, m) [0..<1024]))
   }"

section \<open>Copying between address spaces\<close>

text \<open>How many bytes to copy at \<open>a\<close> when \<open>left\<close> are left: at most to the end of the page.\<close>

definition chunk :: "u32 \<Rightarrow> u32 \<Rightarrow> u32" where
  "chunk a left =
     (let n = (if PAGE_SZ < left then PAGE_SZ else left) in
      if PAGE_SZ < n + (a AND 0xFFF) then PAGE_SZ - (a AND 0xFFF) else n)"

definition write_bytes :: "u32 \<Rightarrow> u8 list \<Rightarrow> mmu_state \<Rightarrow> mmu_state" where
  "write_bytes a bs m = m\<lparr>mm_byte := (\<lambda>x. if unat (x - a) < length bs then bs ! unat (x - a) else mm_byte m x)\<rparr>"

definition read_bytes :: "mmu_state \<Rightarrow> u32 \<Rightarrow> nat \<Rightarrow> u8 list" where
  "read_bytes m a n = map (\<lambda>i. mm_byte m (a + of_nat i)) [0..<n]"

partial_function (option) copy_loop ::
    "u32 \<Rightarrow> u32 \<Rightarrow> u32 \<Rightarrow> u32 \<Rightarrow> u32 \<Rightarrow> u32 \<Rightarrow> mmu_state \<Rightarrow> (int \<times> mmu_state) option" where
  "copy_loop dmmu dvirt smmu svirt sz off m =
     (if off < sz then
        let src = svirt + off; dest = dvirt + off; to_copy = chunk src (sz - off);
            (sflag, sphys) = mmu_map_get_table m smmu src; (dflag, dphys) = mmu_map_get_table m dmmu dest in
        if sflag < 0 \<or> of_int sflag AND MAP_READ = 0 \<or> dflag < 0 \<or> of_int dflag AND MAP_WRITE = 0 then Some (- EUNSPEC, m)
        else if sphys = dphys then copy_loop dmmu dvirt smmu svirt sz (off + to_copy) m
        else do {
          let sphys = the sphys + (src AND 0xFFF);
          let dphys = the dphys + (src AND 0xFFF);
          sent \<leftarrow> mmu_map_save m sphys;
          dent \<leftarrow> mmu_map_save m dphys;
          (_, m) \<leftarrow> mmu_map sphys sphys 1 MAP_READ m;
          (_, m) \<leftarrow> mmu_map dphys dphys 1 MAP_WRITE m;
          let m = write_bytes dphys (read_bytes m sphys (unat to_copy)) m;
          m \<leftarrow> undo_map sent sphys m;
          m \<leftarrow> undo_map dent dphys m;
          copy_loop dmmu dvirt smmu svirt sz (off + to_copy) m
        }
      else Some (0, m))"

declare copy_loop.simps [code]

definition mmu_copy_data :: "u32 \<Rightarrow> u32 \<Rightarrow> u32 \<Rightarrow> u32 \<Rightarrow> u32 \<Rightarrow> mmu_state \<Rightarrow> (int \<times> mmu_state) option" where
  "mmu_copy_data dmmu dvirt smmu svirt sz m =
     (if dvirt AND PAGE_MASK \<noteq> svirt AND PAGE_MASK then Some (- EINVAL, m)
      else copy_loop dmmu dvirt smmu svirt sz 0 m)"

text \<open>The data written, \<open>buff\<close>, and the data read are lists; \<open>off\<close> is a position in them.\<close>

partial_function (option) write_loop ::
    "u32 \<Rightarrow> u32 \<Rightarrow> u8 list \<Rightarrow> u32 \<Rightarrow> u32 \<Rightarrow> mmu_state \<Rightarrow> (int \<times> mmu_state) option" where
  "write_loop table virt buff sz off m =
     (if off < sz then
        let daddr = virt + off; to_copy = chunk daddr (sz - off);
            (dflag, dphys) = mmu_map_get_table m table daddr in
        if dflag < 0 \<or> of_int dflag AND MAP_WRITE = 0 then Some (- EUNSPEC, m)
        else do {
          let dphys = the dphys + (daddr AND 0xFFF);
          dent \<leftarrow> mmu_map_save m dphys;
          (_, m) \<leftarrow> mmu_map dphys dphys 1 MAP_WRITE m;
          let m = write_bytes dphys (take (unat to_copy) (drop (unat off) buff)) m;
          m \<leftarrow> undo_map dent dphys m;
          write_loop table virt buff sz (off + to_copy) m
        }
      else Some (0, m))"

declare write_loop.simps [code]

definition mmu_write_data :: "u32 \<Rightarrow> u32 \<Rightarrow> u8 list \<Rightarrow> mmu_state \<Rightarrow> (int \<times> mmu_state) option" where
  "mmu_write_data table virt buff m = write_loop table virt buff (of_nat (length buff)) 0 m"

partial_function (option) read_loop ::
    "u32 \<Rightarrow> u32 \<Rightarrow> u8 list \<Rightarrow> u32 \<Rightarrow> u32 \<Rightarrow> mmu_state \<Rightarrow> (int \<times> u8 list \<times> mmu_state) option" where
  "read_loop table virt got sz off m =
     (if off < sz then
        let saddr = virt + off; to_copy = chunk saddr (sz - off);
            (sflag, sphys) = mmu_map_get_table m table saddr in
        if sflag < 0 \<or> of_int sflag AND MAP_READ = 0 then Some (- EUNSPEC, got, m)
        else do {
          let sphys = the sphys + (saddr AND 0xFFF);
          sent \<leftarrow> mmu_map_save m sphys;
          (_, m) \<leftarrow> mmu_map sphys sphys 1 MAP_WRITE m;
          let got = got @ read_bytes m sphys (unat to_copy);
          m \<leftarrow> undo_map sent sphys m;
          read_loop table virt got sz (off + to_copy) m
        }
      else Some (0, got, m))"

declare read_loop.simps [code]

definition mmu_read_data :: "u32 \<Rightarrow> u32 \<Rightarrow> u32 \<Rightarrow> mmu_state \<Rightarrow> (int \<times> u8 list \<times> mmu_state) option" where
  "mmu_read_data table virt sz m = read_loop table virt [] sz 0 m"

text \<open>\<open>mm.c\<close>: the address check and the translation of a process's address.\<close>

definition mm_translate_proc_addr :: "mmu_state \<Rightarrow> u32 \<Rightarrow> u32 \<Rightarrow> u32" where
  "mm_translate_proc_addr m table a =
     (case mmu_map_get_table m table a of (flags, phys) \<Rightarrow> if flags < 0 then 0 else the phys)"

text \<open>The sections of the kernel, as pairs of first address and end.\<close>

definition mm_init_kernel_map :: "u32 \<times> u32 \<Rightarrow> u32 \<times> u32 \<Rightarrow> u32 \<times> u32 \<Rightarrow> u32 \<times> u32 \<Rightarrow> mmu_state \<Rightarrow> (int \<times> mmu_state) option" where
  "mm_init_kernel_map text rodata data bss m = do {
     (_, m) \<leftarrow> mmu_map (fst text) (fst text - KERNEL_OFFSET) (snd text - fst text) (1 OR 4 OR MAP_KERNEL) m;
     (_, m) \<leftarrow> mmu_map (fst rodata) (fst rodata - KERNEL_OFFSET) (snd rodata - fst rodata) (1 OR MAP_KERNEL) m;
     (_, m) \<leftarrow> mmu_map (fst data) (fst data - KERNEL_OFFSET) (snd data - fst data) (1 OR 2 OR MAP_KERNEL) m;
     (_, m) \<leftarrow> mmu_map (fst bss) (fst bss - KERNEL_OFFSET) (snd bss - fst bss) (1 OR 2 OR MAP_KERNEL) m;
     Some (0, m)
   }"

end
