(* ===== verification/Mmu_Sound.thy ===== *)
theory Mmu_Sound
  imports Mmu
begin

text \<open>
  What the page-table operations do to the translation of addresses below \<open>KERNEL_OFFSET\<close>. The
  locale \<open>address_space\<close> states what mapping one page promises; mapping ranges, undoing temporary
  mappings and copying data rest on it. It is interpreted on \<open>pgdir_map_page\<close> and \<open>unmap_page\<close>.
\<close>

section \<open>Pages\<close>

abbreviation page :: "u32 \<Rightarrow> nat" where "page v \<equiv> unat v div 4096"

abbreviation aligned :: "u32 \<Rightarrow> bool" where "aligned d \<equiv> unat d mod 4096 = 0"

abbreviation low :: "u32 \<Rightarrow> bool" where "low v \<equiv> v < KERNEL_OFFSET"

lemma unat_low_bits: "unat (x AND 0xFFF :: u32) = unat x mod 4096"
proof -
  have "unat (x AND 0xFFF) = unat x AND 0xFFF" by (simp add: unsigned_and_eq)
  also have "\<dots> = take_bit 12 (unat x)" by (simp add: take_bit_eq_mask mask_numeral)
  finally show ?thesis by (simp add: take_bit_eq_mod)
qed

lemma page_mask_not: "(PAGE_MASK :: u32) = NOT 0xFFF"
  by (simp add: eq_neg_iff_add_eq_0)

lemma unat_page_mask: "unat (x AND PAGE_MASK) = page x * 4096"
proof -
  have "x AND PAGE_MASK = x AND NOT (x AND 0xFFF)"
    unfolding page_mask_not by (rule bit_word_eqI) (auto simp: bit_simps)
  also have "\<dots> = x - (x AND 0xFFF)"
    by (subst disjunctive_diff) (auto simp: bit_simps)
  finally have "unat (x AND PAGE_MASK) = unat (x - (x AND 0xFFF))" by simp
  also have "\<dots> = unat x - unat (x AND 0xFFF)"
    by (rule unat_sub_u32) (simp add: word_le_nat_alt unat_low_bits)
  finally show ?thesis by (simp add: unat_low_bits minus_mod_eq_div_mult)
qed

lemma page_of_mask [simp]: "page (x AND PAGE_MASK) = page x"
  by (simp add: unat_page_mask)

lemma low_mask [simp]: "x AND PAGE_MASK < KERNEL_OFFSET \<longleftrightarrow> low x"
proof -
  have "page x * 4096 < 3221225472 \<longleftrightarrow> unat x < 3221225472" by auto
  then show ?thesis by (simp add: word_less_nat_alt unat_page_mask)
qed

lemma page_or: "f AND PAGE_MASK = 0 \<Longrightarrow> page (e OR f) = page e"
proof -
  assume f: "f AND PAGE_MASK = 0"
  have "(e OR f) AND PAGE_MASK = (e AND PAGE_MASK) OR (f AND PAGE_MASK)"
    by (rule bit_word_eqI) (auto simp: bit_simps)
  with f have "unat ((e OR f) AND PAGE_MASK) = unat (e AND PAGE_MASK)" by simp
  then show ?thesis by (simp add: unat_page_mask)
qed

lemma or_and_1: "odd f \<Longrightarrow> (t OR f) AND 1 = (1 :: u32)"
  by (subst and_one_eq) (simp add: odd_iff_mod_2_eq_one [symmetric] even_or_iff)

lemma unat_pdindex: "unat (pdindex v) = page v div 1024"
  by (simp add: pdindex_def drop_bit_eq_div unat_div div_mult2_eq)

lemma unat_ptindex: "unat (ptindex v) = page v mod 1024"
proof -
  have "unat (ptindex v) = unat (drop_bit 12 v) AND 0x3FF" by (simp add: ptindex_def unsigned_and_eq)
  also have "\<dots> = take_bit 10 (unat (drop_bit 12 v))" by (simp add: take_bit_eq_mask mask_numeral)
  finally show ?thesis by (simp add: take_bit_eq_mod drop_bit_eq_div unat_div)
qed

lemma page_lt: "page v < 1048576"
  by (rule less_mult_imp_div_less) (rule less_le_trans [OF unat_u32_lt], simp)

lemma aligned_pages: "aligned b \<Longrightarrow> unat b = page b * 4096"
  using div_mult_mod_eq [of "unat b" 4096] by simp

lemma slot_div: "i < 1024 \<Longrightarrow> (k * 4096 + 4 * i) div 4096 = (k :: nat)"
  by simp

lemma slot_lt: "k < 1048576 \<Longrightarrow> i < 1024 \<Longrightarrow> k * 4096 + 4 * i < (4294967296 :: nat)"
  by linarith

text \<open>The place of an entry, as a number: the page of its table and its index there.\<close>

lemma unat_slot:
  assumes "aligned b" "unat i < 1024"
  shows "unat (b + 4 * i :: u32) = page b * 4096 + 4 * unat i"
proof -
  have m: "unat (4 * i) = 4 * unat i"
  proof -
    have "unat (4 * i) = (4 * unat i) mod 4294967296" by (simp add: unat_word_ariths)
    then show ?thesis using assms(2) by simp
  qed
  have s: "unat b + unat (4 * i) = page b * 4096 + 4 * unat i"
    using m aligned_pages [OF assms(1)] by (metis (no_types))
  then have "unat b + unat (4 * i) < 4294967296"
    using slot_lt [OF page_lt [of b] assms(2)] by (rule ord_eq_less_trans)
  then have "unat (b + 4 * i) = unat b + unat (4 * i)" by (rule unat_add_u32_lt)
  with s show ?thesis by (rule trans [rotated])
qed

lemma pdindex_lt: "page v div 1024 < 1024"
  by (rule less_mult_imp_div_less) (rule less_le_trans [OF page_lt], simp)

lemma unat_pde_addr: "aligned d \<Longrightarrow> unat (pde_addr d v) = page d * 4096 + 4 * (page v div 1024)"
  using unat_slot [of d "pdindex v"] pdindex_lt [of v] by (simp add: pde_addr_def unat_pdindex)

lemma unat_pte_addr: "unat (pte_addr e v) = page e * 4096 + 4 * (page v mod 1024)"
  using unat_slot [of "e AND PAGE_MASK" "ptindex v"] by (simp add: pte_addr_def unat_ptindex unat_page_mask)

lemma page_pde_addr: "aligned d \<Longrightarrow> page (pde_addr d v) = page d"
  unfolding unat_pde_addr by (rule slot_div [OF pdindex_lt])

lemma page_pte_addr: "page (pte_addr e v) = page e"
  unfolding unat_pte_addr by (rule slot_div) simp

lemma aligned_eq: "aligned d \<Longrightarrow> aligned d' \<Longrightarrow> page d = page d' \<longleftrightarrow> d = d'"
  using aligned_pages [of d] aligned_pages [of d'] by (metis word_unat_eq_iff)

lemma pde_addr_eq:
  assumes "aligned d" "aligned d'"
  shows "pde_addr d v = pde_addr d' v' \<longleftrightarrow> d = d' \<and> page v div 1024 = page v' div 1024"
proof
  assume eq: "pde_addr d v = pde_addr d' v'"
  then have "d = d'" using page_pde_addr assms aligned_eq by metis
  with arg_cong [OF eq, of unat] assms show "d = d' \<and> page v div 1024 = page v' div 1024" by (simp add: unat_pde_addr)
qed (use assms in \<open>simp add: word_unat_eq_iff unat_pde_addr\<close>)

lemma pte_addr_eq:
  "pte_addr e v = pte_addr e' v' \<longleftrightarrow> page e = page e' \<and> page v mod 1024 = page v' mod 1024"
proof
  assume eq: "pte_addr e v = pte_addr e' v'"
  then have "page e = page e'" using page_pte_addr by metis
  with arg_cong [OF eq, of unat] show "page e = page e' \<and> page v mod 1024 = page v' mod 1024"
    by (simp add: unat_pte_addr)
qed (simp add: word_unat_eq_iff unat_pte_addr)

text \<open>Two addresses are on the same page if both indices agree.\<close>

lemma page_eq: "page v = page v' \<longleftrightarrow> page v div 1024 = page v' div 1024 \<and> page v mod 1024 = page v' mod 1024"
  by (metis div_mult_mod_eq)

lemma in_page: "aligned b \<Longrightarrow> a - b < PAGE_SZ \<longleftrightarrow> page a = page b"
proof -
  assume b: "aligned b"
  note k = aligned_pages [OF b] and pb = page_lt [of b]
  show ?thesis
  proof (cases "b \<le> a")
    case True
    then have "unat (a - b) = unat a - page b * 4096" "page b * 4096 \<le> unat a"
      using k by (simp_all add: unat_sub_u32 word_le_nat_alt)
    then show ?thesis by (auto simp: word_less_nat_alt)
  next
    case False
    then have lt: "unat a < page b * 4096" using k by (simp add: word_le_nat_alt)
    have "unat (a - b) = 4294967296 + unat a - page b * 4096"
      using lt k by (simp add: unat_sub_if')
    moreover have "page b * 4096 \<le> 4294963200" using pb by linarith
    moreover have "page a \<noteq> page b" using lt by auto
    ultimately show ?thesis by (simp add: word_less_nat_alt)
  qed
qed

section \<open>Well-formed directories\<close>

abbreviation pde :: "mmu_state \<Rightarrow> u32 \<Rightarrow> u32 \<Rightarrow> u32" where "pde m d v \<equiv> mm_word m (pde_addr d v)"

definition pres :: "mmu_state \<Rightarrow> u32 \<Rightarrow> u32 \<Rightarrow> bool" where "pres m d v \<longleftrightarrow> pde m d v AND 1 \<noteq> 0"

text \<open>
  \<open>pt_inv D n m\<close>, for a set \<open>D\<close> of directories: directories are page aligned; the tables of the part
  below \<open>KERNEL_OFFSET\<close> lie in pages of their own, no two directory entries share one; the allocator
  has at least \<open>n\<close> more pages to give, and those are fresh.
\<close>

definition pt_inv :: "u32 set \<Rightarrow> nat \<Rightarrow> mmu_state \<Rightarrow> bool" where
  "pt_inv D n m \<longleftrightarrow> (\<forall>d \<in> D. aligned d) \<and>
     (\<forall>d \<in> D. \<forall>d' \<in> D. \<forall>v. low v \<longrightarrow> pres m d v \<longrightarrow> page (pde m d v) \<noteq> page d') \<and>
     (\<forall>d \<in> D. \<forall>d' \<in> D. \<forall>v v'. low v \<longrightarrow> low v' \<longrightarrow> pres m d v \<longrightarrow> pres m d' v' \<longrightarrow> page (pde m d v) = page (pde m d' v') \<longrightarrow>
        d = d' \<and> page v div 1024 = page v' div 1024) \<and>
     n \<le> length (mm_new m) \<and> distinct (map page (mm_new m)) \<and>
     (\<forall>t \<in> set (mm_new m). aligned t) \<and> (\<forall>t \<in> set (mm_new m). \<forall>d \<in> D. page t \<noteq> page d) \<and>
     (\<forall>t \<in> set (mm_new m). \<forall>d \<in> D. \<forall>v. low v \<longrightarrow> pres m d v \<longrightarrow> page (pde m d v) \<noteq> page t)"

lemma pt_invD:
  assumes "pt_inv D n m"
  shows "d \<in> D \<Longrightarrow> aligned d"
    and "d \<in> D \<Longrightarrow> d' \<in> D \<Longrightarrow> low v \<Longrightarrow> pres m d v \<Longrightarrow> page (pde m d v) \<noteq> page d'"
    and "d \<in> D \<Longrightarrow> d' \<in> D \<Longrightarrow> low v \<Longrightarrow> low v' \<Longrightarrow> pres m d v \<Longrightarrow> pres m d' v' \<Longrightarrow> page (pde m d v) = page (pde m d' v') \<Longrightarrow>
      d = d' \<and> page v div 1024 = page v' div 1024"
    and "n \<le> length (mm_new m)" and "distinct (map page (mm_new m))"
    and "t \<in> set (mm_new m) \<Longrightarrow> aligned t" and "t \<in> set (mm_new m) \<Longrightarrow> d \<in> D \<Longrightarrow> page t \<noteq> page d"
    and "t \<in> set (mm_new m) \<Longrightarrow> d \<in> D \<Longrightarrow> low v \<Longrightarrow> pres m d v \<Longrightarrow> page (pde m d v) \<noteq> page t"
  using assms unfolding pt_inv_def by blast+

lemma pt_inv_mono: "pt_inv D n m \<Longrightarrow> k \<le> n \<Longrightarrow> pt_inv D k m"
  unfolding pt_inv_def by (elim conjE, intro conjI) (assumption | erule (1) le_trans [rotated])+

text \<open>The invariant depends on the directory entries, by page and presence, and on the pages to come.\<close>

lemma pt_inv_cong:
  assumes "pt_inv D n m" "mm_new m' = mm_new m"
    and "\<And>d v. d \<in> D \<Longrightarrow> low v \<Longrightarrow> pres m' d v = pres m d v \<and> page (pde m' d v) = page (pde m d v)"
  shows "pt_inv D n m'"
proof -
  have eq: "pres m' d v = pres m d v" "page (pde m' d v) = page (pde m d v)" if "d \<in> D" "low v" for d v
    using assms(3) [OF that] by blast+
  show ?thesis
    unfolding pt_inv_def assms(2)
  proof (intro conjI ballI allI impI)
    fix d d' v v' assume d: "d \<in> D" "d' \<in> D" "low v" "low v'" "pres m' d v" "pres m' d' v'" "page (pde m' d v) = page (pde m' d' v')"
    show "d = d'" "page v div 1024 = page v' div 1024"
      using pt_invD(3) [OF assms(1) d(1-4)] d(5-) eq [OF d(1,3)] eq [OF d(2,4)] by simp_all
  next
    fix d d' v assume d: "d \<in> D" "d' \<in> D" "low v" "pres m' d v"
    show "page (pde m' d v) \<noteq> page d'" using pt_invD(2) [OF assms(1) d(1-3)] d(4) eq [OF d(1,3)] by simp
  next
    fix t d v assume d: "t \<in> set (mm_new m)" "d \<in> D" "low v" "pres m' d v"
    show "page (pde m' d v) \<noteq> page t" using pt_invD(8) [OF assms(1) d(1-3)] d(4) eq [OF d(2,3)] by simp
  qed (fact pt_invD [OF assms(1)])+
qed

abbreviation entry :: "mmu_state \<Rightarrow> u32 \<Rightarrow> u32 \<Rightarrow> u32" where "entry \<equiv> pgdir_get_page_entry"

lemma entry_def: "entry m d v = (if pres m d v then mm_word m (pte_addr (pde m d v) v) else 0)"
  by (simp add: pgdir_get_page_entry_def pres_def Let_def)

lemma pde_same: "page v div 1024 = page v' div 1024 \<Longrightarrow> pde_addr d v = pde_addr d v'"
proof -
  assume "page v div 1024 = page v' div 1024"
  then have "unat (pdindex v) = unat (pdindex v')" by (simp only: unat_pdindex)
  then have "pdindex v = pdindex v'" by (rule word_unat_eq_iff [THEN iffD2])
  then show ?thesis by (simp only: pde_addr_def)
qed

lemma pte_addr_cong: "page e = page e' \<Longrightarrow> pte_addr e v = pte_addr e' v"
  by (simp add: pte_addr_eq)

lemma same_slot:
  "pt_inv D n m \<Longrightarrow> d \<in> D \<Longrightarrow> c \<in> D \<Longrightarrow> pde_addr d v = pde_addr c v' \<longleftrightarrow> d = c \<and> page v div 1024 = page v' div 1024"
  by (rule pde_addr_eq [OF pt_invD(1) pt_invD(1)])

section \<open>Mapping one page\<close>

text \<open>Giving a directory entry a table changes no translation.\<close>

lemma need_table_spec:
  assumes inv: "pt_inv D (Suc n) m" and c: "c \<in> D" "low virt"
  defines "m' \<equiv> need_table (pde_addr c virt) m"
  shows "pt_inv D n m'" "pres m' c virt" "\<And>d v. d \<in> D \<Longrightarrow> low v \<Longrightarrow> entry m' d v = entry m d v"
    "mm_byte m' = mm_byte m" "mm_cr3 m' = mm_cr3 m" "mm_kernel_cr3 m' = mm_kernel_cr3 m"
proof -
  have "pt_inv D n m' \<and> pres m' c virt \<and> (\<forall>d \<in> D. \<forall>v. low v \<longrightarrow> entry m' d v = entry m d v) \<and>
      mm_byte m' = mm_byte m \<and> mm_cr3 m' = mm_cr3 m \<and> mm_kernel_cr3 m' = mm_kernel_cr3 m"
  proof (cases "pres m c virt")
    case True
    then have "m' = m" by (simp add: m'_def need_table_def pres_def)
    then show ?thesis using True pt_inv_mono [OF inv] by simp
  next
    case False
    from inv obtain t ts where new: "mm_new m = t # ts" by (cases "mm_new m") (use pt_invD(4) [OF inv] in auto)
    then have tm: "t \<in> set (mm_new m)" by simp
    note t = pt_invD(6) [OF inv tm] pt_invD(7) [OF inv tm] pt_invD(8) [OF inv tm]
    let ?a = "pde_addr c virt"
    have pt: "page (t OR 3) = page t" by (rule page_or) simp
    have "aligned ((t OR 3) AND PAGE_MASK)" by (simp add: unat_page_mask)
    from in_page [OF this] have ip: "(x - ((t OR 3) AND PAGE_MASK) < PAGE_SZ) = (page x = page t)" for x by (simp add: pt)
    have w: "mm_word m' x = (if page x = page t then 0 else if x = ?a then t OR 3 else mm_word m x)" for x
      using False new
      by (simp add: m'_def need_table_def pres_def kamalloc_page_def wr_def zero_page_def ip or.assoc)
    have rest: "mm_new m' = ts" "mm_byte m' = mm_byte m" "mm_cr3 m' = mm_cr3 m" "mm_kernel_cr3 m' = mm_kernel_cr3 m"
      using False new by (simp_all add: m'_def need_table_def pres_def kamalloc_page_def wr_def zero_page_def)
    have pde': "pde m' d v = (if d = c \<and> page v div 1024 = page virt div 1024 then t OR 3 else pde m d v)" if "d \<in> D" for d v
    proof -
      have "page (pde_addr d v) \<noteq> page t" using t(2) [OF that] page_pde_addr [OF pt_invD(1) [OF inv that], of v] by simp
      then show ?thesis using same_slot [OF inv that c(1), of v virt] by (simp add: w)
    qed
    have pres': "pres m' d v = (d = c \<and> page v div 1024 = page virt div 1024 \<or> pres m d v)" if "d \<in> D" for d v
    proof -
      have "(t OR 3) AND 1 = 1" by (rule or_and_1) simp
      then show ?thesis using pde' [OF that, of v] by (cases "d = c \<and> page v div 1024 = page virt div 1024") (simp_all add: pres_def, blast)
    qed
    have absent: "\<not> pres m c v" if "page v div 1024 = page virt div 1024" for v
      using False pde_same [OF that, of c] by (simp add: pres_def)
    have e: "entry m' d v = entry m d v" if "d \<in> D" "low v" for d v
    proof (cases "d = c \<and> page v div 1024 = page virt div 1024")
      case True
      then have "entry m d v = 0" using absent by (simp add: entry_def)
      moreover have "pde m' d v = t OR 3" using pde' [OF that(1)] True by simp
      then have "mm_word m' (pte_addr (pde m' d v) v) = 0" using page_pte_addr [of "t OR 3" v] pt by (simp add: w)
      ultimately show ?thesis by (simp add: entry_def)
    next
      case other: False
      show ?thesis
      proof (cases "pres m d v")
        case True
        have "page (pte_addr (pde m d v) v) \<noteq> page t" using t(3) [OF that True] page_pte_addr by simp
        moreover have "pte_addr (pde m d v) v \<noteq> ?a"
          using pt_invD(2) [OF inv that(1) c(1) that(2) True] page_pte_addr page_pde_addr [OF pt_invD(1) [OF inv c(1)]] by metis
        ultimately show ?thesis using pde' [OF that(1), of v] pres' [OF that(1), of v] other True by (simp add: entry_def w)
      qed (use pres' [OF that(1), of v] other in \<open>simp add: entry_def\<close>)
    qed
    have "pt_inv D n m'"
      unfolding pt_inv_def rest(1)
    proof (intro conjI ballI allI impI)
      fix d d' v assume d: "d \<in> D" "d' \<in> D" "low v" "pres m' d v"
      show "page (pde m' d v) \<noteq> page d'"
        using pde' [OF d(1), of v] pres' [OF d(1), of v] d(4) pt t(2) [OF d(2)] pt_invD(2) [OF inv d(1-3)] by (simp split: if_splits)
    next
      fix d d' v v' assume d: "d \<in> D" "d' \<in> D" "low v" "low v'" "pres m' d v" "pres m' d' v'" "page (pde m' d v) = page (pde m' d' v')"
      have "d = d' \<and> page v div 1024 = page v' div 1024"
        using pde' [OF d(1), of v] pres' [OF d(1), of v] pde' [OF d(2), of v'] pres' [OF d(2), of v'] d(5-) pt
          t(3) [OF d(1) d(3)] t(3) [OF d(2) d(4)] pt_invD(3) [OF inv d(1-4)]
        by metis
      then show "d = d'" "page v div 1024 = page v' div 1024" by blast+
    next
      fix u d v assume u: "u \<in> set ts" and d: "d \<in> D" "low v" "pres m' d v"
      have "page t \<notin> page ` set ts" using pt_invD(5) [OF inv] by (simp add: new)
      then have "page u \<noteq> page t" using u by (metis imageI)
      moreover have "pres m d v \<Longrightarrow> page (pde m d v) \<noteq> page u" by (rule pt_invD(8) [OF inv _ d(1,2)]) (simp add: new u)
      ultimately show "page (pde m' d v) \<noteq> page u"
        using pde' [OF d(1), of v] pres' [OF d(1), of v] d(3) pt by metis
    next
      show "n \<le> length ts" using pt_invD(4) [OF inv] new by simp
      show "distinct (map page ts)" using pt_invD(5) [OF inv] new by simp
    next
      fix u assume "u \<in> set ts"
      then have u: "u \<in> set (mm_new m)" by (simp add: new)
      show "aligned u" by (rule pt_invD(6) [OF inv u])
      fix d assume "d \<in> D"
      then show "page u \<noteq> page d" by (rule pt_invD(7) [OF inv u])
    qed (fact pt_invD(1) [OF inv])
    then show ?thesis using pres' [OF c(1), of virt] e rest by simp
  qed
  then show "pt_inv D n m'" "pres m' c virt" "\<And>d v. d \<in> D \<Longrightarrow> low v \<Longrightarrow> entry m' d v = entry m d v"
    "mm_byte m' = mm_byte m" "mm_cr3 m' = mm_cr3 m" "mm_kernel_cr3 m' = mm_kernel_cr3 m" by blast+
qed

text \<open>Writing an entry of a table changes the translation of one page in one directory.\<close>

lemma write_pte:
  fixes x :: u32
  assumes inv: "pt_inv D n m" and c: "c \<in> D" "low virt" "pres m c virt"
  defines "m' \<equiv> wr (pte_addr (pde m c virt) virt) x m"
  shows "pt_inv D n m'"
    and "\<And>d v. d \<in> D \<Longrightarrow> low v \<Longrightarrow> entry m' d v = (if d = c \<and> page v = page virt then x else entry m d v)"
    and "\<And>d v. d \<in> D \<Longrightarrow> pde m' d v = pde m d v"
proof -
  let ?a = "pte_addr (pde m c virt) virt"
  show same: "pde m' d v = pde m d v" if "d \<in> D" for d v
  proof -
    have "page ?a \<noteq> page (pde_addr d v)"
      using pt_invD(2) [OF inv c(1) that c(2,3)] page_pte_addr page_pde_addr [OF pt_invD(1) [OF inv that]] by metis
    then have "pde_addr d v \<noteq> ?a" by metis
    then show ?thesis by (simp add: m'_def wr_def)
  qed
  show "pt_inv D n m'"
    by (rule pt_inv_cong [OF inv]) (simp_all add: same pres_def, simp add: m'_def wr_def)
  fix d v assume d: "d \<in> D" "low v"
  have "pres m d v \<Longrightarrow> pte_addr (pde m d v) v = ?a \<longleftrightarrow> d = c \<and> page v = page virt"
    unfolding pte_addr_eq page_eq [of v] using pt_invD(3) [OF inv d(1) c(1) d(2) c(2) _ c(3)] pde_same by metis
  moreover have "page v = page virt \<Longrightarrow> pde m c v = pde m c virt" using pde_same [of v virt c] by simp
  ultimately show "entry m' d v = (if d = c \<and> page v = page virt then x else entry m d v)"
    unfolding entry_def pres_def same [OF d(1)] using c(3) by (auto simp: m'_def wr_def pres_def)
qed

text \<open>Writing a directory entry that names the same table changes nothing.\<close>

lemma write_pde:
  fixes x :: u32
  assumes inv: "pt_inv D n m" and c: "c \<in> D" and x: "page x = page (pde m c virt)" "x AND 1 = pde m c virt AND 1"
  defines "m' \<equiv> wr (pde_addr c virt) x m"
  shows "pt_inv D n m'" and "\<And>d v. d \<in> D \<Longrightarrow> low v \<Longrightarrow> entry m' d v = entry m d v"
    and "pres m' c virt = pres m c virt"
proof -
  have pde': "pde m' d v = (if d = c \<and> page v div 1024 = page virt div 1024 then x else pde m d v)" if "d \<in> D" for d v
    using same_slot [OF inv that c, of v virt] by (simp add: m'_def wr_def)
  have page': "page (pde m' d v) = page (pde m d v)" and pres': "pres m' d v = pres m d v" if "d \<in> D" for d v
    using pde' [OF that, of v] x pde_same [of v virt d] by (auto simp: pres_def)
  show "pt_inv D n m'" by (rule pt_inv_cong [OF inv]) (simp_all add: page' pres', simp add: m'_def wr_def)
  show "pres m' c virt = pres m c virt" by (rule pres' [OF c])
  fix d v assume d: "d \<in> D" "low v"
  have "pres m d v \<Longrightarrow> pte_addr (pde m d v) v \<noteq> pde_addr c virt"
    using pt_invD(2) [OF inv d(1) c d(2)] page_pte_addr page_pde_addr [OF pt_invD(1) [OF inv c]] by metis
  then show "entry m' d v = entry m d v"
    unfolding entry_def pres' [OF d(1)] using pte_addr_cong [OF page' [OF d(1)], of v v] by (simp add: m'_def wr_def)
qed

lemma wr_simps [simp]:
  "mm_byte (wr a x m) = mm_byte m" "mm_cr3 (wr a x m) = mm_cr3 m" "mm_kernel_cr3 (wr a x m) = mm_kernel_cr3 m"
  by (simp_all add: wr_def)

text \<open>The state a mapping leaves alone.\<close>

definition same_regs :: "mmu_state \<Rightarrow> mmu_state \<Rightarrow> bool" where
  "same_regs m m' \<longleftrightarrow> mm_byte m' = mm_byte m \<and> mm_cr3 m' = mm_cr3 m \<and> mm_kernel_cr3 m' = mm_kernel_cr3 m"

definition pte_of :: "u32 \<Rightarrow> u32 \<Rightarrow> u32" where
  "pte_of phys flags = (phys AND PAGE_MASK) OR (flags AND 0xFFF) OR 1"

lemma pgdir_map_page_spec:
  fixes phys flags :: u32
  assumes inv: "pt_inv D (Suc n) m" and c: "c \<in> D" "low virt"
  defines "m' \<equiv> pgdir_map_page c phys virt flags m"
  shows "pt_inv D n m'" and "same_regs m m'"
    and "\<And>d v. d \<in> D \<Longrightarrow> low v \<Longrightarrow> entry m' d v = (if d = c \<and> page v = page virt then pte_of phys flags else entry m d v)"
proof -
  let ?w = "virt AND PAGE_MASK"
  let ?a = "pde_addr c ?w"
  let ?m1 = "need_table ?a m"
  let ?x = "mm_word ?m1 ?a OR (flags AND 4)"
  let ?m2 = "wr ?a ?x ?m1"
  have low: "low ?w" using c(2) by simp
  note nt = need_table_spec [OF inv c(1) low]
  have x: "page ?x = page (mm_word ?m1 ?a)" "?x AND 1 = mm_word ?m1 ?a AND 1"
    by (rule page_or, simp add: and.assoc) (simp add: bit.conj_disj_distrib2 and.assoc)
  note wp = write_pde [OF nt(1) c(1) x]
  have p: "pres ?m2 c ?w" using wp(3) nt(2) by simp
  note wt = write_pte [OF wp(1) c(1) low p, where x = "pte_of phys flags"]
  have m': "m' = wr (pte_addr (mm_word ?m2 ?a) ?w) (pte_of phys flags) ?m2"
    using low by (simp add: m'_def pgdir_map_page_def Let_def pte_of_def linorder_not_le [symmetric])
  show "pt_inv D n m'" unfolding m' by (rule wt(1))
  show "same_regs m m'" unfolding m' same_regs_def by (simp add: nt(4-6))
  fix d v assume d: "d \<in> D" "low v"
  show "entry m' d v = (if d = c \<and> page v = page virt then pte_of phys flags else entry m d v)"
    unfolding m' using wt(2) [OF d] wp(2) [OF d] nt(3) [OF d] by simp
qed

lemma unmap_page_spec:
  assumes inv: "pt_inv D n m" and c: "c \<in> D" "low virt"
  defines "m' \<equiv> unmap_page c virt m"
  shows "pt_inv D n m'" and "same_regs m m'"
    and "\<And>d v. d \<in> D \<Longrightarrow> low v \<Longrightarrow> entry m' d v = (if d = c \<and> page v = page virt then 0 else entry m d v)"
proof -
  have m': "m' = (if pres m c virt then wr (pte_addr (pde m c virt) virt) 0 m else m)"
    by (simp add: m'_def unmap_page_def Let_def pres_def)
  note wt = write_pte [OF inv c, where x = 0]
  show "pt_inv D n m'" "same_regs m m'" using inv wt(1) by (simp_all add: m' same_regs_def)
  fix d v assume d: "d \<in> D" "low v"
  have "entry m c v = 0" if "page v = page virt" "\<not> pres m c virt"
    using that pde_same [of v virt c] by (simp add: entry_def pres_def)
  then show "entry m' d v = (if d = c \<and> page v = page virt then 0 else entry m d v)"
    using wt(2) [OF _ d] by (auto simp: m')
qed

section \<open>The interface of an address space\<close>

text \<open>
  What the rest of the kernel relies on: \<open>map1\<close> and \<open>unmap1\<close> change the entry of one page of one
  directory and nothing else, as long as the allocator has pages for the tables (\<open>ok\<close>).
\<close>

locale address_space =
  fixes D :: "u32 set"
    and ok :: "nat \<Rightarrow> 's \<Rightarrow> bool"
    and look :: "'s \<Rightarrow> u32 \<Rightarrow> u32 \<Rightarrow> u32"
    and same :: "'s \<Rightarrow> 's \<Rightarrow> bool"
    and map1 :: "u32 \<Rightarrow> u32 \<Rightarrow> u32 \<Rightarrow> u32 \<Rightarrow> 's \<Rightarrow> 's"
    and unmap1 :: "u32 \<Rightarrow> u32 \<Rightarrow> 's \<Rightarrow> 's"
  assumes map1_ok: "ok (Suc n) s \<Longrightarrow> c \<in> D \<Longrightarrow> low v \<Longrightarrow> ok n (map1 c p v f s)"
    and map1_same: "ok (Suc n) s \<Longrightarrow> c \<in> D \<Longrightarrow> low v \<Longrightarrow> same s (map1 c p v f s)"
    and map1_look: "ok (Suc n) s \<Longrightarrow> c \<in> D \<Longrightarrow> low v \<Longrightarrow> d \<in> D \<Longrightarrow> low w \<Longrightarrow>
      look (map1 c p v f s) d w = (if d = c \<and> page w = page v then pte_of p f else look s d w)"
    and unmap1_ok: "ok n s \<Longrightarrow> c \<in> D \<Longrightarrow> low v \<Longrightarrow> ok n (unmap1 c v s)"
    and unmap1_same: "ok n s \<Longrightarrow> c \<in> D \<Longrightarrow> low v \<Longrightarrow> same s (unmap1 c v s)"
    and unmap1_look: "ok n s \<Longrightarrow> c \<in> D \<Longrightarrow> low v \<Longrightarrow> d \<in> D \<Longrightarrow> low w \<Longrightarrow>
      look (unmap1 c v s) d w = (if d = c \<and> page w = page v then 0 else look s d w)"
    and same_refl: "same s s"
    and same_trans: "same s t \<Longrightarrow> same t u \<Longrightarrow> same s u"
begin

definition map_pages :: "u32 \<Rightarrow> u32 \<Rightarrow> (u32 \<times> u32) list \<Rightarrow> 's \<Rightarrow> 's" where
  "map_pages c f = fold (\<lambda>(p, v). map1 c p v f)"

definition unmap_pages :: "u32 \<Rightarrow> u32 list \<Rightarrow> 's \<Rightarrow> 's" where
  "unmap_pages c = fold (unmap1 c)"

lemma map_pages_spec:
  assumes "ok (n + length xs) s" "c \<in> D" "\<forall>x \<in> set xs. low (snd x)"
  shows "ok n (map_pages c f xs s)" and "same s (map_pages c f xs s)"
    and "\<And>d w. d \<in> D \<Longrightarrow> low w \<Longrightarrow> d \<noteq> c \<or> page w \<notin> page ` snd ` set xs \<Longrightarrow> look (map_pages c f xs s) d w = look s d w"
    and "\<And>p v w. (p, v) \<in> set xs \<Longrightarrow> low w \<Longrightarrow> page w = page v \<Longrightarrow> distinct (map (page \<circ> snd) xs) \<Longrightarrow>
      look (map_pages c f xs s) c w = pte_of p f"
proof -
  have "ok n (map_pages c f xs s) \<and> same s (map_pages c f xs s) \<and>
    (\<forall>d \<in> D. \<forall>w. low w \<longrightarrow> d \<noteq> c \<or> page w \<notin> page ` snd ` set xs \<longrightarrow> look (map_pages c f xs s) d w = look s d w) \<and>
    (\<forall>p v w. (p, v) \<in> set xs \<longrightarrow> low w \<longrightarrow> page w = page v \<longrightarrow> distinct (map (page \<circ> snd) xs) \<longrightarrow>
      look (map_pages c f xs s) c w = pte_of p f)"
    using assms
  proof (induction xs arbitrary: s)
    case Nil
    then show ?case by (simp add: map_pages_def same_refl)
  next
    case (Cons x xs)
    obtain p v where x: "x = (p, v)" by fastforce
    let ?s = "map1 c p v f s"
    have v: "low v" using Cons.prems(3) by (simp add: x)
    have lows: "\<forall>x \<in> set xs. low (snd x)" using Cons.prems(3) by simp
    have ok: "ok (Suc (n + length xs)) s" using Cons.prems(1) by simp
    have eq: "map_pages c f (x # xs) s = map_pages c f xs ?s" by (simp add: map_pages_def x)
    have IH: "ok n (map_pages c f xs ?s)" "same ?s (map_pages c f xs ?s)"
      "\<And>d w. d \<in> D \<Longrightarrow> low w \<Longrightarrow> d \<noteq> c \<or> page w \<notin> page ` snd ` set xs \<Longrightarrow> look (map_pages c f xs ?s) d w = look ?s d w"
      "\<And>p v w. (p, v) \<in> set xs \<Longrightarrow> low w \<Longrightarrow> page w = page v \<Longrightarrow> distinct (map (page \<circ> snd) xs) \<Longrightarrow>
        look (map_pages c f xs ?s) c w = pte_of p f"
      using Cons.IH [OF map1_ok [OF ok Cons.prems(2) v, where p = p and f = f] Cons.prems(2) lows] by blast+
    show ?case
      unfolding eq
    proof (intro conjI allI ballI impI)
      show "ok n (map_pages c f xs ?s)" by (rule IH(1))
      show "same s (map_pages c f xs ?s)" by (rule same_trans [OF map1_same [OF ok Cons.prems(2) v] IH(2)])
      fix d w assume d: "d \<in> D" "low w" "d \<noteq> c \<or> page w \<notin> page ` snd ` set (x # xs)"
      then show "look (map_pages c f xs ?s) d w = look s d w"
        using IH(3) [OF d(1,2)] map1_look [OF ok Cons.prems(2) v d(1,2)] by (auto simp: x)
    next
      fix p' v' w assume a: "(p', v') \<in> set (x # xs)" "low w" "page w = page v'" "distinct (map (page \<circ> snd) (x # xs))"
      show "look (map_pages c f xs ?s) c w = pte_of p' f"
      proof (cases "(p', v') \<in> set xs")
        case True
        then show ?thesis using IH(4) [OF True a(2,3)] a(4) by simp
      next
        case False
        then have pv: "p' = p" "v' = v" using a(1) x by auto
        have "page w \<notin> page ` snd ` set xs" using a(3,4) by (simp add: x pv image_comp)
        then show ?thesis
          using IH(3) [OF Cons.prems(2) a(2)] map1_look [OF ok Cons.prems(2) v Cons.prems(2) a(2), of p f] a(3) by (simp add: pv)
      qed
    qed
  qed
  then show "ok n (map_pages c f xs s)" "same s (map_pages c f xs s)"
    "\<And>d w. d \<in> D \<Longrightarrow> low w \<Longrightarrow> d \<noteq> c \<or> page w \<notin> page ` snd ` set xs \<Longrightarrow> look (map_pages c f xs s) d w = look s d w"
    "\<And>p v w. (p, v) \<in> set xs \<Longrightarrow> low w \<Longrightarrow> page w = page v \<Longrightarrow> distinct (map (page \<circ> snd) xs) \<Longrightarrow>
      look (map_pages c f xs s) c w = pte_of p f"
    by blast+
qed

lemma unmap_pages_spec:
  assumes "ok n s" "c \<in> D" "\<forall>v \<in> set xs. low v"
  shows "ok n (unmap_pages c xs s) \<and> same s (unmap_pages c xs s) \<and> (\<forall>d \<in> D. \<forall>w. low w \<longrightarrow>
    look (unmap_pages c xs s) d w = (if d = c \<and> page w \<in> page ` set xs then 0 else look s d w))"
  using assms
proof (induction xs arbitrary: s)
  case Nil
  then show ?case by (simp add: unmap_pages_def same_refl)
next
  case (Cons v xs)
  have v: "low v" using Cons.prems(3) by simp
  have eq: "unmap_pages c (v # xs) s = unmap_pages c xs (unmap1 c v s)" by (simp add: unmap_pages_def)
  have IH: "ok n (unmap_pages c xs (unmap1 c v s)) \<and> same (unmap1 c v s) (unmap_pages c xs (unmap1 c v s)) \<and>
      (\<forall>d \<in> D. \<forall>w. low w \<longrightarrow> look (unmap_pages c xs (unmap1 c v s)) d w =
        (if d = c \<and> page w \<in> page ` set xs then 0 else look (unmap1 c v s) d w))"
    by (rule Cons.IH [OF unmap1_ok [OF Cons.prems(1,2) v] Cons.prems(2)]) (simp add: Cons.prems(3))
  then have "same s (unmap_pages c xs (unmap1 c v s))"
    by (blast intro: same_trans unmap1_same [OF Cons.prems(1,2) v])
  moreover have "look (unmap_pages c (v # xs) s) d w = (if d = c \<and> page w \<in> page ` set (v # xs) then 0 else look s d w)"
    if "d \<in> D" "low w" for d w
    unfolding eq using IH that unmap1_look [OF Cons.prems(1,2) v that] by auto
  ultimately show ?case using IH eq by simp
qed

end

interpretation pt: address_space D "pt_inv D" entry same_regs pgdir_map_page unmap_page for D
proof
  fix n m c v p f d w
  assume a: "pt_inv D (Suc n) m" "c \<in> D" "low v"
  show "pt_inv D n (pgdir_map_page c p v f m)" "same_regs m (pgdir_map_page c p v f m)"
    by (rule pgdir_map_page_spec [OF a])+
  assume "d \<in> D" "low w"
  then show "entry (pgdir_map_page c p v f m) d w = (if d = c \<and> page w = page v then pte_of p f else entry m d w)"
    by (rule pgdir_map_page_spec(3) [OF a])
next
  fix n m c v d w
  assume a: "pt_inv D n m" "c \<in> D" "low v"
  show "pt_inv D n (unmap_page c v m)" "same_regs m (unmap_page c v m)" by (rule unmap_page_spec [OF a])+
  assume "d \<in> D" "low w"
  then show "entry (unmap_page c v m) d w = (if d = c \<and> page w = page v then 0 else entry m d w)"
    by (rule unmap_page_spec(3) [OF a])
qed (auto simp: same_regs_def)

section \<open>Mapping and unmapping ranges\<close>

text \<open>The number of pages that \<open>sz\<close> bytes from the start of a page take.\<close>

definition pages :: "u32 \<Rightarrow> nat" where "pages sz = (unat sz + 4095) div 4096"

lemma pages_gt: "i < pages sz \<longleftrightarrow> 4096 * i < unat sz"
  unfolding pages_def by linarith

abbreviation nth_page :: "u32 \<Rightarrow> nat \<Rightarrow> u32" where "nth_page b j \<equiv> b + of_nat (4096 * j)"

text \<open>The offset of a loop over pages does not wrap when the last page of the address space is left out.\<close>

lemma next_off:
  assumes "unat sz \<le> 4294963200" "i < pages sz"
  shows "of_nat (4096 * i) < sz" "of_nat (4096 * i) + PAGE_SZ = (of_nat (4096 * Suc i) :: u32)"
proof -
  have "4096 * i < unat sz" using assms(2) by (simp add: pages_gt)
  then have "unat (of_nat (4096 * i) :: u32) = 4096 * i" using unat_u32_lt [of sz] by (intro unat_of_nat_u32) linarith
  then show "of_nat (4096 * i) < sz" using \<open>4096 * i < unat sz\<close> by (simp add: word_less_nat_alt)
qed (simp add: algebra_simps)

lemma last_off:
  assumes "unat sz \<le> 4294963200"
  shows "\<not> of_nat (4096 * pages sz) < sz"
proof -
  have p: "unat sz \<le> 4096 * pages sz" "4096 * pages sz \<le> unat sz + 4095" unfolding pages_def by linarith+
  then have "unat (of_nat (4096 * pages sz) :: u32) = 4096 * pages sz" using assms by (intro unat_of_nat_u32) linarith
  with p show ?thesis by (simp add: word_less_nat_alt)
qed

lemma map_table_loop_eq:
  assumes "unat sz \<le> 4294963200" "i \<le> pages sz"
  shows "map_table_loop c virt phys sz f (of_nat (4096 * i)) m =
    Some (pt.map_pages c f (map (\<lambda>j. (nth_page phys j, nth_page virt j)) [i..<pages sz]) m)"
  using assms(2)
proof (induction "pages sz - i" arbitrary: i m)
  case 0
  then have "i = pages sz" by simp
  then show ?case using last_off [OF assms(1)] by (subst map_table_loop.simps) (simp add: pt.map_pages_def)
next
  case (Suc k)
  then have i: "i < pages sz" by simp
  note nx = next_off [OF assms(1) i]
  have "map_table_loop c virt phys sz f (of_nat (4096 * i)) m =
      map_table_loop c virt phys sz f (of_nat (4096 * Suc i)) (pgdir_map_page c (nth_page phys i) (nth_page virt i) f m)"
    by (subst map_table_loop.simps) (simp only: nx if_True)
  also have "\<dots> = Some (pt.map_pages c f (map (\<lambda>j. (nth_page phys j, nth_page virt j)) [Suc i..<pages sz])
      (pgdir_map_page c (nth_page phys i) (nth_page virt i) f m))"
    by (rule Suc.hyps(1)) (use Suc i in auto)
  finally show ?case using i by (simp add: upt_conv_Cons pt.map_pages_def)
qed

lemma unmap_table_loop_eq:
  assumes "unat sz \<le> 4294963200" "i \<le> pages sz"
  shows "unmap_table_loop c virt sz (of_nat (4096 * i)) m =
    Some (pt.unmap_pages c (map (nth_page virt) [i..<pages sz]) m)"
  using assms(2)
proof (induction "pages sz - i" arbitrary: i m)
  case 0
  then have "i = pages sz" by simp
  then show ?case using last_off [OF assms(1)] by (subst unmap_table_loop.simps) (simp add: pt.unmap_pages_def)
next
  case (Suc k)
  then have i: "i < pages sz" by simp
  note nx = next_off [OF assms(1) i]
  have "unmap_table_loop c virt sz (of_nat (4096 * i)) m =
      unmap_table_loop c virt sz (of_nat (4096 * Suc i)) (unmap_page c (nth_page virt i) m)"
    by (subst unmap_table_loop.simps) (simp only: nx if_True)
  also have "\<dots> = Some (pt.unmap_pages c (map (nth_page virt) [Suc i..<pages sz]) (unmap_page c (nth_page virt i) m))"
    by (rule Suc.hyps(1)) (use Suc i in auto)
  finally show ?case using i by (simp add: upt_conv_Cons pt.unmap_pages_def)
qed

text \<open>The pages of a range that ends below \<open>KERNEL_OFFSET\<close>.\<close>

lemma range_page:
  assumes "page virt + pages sz \<le> 786432" "j < pages sz"
  shows "page (nth_page virt j) = page virt + j" "low (nth_page virt j)"
    "unat (nth_page virt j) = unat virt + 4096 * j"
proof -
  have a: "page virt + j < 786432" using assms by linarith
  have u: "unat (of_nat (4096 * j) :: u32) = 4096 * j" using a by (intro unat_of_nat_u32) linarith
  have "unat virt + 4096 * j < 3221225472"
    using a div_mult_mod_eq [of "unat virt" 4096] mod_less_divisor [of 4096 "unat virt"] by linarith
  with u show n: "unat (nth_page virt j) = unat virt + 4096 * j" by (subst unat_add_u32_lt) simp_all
  show "page (nth_page virt j) = page virt + j" unfolding n by simp
  show "low (nth_page virt j)" using \<open>unat virt + 4096 * j < 3221225472\<close> n by (simp add: word_less_nat_alt)
qed

text \<open>The flags a lookup reports for a page mapped with \<open>flags\<close>.\<close>

definition seen_flags :: "u32 \<Rightarrow> u32" where
  "seen_flags flags = MAP_READ OR (if flags AND MAP_WRITE \<noteq> 0 then MAP_WRITE else 0) OR (if flags AND MAP_KERNEL \<noteq> 0 then MAP_KERNEL else 0)"

lemma map_get_entry: "entry m d v = entry m' d' v' \<Longrightarrow> mmu_map_get_table m d v = mmu_map_get_table m' d' v'"
  by (simp add: mmu_map_get_table_def)

lemma map_get_pte_of:
  assumes "entry m d v = pte_of p (page_flags_of f)"
  shows "mmu_map_get_table m d v = (uint (seen_flags f), Some (p AND PAGE_MASK))"
proof -
  have odd: "pte_of p k AND 1 = 1" for k
    unfolding pte_of_def or.assoc [symmetric] by (rule or_and_1) simp
  show ?thesis
    unfolding mmu_map_get_table_def Let_def assms odd
    by (simp add: pte_of_def page_flags_of_def seen_flags_def bit.conj_disj_distrib2 and.assoc)
qed

lemma aligned_mask: "aligned x \<Longrightarrow> x AND PAGE_MASK = x"
  using aligned_pages [of x] unat_page_mask [of x] by (metis word_unat_eq_iff)

lemma aligned_nth: "aligned b \<Longrightarrow> aligned (nth_page b j)"
proof -
  assume b: "aligned b"
  have "unat (nth_page b j) mod 4096 = (unat b + unat (of_nat (4096 * j) :: u32)) mod 4096"
    unfolding unat_add_u32 by (rule mod_mod_cancel) simp
  also have "unat (of_nat (4096 * j) :: u32) = 4096 * j mod 4294967296" unfolding unat_of_nat take_bit_eq_mod by simp
  also have "(unat b + 4096 * j mod 4294967296) mod 4096 = (unat b mod 4096 + (4096 * j mod 4294967296) mod 4096) mod 4096" by presburger
  also have "(4096 * j mod 4294967296) mod 4096 = (4096 * j) mod 4096" by (rule mod_mod_cancel) simp
  finally show ?thesis using b by simp
qed

lemma aligned_of_mask: "aligned (x AND PAGE_MASK)"
  by (simp add: unat_page_mask)

lemma map_table_spec:
  assumes "pt_inv D (n + pages sz) m" "c \<in> D" "page virt + pages sz \<le> 786432" "unat sz \<le> 4294963200"
  shows "\<exists>m'. mmu_map_table c virt phys sz flags m = Some (0, m') \<and> pt_inv D n m' \<and> same_regs m m' \<and>
    (\<forall>d \<in> D. \<forall>v. low v \<longrightarrow> mmu_map_get_table m' d v =
      (if d = c \<and> page virt \<le> page v \<and> page v < page virt + pages sz
       then (uint (seen_flags flags), Some ((phys AND PAGE_MASK) + of_nat (4096 * (page v - page virt))))
       else mmu_map_get_table m d v))"
proof -
  let ?v = "virt AND PAGE_MASK" and ?p = "phys AND PAGE_MASK" and ?f = "page_flags_of flags"
  let ?xs = "map (\<lambda>j. (nth_page ?p j, nth_page ?v j)) [0..<pages sz]"
  let ?m = "pt.map_pages c ?f ?xs m"
  have pg: "page (nth_page ?v j) = page virt + j" "low (nth_page ?v j)" if "j < pages sz" for j
    using range_page [of ?v sz j] that assms(3) by simp_all
  have run: "mmu_map_table c virt phys sz flags m = Some (0, ?m)"
    using map_table_loop_eq [OF assms(4), of 0 c ?v ?p ?f m] by (simp add: mmu_map_table_def)
  have "\<forall>x \<in> set ?xs. low (snd x)" using pg(2) by auto
  then have spec: "pt_inv D (n + length ?xs) m" "c \<in> D" "\<forall>x \<in> set ?xs. low (snd x)" using assms(1,2) by simp_all
  note spec = pt.map_pages_spec [OF spec, where f = ?f]
  have img: "page ` snd ` set ?xs = {k. page virt \<le> k \<and> k < page virt + pages sz}"
    unfolding set_map image_comp using pg(1) by (force simp: image_def le_iff_add)
  have dist: "distinct (map (page \<circ> snd) ?xs)" using pg(1) by (auto simp: distinct_map inj_on_def)
  have "mmu_map_get_table ?m d v =
      (if d = c \<and> page virt \<le> page v \<and> page v < page virt + pages sz
       then (uint (seen_flags flags), Some (nth_page ?p (page v - page virt))) else mmu_map_get_table m d v)"
    if d: "d \<in> D" "low v" for d v
  proof (cases "d = c \<and> page virt \<le> page v \<and> page v < page virt + pages sz")
    case True
    let ?j = "page v - page virt"
    have j: "?j < pages sz" using True by auto
    have pv: "page v = page (nth_page ?v ?j)" unfolding pg(1) [OF j] using True by simp
    have "(nth_page ?p ?j, nth_page ?v ?j) \<in> set ?xs" using j unfolding set_map by (intro imageI) simp
    from map_get_pte_of [OF spec(4) [OF this d(2) pv dist]] show ?thesis
      unfolding aligned_mask [OF aligned_nth [OF aligned_of_mask]] using True by (simp only: if_True simp_thms)
  next
    case False
    then show ?thesis using spec(3) [OF d] img by (auto intro: map_get_entry)
  qed
  then show ?thesis using run spec(1,2) by blast
qed

text \<open>
  C6 (mapping a range of user memory). For a range whose pages are below \<open>KERNEL_OFFSET\<close>, \<open>mmu_map_table\<close> returns 0, and
  afterwards a lookup of an address below \<open>KERNEL_OFFSET\<close> in its directory finds the page of \<open>phys\<close> at the same distance,
  with the requested rights, for the pages from that of \<open>virt\<close> on, as many as the size has, and what it found before at every other such
  address and in every other directory. (Above \<open>KERNEL_OFFSET\<close> the code maps in the kernel's directory as well, and nothing is stated.
  The number of pages is counted from the size alone: a range that starts within a page and reaches into one page more leaves that last
  page as it was.)
\<close>

theorem mmu_map_table_maps:
  assumes "pt_inv D (n + pages sz) m" "c \<in> D" "page virt + pages sz \<le> 786432" "unat sz \<le> 4294963200"
  shows "\<exists>m'. mmu_map_table c virt phys sz flags m = Some (0, m') \<and> pt_inv D n m' \<and> same_regs m m' \<and>
    (\<forall>d \<in> D. \<forall>v. low v \<longrightarrow> mmu_map_get_table m' d v =
      (if d = c \<and> page virt \<le> page v \<and> page v < page virt + pages sz
       then (uint (seen_flags flags), Some ((phys AND PAGE_MASK) + of_nat (4096 * (page v - page virt))))
       else mmu_map_get_table m d v))"
  using assms by (rule map_table_spec)

definition mmu_empty :: mmu_state where
  "mmu_empty = \<lparr>mm_word = \<lambda>_. 0, mm_byte = \<lambda>_. 0, mm_cr3 = 0x1000, mm_kernel_cr3 = 0x1000, mm_new = [0x3000]\<rparr>"

lemma mmu_empty_inv: "pt_inv {0x1000} 1 mmu_empty"
  by (simp add: pt_inv_def pres_def mmu_empty_def)

theorem mmu_map_table_maps_witness:
  "\<exists>m'. mmu_map_table 0x1000 0x5000 0x9000 4096 3 mmu_empty = Some (0, m') \<and> mmu_map_get_table m' 0x1000 0x5004 = (3, Some 0x9000)"
proof -
  have inv: "pt_inv {0x1000} (0 + pages 4096) mmu_empty" using mmu_empty_inv by (simp add: pages_def)
  have "page 0x5000 + pages 4096 \<le> 786432" by (simp add: pages_def)
  from mmu_map_table_maps [OF inv _ this, of "0x1000" "0x9000" 3] obtain m' where
    m': "mmu_map_table 0x1000 0x5000 0x9000 4096 3 mmu_empty = Some (0, m')"
    and get: "\<And>v. low v \<Longrightarrow> mmu_map_get_table m' 0x1000 v = (if page 0x5000 \<le> page v \<and> page v < page 0x5000 + pages 4096
       then (uint (seen_flags 3), Some ((0x9000 AND PAGE_MASK) + of_nat (4096 * (page v - page 0x5000)))) else mmu_map_get_table mmu_empty 0x1000 v)"
    by auto
  from get [of "0x5004"] m' show ?thesis by (simp add: pages_def seen_flags_def)
qed

text \<open>
  \<open>mmu_unmap_table\<close> returns 0; afterwards every lookup of a page of the
  range fails, and every other lookup finds what it found before.
\<close>

theorem mmu_unmap_table_unmaps:
  assumes "pt_inv D n m" "c \<in> D" "page virt + pages sz \<le> 786432" "unat sz \<le> 4294963200"
  shows "\<exists>m'. mmu_unmap_table c virt sz m = Some (0, m') \<and> pt_inv D n m' \<and> same_regs m m' \<and>
    (\<forall>d \<in> D. \<forall>v. low v \<longrightarrow> mmu_map_get_table m' d v =
      (if d = c \<and> page virt \<le> page v \<and> page v < page virt + pages sz then (- EUNSPEC, None) else mmu_map_get_table m d v))"
proof -
  let ?xs = "map (nth_page virt) [0..<pages sz]"
  let ?m = "pt.unmap_pages c ?xs m"
  note pg = range_page [OF assms(3)]
  have run: "mmu_unmap_table c virt sz m = Some (0, ?m)"
    using unmap_table_loop_eq [OF assms(4), of 0 c virt m] by (simp add: mmu_unmap_table_def)
  have img: "page ` set ?xs = {k. page virt \<le> k \<and> k < page virt + pages sz}"
    unfolding set_map image_comp using pg(1) by (force simp: image_def le_iff_add)
  have lows: "\<forall>v \<in> set ?xs. low v" using pg(2) by auto
  note spec = pt.unmap_pages_spec [OF assms(1,2) lows]
  have "mmu_map_get_table ?m d v =
      (if d = c \<and> page virt \<le> page v \<and> page v < page virt + pages sz then (- EUNSPEC, None) else mmu_map_get_table m d v)"
    if d: "d \<in> D" "low v" for d v
  proof -
    have "entry ?m d v = (if d = c \<and> page virt \<le> page v \<and> page v < page virt + pages sz then 0 else entry m d v)"
      using spec d unfolding img by simp
    then show ?thesis by (simp add: mmu_map_get_table_def)
  qed
  then show ?thesis using run spec by blast
qed

theorem mmu_unmap_table_unmaps_witness:
  "\<exists>m'. mmu_unmap_table 0x1000 0x5000 4096 mmu_empty = Some (0, m') \<and> mmu_map_get_table m' 0x1000 0x5004 = (- EUNSPEC, None)"
proof -
  have "page 0x5000 + pages 4096 \<le> 786432" by (simp add: pages_def)
  from mmu_unmap_table_unmaps [OF mmu_empty_inv _ this, of "0x1000"] obtain m' where
    m': "mmu_unmap_table 0x1000 0x5000 4096 mmu_empty = Some (0, m')"
    and get: "\<And>v. low v \<Longrightarrow> mmu_map_get_table m' 0x1000 v =
      (if page 0x5000 \<le> page v \<and> page v < page 0x5000 + pages 4096 then (- EUNSPEC, None) else mmu_map_get_table mmu_empty 0x1000 v)"
    by auto
  from get [of "0x5004"] m' show ?thesis by (simp add: pages_def)
qed

section \<open>Temporary mappings\<close>

text \<open>What a lookup finds, for every directory and address, and the bytes of memory.\<close>

definition same_view :: "u32 set \<Rightarrow> mmu_state \<Rightarrow> mmu_state \<Rightarrow> bool" where
  "same_view D m m' \<longleftrightarrow> (\<forall>d \<in> D. \<forall>v. low v \<longrightarrow> mmu_map_get_table m' d v = mmu_map_get_table m d v)"

lemma pages_one [simp]: "pages 1 = 1" "pages 4096 = 1"
  by (simp_all add: pages_def)

lemma mmu_map_one:
  assumes "pages sz = 1" "unat sz \<le> 4294963200" "mm_cr3 m \<noteq> 0"
  shows "mmu_map v p sz f m = Some (0, pgdir_map_page (mm_cr3 m) (p AND PAGE_MASK) (v AND PAGE_MASK) (page_flags_of f) m)"
  using map_table_loop_eq [OF assms(2), of 0 "mm_cr3 m" "v AND PAGE_MASK" "p AND PAGE_MASK" "page_flags_of f" m] assms(1,3)
  by (simp add: mmu_map_def mmu_map_table_def pt.map_pages_def)

lemma mmu_unmap_one:
  assumes "mm_cr3 m \<noteq> 0" shows "mmu_unmap v 1 m = Some (0, unmap_page (mm_cr3 m) v m)"
  using unmap_table_loop_eq [of 1 0 "mm_cr3 m" v m] assms
  by (simp add: mmu_unmap_def mmu_unmap_table_def pt.unmap_pages_def)

lemma mmu_map_page_spec:
  assumes inv: "pt_inv D (Suc n) m" and c: "mm_cr3 m \<in> D" "mm_cr3 m \<noteq> 0" and v: "low v" and sz: "sz = 1 \<or> sz = PAGE_SZ"
  shows "\<exists>m'. mmu_map v p sz f m = Some (0, m') \<and> pt_inv D n m' \<and> same_regs m m' \<and>
    (\<forall>d \<in> D. \<forall>w. low w \<longrightarrow> mmu_map_get_table m' d w =
      (if d = mm_cr3 m \<and> page w = page v then (uint (seen_flags f), Some (p AND PAGE_MASK)) else mmu_map_get_table m d w))"
proof -
  let ?m = "pgdir_map_page (mm_cr3 m) (p AND PAGE_MASK) (v AND PAGE_MASK) (page_flags_of f) m"
  have v': "low (v AND PAGE_MASK)" using v by simp
  note spec = pgdir_map_page_spec [OF inv c(1) v', where phys = "p AND PAGE_MASK" and flags = "page_flags_of f"]
  have "mmu_map_get_table ?m d w =
      (if d = mm_cr3 m \<and> page w = page v then (uint (seen_flags f), Some (p AND PAGE_MASK)) else mmu_map_get_table m d w)"
    if d: "d \<in> D" "low w" for d w
  proof (cases "d = mm_cr3 m \<and> page w = page v")
    case True
    then have "entry ?m d w = pte_of (p AND PAGE_MASK) (page_flags_of f)" using spec(3) [OF d] by simp
    from map_get_pte_of [OF this] True show ?thesis by (simp add: and.assoc)
  next
    case False
    then have "entry ?m d w = entry m d w" using spec(3) [OF d] unfolding page_of_mask if_not_P [OF False] by simp
    from map_get_entry [OF this] show ?thesis unfolding if_not_P [OF False] .
  qed
  moreover have "mmu_map v p sz f m = Some (0, ?m)" by (rule mmu_map_one [OF _ _ c(2)]) (use sz in auto)
  ultimately show ?thesis using spec(1,2) by blast
qed

text \<open>The flags a lookup reports are mapped to themselves.\<close>

lemma seen_flags_idem: "mmu_map_get_table m d v = (i, Some p) \<Longrightarrow> uint (seen_flags (of_int i)) = i \<and> p AND PAGE_MASK = p"
  by (auto simp: mmu_map_get_table_def Let_def seen_flags_def and.assoc split: if_splits)

lemma map_get_cases:
  obtains (none) "mmu_map_get_table m d v = (- EUNSPEC, None)"
  | (some) i p where "mmu_map_get_table m d v = (i, Some p)" "0 \<le> i"
  by (cases "entry m d v AND 1 = 0") (auto simp: mmu_map_get_table_def Let_def)

lemma bytes_simps [simp]:
  "pt_inv D n (m\<lparr>mm_byte := g\<rparr>) = pt_inv D n m"
  "mmu_map_get_table (m\<lparr>mm_byte := g\<rparr>) = mmu_map_get_table m"
  by (simp add: pt_inv_def pres_def, intro ext) (simp add: mmu_map_get_table_def pgdir_get_page_entry_def Let_def)

lemma map_get_same_page: "page w = page v \<Longrightarrow> mmu_map_get_table m d w = mmu_map_get_table m d v"
proof (rule map_get_entry)
  assume eq: "page w = page v"
  have "pde_addr d w = pde_addr d v" using eq by (intro pde_same) simp
  moreover have "pte_addr x w = pte_addr x v" for x using eq by (simp add: pte_addr_eq)
  ultimately show "entry m d w = entry m d v" by (simp add: pgdir_get_page_entry_def Let_def)
qed

lemma undo_map_spec:
  assumes inv: "pt_inv D (Suc n) m1" and c: "mm_cr3 m1 \<in> D" "mm_cr3 m1 \<noteq> 0" and p: "low p"
    and c0: "mm_cr3 m = mm_cr3 m1" and sv: "mmu_map_save m p = Some e"
    and view: "\<And>d w. d \<in> D \<Longrightarrow> low w \<Longrightarrow> \<not> (d = mm_cr3 m \<and> page w = page p) \<Longrightarrow> mmu_map_get_table m1 d w = mmu_map_get_table m d w"
  shows "\<exists>m3. undo_map e p m1 = Some m3 \<and> pt_inv D n m3 \<and> same_regs m1 m3 \<and> same_view D m m3"
proof -
  note at = map_get_same_page [of _ p m "mm_cr3 m"]
  show ?thesis
  proof (cases rule: map_get_cases [of m "mm_cr3 m" p])
    case none
    then have e: "e = None" using sv c c0 by (simp add: mmu_map_save_def mmu_map_get_def)
    note u = unmap_page_spec [OF inv c(1) p]
    have "mmu_map_get_table (unmap_page (mm_cr3 m1) p m1) d w = mmu_map_get_table m d w" if d: "d \<in> D" "low w" for d w
    proof (cases "d = mm_cr3 m \<and> page w = page p")
      case True
      then have "entry (unmap_page (mm_cr3 m1) p m1) d w = 0" using u(3) [OF d] c0 by simp
      moreover have "mmu_map_get_table m d w = (- EUNSPEC, None)" using True at [of w] none by simp
      ultimately show ?thesis by (simp add: mmu_map_get_table_def)
    next
      case False
      then have "entry (unmap_page (mm_cr3 m1) p m1) d w = entry m1 d w" using u(3) [OF d] unfolding c0 if_not_P [OF False [unfolded c0]] by blast
      from map_get_entry [OF this] show ?thesis using view [OF d False] by simp
    qed
    then show ?thesis
      using u(2) pt_inv_mono [OF u(1), of n] mmu_unmap_one [OF c(2), of p] by (auto simp: e undo_map_def same_view_def)
  next
    case (some i q)
    then have e: "e = Some \<lparr>ent_virt = p, ent_phys = q, ent_flags = of_int i\<rparr>"
      using sv c c0 by (simp add: mmu_map_save_def mmu_map_get_def)
    obtain m3 where m3: "mmu_map p q PAGE_SZ (of_int i) m1 = Some (0, m3)" "pt_inv D n m3" "same_regs m1 m3"
      "\<And>d w. d \<in> D \<Longrightarrow> low w \<Longrightarrow> mmu_map_get_table m3 d w =
        (if d = mm_cr3 m1 \<and> page w = page p then (uint (seen_flags (of_int i)), Some (q AND PAGE_MASK)) else mmu_map_get_table m1 d w)"
      using mmu_map_page_spec [OF inv c p, of PAGE_SZ q "of_int i"] by auto
    have "mmu_map_get_table m3 d w = mmu_map_get_table m d w" if d: "d \<in> D" "low w" for d w
      using m3(4) [OF d] view [OF d] at [of w] some(1) seen_flags_idem [OF some(1)] c0 by (cases "d = mm_cr3 m \<and> page w = page p") auto
    then show ?thesis using m3(1-3) by (auto simp: e undo_map_def mmu_map_restore_def same_view_def)
  qed
qed

text \<open>A page of physical memory is mapped at its own address for a while, bytes are changed, and the mapping is undone.\<close>

lemma temporary_map:
  assumes inv: "pt_inv D (Suc (Suc n)) m" and c: "mm_cr3 m \<in> D" "mm_cr3 m \<noteq> 0" and p: "low p"
  obtains e m1 where "mmu_map_save m p = Some e" "mmu_map p p 1 f m = Some (0, m1)" "same_regs m m1"
    "\<And>g. \<exists>m3. undo_map e p (m1\<lparr>mm_byte := g\<rparr>) = Some m3 \<and> pt_inv D n m3 \<and> mm_byte m3 = g \<and>
      mm_cr3 m3 = mm_cr3 m \<and> same_view D m m3"
proof -
  obtain e where e: "mmu_map_save m p = Some e"
    using c by (cases "mmu_map_get_table m (mm_cr3 m) p") (auto simp: mmu_map_save_def mmu_map_get_def)
  obtain m1 where m1: "mmu_map p p 1 f m = Some (0, m1)" "pt_inv D (Suc n) m1" "same_regs m m1"
    "\<And>d w. d \<in> D \<Longrightarrow> low w \<Longrightarrow> mmu_map_get_table m1 d w =
      (if d = mm_cr3 m \<and> page w = page p then (uint (seen_flags f), Some (p AND PAGE_MASK)) else mmu_map_get_table m d w)"
    using mmu_map_page_spec [OF inv c p, of 1 p f] by auto
  have "\<exists>m3. undo_map e p (m1\<lparr>mm_byte := g\<rparr>) = Some m3 \<and> pt_inv D n m3 \<and> mm_byte m3 = g \<and>
      mm_cr3 m3 = mm_cr3 m \<and> same_view D m m3" for g
  proof -
    let ?m = "m1\<lparr>mm_byte := g\<rparr>"
    have cr: "mm_cr3 ?m = mm_cr3 m" using m1(3) by (simp add: same_regs_def)
    have "\<exists>m3. undo_map e p ?m = Some m3 \<and> pt_inv D n m3 \<and> same_regs ?m m3 \<and> same_view D m m3"
      by (rule undo_map_spec [OF _ _ _ p _ e]) (use m1(2,4) c cr in \<open>auto split: if_splits\<close>)
    then show ?thesis using cr by (auto simp: same_regs_def)
  qed
  with e m1 show ?thesis using that by blast
qed

end
