(* ===== verification/Mmu_Copy.thy ===== *)
theory Mmu_Copy
  imports Mmu_Sound
begin

text \<open>
  Reading and writing the memory of another address space (\<open>mmu_write_data\<close>, \<open>mmu_read_data\<close>):
  the page-by-page loops with their temporary mappings do what a byte-by-byte access through the
  translation does, and leave every translation as it was.
\<close>

section \<open>Chunks\<close>

lemma chunk_bounds:
  assumes "0 < left"
  shows "0 < unat (chunk a left)" "unat (chunk a left) \<le> unat left" "unat a mod 4096 + unat (chunk a left) \<le> 4096"
proof -
  let ?n = "if PAGE_SZ < left then PAGE_SZ else left"
  have lo: "unat (a AND 0xFFF) = unat a mod 4096" by (rule unat_low_bits)
  have n: "0 < unat ?n" "unat ?n \<le> unat left" "unat ?n \<le> 4096"
    using assms by (auto simp: word_less_nat_alt word_le_nat_alt)
  have sum: "unat (?n + (a AND 0xFFF)) = unat ?n + unat a mod 4096"
    by (subst unat_add_u32_lt) (use n(3) lo in auto)
  have r: "unat a mod 4096 < 4096" by simp
  have "unat (PAGE_SZ - (a AND 0xFFF)) = 4096 - unat a mod 4096"
    by (subst unat_sub_u32) (use lo in \<open>auto simp: word_le_nat_alt\<close>)
  then have "unat (chunk a left) = (if 4096 < unat ?n + unat a mod 4096 then 4096 - unat a mod 4096 else unat ?n)"
    unfolding chunk_def Let_def using sum by (simp add: word_less_nat_alt)
  then show "0 < unat (chunk a left)" "unat (chunk a left) \<le> unat left" "unat a mod 4096 + unat (chunk a left) \<le> 4096"
    using n r by (auto split: if_splits)
qed

text \<open>The physical address of a byte.\<close>

definition xlate :: "mmu_state \<Rightarrow> u32 \<Rightarrow> u32 \<Rightarrow> u32" where
  "xlate m t v = the (snd (mmu_map_get_table m t v)) + (v AND 0xFFF)"

lemma same_page_add:
  assumes "unat a mod 4096 + j < 4096"
  shows "page (a + of_nat j) = page a" "(a + of_nat j) AND 0xFFF = (a AND 0xFFF) + of_nat j"
proof -
  have d: "unat a = page a * 4096 + unat a mod 4096" by simp
  have j: "unat (of_nat j :: u32) = j" using assms by (intro unat_of_nat_u32) simp
  have "unat a + j < 4294967296" using assms d page_lt [of a] by linarith
  then have s: "unat (a + of_nat j) = unat a + j" using j by (subst unat_add_u32_lt) simp_all
  show "page (a + of_nat j) = page a" unfolding s using assms d by linarith
  have "unat ((a + of_nat j) AND 0xFFF) = (unat a + j) mod 4096" by (simp only: unat_low_bits s)
  also have "\<dots> = unat a mod 4096 + j" using assms by (metis mod_add_left_eq mod_less)
  also have "\<dots> = unat ((a AND 0xFFF) + of_nat j)" using assms j by (subst unat_add_u32_lt) (simp_all add: unat_low_bits)
  finally show "(a + of_nat j) AND 0xFFF = (a AND 0xFFF) + of_nat j" by (rule word_unat_eq_iff [THEN iffD2])
qed

lemma xlate_chunk: "unat a mod 4096 + j < 4096 \<Longrightarrow> xlate m t (a + of_nat j) = xlate m t a + of_nat j"
  unfolding xlate_def using map_get_same_page [OF same_page_add(1)] same_page_add(2) by (simp add: add.assoc)

lemma same_view_xlate: "same_view D m m' \<Longrightarrow> t \<in> D \<Longrightarrow> low v \<Longrightarrow> xlate m' t v = xlate m t v"
  by (simp add: same_view_def xlate_def)

section \<open>Memory as a function\<close>

text \<open>Storing the bytes \<open>f i\<close>, for \<open>i\<close> in \<open>is\<close>, at the addresses \<open>a i\<close>, one after the other.\<close>

definition store :: "(nat \<Rightarrow> u32) \<Rightarrow> (nat \<Rightarrow> u8) \<Rightarrow> nat list \<Rightarrow> (u32 \<Rightarrow> u8) \<Rightarrow> u32 \<Rightarrow> u8" where
  "store a f = fold (\<lambda>i b. b(a i := f i))"

lemma store_cong: "(\<And>i. i \<in> set is \<Longrightarrow> a i = a' i \<and> f i = f' i) \<Longrightarrow> store a f is b = store a' f' is b"
  unfolding store_def by (rule fold_cong) auto

lemma store_append: "store a f (is @ js) b = store a f js (store a f is b)"
  by (simp add: store_def)

lemma store_other: "x \<notin> a ` set is \<Longrightarrow> store a f is b x = b x"
  by (induction "is" arbitrary: b) (auto simp: store_def)

lemma store_same: "i \<in> set is \<Longrightarrow> inj_on a (set is) \<Longrightarrow> store a f is b (a i) = f i"
proof (induction "is" arbitrary: b)
  case (Cons j js)
  show ?case
  proof (cases "i \<in> set js")
    case True
    then show ?thesis using Cons by (simp add: store_def)
  next
    case False
    then have "i = j" "a j \<notin> a ` set js" using Cons.prems by (auto simp: inj_on_def)
    then show ?thesis using store_other [of "a j" a js f "b(a j := f j)"] by (simp add: store_def)
  qed
qed simp

lemma store_shift: "store (\<lambda>i. a (k + i)) (\<lambda>i. f (k + i)) [0..<n] b = store a f [k..<k + n] b"
  using map_add_upt [of k n] fold_map [of "\<lambda>i b. b(a i := f i)" "\<lambda>i. i + k" "[0..<n]"]
  by (simp add: store_def comp_def add.commute)

lemma write_bytes_store:
  assumes "length xs < 4294967296"
  shows "mm_byte (write_bytes p xs m) = store (\<lambda>i. p + of_nat i) ((!) xs) [0..<length xs] (mm_byte m)"
  using assms
proof (induction xs rule: rev_induct)
  case Nil
  then show ?case by (simp add: write_bytes_def store_def)
next
  case (snoc x xs)
  have "store (\<lambda>i. p + of_nat i) ((!) (xs @ [x])) [0..<length xs] (mm_byte m) = mm_byte (write_bytes p xs m)"
    using snoc by (subst snoc.IH) (auto intro!: store_cong simp: nth_append)
  then have "store (\<lambda>i. p + of_nat i) ((!) (xs @ [x])) [0..<length (xs @ [x])] (mm_byte m) =
      (mm_byte (write_bytes p xs m))(p + of_nat (length xs) := x)"
    by (simp add: store_append) (simp add: store_def)
  also have "\<dots> = mm_byte (write_bytes p (xs @ [x]) m)"
  proof
    fix y
    have "y = p + of_nat (length xs) \<longleftrightarrow> unat (y - p) = length xs"
      using snoc.prems unat_of_nat_u32 [of "length xs"] by (metis add_diff_cancel_left' diff_add_cancel add.commute length_append_singleton Suc_lessD word_unat_eq_iff)
    then show "((mm_byte (write_bytes p xs m))(p + of_nat (length xs) := x)) y = mm_byte (write_bytes p (xs @ [x]) m) y"
      by (auto simp: write_bytes_def nth_append)
  qed
  finally show ?case by simp
qed

section \<open>The loops\<close>

text \<open>The address \<open>v\<close> of directory \<open>t\<close> is mapped with the right \<open>k\<close> to memory below \<open>KERNEL_OFFSET\<close>.\<close>

definition mapped :: "u32 \<Rightarrow> mmu_state \<Rightarrow> u32 \<Rightarrow> u32 \<Rightarrow> bool" where
  "mapped k m t v \<longleftrightarrow> 0 \<le> fst (mmu_map_get_table m t v) \<and> of_int (fst (mmu_map_get_table m t v)) AND k \<noteq> 0 \<and> low (xlate m t v)"

lemma mapped_get:
  "mapped k m t v \<Longrightarrow> \<exists>i p. mmu_map_get_table m t v = (i, Some p) \<and> 0 \<le> i \<and> of_int i AND k \<noteq> 0 \<and> p + (v AND 0xFFF) = xlate m t v"
  by (cases rule: map_get_cases [of m t v]) (auto simp: mapped_def xlate_def)

lemma same_view_mapped: "same_view D m m' \<Longrightarrow> t \<in> D \<Longrightarrow> low v \<Longrightarrow> mapped k m' t v = mapped k m t v"
  by (simp add: mapped_def same_view_xlate) (simp add: same_view_def)

lemma same_view_trans: "same_view D m m' \<Longrightarrow> same_view D m' m'' \<Longrightarrow> same_view D m m''"
  by (simp add: same_view_def)

text \<open>A step of either loop, at \<open>off\<close> of \<open>len\<close> bytes.\<close>

lemma loop_step:
  assumes "unat virt + len \<le> 3221225472" "off < len"
  defines "k \<equiv> unat (chunk (virt + of_nat off) (of_nat len - of_nat off))"
  shows "0 < k" "off + k \<le> len" "of_nat off < (of_nat len :: u32)"
    "(of_nat off :: u32) + chunk (virt + of_nat off) (of_nat len - of_nat off) = of_nat (off + k)"
    "\<And>j. j < k \<Longrightarrow> xlate m t (virt + of_nat (off + j)) = xlate m t (virt + of_nat off) + of_nat j"
proof -
  have u: "unat (of_nat len :: u32) = len" "unat (of_nat off :: u32) = off" using assms by (auto intro!: unat_of_nat_u32)
  then show lt: "of_nat off < (of_nat len :: u32)" using assms(2) by (simp add: word_less_nat_alt)
  have left: "unat (of_nat len - of_nat off :: u32) = len - off"
    by (subst unat_sub_u32) (use lt u in \<open>auto intro: less_imp_le\<close>)
  have "0 < (of_nat len - of_nat off :: u32)" using left assms(2) by (simp add: word_less_nat_alt)
  note b = chunk_bounds [OF this, of "virt + of_nat off", folded k_def]
  show "0 < k" "off + k \<le> len" using b left assms(2) by simp_all
  show "(of_nat off :: u32) + chunk (virt + of_nat off) (of_nat len - of_nat off) = of_nat (off + k)"
    by (simp add: k_def)
  show "xlate m t (virt + of_nat (off + j)) = xlate m t (virt + of_nat off) + of_nat j" if "j < k" for j
    using xlate_chunk [of "virt + of_nat off" j m t] b(3) that by (simp add: add.assoc)
qed

lemma upt_split: "i \<le> j \<Longrightarrow> j \<le> k \<Longrightarrow> [i..<k] = [i..<j] @ [j..<k]"
  using upt_add_eq_append [of i j "k - j"] by simp

lemma range_low: "unat virt + len \<le> 3221225472 \<Longrightarrow> i < len \<Longrightarrow> low (virt + of_nat i)"
proof -
  assume a: "unat virt + len \<le> 3221225472" "i < len"
  then have "unat (of_nat i :: u32) = i" by (intro unat_of_nat_u32) simp
  with a have "unat (virt + of_nat i) = unat virt + i" by (subst unat_add_u32_lt) simp_all
  with a show ?thesis by (simp add: word_less_nat_alt)
qed

lemma write_loop_spec:
  assumes "pt_inv D (n + 2 * (length buff - off)) m" "mm_cr3 m \<in> D" "mm_cr3 m \<noteq> 0" "t \<in> D"
    and len: "unat virt + length buff \<le> 3221225472" and "off \<le> length buff"
    and "\<And>i. off \<le> i \<Longrightarrow> i < length buff \<Longrightarrow> mapped MAP_WRITE m t (virt + of_nat i)"
  shows "\<exists>m'. write_loop t virt buff (of_nat (length buff)) (of_nat off) m = Some (0, m') \<and> pt_inv D n m' \<and>
    mm_cr3 m' = mm_cr3 m \<and> same_view D m m' \<and>
    mm_byte m' = store (\<lambda>i. xlate m t (virt + of_nat i)) ((!) buff) [off..<length buff] (mm_byte m)"
  using assms(1-4,6,7)
proof (induction "length buff - off" arbitrary: off m rule: less_induct)
  case less
  show ?case
  proof (cases "off = length buff")
    case True
    then show ?thesis using less.prems(1) by (subst write_loop.simps) (simp add: same_view_def store_def)
  next
    case False
    then have off: "off < length buff" using less.prems(5) by simp
    let ?a = "virt + of_nat off"
    let ?c = "chunk ?a (of_nat (length buff) - of_nat off)"
    let ?k = "unat ?c" and ?p = "xlate m t ?a"
    note st = loop_step [OF len off]
    obtain i p where get: "mmu_map_get_table m t ?a = (i, Some p)" "0 \<le> i" "of_int i AND MAP_WRITE \<noteq> 0" "p + (?a AND 0xFFF) = ?p"
      using mapped_get [OF less.prems(6) [OF order_refl off]] by blast
    have low: "low ?p" using less.prems(6) [OF order_refl off] by (simp add: mapped_def)
    have "Suc (Suc (n + 2 * (length buff - (off + ?k)))) \<le> n + 2 * (length buff - off)" using st(1,2) by linarith
    with less.prems(1) have inv: "pt_inv D (Suc (Suc (n + 2 * (length buff - (off + ?k))))) m" by (rule pt_inv_mono)
    obtain e m1 where m1: "mmu_map_save m ?p = Some e" "mmu_map ?p ?p 1 MAP_WRITE m = Some (0, m1)" "same_regs m m1"
      and undo: "\<And>g. \<exists>m3. undo_map e ?p (m1\<lparr>mm_byte := g\<rparr>) = Some m3 \<and> pt_inv D (n + 2 * (length buff - (off + ?k))) m3 \<and> mm_byte m3 = g \<and>
        mm_cr3 m3 = mm_cr3 m \<and> same_view D m m3"
      by (rule temporary_map [OF inv less.prems(2,3) low, where f = MAP_WRITE]) blast
    let ?bs = "take ?k (drop off buff)"
    let ?w = "write_bytes ?p ?bs m1"
    have w: "?w = m1\<lparr>mm_byte := mm_byte ?w\<rparr>" by (simp add: write_bytes_def)
    obtain m3 where m3: "undo_map e ?p ?w = Some m3" "pt_inv D (n + 2 * (length buff - (off + ?k))) m3" "mm_byte m3 = mm_byte ?w"
        "mm_cr3 m3 = mm_cr3 m" "same_view D m m3"
      using undo [of "mm_byte ?w"] by (subst (asm) w [symmetric]) blast
    have run: "write_loop t virt buff (of_nat (length buff)) (of_nat off) m =
        write_loop t virt buff (of_nat (length buff)) (of_nat (off + ?k)) m3"
      using get m1 m3(1) st(3) unat_of_nat_u32 [of off] off len
      by (subst write_loop.simps) (simp add: st(4) [symmetric] Let_def)
    have meas: "length buff - (off + ?k) < length buff - off" using st(1) off by linarith
    have c3: "mm_cr3 m3 \<in> D" "mm_cr3 m3 \<noteq> 0" using less.prems(2,3) m3(4) by simp_all
    have ok: "mapped MAP_WRITE m3 t (virt + of_nat i)" if "off + ?k \<le> i" "i < length buff" for i
      using less.prems(6) [of i] that same_view_mapped [OF m3(5) less.prems(4) range_low [OF len that(2)]] by simp
    from less.hyps [OF meas m3(2) c3 less.prems(4) st(2) ok] obtain m' where m': "write_loop t virt buff (of_nat (length buff)) (of_nat (off + ?k)) m3 = Some (0, m')" "pt_inv D n m'"
      "mm_cr3 m' = mm_cr3 m3" "same_view D m3 m'"
      "mm_byte m' = store (\<lambda>i. xlate m3 t (virt + of_nat i)) ((!) buff) [off + ?k..<length buff] (mm_byte m3)"
      by blast
    have "mm_byte ?w = store (\<lambda>i. ?p + of_nat i) ((!) ?bs) [0..<?k] (mm_byte m)"
      using write_bytes_store [of ?bs ?p m1] m1(3) st(2) len by (simp add: same_regs_def min_absorb2)
    also have "\<dots> = store (\<lambda>i. xlate m t (virt + of_nat (off + i))) (\<lambda>i. buff ! (off + i)) [0..<?k] (mm_byte m)"
      using st(2,5) by (intro store_cong) simp
    also have "\<dots> = store (\<lambda>i. xlate m t (virt + of_nat i)) ((!) buff) [off..<off + ?k] (mm_byte m)"
      by (rule store_shift)
    finally have "mm_byte m' = store (\<lambda>i. xlate m t (virt + of_nat i)) ((!) buff) [off..<length buff] (mm_byte m)"
      unfolding m'(5) m3(3) using st(2) same_view_xlate [OF m3(5) less.prems(4) range_low [OF len]]
      by (subst upt_split [of off "off + ?k"]) (auto simp: store_append intro!: store_cong)
    then show ?thesis using run m'(1-4) m3(4,5) same_view_trans by auto
  qed
qed

lemma read_loop_spec:
  assumes "pt_inv D (n + 2 * (len - off)) m" "mm_cr3 m \<in> D" "mm_cr3 m \<noteq> 0" "t \<in> D"
    and len: "unat virt + len \<le> 3221225472" and "off \<le> len"
    and "\<And>i. off \<le> i \<Longrightarrow> i < len \<Longrightarrow> mapped MAP_READ m t (virt + of_nat i)"
  shows "\<exists>m'. read_loop t virt got (of_nat len) (of_nat off) m =
      Some (0, got @ map (\<lambda>i. mm_byte m (xlate m t (virt + of_nat i))) [off..<len], m') \<and>
    pt_inv D n m' \<and> mm_cr3 m' = mm_cr3 m \<and> same_view D m m' \<and> mm_byte m' = mm_byte m"
  using assms(1-4,6,7)
proof (induction "len - off" arbitrary: off m got rule: less_induct)
  case less
  show ?case
  proof (cases "off = len")
    case True
    then show ?thesis using less.prems(1) by (subst read_loop.simps) (simp add: same_view_def)
  next
    case False
    then have off: "off < len" using less.prems(5) by simp
    let ?a = "virt + of_nat off"
    let ?c = "chunk ?a (of_nat len - of_nat off)"
    let ?k = "unat ?c" and ?p = "xlate m t ?a"
    note st = loop_step [OF len off]
    obtain i p where get: "mmu_map_get_table m t ?a = (i, Some p)" "0 \<le> i" "of_int i AND MAP_READ \<noteq> 0" "p + (?a AND 0xFFF) = ?p"
      using mapped_get [OF less.prems(6) [OF order_refl off]] by blast
    have low: "low ?p" using less.prems(6) [OF order_refl off] by (simp add: mapped_def)
    have "Suc (Suc (n + 2 * (len - (off + ?k)))) \<le> n + 2 * (len - off)" using st(1,2) by linarith
    with less.prems(1) have inv: "pt_inv D (Suc (Suc (n + 2 * (len - (off + ?k))))) m" by (rule pt_inv_mono)
    obtain e m1 where m1: "mmu_map_save m ?p = Some e" "mmu_map ?p ?p 1 MAP_WRITE m = Some (0, m1)" "same_regs m m1"
      and undo: "\<And>g. \<exists>m3. undo_map e ?p (m1\<lparr>mm_byte := g\<rparr>) = Some m3 \<and> pt_inv D (n + 2 * (len - (off + ?k))) m3 \<and> mm_byte m3 = g \<and>
        mm_cr3 m3 = mm_cr3 m \<and> same_view D m m3"
      by (rule temporary_map [OF inv less.prems(2,3) low, where f = MAP_WRITE]) blast
    have w: "m1 = m1\<lparr>mm_byte := mm_byte m\<rparr>" using m1(3) by (simp add: same_regs_def)
    obtain m3 where m3: "undo_map e ?p m1 = Some m3" "pt_inv D (n + 2 * (len - (off + ?k))) m3" "mm_byte m3 = mm_byte m"
        "mm_cr3 m3 = mm_cr3 m" "same_view D m m3"
      using undo [of "mm_byte m"] by (subst (asm) w [symmetric]) blast
    let ?got = "got @ read_bytes m ?p ?k"
    have "read_bytes m1 ?p ?k = read_bytes m ?p ?k" using m1(3) by (simp add: read_bytes_def same_regs_def)
    then have run: "read_loop t virt got (of_nat len) (of_nat off) m = read_loop t virt ?got (of_nat len) (of_nat (off + ?k)) m3"
      using get m1 m3(1) st(3) by (subst read_loop.simps) (simp add: st(4) [symmetric] Let_def)
    have meas: "len - (off + ?k) < len - off" using st(1) off by linarith
    have c3: "mm_cr3 m3 \<in> D" "mm_cr3 m3 \<noteq> 0" using less.prems(2,3) m3(4) by simp_all
    have ok: "mapped MAP_READ m3 t (virt + of_nat i)" if "off + ?k \<le> i" "i < len" for i
      using less.prems(6) [of i] that same_view_mapped [OF m3(5) less.prems(4) range_low [OF len that(2)]] by simp
    from less.hyps [OF meas m3(2) c3 less.prems(4) st(2) ok, of ?got]
    obtain m' where m': "read_loop t virt ?got (of_nat len) (of_nat (off + ?k)) m3 =
        Some (0, ?got @ map (\<lambda>i. mm_byte m3 (xlate m3 t (virt + of_nat i))) [off + ?k..<len], m')" "pt_inv D n m'"
      "mm_cr3 m' = mm_cr3 m3" "same_view D m3 m'" "mm_byte m' = mm_byte m3"
      by blast
    have "read_bytes m ?p ?k = map (\<lambda>i. mm_byte m (xlate m t (virt + of_nat i))) (map (\<lambda>i. i + off) [0..<?k])"
      using st(5) by (auto simp: read_bytes_def add.commute)
    also have "map (\<lambda>i. i + off) [0..<?k] = [off..<off + ?k]" using map_add_upt [of off ?k] by (simp only: add.commute)
    finally have "?got @ map (\<lambda>i. mm_byte m3 (xlate m3 t (virt + of_nat i))) [off + ?k..<len] =
        got @ map (\<lambda>i. mm_byte m (xlate m t (virt + of_nat i))) [off..<len]"
      using st(2) same_view_xlate [OF m3(5) less.prems(4) range_low [OF len]] m3(3)
      by (subst upt_split [of off "off + ?k"]) auto
    then show ?thesis using run m' m3(3-5) same_view_trans by auto
  qed
qed

section \<open>Properties\<close>

text \<open>
  C25 (writing to an address space). When the range lies below \<open>KERNEL_OFFSET\<close> and is mapped writable, \<open>mmu_write_data\<close> returns
  0, the memory afterwards is the memory before with byte \<open>i\<close> of the buffer stored at the physical
  address of \<open>virt + i\<close>, one byte after the other, and every translation of an address below \<open>KERNEL_OFFSET\<close> in every directory
  is what it was.
\<close>

theorem mmu_write_data_stores:
  assumes "pt_inv D (n + 2 * length buff) m" "mm_cr3 m \<in> D" "mm_cr3 m \<noteq> 0" "t \<in> D"
    and "unat virt + length buff \<le> 3221225472"
    and "\<And>i. i < length buff \<Longrightarrow> mapped MAP_WRITE m t (virt + of_nat i)"
  shows "\<exists>m'. mmu_write_data t virt buff m = Some (0, m') \<and> pt_inv D n m' \<and> mm_cr3 m' = mm_cr3 m \<and> same_view D m m' \<and>
    mm_byte m' = store (\<lambda>i. xlate m t (virt + of_nat i)) ((!) buff) [0..<length buff] (mm_byte m)"
  using write_loop_spec [of D n buff 0 m t virt] assms by (simp add: mmu_write_data_def)

text \<open>A directory at 0x1000 with one table, at 0x2000, that maps page 5 to page 9.\<close>

definition mmu_small :: mmu_state where
  "mmu_small = \<lparr>mm_word = (\<lambda>_. 0)(0x1000 := 0x2007, 0x2014 := 0x9007), mm_byte = \<lambda>_. 0, mm_cr3 = 0x1000, mm_kernel_cr3 = 0x1000,
     mm_new = [0x3000, 0x4000, 0x5000, 0x6000, 0x7000, 0x8000, 0xA000, 0xB000]\<rparr>"

lemma mmu_small_pde: "pde mmu_small 0x1000 v = (if page v div 1024 = 0 then 0x2007 else 0)"
proof -
  have "page (pde_addr 0x1000 v) = 1" by (subst page_pde_addr) simp_all
  then have "pde_addr 0x1000 v \<noteq> 0x2014" by auto
  moreover have "pde_addr 0x1000 v = 0x1000 \<longleftrightarrow> page v div 1024 = 0"
    using unat_pde_addr [of "0x1000" v] by (auto simp: word_unat_eq_iff)
  ultimately show ?thesis by (auto simp: mmu_small_def)
qed

lemma mmu_small_inv: "pt_inv {0x1000} 8 mmu_small"
  by (auto simp: pt_inv_def pres_def mmu_small_pde) (auto simp: mmu_small_def)

lemma mmu_small_get: "page v = 5 \<Longrightarrow> mmu_map_get_table mmu_small 0x1000 v = (3, Some 0x9000)"
proof -
  assume v: "page v = 5"
  have "pte_addr 0x2007 v = 0x2014" using v by (simp add: word_unat_eq_iff unat_pte_addr)
  then have "entry mmu_small 0x1000 v = 0x9007" using v by (simp add: entry_def pres_def mmu_small_pde) (simp add: mmu_small_def)
  then show ?thesis by (simp add: mmu_map_get_table_def)
qed

lemma mmu_small_xlate: "xlate mmu_small 0x1000 0x5FFE = 0x9FFE" "xlate mmu_small 0x1000 0x5FFF = 0x9FFF"
  by (simp_all add: xlate_def mmu_small_get)

lemma mmu_small_mapped: "i < length [7 :: u8, 8] \<Longrightarrow> mapped MAP_WRITE mmu_small 0x1000 (0x5FFE + of_nat i)"
  by (cases i) (auto simp: mapped_def mmu_small_get mmu_small_xlate)

lemma mmu_small_cr3: "mm_cr3 mmu_small \<in> {0x1000}" "mm_cr3 mmu_small \<noteq> 0"
  by (simp_all add: mmu_small_def)

theorem mmu_write_data_stores_witness:
  "\<exists>m'. mmu_write_data 0x1000 0x5FFE [7, 8] mmu_small = Some (0, m') \<and> mm_byte m' 0x9FFE = 7 \<and> mm_byte m' 0x9FFF = 8"
proof -
  have inv: "pt_inv {0x1000} (4 + 2 * length [7 :: u8, 8]) mmu_small" using mmu_small_inv by simp
  have len: "unat (0x5FFE :: u32) + length [7 :: u8, 8] \<le> 3221225472" by simp
  from mmu_write_data_stores [OF inv mmu_small_cr3 _ len mmu_small_mapped] show ?thesis
    by (auto simp: store_def mmu_small_xlate)
qed

text \<open>
  After a write to a range whose bytes have different physical addresses,
  \<open>mmu_read_data\<close> of the range returns 0 and the bytes written, and the memory is unchanged by it.
\<close>

theorem mmu_write_read:
  assumes "pt_inv D (n + 2 * length buff + 2 * length buff) m" "mm_cr3 m \<in> D" "mm_cr3 m \<noteq> 0" "t \<in> D"
    and len: "unat virt + length buff \<le> 3221225472"
    and "\<And>i. i < length buff \<Longrightarrow> mapped MAP_WRITE m t (virt + of_nat i)"
    and inj: "inj_on (\<lambda>i. xlate m t (virt + of_nat i)) {0..<length buff}"
  shows "\<exists>m' m''. mmu_write_data t virt buff m = Some (0, m') \<and>
    mmu_read_data t virt (of_nat (length buff)) m' = Some (0, buff, m'') \<and> same_view D m m'' \<and> mm_byte m'' = mm_byte m'"
proof -
  obtain m' where m': "mmu_write_data t virt buff m = Some (0, m')" "pt_inv D (n + 2 * length buff) m'" "mm_cr3 m' = mm_cr3 m"
    "same_view D m m'" "mm_byte m' = store (\<lambda>i. xlate m t (virt + of_nat i)) ((!) buff) [0..<length buff] (mm_byte m)"
    using write_loop_spec [of D "n + 2 * length buff" buff 0 m t virt] assms by (auto simp: mmu_write_data_def)
  have rd: "mapped MAP_READ m' t (virt + of_nat i)" if "i < length buff" for i
  proof -
    note low = range_low [OF len that]
    have "mapped MAP_WRITE m t (virt + of_nat i)" by (rule assms(6) [OF that])
    then have "mapped MAP_READ m t (virt + of_nat i)"
      by (auto simp: mapped_def mmu_map_get_table_def Let_def split: if_splits)
    then show ?thesis using same_view_mapped [OF m'(4) assms(4) low] by simp
  qed
  obtain m'' where m'': "mmu_read_data t virt (of_nat (length buff)) m' =
      Some (0, map (\<lambda>i. mm_byte m' (xlate m' t (virt + of_nat i))) [0..<length buff], m'')"
    "same_view D m' m''" "mm_byte m'' = mm_byte m'"
    using read_loop_spec [of D n "length buff" 0 m' t virt "[]"] m'(2,3) assms(2-5) rd by (auto simp: mmu_read_data_def)
  have "map (\<lambda>i. mm_byte m' (xlate m' t (virt + of_nat i))) [0..<length buff] = buff"
    using store_same [of _ "[0..<length buff]" "\<lambda>i. xlate m t (virt + of_nat i)" "(!) buff"] inj
      same_view_xlate [OF m'(4) assms(4) range_low [OF len]]
    by (intro nth_equalityI) (simp_all add: m'(5))
  with m'(1,4) m'' same_view_trans show ?thesis by metis
qed

theorem mmu_write_read_witness:
  "\<exists>m' m''. mmu_write_data 0x1000 0x5FFE [7, 8] mmu_small = Some (0, m') \<and> mmu_read_data 0x1000 0x5FFE 2 m' = Some (0, [7, 8], m'')"
proof -
  have inv: "pt_inv {0x1000} (0 + 2 * length [7 :: u8, 8] + 2 * length [7 :: u8, 8]) mmu_small" using mmu_small_inv by simp
  have len: "unat (0x5FFE :: u32) + length [7 :: u8, 8] \<le> 3221225472" by simp
  have inj: "inj_on (\<lambda>i. xlate mmu_small 0x1000 (0x5FFE + of_nat i)) {0..<length [7 :: u8, 8]}"
  proof -
    have "{0..<length [7 :: u8, 8]} = {0, 1}" by auto
    then show ?thesis by (simp add: mmu_small_xlate)
  qed
  from mmu_write_read [OF inv mmu_small_cr3 _ len mmu_small_mapped inj] show ?thesis by auto
qed

end
