(* ===== verification/Llist_Ring.thy ===== *)
theory Llist_Ring
  imports Llist
begin

text \<open>
  The list invariant of \<open>llist.c\<close> and what the operations of \<open>Llist\<close> do to it.
\<close>

section \<open>Well-formed lists\<close>

definition nx :: "lheap \<Rightarrow> addr \<rightharpoonup> addr" where
  "nx h a = map_option item_next (lh_items h a)"

definition pv :: "lheap \<Rightarrow> addr \<rightharpoonup> addr" where
  "pv h a = map_option item_prev (lh_items h a)"

definition dat :: "lheap \<Rightarrow> addr \<rightharpoonup> addr" where
  "dat h a = map_option item_data (lh_items h a)"

fun chain :: "(addr \<rightharpoonup> addr) \<Rightarrow> (addr \<rightharpoonup> addr) \<Rightarrow> addr list \<Rightarrow> bool" where
  "chain n p (a # b # xs) \<longleftrightarrow> n a = Some b \<and> p b = Some a \<and> chain n p (b # xs)"
| "chain n p xs \<longleftrightarrow> True"

definition cyc :: "(addr \<rightharpoonup> addr) \<Rightarrow> (addr \<rightharpoonup> addr) \<Rightarrow> addr list \<Rightarrow> bool" where
  "cyc n p xs \<longleftrightarrow> chain n p xs \<and> n (last xs) = Some (hd xs) \<and> p (hd xs) = Some (last xs)"

definition list_head :: "lheap \<Rightarrow> addr \<rightharpoonup> addr" where
  "list_head h l = map_option ll_list (lh_lists h l)"

definition lock_word :: "lheap \<Rightarrow> addr \<rightharpoonup> lock_t" where
  "lock_word h l = map_option ll_lock (lh_lists h l)"

definition ring :: "lheap \<Rightarrow> addr \<Rightarrow> addr list \<Rightarrow> bool" where
  "ring h l xs \<longleftrightarrow> l \<noteq> NULL \<and> list_head h l = Some (if xs = [] then NULL else hd xs) \<and>
     distinct xs \<and> NULL \<notin> set xs \<and> (xs \<noteq> [] \<longrightarrow> cyc (nx h) (pv h) xs)"

text \<open>
  What an operation on the list at \<open>l\<close> with items in \<open>S\<close> leaves alone: the data of all items,
  items outside \<open>S\<close>, the other list heads and the lock.
\<close>

definition unchanged :: "addr set \<Rightarrow> addr \<Rightarrow> lheap \<Rightarrow> lheap \<Rightarrow> bool" where
  "unchanged S l h h' \<longleftrightarrow> dat h' = dat h \<and> (\<forall>a. a \<notin> S \<longrightarrow> lh_items h' a = lh_items h a) \<and>
     (\<forall>m. m \<noteq> l \<longrightarrow> lh_lists h' m = lh_lists h m) \<and> lock_word h' l = lock_word h l"

section \<open>Chains\<close>

lemma chain_append:
  "chain n p (xs @ ys) \<longleftrightarrow> chain n p xs \<and> chain n p ys \<and>
     (xs \<noteq> [] \<and> ys \<noteq> [] \<longrightarrow> n (last xs) = Some (hd ys) \<and> p (hd ys) = Some (last xs))"
  by (induction n p xs rule: chain.induct) (cases ys; auto)+

lemma chain_upd_next [simp]: "a \<notin> set (butlast xs) \<Longrightarrow> chain (n(a := v)) p xs = chain n p xs"
  by (induction n p xs rule: chain.induct) auto

lemma chain_upd_prev [simp]: "a \<notin> set (tl xs) \<Longrightarrow> chain n (p(a := v)) xs = chain n p xs"
  by (induction n p xs rule: chain.induct) auto

lemma last_notin_butlast [simp]: "distinct xs \<Longrightarrow> last xs \<notin> set (butlast xs)"
  by (induction xs) (auto dest: in_set_butlastD)

lemma hd_notin_tl [simp]: "distinct xs \<Longrightarrow> xs \<noteq> [] \<Longrightarrow> hd xs \<notin> set (tl xs)"
  by (cases xs) auto

lemma set_butlast_tl: "a \<notin> set xs \<Longrightarrow> a \<notin> set (butlast xs) \<and> a \<notin> set (tl xs)"
  by (cases xs) (auto dest: in_set_butlastD)

lemma chain_mapped: "chain n p xs \<Longrightarrow> a \<in> set (butlast xs) \<Longrightarrow> n a \<noteq> None"
  by (induction n p xs rule: chain.induct) auto

lemma cyc_mapped: "cyc n p xs \<Longrightarrow> a \<in> set xs \<Longrightarrow> n a \<noteq> None"
  using chain_mapped [of n p xs a] by (cases xs rule: rev_cases) (auto simp: cyc_def)

lemma cyc_snoc:
  assumes "cyc n p xs" "xs \<noteq> []" "distinct xs" "a \<notin> set xs"
  shows "cyc (n(last xs \<mapsto> a, a \<mapsto> hd xs)) (p(a \<mapsto> last xs, hd xs \<mapsto> a)) (xs @ [a])"
proof -
  from assms(2,4) have "last xs \<noteq> a" "hd xs \<noteq> a" by auto
  with assms set_butlast_tl [OF assms(4)] show ?thesis
    by (auto simp: cyc_def chain_append)
qed

lemma cyc_delete_last:
  assumes "cyc n p (xs @ [a])" "xs \<noteq> []" "distinct (xs @ [a])"
  shows "cyc (n(last xs \<mapsto> hd xs)) (p(hd xs \<mapsto> last xs)) xs"
  using assms by (auto simp: cyc_def chain_append)

lemma cyc_delete_inner:
  assumes "cyc n p (xs @ a # ys)" "xs \<noteq> []" "distinct (xs @ a # ys)"
  defines "b \<equiv> hd (ys @ [hd xs])"
  shows "n a = Some b \<and> p a = Some (last xs) \<and> cyc (n(last xs \<mapsto> b)) (p(b \<mapsto> last xs)) (xs @ ys)"
proof (cases ys)
  case Nil
  with assms cyc_delete_last [of n p xs a] show ?thesis
    by (auto simp: cyc_def chain_append)
next
  case (Cons y zs)
  then have b: "b = y" by (simp add: b_def)
  from assms Cons have *: "chain n p xs" "chain n p (y # zs)" "n a = Some y" "p a = Some (last xs)"
    by (auto simp: cyc_def chain_append)
  have last: "last xs \<notin> set (y # zs)"
    using assms(2,3) Cons by (cases xs rule: rev_cases) auto
  have xs: "y \<notin> set (tl xs)" "last xs \<notin> set (butlast (y # zs))" "hd xs \<noteq> y"
    using assms(2,3) Cons set_butlast_tl [of y xs] in_set_butlastD last by fastforce+
  from last have "last (y # zs) \<noteq> last xs" by (metis last_in_set list.discI)
  with * xs assms Cons b show ?thesis
    by (simp add: cyc_def chain_append)
qed

section \<open>Field updates\<close>

lemma nx_Some: "nx h a = Some b \<longleftrightarrow> (\<exists>it. lh_items h a = Some it \<and> item_next it = b)"
  by (auto simp: nx_def)

lemma pv_Some: "pv h a = Some b \<longleftrightarrow> (\<exists>it. lh_items h a = Some it \<and> item_prev it = b)"
  by (auto simp: pv_def)

lemma list_head_Some: "list_head h l = Some b \<longleftrightarrow> (\<exists>L. lh_lists h l = Some L \<and> ll_list L = b)"
  by (auto simp: list_head_def)

lemma unchanged_refl [simp]: "unchanged S l h h"
  by (simp add: unchanged_def)

lemma unchanged_trans [trans]:
  "unchanged S l h1 h2 \<Longrightarrow> unchanged T l h2 h3 \<Longrightarrow> unchanged (S \<union> T) l h1 h3"
  by (simp add: unchanged_def)

lemma unchanged_mono: "unchanged S l h h' \<Longrightarrow> S \<subseteq> T \<Longrightarrow> unchanged T l h h'"
  by (auto simp: unchanged_def)

lemma set_next_spec:
  assumes "lh_items h a \<noteq> None"
  obtains h' where "set_next h a v = Some h'" "nx h' = (nx h)(a \<mapsto> v)" "pv h' = pv h"
    "lh_lists h' = lh_lists h" "unchanged {a} l h h'"
  using assms that
  by (fastforce simp: set_next_def nx_def pv_def dat_def unchanged_def lock_word_def)

lemma set_prev_spec:
  assumes "lh_items h a \<noteq> None"
  obtains h' where "set_prev h a v = Some h'" "pv h' = (pv h)(a \<mapsto> v)" "nx h' = nx h"
    "lh_lists h' = lh_lists h" "unchanged {a} l h h'"
  using assms that
  by (fastforce simp: set_prev_def nx_def pv_def dat_def unchanged_def lock_word_def)

lemma set_list_spec:
  assumes "lh_lists h l \<noteq> None"
  obtains h' where "set_list h l v = Some h'" "list_head h' l = Some v" "lh_items h' = lh_items h"
    "nx h' = nx h" "pv h' = pv h" "unchanged {} l h h'"
  using assms that
  by (fastforce simp: set_list_def nx_def pv_def dat_def unchanged_def lock_word_def list_head_def)

lemma nx_None: "nx h a \<noteq> None \<longleftrightarrow> lh_items h a \<noteq> None"
  by (simp add: nx_def)

lemma pv_None: "pv h a \<noteq> None \<longleftrightarrow> lh_items h a \<noteq> None"
  by (simp add: pv_def)

lemma ring_mapped: "ring h l xs \<Longrightarrow> a \<in> set xs \<Longrightarrow> lh_items h a \<noteq> None"
  unfolding ring_def nx_None [symmetric] by (cases "xs = []") (auto dest: cyc_mapped)

text \<open>A list is not affected by changes to other lists and to items it does not hold.\<close>

lemma ring_unchanged:
  assumes "ring h m xs" "unchanged S l h h'" "m \<noteq> l" "set xs \<inter> S = {}"
  shows "ring h' m xs"
proof -
  have eq: "lh_items h' a = lh_items h a" if "a \<in> set xs" for a
    using assms(2,4) that by (auto simp: unchanged_def)
  have "chain (nx h') (pv h') ys = chain (nx h) (pv h) ys" if "set ys \<subseteq> set xs" for ys
    using that
  proof (induction "nx h" "pv h" ys rule: chain.induct)
    case (1 a b ys)
    then show ?case by (simp add: eq nx_def pv_def)
  qed auto
  moreover have "hd xs \<in> set xs" "last xs \<in> set xs" if "xs \<noteq> []" using that by auto
  ultimately show ?thesis
    using assms(1,2,3) by (auto simp: ring_def cyc_def nx_def pv_def eq unchanged_def list_head_def)
qed

section \<open>Append and pop\<close>

lemma hd_last_facts:
  "xs \<noteq> [] \<Longrightarrow> NULL \<notin> set xs \<Longrightarrow> a \<notin> set xs \<Longrightarrow>
     hd xs \<noteq> NULL \<and> hd xs \<in> set xs \<and> last xs \<in> set xs \<and> last xs \<noteq> a \<and> hd xs \<noteq> a"
  by (metis list.set_sel(1) last_in_set)

lemma append_unlocked_empty:
  assumes ring: "ring h l []" and a: "a \<noteq> NULL" "lh_items h a \<noteq> None"
  obtains h' where "llist_append_unlocked h l a = Some h'" "ring h' l [a]" "unchanged {a} l h h'"
proof -
  from ring obtain L where L: "lh_lists h l = Some L" "ll_list L = NULL" "l \<noteq> NULL"
    by (auto simp: ring_def list_head_Some)
  obtain h1 where h1: "set_list h l a = Some h1" "list_head h1 l = Some a" "lh_items h1 = lh_items h"
      "unchanged {} l h h1"
    using L by (rule_tac set_list_spec [of h l a]) auto
  obtain h2 where h2: "set_next h1 a a = Some h2" "nx h2 = (nx h1)(a \<mapsto> a)"
      "lh_lists h2 = lh_lists h1" "unchanged {a} l h1 h2"
    using a h1 by (rule_tac set_next_spec [of h1 a a l]) auto
  have "lh_items h2 a \<noteq> None" using h2(2) nx_None [of h2 a] by simp
  then obtain h3 where h3: "set_prev h2 a a = Some h3" "pv h3 = (pv h2)(a \<mapsto> a)" "nx h3 = nx h2"
      "lh_lists h3 = lh_lists h2" "unchanged {a} l h2 h3"
    by (rule set_prev_spec [of h2 a a l])
  have "llist_append_unlocked h l a = Some h3"
    using L a h1(1) h2(1) h3(1) by (auto simp: llist_append_unlocked_def)
  moreover have "ring h3 l [a]"
    using L a h1(2) h2(2,3) h3(2,3,4) by (simp add: ring_def cyc_def list_head_def)
  moreover have "unchanged {a} l h h3"
    using unchanged_trans [OF unchanged_trans [OF h1(4) h2(4)] h3(5)] by simp
  ultimately show ?thesis by (rule that)
qed

lemma append_unlocked_nonempty:
  assumes ring: "ring h l xs" and ne: "xs \<noteq> []"
    and a: "a \<notin> set xs" "a \<noteq> NULL" "lh_items h a \<noteq> None"
  obtains h' where "llist_append_unlocked h l a = Some h'" "ring h' l (xs @ [a])"
    "unchanged (insert a (set xs)) l h h'"
proof -
  from ring ne obtain L where L: "lh_lists h l = Some L" "ll_list L = hd xs" "l \<noteq> NULL"
    and xs: "distinct xs" "NULL \<notin> set xs" "cyc (nx h) (pv h) xs"
    by (auto simp: ring_def list_head_Some)
  have hd: "hd xs \<noteq> NULL" "hd xs \<in> set xs" "last xs \<in> set xs" "last xs \<noteq> a" "hd xs \<noteq> a"
    using hd_last_facts [OF ne xs(2) a(1)] by auto
  from xs(3) obtain f where f: "lh_items h (hd xs) = Some f" "item_prev f = last xs"
    by (auto simp: cyc_def pv_Some)
  from xs(3) obtain t where t: "lh_items h (last xs) = Some t" "item_next t = hd xs"
    by (auto simp: cyc_def nx_Some)
  obtain h1 where h1: "set_next h (last xs) a = Some h1" "nx h1 = (nx h)(last xs \<mapsto> a)"
      "pv h1 = pv h" "lh_lists h1 = lh_lists h" "unchanged {last xs} l h h1"
    using t by (rule_tac set_next_spec [of h "last xs" a l]) auto
  have "pv h1 (hd xs) = Some (last xs)" using h1(3) f by (simp add: pv_def)
  then obtain f1 where f1: "lh_items h1 (hd xs) = Some f1" "item_prev f1 = last xs"
    by (auto simp: pv_Some)
  have "lh_items h1 a \<noteq> None" using h1(3) a(3) pv_None by metis
  then obtain h2 where h2: "set_prev h1 a (last xs) = Some h2" "pv h2 = (pv h1)(a \<mapsto> last xs)"
      "nx h2 = nx h1" "lh_lists h2 = lh_lists h1" "unchanged {a} l h1 h2"
    by (rule set_prev_spec [of h1 a "last xs" l])
  have "lh_items h2 (hd xs) \<noteq> None" using h2(3) f1(1) nx_None by (metis option.distinct(1))
  then obtain h3 where h3: "set_prev h2 (hd xs) a = Some h3" "pv h3 = (pv h2)(hd xs \<mapsto> a)"
      "nx h3 = nx h2" "lh_lists h3 = lh_lists h2" "unchanged {hd xs} l h2 h3"
    by (rule set_prev_spec [of h2 "hd xs" a l])
  have "lh_items h3 a \<noteq> None" using h3(2) h2(2) pv_None [of h3 a] hd by auto
  then obtain h4 where h4: "set_next h3 a (hd xs) = Some h4" "nx h4 = (nx h3)(a \<mapsto> hd xs)"
      "pv h4 = pv h3" "lh_lists h4 = lh_lists h3" "unchanged {a} l h3 h4"
    by (rule set_next_spec [of h3 a "hd xs" l])
  have "llist_append_unlocked h l a = Some h4"
    using L a hd f t f1 h1(1) h2(1) h3(1) h4(1)
    by (auto simp: llist_append_unlocked_def)
  moreover have "ring h4 l (xs @ [a])"
    using cyc_snoc [OF xs(3) ne xs(1) a(1)] L xs(1,2) a ne h1(2,3,4) h2(2,3,4) h3(2,3,4) h4(2,3,4)
    by (simp add: ring_def list_head_def)
  moreover have "unchanged (insert a (set xs)) l h h4"
    using unchanged_trans [OF unchanged_trans [OF unchanged_trans [OF h1(5) h2(5)] h3(5)] h4(5)]
    by (rule unchanged_mono) (use hd in auto)
  ultimately show ?thesis by (rule that)
qed

lemma append_unlocked_ring:
  assumes "ring h l xs" and "a \<notin> set xs" "a \<noteq> NULL" "lh_items h a \<noteq> None"
  obtains h' where "llist_append_unlocked h l a = Some h'" "ring h' l (xs @ [a])"
    "unchanged (insert a (set xs)) l h h'"
  using assms append_unlocked_empty append_unlocked_nonempty
  by (cases "xs = []") (metis append_Nil list.set(1), metis)

lemma pop_unlocked_Nil: "ring h l [] \<Longrightarrow> llist_pop_unlocked h l = Some (NULL, h)"
  by (auto simp: ring_def list_head_Some llist_pop_unlocked_def)

lemma pop_unlocked_ring:
  assumes ring: "ring h l (xs @ [a])"
  obtains h' where "llist_pop_unlocked h l = Some (a, h')" "ring h' l xs"
    "unchanged (set xs) l h h'"
proof (cases "xs = []")
  case True
  from ring True obtain L f where L: "lh_lists h l = Some L" "ll_list L = a" "l \<noteq> NULL" "a \<noteq> NULL"
    and f: "lh_items h a = Some f" "item_prev f = a"
    by (auto simp: ring_def list_head_Some cyc_def pv_Some)
  obtain h1 where h1: "set_list h l NULL = Some h1" "list_head h1 l = Some NULL"
      "unchanged {} l h h1"
    using L by (rule_tac set_list_spec [of h l NULL]) auto
  have "llist_pop_unlocked h l = Some (a, h1)"
    using L f h1 by (simp add: llist_pop_unlocked_def)
  moreover have "ring h1 l xs" using True L h1 by (simp add: ring_def)
  ultimately show ?thesis using that h1(3) True by simp
next
  case False
  from ring False obtain L where L: "lh_lists h l = Some L" "ll_list L = hd xs" "l \<noteq> NULL"
    and xs: "distinct (xs @ [a])" "NULL \<notin> set (xs @ [a])" "cyc (nx h) (pv h) (xs @ [a])"
    by (auto simp: ring_def list_head_Some)
  have hd: "hd xs \<noteq> NULL" "hd xs \<in> set xs" "last xs \<in> set xs" "hd xs \<noteq> a" "last xs \<noteq> a"
    using hd_last_facts [OF False, of a] xs(1,2) by auto
  from xs(3) False obtain f it where f: "lh_items h (hd xs) = Some f" "item_prev f = a"
    and it: "lh_items h a = Some it" "item_prev it = last xs"
    by (auto simp: cyc_def chain_append pv_Some)
  obtain h1 where h1: "set_prev h (hd xs) (last xs) = Some h1" "pv h1 = (pv h)(hd xs \<mapsto> last xs)"
      "nx h1 = nx h" "lh_lists h1 = lh_lists h" "unchanged {hd xs} l h h1"
    using f by (rule_tac set_prev_spec [of h "hd xs" "last xs" l]) auto
  have it1: "lh_items h1 a = Some it" using h1(5) it hd by (simp add: unchanged_def)
  have "nx h (last xs) = Some a" using xs(3) False by (simp add: cyc_def chain_append)
  then have "lh_items h1 (last xs) \<noteq> None" using h1(3) nx_None by (metis option.distinct(1))
  then obtain h2 where h2: "set_next h1 (last xs) (hd xs) = Some h2"
      "nx h2 = (nx h1)(last xs \<mapsto> hd xs)" "pv h2 = pv h1" "lh_lists h2 = lh_lists h1"
      "unchanged {last xs} l h1 h2"
    by (rule set_next_spec [of h1 "last xs" "hd xs" l])
  have "llist_pop_unlocked h l = Some (a, h2)"
    using L hd f it it1 h1(1) h2(1) by (simp add: llist_pop_unlocked_def)
  moreover have "ring h2 l xs"
    using cyc_delete_last [OF xs(3) False xs(1)] L xs False h1(2,3,4) h2(2,3,4)
    by (simp add: ring_def list_head_def)
  moreover have "unchanged (set xs) l h h2"
    using unchanged_trans [OF h1(5) h2(5)] by (rule unchanged_mono) (use hd in auto)
  ultimately show ?thesis by (rule that)
qed

section \<open>Remove\<close>

lemma clear_item:
  assumes "lh_items h a \<noteq> None"
  obtains h' where "do { h \<leftarrow> set_next h a NULL; set_prev h a NULL } = Some h'"
    "nx h' = (nx h)(a \<mapsto> NULL)" "pv h' = (pv h)(a \<mapsto> NULL)" "lh_lists h' = lh_lists h"
    "unchanged {a} l h h'"
proof -
  obtain h1 where h1: "set_next h a NULL = Some h1" "nx h1 = (nx h)(a \<mapsto> NULL)" "pv h1 = pv h"
      "lh_lists h1 = lh_lists h" "unchanged {a} l h h1"
    using assms by (rule set_next_spec)
  have "lh_items h1 a \<noteq> None" using h1(2) nx_None [of h1 a] by simp
  then obtain h2 where h2: "set_prev h1 a NULL = Some h2" "pv h2 = (pv h1)(a \<mapsto> NULL)"
      "nx h2 = nx h1" "lh_lists h2 = lh_lists h1" "unchanged {a} l h1 h2"
    by (rule set_prev_spec [of h1 a NULL l])
  show ?thesis
    by (rule that [of h2]) (use h1 h2 unchanged_trans [OF h1(5) h2(5)] in simp_all)
qed

lemma cyc_upd_notin:
  assumes "a \<notin> set xs" "xs \<noteq> []"
  shows "cyc (n(a := u)) (p(a := v)) xs = cyc n p xs"
proof -
  from assms have "hd xs \<noteq> a" "last xs \<noteq> a" by (metis hd_in_set, metis last_in_set)
  with assms set_butlast_tl [OF assms(1)] show ?thesis by (simp add: cyc_def)
qed

text \<open>Removing an item that is not the first one.\<close>

lemma remove_unlocked_inner:
  assumes ring: "ring h l (xs @ a # ys)" and ne: "xs \<noteq> []"
  obtains h' where "llist_remove_unlocked h l a = Some h'" "ring h' l (xs @ ys)"
    "nx h' a = Some NULL" "pv h' a = Some NULL" "unchanged (set (xs @ a # ys)) l h h'"
proof -
  let ?b = "hd (ys @ [hd xs])" and ?p = "last xs"
  from ring ne obtain L where L: "lh_lists h l = Some L" "ll_list L = hd xs" "l \<noteq> NULL"
    and d: "distinct (xs @ a # ys)" "NULL \<notin> set (xs @ a # ys)" "cyc (nx h) (pv h) (xs @ a # ys)"
    by (auto simp: ring_def list_head_Some)
  from d(1,2) have "a \<notin> set xs" "NULL \<notin> set xs" "a \<noteq> NULL" "a \<notin> set ys" by auto
  with hd_last_facts [OF ne, of a]
  have hd: "hd xs \<noteq> NULL" "hd xs \<in> set xs" "?p \<in> set xs" "?p \<noteq> a" "hd xs \<noteq> a" "a \<noteq> NULL"
    by auto
  have b: "?b \<noteq> a" "?b \<in> set (xs @ ys)" using hd \<open>a \<notin> set ys\<close> by (cases ys; auto)+
  from cyc_delete_inner [OF d(3) ne d(1)]
  have n: "nx h a = Some ?b" "pv h a = Some ?p"
    and c: "cyc ((nx h)(?p \<mapsto> ?b)) ((pv h)(?b \<mapsto> ?p)) (xs @ ys)" by auto
  from n obtain it where it: "lh_items h a = Some it" "item_next it = ?b" "item_prev it = ?p"
    by (auto simp: nx_Some pv_Some)
  have "lh_items h ?p \<noteq> None" using ring_mapped [OF ring, of ?p] hd by simp
  then obtain h1 where h1: "set_next h ?p ?b = Some h1" "nx h1 = (nx h)(?p \<mapsto> ?b)" "pv h1 = pv h"
      "lh_lists h1 = lh_lists h" "unchanged {?p} l h h1"
    by (rule set_next_spec)
  have it1: "lh_items h1 a = Some it" using h1(5) it hd by (simp add: unchanged_def)
  have "lh_items h ?b \<noteq> None" using ring_mapped [OF ring, of ?b] b by auto
  then have "lh_items h1 ?b \<noteq> None" using h1(3) pv_None by metis
  then obtain h2 where h2: "set_prev h1 ?b ?p = Some h2" "pv h2 = (pv h1)(?b \<mapsto> ?p)"
      "nx h2 = nx h1" "lh_lists h2 = lh_lists h1" "unchanged {?b} l h1 h2"
    by (rule set_prev_spec)
  have "lh_items h2 a \<noteq> None" using h2(5) it1 b by (simp add: unchanged_def)
  then obtain h3 where h3: "do { h \<leftarrow> set_next h2 a NULL; set_prev h a NULL } = Some h3"
      "nx h3 = (nx h2)(a \<mapsto> NULL)" "pv h3 = (pv h2)(a \<mapsto> NULL)" "lh_lists h3 = lh_lists h2"
      "unchanged {a} l h2 h3"
    by (rule clear_item)
  have "llist_remove_unlocked h l a = Some h3"
    using L hd it it1 h1(1) h2(1) h3(1) by (simp add: llist_remove_unlocked_def)
  moreover have "cyc (nx h3) (pv h3) (xs @ ys)"
    using c \<open>a \<notin> set xs\<close> \<open>a \<notin> set ys\<close> h1(2,3) h2(2,3) h3(2,3) ne by (simp add: cyc_upd_notin)
  then have "ring h3 l (xs @ ys)"
    using L d ne h1(4) h2(4) h3(4) by (simp add: ring_def list_head_def)
  moreover have "unchanged (set (xs @ a # ys)) l h h3"
    using unchanged_trans [OF unchanged_trans [OF h1(5) h2(5)] h3(5)]
    by (rule unchanged_mono) (use hd b in auto)
  ultimately show ?thesis using that h3(2,3) by simp
qed

text \<open>Removing the only item.\<close>

lemma remove_unlocked_clears:
  assumes ring: "ring h l (a # bs)" and len: "length bs \<le> 1"
  obtains h' where "llist_remove_unlocked h l a = Some h'" "ring h' l []" "unchanged {a} l h h'"
proof -
  from ring len obtain L it where L: "lh_lists h l = Some L" "ll_list L = a" "l \<noteq> NULL" "a \<noteq> NULL"
    and it: "lh_items h a = Some it" "item_next it = item_prev it"
    by (cases bs) (auto simp: ring_def list_head_Some cyc_def nx_Some pv_Some)
  obtain h1 where h1: "set_list h l NULL = Some h1" "list_head h1 l = Some NULL"
      "lh_items h1 = lh_items h" "unchanged {} l h h1"
    using L by (rule_tac set_list_spec [of h l NULL]) auto
  obtain h2 where h2: "do { h \<leftarrow> set_next h1 a NULL; set_prev h a NULL } = Some h2"
      "lh_lists h2 = lh_lists h1" "unchanged {a} l h1 h2"
    using it h1 by (rule_tac clear_item [of h1 a l]) auto
  have "llist_remove_unlocked h l a = Some h2"
    using L it h1(1) h2(1) by (simp add: llist_remove_unlocked_def)
  moreover have "ring h2 l []" using L h1(2) h2(2) by (simp add: ring_def list_head_def)
  ultimately show ?thesis using that unchanged_trans [OF h1(4) h2(3)] by simp
qed

text \<open>
  Removing the first item of a longer list: with two items the list head is cleared and the
  other item is lost; with three or more the list head keeps pointing at the removed item.
\<close>

lemma remove_unlocked_first:
  assumes ring: "ring h l (a # b # xs)"
  obtains h' where "llist_remove_unlocked h l a = Some h'"
    "list_head h' l = Some (if xs = [] then NULL else a)" "nx h' a = Some NULL"
proof -
  from ring obtain L where L: "lh_lists h l = Some L" "ll_list L = a" "l \<noteq> NULL" "a \<noteq> NULL"
    and d: "distinct (a # b # xs)" and c: "cyc (nx h) (pv h) (a # b # xs)"
    by (auto simp: ring_def list_head_Some)
  let ?p = "last (b # xs)"
  from c obtain it where it: "lh_items h a = Some it" "item_next it = b" "item_prev it = ?p"
    by (auto simp: cyc_def nx_Some pv_Some)
  have bp: "b = ?p \<longleftrightarrow> xs = []" using d by (cases xs rule: rev_cases) auto
  show ?thesis
  proof (cases "xs = []")
    case True
    obtain h1 where h1: "set_list h l NULL = Some h1" "list_head h1 l = Some NULL"
        "lh_items h1 = lh_items h"
      using L by (rule_tac set_list_spec [of h l NULL]) auto
    obtain h2 where h2: "do { h \<leftarrow> set_next h1 a NULL; set_prev h a NULL } = Some h2"
        "nx h2 = (nx h1)(a \<mapsto> NULL)" "lh_lists h2 = lh_lists h1"
      using it h1 by (rule_tac clear_item [of h1 a l]) auto
    have "llist_remove_unlocked h l a = Some h2"
      using L it True h1(1) h2(1) by (simp add: llist_remove_unlocked_def)
    then show ?thesis using that True h1(2) h2(2,3) by (simp add: list_head_def)
  next
    case False
    have "?p \<in> set (a # b # xs)" "?p \<noteq> a" "b \<noteq> a" using d False by auto
    then have "lh_items h ?p \<noteq> None" using ring_mapped [OF ring] by blast
    then obtain h1 where h1: "set_next h ?p b = Some h1" "pv h1 = pv h" "lh_lists h1 = lh_lists h"
        "unchanged {?p} l h h1"
      by (rule set_next_spec)
    have it1: "lh_items h1 a = Some it" using h1(4) it \<open>?p \<noteq> a\<close> by (simp add: unchanged_def)
    have "lh_items h b \<noteq> None" using ring_mapped [OF ring, of b] by simp
    then have "lh_items h1 b \<noteq> None" using h1(2) pv_None by metis
    then obtain h2 where h2: "set_prev h1 b ?p = Some h2" "lh_lists h2 = lh_lists h1"
        "unchanged {b} l h1 h2"
      by (rule set_prev_spec)
    have "lh_items h2 a \<noteq> None" using h2(3) it1 \<open>b \<noteq> a\<close> by (simp add: unchanged_def)
    then obtain h3 where h3: "do { h \<leftarrow> set_next h2 a NULL; set_prev h a NULL } = Some h3"
        "nx h3 = (nx h2)(a \<mapsto> NULL)" "lh_lists h3 = lh_lists h2"
      by (rule clear_item)
    have "llist_remove_unlocked h l a = Some h3"
      using L it it1 False bp h1(1) h2(1) h3(1) by (simp add: llist_remove_unlocked_def)
    then show ?thesis using that False L h1(3) h2(2) h3(2,3) by (simp add: list_head_def)
  qed
qed

section \<open>Walking the list\<close>

lemma ring_walk:
  assumes "ring h l (x # xs)"
  shows "list_head h l = Some x" "x \<noteq> NULL" "l \<noteq> NULL" "chain (nx h) (pv h) (x # xs)"
    "nx h (last (x # xs)) = Some x" "x \<notin> set xs" "distinct (x # xs)"
    "\<forall>a \<in> set (x # xs). lh_items h a \<noteq> None"
  using assms ring_mapped [OF assms] by (auto simp: ring_def cyc_def)

lemma count_loop_chain:
  assumes "chain (nx h) (pv h) (x # xs)" "nx h (last (x # xs)) = Some f" "f \<notin> set xs"
  shows "count_loop h f x c = Some (c + 1 + int (length xs))"
  using assms
proof (induction xs arbitrary: x c)
  case Nil
  then show ?case by (auto simp: nx_Some count_loop.simps [of h f x c])
next
  case (Cons y xs)
  then have "nx h x = Some y" "y \<noteq> f" by auto
  with Cons.IH [of y "c + 1"] Cons.prems show ?case
    by (auto simp: nx_Some count_loop.simps [of h f x c])
qed

lemma llist_count_ring: "ring h l xs \<Longrightarrow> llist_count h l = Some (int (length xs))"
proof (cases xs)
  case Nil
  moreover assume "ring h l xs"
  ultimately show ?thesis by (auto simp: ring_def list_head_Some llist_count_def)
next
  case (Cons x ys)
  moreover assume "ring h l xs"
  ultimately have w: "ring h l (x # ys)" by simp
  from ring_walk(1-3) [OF w] count_loop_chain [OF ring_walk(4-6) [OF w], of 0] Cons
  show ?thesis by (auto simp: list_head_Some llist_count_def)
qed

lemma get_loop_chain:
  assumes "chain (nx h) (pv h) (x # xs)" "nx h (last (x # xs)) = Some f" "f \<notin> set xs" "c \<le> idx"
  shows "get_loop h f idx x c =
    Some (if idx - c < length (x # xs) then (x # xs) ! (idx - c) else NULL)"
  using assms
proof (induction xs arbitrary: x c)
  case Nil
  then show ?case by (auto simp: nx_Some get_loop.simps [of h f idx x c])
next
  case (Cons y xs)
  then have n: "nx h x = Some y" "y \<noteq> f" by auto
  show ?case
  proof (cases "c = idx")
    case True
    then show ?thesis by (simp add: get_loop.simps [of h f idx x idx])
  next
    case False
    with Cons.prems(4) obtain k where k: "idx - c = Suc k" "idx - Suc c = k"
      by (metis Suc_diff_Suc diff_diff_left le_neq_implies_less plus_1_eq_Suc Suc_eq_plus1)
    from False n Cons.IH [of y "Suc c"] Cons.prems k show ?thesis
      by (auto simp: nx_Some get_loop.simps [of h f idx x c])
  qed
qed

lemma llist_get_ring:
  "ring h l xs \<Longrightarrow> llist_get h l idx = Some (if idx < length xs then xs ! idx else NULL)"
proof (cases xs)
  case Nil
  moreover assume "ring h l xs"
  ultimately show ?thesis by (auto simp: ring_def list_head_Some llist_get_def)
next
  case (Cons x ys)
  moreover assume "ring h l xs"
  ultimately have w: "ring h l (x # ys)" by simp
  from ring_walk(1-3) [OF w] get_loop_chain [OF ring_walk(4-6) [OF w], of 0 idx] Cons
  show ?thesis by (auto simp: list_head_Some llist_get_def)
qed

text \<open>Index of the first occurrence.\<close>

fun index_of :: "'a list \<Rightarrow> 'a \<Rightarrow> nat option" where
  "index_of [] a = None"
| "index_of (x # xs) a = (if x = a then Some 0 else map_option Suc (index_of xs a))"

lemma index_of_None: "index_of xs a = None \<longleftrightarrow> a \<notin> set xs"
  by (induction xs) auto

lemma index_of_Some: "index_of xs a = Some i \<Longrightarrow> i < length xs \<and> xs ! i = a"
  by (induction xs arbitrary: i) (auto split: if_splits)

lemma get_position_chain:
  assumes "chain (nx h) (pv h) (x # xs)" "nx h (last (x # xs)) = Some f" "f \<notin> set xs"
    and "\<forall>a \<in> set (f # x # xs). lh_items h a \<noteq> None"
  shows "get_position_loop h f item x i =
    Some (case index_of (x # xs) item of None \<Rightarrow> - EINVAL | Some k \<Rightarrow> i + int k)"
  using assms
proof (induction xs arbitrary: x i)
  case Nil
  then show ?case by (auto simp: nx_Some get_position_loop.simps [of h f item x i])
next
  case (Cons y xs)
  then have n: "nx h x = Some y" "y \<noteq> f" "lh_items h y \<noteq> None" by auto
  show ?case
  proof (cases "x = item")
    case True
    then show ?thesis by (simp add: get_position_loop.simps [of h f item item i])
  next
    case False
    with n Cons.IH [of y "i + 1"] Cons.prems show ?thesis
      by (auto simp: nx_Some get_position_loop.simps [of h f item x i] split: option.splits)
  qed
qed

lemma llist_get_position_ring:
  assumes "ring h l xs" "xs \<noteq> []" "item \<noteq> NULL"
  shows "llist_get_position h l item =
    Some (case index_of xs item of None \<Rightarrow> - EINVAL | Some k \<Rightarrow> int k)"
proof -
  from assms obtain x ys where xs: "xs = x # ys" and w: "ring h l (x # ys)" by (cases xs) auto
  from ring_walk [OF w] get_position_chain [OF ring_walk(4-6) [OF w], of item 0] xs assms(3)
  show ?thesis by (auto simp: list_head_Some llist_get_position_def split: option.split)
qed

lemma llist_get_position_empty:
  "ring h l [] \<Longrightarrow> lh_items h NULL = None \<Longrightarrow> item \<noteq> NULL \<Longrightarrow> llist_get_position h l item = None"
  by (auto simp: ring_def list_head_Some llist_get_position_def)

lemma iterate_all_chain:
  assumes "chain (nx h) (pv h) (x # xs)" "nx h (last (x # xs)) = Some f" "f \<notin> set xs"
    and "\<forall>a \<in> set (x # xs). lh_items h a \<noteq> None" "NULL \<notin> set (x # xs)" "f \<noteq> NULL"
  shows "iterate_all h \<lparr>it_first = f, it_curr = x\<rparr> = Some (map (the \<circ> dat h) xs)"
  using assms
proof (induction xs arbitrary: x)
  case Nil
  then show ?case
    by (auto simp: nx_Some llist_iterate_def iterate_all.simps [of h "\<lparr>it_first = f, it_curr = x\<rparr>"])
next
  case (Cons y xs)
  from Cons.prems(4) obtain iy where y: "lh_items h y = Some iy" by auto
  from Cons.prems have n: "nx h x = Some y" "y \<noteq> f" "y \<noteq> NULL" "x \<noteq> NULL" by auto
  then obtain ix where x: "lh_items h x = Some ix" "item_next ix = y" by (auto simp: nx_Some)
  have "llist_iterate h \<lparr>it_first = f, it_curr = x\<rparr> =
      Some (1, Some (item_data iy), \<lparr>it_first = f, it_curr = y\<rparr>)"
    using n x y Cons.prems(6) by (simp add: llist_iterate_def)
  moreover have "iterate_all h \<lparr>it_first = f, it_curr = y\<rparr> = Some (map (the \<circ> dat h) xs)"
    using Cons.IH [of y] Cons.prems by simp
  ultimately show ?case
    using y by (simp add: iterate_all.simps [of h "\<lparr>it_first = f, it_curr = x\<rparr>"] dat_def)
qed

lemma iterate_all_ring:
  assumes "ring h l xs"
  shows "do { it \<leftarrow> llist_iterator_init h l \<lparr>it_first = i, it_curr = j\<rparr>; iterate_all h it } =
    Some (map (the \<circ> dat h) xs)"
proof (cases xs)
  case Nil
  with assms show ?thesis
    by (auto simp: ring_def list_head_Some llist_iterator_init_def llist_iterate_def
        iterate_all.simps)
next
  case (Cons x ys)
  with assms have w: "ring h l (x # ys)" by simp
  from ring_walk(8) [OF w] obtain ix where x: "lh_items h x = Some ix" by auto
  have "NULL \<notin> set (x # ys)" using w by (auto simp: ring_def)
  then have "iterate_all h \<lparr>it_first = x, it_curr = x\<rparr> = Some (map (the \<circ> dat h) ys)"
    using iterate_all_chain [OF ring_walk(4-6) [OF w] ring_walk(8) [OF w]] ring_walk(2) [OF w]
    by simp
  moreover from ring_walk(1) [OF w] obtain L where "lh_lists h l = Some L" "ll_list L = x"
    by (auto simp: list_head_Some)
  ultimately show ?thesis using x ring_walk(2,3) [OF w] Cons
    by (simp add: llist_iterator_init_def llist_iterate_def dat_def
        iterate_all.simps [of h "\<lparr>it_first = x, it_curr = 0\<rparr>"])
qed

lemma iterate_find_all:
  assumes "iterate_all h it = Some ds" and "\<forall>d \<in> set ds. P d = Some (p d)"
  shows "iterate_find h P it = Some (find p ds)"
  using assms
proof (induction ds arbitrary: it)
  case Nil
  then show ?case
    by (auto simp: iterate_all.simps [of h it] iterate_find.simps [of h P it] split: bind_splits if_splits)
next
  case (Cons d ds)
  from Cons.prems(1) obtain r it' where it: "llist_iterate h it = Some (r, Some d, it')" "r \<noteq> 0"
    "iterate_all h it' = Some ds"
    by (auto simp: iterate_all.simps [of h it] llist_iterate_def split: bind_splits if_splits)
  with Cons.IH [OF it(3)] Cons.prems(2) show ?case by (simp add: iterate_find.simps [of h P it])
qed

section \<open>The locked operations\<close>

lemma lock_word_Some: "lock_word h l = Some v \<longleftrightarrow> (\<exists>L. lh_lists h l = Some L \<and> ll_lock L = v)"
  by (auto simp: lock_word_def)

text \<open>Setting the lock word keeps every list.\<close>

lemma set_lock_spec:
  assumes "lh_lists h l \<noteq> None"
  obtains h' where "set_lock h l v = Some h'" "lock_word h' l = Some v" "lh_items h' = lh_items h"
    "list_head h' = list_head h" "\<forall>m. m \<noteq> l \<longrightarrow> lh_lists h' m = lh_lists h m"
  using assms that by (fastforce simp: set_lock_def lock_word_def list_head_def)

lemma nx_pv_same: "lh_items h' = lh_items h \<Longrightarrow> nx h' = nx h \<and> pv h' = pv h \<and> dat h' = dat h"
  by (auto simp: nx_def pv_def dat_def)

lemma ring_same:
  assumes "lh_items h' = lh_items h" "list_head h' = list_head h"
  shows "ring h' m xs \<longleftrightarrow> ring h m xs"
  using nx_pv_same [OF assms(1)] assms(2) by (simp add: ring_def)

lemma llist_lock_spec:
  assumes "lock_word h l = Some 0"
  obtains h' where "llist_lock h l = Some h'" "lock_word h' l = Some 1" "lh_items h' = lh_items h"
    "list_head h' = list_head h" "\<forall>m. m \<noteq> l \<longrightarrow> lh_lists h' m = lh_lists h m"
proof -
  from assms obtain L where L: "lh_lists h l = Some L" "ll_lock L = 0" by (auto simp: lock_word_Some)
  obtain h' where "set_lock h l 1 = Some h'" "lock_word h' l = Some 1" "lh_items h' = lh_items h"
    "list_head h' = list_head h" "\<forall>m. m \<noteq> l \<longrightarrow> lh_lists h' m = lh_lists h m"
    using L by (rule_tac set_lock_spec [of h l 1]) auto
  with L that show ?thesis by (simp add: llist_lock_def)
qed

lemma llist_unlock_spec:
  assumes "lh_lists h l \<noteq> None"
  obtains h' where "llist_unlock h l = Some h'" "lock_word h' l = Some 0" "lh_items h' = lh_items h"
    "list_head h' = list_head h" "\<forall>m. m \<noteq> l \<longrightarrow> lh_lists h' m = lh_lists h m"
proof -
  from assms obtain L where L: "lh_lists h l = Some L" by auto
  obtain h' where "set_lock h l 0 = Some h'" "lock_word h' l = Some 0" "lh_items h' = lh_items h"
    "list_head h' = list_head h" "\<forall>m. m \<noteq> l \<longrightarrow> lh_lists h' m = lh_lists h m"
    using assms by (rule set_lock_spec)
  with L that show ?thesis by (simp add: llist_unlock_def unlock_def)
qed

text \<open>
  An operation run between \<open>lock\<close> and \<open>unlock\<close> does what it does without, and leaves the lock
  free.
\<close>

lemma locked_section:
  assumes free: "lock_word h l = Some 0"
    and run: "\<And>h1. lh_items h1 = lh_items h \<Longrightarrow> list_head h1 = list_head h \<Longrightarrow>
      \<exists>h2. f h1 = Some h2 \<and> ring h2 l ys \<and> unchanged S l h1 h2"
  obtains h' where "do { h \<leftarrow> llist_lock h l; h \<leftarrow> f h; llist_unlock h l } = Some h'"
    "ring h' l ys" "unchanged S l h h'"
proof -
  obtain h1 where h1: "llist_lock h l = Some h1" "lock_word h1 l = Some 1" "lh_items h1 = lh_items h"
      "list_head h1 = list_head h" "\<forall>m. m \<noteq> l \<longrightarrow> lh_lists h1 m = lh_lists h m"
    using free by (rule llist_lock_spec)
  from run [OF h1(3,4)] obtain h2 where h2: "f h1 = Some h2" "ring h2 l ys" "unchanged S l h1 h2"
    by blast
  have "lh_lists h2 l \<noteq> None" using h2(2) by (auto simp: ring_def list_head_Some)
  then obtain h3 where h3: "llist_unlock h2 l = Some h3" "lock_word h3 l = Some 0"
      "lh_items h3 = lh_items h2" "list_head h3 = list_head h2"
      "\<forall>m. m \<noteq> l \<longrightarrow> lh_lists h3 m = lh_lists h2 m"
    by (rule llist_unlock_spec)
  have "unchanged S l h h3"
    using h1 h2(3) h3 free nx_pv_same [OF h1(3)] nx_pv_same [OF h3(3)]
    by (simp add: unchanged_def)
  moreover have "ring h3 l ys" using h2(2) ring_same [OF h3(3,4)] by blast
  ultimately show ?thesis using that h1(1) h2(1) h3(1) by simp
qed

lemma llist_append_spec:
  assumes ring: "ring h l xs" and a: "a \<notin> set xs" "a \<noteq> NULL" "lh_items h a \<noteq> None"
    and free: "lock_word h l = Some 0"
  obtains h' where "llist_append h l a = Some h'" "ring h' l (xs @ [a])"
    "unchanged (insert a (set xs)) l h h'"
proof -
  have "\<exists>h2. llist_append_unlocked h1 l a = Some h2 \<and> ring h2 l (xs @ [a]) \<and>
      unchanged (insert a (set xs)) l h1 h2"
    if "lh_items h1 = lh_items h" "list_head h1 = list_head h" for h1
    using append_unlocked_ring [of h1 l xs a] ring_same [OF that] ring a that(1) by metis
  from locked_section [OF free this] obtain h' where
      "do { h \<leftarrow> llist_lock h l; h \<leftarrow> llist_append_unlocked h l a; llist_unlock h l } = Some h'"
      "ring h' l (xs @ [a])" "unchanged (insert a (set xs)) l h h'"
    by metis
  moreover have "l \<noteq> NULL" using ring by (simp add: ring_def)
  ultimately show ?thesis using that a(2) by (simp add: llist_append_def)
qed

lemma llist_remove_spec:
  assumes ring: "ring h l (xs @ a # ys)" and ne: "xs \<noteq> []" and free: "lock_word h l = Some 0"
  obtains h' where "llist_remove h l a = Some h'" "ring h' l (xs @ ys)"
    "unchanged (set (xs @ a # ys)) l h h'"
proof -
  have "\<exists>h2. llist_remove_unlocked h1 l a = Some h2 \<and> ring h2 l (xs @ ys) \<and>
      unchanged (set (xs @ a # ys)) l h1 h2"
    if "lh_items h1 = lh_items h" "list_head h1 = list_head h" for h1
    using remove_unlocked_inner [of h1 l xs a ys] ring_same [OF that] ring ne by metis
  from locked_section [OF free this] obtain h' where
      "do { h \<leftarrow> llist_lock h l; h \<leftarrow> llist_remove_unlocked h l a; llist_unlock h l } = Some h'"
      "ring h' l (xs @ ys)" "unchanged (set (xs @ a # ys)) l h h'"
    by metis
  moreover from ring ne obtain L where "lh_lists h l = Some L" "ll_list L \<noteq> NULL" "l \<noteq> NULL" "a \<noteq> NULL"
    using hd_last_facts [of xs a] by (auto simp: ring_def list_head_Some)
  ultimately show ?thesis using that by (simp add: llist_remove_def)
qed

lemma llist_remove_clears:
  assumes ring: "ring h l (a # bs)" and len: "length bs \<le> 1" and free: "lock_word h l = Some 0"
  obtains h' where "llist_remove h l a = Some h'" "ring h' l []" "unchanged {a} l h h'"
proof -
  have "\<exists>h2. llist_remove_unlocked h1 l a = Some h2 \<and> ring h2 l [] \<and> unchanged {a} l h1 h2"
    if "lh_items h1 = lh_items h" "list_head h1 = list_head h" for h1
    using remove_unlocked_clears [of h1 l a bs] ring_same [OF that] ring len by metis
  from locked_section [OF free this] obtain h' where
      "do { h \<leftarrow> llist_lock h l; h \<leftarrow> llist_remove_unlocked h l a; llist_unlock h l } = Some h'"
      "ring h' l []" "unchanged {a} l h h'"
    by metis
  moreover from ring obtain L where "lh_lists h l = Some L" "ll_list L \<noteq> NULL" "l \<noteq> NULL" "a \<noteq> NULL"
    by (auto simp: ring_def list_head_Some)
  ultimately show ?thesis using that by (simp add: llist_remove_def)
qed

end
