(* ===== verification/Llist_Iface.thy ===== *)
theory Llist_Iface
  imports Llist_Ring
begin

text \<open>
  The contracts under which the rest of the kernel uses \<open>llist\<close>, as locales interpreted on the
  operations of \<open>llist.c\<close>, and the properties of the list.
  \<^item> \<open>item_stack\<close>: what \<open>pop\<close> promises. Its client is the loop that pops items until \<open>NULL\<close>
    and handles each one (\<open>sched_processes\<close>, \<open>cond_signal\<close>), \<open>drain\<close> below.
  \<^item> \<open>item_seq\<close>: what \<open>append\<close>, \<open>count\<close> and \<open>get\<close> promise together.
\<close>

section \<open>Draining a list\<close>

partial_function (option) drain ::
    "('h \<Rightarrow> (addr \<times> 'h) option) \<Rightarrow> (addr \<Rightarrow> 'h \<Rightarrow> 'h option) \<Rightarrow> 'h \<Rightarrow> 'h option" where
  "drain pop body h = do {
     (item, h) \<leftarrow> pop h;
     if item = NULL then Some h
     else do {
       h \<leftarrow> body item h;
       drain pop body h
     }
   }"

declare drain.simps [code]

locale item_stack =
  fixes repr :: "'h \<Rightarrow> addr list \<Rightarrow> bool"
    and pop :: "'h \<Rightarrow> (addr \<times> 'h) option"
    and frame :: "'h \<Rightarrow> 'h \<Rightarrow> addr list \<Rightarrow> bool"
  assumes repr_null: "repr h xs \<Longrightarrow> NULL \<notin> set xs"
    and pop_empty: "repr h [] \<Longrightarrow> pop h = Some (NULL, h)"
    and pop_snoc: "repr h (xs @ [a]) \<Longrightarrow> \<exists>h'. pop h = Some (a, h') \<and> repr h' xs \<and> frame h h' xs"

text \<open>
  A client handles each popped item by \<open>body\<close>; \<open>handled h as\<close> says that the items \<open>as\<close> have been
  handled, in this order. The loop ends and handles all items, last one first.
\<close>

locale item_stack_client = item_stack +
  fixes body :: "addr \<Rightarrow> 'a \<Rightarrow> 'a option"
    and handled :: "'a \<Rightarrow> addr list \<Rightarrow> addr list \<Rightarrow> bool"
  assumes body_step:
    "repr h (xs @ [a]) \<Longrightarrow> handled h (xs @ [a]) as \<Longrightarrow> pop h = Some (a, h1) \<Longrightarrow> repr h1 xs \<Longrightarrow>
     frame h h1 xs \<Longrightarrow> \<exists>h2. body a h1 = Some h2 \<and> repr h2 xs \<and> handled h2 xs (as @ [a])"
begin

lemma drain_all:
  "repr h xs \<Longrightarrow> handled h xs as \<Longrightarrow>
     \<exists>h'. drain pop body h = Some h' \<and> repr h' [] \<and> handled h' [] (as @ rev xs)"
proof (induction xs arbitrary: h as rule: rev_induct)
  case Nil
  then show ?case by (simp add: drain.simps [of pop body h] pop_empty)
next
  case (snoc a xs)
  from pop_snoc [OF snoc.prems(1)] obtain h1
    where h1: "pop h = Some (a, h1)" "repr h1 xs" "frame h h1 xs" by blast
  from body_step [OF snoc.prems h1] obtain h2
    where h2: "body a h1 = Some h2" "repr h2 xs" "handled h2 xs (as @ [a])" by blast
  from repr_null [OF snoc.prems(1)] have "a \<noteq> NULL" by auto
  with h1(1) h2(1) snoc.IH [OF h2(2,3)] show ?case
    by (simp add: drain.simps [of pop body h])
qed

end

interpretation lstack: item_stack "\<lambda>h. ring h l" "\<lambda>h. llist_pop_unlocked h l"
    "\<lambda>h h' xs. unchanged (set xs) l h h'" for l
proof unfold_locales
  show "NULL \<notin> set xs" if "ring h l xs" for h xs using that by (simp add: ring_def)
  show "llist_pop_unlocked h l = Some (NULL, h)" if "ring h l []" for h
    using that by (rule pop_unlocked_Nil)
  show "\<exists>h'. llist_pop_unlocked h l = Some (a, h') \<and> ring h' l xs \<and> unchanged (set xs) l h h'"
    if "ring h l (xs @ [a])" for h xs a using that by (rule pop_unlocked_ring) blast
qed

section \<open>Lists as sequences\<close>

locale item_seq =
  fixes repr :: "'h \<Rightarrow> addr list \<Rightarrow> bool"
    and append :: "'h \<Rightarrow> addr \<Rightarrow> 'h option"
    and count :: "'h \<Rightarrow> int option"
    and get :: "'h \<Rightarrow> nat \<Rightarrow> addr option"
    and fresh :: "'h \<Rightarrow> addr list \<Rightarrow> addr \<Rightarrow> bool"
  assumes append_repr:
    "repr h xs \<Longrightarrow> fresh h xs a \<Longrightarrow> \<exists>h'. append h a = Some h' \<and> repr h' (xs @ [a])"
    and count_repr: "repr h xs \<Longrightarrow> count h = Some (int (length xs))"
    and get_repr: "repr h xs \<Longrightarrow> get h i = Some (if i < length xs then xs ! i else NULL)"
begin

lemma append_count_get:
  assumes "repr h xs" and "fresh h xs a"
  shows "\<exists>h'. append h a = Some h' \<and> repr h' (xs @ [a]) \<and> count h' = Some (int (length xs) + 1) \<and>
     get h' (length xs) = Some a \<and> (\<forall>i < length xs. get h' i = get h i)"
proof -
  from append_repr [OF assms] obtain h' where h': "append h a = Some h'" "repr h' (xs @ [a])" by blast
  with count_repr [OF h'(2)] get_repr [OF h'(2)] get_repr [OF assms(1)] show ?thesis
    by (simp add: nth_append)
qed

end

interpretation lseq: item_seq "\<lambda>h xs. ring h l xs \<and> lock_word h l = Some 0"
    "\<lambda>h a. llist_append h l a" "\<lambda>h. llist_count h l" "\<lambda>h. llist_get h l"
    "\<lambda>h xs a. a \<noteq> NULL \<and> a \<notin> set xs \<and> lh_items h a \<noteq> None" for l
proof unfold_locales
  fix h xs a
  assume r: "ring h l xs \<and> lock_word h l = Some 0"
    and a: "a \<noteq> NULL \<and> a \<notin> set xs \<and> lh_items h a \<noteq> None"
  from r a obtain h' where "llist_append h l a = Some h'" "ring h' l (xs @ [a])"
      "unchanged (insert a (set xs)) l h h'"
    using llist_append_spec [of h l xs a] by metis
  with r show "\<exists>h'. llist_append h l a = Some h' \<and> ring h' l (xs @ [a]) \<and> lock_word h' l = Some 0"
    by (auto simp: unchanged_def)
next
  show "llist_count h l = Some (int (length xs))" if "ring h l xs \<and> lock_word h l = Some 0" for h xs
    using that by (simp add: llist_count_ring)
  show "llist_get h l i = Some (if i < length xs then xs ! i else NULL)"
    if "ring h l xs \<and> lock_word h l = Some 0" for h xs i
    using that by (simp add: llist_get_ring)
qed

section \<open>Properties\<close>

text \<open>A store with three unlinked items at 1, 2, 3 and an empty list at 100.\<close>

definition ex_heap :: lheap where
  "ex_heap = \<lparr>lh_items = (\<lambda>a. if a \<in> {1, 2, 3} then Some \<lparr>item_data = 10 * a, item_prev = 0, item_next = 0\<rparr> else None),
     lh_lists = (\<lambda>l. if l = 100 then Some \<lparr>ll_list = 0, ll_lock = 0\<rparr> else None)\<rparr>"

text \<open>The list \<open>1, 2, ..., n\<close> in the same store.\<close>

definition ex_ring :: "nat \<Rightarrow> lheap" where
  "ex_ring n = \<lparr>lh_items = (\<lambda>a. if 1 \<le> a \<and> a \<le> n
       then Some \<lparr>item_data = 10 * a, item_prev = (if a = 1 then n else a - 1), item_next = (if a = n then 1 else Suc a)\<rparr>
       else None),
     lh_lists = (\<lambda>l. if l = 100 then Some \<lparr>ll_list = 1, ll_lock = 0\<rparr> else None)\<rparr>"

lemma ring_ex_heap: "ring ex_heap 100 []"
  by (simp add: ring_def ex_heap_def list_head_def)

lemma ring_ex_ring: "ring (ex_ring 2) 100 [1, 2]" "ring (ex_ring 3) 100 [1, 2, 3]"
  by (simp_all add: ring_def ex_ring_def list_head_def cyc_def nx_def pv_def)

text \<open>
  C14 (append, count, get). Appending an item that is in no list to a well-formed list returns,
  gives the list with the item at its end and the lock free again; \<open>llist_count\<close> then returns
  one more than before, \<open>llist_get\<close> finds the item at the last index and every other item where
  it was.
\<close>

theorem llist_append_count_get:
  assumes "ring h l xs \<and> lock_word h l = Some 0"
    and "a \<noteq> NULL \<and> a \<notin> set xs \<and> lh_items h a \<noteq> None"
  shows "\<exists>h'. llist_append h l a = Some h' \<and> (ring h' l (xs @ [a]) \<and> lock_word h' l = Some 0) \<and>
     llist_count h' l = Some (int (length xs) + 1) \<and> llist_get h' l (length xs) = Some a \<and>
     (\<forall>i < length xs. llist_get h' l i = llist_get h l i)"
  by (rule lseq.append_count_get [OF assms])

theorem llist_append_count_get_witness:
  "\<exists>h'. llist_append ex_heap 100 2 = Some h' \<and> ring h' 100 [2] \<and> llist_count h' 100 = Some 1 \<and>
     llist_get h' 100 0 = Some 2"
  using llist_append_count_get [of ex_heap 100 "[]" 2] ring_ex_heap
  by (auto simp: ex_heap_def lock_word_def)

text \<open>
  Popping a well-formed list removes and returns its last item, and leaves the data
  of all items, the items of other lists and the lock alone; popping an empty list returns
  \<open>NULL\<close> and changes nothing.
\<close>

theorem llist_pop_last:
  assumes "ring h l xs"
  shows "if xs = [] then llist_pop_unlocked h l = Some (NULL, h)
     else \<exists>h'. llist_pop_unlocked h l = Some (last xs, h') \<and> ring h' l (butlast xs) \<and>
            unchanged (set (butlast xs)) l h h'"
  using assms lstack.pop_empty lstack.pop_snoc [of h l "butlast xs" "last xs"] by auto

theorem llist_pop_last_witness:
  "\<exists>h'. llist_pop_unlocked (ex_ring 3) 100 = Some (3, h') \<and> ring h' 100 [1, 2]"
  using llist_pop_last [OF ring_ex_ring(2)] by auto

text \<open>
  Removing an item that is not the first one takes exactly this item out of a
  well-formed list and leaves the list well formed, the lock free and everything else alone.
\<close>

theorem llist_remove_inner:
  assumes "ring h l (xs @ a # ys)" and "xs \<noteq> []" and "lock_word h l = Some 0"
  shows "\<exists>h'. llist_remove h l a = Some h' \<and> ring h' l (xs @ ys) \<and> lock_word h' l = Some 0 \<and>
     unchanged (set (xs @ a # ys)) l h h'"
proof -
  from assms obtain h' where "llist_remove h l a = Some h'" "ring h' l (xs @ ys)"
      "unchanged (set (xs @ a # ys)) l h h'"
    by (rule llist_remove_spec)
  with assms(3) show ?thesis by (auto simp: unchanged_def)
qed

theorem llist_remove_inner_witness:
  "\<exists>h'. llist_remove (ex_ring 3) 100 2 = Some h' \<and> ring h' 100 [1, 3]"
proof -
  have "lock_word (ex_ring 3) 100 = Some 0" by (simp add: ex_ring_def lock_word_def)
  with llist_remove_inner [of "ex_ring 3" 100 "[1]" 2 "[3]"] ring_ex_ring(2) show ?thesis by auto
qed

text \<open>
  C15 (removing the first item). If the item removed is the first one of a list with at least
  three items, the list head still points at it afterwards although its links are cleared, so
  the list is well formed for no sequence of items; with exactly two items the list becomes
  empty and the item that was to stay is lost.
\<close>

theorem llist_remove_first_breaks:
  assumes "ring h l (a # b # xs)"
  shows "\<exists>h'. llist_remove_unlocked h l a = Some h' \<and>
     (if xs = [] then list_head h' l = Some NULL
      else list_head h' l = Some a \<and> (\<forall>ys. \<not> ring h' l ys))"
proof -
  from assms have a: "a \<noteq> NULL" by (auto simp: ring_def)
  from assms obtain h' where h': "llist_remove_unlocked h l a = Some h'"
      "list_head h' l = Some (if xs = [] then NULL else a)" "nx h' a = Some NULL"
    by (rule remove_unlocked_first)
  have "\<not> ring h' l ys" if "xs \<noteq> []" for ys
  proof
    assume r: "ring h' l ys"
    with h'(2) that a have ys: "ys \<noteq> []" "hd ys = a" by (auto simp: ring_def split: if_splits)
    have "nx h' a \<in> Some ` set ys"
    proof (cases "tl ys")
      case Nil
      with ys r show ?thesis by (cases ys) (auto simp: ring_def cyc_def)
    next
      case (Cons y zs)
      with ys r show ?thesis by (cases ys) (auto simp: ring_def cyc_def)
    qed
    with h'(3) r show False by (auto simp: ring_def)
  qed
  with h' show ?thesis by auto
qed

theorem llist_remove_first_breaks_witness:
  "\<exists>h'. llist_remove_unlocked (ex_ring 3) 100 1 = Some h' \<and> list_head h' 100 = Some 1 \<and>
     (\<forall>ys. \<not> ring h' 100 ys)"
  using llist_remove_first_breaks [OF ring_ex_ring(2)] by auto

text \<open>
  On a well-formed list the loop \<open>while(llist_iterate(...))\<close> ends and sees the
  data of exactly the items of the list, in list order.
\<close>

theorem llist_iteration_complete:
  assumes "ring h l xs"
  shows "do { it \<leftarrow> llist_iterator_init h l \<lparr>it_first = i, it_curr = j\<rparr>; iterate_all h it } =
    Some (map (\<lambda>a. the (dat h a)) xs)"
  using iterate_all_ring [OF assms] by (simp add: comp_def)

theorem llist_iteration_complete_witness:
  "do { it \<leftarrow> llist_iterator_init (ex_ring 3) 100 \<lparr>it_first = 7, it_curr = 8\<rparr>; iterate_all (ex_ring 3) it } =
    Some [10, 20, 30]"
  using llist_iteration_complete [OF ring_ex_ring(2), of 7 8] by (simp add: ex_ring_def dat_def)

end
