(* ===== verification/Cbuff.thy ===== *)
theory Cbuff
  imports Lambda_Prelude
begin

text \<open>
  The circular byte buffer of \<open>kernel/src/data/cbuff.c\<close>. A \<open>cbuff_t *\<close> argument is a
  \<open>cbuff option\<close> (\<open>None\<close> is \<open>NULL\<close>); the field \<open>buff\<close> is the memory from the buffer's address on
  (\<open>None\<close> is \<open>NULL\<close>), so that a write past \<open>size\<close> bytes would be visible. Indices and counts
  are 32-bit and wrap, as \<open>uint32_t\<close> does. The interface \<open>byte_fifo\<close> states what the users of
  the buffer rely on (a bounded first-in first-out queue) and is interpreted on the operations.
\<close>

section \<open>Data and operations\<close>

record cbuff =
  cb_begin :: u32
  cb_count :: u32
  cb_size :: u32
  cb_buff :: "(nat \<Rightarrow> u8) option"

definition WRAP :: "u32 \<Rightarrow> u32 \<Rightarrow> u32" where
  "WRAP n m = (if m \<le> n then n - m else n)"

text \<open>
  \<open>kmalloced\<close> is what \<open>kmalloc\<close> returned. \<open>memset(buff, 0, sizeof(&buff))\<close> clears as many bytes
  as a pointer has, 4: the field \<open>begin\<close> only.
\<close>

definition cbuff_allocate :: "(nat \<Rightarrow> u8) option \<Rightarrow> cbuff \<Rightarrow> u32 \<Rightarrow> int \<times> cbuff" where
  "cbuff_allocate kmalloced b sz =
     (if sz = 0 then (- 1, b)
      else let b1 = b\<lparr>cb_begin := 0, cb_size := sz, cb_buff := kmalloced\<rparr> in
        (if kmalloced = None then (- 1, b1) else (0, b1)))"

definition cbuff_free :: "cbuff \<Rightarrow> cbuff" where
  "cbuff_free b = \<lparr>cb_begin = 0, cb_count = 0, cb_size = 0, cb_buff = None\<rparr>"

definition cbuff_put :: "u8 \<Rightarrow> cbuff option \<Rightarrow> int \<times> cbuff option" where
  "cbuff_put data buff =
     (case buff of None \<Rightarrow> (- EINVAL, buff)
      | Some b \<Rightarrow>
          (case cb_buff b of None \<Rightarrow> (- EINVAL, buff)
           | Some mem \<Rightarrow>
               if cb_size b \<le> cb_count b then (- ENOMEM, buff)
               else (0, Some (b\<lparr>cb_buff := Some (mem(unat (WRAP (cb_begin b + cb_count b) (cb_size b)) := data)),
                                cb_count := cb_count b + 1\<rparr>))))"

definition cbuff_get :: "cbuff option \<Rightarrow> int \<times> cbuff option" where
  "cbuff_get buff =
     (case buff of None \<Rightarrow> (- EINVAL, buff)
      | Some b \<Rightarrow>
          (case cb_buff b of None \<Rightarrow> (- EINVAL, buff)
           | Some mem \<Rightarrow>
               if cb_count b = 0 then (- ENOMEM, buff)
               else (int (unat (mem (unat (cb_begin b)))),
                     Some (b\<lparr>cb_begin := WRAP (cb_begin b + 1) (cb_size b),
                             cb_count := cb_count b - 1\<rparr>))))"

text \<open>\<open>while(size--)\<close> of \<open>cbuff_write\<close>, from index \<open>i\<close> of the data on.\<close>

fun cbuff_write_loop :: "(nat \<Rightarrow> u8) \<Rightarrow> nat \<Rightarrow> nat \<Rightarrow> cbuff option \<Rightarrow> int \<times> cbuff option" where
  "cbuff_write_loop data i 0 buff = (0, buff)"
| "cbuff_write_loop data i (Suc n) buff =
     (let (err, buff1) = cbuff_put (data i) buff in
      if err \<noteq> 0 then (err, buff1) else cbuff_write_loop data (Suc i) n buff1)"

definition cbuff_write :: "(nat \<Rightarrow> u8) option \<Rightarrow> u32 \<Rightarrow> cbuff option \<Rightarrow> int \<times> cbuff option" where
  "cbuff_write data sz buff =
     (case (data, buff) of
        (Some d, Some b) \<Rightarrow>
          if cb_buff b = None then (- EINVAL, buff)
          else if cb_size b - cb_count b < sz then (- ENOMEM, buff)
          else cbuff_write_loop d 0 (unat sz) buff
      | _ \<Rightarrow> (- EINVAL, buff))"

text \<open>The result: the value returned, the data read so far and the buffer.\<close>

fun cbuff_read_loop :: "nat \<Rightarrow> cbuff option \<Rightarrow> int \<times> u8 list \<times> cbuff option" where
  "cbuff_read_loop 0 buff = (0, [], buff)"
| "cbuff_read_loop (Suc n) buff =
     (let (err, buff1) = cbuff_get buff in
      if (of_int err :: u32) AND 0xFFFFFF00 \<noteq> 0 then (err, [], buff1)
      else let (r, ds, buff2) = cbuff_read_loop n buff1 in (r, of_int err # ds, buff2))"

definition cbuff_read :: "bool \<Rightarrow> u32 \<Rightarrow> cbuff option \<Rightarrow> int \<times> u8 list \<times> cbuff option" where
  "cbuff_read data_nonnull sz buff =
     (case buff of None \<Rightarrow> (- EINVAL, [], buff)
      | Some b \<Rightarrow>
          if \<not> data_nonnull \<or> cb_buff b = None then (- EINVAL, [], buff)
          else if cb_count b < sz then (- ENODATA, [], buff)
          else cbuff_read_loop (unat sz) buff)"

section \<open>The invariant and the contents\<close>

definition cbuff_wf :: "cbuff option \<Rightarrow> bool" where
  "cbuff_wf buff = (case buff of None \<Rightarrow> False | Some b \<Rightarrow>
     cb_buff b \<noteq> None \<and> cb_begin b < cb_size b \<and> cb_count b \<le> cb_size b \<and> unat (cb_size b) \<le> 2 ^ 31)"

definition contents :: "cbuff option \<Rightarrow> u8 list" where
  "contents buff = (case buff of None \<Rightarrow> [] | Some b \<Rightarrow>
     map (\<lambda>i. the (cb_buff b) ((unat (cb_begin b) + i) mod unat (cb_size b))) [0..<unat (cb_count b)])"

definition capacity :: "cbuff option \<Rightarrow> nat" where
  "capacity buff = (case buff of None \<Rightarrow> 0 | Some b \<Rightarrow> unat (cb_size b))"

lemma cbuff_wfD:
  assumes "cbuff_wf buff"
  obtains b mem where "buff = Some b" "cb_buff b = Some mem"
    "unat (cb_begin b) < unat (cb_size b)" "unat (cb_count b) \<le> unat (cb_size b)"
    "unat (cb_size b) \<le> 2147483648"
  using assms that by (auto simp: cbuff_wf_def word_less_nat_alt word_le_nat_alt split: option.splits)

lemma length_contents: "buff = Some b \<Longrightarrow> length (contents buff) = unat (cb_count b)"
  by (simp add: contents_def)

lemma WRAP_mod:
  assumes "unat n < 2 * unat m"
  shows "unat (WRAP n m) = unat n mod unat m"
proof (cases "m \<le> n")
  case True
  then have "unat m \<le> unat n" by (simp add: word_le_nat_alt)
  with True assms show ?thesis by (simp add: WRAP_def unat_sub_u32 mod_if)
next
  case False
  then show ?thesis by (simp add: WRAP_def word_le_nat_alt)
qed

lemma cbuff_put_wf:
  assumes "cbuff_wf buff" and "length (contents buff) < capacity buff"
  shows "\<exists>buff'. cbuff_put x buff = (0, buff') \<and> cbuff_wf buff' \<and>
    contents buff' = contents buff @ [x] \<and> capacity buff' = capacity buff"
proof -
  from assms(1) obtain b mem where b: "buff = Some b" "cb_buff b = Some mem"
    "unat (cb_begin b) < unat (cb_size b)" "unat (cb_count b) \<le> unat (cb_size b)"
    "unat (cb_size b) \<le> 2147483648" by (rule cbuff_wfD)
  let ?n = "unat (cb_size b)" and ?c = "unat (cb_count b)" and ?g = "unat (cb_begin b)"
  from assms(2) b have c: "?c < ?n" by (simp add: length_contents capacity_def)
  have sum: "unat (cb_begin b + cb_count b) = ?g + ?c" using b c by (intro unat_add_u32_lt) simp
  then have idx: "unat (WRAP (cb_begin b + cb_count b) (cb_size b)) = (?g + ?c) mod ?n"
    using b(3) c by (simp add: WRAP_mod)
  let ?b' = "b\<lparr>cb_buff := Some (mem((?g + ?c) mod ?n := x)), cb_count := cb_count b + 1\<rparr>"
  have c1: "unat (cb_count b + 1) = Suc ?c" using b(5) c by (intro unat_Suc_u32) simp
  have put: "cbuff_put x buff = (0, Some ?b')"
    using b c idx by (simp add: cbuff_put_def word_le_nat_alt)
  have "(?g + i) mod ?n \<noteq> (?g + ?c) mod ?n" if "i < ?c" for i
  proof
    assume "(?g + i) mod ?n = (?g + ?c) mod ?n"
    then have "?n dvd (?g + ?c) - (?g + i)" using that by (metis mod_eq_dvd_iff_nat add_left_mono less_imp_le)
    with that c show False by (auto dest: dvd_imp_le)
  qed
  then have "contents (Some ?b') = contents buff @ [x]"
    using b c1 by (simp add: contents_def)
  moreover have "cbuff_wf (Some ?b')"
    using b c c1 by (simp add: cbuff_wf_def word_less_nat_alt word_le_nat_alt)
  ultimately show ?thesis using put b by (simp add: capacity_def)
qed

lemma cbuff_get_wf:
  assumes "cbuff_wf buff" and "contents buff = x # xs"
  shows "\<exists>buff'. cbuff_get buff = (int (unat x), buff') \<and> cbuff_wf buff' \<and> contents buff' = xs \<and>
    capacity buff' = capacity buff"
proof -
  from assms(1) obtain b mem where b: "buff = Some b" "cb_buff b = Some mem"
    "unat (cb_begin b) < unat (cb_size b)" "unat (cb_count b) \<le> unat (cb_size b)"
    "unat (cb_size b) \<le> 2147483648" by (rule cbuff_wfD)
  let ?n = "unat (cb_size b)" and ?c = "unat (cb_count b)" and ?g = "unat (cb_begin b)"
  from assms(2) b have len: "?c = Suc (length xs)" by (metis length_contents length_Cons)
  then have c0: "cb_count b \<noteq> 0" by (metis nat.distinct(1) unat_0)
  have g1: "unat (cb_begin b + 1) = Suc ?g" using b by (intro unat_Suc_u32) simp
  then have idx: "unat (WRAP (cb_begin b + 1) (cb_size b)) = Suc ?g mod ?n"
    using b(3) by (simp add: WRAP_mod)
  let ?b' = "b\<lparr>cb_begin := WRAP (cb_begin b + 1) (cb_size b), cb_count := cb_count b - 1\<rparr>"
  have c1: "unat (cb_count b - 1) = length xs" using len c0 by (simp add: unat_pred_u32)
  have split: "contents buff = mem ?g # map (\<lambda>i. mem ((?g + Suc i) mod ?n)) [0..<length xs]"
    using b len by (simp add: contents_def upt_conv_Cons map_Suc_upt [symmetric] comp_def del: upt_Suc)
  then have x: "x = mem ?g" and xs: "xs = map (\<lambda>i. mem ((?g + Suc i) mod ?n)) [0..<length xs]"
    using assms(2) by simp_all
  have "contents (Some ?b') = xs"
    using b c1 idx by (subst xs) (simp add: contents_def mod_simps)
  moreover have "cbuff_get buff = (int (unat x), Some ?b')"
    using b c0 x by (simp add: cbuff_get_def)
  moreover have "cbuff_wf (Some ?b')"
    using b c1 len idx by (simp add: cbuff_wf_def word_less_nat_alt word_le_nat_alt)
  ultimately show ?thesis using b by (simp add: capacity_def)
qed

section \<open>The interface: a bounded first-in first-out queue of bytes\<close>

text \<open>
  The loops of the users of a queue (\<open>_write\<close> and \<open>_read\<close> of \<open>fs/stream.c\<close>): put bytes until
  all are in or one is refused, get bytes until there are enough or none is left.
\<close>

fun fifo_fill :: "(u8 \<Rightarrow> 'q \<Rightarrow> int \<times> 'q) \<Rightarrow> (nat \<Rightarrow> u8) \<Rightarrow> nat \<Rightarrow> nat \<Rightarrow> 'q \<Rightarrow> nat \<times> 'q" where
  "fifo_fill put data count 0 q = (count, q)"
| "fifo_fill put data count (Suc n) q =
     (let (r, q1) = put (data count) q in
      if r \<ge> 0 then fifo_fill put data (Suc count) n q1 else (count, q1))"

fun fifo_take :: "('q \<Rightarrow> int \<times> 'q) \<Rightarrow> nat \<Rightarrow> 'q \<Rightarrow> u8 list \<times> 'q" where
  "fifo_take get 0 q = ([], q)"
| "fifo_take get (Suc n) q =
     (let (r, q1) = get q in
      if r \<ge> 0 then let (ds, q2) = fifo_take get n q1 in (of_int r # ds, q2) else ([], q1))"

locale byte_fifo =
  fixes wf :: "'q \<Rightarrow> bool"
    and elems :: "'q \<Rightarrow> u8 list"
    and cap :: "'q \<Rightarrow> nat"
    and put :: "u8 \<Rightarrow> 'q \<Rightarrow> int \<times> 'q"
    and get :: "'q \<Rightarrow> int \<times> 'q"
  assumes bounded: "wf q \<Longrightarrow> length (elems q) \<le> cap q"
    and put_ok: "wf q \<Longrightarrow> length (elems q) < cap q \<Longrightarrow>
      \<exists>q'. put x q = (0, q') \<and> wf q' \<and> elems q' = elems q @ [x] \<and> cap q' = cap q"
    and put_full: "wf q \<Longrightarrow> length (elems q) = cap q \<Longrightarrow> \<exists>e < 0. put x q = (e, q)"
    and get_ok: "wf q \<Longrightarrow> elems q = x # xs \<Longrightarrow>
      \<exists>q'. get q = (int (unat x), q') \<and> wf q' \<and> elems q' = xs \<and> cap q' = cap q"
    and get_empty: "wf q \<Longrightarrow> elems q = [] \<Longrightarrow> \<exists>e < 0. get q = (e, q)"
begin

lemma fill_spec:
  "wf q \<Longrightarrow> \<exists>q'. fifo_fill put data i n q = (i + min n (cap q - length (elems q)), q') \<and> wf q' \<and>
     elems q' = elems q @ map data [i..<i + min n (cap q - length (elems q))] \<and> cap q' = cap q"
proof (induction n arbitrary: i q)
  case 0
  then show ?case by auto
next
  case (Suc n)
  show ?case
  proof (cases "length (elems q) < cap q")
    case True
    from put_ok [OF Suc.prems this, of "data i"] obtain q1 where
      q1: "put (data i) q = (0, q1)" "wf q1" "elems q1 = elems q @ [data i]" "cap q1 = cap q" by blast
    have m: "min (Suc n) (cap q - length (elems q)) = Suc (min n (cap q1 - length (elems q1)))"
      using True q1 by simp
    from Suc.IH [OF q1(2), of "Suc i"] show ?thesis
      unfolding m using q1 by (auto simp: upt_conv_Cons simp del: upt_Suc)
  next
    case False
    with bounded [OF Suc.prems] have "length (elems q) = cap q" by simp
    with put_full [OF Suc.prems this, of "data i"] Suc.prems show ?thesis by auto
  qed
qed

lemma take_spec:
  "wf q \<Longrightarrow> \<exists>q'. fifo_take get n q = (take n (elems q), q') \<and> wf q' \<and>
     elems q' = drop n (elems q) \<and> cap q' = cap q"
proof (induction n arbitrary: q)
  case 0
  then show ?case by simp
next
  case (Suc n)
  show ?case
  proof (cases "elems q")
    case Nil
    with get_empty [OF Suc.prems this] Suc.prems show ?thesis by auto
  next
    case (Cons x xs)
    from get_ok [OF Suc.prems this] obtain q1 where
      q1: "get q = (int (unat x), q1)" "wf q1" "elems q1 = xs" "cap q1 = cap q" by blast
    from Suc.IH [OF q1(2)] obtain q2 where
      q2: "fifo_take get n q1 = (take n xs, q2)" "wf q2" "elems q2 = drop n xs" "cap q2 = cap q1"
      using q1(3) by auto
    then show ?thesis using q1 Cons by simp
  qed
qed

text \<open>What was filled in can be taken out again, in the order it was put, behind what was there.\<close>

lemma fill_take:
  assumes "wf q" and "n \<le> cap q - length (elems q)"
  obtains q1 q2 where "fifo_fill put data 0 n q = (n, q1)"
    "fifo_take get (length (elems q) + n) q1 = (elems q @ map data [0..<n], q2)" "elems q2 = []" "wf q2"
proof -
  from fill_spec [OF assms(1), of data 0 n] assms(2) obtain q1 where
    q1: "fifo_fill put data 0 n q = (n, q1)" "wf q1" "elems q1 = elems q @ map data [0..<n]"
    by (auto simp: min_absorb1)
  from take_spec [OF q1(2), of "length (elems q) + n"] q1(3) obtain q2 where
    "fifo_take get (length (elems q) + n) q1 = (elems q @ map data [0..<n], q2)" "elems q2 = []" "wf q2"
    by auto
  with q1 that show thesis by blast
qed

end

lemma contents_le_capacity: "cbuff_wf q \<Longrightarrow> length (contents q) \<le> capacity q"
  by (elim cbuff_wfD) (simp add: length_contents capacity_def)

lemma cbuff_put_full:
  "cbuff_wf q \<Longrightarrow> length (contents q) = capacity q \<Longrightarrow> cbuff_put x q = (- ENOMEM, q)"
  by (elim cbuff_wfD) (simp add: length_contents capacity_def cbuff_put_def word_le_nat_alt)

lemma cbuff_get_empty: "cbuff_wf q \<Longrightarrow> contents q = [] \<Longrightarrow> cbuff_get q = (- ENOMEM, q)"
  by (elim cbuff_wfD) (auto simp: contents_def cbuff_get_def unat_eq_zero)

interpretation cfifo: byte_fifo cbuff_wf contents capacity cbuff_put cbuff_get
proof unfold_locales
  show "length (contents q) \<le> capacity q" if "cbuff_wf q" for q
    using that by (rule contents_le_capacity)
  show "\<exists>q'. cbuff_put x q = (0, q') \<and> cbuff_wf q' \<and> contents q' = contents q @ [x] \<and> capacity q' = capacity q"
    if "cbuff_wf q" "length (contents q) < capacity q" for q x
    using that by (rule cbuff_put_wf)
  show "\<exists>e<0. cbuff_put x q = (e, q)" if "cbuff_wf q" "length (contents q) = capacity q" for q x
    using cbuff_put_full [OF that, of x] by simp
  show "\<exists>q'. cbuff_get q = (int (unat x), q') \<and> cbuff_wf q' \<and> contents q' = xs \<and> capacity q' = capacity q"
    if "cbuff_wf q" "contents q = x # xs" for q x xs
    using that by (rule cbuff_get_wf)
  show "\<exists>e<0. cbuff_get q = (e, q)" if "cbuff_wf q" "contents q = []" for q
    using cbuff_get_empty [OF that] by simp
qed

section \<open>Block transfers\<close>

lemma write_loop_fill:
  "cbuff_wf q \<Longrightarrow> n \<le> capacity q - length (contents q) \<Longrightarrow>
     \<exists>q'. cbuff_write_loop data i n q = (0, q') \<and> cbuff_wf q' \<and>
       contents q' = contents q @ map data [i..<i + n] \<and> capacity q' = capacity q"
proof (induction n arbitrary: i q)
  case 0
  then show ?case by simp
next
  case (Suc n)
  from Suc.prems have "length (contents q) < capacity q" by simp
  from cfifo.put_ok [OF Suc.prems(1) this, of "data i"] obtain q1 where
    q1: "cbuff_put (data i) q = (0, q1)" "cbuff_wf q1" "contents q1 = contents q @ [data i]"
      "capacity q1 = capacity q" by blast
  with Suc.prems have "n \<le> capacity q1 - length (contents q1)" by simp
  from Suc.IH [OF q1(2) this, of "Suc i"] show ?case
    using q1 by (auto simp: upt_conv_Cons simp del: upt_Suc)
qed

lemma byte_no_error_bits: "(of_int (int (unat (x :: u8))) :: u32) AND 0xFFFFFF00 = 0"
proof -
  have "(of_int (int (unat x)) :: u32) = ucast x" by (simp add: unsigned_of_nat)
  moreover have "(ucast x :: u32) AND 0xFFFFFF00 = 0"
  proof (rule bit_word_eqI)
    fix n assume n: "n < LENGTH(32)"
    have m: "(0xFFFFFF00 :: u32) = NOT (mask 8)" by (simp add: mask_eq_exp_minus_1)
    from n show "bit ((ucast x :: u32) AND 0xFFFFFF00) n \<longleftrightarrow> bit (0 :: u32) n"
      unfolding m by (auto simp: bit_simps dest: bit_imp_le_length)
  qed
  ultimately show ?thesis by simp
qed

lemma read_loop_take:
  "cbuff_wf q \<Longrightarrow> n \<le> length (contents q) \<Longrightarrow>
     \<exists>q'. cbuff_read_loop n q = (0, take n (contents q), q') \<and> cbuff_wf q' \<and>
       contents q' = drop n (contents q) \<and> capacity q' = capacity q"
proof (induction n arbitrary: q)
  case 0
  then show ?case by simp
next
  case (Suc n)
  then obtain x xs where x: "contents q = x # xs" by (cases "contents q") auto
  from cfifo.get_ok [OF Suc.prems(1) x] obtain q1 where
    q1: "cbuff_get q = (int (unat x), q1)" "cbuff_wf q1" "contents q1 = xs" "capacity q1 = capacity q" by blast
  from Suc.IH [OF q1(2)] q1(3) x Suc.prems(2) obtain q2 where
    "cbuff_read_loop n q1 = (0, take n xs, q2)" "cbuff_wf q2" "contents q2 = drop n xs" "capacity q2 = capacity q1"
    by auto
  then show ?case using q1 x byte_no_error_bits [of x] by simp
qed

lemma free_space:
  "cbuff_wf (Some b) \<Longrightarrow> unat (cb_size b - cb_count b) = capacity (Some b) - length (contents (Some b))"
  by (elim cbuff_wfD) (simp add: capacity_def length_contents unat_sub_u32 word_le_nat_alt)

lemma cbuff_write_spec:
  assumes "cbuff_wf q"
  shows "if unat n \<le> capacity q - length (contents q)
     then \<exists>q'. cbuff_write (Some data) n q = (0, q') \<and> cbuff_wf q' \<and>
       contents q' = contents q @ map data [0..<unat n] \<and> capacity q' = capacity q
     else cbuff_write (Some data) n q = (- ENOMEM, q)"
proof -
  from assms obtain b mem where b: "q = Some b" "cb_buff b = Some mem" by (rule cbuff_wfD)
  have "cb_size b - cb_count b < n \<longleftrightarrow> \<not> unat n \<le> capacity q - length (contents q)"
    using free_space [of b] assms b by (simp add: word_less_nat_alt not_le)
  then show ?thesis using write_loop_fill [OF assms, of "unat n" data 0] b
    by (simp add: cbuff_write_def)
qed

lemma cbuff_read_spec:
  assumes "cbuff_wf q"
  shows "if unat n \<le> length (contents q)
     then \<exists>q'. cbuff_read True n q = (0, take (unat n) (contents q), q') \<and> cbuff_wf q' \<and>
       contents q' = drop (unat n) (contents q) \<and> capacity q' = capacity q
     else cbuff_read True n q = (- ENODATA, [], q)"
proof -
  from assms obtain b mem where b: "q = Some b" "cb_buff b = Some mem" by (rule cbuff_wfD)
  have "cb_count b < n \<longleftrightarrow> \<not> unat n \<le> length (contents q)"
    using b by (simp add: length_contents word_less_nat_alt not_le)
  then show ?thesis using read_loop_take [OF assms, of "unat n"] b
    by (simp add: cbuff_read_def)
qed

section \<open>Properties\<close>

text \<open>A buffer of four bytes with two bytes in it, the second one past the wrap.\<close>

definition ex_cbuff :: "cbuff option" where
  "ex_cbuff = Some \<lparr>cb_begin = 3, cb_count = 2, cb_size = 4, cb_buff = Some ((\<lambda>_. 0)(3 := 7, 0 := 8))\<rparr>"

lemma ex_cbuff_facts: "cbuff_wf ex_cbuff" "contents ex_cbuff = [7, 8]" "capacity ex_cbuff = 4"
  by (simp_all add: ex_cbuff_def cbuff_wf_def contents_def capacity_def upt_rec)

text \<open>
  C16 (put and get). On a well-formed buffer, \<open>cbuff_put\<close> and \<open>cbuff_get\<close> are the operations of a
  bounded first-in first-out queue on \<open>contents\<close>, and keep the buffer well formed: a put appends
  the byte and returns 0, or, when the buffer is full, returns \<open>-ENOMEM\<close> and changes nothing; a
  get removes and returns the oldest byte, or, when there is none, returns \<open>-ENOMEM\<close> and changes
  nothing.
\<close>

theorem cbuff_is_fifo:
  assumes "cbuff_wf q"
  shows "(if length (contents q) < capacity q
      then \<exists>q'. cbuff_put x q = (0, q') \<and> cbuff_wf q' \<and> contents q' = contents q @ [x] \<and> capacity q' = capacity q
      else cbuff_put x q = (- ENOMEM, q)) \<and>
    (case contents q of
       [] \<Rightarrow> cbuff_get q = (- ENOMEM, q)
     | y # ys \<Rightarrow> \<exists>q'. cbuff_get q = (int (unat y), q') \<and> cbuff_wf q' \<and> contents q' = ys \<and> capacity q' = capacity q)"
  using cfifo.put_ok [OF assms, of x] cbuff_put_full [OF assms, of x] cfifo.bounded [OF assms]
    cfifo.get_ok [OF assms] cbuff_get_empty [OF assms]
  by (auto split: list.split)

theorem cbuff_is_fifo_witness:
  "(\<exists>q'. cbuff_put 9 ex_cbuff = (0, q') \<and> contents q' = [7, 8, 9]) \<and>
   (\<exists>q'. cbuff_get ex_cbuff = (7, q') \<and> contents q' = [8])"
  using cbuff_is_fifo [OF ex_cbuff_facts(1), of 9] by (auto simp: ex_cbuff_facts)

text \<open>
  \<open>cbuff_write\<close> takes a block whole or, when it does not fit, returns
  \<open>-ENOMEM\<close> and leaves the buffer alone; after a block was written, \<open>cbuff_read\<close> of everything in
  the buffer returns what was there before followed by the block, and empties the buffer.
\<close>

theorem cbuff_write_read:
  assumes "cbuff_wf q"
  shows "if unat n \<le> capacity q - length (contents q)
    then \<exists>q1 q2. cbuff_write (Some data) n q = (0, q1) \<and>
      cbuff_read True (of_nat (length (contents q)) + n) q1 = (0, contents q @ map data [0..<unat n], q2) \<and>
      contents q2 = [] \<and> cbuff_wf q2
    else cbuff_write (Some data) n q = (- ENOMEM, q)"
proof (cases "unat n \<le> capacity q - length (contents q)")
  case True
  with cbuff_write_spec [OF assms, of n data] obtain q1 where
    q1: "cbuff_write (Some data) n q = (0, q1)" "cbuff_wf q1" "contents q1 = contents q @ map data [0..<unat n]"
      "capacity q1 = capacity q" by auto
  let ?k = "of_nat (length (contents q)) + n :: u32"
  have "length (contents q1) \<le> capacity q1" "capacity q1 < 4294967296"
    using cfifo.bounded [OF q1(2)] by (auto simp: capacity_def split: option.split)
  then have "unat ?k = length (contents q1)"
    using q1(3) by (simp add: unat_add_u32 unat_of_nat_u32)
  with cbuff_read_spec [OF q1(2), of ?k] obtain q2 where
    "cbuff_read True ?k q1 = (0, contents q1, q2)" "cbuff_wf q2" "contents q2 = []" by auto
  with True q1 show ?thesis by auto
next
  case False
  with cbuff_write_spec [OF assms, of n data] show ?thesis by simp
qed

theorem cbuff_write_read_witness:
  "(\<exists>q1 q2. cbuff_write (Some (\<lambda>i. of_nat i + 1)) 2 ex_cbuff = (0, q1) \<and>
      cbuff_read True 4 q1 = (0, [7, 8, 1, 2], q2) \<and> contents q2 = []) \<and>
   cbuff_write (Some (\<lambda>i. 0)) 3 ex_cbuff = (- ENOMEM, ex_cbuff)"
  using cbuff_write_read [OF ex_cbuff_facts(1), of 2 "\<lambda>i. of_nat i + 1"]
    cbuff_write_read [OF ex_cbuff_facts(1), of 3 "\<lambda>i. 0"]
  by (auto simp: ex_cbuff_facts upt_rec)

end
