(* ===== verification/Tlock.thy ===== *)
theory Tlock
  imports Katomic Cbuff
begin

text \<open>
  The thread-aware lock of \<open>kernel/src/proc/atomic/tlock.c\<close>: a spin lock, and a circular buffer
  with the condition variables of the waiting threads (\<open>tlock_thread_t\<close> is one pointer, 4 bytes).
  \<open>cond\<close> is the pointer \<open>cond_create\<close> returned, as the bytes stored in the buffer (\<open>None\<close> for
  \<open>NULL\<close>); \<open>env k\<close> is what other threads do to the lock during the \<open>k\<close>-th \<open>run_sched\<close>; and
  \<open>cond_wait\<close> is the call of that name.
\<close>

record tlock =
  tl_lock :: lock_t
  tl_thread_lock :: lock_t
  tl_threads :: cbuff

section \<open>Operations\<close>

text \<open>\<open>CONFIG_PROC_TLOCK_THREADS * sizeof(tlock_thread_t)\<close> is 16.\<close>

definition tlock_init :: "(nat \<Rightarrow> u8) option \<Rightarrow> int \<times> tlock" where
  "tlock_init kmalloced =
     (let (ret, threads) = cbuff_allocate kmalloced \<lparr>cb_begin = 0, cb_count = 0, cb_size = 0, cb_buff = None\<rparr> 16;
          tk = \<lparr>tl_lock = 0, tl_thread_lock = 0, tl_threads = threads\<rparr> in
      (if ret \<noteq> 0 then (- 1, tk) else (0, tk)))"

definition tlock_destroy :: "tlock \<Rightarrow> tlock" where
  "tlock_destroy tk = tk\<lparr>tl_threads := cbuff_free (tl_threads tk)\<rparr>"

text \<open>
  The loop of \<open>tlock_acquire\<close>. Its condition reads the \<open>ret\<close> declared before the loop; the \<open>ret\<close>
  that \<open>cbuff_write\<close> assigns (\<open>r\<close> here) is declared in the loop's body.
\<close>

partial_function (option) tlock_wait ::
    "(nat \<Rightarrow> tlock \<Rightarrow> tlock) \<Rightarrow> (nat \<Rightarrow> u8) \<Rightarrow> nat \<Rightarrow> int \<Rightarrow> tlock \<Rightarrow> tlock option" where
  "tlock_wait env thread k ret tk =
     (if ret = 0 then Some tk
      else do {
        l \<leftarrow> lock uncontended 0 (tl_thread_lock tk);
        let (r, threads) = cbuff_write (Some thread) 4 (Some (tl_threads tk));
        if r \<noteq> 0 \<and> r \<noteq> - ENOMEM then None
        else tlock_wait env thread (Suc k) ret
               (env k (tk\<lparr>tl_thread_lock := unlock l, tl_threads := the threads\<rparr>))
      })"

declare tlock_wait.simps [code]

definition tlock_acquire ::
    "(nat \<Rightarrow> tlock \<Rightarrow> tlock) \<Rightarrow> (nat \<Rightarrow> u8) option \<Rightarrow> (tlock \<Rightarrow> tlock option) \<Rightarrow> tlock \<Rightarrow> tlock option" where
  "tlock_acquire env cond cond_wait tk =
     (let (t, l) = lock_try (tl_lock tk); tk = tk\<lparr>tl_lock := l\<rparr> in
      if t \<noteq> 0 then Some tk
      else (case cond of None \<Rightarrow> None
            | Some c \<Rightarrow> do {
                tk \<leftarrow> tlock_wait env c 0 1 tk;
                cond_wait tk
              }))"

text \<open>The lock afterwards, and the condition variable signalled, if any.\<close>

definition tlock_release :: "tlock \<Rightarrow> (tlock \<times> u8 list option) option" where
  "tlock_release tk = do {
     l \<leftarrow> lock uncontended 0 (tl_thread_lock tk);
     if cb_count (tl_threads tk) = 0
     then Some (tk\<lparr>tl_thread_lock := unlock l, tl_lock := unlock (tl_lock tk)\<rparr>, None)
     else do {
       let (r, thread, threads) = cbuff_read True 4 (Some (tl_threads tk));
       if r \<noteq> 0 then None
       else Some (tk\<lparr>tl_thread_lock := unlock l, tl_threads := the threads\<rparr>, Some thread)
     }
   }"

section \<open>Lemmas\<close>

text \<open>The waiting loop can only end by its condition, and nothing in it makes that false.\<close>

lemma tlock_wait_ends:
  assumes "tlock_wait env thread k ret tk = Some r"
  shows "ret = 0"
proof (rule tlock_wait.raw_induct [where P = "\<lambda>env thread k ret tk r. ret = 0", OF _ assms])
  fix f :: "(nat \<Rightarrow> tlock \<Rightarrow> tlock) \<Rightarrow> (nat \<Rightarrow> u8) \<Rightarrow> nat \<Rightarrow> int \<Rightarrow> tlock \<Rightarrow> tlock option"
    and env thread k ret tk r
  assume IH: "\<And>env thread k ret tk r. f env thread k ret tk = Some r \<Longrightarrow> ret = 0"
    and eq: "(if ret = 0 then Some tk
      else do {
        l \<leftarrow> lock uncontended 0 (tl_thread_lock tk);
        let (r, threads) = cbuff_write (Some thread) 4 (Some (tl_threads tk));
        if r \<noteq> 0 \<and> r \<noteq> - ENOMEM then None
        else f env thread (Suc k) ret (env k (tk\<lparr>tl_thread_lock := unlock l, tl_threads := the threads\<rparr>))
      }) = Some r"
  then show "ret = 0" by (auto split: if_splits bind_splits prod.splits dest: IH)
qed

lemma tlock_acquire_free [simp]:
  "tl_lock tk = 0 \<Longrightarrow> tlock_acquire env cond cond_wait tk = Some (tk\<lparr>tl_lock := 1\<rparr>)"
  by (simp add: tlock_acquire_def lock_try_def)

lemma tlock_release_idle [simp]:
  "tl_thread_lock tk = 0 \<Longrightarrow> cb_count (tl_threads tk) = 0 \<Longrightarrow> tlock_release tk = Some (tk\<lparr>tl_lock := 0\<rparr>, None)"
  by (simp add: tlock_release_def unlock_def)

section \<open>Properties\<close>

text \<open>
  C12 (tlock). An acquisition of a free lock returns at once, and a release with no waiting thread
  frees the lock again. An acquisition of a held lock never returns, whatever the other
  threads do: the loop that enters the thread into the waiting list tests a variable that the
  result of entering it is never assigned to.
\<close>

theorem tlock_acquire_returns_iff_free:
  "(\<exists>r. tlock_acquire env cond cond_wait tk = Some r) \<longleftrightarrow> tl_lock tk = 0"
proof -
  have "tlock_wait env c 0 1 t = None" for c t
    using tlock_wait_ends [of env c 0 1 t] by (cases "tlock_wait env c 0 1 t") auto
  then show ?thesis by (auto simp: tlock_acquire_def lock_try_def split: option.split)
qed

text \<open>
  A release with waiting threads hands the lock, still held, to the thread
  that has waited longest: its condition variable is signalled, and the others stay in order. A
  release with none frees the lock.
\<close>

theorem tlock_release_first_waiter:
  assumes "cbuff_wf (Some (tl_threads tk))" and "tl_thread_lock tk = 0" and "length (contents (Some (tl_threads tk))) = 4 * n"
  shows "\<exists>tk' s. tlock_release tk = Some (tk', s) \<and> tl_thread_lock tk' = 0 \<and>
    (if n = 0 then s = None \<and> tl_lock tk' = 0 \<and> tl_threads tk' = tl_threads tk
     else s = Some (take 4 (contents (Some (tl_threads tk)))) \<and> tl_lock tk' = tl_lock tk \<and>
       cbuff_wf (Some (tl_threads tk')) \<and> contents (Some (tl_threads tk')) = drop 4 (contents (Some (tl_threads tk))))"
proof (cases "n = 0")
  case True
  with assms(3) have "cb_count (tl_threads tk) = 0" by (simp add: length_contents unat_eq_zero)
  with True assms(2) show ?thesis by simp
next
  case False
  with assms(3) have c: "cb_count (tl_threads tk) \<noteq> 0" by (auto simp: contents_def)
  from cbuff_read_spec [OF assms(1), of 4] False assms(3) obtain q where
    "cbuff_read True 4 (Some (tl_threads tk)) = (0, take 4 (contents (Some (tl_threads tk))), q)" "cbuff_wf q"
      "contents q = drop 4 (contents (Some (tl_threads tk)))" by auto
  moreover from this(2) obtain b where "q = Some b" by (rule cbuff_wfD)
  ultimately show ?thesis using c False assms(2) by (simp add: tlock_release_def unlock_def)
qed

definition ex_tlock :: tlock where
  "ex_tlock = \<lparr>tl_lock = 1, tl_thread_lock = 0, tl_threads = \<lparr>cb_begin = 12, cb_count = 8, cb_size = 16,
     cb_buff = Some (\<lambda>i. of_nat i)\<rparr>\<rparr>"

theorem tlock_release_first_waiter_witness:
  "\<exists>tk'. tlock_release ex_tlock = Some (tk', Some [12, 13, 14, 15]) \<and> tl_lock tk' = 1 \<and>
     contents (Some (tl_threads tk')) = [0, 1, 2, 3]"
proof -
  have c: "contents (Some (tl_threads ex_tlock)) = [12, 13, 14, 15, 0, 1, 2, 3]"
    by (simp add: ex_tlock_def contents_def upt_rec)
  have "cbuff_wf (Some (tl_threads ex_tlock))" by (simp add: ex_tlock_def cbuff_wf_def)
  from tlock_release_first_waiter [OF this, of 2] c show ?thesis by (auto simp: ex_tlock_def)
qed

end
