(* ===== verification/Fs.thy ===== *)
theory Fs
  imports Llist_Iface Tlock
begin

text \<open>
  The virtual file system of \<open>kernel/src/fs/fs.c\<close> and \<open>kernel/src/fs/stat.c\<close>.

  Files and handles are objects in stores. The list nodes that a \<open>kfile_t\<close> embeds live in a list
  store: \<open>&file->list_item\<close> is the item, and \<open>&file->children\<close> the list, at the file's own address.
  A name or path is the text of its C string. Function pointers are looked up in tables: an
  \<open>ops\<close> field holds the address of a constant table (\<open>NULL\<close> if none), and \<open>vfs_ops\<close> gives, for an
  address, the function in each slot (\<open>None\<close> if the slot is \<open>NULL\<close>).

  \<open>kmalloc\<close>'s result is an argument (\<open>new\<close>) of the operations that allocate an object they keep;
  the temporary copy of a path component in \<open>fs_find_file\<close> is not modelled.
  The configuration is the default one, with \<open>SAFETY_CHECK(x)\<close> being \<open>x\<close>.
  A dereferenced \<open>NULL\<close> or dangling pointer gives \<open>None\<close>.
\<close>

section \<open>Data\<close>

record kfile =
  kf_name :: string
  kf_length :: u32
  kf_impl :: u32
  kf_inode :: u32
  kf_uid :: u32
  kf_gid :: u32
  kf_link :: addr
  kf_pflags :: u32
  kf_flags :: u32
  kf_atime :: int
  kf_mtime :: int
  kf_ctime :: int
  kf_ops :: addr
  kf_info :: addr
  kf_file_lock :: tlock
  kf_parent :: addr

record kfile_hand =
  kh_open_flags :: u32
  kh_ops :: addr
  kh_lock :: tlock
  kh_file :: addr

record dirstream =
  ds_dir :: addr
  ds_current :: addr
  ds_prev :: addr

text \<open>\<open>fs_cbuffs\<close> and \<open>fs_mem\<close> are what the \<open>info\<close> fields of stream and initrd files point to.\<close>

record fs_state =
  fs_files :: "addr \<rightharpoonup> kfile"
  fs_hands :: "addr \<rightharpoonup> kfile_hand"
  fs_lists :: lheap
  fs_cbuffs :: "addr \<rightharpoonup> cbuff"
  fs_mem :: mem
  fs_root :: addr
  fs_c_inode :: u32

record vfs_ops =
  vo_open :: "addr \<rightharpoonup> (addr \<Rightarrow> addr \<Rightarrow> fs_state \<Rightarrow> (int \<times> fs_state) option)"
  vo_mkdir :: "addr \<rightharpoonup> (addr \<Rightarrow> string \<Rightarrow> u32 \<Rightarrow> fs_state \<Rightarrow> (int \<times> fs_state) option)"
  vo_create :: "addr \<rightharpoonup> (addr \<Rightarrow> string \<Rightarrow> u32 \<Rightarrow> fs_state \<Rightarrow> (int \<times> fs_state) option)"
  vh_close :: "addr \<rightharpoonup> (addr \<Rightarrow> fs_state \<Rightarrow> (int \<times> fs_state) option)"
  vh_read :: "addr \<rightharpoonup> (addr \<Rightarrow> u32 \<Rightarrow> u32 \<Rightarrow> fs_state \<Rightarrow> (int \<times> u8 list \<times> fs_state) option)"
  vh_write :: "addr \<rightharpoonup> (addr \<Rightarrow> u32 \<Rightarrow> u32 \<Rightarrow> (nat \<Rightarrow> u8) \<Rightarrow> fs_state \<Rightarrow> (int \<times> fs_state) option)"
  vh_ioctl :: "addr \<rightharpoonup> (addr \<Rightarrow> int \<Rightarrow> addr \<Rightarrow> fs_state \<Rightarrow> (int \<times> fs_state) option)"

abbreviation (input) OFLAGS_READ :: u32 where "OFLAGS_READ \<equiv> 0x00000001"
abbreviation (input) OFLAGS_WRITE :: u32 where "OFLAGS_WRITE \<equiv> 0x00000002"
abbreviation (input) OFLAGS_NONBLOCK :: u32 where "OFLAGS_NONBLOCK \<equiv> 0x00000080"
abbreviation (input) OFLAGS_DIRECTORY :: u32 where "OFLAGS_DIRECTORY \<equiv> 0x00000800"
abbreviation (input) OFLAGS_OPEN :: u32 where "OFLAGS_OPEN \<equiv> 0x80000000"

abbreviation (input) FS_FILE :: u32 where "FS_FILE \<equiv> 1"
abbreviation (input) FS_DIR :: u32 where "FS_DIR \<equiv> 2"
abbreviation (input) FS_CHARDEV :: u32 where "FS_CHARDEV \<equiv> 4"
abbreviation (input) FS_BLCKDEV :: u32 where "FS_BLCKDEV \<equiv> 8"
abbreviation (input) FS_PIPE :: u32 where "FS_PIPE \<equiv> 16"
abbreviation (input) FS_SYMLINK :: u32 where "FS_SYMLINK \<equiv> 32"
abbreviation (input) FS_STREAM :: u32 where "FS_STREAM \<equiv> 128"

definition tlock_zero :: tlock where
  "tlock_zero = \<lparr>tl_lock = 0, tl_thread_lock = 0, tl_threads = \<lparr>cb_begin = 0, cb_count = 0, cb_size = 0, cb_buff = None\<rparr>\<rparr>"

definition kfile_zero :: kfile where
  "kfile_zero = \<lparr>kf_name = [], kf_length = 0, kf_impl = 0, kf_inode = 0, kf_uid = 0, kf_gid = 0, kf_link = NULL,
     kf_pflags = 0, kf_flags = 0, kf_atime = 0, kf_mtime = 0, kf_ctime = 0, kf_ops = NULL, kf_info = NULL,
     kf_file_lock = tlock_zero, kf_parent = NULL\<rparr>"

definition hand_zero :: kfile_hand where
  "hand_zero = \<lparr>kh_open_flags = 0, kh_ops = NULL, kh_lock = tlock_zero, kh_file = NULL\<rparr>"

text \<open>Updates of one object, and the locks of files and handles as a single thread sees them.\<close>

definition upd_file :: "addr \<Rightarrow> (kfile \<Rightarrow> kfile) \<Rightarrow> fs_state \<Rightarrow> fs_state option" where
  "upd_file f g w = do { F \<leftarrow> fs_files w f; Some (w\<lparr>fs_files := (fs_files w)(f \<mapsto> g F)\<rparr>) }"

definition upd_hand :: "addr \<Rightarrow> (kfile_hand \<Rightarrow> kfile_hand) \<Rightarrow> fs_state \<Rightarrow> fs_state option" where
  "upd_hand h g w = do { H \<leftarrow> fs_hands w h; Some (w\<lparr>fs_hands := (fs_hands w)(h \<mapsto> g H)\<rparr>) }"

definition tlock_take :: "tlock \<Rightarrow> tlock option" where
  "tlock_take tk = tlock_acquire (\<lambda>_ t. t) None (\<lambda>_. None) tk"

definition file_lock :: "addr \<Rightarrow> fs_state \<Rightarrow> fs_state option" where
  "file_lock f w = do { F \<leftarrow> fs_files w f; tk \<leftarrow> tlock_take (kf_file_lock F); upd_file f (kf_file_lock_update (\<lambda>_. tk)) w }"

definition file_unlock :: "addr \<Rightarrow> fs_state \<Rightarrow> fs_state option" where
  "file_unlock f w = do { F \<leftarrow> fs_files w f; (tk, s) \<leftarrow> tlock_release (kf_file_lock F); upd_file f (kf_file_lock_update (\<lambda>_. tk)) w }"

definition hand_lock :: "addr \<Rightarrow> fs_state \<Rightarrow> fs_state option" where
  "hand_lock h w = do { H \<leftarrow> fs_hands w h; tk \<leftarrow> tlock_take (kh_lock H); upd_hand h (kh_lock_update (\<lambda>_. tk)) w }"

definition hand_unlock :: "addr \<Rightarrow> fs_state \<Rightarrow> fs_state option" where
  "hand_unlock h w = do { H \<leftarrow> fs_hands w h; (tk, s) \<leftarrow> tlock_release (kh_lock H); upd_hand h (kh_lock_update (\<lambda>_. tk)) w }"

section \<open>Files and directories\<close>

text \<open>\<open>lockbuf\<close>: what \<open>kmalloc\<close> returned to \<open>tlock_init\<close>.\<close>

definition fs_add_file :: "(nat \<Rightarrow> u8) option \<Rightarrow> addr \<Rightarrow> addr \<Rightarrow> fs_state \<Rightarrow> (int \<times> fs_state) option" where
  "fs_add_file lockbuf file parent w =
     (if fs_root w = NULL then None else if file = NULL then None
      else do {
        let inode = fs_c_inode w;
        let w = w\<lparr>fs_c_inode := inode + 1\<rparr>;
        let (ret, tk) = tlock_init lockbuf;
        w \<leftarrow> upd_file file (\<lambda>F. F\<lparr>kf_inode := inode, kf_file_lock := tk\<rparr>) w;
        if ret < 0 then Some (ret, w)
        else do {
          let parent = (if parent = NULL then fs_root w else parent);
          _ \<leftarrow> fs_files w parent;
          it \<leftarrow> lh_items (fs_lists w) file;
          let h = (fs_lists w)\<lparr>lh_items := (lh_items (fs_lists w))(file \<mapsto> it\<lparr>item_data := file\<rparr>)\<rparr>;
          h \<leftarrow> llist_append h parent file;
          w \<leftarrow> upd_file file (\<lambda>F. F\<lparr>kf_parent := parent\<rparr>) (w\<lparr>fs_lists := h\<rparr>);
          let h = llist_init (fs_lists w) file;
          Some (sint inode, w\<lparr>fs_lists := h\<rparr>)
        }
      })"

definition fs_finddir :: "fs_state \<Rightarrow> addr \<Rightarrow> string \<Rightarrow> addr option" where
  "fs_finddir w f name =
     (if f = NULL then Some NULL
      else do {
        L \<leftarrow> lh_lists (fs_lists w) f;
        if ll_list L = NULL then Some NULL
        else do {
          iter \<leftarrow> llist_iterator_init (fs_lists w) f \<lparr>it_first = NULL, it_curr = NULL\<rparr>;
          r \<leftarrow> iterate_find (fs_lists w) (\<lambda>file. do { F \<leftarrow> fs_files w file; Some (kf_name F = name) }) iter;
          Some (case r of None \<Rightarrow> NULL | Some file \<Rightarrow> file)
        }
      })"

lemma after_sep_shorter:
  assumes "dropWhile P xs = y # ys"
  shows "length ys < length xs"
  using length_dropWhile_le [of P xs] assms by simp

function fs_find_file :: "fs_state \<Rightarrow> addr \<Rightarrow> string \<Rightarrow> addr option" where
  "fs_find_file w f path =
     (case path of
        [] \<Rightarrow> Some NULL
      | c # rest \<Rightarrow> do {
          let f = (if f = NULL then fs_root w else f);
          if c = CHR ''.'' then
            (case rest of
               d # rest' \<Rightarrow>
                 if d = CHR ''.'' then do {
                   F \<leftarrow> fs_files w f;
                   if rest' \<noteq> [] then fs_find_file w (kf_parent F) (if hd rest' = CHR ''/'' then tl rest' else rest')
                   else Some (kf_parent F)
                 }
                 else fs_find_file w f (if d = CHR ''/'' then rest' else rest)
             | [] \<Rightarrow> Some f)
          else if c = CHR ''/'' then
            (if rest \<noteq> [] then fs_find_file w (fs_root w) rest else Some (fs_root w))
          else (case dropWhile (\<lambda>c. c \<noteq> CHR ''/'') path of
                  [] \<Rightarrow> fs_finddir w f path
                | _ # after \<Rightarrow> do {
                    g \<leftarrow> fs_finddir w f (takeWhile (\<lambda>c. c \<noteq> CHR ''/'') path);
                    if g \<noteq> NULL then fs_find_file w g after else Some NULL
                  })
        })"
  by pat_completeness auto

termination
  by (relation "measure (\<lambda>(w, f, path). length path)")
    (auto simp: neq_Nil_conv less_Suc_eq_le dest!: after_sep_shorter)

declare fs_find_file.simps [simp del]

text \<open>The entry returned (inode and name) and the stream; \<open>kmalloc\<close> of the entry is taken to succeed.\<close>

definition fs_readdir :: "fs_state \<Rightarrow> dirstream option \<Rightarrow> ((u32 \<times> string) option \<times> dirstream option) option" where
  "fs_readdir w d =
     (case d of None \<Rightarrow> Some (None, d)
      | Some D \<Rightarrow>
          if ds_dir D = NULL then Some (None, d)
          else if ds_current D = NULL then Some (None, Some (D\<lparr>ds_prev := NULL\<rparr>))
          else do {
            C \<leftarrow> fs_files w (ds_current D);
            it \<leftarrow> lh_items (fs_lists w) (ds_current D);
            L \<leftarrow> lh_lists (fs_lists w) (ds_dir D);
            cur \<leftarrow> (if item_next it = ll_list L then Some NULL
                    else do { n \<leftarrow> lh_items (fs_lists w) (item_next it); Some (item_data n) });
            Some (Some (kf_inode C, kf_name C), Some (D\<lparr>ds_prev := ds_current D, ds_current := cur\<rparr>))
          })"

definition fs_dirfile :: "dirstream option \<Rightarrow> addr" where
  "fs_dirfile d = (case d of None \<Rightarrow> NULL | Some D \<Rightarrow> ds_prev D)"

definition fs_opendir :: "fs_state \<Rightarrow> addr \<Rightarrow> dirstream option option" where
  "fs_opendir w f =
     (if f = NULL then Some None
      else do {
        L \<leftarrow> lh_lists (fs_lists w) f;
        it \<leftarrow> lh_items (fs_lists w) (ll_list L);
        Some (Some \<lparr>ds_dir = f, ds_current = item_data it, ds_prev = NULL\<rparr>)
      })"

section \<open>Open files\<close>

definition fs_read :: "vfs_ops \<Rightarrow> addr \<Rightarrow> u32 \<Rightarrow> u32 \<Rightarrow> fs_state \<Rightarrow> (int \<times> u8 list \<times> fs_state) option" where
  "fs_read V hand off sz w =
     (if hand = NULL then Some (0, [], w)
      else do {
        H \<leftarrow> fs_hands w hand;
        if kh_ops H = NULL then Some (0, [], w)
        else (case vh_read V (kh_ops H) of Some rd \<Rightarrow> rd hand off sz w | None \<Rightarrow> Some (0, [], w))
      })"

definition fs_write :: "vfs_ops \<Rightarrow> addr \<Rightarrow> u32 \<Rightarrow> u32 \<Rightarrow> (nat \<Rightarrow> u8) \<Rightarrow> fs_state \<Rightarrow> (int \<times> fs_state) option" where
  "fs_write V hand off sz buff w =
     (if hand = NULL then Some (0, w)
      else do {
        H \<leftarrow> fs_hands w hand;
        if kh_ops H = NULL then Some (0, w)
        else (case vh_write V (kh_ops H) of Some wr \<Rightarrow> wr hand off sz buff w | None \<Rightarrow> Some (0, w))
      })"

definition fs_open :: "vfs_ops \<Rightarrow> addr \<Rightarrow> addr \<Rightarrow> fs_state \<Rightarrow> (int \<times> fs_state) option" where
  "fs_open V f hand w =
     (if f = NULL \<or> hand = NULL then Some (- EINVAL, w)
      else do {
        H \<leftarrow> fs_hands w hand;
        if kh_open_flags H AND OFLAGS_OPEN \<noteq> 0 then Some (- EINVAL, w)
        else do {
          F \<leftarrow> fs_files w f;
          case (if kf_ops F = NULL then None else vo_open V (kf_ops F)) of
            Some opn \<Rightarrow> opn f hand w
          | None \<Rightarrow> do {
              w \<leftarrow> upd_hand hand (\<lambda>H. H\<lparr>kh_open_flags := kh_open_flags H OR OFLAGS_OPEN, kh_file := f\<rparr>) w;
              Some (0, w)
            }
        }
      })"

definition fs_close :: "vfs_ops \<Rightarrow> addr \<Rightarrow> fs_state \<Rightarrow> (int \<times> fs_state) option" where
  "fs_close V hand w =
     (if hand = NULL then Some (- EINVAL, w)
      else do {
        H \<leftarrow> fs_hands w hand;
        w \<leftarrow> (case (if kh_ops H = NULL then None else vh_close V (kh_ops H)) of
               Some cl \<Rightarrow> do { (r, w) \<leftarrow> cl hand w; Some w }
             | None \<Rightarrow> Some w);
        w \<leftarrow> hand_lock hand w;
        w \<leftarrow> upd_hand hand (kh_open_flags_update (\<lambda>_. 0)) w;
        w \<leftarrow> hand_unlock hand w;
        Some (0, w)
      })"

text \<open>The slot of the table at \<open>a\<close>; reading it faults when \<open>a\<close> is \<open>NULL\<close>.\<close>

definition slot :: "(addr \<rightharpoonup> 'f) \<Rightarrow> addr \<Rightarrow> 'f option option" where
  "slot table a = (if a = NULL then None else Some (table a))"

text \<open>
  The three wrappers below test \<open>SAFETY_CHECK(f->ops)\<close> without a negation; with \<open>ops\<close> equal to
  \<open>NULL\<close> the next operand of \<open>||\<close> dereferences it.
\<close>

definition fs_mkdir :: "vfs_ops \<Rightarrow> addr \<Rightarrow> string \<Rightarrow> u32 \<Rightarrow> fs_state \<Rightarrow> (int \<times> fs_state) option" where
  "fs_mkdir V f name perms w =
     (if f = NULL then Some (- EINVAL, w)
      else do {
        F \<leftarrow> fs_files w f;
        if kf_ops F \<noteq> NULL then Some (- EINVAL, w)
        else do {
          op \<leftarrow> slot (vo_mkdir V) (kf_ops F);
          case op of None \<Rightarrow> Some (- EINVAL, w) | Some g \<Rightarrow> g f name perms w
        }
      })"

definition fs_create :: "vfs_ops \<Rightarrow> addr \<Rightarrow> string \<Rightarrow> u32 \<Rightarrow> fs_state \<Rightarrow> (int \<times> fs_state) option" where
  "fs_create V f name perms w =
     (if f = NULL then Some (- EINVAL, w)
      else do {
        F \<leftarrow> fs_files w f;
        if kf_ops F \<noteq> NULL then Some (- EINVAL, w)
        else do {
          op \<leftarrow> slot (vo_create V) (kf_ops F);
          case op of None \<Rightarrow> Some (- EINVAL, w) | Some g \<Rightarrow> g f name perms w
        }
      })"

definition fs_ioctl :: "vfs_ops \<Rightarrow> addr \<Rightarrow> int \<Rightarrow> addr \<Rightarrow> fs_state \<Rightarrow> (int \<times> fs_state) option" where
  "fs_ioctl V hand req args w =
     (if hand = NULL then Some (- EINVAL, w)
      else do {
        H \<leftarrow> fs_hands w hand;
        if kh_ops H \<noteq> NULL then Some (- EINVAL, w)
        else do {
          op \<leftarrow> slot (vh_ioctl V) (kh_ops H);
          case op of None \<Rightarrow> Some (- EINVAL, w) | Some g \<Rightarrow> g hand req args w
        }
      })"

definition fs_handle_create :: "addr \<Rightarrow> fs_state \<Rightarrow> addr \<times> fs_state" where
  "fs_handle_create new w =
     (if new = NULL then (NULL, w) else (new, w\<lparr>fs_hands := (fs_hands w)(new \<mapsto> hand_zero)\<rparr>))"

definition fs_handle_destroy :: "addr \<Rightarrow> fs_state \<Rightarrow> int \<times> fs_state" where
  "fs_handle_destroy hand w =
     (if hand = NULL then (- EINVAL, w) else (0, w\<lparr>fs_hands := (fs_hands w)(hand := None)\<rparr>))"

definition fs_handle_create_open :: "vfs_ops \<Rightarrow> addr \<Rightarrow> addr \<Rightarrow> u32 \<Rightarrow> fs_state \<Rightarrow> (addr \<times> fs_state) option" where
  "fs_handle_create_open V new f flags w =
     (if f = NULL then Some (NULL, w)
      else do {
        let (hand, w) = fs_handle_create new w;
        if hand = NULL then Some (NULL, w)
        else do {
          w \<leftarrow> upd_hand hand (kh_open_flags_update (\<lambda>_. flags)) w;
          (r, w) \<leftarrow> fs_open V f hand w;
          if r \<noteq> 0 then Some (NULL, snd (fs_handle_destroy hand w)) else Some (hand, w)
        }
      })"

section \<open>File information\<close>

record kstat =
  st_dev_id :: u32
  st_rdev_id :: u32
  st_inode :: u64
  st_mode :: u32
  st_n_link :: u32
  st_uid :: u32
  st_gid :: u32
  st_size :: u64
  st_alloc_size :: u64
  st_atime :: int
  st_btime :: int
  st_ctime :: int
  st_mtime :: int
  st_blksize :: u32

text \<open>The loop that follows symbolic links; it does not end on a cycle of links.\<close>

partial_function (option) link_target :: "fs_state \<Rightarrow> addr \<Rightarrow> addr option" where
  "link_target w f = do {
     F \<leftarrow> fs_files w f;
     if kf_flags F AND FS_SYMLINK \<noteq> 0 \<and> kf_link F \<noteq> NULL then link_target w (kf_link F) else Some f
   }"

declare link_target.simps [code]

definition kfstat :: "fs_state \<Rightarrow> addr \<Rightarrow> kstat option \<Rightarrow> (int \<times> kstat option) option" where
  "kfstat w f buf =
     (case buf of None \<Rightarrow> Some (- EINVAL, buf)
      | Some B \<Rightarrow>
          if f = NULL then Some (- EINVAL, buf)
          else do {
            F \<leftarrow> fs_files w f;
            let B = B\<lparr>st_dev_id := 0, st_rdev_id := 0, st_n_link := 0, st_uid := kf_uid F, st_gid := kf_gid F,
              st_inode := ucast (kf_inode F), st_mode := kf_pflags F, st_ctime := kf_ctime F, st_mtime := kf_mtime F\<rparr>;
            t \<leftarrow> link_target w f;
            T \<leftarrow> fs_files w t;
            Some (0, Some (B\<lparr>st_size := ucast (kf_length T), st_blksize := 1, st_alloc_size := ucast (kf_length T)\<rparr>))
          })"

definition kstat_any :: kstat where
  "kstat_any = \<lparr>st_dev_id = 0, st_rdev_id = 0, st_inode = 0, st_mode = 0, st_n_link = 0, st_uid = 0, st_gid = 0,
     st_size = 0, st_alloc_size = 0, st_atime = 0, st_btime = 0, st_ctime = 0, st_mtime = 0, st_blksize = 0\<rparr>"

text \<open>\<open>buf_ok\<close>: whether \<open>kmalloc\<close> of the result buffer succeeds. The result: value returned and data.\<close>

definition read_file :: "vfs_ops \<Rightarrow> bool \<Rightarrow> addr \<Rightarrow> u32 \<Rightarrow> fs_state \<Rightarrow> (int \<times> u8 list option \<times> fs_state) option" where
  "read_file V buf_ok file max_sz w = do {
     let max_sz = (if max_sz = 0 then 0xFFFFFFFF else max_sz);
     H \<leftarrow> fs_hands w file;
     (r, st) \<leftarrow> kfstat w (kh_file H) (Some kstat_any);
     if r \<noteq> 0 then Some (- 1, None, w)
     else do {
       let max_sz = (if st_size (the st) < ucast max_sz then ucast (st_size (the st)) else max_sz);
       if \<not> buf_ok then Some (- ENOMEM, None, w)
       else do {
         (n, data, w) \<leftarrow> fs_read V file 0 max_sz w;
         if n < 0 then Some (n, None, w) else Some (0, Some data, w)
       }
     }
   }"

definition fs_read_file_by_path ::
    "vfs_ops \<Rightarrow> addr \<Rightarrow> bool \<Rightarrow> string option \<Rightarrow> addr \<Rightarrow> u32 \<Rightarrow> fs_state \<Rightarrow> (int \<times> u8 list option \<times> fs_state) option" where
  "fs_read_file_by_path V new buf_ok path cwd max_sz w =
     (case path of None \<Rightarrow> Some (- EINVAL, None, w)
      | Some p \<Rightarrow> do {
          let cwd = (if cwd = NULL then fs_root w else cwd);
          f \<leftarrow> fs_find_file w cwd p;
          if f = NULL then Some (- ENOENT, None, w)
          else do {
            (hand, w) \<leftarrow> fs_handle_create_open V new f OFLAGS_READ w;
            if hand = NULL then Some (- EUNSPEC, None, w)
            else do {
              (r, data, w) \<leftarrow> read_file V buf_ok hand max_sz w;
              Some (r, data, snd (fs_handle_destroy hand w))
            }
          }
        })"

definition fs_get_root :: "fs_state \<Rightarrow> addr" where
  "fs_get_root w = fs_root w"

text \<open>\<open>PERMISSIONS(PERM_RWE, PERM_RE, PERM_RE)\<close> is octal 755.\<close>

definition fs_init :: "addr \<Rightarrow> fs_state \<Rightarrow> fs_state" where
  "fs_init new w =
     (if new = NULL then w\<lparr>fs_root := NULL\<rparr>
      else w\<lparr>fs_root := new,
             fs_files := (fs_files w)(new \<mapsto> kfile_zero\<lparr>kf_pflags := 0x1ED, kf_flags := FS_DIR\<rparr>),
             fs_lists := llist_init ((fs_lists w)\<lparr>lh_items := (lh_items (fs_lists w))(new \<mapsto>
               \<lparr>item_data = NULL, item_prev = NULL, item_next = NULL\<rparr>)\<rparr>) new\<rparr>)"

end
