(* ===== verification/Fs_Tree.thy ===== *)
theory Fs_Tree
  imports Fs
begin

text \<open>
  The directory tree behind the stores of \<open>Fs\<close>, and what the operations of \<open>fs.c\<close> do to it: path
  lookup, adding a file, reading a directory. The properties of the file system are at the end.
\<close>

section \<open>The tree\<close>

text \<open>\<open>kids d\<close>: the files in the directory \<open>d\<close>, in order; \<open>None\<close> where \<open>d\<close> is no file of the tree.\<close>

type_synonym kids = "addr \<rightharpoonup> addr list"

definition name_of :: "fs_state \<Rightarrow> addr \<Rightarrow> string" where
  "name_of w f = (case fs_files w f of None \<Rightarrow> [] | Some F \<Rightarrow> kf_name F)"

definition parent_of :: "fs_state \<Rightarrow> addr \<Rightarrow> addr option" where
  "parent_of w f = map_option kf_parent (fs_files w f)"

definition dir_ok :: "fs_state \<Rightarrow> kids \<Rightarrow> addr \<Rightarrow> addr list \<Rightarrow> bool" where
  "dir_ok w kids d xs \<longleftrightarrow> fs_files w d \<noteq> None \<and> ring (fs_lists w) d xs \<and> lock_word (fs_lists w) d = Some 0 \<and>
     (\<forall>c \<in> set xs. kids c \<noteq> None \<and> dat (fs_lists w) c = Some c \<and> parent_of w c = Some d)"

definition tree :: "fs_state \<Rightarrow> kids \<Rightarrow> bool" where
  "tree w kids \<longleftrightarrow> kids (fs_root w) \<noteq> None \<and> (\<forall>d xs. kids d = Some xs \<longrightarrow> dir_ok w kids d xs)"

lemma tree_dir: "tree w kids \<Longrightarrow> kids d = Some xs \<Longrightarrow> dir_ok w kids d xs"
  by (simp add: tree_def)

lemma tree_nonnull: "tree w kids \<Longrightarrow> kids d = Some xs \<Longrightarrow> d \<noteq> NULL"
  using tree_dir [of w kids d xs] by (auto simp: dir_ok_def ring_def)

lemma tree_child:
  assumes "tree w kids" "kids d = Some xs" "c \<in> set xs"
  shows "kids c \<noteq> None" "fs_files w c \<noteq> None" "c \<noteq> NULL"
proof -
  from tree_dir [OF assms(1,2)] assms(3) show k: "kids c \<noteq> None" by (auto simp: dir_ok_def)
  then obtain ys where "kids c = Some ys" by auto
  from tree_dir [OF assms(1) this] tree_nonnull [OF assms(1) this]
  show "fs_files w c \<noteq> None" "c \<noteq> NULL" by (auto simp: dir_ok_def)
qed

text \<open>Reading the tree by name.\<close>

definition child :: "fs_state \<Rightarrow> kids \<Rightarrow> addr \<Rightarrow> string \<Rightarrow> addr option" where
  "child w kids d name = (case kids d of None \<Rightarrow> None | Some xs \<Rightarrow> find (\<lambda>c. name_of w c = name) xs)"

fun resolve :: "fs_state \<Rightarrow> kids \<Rightarrow> addr \<Rightarrow> string list \<Rightarrow> addr option" where
  "resolve w kids d [] = Some d"
| "resolve w kids d (c # cs) = (case child w kids d c of None \<Rightarrow> None | Some g \<Rightarrow> resolve w kids g cs)"

definition or_null :: "addr option \<Rightarrow> addr" where
  "or_null r = (case r of None \<Rightarrow> NULL | Some a \<Rightarrow> a)"

lemma or_null_simps [simp]: "or_null None = NULL" "or_null (Some a) = a"
  by (simp_all add: or_null_def)

lemma child_kid: "tree w kids \<Longrightarrow> child w kids d n = Some g \<Longrightarrow> kids g \<noteq> None \<and> g \<noteq> NULL"
  by (auto simp: child_def split: option.splits dest!: find_in_set dest: tree_child)

lemma fs_finddir_child:
  assumes "tree w kids" "kids d \<noteq> None"
  shows "fs_finddir w d name = Some (or_null (child w kids d name))"
proof -
  let ?h = "fs_lists w"
  from assms(2) obtain xs where xs: "kids d = Some xs" by auto
  from tree_dir [OF assms(1) xs] have ok: "ring ?h d xs" "\<forall>c \<in> set xs. dat ?h c = Some c"
    by (auto simp: dir_ok_def)
  from tree_nonnull [OF assms(1) xs] have d: "d \<noteq> NULL" .
  from ok(1) obtain L where L: "lh_lists ?h d = Some L" "ll_list L = (if xs = [] then NULL else hd xs)"
    by (auto simp: ring_def list_head_Some)
  have dx: "map (the \<circ> dat ?h) xs = xs" using ok(2) by (auto intro: map_idI)
  show ?thesis
  proof (cases "xs = []")
    case True
    with d L xs show ?thesis by (simp add: fs_finddir_def child_def)
  next
    case False
    then have nz: "ll_list L \<noteq> NULL" using L(2) ok(1) by (cases xs) (auto simp: ring_def)
    from iterate_all_ring [OF ok(1), of NULL NULL] dx obtain it where
      it: "llist_iterator_init ?h d \<lparr>it_first = NULL, it_curr = NULL\<rparr> = Some it" "iterate_all ?h it = Some xs"
      by (auto split: bind_splits)
    let ?P = "\<lambda>file. do { F \<leftarrow> fs_files w file; Some (kf_name F = name) }"
    have "\<forall>c \<in> set xs. ?P c = Some (name_of w c = name)"
      using tree_child(2) [OF assms(1) xs] by (auto simp: name_of_def split: option.split)
    from iterate_find_all [OF it(2) this] d L nz it(1) xs show ?thesis
      by (simp add: fs_finddir_def child_def or_null_def)
  qed
qed

section \<open>Paths\<close>

definition plain :: "string \<Rightarrow> bool" where
  "plain c \<longleftrightarrow> c \<noteq> [] \<and> CHR ''/'' \<notin> set c \<and> hd c \<noteq> CHR ''.''"

fun join :: "string list \<Rightarrow> string" where
  "join [] = []"
| "join [c] = c"
| "join (c # cs) = c @ CHR ''/'' # join cs"

lemma find_file_plain:
  assumes "plain c" "kids d \<noteq> None" "tree w kids"
  shows "fs_find_file w d c = Some (or_null (child w kids d c))"
proof -
  from assms(1) obtain x xs where c: "c = x # xs" "x \<noteq> CHR ''.''" "x \<noteq> CHR ''/''"
    and no: "CHR ''/'' \<notin> set c" by (cases c) (auto simp: plain_def)
  from assms(2,3) have "d \<noteq> NULL" using tree_nonnull by auto
  moreover have "dropWhile (\<lambda>c. c \<noteq> CHR ''/'') c = []" using no by (auto simp: dropWhile_eq_Nil_conv)
  ultimately show ?thesis using c fs_finddir_child [OF assms(3,2), of c]
    by (simp add: fs_find_file.simps [of w d "x # xs"] del: dropWhile_eq_Nil_conv)
qed

lemma find_file_sep:
  assumes "plain c" "kids d \<noteq> None" "tree w kids"
  shows "fs_find_file w d (c @ CHR ''/'' # p) =
    (case child w kids d c of None \<Rightarrow> Some NULL | Some g \<Rightarrow> fs_find_file w g p)"
proof -
  from assms(1) obtain x xs where c: "c = x # xs" "x \<noteq> CHR ''.''" "x \<noteq> CHR ''/''"
    and no: "\<And>y. y \<in> set c \<Longrightarrow> y \<noteq> CHR ''/''" by (cases c) (auto simp: plain_def)
  let ?ns = "\<lambda>c. c \<noteq> CHR ''/''"
  have dw: "dropWhile ?ns (c @ CHR ''/'' # p) = CHR ''/'' # p" "takeWhile ?ns (c @ CHR ''/'' # p) = c"
    using no by (simp_all add: dropWhile_append takeWhile_append)
  from assms(2,3) have "d \<noteq> NULL" using tree_nonnull by auto
  with c dw fs_finddir_child [OF assms(3,2), of c] child_kid [OF assms(3), of d c] show ?thesis
    by (auto simp: fs_find_file.simps [of w d "x # _"] split: option.split)
qed

lemma find_file_join:
  assumes "tree w kids" "kids d \<noteq> None" "cs \<noteq> []" "\<forall>c \<in> set cs. plain c"
  shows "fs_find_file w d (join cs) = Some (or_null (resolve w kids d cs))"
  using assms(2-)
proof (induction cs arbitrary: d rule: join.induct)
  case (2 c)
  then show ?case using find_file_plain [of c kids d w] assms(1) by (auto split: option.split)
next
  case (3 c c' cs)
  show ?case
  proof (cases "child w kids d c")
    case None
    then show ?thesis using 3 find_file_sep [of c kids d w "join (c' # cs)"] assms(1) by simp
  next
    case (Some g)
    with child_kid [OF assms(1) this] 3 find_file_sep [of c kids d w "join (c' # cs)"] assms(1) show ?thesis by simp
  qed
qed simp

section \<open>Adding a file\<close>

lemma ring_set_data:
  assumes "lh_items h n = Some it"
  shows "ring (h\<lparr>lh_items := (lh_items h)(n \<mapsto> it\<lparr>item_data := v\<rparr>)\<rparr>) d xs = ring h d xs"
proof -
  let ?h = "h\<lparr>lh_items := (lh_items h)(n \<mapsto> it\<lparr>item_data := v\<rparr>)\<rparr>"
  have "nx ?h = nx h" "pv ?h = pv h" "list_head ?h = list_head h"
    using assms by (auto simp: nx_def pv_def list_head_def fun_eq_iff)
  then show ?thesis by (simp add: ring_def)
qed

lemma llist_init_ring:
  "d \<noteq> n \<Longrightarrow> ring (llist_init h n) d xs = ring h d xs" "n \<noteq> NULL \<Longrightarrow> ring (llist_init h n) n []"
  "lock_word (llist_init h n) d = (if d = n then Some 0 else lock_word h d)" "dat (llist_init h n) = dat h"
proof -
  let ?h = "llist_init h n"
  have "nx ?h = nx h" "pv ?h = pv h" by (auto simp: llist_init_def nx_def pv_def fun_eq_iff)
  moreover have "list_head ?h m = (if m = n then Some NULL else list_head h m)" for m
    by (simp add: llist_init_def list_head_def)
  ultimately show "d \<noteq> n \<Longrightarrow> ring ?h d xs = ring h d xs" "n \<noteq> NULL \<Longrightarrow> ring ?h n []"
    by (simp_all add: ring_def)
  show "lock_word ?h d = (if d = n then Some 0 else lock_word h d)" "dat ?h = dat h"
    by (auto simp: llist_init_def lock_word_def dat_def fun_eq_iff)
qed

lemma fs_add_file_lists:
  assumes t: "tree w kids" and p: "kids p = Some xs" and n: "kids n = None" "n \<noteq> NULL" "lh_items (fs_lists w) n = Some it"
  obtains h1 where "llist_append ((fs_lists w)\<lparr>lh_items := (lh_items (fs_lists w))(n \<mapsto> it\<lparr>item_data := n\<rparr>)\<rparr>) p n = Some h1"
    "ring (llist_init h1 n) p (xs @ [n])" "ring (llist_init h1 n) n []"
    "dat (llist_init h1 n) = (dat (fs_lists w))(n \<mapsto> n)"
    "\<And>d ys. kids d = Some ys \<Longrightarrow> d \<noteq> p \<Longrightarrow> ring (llist_init h1 n) d ys"
    "\<And>d. kids d \<noteq> None \<or> d = n \<Longrightarrow> lock_word (llist_init h1 n) d = Some 0"
proof -
  let ?h0 = "(fs_lists w)\<lparr>lh_items := (lh_items (fs_lists w))(n \<mapsto> it\<lparr>item_data := n\<rparr>)\<rparr>"
  note ok = tree_dir [OF t]
  have r0: "ring ?h0 d ys" if "kids d = Some ys" for d ys
    using ok [OF that] ring_set_data [OF n(3)] by (simp add: dir_ok_def)
  have l0: "lock_word ?h0 d = lock_word (fs_lists w) d" for d by (simp add: lock_word_def)
  have nk: "n \<notin> set ys" if "kids d = Some ys" for d ys
    using tree_child(1) [OF t that, of n] n(1) by auto
  have pn: "p \<noteq> n" using p n(1) by auto
  from llist_append_spec [OF r0 [OF p] nk [OF p] n(2)] ok [OF p] l0
  obtain h1 where h1: "llist_append ?h0 p n = Some h1" "ring h1 p (xs @ [n])"
      "unchanged (insert n (set xs)) p ?h0 h1" by (auto simp: dir_ok_def)
  show thesis
  proof (rule that [OF h1(1)])
    show "ring (llist_init h1 n) p (xs @ [n])" "ring (llist_init h1 n) n []"
      using h1(2) pn n(2) by (simp_all add: llist_init_ring)
    have "dat h1 = dat ?h0" using h1(3) by (simp add: unchanged_def)
    then show "dat (llist_init h1 n) = (dat (fs_lists w))(n \<mapsto> n)"
      by (simp add: llist_init_ring) (auto simp: dat_def fun_eq_iff)
    show "ring (llist_init h1 n) d ys" if d: "kids d = Some ys" "d \<noteq> p" for d ys
    proof -
      have "d \<noteq> n" using d(1) n(1) by auto
      moreover have "set ys \<inter> insert n (set xs) = {}"
        using ok [OF d(1)] ok [OF p] d(2) nk [OF d(1)] by (fastforce simp: dir_ok_def)
      ultimately show ?thesis
        using ring_unchanged [OF r0 [OF d(1)] h1(3) d(2)] by (simp add: llist_init_ring)
    qed
    show "lock_word (llist_init h1 n) d = Some 0" if "kids d \<noteq> None \<or> d = n" for d
    proof (cases "d = n")
      case False
      with that obtain ys where "kids d = Some ys" by auto
      from ok [OF this] have "lock_word ?h0 d = Some 0" by (simp add: dir_ok_def l0)
      moreover have "lock_word h1 d = lock_word ?h0 d"
        using h1(3) by (cases "d = p") (simp_all add: unchanged_def lock_word_def)
      ultimately show ?thesis using False by (simp add: llist_init_ring)
    qed (simp add: llist_init_ring)
  qed
qed

lemma fs_add_file_tree:
  fixes b :: "nat \<Rightarrow> u8"
  assumes t: "tree w kids" and p: "kids p = Some xs" and n: "kids n = None" "n \<noteq> NULL" "lh_items (fs_lists w) n \<noteq> None"
    and F: "fs_files w n = Some F"
  defines "F' \<equiv> F\<lparr>kf_inode := fs_c_inode w, kf_file_lock := snd (tlock_init (Some b)), kf_parent := p\<rparr>"
  obtains w' where "fs_add_file (Some b) n p w = Some (sint (fs_c_inode w), w')"
    "tree w' (kids(p \<mapsto> xs @ [n], n \<mapsto> []))" "fs_root w' = fs_root w" "fs_files w' = (fs_files w)(n \<mapsto> F')"
    "fs_c_inode w' = fs_c_inode w + 1" "fs_mem w' = fs_mem w" "fs_hands w' = fs_hands w"
proof -
  from n(3) obtain it where it: "lh_items (fs_lists w) n = Some it" by auto
  obtain h1 where
    h1: "llist_append ((fs_lists w)\<lparr>lh_items := (lh_items (fs_lists w))(n \<mapsto> it\<lparr>item_data := n\<rparr>)\<rparr>) p n = Some h1"
    "ring (llist_init h1 n) p (xs @ [n])" "ring (llist_init h1 n) n []"
    "dat (llist_init h1 n) = (dat (fs_lists w))(n \<mapsto> n)"
    "\<And>d ys. kids d = Some ys \<Longrightarrow> d \<noteq> p \<Longrightarrow> ring (llist_init h1 n) d ys"
    "\<And>d. kids d \<noteq> None \<or> d = n \<Longrightarrow> lock_word (llist_init h1 n) d = Some 0"
    by (rule fs_add_file_lists [OF t p n(1,2) it]) (rule that)
  let ?w' = "w\<lparr>fs_c_inode := fs_c_inode w + 1, fs_files := (fs_files w)(n \<mapsto> F'), fs_lists := llist_init h1 n\<rparr>"
  let ?k' = "kids(p \<mapsto> xs @ [n], n \<mapsto> [])"
  have pn: "p \<noteq> n" using p n(1) by auto
  from t obtain rs where root: "kids (fs_root w) = Some rs" by (auto simp: tree_def)
  have "fs_files w p \<noteq> None" using tree_dir [OF t p] by (simp add: dir_ok_def)
  then have "fs_add_file (Some b) n p w = Some (sint (fs_c_inode w), ?w')"
    using tree_nonnull [OF t root] tree_nonnull [OF t p] n(2) F it h1(1) pn
    by (auto simp: fs_add_file_def upd_file_def tlock_init_def cbuff_allocate_def F'_def Let_def)
  moreover have "dir_ok ?w' ?k' d ys" if k: "?k' d = Some ys" for d ys
  proof -
    consider "d = n" "ys = []" | "d = p" "d \<noteq> n" "ys = xs @ [n]" | "d \<noteq> n" "d \<noteq> p" "kids d = Some ys"
      using k pn by (auto split: if_splits)
    then show ?thesis
    proof cases
      case 1
      then show ?thesis using h1 F by (simp add: dir_ok_def)
    next
      case 2
      have "\<forall>c \<in> set xs. kids c \<noteq> None \<and> dat (fs_lists w) c = Some c \<and> parent_of w c = Some p" "fs_files w p \<noteq> None"
        using tree_dir [OF t p] by (auto simp: dir_ok_def)
      then show ?thesis using 2 h1(2,4) h1(6) [of p] p by (auto simp: dir_ok_def parent_of_def F'_def)
    next
      case 3
      have "\<forall>c \<in> set ys. kids c \<noteq> None \<and> dat (fs_lists w) c = Some c \<and> parent_of w c = Some d" "fs_files w d \<noteq> None"
        using tree_dir [OF t 3(3)] by (auto simp: dir_ok_def)
      moreover have "n \<notin> set ys" using tree_child(1) [OF t 3(3), of n] n(1) by auto
      ultimately show ?thesis using 3 h1(4) h1(5) [OF 3(3,2)] h1(6) [of d] by (auto simp: dir_ok_def parent_of_def)
    qed
  qed
  then have "tree ?w' ?k'" using root by (simp add: tree_def)
  ultimately show thesis by (auto intro: that)
qed

text \<open>A file that is in no directory yet can be put into the store.\<close>

lemma ring_new_item:
  assumes "a \<notin> set xs"
  shows "ring (h\<lparr>lh_items := (lh_items h)(a \<mapsto> it)\<rparr>) d xs = ring h d xs"
proof -
  let ?h = "h\<lparr>lh_items := (lh_items h)(a \<mapsto> it)\<rparr>"
  have "nx ?h = (nx h)(a \<mapsto> item_next it)" "pv ?h = (pv h)(a \<mapsto> item_prev it)" "list_head ?h = list_head h"
    by (auto simp: nx_def pv_def list_head_def fun_eq_iff)
  then show ?thesis using assms by (cases "xs = []") (simp_all add: ring_def cyc_upd_notin)
qed

lemma tree_new_file:
  assumes "tree w kids" "kids n = None"
  shows "tree (w\<lparr>fs_files := (fs_files w)(n \<mapsto> F), fs_lists := (fs_lists w)\<lparr>lh_items := (lh_items (fs_lists w))(n \<mapsto> it)\<rparr>\<rparr>) kids"
proof -
  have "dir_ok (w\<lparr>fs_files := (fs_files w)(n \<mapsto> F), fs_lists := (fs_lists w)\<lparr>lh_items := (lh_items (fs_lists w))(n \<mapsto> it)\<rparr>\<rparr>) kids d ys"
    if "kids d = Some ys" for d ys
  proof -
    have "n \<notin> set ys" using tree_child(1) [OF assms(1) that, of n] assms(2) by auto
    with tree_dir [OF assms(1) that] show ?thesis
      by (auto simp: dir_ok_def ring_new_item lock_word_def dat_def parent_of_def)
  qed
  with assms(1) show ?thesis by (simp add: tree_def)
qed

section \<open>Reading a directory\<close>

text \<open>At most \<open>n\<close> calls of \<open>fs_readdir\<close>, until one returns \<open>NULL\<close>.\<close>

fun readdir_upto :: "fs_state \<Rightarrow> nat \<Rightarrow> dirstream option \<Rightarrow> (u32 \<times> string) list option" where
  "readdir_upto w 0 d = Some []"
| "readdir_upto w (Suc n) d = do {
     (e, d) \<leftarrow> fs_readdir w d;
     case e of None \<Rightarrow> Some []
     | Some x \<Rightarrow> do { xs \<leftarrow> readdir_upto w n d; Some (x # xs) }
   }"

definition entry_of :: "fs_state \<Rightarrow> addr \<Rightarrow> u32 \<times> string" where
  "entry_of w f = (case fs_files w f of None \<Rightarrow> (0, []) | Some F \<Rightarrow> (kf_inode F, kf_name F))"

lemma readdir_walk:
  assumes "chain (nx h) (pv h) (c # cs)" "nx h (last (c # cs)) = Some f" "f \<notin> set cs"
    and "\<forall>x \<in> set (c # cs). dat h x = Some x \<and> fs_files w x \<noteq> None \<and> x \<noteq> NULL"
    and "h = fs_lists w" "lh_lists h d = Some L" "ll_list L = f" "d \<noteq> NULL"
  shows "readdir_upto w (Suc (Suc (length cs))) (Some \<lparr>ds_dir = d, ds_current = c, ds_prev = p\<rparr>)
    = Some (map (entry_of w) (c # cs))"
  using assms(1-4)
proof (induction cs arbitrary: c p)
  case Nil
  then show ?case using assms(5-)
    by (auto simp: fs_readdir_def entry_of_def nx_Some dat_def split: option.splits)
next
  case (Cons c' cs)
  from Cons.prems assms(5) obtain it it' where
    it: "lh_items (fs_lists w) c = Some it" "item_next it = c'" "lh_items (fs_lists w) c' = Some it'" "item_data it' = c'"
    by (auto simp: nx_Some dat_def)
  from Cons.prems obtain C where C: "fs_files w c = Some C" by auto
  have "fs_readdir w (Some \<lparr>ds_dir = d, ds_current = c, ds_prev = p\<rparr>) =
      Some (Some (entry_of w c), Some \<lparr>ds_dir = d, ds_current = c', ds_prev = c\<rparr>)"
    using it C Cons.prems assms(5-) by (auto simp: fs_readdir_def entry_of_def)
  moreover have "readdir_upto w (Suc (Suc (length cs))) (Some \<lparr>ds_dir = d, ds_current = c', ds_prev = c\<rparr>)
      = Some (map (entry_of w) (c' # cs))"
    using Cons.prems by (intro Cons.IH) auto
  ultimately show ?case
    by (simp del: readdir_upto.simps add: readdir_upto.simps(2) [of w "Suc (Suc (length cs))"])
qed

section \<open>Properties\<close>

text \<open>A tree: the root (1) holds \<open>bin\<close> (2), which holds \<open>sh\<close> (3); \<open>new\<close> (4) is in no directory yet.\<close>

definition ex_file :: "string \<Rightarrow> addr \<Rightarrow> kfile" where
  "ex_file n p = kfile_zero\<lparr>kf_name := n, kf_parent := p\<rparr>"

definition ex_fs :: fs_state where
  "ex_fs = \<lparr>fs_files = [1 \<mapsto> ex_file [] 0, 2 \<mapsto> ex_file ''bin'' 1, 3 \<mapsto> ex_file ''sh'' 2, 4 \<mapsto> ex_file ''new'' 0],
     fs_hands = Map.empty,
     fs_lists = \<lparr>lh_items = (\<lambda>a. if 1 \<le> a \<and> a \<le> 4 then Some \<lparr>item_data = a, item_prev = a, item_next = a\<rparr> else None),
       lh_lists = [1 \<mapsto> \<lparr>ll_list = 2, ll_lock = 0\<rparr>, 2 \<mapsto> \<lparr>ll_list = 3, ll_lock = 0\<rparr>, 3 \<mapsto> \<lparr>ll_list = 0, ll_lock = 0\<rparr>]\<rparr>,
     fs_cbuffs = Map.empty, fs_mem = (\<lambda>_. 0), fs_root = 1, fs_c_inode = 7\<rparr>"

definition ex_kids :: kids where
  "ex_kids = [1 \<mapsto> [2], 2 \<mapsto> [3], 3 \<mapsto> []]"

lemma ex_tree: "tree ex_fs ex_kids"
  by (auto simp: tree_def ex_kids_def ex_fs_def ex_file_def dir_ok_def ring_def list_head_def cyc_def nx_def pv_def
      dat_def lock_word_def parent_of_def)

lemma ex_names: "name_of ex_fs 2 = ''bin''" "name_of ex_fs 3 = ''sh''" "name_of ex_fs 4 = ''new''"
  by (simp_all add: name_of_def ex_fs_def ex_file_def)

text \<open>
  C8 (path lookup). For a path made of components that are not empty and do not start with a dot,
  \<open>fs_find_file\<close> returns the file reached by looking up each component in turn among the children
  of the previous one, and \<open>NULL\<close> if a component is missing.
\<close>

theorem fs_find_file_resolves:
  assumes "tree w kids" and "kids d \<noteq> None" and "cs \<noteq> []" and "\<forall>c \<in> set cs. plain c"
  shows "fs_find_file w d (join cs) = Some (or_null (resolve w kids d cs)) \<and>
    fs_find_file w d (CHR ''/'' # join cs) = Some (or_null (resolve w kids (fs_root w) cs))"
proof -
  from assms(3) have "join cs \<noteq> []" using assms(4) by (cases cs rule: join.cases) (auto simp: plain_def)
  then have "fs_find_file w d (CHR ''/'' # join cs) = fs_find_file w (fs_root w) (join cs)"
    by (subst fs_find_file.simps) simp
  moreover have "kids (fs_root w) \<noteq> None" using assms(1) by (simp add: tree_def)
  ultimately show ?thesis using find_file_join assms by simp
qed

theorem fs_find_file_resolves_witness:
  "fs_find_file ex_fs 1 ''bin/sh'' = Some 3 \<and> fs_find_file ex_fs 2 ''/bin/sh'' = Some 3"
  using fs_find_file_resolves [OF ex_tree, of 1 "[''bin'', ''sh'']"]
    fs_find_file_resolves [OF ex_tree, of 2 "[''bin'', ''sh'']"]
  by (simp add: ex_kids_def plain_def child_def ex_names) (simp add: ex_fs_def)

text \<open>
  C11 (adding a file). Adding a new file to a directory of the tree returns its inode number, the
  next one in sequence; the tree then has the file as last entry of that directory and, in it, an
  empty directory; and when the name is new there, looking it up in the directory finds the file,
  while every other name gives what it gave before.
\<close>

theorem fs_add_file_then_find:
  assumes "tree w kids" and "kids p = Some xs" and "kids n = None" and "n \<noteq> NULL"
    and "lh_items (fs_lists w) n \<noteq> None" and "fs_files w n \<noteq> None"
    and "plain (name_of w n)" and "child w kids p (name_of w n) = None"
  shows "\<exists>w'. fs_add_file (Some b) n p w = Some (sint (fs_c_inode w), w') \<and>
    tree w' (kids(p \<mapsto> xs @ [n], n \<mapsto> [])) \<and> fs_c_inode w' = fs_c_inode w + 1 \<and>
    fs_find_file w' p (name_of w n) = Some n \<and>
    (\<forall>c. plain c \<and> c \<noteq> name_of w n \<longrightarrow> fs_find_file w' p c = fs_find_file w p c)"
proof -
  let ?k' = "kids(p \<mapsto> xs @ [n], n \<mapsto> [])"
  from assms(6) obtain F where F: "fs_files w n = Some F" by auto
  from fs_add_file_tree [OF assms(1-5) F, of b] obtain w' where
    w': "fs_add_file (Some b) n p w = Some (sint (fs_c_inode w), w')" "tree w' ?k'" "fs_c_inode w' = fs_c_inode w + 1"
      "fs_files w' = (fs_files w)(n \<mapsto> F\<lparr>kf_inode := fs_c_inode w, kf_file_lock := snd (tlock_init (Some b)), kf_parent := p\<rparr>)" .
  have nm: "name_of w' c = name_of w c" for c using w'(4) F by (simp add: name_of_def)
  have "p \<noteq> n" using assms(2,3) by auto
  then have ch: "child w' ?k' p c = (case child w kids p c of Some g \<Rightarrow> Some g | None \<Rightarrow> if name_of w n = c then Some n else None)" for c
    using assms(2) by (simp add: child_def nm find_snoc)
  have look: "fs_find_file w' p c = Some (or_null (child w' ?k' p c))" "fs_find_file w p c = Some (or_null (child w kids p c))"
    if "plain c" for c using find_file_plain [OF that _ w'(2)] find_file_plain [OF that _ assms(1)] assms(2) by auto
  have "fs_find_file w' p c = fs_find_file w p c" if "plain c" "c \<noteq> name_of w n" for c
    using look [OF that(1)] ch [of c] that(2) by (simp split: option.split)
  with w' look [OF assms(7)] ch [of "name_of w n"] assms(8) show ?thesis by auto
qed

theorem fs_add_file_then_find_witness:
  "\<exists>w'. fs_add_file (Some (\<lambda>_. 0)) 4 2 ex_fs = Some (7, w') \<and> fs_find_file w' 2 ''new'' = Some 4 \<and>
     fs_find_file w' 2 ''sh'' = Some 3"
proof -
  have f: "fs_find_file ex_fs 2 ''sh'' = Some 3"
    using find_file_plain [of "''sh''" ex_kids 2 ex_fs] ex_tree
    by (simp add: ex_kids_def plain_def child_def ex_names)
  have "lh_items (fs_lists ex_fs) 4 \<noteq> None" "fs_files ex_fs 4 \<noteq> None" "fs_c_inode ex_fs = 7"
    by (simp_all add: ex_fs_def)
  moreover have "sint (7 :: u32) = 7" by simp
  ultimately show ?thesis
    using fs_add_file_then_find [OF ex_tree, of 2 "[3]" 4 "\<lambda>_. 0"] f
    by (auto simp: ex_kids_def plain_def child_def ex_names)
qed

text \<open>
  Reading a directory that has entries, from \<open>fs_opendir\<close> until
  \<open>fs_readdir\<close> returns \<open>NULL\<close>, gives the inode number and name of every entry once, in order.
  Opening an empty directory dereferences a \<open>NULL\<close> list head (no item lives at address 0).
\<close>

theorem fs_readdir_all:
  assumes "tree w kids" and "kids d = Some xs" and "lh_items (fs_lists w) NULL = None"
  shows "do { s \<leftarrow> fs_opendir w d; readdir_upto w (Suc (length xs)) s } =
    (if xs = [] then None else Some (map (entry_of w) xs))"
proof (cases xs)
  case Nil
  with tree_dir [OF assms(1,2)] tree_nonnull [OF assms(1,2)] assms(3) show ?thesis
    by (auto simp: dir_ok_def ring_def list_head_Some fs_opendir_def)
next
  case (Cons c cs)
  let ?h = "fs_lists w"
  from tree_dir [OF assms(1,2)] have ok: "ring ?h d (c # cs)" "\<forall>x \<in> set (c # cs). dat ?h x = Some x"
    by (auto simp: dir_ok_def Cons)
  from ok(1) obtain L where L: "lh_lists ?h d = Some L" "ll_list L = c" by (auto simp: ring_def list_head_Some)
  from ok(2) obtain it where it: "lh_items ?h c = Some it" "item_data it = c" by (auto simp: dat_def)
  have "\<forall>x \<in> set (c # cs). dat ?h x = Some x \<and> fs_files w x \<noteq> None \<and> x \<noteq> NULL"
    using ok(2) tree_child [OF assms(1,2)] Cons by auto
  moreover have "chain (nx ?h) (pv ?h) (c # cs)" "nx ?h (last (c # cs)) = Some c" "c \<notin> set cs"
    using ok(1) by (auto simp: ring_def cyc_def)
  ultimately have "readdir_upto w (Suc (Suc (length cs))) (Some \<lparr>ds_dir = d, ds_current = c, ds_prev = NULL\<rparr>)
      = Some (map (entry_of w) (c # cs))"
    using readdir_walk [of ?h c cs c w d L NULL] L tree_nonnull [OF assms(1,2)] by blast
  moreover have "fs_opendir w d = Some (Some \<lparr>ds_dir = d, ds_current = c, ds_prev = NULL\<rparr>)"
    using L it tree_nonnull [OF assms(1,2)] by (simp add: fs_opendir_def)
  ultimately show ?thesis using Cons by (simp del: readdir_upto.simps)
qed

theorem fs_readdir_all_witness:
  "do { s \<leftarrow> fs_opendir ex_fs 2; readdir_upto ex_fs 2 s } = Some [(0, ''sh'')] \<and>
   do { s \<leftarrow> fs_opendir ex_fs 3; readdir_upto ex_fs 1 s } = None"
proof -
  have 0: "lh_items (fs_lists ex_fs) NULL = None" by (simp add: ex_fs_def)
  have e: "entry_of ex_fs 3 = (0, ''sh'')" by (simp add: entry_of_def ex_fs_def ex_file_def kfile_zero_def)
  have "ex_kids 2 = Some [3]" "ex_kids 3 = Some []" by (simp_all add: ex_kids_def)
  from fs_readdir_all [OF ex_tree this(1) 0] fs_readdir_all [OF ex_tree this(2) 0] e
  show ?thesis by (simp del: readdir_upto.simps add: numeral_2_eq_2)
qed

text \<open>
  A dot in front of a name that does not start with a dot or a slash is
  dropped: \<open>.profile\<close> is looked up as \<open>profile\<close>, so that a file whose name starts with a
  dot cannot be found by its name; and two dots in front of a name are dropped after going to the
  parent directory.
\<close>

theorem fs_find_file_drops_dots:
  assumes "c \<noteq> CHR ''.''" and "c \<noteq> CHR ''/''" and "f \<noteq> NULL" and "fs_files w f = Some F"
  shows "fs_find_file w f (CHR ''.'' # c # s) = fs_find_file w f (c # s) \<and>
    fs_find_file w f (CHR ''.'' # CHR ''.'' # c # s) = fs_find_file w (kf_parent F) (c # s)"
  using assms by (simp add: fs_find_file.simps [of w f "CHR ''.'' # _"])

theorem fs_find_file_drops_dots_witness:
  "fs_find_file ex_fs 2 ''.sh'' = fs_find_file ex_fs 2 ''sh'' \<and> fs_find_file ex_fs 3 ''..sh'' = fs_find_file ex_fs 2 ''sh''"
  using fs_find_file_drops_dots [of "CHR ''s''" 2 ex_fs "ex_file ''bin'' 1" "''h''"]
    fs_find_file_drops_dots [of "CHR ''s''" 3 ex_fs "ex_file ''sh'' 2" "''h''"]
  by (simp add: ex_fs_def ex_file_def)

text \<open>
  None of \<open>fs_mkdir\<close>, \<open>fs_create\<close> and \<open>fs_ioctl\<close> ever calls the
  operation of the file: each returns \<open>-EINVAL\<close> or faults.
\<close>

theorem fs_wrappers_never_dispatch:
  "fs_mkdir V f name perms w \<in> {None, Some (- EINVAL, w)} \<and> fs_create V f name perms w \<in> {None, Some (- EINVAL, w)} \<and>
   fs_ioctl V hand req args w \<in> {None, Some (- EINVAL, w)}"
  by (auto simp: fs_mkdir_def fs_create_def fs_ioctl_def slot_def split: bind_splits)

end
