(* ===== verification/Stream.thy ===== *)
theory Stream
  imports Fs_Tree
begin

text \<open>
  The stream files of \<open>kernel/src/fs/stream.c\<close>: a file whose \<open>info\<close> is a circular buffer, read
  and written as a queue. The loops of \<open>_read\<close> and \<open>_write\<close> are the client loops of the interface
  \<open>byte_fifo\<close>, so what they do follows from its interpretation on the circular buffer.
\<close>

section \<open>Operations\<close>

text \<open>The addresses of the tables \<open>_file_ops\<close> and \<open>_file_hand_ops\<close> of \<open>stream.c\<close>.\<close>

definition stream_file_ops :: addr where "stream_file_ops = 1"
definition stream_hand_ops :: addr where "stream_hand_ops = 2"

text \<open>
  \<open>file\<close> and \<open>buff\<close> are what the two calls of \<open>kmalloc\<close> returned, \<open>bytes\<close> the memory behind the
  buffer, \<open>lockbuf\<close> what \<open>tlock_init\<close> gets. A list item comes into being with the file.
\<close>

definition stream_create ::
    "addr \<Rightarrow> addr \<Rightarrow> (nat \<Rightarrow> u8) \<Rightarrow> (nat \<Rightarrow> u8) option \<Rightarrow> int \<Rightarrow> fs_state \<Rightarrow> (addr \<times> fs_state) option" where
  "stream_create file buff bytes lockbuf len w =
     (if len < 1 then Some (NULL, w)
      else if file = NULL \<or> buff = NULL then None
      else do {
        let cb = \<lparr>cb_begin = 0, cb_count = 0, cb_size = of_int len, cb_buff = Some bytes\<rparr>;
        let f = kfile_zero\<lparr>kf_info := buff, kf_pflags := 0x1FF, kf_flags := FS_STREAM, kf_ops := stream_file_ops\<rparr>;
        let w = w\<lparr>fs_files := (fs_files w)(file \<mapsto> f), fs_cbuffs := (fs_cbuffs w)(buff \<mapsto> cb),
                  fs_lists := (fs_lists w)\<lparr>lh_items := (lh_items (fs_lists w))(file \<mapsto>
                    \<lparr>item_data = NULL, item_prev = NULL, item_next = NULL\<rparr>)\<rparr>\<rparr>;
        (r, w) \<leftarrow> fs_add_file lockbuf file NULL w;
        Some (file, w)
      })"

text \<open>The file and the buffer behind a handle; \<open>None\<close> inside is the \<open>-EINVAL\<close> case.\<close>

definition stream_of :: "addr \<Rightarrow> fs_state \<Rightarrow> (addr \<times> kfile \<times> addr) option option" where
  "stream_of hand w = do {
     H \<leftarrow> fs_hands w hand;
     if kh_file H = NULL then Some None
     else do {
       F \<leftarrow> fs_files w (kh_file H);
       if kf_info F = NULL then Some None else Some (Some (kh_file H, F, kf_info F))
     }
   }"

definition stream_read :: "addr \<Rightarrow> u32 \<Rightarrow> u32 \<Rightarrow> fs_state \<Rightarrow> (int \<times> u8 list \<times> fs_state) option" where
  "stream_read hand off sz w = do {
     s \<leftarrow> stream_of hand w;
     case s of None \<Rightarrow> Some (- EINVAL, [], w)
     | Some (f, F, b) \<Rightarrow> do {
         let (data, q) = fifo_take cbuff_get (unat sz) (fs_cbuffs w b);
         let count = (of_nat (length data) :: u32);
         w \<leftarrow> upd_file f (\<lambda>F. F\<lparr>kf_length := kf_length F - count\<rparr>) (w\<lparr>fs_cbuffs := (fs_cbuffs w)(b := q)\<rparr>);
         Some (sint count, data, w)
       }
   }"

definition stream_write :: "addr \<Rightarrow> u32 \<Rightarrow> u32 \<Rightarrow> (nat \<Rightarrow> u8) \<Rightarrow> fs_state \<Rightarrow> (int \<times> fs_state) option" where
  "stream_write hand off sz buff w = do {
     s \<leftarrow> stream_of hand w;
     case s of None \<Rightarrow> Some (- EINVAL, w)
     | Some (f, F, b) \<Rightarrow> do {
         let (n, q) = fifo_fill cbuff_put buff 0 (unat sz) (fs_cbuffs w b);
         let count = (of_nat n :: u32);
         w \<leftarrow> upd_file f (\<lambda>F. F\<lparr>kf_length := kf_length F + count\<rparr>) (w\<lparr>fs_cbuffs := (fs_cbuffs w)(b := q)\<rparr>);
         Some (sint count, w)
       }
   }"

definition stream_open :: "addr \<Rightarrow> addr \<Rightarrow> fs_state \<Rightarrow> (int \<times> fs_state) option" where
  "stream_open f hand w = do {
     w \<leftarrow> file_lock f w;
     w \<leftarrow> upd_hand hand (\<lambda>H. H\<lparr>kh_ops := stream_hand_ops, kh_file := f,
            kh_open_flags := kh_open_flags H OR OFLAGS_OPEN\<rparr>) w;
     w \<leftarrow> file_unlock f w;
     Some (0, w)
   }"

definition stream_close :: "addr \<Rightarrow> fs_state \<Rightarrow> (int \<times> fs_state) option" where
  "stream_close hand w = do {
     w \<leftarrow> hand_lock hand w;
     w \<leftarrow> upd_hand hand (kh_open_flags_update (\<lambda>_. 0)) w;
     w \<leftarrow> hand_unlock hand w;
     Some (0, w)
   }"

text \<open>The two tables.\<close>

definition stream_ops :: vfs_ops where
  "stream_ops = \<lparr>vo_open = [stream_file_ops \<mapsto> stream_open], vo_mkdir = Map.empty, vo_create = Map.empty,
     vh_close = [stream_hand_ops \<mapsto> stream_close], vh_read = [stream_hand_ops \<mapsto> stream_read],
     vh_write = [stream_hand_ops \<mapsto> stream_write], vh_ioctl = Map.empty\<rparr>"

section \<open>Open streams\<close>

text \<open>
  \<open>stream_at w hand q\<close>: the handle is open on a stream whose buffer is \<open>q\<close>, and the length of the
  file is the number of bytes in it.
\<close>

definition stream_at :: "fs_state \<Rightarrow> addr \<Rightarrow> cbuff \<Rightarrow> bool" where
  "stream_at w hand q \<longleftrightarrow> (\<exists>H F. fs_hands w hand = Some H \<and> hand \<noteq> NULL \<and> kh_ops H = stream_hand_ops \<and>
     kh_file H \<noteq> NULL \<and> fs_files w (kh_file H) = Some F \<and> kf_info F \<noteq> NULL \<and>
     fs_cbuffs w (kf_info F) = Some q \<and> cbuff_wf (Some q) \<and> kf_length F = of_nat (length (contents (Some q))))"

lemma fs_read_stream:
  assumes "stream_at w hand q"
  obtains w' q' where "fs_read stream_ops hand off sz w =
      Some (sint (of_nat (min (unat sz) (length (contents (Some q)))) :: u32), take (unat sz) (contents (Some q)), w')"
    "stream_at w' hand q'" "contents (Some q') = drop (unat sz) (contents (Some q))" "capacity (Some q') = capacity (Some q)"
proof -
  from assms obtain H F where h: "fs_hands w hand = Some H" "hand \<noteq> NULL" "kh_ops H = stream_hand_ops"
      "kh_file H \<noteq> NULL" "fs_files w (kh_file H) = Some F" "kf_info F \<noteq> NULL"
      "fs_cbuffs w (kf_info F) = Some q" "cbuff_wf (Some q)" "kf_length F = of_nat (length (contents (Some q)))"
    by (auto simp: stream_at_def)
  from cfifo.take_spec [OF h(8), of "unat sz"] obtain r where
    r: "fifo_take cbuff_get (unat sz) (Some q) = (take (unat sz) (contents (Some q)), r)" "cbuff_wf r"
      "contents r = drop (unat sz) (contents (Some q))" "capacity r = capacity (Some q)" by blast
  from r(2) obtain q' where q': "r = Some q'" by (rule cbuff_wfD)
  let ?n = "of_nat (min (unat sz) (length (contents (Some q)))) :: u32"
  let ?w = "w\<lparr>fs_cbuffs := (fs_cbuffs w)(kf_info F \<mapsto> q'),
    fs_files := (fs_files w)(kh_file H \<mapsto> F\<lparr>kf_length := kf_length F - ?n\<rparr>)\<rparr>"
  have "fs_read stream_ops hand off sz w = Some (sint ?n, take (unat sz) (contents (Some q)), ?w)"
    using h r(1) q' by (simp add: fs_read_def stream_ops_def stream_hand_ops_def stream_read_def stream_of_def upd_file_def min.commute Let_def)
  moreover have "kf_length F - ?n = of_nat (length (contents (Some q')))"
  proof -
    have "length (contents (Some q)) = min (unat sz) (length (contents (Some q))) + length (contents (Some q'))"
      using r(3) q' by (simp add: min_def)
    then show ?thesis using h(9) by (metis add_diff_cancel_left' of_nat_add)
  qed
  then have "stream_at ?w hand q'" using h r q' by (simp add: stream_at_def)
  ultimately show thesis using that r(3,4) q' by blast
qed

lemma fs_write_stream:
  fixes sz :: u32
  assumes "stream_at w hand q"
  defines "n \<equiv> min (unat sz) (capacity (Some q) - length (contents (Some q)))"
  obtains w' q' where "fs_write stream_ops hand off sz buff w = Some (sint (of_nat n :: u32), w')"
    "stream_at w' hand q'" "contents (Some q') = contents (Some q) @ map buff [0..<n]" "capacity (Some q') = capacity (Some q)"
proof -
  from assms(1) obtain H F where h: "fs_hands w hand = Some H" "hand \<noteq> NULL" "kh_ops H = stream_hand_ops"
      "kh_file H \<noteq> NULL" "fs_files w (kh_file H) = Some F" "kf_info F \<noteq> NULL"
      "fs_cbuffs w (kf_info F) = Some q" "cbuff_wf (Some q)" "kf_length F = of_nat (length (contents (Some q)))"
    by (auto simp: stream_at_def)
  from cfifo.fill_spec [OF h(8), of buff 0 "unat sz"] obtain r where
    r: "fifo_fill cbuff_put buff 0 (unat sz) (Some q) = (n, r)" "cbuff_wf r"
      "contents r = contents (Some q) @ map buff [0..<n]" "capacity r = capacity (Some q)"
    unfolding n_def by auto
  from r(2) obtain q' where q': "r = Some q'" by (rule cbuff_wfD)
  let ?w = "w\<lparr>fs_cbuffs := (fs_cbuffs w)(kf_info F \<mapsto> q'),
    fs_files := (fs_files w)(kh_file H \<mapsto> F\<lparr>kf_length := kf_length F + of_nat n\<rparr>)\<rparr>"
  have "fs_write stream_ops hand off sz buff w = Some (sint (of_nat n :: u32), ?w)"
    using h r(1) q' by (simp add: fs_write_def stream_ops_def stream_hand_ops_def stream_write_def stream_of_def upd_file_def Let_def)
  moreover have "kf_length F + of_nat n = of_nat (length (contents (Some q')))"
    using h(9) r(3) q' by simp
  then have "stream_at ?w hand q'" using h r q' by (simp add: stream_at_def)
  ultimately show thesis using that r(3,4) q' by blast
qed

section \<open>Properties\<close>

text \<open>A stream of four bytes, file 5 and buffer 6, open on handle 9.\<close>

definition ex_stream :: fs_state where
  "ex_stream = ex_fs\<lparr>fs_files := (fs_files ex_fs)(5 \<mapsto> kfile_zero\<lparr>kf_info := 6, kf_length := 2\<rparr>),
     fs_hands := [9 \<mapsto> hand_zero\<lparr>kh_ops := stream_hand_ops, kh_file := 5\<rparr>],
     fs_cbuffs := [6 \<mapsto> the ex_cbuff]\<rparr>"

lemma ex_stream_at: "stream_at ex_stream 9 (the ex_cbuff)"
  using ex_cbuff_facts by (auto simp: stream_at_def ex_stream_def ex_cbuff_def)

text \<open>
  Writing to an open stream through the file system takes as many bytes as there is
  room for and returns their number; reading then returns the oldest bytes, what was in the
  stream before and then what was written, as many as were asked for and are there. The file's
  length is the number of bytes in the stream throughout.
\<close>

theorem stream_write_read:
  assumes "stream_at w hand q" and "cap = capacity (Some q)" and "old = contents (Some q)"
    and "n = min (unat sz) (cap - length old)" and "data = old @ map buff [0..<n]"
  shows "\<exists>w1 q1 w2 q2. fs_write stream_ops hand off sz buff w = Some (sint (of_nat n :: u32), w1) \<and>
    stream_at w1 hand q1 \<and> contents (Some q1) = data \<and>
    fs_read stream_ops hand off' sz' w1 = Some (sint (of_nat (min (unat sz') (length data)) :: u32), take (unat sz') data, w2) \<and>
    stream_at w2 hand q2 \<and> contents (Some q2) = drop (unat sz') data"
proof -
  obtain w1 q1 where w1: "fs_write stream_ops hand off sz buff w = Some (sint (of_nat n :: u32), w1)"
    "stream_at w1 hand q1" "contents (Some q1) = data"
    using fs_write_stream [OF assms(1), of off sz buff] assms(2-) by metis
  obtain w2 q2 where "fs_read stream_ops hand off' sz' w1 =
      Some (sint (of_nat (min (unat sz') (length data)) :: u32), take (unat sz') data, w2)"
    "stream_at w2 hand q2" "contents (Some q2) = drop (unat sz') data"
    using fs_read_stream [OF w1(2), of off' sz'] w1(3) by metis
  with w1 show ?thesis by blast
qed

theorem stream_write_read_witness:
  "\<exists>w1 w2 q2. fs_write stream_ops 9 0 3 (\<lambda>i. of_nat i + 1) ex_stream = Some (2, w1) \<and>
    fs_read stream_ops 9 0 3 w1 = Some (3, [7, 8, 1], w2) \<and> stream_at w2 9 q2 \<and> contents (Some q2) = [2]"
proof -
  have c: "capacity (Some (the ex_cbuff)) = 4" "contents (Some (the ex_cbuff)) = [7, 8]"
    using ex_cbuff_facts by (auto simp: ex_cbuff_def)
  have d: "[7, 8, 1, 2] = [7, 8] @ map (\<lambda>i. of_nat i + 1 :: u8) [0..<2]" by (simp add: upt_rec)
  have n: "2 = min (unat (3 :: u32)) (4 - length [7, 8 :: u8])" by simp
  from stream_write_read [OF ex_stream_at c(1) [symmetric] c(2) [symmetric] n d, of 0 0 3]
  show ?thesis by auto
qed

end
