(* ===== verification/Kstring.thy ===== *)
theory Kstring
  imports Lambda_Prelude
begin

text \<open>
  The string and memory primitives of \<open>kernel/src/std/string.c\<close> on byte-addressed memory, with
  the address check they make in the default configuration (\<open>CONFIG_STRICTNESS=255\<close>, so a bad
  address is a kernel panic, modelled as \<open>None\<close>). \<open>mm_check_addr\<close> is the check of
  \<open>kernel/src/mm/mm.c\<close> over a parameter \<open>pm\<close>: what \<open>mmu_map_get\<close> returns for each address
  (a negative number, or the mapping's flags). A string lies inside the address space, so the
  index of a loop does not wrap.
\<close>

section \<open>The address check\<close>

abbreviation MMU_FLAG_READ :: int where "MMU_FLAG_READ \<equiv> 1"
abbreviation MMU_FLAG_WRITE :: int where "MMU_FLAG_WRITE \<equiv> 2"
abbreviation MMU_FLAG_EXEC :: int where "MMU_FLAG_EXEC \<equiv> 4"
abbreviation MMU_FLAG_KERNEL :: int where "MMU_FLAG_KERNEL \<equiv> 16"

type_synonym page_map = "addr \<Rightarrow> int"

definition mm_check_addr :: "page_map \<Rightarrow> addr \<Rightarrow> int" where
  "mm_check_addr pm a =
     (let flags = pm a in
      if flags < 0 then 0
      else if flags AND MMU_FLAG_WRITE \<noteq> 0 then 2
      else if flags AND MMU_FLAG_READ \<noteq> 0 then 1 else 0)"

definition kcheck :: "page_map \<Rightarrow> addr \<Rightarrow> 'a option \<Rightarrow> 'a option" where
  "kcheck pm a k = (if mm_check_addr pm a = 0 then None else k)"

text \<open>A page map in which the given address is mapped at all.\<close>

abbreviation mapped :: "page_map \<Rightarrow> addr \<Rightarrow> bool" where
  "mapped pm a \<equiv> mm_check_addr pm a \<noteq> 0"

lemma kcheck_mapped [simp]: "mapped pm a \<Longrightarrow> kcheck pm a k = k"
  by (simp add: kcheck_def)

lemma kcheck_unmapped [simp]: "mm_check_addr pm a = 0 \<Longrightarrow> kcheck pm a k = None"
  by (simp add: kcheck_def)

section \<open>Reading strings\<close>

partial_function (option) strlen_loop :: "mem \<Rightarrow> addr \<Rightarrow> nat \<Rightarrow> nat option" where
  "strlen_loop m str i = (if m (str + i) \<noteq> 0 then strlen_loop m str (Suc i) else Some i)"

declare strlen_loop.simps [code]

definition strlen :: "page_map \<Rightarrow> mem \<Rightarrow> addr \<Rightarrow> nat option" where
  "strlen pm m str = kcheck pm str (strlen_loop m str 0)"

text \<open>A wide string has 16-bit units, stored in two bytes each.\<close>

partial_function (option) wcslen_loop :: "mem \<Rightarrow> addr \<Rightarrow> nat \<Rightarrow> nat option" where
  "wcslen_loop m str i =
     (if m (str + 2 * i) \<noteq> 0 \<or> m (str + 2 * i + 1) \<noteq> 0 then wcslen_loop m str (Suc i)
      else Some i)"

declare wcslen_loop.simps [code]

definition wcslen :: "page_map \<Rightarrow> mem \<Rightarrow> addr \<Rightarrow> nat option" where
  "wcslen pm m str = kcheck pm str (wcslen_loop m str 0)"

definition byte_diff :: "u8 \<Rightarrow> u8 \<Rightarrow> int" where
  "byte_diff a b = int (unat a) - int (unat b)"

partial_function (option) strcmp_loop :: "mem \<Rightarrow> addr \<Rightarrow> addr \<Rightarrow> int option" where
  "strcmp_loop m str1 str2 =
     (if m str1 \<noteq> 0 \<and> m str1 = m str2 then strcmp_loop m (Suc str1) (Suc str2)
      else Some (byte_diff (m str1) (m str2)))"

declare strcmp_loop.simps [code]

definition strcmp :: "page_map \<Rightarrow> mem \<Rightarrow> addr \<Rightarrow> addr \<Rightarrow> int option" where
  "strcmp pm m str1 str2 = kcheck pm str1 (kcheck pm str2 (strcmp_loop m str1 str2))"

text \<open>\<open>--num\<close> on a \<open>size_t\<close>: a count of 0 wraps to the largest value.\<close>

partial_function (option) strncmp_loop :: "mem \<Rightarrow> addr \<Rightarrow> addr \<Rightarrow> u32 \<Rightarrow> int option" where
  "strncmp_loop m str1 str2 num =
     (if m str1 \<noteq> 0 \<and> m str1 = m str2 \<and> num - 1 \<noteq> 0
      then strncmp_loop m (Suc str1) (Suc str2) (num - 1)
      else Some (byte_diff (m str1) (m str2)))"

declare strncmp_loop.simps [code]

definition strncmp :: "page_map \<Rightarrow> mem \<Rightarrow> addr \<Rightarrow> addr \<Rightarrow> u32 \<Rightarrow> int option" where
  "strncmp pm m str1 str2 num = kcheck pm str1 (kcheck pm str2 (strncmp_loop m str1 str2 num))"

partial_function (option) strchr_loop :: "mem \<Rightarrow> addr \<Rightarrow> u8 \<Rightarrow> addr option" where
  "strchr_loop m s c =
     (if m s \<noteq> 0 then (if m s = c then Some s else strchr_loop m (Suc s) c) else Some NULL)"

declare strchr_loop.simps [code]

definition strchr :: "page_map \<Rightarrow> mem \<Rightarrow> addr \<Rightarrow> int \<Rightarrow> addr option" where
  "strchr pm m s c = kcheck pm s (strchr_loop m s (of_int c))"

section \<open>Writing strings\<close>

partial_function (option) strcpy_loop :: "mem \<Rightarrow> addr \<Rightarrow> addr \<Rightarrow> nat \<Rightarrow> mem option" where
  "strcpy_loop m dest src i =
     (if m (src + i) \<noteq> 0 then strcpy_loop (m(dest + i := m (src + i))) dest src (Suc i)
      else Some (m(dest + i := 0)))"

declare strcpy_loop.simps [code]

definition strcpy :: "page_map \<Rightarrow> mem \<Rightarrow> addr \<Rightarrow> addr \<Rightarrow> mem option" where
  "strcpy pm m dest src = kcheck pm dest (kcheck pm src (strcpy_loop m dest src 0))"

function strncpy_fill :: "mem \<Rightarrow> addr \<Rightarrow> nat \<Rightarrow> nat \<Rightarrow> mem" where
  "strncpy_fill m dest i n = (if i < n then strncpy_fill (m(dest + i := 0)) dest (Suc i) n else m)"
  by pat_completeness auto
termination
  by (relation "measure (\<lambda>(m, dest, i, n). n - i)") auto

function strncpy_loop :: "mem \<Rightarrow> addr \<Rightarrow> addr \<Rightarrow> nat \<Rightarrow> nat \<Rightarrow> mem" where
  "strncpy_loop m dest src i n =
     (if i < n \<and> m (src + i) \<noteq> 0
      then strncpy_loop (m(dest + i := m (src + i))) dest src (Suc i) n
      else strncpy_fill m dest i n)"
  by pat_completeness auto
termination
  by (relation "measure (\<lambda>(m, dest, src, i, n). n - i)") auto

declare strncpy_fill.simps [simp del] strncpy_loop.simps [simp del]

definition strncpy :: "page_map \<Rightarrow> mem \<Rightarrow> addr \<Rightarrow> addr \<Rightarrow> nat \<Rightarrow> mem option" where
  "strncpy pm m dest src n = kcheck pm dest (kcheck pm src (Some (strncpy_loop m dest src 0 n)))"

section \<open>Memory blocks\<close>

fun memcpy_loop :: "mem \<Rightarrow> addr \<Rightarrow> addr \<Rightarrow> nat \<Rightarrow> mem" where
  "memcpy_loop m dp sp 0 = m"
| "memcpy_loop m dp sp (Suc n) = memcpy_loop (m(dp := m sp)) (Suc dp) (Suc sp) n"

definition memcpy :: "page_map \<Rightarrow> mem \<Rightarrow> addr \<Rightarrow> addr \<Rightarrow> nat \<Rightarrow> mem option" where
  "memcpy pm m dest src n = kcheck pm dest (kcheck pm src (Some (memcpy_loop m dest src n)))"

fun memset_loop :: "mem \<Rightarrow> addr \<Rightarrow> u8 \<Rightarrow> nat \<Rightarrow> mem" where
  "memset_loop m p c 0 = m"
| "memset_loop m p c (Suc n) = memset_loop (m(p := c)) (Suc p) c n"

definition memset :: "page_map \<Rightarrow> mem \<Rightarrow> addr \<Rightarrow> int \<Rightarrow> nat \<Rightarrow> mem option" where
  "memset pm m s c n = kcheck pm s (Some (memset_loop m s (of_int c) n))"

fun memmove_back :: "mem \<Rightarrow> addr \<Rightarrow> addr \<Rightarrow> nat \<Rightarrow> mem" where
  "memmove_back m dst src 0 = m"
| "memmove_back m dst src (Suc n) = memmove_back (m(dst + n := m (src + n))) dst src n"

definition memmove :: "page_map \<Rightarrow> mem \<Rightarrow> addr \<Rightarrow> addr \<Rightarrow> nat \<Rightarrow> mem option" where
  "memmove pm m dst src n = kcheck pm dst (kcheck pm src (Some
     (if dst < src then memcpy_loop m dst src n else memmove_back m dst src n)))"

fun memcmp_loop :: "mem \<Rightarrow> addr \<Rightarrow> addr \<Rightarrow> nat \<Rightarrow> int" where
  "memcmp_loop m s1 s2 0 = 0"
| "memcmp_loop m s1 s2 (Suc n) =
     (if m (s1 + n) \<noteq> m (s2 + n) then byte_diff (m (s1 + n)) (m (s2 + n))
      else memcmp_loop m s1 s2 n)"

definition memcmp :: "page_map \<Rightarrow> mem \<Rightarrow> addr \<Rightarrow> addr \<Rightarrow> nat \<Rightarrow> int option" where
  "memcmp pm m s1 s2 n = kcheck pm s1 (kcheck pm s2 (Some (memcmp_loop m s1 s2 n)))"

section \<open>What the reading loops compute\<close>

lemma byte_diff_zero [simp]: "byte_diff a b = 0 \<longleftrightarrow> a = b"
proof -
  have "byte_diff a b = 0 \<longleftrightarrow> unat a = unat b" unfolding byte_diff_def by linarith
  then show ?thesis by (simp only: word_unat_eq_iff)
qed

lemma strlen_loop_cstr: "cstr_at m (p + i) s \<Longrightarrow> strlen_loop m p i = Some (i + length s)"
proof (induction s arbitrary: i)
  case Nil
  then show ?case by (simp add: strlen_loop.simps [of m p i])
next
  case (Cons c s)
  then have "m (p + i) \<noteq> 0" and "cstr_at m (p + Suc i) s" by auto
  with Cons.IH [of "Suc i"] show ?case by (simp add: strlen_loop.simps [of m p i])
qed

text \<open>
  Comparison of two texts as \<open>strcmp\<close> makes it: the difference of the first bytes that
  differ, where the end of a text counts as a byte 0.
\<close>

fun text_cmp :: "string \<Rightarrow> string \<Rightarrow> int" where
  "text_cmp [] [] = 0"
| "text_cmp [] (d # t) = - int (code_of d)"
| "text_cmp (c # s) [] = int (code_of c)"
| "text_cmp (c # s) (d # t) = (if c = d then text_cmp s t else int (code_of c) - int (code_of d))"

lemma strcmp_loop_cstr:
  "cstr_at m p s \<Longrightarrow> cstr_at m q t \<Longrightarrow> strcmp_loop m p q = Some (text_cmp s t)"
proof (induction s t arbitrary: p q rule: text_cmp.induct)
  case (4 c s d t)
  show ?case
  proof (cases "c = d")
    case True
    with 4 show ?thesis by (simp add: strcmp_loop.simps [of m p q])
  next
    case False
    with "4.prems" show ?thesis by (simp add: strcmp_loop.simps [of m p q] byte_diff_def)
  qed
qed (simp_all add: strcmp_loop.simps byte_diff_def)

lemma text_cmp_zero: "NUL \<notin> set s \<Longrightarrow> NUL \<notin> set t \<Longrightarrow> text_cmp s t = 0 \<longleftrightarrow> s = t"
proof (induction s t rule: text_cmp.induct)
  case (2 d t)
  then have "code_of d \<noteq> code_of NUL" by (simp only: code_of_inject) auto
  then show ?case by simp
next
  case (3 c s)
  then have "code_of c \<noteq> code_of NUL" by (simp only: code_of_inject) auto
  then show ?case by simp
qed (auto simp: code_of_inject)

lemma strchr_loop_cstr:
  "cstr_at m p s \<Longrightarrow> strchr_loop m p (of_char c) =
     Some (if c \<in> set s then p + length (takeWhile (\<lambda>x. x \<noteq> c) s) else NULL)"
  by (induction s arbitrary: p) (auto simp: strchr_loop.simps)

section \<open>What the block operations compute\<close>

text \<open>Memory after a correct copy of \<open>n\<close> bytes: the source bytes as they were before.\<close>

definition mem_copied :: "mem \<Rightarrow> addr \<Rightarrow> addr \<Rightarrow> nat \<Rightarrow> mem" where
  "mem_copied m d s n = (\<lambda>a. if d \<le> a \<and> a < d + n then m (s + (a - d)) else m a)"

lemma mem_copied_0 [simp]: "mem_copied m d s 0 = m"
  by (auto simp: mem_copied_def fun_eq_iff)

lemma memcpy_loop_copied: "d \<le> s \<or> s + n \<le> d \<Longrightarrow> memcpy_loop m d s n = mem_copied m d s n"
proof (induction n arbitrary: m d s)
  case (Suc n)
  then have "Suc d \<le> Suc s \<or> Suc s + n \<le> Suc d" by auto
  then have "memcpy_loop m d s (Suc n) = mem_copied (m(d := m s)) (Suc d) (Suc s) n"
    unfolding memcpy_loop.simps by (rule Suc.IH)
  also have "\<dots> = mem_copied m d s (Suc n)"
  proof
    fix a
    consider "a = d" | "a \<noteq> d" by blast
    then show "mem_copied (m(d := m s)) (Suc d) (Suc s) n a = mem_copied m d s (Suc n) a"
    proof cases
      case 2
      have "Suc s + (a - Suc d) = s + (a - d)" if "Suc d \<le> a" using that by simp
      moreover have "s + (a - d) \<noteq> d" if "Suc d \<le> a" "a < d + Suc n"
        using that Suc.prems by auto
      ultimately show ?thesis using 2 by (auto simp: mem_copied_def)
    qed (simp add: mem_copied_def)
  qed
  finally show ?case .
qed simp

lemma memmove_back_copied: "s \<le> d \<Longrightarrow> memmove_back m d s n = mem_copied m d s n"
proof (induction n arbitrary: m)
  case (Suc n)
  have "memmove_back m d s (Suc n) = mem_copied (m(d + n := m (s + n))) d s n"
    using Suc by simp
  also have "\<dots> = mem_copied m d s (Suc n)"
    using Suc.prems by (auto simp: mem_copied_def fun_eq_iff)
  finally show ?case .
qed simp

lemma memset_loop_eq: "memset_loop m p c n = (\<lambda>a. if p \<le> a \<and> a < p + n then c else m a)"
  by (induction n arbitrary: m p) (auto simp: fun_eq_iff)

lemma memcmp_loop_zero: "memcmp_loop m p q n = 0 \<longleftrightarrow> (\<forall>i < n. m (p + i) = m (q + i))"
  by (induction n) (auto simp: less_Suc_eq)

lemma strcpy_loop_cstr:
  assumes "cstr_at m (s + i) t" and "s + i + length t < d \<or> d + i + length t < s"
  shows "strcpy_loop m d s i = Some ((mem_copied m (d + i) (s + i) (length t))(d + i + length t := 0))"
  using assms
proof (induction t arbitrary: m i)
  case Nil
  then show ?case by (simp add: strcpy_loop.simps [of m d s i] fun_eq_iff)
next
  case (Cons c t)
  let ?m = "m(d + i := m (s + i))"
  from Cons.prems have ne: "m (s + i) \<noteq> 0" by simp
  from Cons.prems have "cstr_at ?m (s + Suc i) t" by (auto simp: cstr_at_def)
  then have "strcpy_loop ?m d s (Suc i) =
      Some ((mem_copied ?m (d + Suc i) (s + Suc i) (length t))(d + Suc i + length t := 0))"
    by (rule Cons.IH) (use Cons.prems in simp)
  moreover have "mem_copied ?m (d + Suc i) (s + Suc i) (length t) =
      mem_copied m (d + i) (s + i) (length (c # t))"
  proof
    fix a
    have "Suc (s + i + (a - Suc (d + i))) = s + i + (a - (d + i))" if "Suc (d + i) \<le> a"
      using that by simp
    moreover have "s + i + (a - (d + i)) \<noteq> d + i" if "a < d + i + length (c # t)" "d + i \<le> a"
      using that Cons.prems by auto
    ultimately show "mem_copied ?m (d + Suc i) (s + Suc i) (length t) a =
        mem_copied m (d + i) (s + i) (length (c # t)) a"
      by (auto simp: mem_copied_def)
  qed
  ultimately show ?case using ne by (simp add: strcpy_loop.simps [of m d s i] fun_eq_iff)
qed

section \<open>Correctness of the primitives\<close>

text \<open>
  On mapped addresses \<open>memmove\<close> returns, and every destination byte is the
  source byte as it was before the call, whatever the overlap of the two blocks; no other byte
  changes.
\<close>

theorem memmove_copies:
  assumes "mapped pm dst" and "mapped pm src"
  shows "memmove pm m dst src n = Some (mem_copied m dst src n)"
  using assms by (simp add: memmove_def memcpy_loop_copied memmove_back_copied)

theorem memmove_copies_witness:
  "mapped (\<lambda>_. 3) 11 \<and> mapped (\<lambda>_. 3) 10 \<and>
   memmove (\<lambda>_. 3) (\<lambda>a. of_nat a) 11 10 4 = Some (mem_copied (\<lambda>a. of_nat a) 11 10 4) \<and>
   mem_copied (\<lambda>a. of_nat a) 11 10 4 14 = (13 :: u8)"
proof -
  have h: "mapped (\<lambda>_. 3) a" for a by (simp add: mm_check_addr_def)
  from memmove_copies [OF h h, of "\<lambda>a. of_nat a" 11 10 4] h show ?thesis
    by (simp add: mem_copied_def)
qed

text \<open>
  On two C strings at mapped addresses \<open>strcmp\<close> returns the difference of the
  first characters that differ, and it returns 0 exactly for equal strings.
\<close>

theorem strcmp_correct:
  assumes "mapped pm p" and "mapped pm q" and "cstr_at m p s" and "cstr_at m q t"
  shows "strcmp pm m p q = Some (text_cmp s t) \<and> (strcmp pm m p q = Some 0 \<longleftrightarrow> s = t)"
proof -
  from assms(3,4) have "NUL \<notin> set s" "NUL \<notin> set t" by (auto simp: cstr_at_def)
  with assms show ?thesis by (simp add: strcmp_def strcmp_loop_cstr text_cmp_zero)
qed

definition ex_mem :: "u8 list \<Rightarrow> mem" where
  "ex_mem bs = (\<lambda>a. if a < length bs then bs ! a else 0)"

theorem strcmp_correct_witness:
  "strcmp (\<lambda>_. 3) (ex_mem [0, 97, 98, 0, 97, 99, 0]) 1 4 = Some (-1) \<and>
   cstr_at (ex_mem [0, 97, 98, 0, 97, 99, 0]) 1 ''ab'' \<and>
   cstr_at (ex_mem [0, 97, 98, 0, 97, 99, 0]) 4 ''ac''"
proof -
  let ?m = "ex_mem [0, 97, 98, 0, 97, 99, 0]"
  have h: "mapped (\<lambda>_. 3) a" for a by (simp add: mm_check_addr_def)
  have s: "cstr_at ?m 1 ''ab''" and t: "cstr_at ?m 4 ''ac''" by (simp_all add: ex_mem_def)
  from strcmp_correct [OF h h s t] s t show ?thesis by simp
qed

text \<open>
  If the source string with its terminator and the destination block do not
  overlap, \<open>strcpy\<close> returns, the same string is at the destination, the source is intact and
  no byte outside the destination block changes.
\<close>

theorem strcpy_copies:
  assumes "mapped pm dest" and "mapped pm src" and "cstr_at m src s"
    and "src + length s < dest \<or> dest + length s < src"
  shows "\<exists>m'. strcpy pm m dest src = Some m' \<and> cstr_at m' dest s \<and> cstr_at m' src s \<and>
              (\<forall>a. a < dest \<or> dest + length s < a \<longrightarrow> m' a = m a)"
proof -
  let ?m' = "(mem_copied m dest src (length s))(dest + length s := 0)"
  have "strcpy pm m dest src = Some ?m'"
    using assms strcpy_loop_cstr [of m src 0 s dest] by (simp add: strcpy_def)
  moreover have "cstr_at ?m' dest s" "cstr_at ?m' src s"
    using assms(3,4) by (auto simp: cstr_at_def mem_copied_def)
  moreover have "\<forall>a. a < dest \<or> dest + length s < a \<longrightarrow> ?m' a = m a"
    by (auto simp: mem_copied_def)
  ultimately show ?thesis by blast
qed

theorem strcpy_copies_witness:
  "\<exists>m'. strcpy (\<lambda>_. 3) (ex_mem [0, 97, 98, 0]) 10 1 = Some m' \<and> cstr_at m' 10 ''ab'' \<and>
        cstr_at m' 1 ''ab''"
proof -
  have h: "mapped (\<lambda>_. 3) a" for a by (simp add: mm_check_addr_def)
  have s: "cstr_at (ex_mem [0, 97, 98, 0]) 1 ''ab''" by (simp add: ex_mem_def)
  from strcpy_copies [OF h h s, of 10] show ?thesis by auto
qed

text \<open>
  \<open>memcmp\<close> returns 0 exactly when the blocks are equal; otherwise it returns the
  difference at the last position where they differ, not at the first one.
\<close>

theorem memcmp_last_difference:
  assumes "mapped pm s1" and "mapped pm s2"
  shows "(memcmp pm m s1 s2 n = Some 0 \<longleftrightarrow> (\<forall>i < n. m (s1 + i) = m (s2 + i))) \<and>
    (\<forall>k < n. m (s1 + k) \<noteq> m (s2 + k) \<and> (\<forall>i. k < i \<and> i < n \<longrightarrow> m (s1 + i) = m (s2 + i)) \<longrightarrow>
       memcmp pm m s1 s2 n = Some (byte_diff (m (s1 + k)) (m (s2 + k))))"
proof -
  have "memcmp_loop m s1 s2 n = byte_diff (m (s1 + k)) (m (s2 + k))"
    if "k < n" "m (s1 + k) \<noteq> m (s2 + k)" "\<forall>i. k < i \<and> i < n \<longrightarrow> m (s1 + i) = m (s2 + i)" for k
    using that
  proof (induction n)
    case (Suc n)
    then show ?case by (cases "k = n") auto
  qed simp
  with assms show ?thesis by (auto simp: memcmp_def memcmp_loop_zero)
qed

theorem memcmp_last_difference_witness:
  "memcmp (\<lambda>_. 3) (ex_mem [1, 9, 2, 3]) 0 2 2 = Some 6"
proof -
  have h: "mapped (\<lambda>_. 3) a" for a by (simp add: mm_check_addr_def)
  from memcmp_last_difference [OF h h, of "ex_mem [1, 9, 2, 3]" 0 2 2, THEN conjunct2]
  have "memcmp (\<lambda>_. 3) (ex_mem [1, 9, 2, 3]) 0 2 2 = Some (byte_diff 9 3)"
    by (elim allE [of _ 1]) (auto simp: ex_mem_def)
  then show ?thesis by (simp add: byte_diff_def)
qed

end
