(* ===== verification/Initrd.thy ===== *)
theory Initrd
  imports Stream Kstring Kstdlib
begin

text \<open>
  The initial RAM disk of \<open>kernel/src/fs/initrd.c\<close>: an old-format CPIO archive in memory, mounted
  into the file system. The archive's bytes are \<open>fs_mem\<close>; \<open>alloc k\<close> and \<open>lockbuf k\<close> are what the
  calls of \<open>kmalloc\<close> for the \<open>k\<close>-th file return. Decompression of an archive that starts with the
  LZOP magic number is the call \<open>decompress\<close>, whose result is the status and the address of the
  archive.
\<close>

section \<open>The archive format\<close>

definition le16 :: "mem \<Rightarrow> addr \<Rightarrow> u16" where
  "le16 m a = ucast (m a) OR push_bit 8 (ucast (m (a + 1)))"

definition le32 :: "mem \<Rightarrow> addr \<Rightarrow> u32" where
  "le32 m a = ucast (le16 m a) OR push_bit 16 (ucast (le16 m (a + 2)))"

text \<open>\<open>struct header_old_cpio\<close>, 26 bytes, packed.\<close>

record header_old_cpio =
  c_magic :: u16
  c_mode :: u16
  c_uid :: u16
  c_gid :: u16
  c_mtime :: u32
  c_namesize :: u16
  c_filesize :: u32

definition cpio_header :: "mem \<Rightarrow> addr \<Rightarrow> header_old_cpio" where
  "cpio_header m p = \<lparr>c_magic = le16 m p, c_mode = le16 m (p + 6), c_uid = le16 m (p + 8), c_gid = le16 m (p + 10),
     c_mtime = le32 m (p + 16), c_namesize = le16 m (p + 20), c_filesize = le32 m (p + 22)\<rparr>"

abbreviation (input) CPIO_MAGIC :: u16 where "CPIO_MAGIC \<equiv> 0x71C7"

definition CPIO2LE :: "u32 \<Rightarrow> u32" where
  "CPIO2LE x = push_bit 16 x OR drop_bit 16 x"

definition cpio_flags :: "u16 \<Rightarrow> u32" where
  "cpio_flags mode =
     (let t = mode AND 0xF000 in
      if t = 0xC000 then 0
      else if t = 0xA000 then FS_SYMLINK
      else if t = 0x8000 then FS_FILE
      else if t = 0x6000 then FS_BLCKDEV
      else if t = 0x4000 then FS_DIR
      else if t = 0x2000 then FS_CHARDEV
      else if t = 0x1000 then FS_PIPE
      else 0)"

text \<open>The text of the C string at an address.\<close>

definition read_cstr :: "mem \<Rightarrow> addr \<Rightarrow> string option" where
  "read_cstr m p = do { n \<leftarrow> strlen_loop m p 0; Some (map (\<lambda>i. char_of (unat (m (p + i)))) [0..<n]) }"

definition initrd_file_ops :: addr where "initrd_file_ops = 3"
definition initrd_hand_ops :: addr where "initrd_hand_ops = 4"

section \<open>Mounting\<close>

text \<open>One entry of the archive, at \<open>cfile\<close>, with the header \<open>h\<close> and the path \<open>filename\<close>.\<close>

definition cpio_data :: "u32 \<Rightarrow> header_old_cpio \<Rightarrow> u32" where
  "cpio_data cfile h = cfile + 26 + ucast (c_namesize h) + ucast (c_namesize h AND 1)"

definition cpio_next :: "u32 \<Rightarrow> header_old_cpio \<Rightarrow> u32" where
  "cpio_next cfile h =
     (let filesize = CPIO2LE (c_filesize h) in cpio_data cfile h + filesize + (filesize AND 1))"

text \<open>
  The text of \<open>file->name\<close>, to which \<open>memcpy\<close> copies the name without its terminator. A name of 256
  characters fills the array, and reading it goes on in the fields behind: \<open>length\<close> and \<open>impl\<close>,
  the inode of the directory. No result if these have no zero byte either, which takes an
  inode number of \<open>2 ^ 24\<close> or more.
\<close>

definition field_chars :: "u32 \<Rightarrow> string" where
  "field_chars v = map (\<lambda>i. char_of (unat v div 256 ^ i mod 256)) [0..<4]"

definition name_text :: "string \<Rightarrow> u32 \<Rightarrow> u32 \<Rightarrow> string option" where
  "name_text name len impl =
     (if length name < 256 then Some name
      else let behind = field_chars len @ field_chars impl in
        if NUL \<in> set behind then Some (name @ takeWhile (\<lambda>c. c \<noteq> NUL) behind) else None)"

definition mount_entry ::
    "addr \<Rightarrow> (nat \<Rightarrow> u8) option \<Rightarrow> addr \<Rightarrow> u32 \<Rightarrow> header_old_cpio \<Rightarrow> string \<Rightarrow> fs_state \<Rightarrow> fs_state option" where
  "mount_entry file lockbuf mnt cfile h filename w =
     (if file = NULL then None
      else do {
        let fname = take 256 filename;
        dir \<leftarrow> fs_find_file w mnt (dirname fname);
        let dir = (if dir = NULL then fs_get_root w else dir);
        D \<leftarrow> fs_files w dir;
        name \<leftarrow> name_text (basename fname) (CPIO2LE (c_filesize h)) (kf_inode D);
        let F = kfile_zero\<lparr>kf_name := name, kf_length := CPIO2LE (c_filesize h), kf_impl := kf_inode D,
          kf_uid := ucast (c_uid h), kf_gid := ucast (c_gid h), kf_link := NULL,
          kf_pflags := ucast (c_mode h AND 0xFFF), kf_flags := cpio_flags (c_mode h),
          kf_atime := 0, kf_mtime := uint (CPIO2LE (c_mtime h)), kf_ctime := uint (CPIO2LE (c_mtime h)),
          kf_ops := initrd_file_ops, kf_info := unat (cpio_data cfile h)\<rparr>;
        let w = w\<lparr>fs_files := (fs_files w)(file \<mapsto> F),
                  fs_lists := (fs_lists w)\<lparr>lh_items := (lh_items (fs_lists w))(file \<mapsto>
                    \<lparr>item_data = NULL, item_prev = NULL, item_next = NULL\<rparr>)\<rparr>\<rparr>;
        (r, w) \<leftarrow> fs_add_file lockbuf file dir w;
        Some w
      })"

text \<open>\<open>while(1)\<close> of \<open>initrd_mount\<close>; the result has the number of files mounted.\<close>

partial_function (option) initrd_loop ::
    "(nat \<Rightarrow> addr) \<Rightarrow> (nat \<Rightarrow> (nat \<Rightarrow> u8) option) \<Rightarrow> addr \<Rightarrow> nat \<Rightarrow> u32 \<Rightarrow> fs_state \<Rightarrow> (nat \<times> fs_state) option" where
  "initrd_loop alloc lockbuf mnt k cfile w =
     (let h = cpio_header (fs_mem w) (unat cfile) in
      if c_magic h \<noteq> CPIO_MAGIC then Some (k, w)
      else do {
        filename \<leftarrow> read_cstr (fs_mem w) (unat (cfile + 26));
        if filename = ''TRAILER!!!'' then Some (k, w)
        else do {
          w \<leftarrow> mount_entry (alloc k) (lockbuf k) mnt cfile h filename w;
          initrd_loop alloc lockbuf mnt (Suc k) (cpio_next cfile h) w
        }
      })"

declare initrd_loop.simps [code]

definition initrd_mount ::
    "(u32 \<Rightarrow> u32 \<Rightarrow> fs_state \<Rightarrow> int \<times> u32 \<times> fs_state) \<Rightarrow> (nat \<Rightarrow> addr) \<Rightarrow> (nat \<Rightarrow> (nat \<Rightarrow> u8) option) \<Rightarrow>
       addr \<Rightarrow> u32 \<Rightarrow> u32 \<Rightarrow> fs_state \<Rightarrow> (nat \<times> fs_state) option" where
  "initrd_mount decompress alloc lockbuf mnt initrd len w =
     (let (ret, cpio, w) =
        (if map (fs_mem w) [unat initrd..<unat initrd + 4] = [0x89, 0x4C, 0x5A, 0x4F]
         then decompress initrd len w else (0, initrd, w)) in
      if ret \<noteq> 0 then Some (0, w)
      else if le16 (fs_mem w) (unat cpio) \<noteq> CPIO_MAGIC then Some (0, w)
      else initrd_loop alloc lockbuf mnt 0 cpio w)"

section \<open>Open files\<close>

definition initrd_read :: "addr \<Rightarrow> u32 \<Rightarrow> u32 \<Rightarrow> fs_state \<Rightarrow> (int \<times> u8 list \<times> fs_state) option" where
  "initrd_read hand off sz w = do {
     H \<leftarrow> fs_hands w hand;
     if kh_file H = NULL then Some (0, [], w)
     else do {
       F \<leftarrow> fs_files w (kh_file H);
       if kf_info F = NULL then Some (0, [], w)
       else if kf_length F \<le> off then Some (0, [], w)
       else do {
         let len = (if kf_length F < sz + off then kf_length F - off else sz);
         Some (sint len, map (\<lambda>i. fs_mem w (kf_info F + unat off + i)) [0..<unat len], w)
       }
     }
   }"

text \<open>The text a symbolic link holds; \<open>symlink\<close> has 128 bytes.\<close>

definition link_text :: "kfile \<Rightarrow> fs_state \<Rightarrow> string option" where
  "link_text F w =
     (if unat (kf_length F) > 127 then None
      else Some (takeWhile (\<lambda>c. c \<noteq> NUL) (map (\<lambda>i. char_of (unat (fs_mem w (kf_info F + i)))) [0..<unat (kf_length F)])))"

text \<open>
  \<open>_open\<close>, with the call of \<open>fs_open\<close> on the link's target unfolded: the target's own \<open>open\<close> is
  \<open>_open\<close> again if it is a file of the archive, the one in \<open>V\<close> otherwise. A cycle of links does not end.
\<close>

partial_function (option) initrd_open :: "vfs_ops \<Rightarrow> addr \<Rightarrow> addr \<Rightarrow> fs_state \<Rightarrow> (int \<times> fs_state) option" where
  "initrd_open V f hand w = do {
     H \<leftarrow> fs_hands w hand;
     if kh_open_flags H AND OFLAGS_WRITE \<noteq> 0 then Some (- EROFS, w)
     else do {
       w \<leftarrow> file_lock f w;
       F \<leftarrow> fs_files w f;
       if kf_flags F AND FS_SYMLINK \<noteq> 0 then do {
         symlink \<leftarrow> link_text F w;
         w \<leftarrow> file_unlock f w;
         l \<leftarrow> fs_find_file w (kf_parent F) symlink;
         w \<leftarrow> upd_file f (kf_link_update (\<lambda>_. l)) w;
         if l = NULL then Some (- ENOENT, w)
         else if kh_open_flags H AND OFLAGS_OPEN \<noteq> 0 then Some (- EINVAL, w)
         else do {
           L \<leftarrow> fs_files w l;
           if kf_ops L = initrd_file_ops then initrd_open V l hand w else fs_open V l hand w
         }
       }
       else do {
         w \<leftarrow> upd_hand hand (\<lambda>H. H\<lparr>kh_file := f, kh_ops := initrd_hand_ops,
                kh_open_flags := kh_open_flags H OR OFLAGS_OPEN\<rparr>) w;
         w \<leftarrow> file_unlock f w;
         Some (0, w)
       }
     }
   }"

declare initrd_open.simps [code]

definition initrd_ops :: vfs_ops where
  "initrd_ops = stream_ops\<lparr>vo_open := (vo_open stream_ops)(initrd_file_ops \<mapsto> initrd_open stream_ops),
     vh_read := (vh_read stream_ops)(initrd_hand_ops \<mapsto> initrd_read)\<rparr>"

section \<open>Archives\<close>

text \<open>
  \<open>cpio_at m p es\<close>: at address \<open>p\<close> of memory lies an archive with the entries \<open>es\<close> (header and path),
  closed by the trailer.
\<close>

fun cpio_at :: "mem \<Rightarrow> u32 \<Rightarrow> (header_old_cpio \<times> string) list \<Rightarrow> bool" where
  "cpio_at m p [] \<longleftrightarrow> c_magic (cpio_header m (unat p)) = CPIO_MAGIC \<and> read_cstr m (unat (p + 26)) = Some ''TRAILER!!!''"
| "cpio_at m p ((h, n) # es) \<longleftrightarrow> cpio_header m (unat p) = h \<and> c_magic h = CPIO_MAGIC \<and>
     read_cstr m (unat (p + 26)) = Some n \<and> n \<noteq> ''TRAILER!!!'' \<and> cpio_at m (cpio_next p h) es"

text \<open>The addresses of the entries.\<close>

fun cpio_pos :: "u32 \<Rightarrow> (header_old_cpio \<times> string) list \<Rightarrow> u32 list" where
  "cpio_pos p [] = []"
| "cpio_pos p ((h, n) # es) = p # cpio_pos (cpio_next p h) es"

text \<open>What a file mounted in the directory \<open>d\<close> has of its entry.\<close>

definition entry_file :: "addr \<Rightarrow> u32 \<Rightarrow> header_old_cpio \<times> string \<Rightarrow> kfile \<Rightarrow> bool" where
  "entry_file d p e F \<longleftrightarrow> kf_name F = basename (snd e) \<and> kf_length F = CPIO2LE (c_filesize (fst e)) \<and>
     kf_info F = unat (cpio_data p (fst e)) \<and> kf_flags F = cpio_flags (c_mode (fst e)) \<and>
     kf_ops F = initrd_file_ops \<and> kf_parent F = d"

text \<open>The path of an entry: plain components, or the dot that \<open>find .\<close> puts first.\<close>

definition entry_path :: "string list \<Rightarrow> bool" where
  "entry_path cs \<longleftrightarrow> cs = [''.''] \<or> cs \<noteq> [] \<and> (\<forall>c \<in> set cs. plain c)"

text \<open>
  Paths in the order of an archive: each is new, and its directory is among the paths \<open>R\<close> that
  were there or came before it.
\<close>

fun parents_first :: "string list set \<Rightarrow> string list list \<Rightarrow> bool" where
  "parents_first R [] \<longleftrightarrow> True"
| "parents_first R (cs # css) \<longleftrightarrow> entry_path cs \<and> length (join cs) < 256 \<and>
     cs \<notin> R \<and> butlast cs \<in> R \<and> parents_first (insert cs R) css"

abbreviation paths_below :: "fs_state \<Rightarrow> kids \<Rightarrow> addr \<Rightarrow> string list set" where
  "paths_below w kids d \<equiv> {cs. resolve w kids d cs \<noteq> None}"

lemma parents_first_path: "parents_first R css \<Longrightarrow> i < length css \<Longrightarrow> entry_path (css ! i)"
proof (induction css arbitrary: R i)
  case (Cons cs css)
  then show ?case by (cases i) auto
qed simp

lemma find_file_dot: "f \<noteq> NULL \<Longrightarrow> fs_find_file w f ''.'' = Some f"
  by (simp add: fs_find_file.simps)

lemma last_sep_snoc: "CHR ''/'' \<notin> set b \<Longrightarrow> last_sep (a @ CHR ''/'' # b) = Some (a, b)"
proof (induction a)
  case Nil
  then show ?case using last_sep_None [of b] by simp
qed simp

lemma join_snoc: "cs \<noteq> [] \<Longrightarrow> join (cs @ [c]) = join cs @ CHR ''/'' # c"
  by (induction cs rule: join.induct) simp_all

lemma dirname_join:
  assumes "entry_path cs"
  shows "dirname (join cs) = (if butlast cs = [] then ''.'' else join (butlast cs))" "basename (join cs) = last cs"
proof -
  obtain ds c where cs: "cs = ds @ [c]" using assms by (cases cs rule: rev_cases) (auto simp: entry_path_def)
  then have c: "CHR ''/'' \<notin> set c" using assms by (auto simp: entry_path_def plain_def)
  show "dirname (join cs) = (if butlast cs = [] then ''.'' else join (butlast cs))" "basename (join cs) = last cs"
    using c last_sep_None [of c] by (cases "ds = []"; simp add: cs join_snoc dirname_def basename_def last_sep_snoc)+
qed

lemma find_dirname:
  assumes "tree w kids" "kids d \<noteq> None" "entry_path cs"
  shows "fs_find_file w d (dirname (join cs)) = Some (or_null (resolve w kids d (butlast cs)))"
proof (cases "butlast cs = []")
  case True
  have "d \<noteq> NULL" using assms(1,2) tree_nonnull by auto
  with True show ?thesis using find_file_dot dirname_join(1) [OF assms(3)] by simp
next
  case False
  moreover have "\<forall>c \<in> set (butlast cs). plain c" using assms(3) False by (auto simp: entry_path_def dest: in_set_butlastD)
  ultimately show ?thesis using find_file_join [OF assms(1,2)] dirname_join(1) [OF assms(3)] by simp
qed

section \<open>Paths of a tree that grows\<close>

text \<open>In a tree whose top is in no directory a file has one path.\<close>

definition is_top :: "kids \<Rightarrow> addr \<Rightarrow> bool" where
  "is_top kids d \<longleftrightarrow> (\<forall>p xs. kids p = Some xs \<longrightarrow> d \<notin> set xs)"

lemma child_Some: "child w kids p c = Some g \<Longrightarrow> \<exists>xs. kids p = Some xs \<and> g \<in> set xs \<and> name_of w g = c"
  by (auto simp: child_def find_Some_iff split: option.splits)

lemma resolve_snoc: "resolve w kids d (cs @ [c]) = (case resolve w kids d cs of None \<Rightarrow> None | Some g \<Rightarrow> child w kids g c)"
  by (induction cs arbitrary: d) (auto split: option.splits)

lemma resolve_kid: "tree w kids \<Longrightarrow> kids d \<noteq> None \<Longrightarrow> resolve w kids d cs = Some g \<Longrightarrow> kids g \<noteq> None"
proof (induction cs arbitrary: d)
  case (Cons c cs)
  then show ?case using child_kid [OF Cons.prems(1), of d c] by (auto split: option.splits)
qed simp

lemma resolve_unique:
  assumes t: "tree w kids" and top: "is_top kids d"
  shows "resolve w kids d cs = Some g \<Longrightarrow> resolve w kids d ds = Some g \<Longrightarrow> cs = ds"
proof (induction cs arbitrary: ds g rule: rev_induct)
  case Nil
  then show ?case using top
    by (cases ds rule: rev_cases) (auto simp: resolve_snoc is_top_def split: option.splits dest!: child_Some)
next
  case (snoc c cs)
  from snoc.prems(1) obtain p where p: "resolve w kids d cs = Some p" "child w kids p c = Some g"
    by (auto simp: resolve_snoc split: option.splits)
  show ?case
  proof (cases ds rule: rev_cases)
    case Nil
    with snoc.prems(2) p(2) top show ?thesis by (auto simp: is_top_def dest!: child_Some)
  next
    case (snoc ds' c')
    with snoc.prems(2) obtain q where q: "resolve w kids d ds' = Some q" "child w kids q c' = Some g"
      by (auto simp: resolve_snoc split: option.splits)
    from child_Some [OF p(2)] child_Some [OF q(2)] tree_dir [OF t] have "p = q" "c = c'"
      by (auto simp: dir_ok_def) (metis option.inject)
    with snoc.IH [OF p(1), of ds'] q(1) snoc show ?thesis by simp
  qed
qed

lemma child_grows:
  assumes "kids p = Some xs" "kids n = None" "\<And>c. kids c \<noteq> None \<Longrightarrow> name_of w' c = name_of w c" "tree w kids"
  shows "child w' (kids(p \<mapsto> xs @ [n], n \<mapsto> [])) d c =
    (if d = n then None
     else case child w kids d c of Some g \<Rightarrow> Some g | None \<Rightarrow> if d = p \<and> name_of w' n = c then Some n else None)"
proof (cases "kids d")
  case (Some ys)
  have "find (\<lambda>x. name_of w' x = c) ys = find (\<lambda>x. name_of w x = c) ys"
    using tree_child(1) [OF assms(4) Some] assms(3) by (intro find_cong) auto
  with Some assms(1,2) show ?thesis by (auto simp: child_def find_snoc split: option.split)
qed (use assms(1,2) in \<open>auto simp: child_def\<close>)

lemma resolve_grows:
  assumes k: "kids p = Some xs" "kids n = None" "\<And>c. kids c \<noteq> None \<Longrightarrow> name_of w' c = name_of w c" "tree w kids"
    and d: "kids d \<noteq> None" and new: "child w kids p (name_of w' n) = None"
  shows "resolve w' (kids(p \<mapsto> xs @ [n], n \<mapsto> [])) d cs =
    (case resolve w kids d cs of Some g \<Rightarrow> Some g
     | None \<Rightarrow> if cs \<noteq> [] \<and> last cs = name_of w' n \<and> resolve w kids d (butlast cs) = Some p then Some n else None)"
proof (induction cs rule: rev_induct)
  case (snoc c cs)
  have dn: "g \<noteq> n" if "resolve w kids d cs = Some g" for g
    using resolve_kid [OF k(4) d that] k(2) by auto
  show ?case
  proof (cases "resolve w kids d cs")
    case None
    have "child w' (kids(p \<mapsto> xs @ [n], n \<mapsto> [])) n c = None" using child_grows [OF k, of n c] by simp
    with None show ?thesis using snoc by (simp add: resolve_snoc del: fun_upd_apply)
  next
    case (Some g)
    with snoc dn new show ?thesis
      by (auto simp: resolve_snoc child_grows [OF k] simp del: fun_upd_apply split: option.split)
  qed
qed simp

lemma paths_grow:
  assumes "kids p = Some xs" "kids n = None" "\<And>c. kids c \<noteq> None \<Longrightarrow> name_of w' c = name_of w c" "tree w kids"
    and "kids d \<noteq> None" "is_top kids d" and cs: "cs \<noteq> []" "last cs = name_of w' n" "resolve w kids d (butlast cs) = Some p"
      "resolve w kids d cs = None"
  shows "paths_below w' (kids(p \<mapsto> xs @ [n], n \<mapsto> [])) d = insert cs (paths_below w kids d)"
    and "resolve w' (kids(p \<mapsto> xs @ [n], n \<mapsto> [])) d cs = Some n"
    and "resolve w kids d ds = Some g \<Longrightarrow> resolve w' (kids(p \<mapsto> xs @ [n], n \<mapsto> [])) d ds = Some g"
proof -
  have "resolve w kids d (butlast cs @ [last cs]) = None" using cs(1,4) by simp
  then have new: "child w kids p (name_of w' n) = None" using cs(2,3) by (simp add: resolve_snoc del: append_butlast_last_id)
  note grow = resolve_grows [OF assms(1-5) new]
  have uniq: "ds = cs" if "ds \<noteq> []" "last ds = name_of w' n" "resolve w kids d (butlast ds) = Some p" for ds
    using resolve_unique [OF assms(4,6) that(3) cs(3)] that(1,2) cs(1,2) by (metis append_butlast_last_id)
  have "resolve w' (kids(p \<mapsto> xs @ [n], n \<mapsto> [])) d ds \<noteq> None \<longleftrightarrow> ds = cs \<or> resolve w kids d ds \<noteq> None" for ds
    using uniq [of ds] cs by (cases "resolve w kids d ds") (auto simp: grow simp del: fun_upd_apply split: if_splits)
  then show "paths_below w' (kids(p \<mapsto> xs @ [n], n \<mapsto> [])) d = insert cs (paths_below w kids d)" by blast
  show "resolve w' (kids(p \<mapsto> xs @ [n], n \<mapsto> [])) d cs = Some n" using cs by (simp add: grow)
  show "resolve w kids d ds = Some g \<Longrightarrow> resolve w' (kids(p \<mapsto> xs @ [n], n \<mapsto> [])) d ds = Some g" by (simp add: grow)
qed

section \<open>Mounting an archive\<close>

lemma mount_entry_tree:
  assumes t: "tree w kids" and look: "fs_find_file w mnt (dirname n) = Some d" and m: "kids d = Some xs"
    and f: "kids file = None" "file \<noteq> NULL" and n: "length n < 256" "length (basename n) < 256"
  obtains w' F where "mount_entry file (Some b) mnt cfile h n w = Some w'" "entry_file d cfile (h, n) F"
    "tree w' (kids(d \<mapsto> xs @ [file], file \<mapsto> []))" "fs_files w' = (fs_files w)(file \<mapsto> F)"
    "fs_mem w' = fs_mem w" "fs_root w' = fs_root w"
proof -
  have dz: "d \<noteq> NULL" by (rule tree_nonnull [OF t m])
  from tree_dir [OF t m] obtain D where D: "fs_files w d = Some D" by (auto simp: dir_ok_def)
  let ?F = "kfile_zero\<lparr>kf_name := basename n, kf_length := CPIO2LE (c_filesize h), kf_impl := kf_inode D,
          kf_uid := ucast (c_uid h), kf_gid := ucast (c_gid h), kf_link := NULL,
          kf_pflags := ucast (c_mode h AND 0xFFF), kf_flags := cpio_flags (c_mode h),
          kf_atime := 0, kf_mtime := uint (CPIO2LE (c_mtime h)), kf_ctime := uint (CPIO2LE (c_mtime h)),
          kf_ops := initrd_file_ops, kf_info := unat (cpio_data cfile h)\<rparr>"
  let ?it = "\<lparr>item_data = NULL, item_prev = NULL, item_next = NULL\<rparr>"
  let ?w = "w\<lparr>fs_files := (fs_files w)(file \<mapsto> ?F),
    fs_lists := (fs_lists w)\<lparr>lh_items := (lh_items (fs_lists w))(file \<mapsto> ?it)\<rparr>\<rparr>"
  have t1: "tree ?w kids" by (rule tree_new_file [OF t f(1)])
  have "lh_items (fs_lists ?w) file \<noteq> None" "fs_files ?w file = Some ?F" by simp_all
  from fs_add_file_tree [OF t1 m f this, of b] obtain w' where
    w': "fs_add_file (Some b) file d ?w = Some (sint (fs_c_inode ?w), w')"
      "tree w' (kids(d \<mapsto> xs @ [file], file \<mapsto> []))" "fs_root w' = fs_root ?w"
      "fs_files w' = (fs_files ?w)(file \<mapsto> ?F\<lparr>kf_inode := fs_c_inode ?w, kf_file_lock := snd (tlock_init (Some b)), kf_parent := d\<rparr>)"
      "fs_mem w' = fs_mem ?w" .
  have me: "mount_entry file (Some b) mnt cfile h n w = Some w'"
    using f(2) look D dz w'(1) n by (simp add: mount_entry_def name_text_def Let_def)
  have ef: "entry_file d cfile (h, n) (?F\<lparr>kf_inode := fs_c_inode ?w, kf_file_lock := snd (tlock_init (Some b)), kf_parent := d\<rparr>)"
    by (simp add: entry_file_def)
  show thesis by (rule that [OF me ef w'(2)]) (simp_all add: w'(3-5))
qed

text \<open>One entry: the paths below the mount point are the old ones and that of the entry.\<close>

lemma mount_path:
  assumes t: "tree w kids" and m: "kids mnt \<noteq> None" "is_top kids mnt" and f: "kids file = None" "file \<noteq> NULL"
    and cs: "entry_path cs" "length (join cs) < 256" "resolve w kids mnt cs = None" "resolve w kids mnt (butlast cs) = Some d"
  obtains w' F kids' where "mount_entry file (Some b) mnt cfile h (join cs) w = Some w'" "entry_file d cfile (h, join cs) F"
    "tree w' kids'" "kids' mnt \<noteq> None" "is_top kids' mnt" "dom kids' = insert file (dom kids)"
    "fs_files w' = (fs_files w)(file \<mapsto> F)" "fs_mem w' = fs_mem w" "fs_root w' = fs_root w"
    "paths_below w' kids' mnt = insert cs (paths_below w kids mnt)" "resolve w' kids' mnt cs = Some file"
    "\<And>ds g. resolve w kids mnt ds = Some g \<Longrightarrow> resolve w' kids' mnt ds = Some g"
proof -
  have ne: "cs \<noteq> []" using cs(1) by (auto simp: entry_path_def)
  from resolve_kid [OF t m(1) cs(4)] obtain xs where d: "kids d = Some xs" by auto
  have look: "fs_find_file w mnt (dirname (join cs)) = Some d" using find_dirname [OF t m(1) cs(1)] cs(4) by simp
  have "length (basename (join cs)) \<le> length (join cs)"
    unfolding dirname_join(2) [OF cs(1)] using ne by (cases cs rule: rev_cases; cases "butlast cs = []") (auto simp: join_snoc)
  then have short: "length (basename (join cs)) < 256" using cs(2) by simp
  let ?k = "kids(d \<mapsto> xs @ [file], file \<mapsto> [])"
  from mount_entry_tree [OF t look d f cs(2) short, of b cfile h] obtain w' F where
    w': "mount_entry file (Some b) mnt cfile h (join cs) w = Some w'" "entry_file d cfile (h, join cs) F" "tree w' ?k"
      "fs_files w' = (fs_files w)(file \<mapsto> F)" "fs_mem w' = fs_mem w" "fs_root w' = fs_root w" .
  have nm: "name_of w' c = name_of w c" if "kids c \<noteq> None" for c using that f(1) w'(4) by (auto simp: name_of_def)
  have last: "last cs = name_of w' file" using w'(2,4) dirname_join(2) [OF cs(1)] by (simp add: entry_file_def name_of_def)
  have fm: "mnt \<noteq> file" using m(1) f(1) by auto
  have top: "is_top ?k mnt" using m(2) d fm by (auto simp: is_top_def split: if_splits)
  note grow = paths_grow [OF d f(1) nm t m ne last cs(4,3)]
  show thesis by (rule that [OF w'(1-3) _ top _ w'(4-6) grow]) (use d fm m in auto)
qed

lemma initrd_loop_tree:
  assumes "tree w kids" "kids mnt \<noteq> None" "is_top kids mnt" "cpio_at (fs_mem w) p es"
    and "\<forall>i \<in> {k..<k + length es}. alloc i \<noteq> NULL \<and> kids (alloc i) = None \<and> lockbuf i \<noteq> None"
    and "inj_on alloc {k..<k + length es}"
    and "parents_first (paths_below w kids mnt) css" "map snd es = map join css"
  shows "\<exists>w' kids'. initrd_loop alloc lockbuf mnt k p w = Some (k + length es, w') \<and> tree w' kids' \<and> kids' mnt \<noteq> None \<and>
    fs_root w' = fs_root w \<and> fs_mem w' = fs_mem w \<and>
    (\<forall>c. c \<notin> alloc ` {k..<k + length es} \<longrightarrow> fs_files w' c = fs_files w c) \<and>
    (\<forall>ds g. resolve w kids mnt ds = Some g \<longrightarrow> resolve w' kids' mnt ds = Some g) \<and>
    (\<forall>i < length es. resolve w' kids' mnt (css ! i) = Some (alloc (k + i)) \<and>
       (\<exists>F d. fs_files w' (alloc (k + i)) = Some F \<and> entry_file d (cpio_pos p es ! i) (es ! i) F \<and>
         resolve w' kids' mnt (butlast (css ! i)) = Some d))"
  using assms
proof (induction es arbitrary: w kids css k p)
  case Nil
  then show ?case by (auto simp: initrd_loop.simps [of alloc lockbuf mnt k p w] intro!: exI [of _ kids])
next
  case (Cons e es)
  obtain cs css' where css: "css = cs # css'" using Cons.prems(8) by (cases css) auto
  then obtain h where e: "e = (h, join cs)" using Cons.prems(8) by (cases e) auto
  let ?a = "alloc k" and ?S = "{Suc k..<Suc k + length es}"
  have S: "{k..<k + length (e # es)} = insert k ?S" by auto
  from Cons.prems(5) S obtain b where b: "lockbuf k = Some b" and a: "kids ?a = None" "?a \<noteq> NULL" by auto
  from Cons.prems(7) css obtain d where cs: "entry_path cs" "length (join cs) < 256" "resolve w kids mnt cs = None"
      "resolve w kids mnt (butlast cs) = Some d" and rest: "parents_first (insert cs (paths_below w kids mnt)) css'" by auto
  obtain w1 F k1 where
    w1: "mount_entry ?a (Some b) mnt p h (join cs) w = Some w1" "entry_file d p (h, join cs) F"
      "tree w1 k1" "k1 mnt \<noteq> None" "is_top k1 mnt" "dom k1 = insert ?a (dom kids)"
      "fs_files w1 = (fs_files w)(?a \<mapsto> F)" "fs_mem w1 = fs_mem w" "fs_root w1 = fs_root w"
      "paths_below w1 k1 mnt = insert cs (paths_below w kids mnt)" "resolve w1 k1 mnt cs = Some ?a"
      "\<And>ds g. resolve w kids mnt ds = Some g \<Longrightarrow> resolve w1 k1 mnt ds = Some g"
    by (rule mount_path [OF Cons.prems(1-3) a cs, of b p h]) (rule that)
  have inj: "inj_on alloc ?S" "?a \<notin> alloc ` ?S" using Cons.prems(6) unfolding S by (auto simp: inj_on_def)
  have cp: "cpio_at (fs_mem w1) (cpio_next p h) es" using Cons.prems(4) e w1(8) by simp
  have al: "\<forall>i \<in> ?S. alloc i \<noteq> NULL \<and> k1 (alloc i) = None \<and> lockbuf i \<noteq> None"
  proof
    fix i assume i: "i \<in> ?S"
    then have "alloc i \<noteq> ?a" using inj(2) by (metis imageI)
    then show "alloc i \<noteq> NULL \<and> k1 (alloc i) = None \<and> lockbuf i \<noteq> None"
      using i Cons.prems(5) w1(6) unfolding S by (metis domIff insertCI insertE)
  qed
  have pf: "parents_first (paths_below w1 k1 mnt) css'" "map snd es = map join css'"
    using rest w1(10) Cons.prems(8) css by simp_all
  from Cons.IH [OF w1(3-5) cp al inj(1) pf] obtain w' kids' where
    w': "initrd_loop alloc lockbuf mnt (Suc k) (cpio_next p h) w1 = Some (Suc k + length es, w')" "tree w' kids'" "kids' mnt \<noteq> None"
      "fs_root w' = fs_root w1" "fs_mem w' = fs_mem w1" "\<forall>c. c \<notin> alloc ` ?S \<longrightarrow> fs_files w' c = fs_files w1 c"
      "\<forall>ds g. resolve w1 k1 mnt ds = Some g \<longrightarrow> resolve w' kids' mnt ds = Some g"
      "\<forall>i < length es. resolve w' kids' mnt (css' ! i) = Some (alloc (Suc k + i)) \<and>
         (\<exists>F d. fs_files w' (alloc (Suc k + i)) = Some F \<and> entry_file d (cpio_pos (cpio_next p h) es ! i) (es ! i) F \<and>
           resolve w' kids' mnt (butlast (css' ! i)) = Some d)"
    by blast
  have "initrd_loop alloc lockbuf mnt k p w = Some (k + length (e # es), w')"
    using Cons.prems(4) e b w1(1) w'(1) by (simp add: initrd_loop.simps [of alloc lockbuf mnt k p w])
  moreover have "fs_files w' ?a = Some F" using w'(6) inj(2) w1(7) by simp
  then have "resolve w' kids' mnt (css ! i) = Some (alloc (k + i)) \<and>
      (\<exists>F d. fs_files w' (alloc (k + i)) = Some F \<and> entry_file d (cpio_pos p (e # es) ! i) ((e # es) ! i) F \<and>
         resolve w' kids' mnt (butlast (css ! i)) = Some d)" if "i < length (e # es)" for i
    using that w'(7,8) w1(2,11) w1(12) [OF cs(4)] e css by (cases i) auto
  moreover have "fs_files w' c = fs_files w c" if "c \<notin> alloc ` {k..<k + length (e # es)}" for c
    using that w'(6) w1(7) unfolding S by auto
  ultimately show ?case using w'(2-5,7) w1(8,9,12) by (intro exI [of _ w'] exI [of _ kids']) simp
qed

section \<open>Properties\<close>

text \<open>An archive of a directory \<open>a\<close> with an empty file \<open>b\<close> in it, at address 0, as bytes.\<close>

definition ex_cpio_bytes :: "u8 list" where
  "ex_cpio_bytes =
     [0xC7, 0x71, 0, 0, 0, 0, 0xED, 0x41, 0, 0, 0, 0, 0, 0, 0, 0, 0, 0, 0, 0, 2, 0, 0, 0, 0, 0, 0x61, 0] @
     [0xC7, 0x71, 0, 0, 0, 0, 0xA4, 0x81, 0, 0, 0, 0, 0, 0, 0, 0, 0, 0, 0, 0, 4, 0, 0, 0, 0, 0, 0x61, 0x2F, 0x62, 0] @
     [0xC7, 0x71, 0, 0, 0, 0, 0, 0, 0, 0, 0, 0, 0, 0, 0, 0, 0, 0, 0, 0, 11, 0, 0, 0, 0, 0] @
     [0x54, 0x52, 0x41, 0x49, 0x4C, 0x45, 0x52, 0x21, 0x21, 0x21, 0, 0]"

definition ex_initrd :: fs_state where
  "ex_initrd = ex_fs\<lparr>fs_mem := (\<lambda>a. if a < length ex_cpio_bytes then ex_cpio_bytes ! a else 0)\<rparr>"

definition ex_header :: "u16 \<Rightarrow> u16 \<Rightarrow> header_old_cpio" where
  "ex_header mode n = \<lparr>c_magic = CPIO_MAGIC, c_mode = mode, c_uid = 0, c_gid = 0, c_mtime = 0, c_namesize = n, c_filesize = 0\<rparr>"

text \<open>
  C21 (initrd mount). An archive is mounted at the top of a tree (a file that is in no directory, as
  the root, which is where the kernel mounts it). Its entries have paths of plain components (and
  possibly the \<open>.\<close> that \<open>find .\<close> lists first) of fewer than 256 characters, each new, and each
  in a directory that is already there or came before it in the archive. Then mounting ends, mounts
  every entry and keeps the tree well formed; looking up an entry's path at the mount point finds
  the file made for it, which has the entry's base name, size, type and data address and whose
  parent is what the entry's directory name finds; every path found before finds the same file, and
  no other file has changed. The archive is not compressed, and there is memory for every file.
\<close>

theorem initrd_mount_finds:
  assumes "tree w kids" and "kids mnt \<noteq> None" and "is_top kids mnt" and "cpio_at (fs_mem w) p es"
    and "\<forall>i < length es. alloc i \<noteq> NULL \<and> kids (alloc i) = None \<and> lockbuf i \<noteq> None"
    and "inj_on alloc {0..<length es}"
    and "map snd es = map join css" and "parents_first {cs. resolve w kids mnt cs \<noteq> None} css"
    and "map (fs_mem w) [unat p..<unat p + 4] \<noteq> [0x89, 0x4C, 0x5A, 0x4F]"
  shows "\<exists>w' kids'. initrd_mount decompress alloc lockbuf mnt p len w = Some (length es, w') \<and> tree w' kids' \<and>
    (\<forall>c. c \<notin> alloc ` {0..<length es} \<longrightarrow> fs_files w' c = fs_files w c) \<and>
    (\<forall>cs g. cs \<noteq> [] \<and> (\<forall>c \<in> set cs. plain c) \<and> resolve w kids mnt cs = Some g \<longrightarrow> fs_find_file w' mnt (join cs) = Some g) \<and>
    (\<forall>i < length es. (snd (es ! i) \<noteq> ''.'' \<longrightarrow> fs_find_file w' mnt (snd (es ! i)) = Some (alloc i)) \<and>
       (\<exists>F d. fs_files w' (alloc i) = Some F \<and> entry_file d (cpio_pos p es ! i) (es ! i) F \<and>
          fs_find_file w' mnt (dirname (snd (es ! i))) = Some d))"
proof -
  have al: "\<forall>i \<in> {0..<0 + length es}. alloc i \<noteq> NULL \<and> kids (alloc i) = None \<and> lockbuf i \<noteq> None" using assms(5) by simp
  have inj: "inj_on alloc {0..<0 + length es}" using assms(6) by simp
  from initrd_loop_tree [OF assms(1-4) al inj assms(8,7)] obtain w' kids' where
    w': "initrd_loop alloc lockbuf mnt 0 p w = Some (length es, w')" "tree w' kids'" "kids' mnt \<noteq> None"
      "\<forall>c. c \<notin> alloc ` {0..<length es} \<longrightarrow> fs_files w' c = fs_files w c"
      "\<forall>ds g. resolve w kids mnt ds = Some g \<longrightarrow> resolve w' kids' mnt ds = Some g"
      "\<forall>i < length es. resolve w' kids' mnt (css ! i) = Some (alloc i) \<and>
         (\<exists>F d. fs_files w' (alloc i) = Some F \<and> entry_file d (cpio_pos p es ! i) (es ! i) F \<and>
           resolve w' kids' mnt (butlast (css ! i)) = Some d)"
    by auto
  have "le16 (fs_mem w) (unat p) = CPIO_MAGIC"
    using assms(4) by (cases es) (auto simp: cpio_header_def)
  then have m: "initrd_mount decompress alloc lockbuf mnt p len w = Some (length es, w')"
    using assms(9) w'(1) by (simp add: initrd_mount_def)
  have len: "length css = length es" using assms(7) by (metis length_map)
  have path: "entry_path (css ! i)" "snd (es ! i) = join (css ! i)" if "i < length es" for i
    using parents_first_path [OF assms(8)] that len assms(7) by (simp_all add: list_eq_iff_nth_eq)
  note find = find_file_join [OF w'(2,3)]
  have "fs_find_file w' mnt (snd (es ! i)) = Some (alloc i)" if "i < length es" "snd (es ! i) \<noteq> ''.''" for i
    using path [OF that(1)] that w'(6) find [of "css ! i"] by (auto simp: entry_path_def)
  moreover have "fs_find_file w' mnt (dirname (snd (es ! i))) = Some (or_null (resolve w' kids' mnt (butlast (css ! i))))"
    if "i < length es" for i using find_dirname [OF w'(2,3) path(1) [OF that]] path(2) [OF that] by simp
  moreover have "fs_find_file w' mnt (join cs) = Some g"
    if "cs \<noteq> []" "\<forall>c \<in> set cs. plain c" "resolve w kids mnt cs = Some g" for cs g
    using find [OF that(1,2)] w'(5) that(3) by simp
  ultimately show ?thesis using m w'(2,4,6) by (intro exI [of _ w'] exI [of _ kids']) fastforce
qed

lemma ex_initrd_facts:
  "cpio_at (fs_mem ex_initrd) 0 [(ex_header 0x41ED 2, ''a''), (ex_header 0x81A4 4, ''a/b'')]"
  "map (fs_mem ex_initrd) [0..<4] \<noteq> [0x89, 0x4C, 0x5A, 0x4F]"
  by code_simp+

theorem initrd_mount_finds_witness:
  "\<exists>w'. initrd_mount (\<lambda>_ _ w. (1, 0, w)) (\<lambda>i. 10 + i) (\<lambda>i. Some (\<lambda>_. 0)) 1 0 96 ex_initrd = Some (2, w') \<and>
     fs_find_file w' 1 ''a/b'' = Some 11"
proof -
  have t: "tree ex_initrd ex_kids"
    using ex_tree by (simp add: ex_initrd_def tree_def dir_ok_def parent_of_def)
  have k: "ex_kids 1 \<noteq> None" "is_top ex_kids 1" "\<And>i. ex_kids (10 + i) = None" "ex_kids 1 = Some [2]"
    by (auto simp: ex_kids_def is_top_def)
  have n: "name_of ex_initrd 2 = ''bin''" using ex_names(1) by (simp add: ex_initrd_def name_of_def)
  have p: "parents_first (paths_below ex_initrd ex_kids 1) [[''a''], [''a'', ''b'']]"
    using k(4) n by (simp add: entry_path_def plain_def child_def)
  from initrd_mount_finds [OF t k(1,2) ex_initrd_facts(1), of "\<lambda>i. 10 + i" "\<lambda>i. Some (\<lambda>_. 0)"
      "[[''a''], [''a'', ''b'']]" "\<lambda>_ _ w. (1, 0, w)" 96] ex_initrd_facts(2) k(3) p
  show ?thesis by (auto simp: less_Suc_eq)
qed

text \<open>The bytes of a file of the archive.\<close>

definition file_bytes :: "fs_state \<Rightarrow> kfile \<Rightarrow> u8 list" where
  "file_bytes w F = map (\<lambda>i. fs_mem w (kf_info F + i)) [0..<unat (kf_length F)]"

lemma initrd_read_take:
  assumes "fs_hands w hand = Some H" and "kh_file H \<noteq> NULL" and "fs_files w (kh_file H) = Some F" and "kf_info F \<noteq> NULL"
    and small: "unat off + unat sz < 2 ^ 32"
  shows "initrd_read hand off sz w =
    (let data = take (unat sz) (drop (unat off) (file_bytes w F)) in Some (sint (of_nat (length data) :: u32), data, w))"
proof -
  from small have sum: "unat (sz + off) = unat sz + unat off" by (intro unat_add_u32_lt) simp
  let ?L = "unat (kf_length F)"
  let ?read = "initrd_read hand off sz w"
  let ?data = "take (unat sz) (drop (unat off) (file_bytes w F))"
  have data: "?data = map (\<lambda>i. fs_mem w (kf_info F + unat off + i)) [0..<min (unat sz) (?L - unat off)]"
    by (rule nth_equalityI) (auto simp: file_bytes_def add.assoc)
  show ?thesis
  proof (cases "kf_length F \<le> off")
    case le: True
    then have "?data = []" by (simp add: file_bytes_def word_le_nat_alt)
    moreover have "?read = Some (0, [], w)" using assms le by (simp add: initrd_read_def)
    ultimately show ?thesis by (simp only: Let_def) simp
  next
    case False
    define len where "len = (if kf_length F < sz + off then kf_length F - off else sz)"
    have u: "unat len = min (unat sz) (?L - unat off)"
      using False sum by (auto simp: len_def word_less_nat_alt word_le_nat_alt unat_sub_u32)
    then have "length ?data = unat len" unfolding data by simp
    then have "len = of_nat (length ?data)" by simp
    moreover have "?read = Some (sint len, ?data, w)"
      using assms False u unfolding data by (simp add: initrd_read_def len_def)
    ultimately have "?read = Some (sint len, ?data, w) \<and> len = of_nat (length ?data)" by blast
    then show ?thesis by (simp only: Let_def)
  qed
qed

text \<open>
  C22 (initrd read). Reading an archive file returns the bytes of the file from the offset on, at
  most \<open>sz\<close> of them, and their number, as long as \<open>off + sz\<close> does not exceed 32 bits. When the sum
  wraps to the file's length or less, the read returns \<open>sz\<close> bytes, more than the file has.
\<close>

theorem initrd_read_range:
  assumes "fs_hands w hand = Some H" and "kh_file H \<noteq> NULL" and "fs_files w (kh_file H) = Some F" and "kf_info F \<noteq> NULL"
  shows "if unat off + unat sz < 2 ^ 32
    then let data = take (unat sz) (drop (unat off) (file_bytes w F)) in
      initrd_read hand off sz w = Some (sint (of_nat (length data) :: u32), data, w)
    else off < kf_length F \<and> sz + off \<le> kf_length F \<longrightarrow>
      (\<exists>data. initrd_read hand off sz w = Some (sint sz, data, w) \<and> length data = unat sz \<and>
         length (file_bytes w F) < unat off + length data)"
proof (cases "unat off + unat sz < 2 ^ 32")
  case True
  then show ?thesis using initrd_read_take [OF assms True] by (simp add: Let_def)
next
  case False
  have "\<exists>data. initrd_read hand off sz w = Some (sint sz, data, w) \<and> length data = unat sz \<and>
      length (file_bytes w F) < unat off + length data"
    if "off < kf_length F" "sz + off \<le> kf_length F"
  proof -
    have "initrd_read hand off sz w =
        Some (sint sz, map (\<lambda>i. fs_mem w (kf_info F + unat off + i)) [0..<unat sz], w)"
      using assms that leD [OF that(2)] leD [where x = off and y = "kf_length F"]
      by (auto simp: initrd_read_def)
    moreover have "unat (kf_length F) < unat off + unat sz"
      using False by (intro less_le_trans [OF unat_u32_lt]) simp
    ultimately show ?thesis by (simp add: file_bytes_def)
  qed
  with False show ?thesis by simp
qed

definition ex_file_open :: fs_state where
  "ex_file_open = ex_fs\<lparr>fs_files := [5 \<mapsto> kfile_zero\<lparr>kf_info := 100, kf_length := 3\<rparr>],
     fs_hands := [9 \<mapsto> hand_zero\<lparr>kh_file := 5\<rparr>], fs_mem := (\<lambda>a. of_nat a)\<rparr>"

theorem initrd_read_range_witness:
  "initrd_read 9 1 8 ex_file_open = Some (2, [101, 102], ex_file_open) \<and>
   (\<exists>data. initrd_read 9 1 0xFFFFFFFF ex_file_open = Some (- 1, data, ex_file_open) \<and> length data = 0xFFFFFFFF)"
proof -
  let ?F = "kfile_zero\<lparr>kf_info := 100, kf_length := 3\<rparr>" and ?H = "hand_zero\<lparr>kh_file := 5\<rparr>"
  have h: "fs_hands ex_file_open 9 = Some ?H" "kh_file ?H \<noteq> NULL" "fs_files ex_file_open (kh_file ?H) = Some ?F" "kf_info ?F \<noteq> NULL"
    by (simp_all add: ex_file_open_def)
  have b: "file_bytes ex_file_open ?F = [100, 101, 102]"
    by (simp add: file_bytes_def ex_file_open_def upt_rec)
  from initrd_read_range [OF h, of 1 8] initrd_read_range [OF h, of 1 "0xFFFFFFFF"] b
  show ?thesis by auto
qed

end
