(* ===== verification/Kproc.thy ===== *)
theory Kproc
  imports Llist_Iface
begin

text \<open>
  Processes and threads: the data of \<open>kernel/inc/proc/types\<close>, the process table and scheduler state,
  and the operations of \<open>proc.c\<close>, \<open>thread.c\<close>, \<open>sched.c\<close>, \<open>mtask.c\<close>, \<open>cond.c\<close>, \<open>wait.c\<close> and the
  per-process memory map of \<open>mm.c\<close>, with the x86 thread setup of \<open>arch/x86/src/proc/tasking.c\<close>.

  Objects live at addresses, with the x86 layout of the structures for the list items and list heads
  inside them; reading freed or unallocated memory gives \<open>None\<close>, as do a panic and a failed
  assertion. \<open>ks_new\<close> holds the results of the coming calls of the allocator (\<open>NULL\<close> when it fails),
  \<open>ks_freed\<close> the blocks given to \<open>kfree\<close> whose contents are not modelled here, \<open>ks_mmu\<close> the calls
  to the page-table component. What other threads do while the caller is in \<open>run_sched\<close> is an
  argument of the operations that call it.
\<close>

section \<open>Data\<close>

record kthread_arch =
  ar_esp :: u32
  ar_ebp :: u32
  ar_eip :: u32
  ar_kern_begin :: u32
  ar_kern_size :: u32
  ar_user_begin :: u32
  ar_user_size :: u32
  ar_stack_entry :: u32
  ar_iret :: u32
  ar_pusha :: u32

record kthread =
  th_name :: string
  th_tid :: u32
  th_flags :: u32
  th_prio :: int
  th_cond :: addr
  th_process :: addr
  th_arch :: kthread_arch
  th_entrypoint :: addr
  th_stack_size :: u32
  th_data :: addr
  th_time_last :: u64
  th_time_accum :: u64
  th_sched_count :: u32

record kproc_mem_map_ent =
  me_virt :: u32
  me_phys :: u32
  me_length :: u32
  me_next :: addr

record kproc =
  pr_name :: string
  pr_pid :: int
  pr_uid :: int
  pr_gid :: int
  pr_parent :: int
  pr_type :: u32
  pr_mmu_table :: addr
  pr_domain :: u8
  pr_children :: "addr list"
  pr_cwd :: addr
  pr_open_files :: "addr list"
  pr_file_position :: "u32 list"
  pr_symbols :: addr
  pr_elf_data :: addr
  pr_exitcode :: int
  pr_mmap :: addr
  pr_wait_cond :: addr

datatype mmu_call =
    Mmu_clone addr addr
  | Mmu_map addr u32 u32 u32 u32

record kstate =
  ks_lh :: lheap
  ks_threads :: "addr \<rightharpoonup> kthread"
  ks_procs :: "addr \<rightharpoonup> kproc"
  ks_ments :: "addr \<rightharpoonup> kproc_mem_map_ent"
  ks_conds :: "addr \<rightharpoonup> lock_t"
  ks_citems :: "addr \<rightharpoonup> addr"
  ks_next_pid :: int
  ks_cpu_threads :: addr
  ks_curr :: "addr list option"
  ks_n_cpus :: nat
  ks_creat_task :: lock_t
  ks_time :: u64
  ks_root :: addr
  ks_kernel_table :: addr
  ks_new :: "addr list"
  ks_freed :: "addr list"
  ks_mmu :: "mmu_call list"

text \<open>Members of the structures, at their x86 offsets; the two static lists.\<close>

abbreviation list_item_of :: "addr \<Rightarrow> addr" where "list_item_of t \<equiv> t + 156"
abbreviation sched_item_of :: "addr \<Rightarrow> addr" where "sched_item_of t \<equiv> t + 168"
abbreviation threads_of :: "addr \<Rightarrow> addr" where "threads_of p \<equiv> p + 124"
abbreviation proc_item_of :: "addr \<Rightarrow> addr" where "proc_item_of p \<equiv> p + 220"
abbreviation cond_list_of :: "addr \<Rightarrow> addr" where "cond_list_of c \<equiv> c + 4"

abbreviation (input) THREAD_QUEUE :: addr where "THREAD_QUEUE \<equiv> 8"
abbreviation (input) PROCS :: addr where "PROCS \<equiv> 16"

abbreviation (input) MAX_CHILDREN :: nat where "MAX_CHILDREN \<equiv> 8"
abbreviation (input) MAX_OPEN_FILES :: nat where "MAX_OPEN_FILES \<equiv> 8"
abbreviation (input) KPROC_NAME_MAX :: nat where "KPROC_NAME_MAX \<equiv> 63"

abbreviation (input) TYPE_RUNNABLE :: u32 where "TYPE_RUNNABLE \<equiv> 1"
abbreviation (input) TYPE_ZOMBIE :: u32 where "TYPE_ZOMBIE \<equiv> 2"
abbreviation (input) KTHREAD_FLAG_RUNNABLE :: u32 where "KTHREAD_FLAG_RUNNABLE \<equiv> 0x80000000"
abbreviation (input) KTHREAD_FLAG_RANONCE :: u32 where "KTHREAD_FLAG_RANONCE \<equiv> 2"
abbreviation (input) PROC_DOMAIN_USERSPACE :: u8 where "PROC_DOMAIN_USERSPACE \<equiv> 2"

section \<open>Memory\<close>

definition kmalloc_next :: "kstate \<Rightarrow> addr \<times> kstate" where
  "kmalloc_next s = (case ks_new s of [] \<Rightarrow> (NULL, s) | a # as \<Rightarrow> (a, s\<lparr>ks_new := as\<rparr>))"

definition kfree_block :: "addr \<Rightarrow> kstate \<Rightarrow> kstate" where
  "kfree_block a s = s\<lparr>ks_freed := ks_freed s @ [a]\<rparr>"

definition zero_item :: llist_item where
  "zero_item = \<lparr>item_data = 0, item_prev = 0, item_next = 0\<rparr>"

definition zero_thread :: kthread where
  "zero_thread = \<lparr>th_name = [], th_tid = 0, th_flags = 0, th_prio = 0, th_cond = 0, th_process = 0,
     th_arch = \<lparr>ar_esp = 0, ar_ebp = 0, ar_eip = 0, ar_kern_begin = 0, ar_kern_size = 0, ar_user_begin = 0,
       ar_user_size = 0, ar_stack_entry = 0, ar_iret = 0, ar_pusha = 0\<rparr>,
     th_entrypoint = 0, th_stack_size = 0, th_data = 0, th_time_last = 0, th_time_accum = 0, th_sched_count = 0\<rparr>"

definition zero_proc :: kproc where
  "zero_proc = \<lparr>pr_name = [], pr_pid = 0, pr_uid = 0, pr_gid = 0, pr_parent = 0, pr_type = 0, pr_mmu_table = 0,
     pr_domain = 0, pr_children = replicate MAX_CHILDREN 0, pr_cwd = 0, pr_open_files = replicate MAX_OPEN_FILES 0,
     pr_file_position = replicate MAX_OPEN_FILES 0, pr_symbols = 0, pr_elf_data = 0, pr_exitcode = 0, pr_mmap = 0,
     pr_wait_cond = 0\<rparr>"

definition put_items :: "addr list \<Rightarrow> llist_item option \<Rightarrow> lheap \<Rightarrow> lheap" where
  "put_items as it h = h\<lparr>lh_items := (\<lambda>a. if a \<in> set as then it else lh_items h a)\<rparr>"

text \<open>\<open>kmalloc\<close> of a \<open>kthread_t\<close> or \<open>kproc_t\<close> followed by \<open>memset\<close>, and \<open>kfree\<close> of one.\<close>

definition put_thread :: "addr \<Rightarrow> kthread \<Rightarrow> kstate \<Rightarrow> kstate" where
  "put_thread t T s = s\<lparr>ks_threads := (ks_threads s)(t \<mapsto> T),
     ks_lh := put_items [list_item_of t, sched_item_of t] (Some zero_item) (ks_lh s)\<rparr>"

definition free_thread :: "addr \<Rightarrow> kstate \<Rightarrow> kstate" where
  "free_thread t s = s\<lparr>ks_threads := (ks_threads s)(t := None),
     ks_lh := put_items [list_item_of t, sched_item_of t] None (ks_lh s)\<rparr>"

definition put_proc :: "addr \<Rightarrow> kproc \<Rightarrow> kstate \<Rightarrow> kstate" where
  "put_proc p P s = s\<lparr>ks_procs := (ks_procs s)(p \<mapsto> P), ks_lh := put_items [proc_item_of p] (Some zero_item) (ks_lh s)\<rparr>"

definition free_proc :: "addr \<Rightarrow> kstate \<Rightarrow> kstate" where
  "free_proc p s = s\<lparr>ks_procs := (ks_procs s)(p := None),
     ks_lh := (put_items [proc_item_of p] None (ks_lh s))\<lparr>lh_lists := (lh_lists (ks_lh s))(threads_of p := None)\<rparr>\<rparr>"

definition set_data :: "lheap \<Rightarrow> addr \<Rightarrow> addr \<Rightarrow> lheap option" where
  "set_data h a v = do {
     it \<leftarrow> lh_items h a;
     Some (h\<lparr>lh_items := (lh_items h)(a \<mapsto> it\<lparr>item_data := v\<rparr>)\<rparr>)
   }"

definition upd_thread :: "addr \<Rightarrow> (kthread \<Rightarrow> kthread) \<Rightarrow> kstate \<Rightarrow> kstate option" where
  "upd_thread t f s = do { T \<leftarrow> ks_threads s t; Some (s\<lparr>ks_threads := (ks_threads s)(t \<mapsto> f T)\<rparr>) }"

definition upd_proc :: "addr \<Rightarrow> (kproc \<Rightarrow> kproc) \<Rightarrow> kstate \<Rightarrow> kstate option" where
  "upd_proc p f s = do { P \<leftarrow> ks_procs s p; Some (s\<lparr>ks_procs := (ks_procs s)(p \<mapsto> f P)\<rparr>) }"

definition on_lh :: "(lheap \<Rightarrow> lheap option) \<Rightarrow> kstate \<Rightarrow> kstate option" where
  "on_lh f s = do { h \<leftarrow> f (ks_lh s); Some (s\<lparr>ks_lh := h\<rparr>) }"

text \<open>\<open>lock_for\<close> on the lock of the list at \<open>l\<close>: its first attempt finds the word of the state.\<close>

definition llist_lock_for :: "(nat \<Rightarrow> lock_t \<times> u64) \<Rightarrow> addr \<Rightarrow> u32 \<Rightarrow> kstate \<Rightarrow> (int \<times> kstate) option" where
  "llist_lock_for env l ms s = do {
     L \<leftarrow> lh_lists (ks_lh s) l;
     (r, v, _) \<leftarrow> lock_for (env(0 := (ll_lock L, snd (env 0)))) (ks_time s) ms;
     s \<leftarrow> on_lh (\<lambda>h. set_lock h l v) s;
     Some (r, s)
   }"

section \<open>The scheduler\<close>

definition cpu_list :: "kstate \<Rightarrow> nat \<Rightarrow> addr" where
  "cpu_list s cpu = ks_cpu_threads s + 8 * cpu"

definition sched_init :: "nat \<Rightarrow> kstate \<Rightarrow> (int \<times> kstate) option" where
  "sched_init n_cpus s =
     (let (base, s) = kmalloc_next s; (curr, s) = kmalloc_next s in
      if n_cpus \<noteq> 0 \<and> (base = NULL \<or> curr = NULL) then None
      else Some (0, s\<lparr>ks_cpu_threads := base, ks_curr := (if curr = NULL then None else Some (replicate n_cpus NULL)),
             ks_lh := llist_init (foldl (\<lambda>h i. llist_init h (base + 8 * i)) (ks_lh s) [0..<n_cpus]) THREAD_QUEUE,
             ks_n_cpus := n_cpus\<rparr>))"

definition sched_get_curr_thread :: "nat \<Rightarrow> kstate \<Rightarrow> addr option" where
  "sched_get_curr_thread cpu s =
     (case ks_curr s of None \<Rightarrow> Some NULL | Some cs \<Rightarrow> if cpu < length cs then Some (cs ! cpu) else None)"

definition set_curr :: "nat \<Rightarrow> addr \<Rightarrow> kstate \<Rightarrow> kstate option" where
  "set_curr cpu t s =
     (case ks_curr s of None \<Rightarrow> None
      | Some cs \<Rightarrow> if cpu < length cs then Some (s\<lparr>ks_curr := Some (cs[cpu := t])\<rparr>) else None)"

definition sched_enqueue_thread :: "(nat \<Rightarrow> lock_t \<times> u64) \<Rightarrow> addr \<Rightarrow> kstate \<Rightarrow> (int \<times> kstate) option" where
  "sched_enqueue_thread env thread s =
     (if thread = NULL then None
      else do {
        _ \<leftarrow> ks_threads s thread;
        s \<leftarrow> on_lh (\<lambda>h. set_data h (sched_item_of thread) thread) s;
        (r, s) \<leftarrow> llist_lock_for env THREAD_QUEUE 2000 s;
        if r \<noteq> 0 then Some (- ETIMEDOUT, s)
        else do {
          s \<leftarrow> on_lh (\<lambda>h. llist_append_unlocked h THREAD_QUEUE (sched_item_of thread)) s;
          s \<leftarrow> on_lh (\<lambda>h. llist_unlock h THREAD_QUEUE) s;
          Some (0, s)
        }
      })"

primrec sched_remove_from :: "(nat \<Rightarrow> lock_t \<times> u64) \<Rightarrow> addr \<Rightarrow> nat list \<Rightarrow> kstate \<Rightarrow> (int \<times> kstate) option" where
  "sched_remove_from env thread [] s = Some (- 1, s)"
| "sched_remove_from env thread (i # is) s = do {
     pos \<leftarrow> llist_get_position (ks_lh s) (cpu_list s i) (sched_item_of thread);
     if 0 \<le> pos then do {
       _ \<leftarrow> ks_threads s thread;
       (r, s) \<leftarrow> llist_lock_for env (cpu_list s i) 2000 s;
       if r \<noteq> 0 then Some (- ETIMEDOUT, s)
       else do {
         s \<leftarrow> on_lh (\<lambda>h. llist_remove_unlocked h (cpu_list s i) (sched_item_of thread)) s;
         s \<leftarrow> on_lh (\<lambda>h. llist_unlock h (cpu_list s i)) s;
         Some (0, s)
       }
     }
     else sched_remove_from env thread is s
   }"

definition sched_remove_thread :: "(nat \<Rightarrow> lock_t \<times> u64) \<Rightarrow> addr \<Rightarrow> kstate \<Rightarrow> (int \<times> kstate) option" where
  "sched_remove_thread env thread s = sched_remove_from env thread [0..<ks_n_cpus s] s"

definition cpu_thread_count :: "kstate \<Rightarrow> nat \<Rightarrow> int option" where
  "cpu_thread_count s cpu = llist_count (ks_lh s) (cpu_list s cpu)"

definition cpu_add_thread :: "nat \<Rightarrow> addr \<Rightarrow> kstate \<Rightarrow> kstate option" where
  "cpu_add_thread cpu thread s = do {
     _ \<leftarrow> ks_threads s thread;
     s \<leftarrow> on_lh (\<lambda>h. llist_append h (cpu_list s cpu) (sched_item_of thread)) s;
     curr \<leftarrow> sched_get_curr_thread cpu s;
     if curr = NULL then set_curr cpu thread s else Some s
   }"

text \<open>The loop over the other CPUs: the count is read from \<open>_cpu_threads[_n_cpus]\<close> each time.\<close>

primrec least_loaded :: "kstate \<Rightarrow> nat list \<Rightarrow> nat \<Rightarrow> int \<Rightarrow> nat option" where
  "least_loaded s [] cpu count = Some cpu"
| "least_loaded s (i # is) cpu count = do {
     cnt \<leftarrow> cpu_thread_count s (ks_n_cpus s);
     if cnt < count then least_loaded s is i cnt else least_loaded s is cpu count
   }"

definition schedule_thread :: "addr \<Rightarrow> kstate \<Rightarrow> kstate option" where
  "schedule_thread thread s =
     (if thread = NULL then None
      else do {
        count \<leftarrow> cpu_thread_count s 0;
        cpu \<leftarrow> least_loaded s [1..<ks_n_cpus s] 0 count;
        cpu_add_thread cpu thread s
      })"

text \<open>\<open>llist_pop_unlocked\<close> of the list at \<open>l\<close>.\<close>

definition pop_item :: "addr \<Rightarrow> kstate \<Rightarrow> (addr \<times> kstate) option" where
  "pop_item l s = do { (item, h) \<leftarrow> llist_pop_unlocked (ks_lh s) l; Some (item, s\<lparr>ks_lh := h\<rparr>) }"

definition schedule_item :: "addr \<Rightarrow> kstate \<Rightarrow> kstate option" where
  "schedule_item item s = do { it \<leftarrow> lh_items (ks_lh s) item; schedule_thread (item_data it) s }"

definition sched_processes :: "kstate \<Rightarrow> kstate option" where
  "sched_processes s = do {
     L \<leftarrow> lh_lists (ks_lh s) THREAD_QUEUE;
     let (r, v) = lock_try (ll_lock L);
     s \<leftarrow> on_lh (\<lambda>h. set_lock h THREAD_QUEUE v) s;
     if r \<noteq> 0 then Some s
     else do {
       s \<leftarrow> drain (pop_item THREAD_QUEUE) schedule_item s;
       on_lh (\<lambda>h. llist_unlock h THREAD_QUEUE) s
     }
   }"

text \<open>Whether the condition of the \<open>do\<close>-loop in \<open>sched_next_process\<close> accepts a thread.\<close>

definition may_run :: "kproc \<Rightarrow> kthread \<Rightarrow> bool" where
  "may_run P T \<longleftrightarrow> pr_type P AND TYPE_RUNNABLE \<noteq> 0 \<and> th_flags T AND KTHREAD_FLAG_RUNNABLE \<noteq> 0 \<and> th_cond T = NULL"

partial_function (option) next_loop :: "kstate \<Rightarrow> llist_iterator \<Rightarrow> addr option" where
  "next_loop s iter = do {
     (r, d, iter) \<leftarrow> llist_iterate (ks_lh s) iter;
     if r = 0 then None
     else do {
       let iter = (if it_first iter = 0xFFFFFFFF then iter\<lparr>it_first := it_curr iter\<rparr> else iter);
       let thread = the d;
       if thread = NULL then None
       else do {
         T \<leftarrow> ks_threads s thread;
         if th_process T = NULL then None
         else do {
           P \<leftarrow> ks_procs s (th_process T);
           if may_run P T then Some thread else next_loop s iter
         }
       }
     }
   }"

declare next_loop.simps [code]

definition sched_next_process :: "nat \<Rightarrow> kstate \<Rightarrow> (addr \<times> kstate) option" where
  "sched_next_process cpu s =
     (case ks_curr s of None \<Rightarrow> None
      | Some cs \<Rightarrow>
          if length cs \<le> cpu then None
          else do {
            let thread = cs ! cpu;
            let time = ks_time s;
            s \<leftarrow> upd_thread thread (\<lambda>T. T\<lparr>th_time_accum := th_time_accum T + (time - th_time_last T)\<rparr>) s;
            thread \<leftarrow> next_loop s \<lparr>it_first = 0xFFFFFFFF, it_curr = sched_item_of thread\<rparr>;
            s \<leftarrow> set_curr cpu thread s;
            s \<leftarrow> upd_thread thread (\<lambda>T. T\<lparr>th_sched_count := th_sched_count T + 1, th_time_last := time\<rparr>) s;
            Some (thread, s)
          })"

definition sched_replace_thread :: "addr \<Rightarrow> kstate \<Rightarrow> kstate option" where
  "sched_replace_thread new_thread s = do {
     old_thread \<leftarrow> (case ks_curr s of None \<Rightarrow> None | Some cs \<Rightarrow> if 0 < length cs then Some (cs ! 0) else None);
     s \<leftarrow> on_lh (\<lambda>h. set_data h (sched_item_of new_thread) new_thread) s;
     s \<leftarrow> on_lh (\<lambda>h. llist_remove h (cpu_list s 0) (sched_item_of old_thread)) s;
     s \<leftarrow> on_lh (\<lambda>h. llist_append h (cpu_list s 0) (sched_item_of new_thread)) s;
     set_curr 0 new_thread s
   }"

section \<open>Lists inside the kernel state\<close>

interpretation kstack: item_stack "\<lambda>s. ring (ks_lh s) l" "pop_item l"
    "\<lambda>s s' xs. unchanged (set xs) l (ks_lh s) (ks_lh s') \<and> s' = s\<lparr>ks_lh := ks_lh s'\<rparr>" for l
proof unfold_locales
  show "NULL \<notin> set xs" if "ring (ks_lh s) l xs" for s :: kstate and xs using that by (rule lstack.repr_null)
  show "pop_item l s = Some (NULL, s)" if "ring (ks_lh s) l []" for s
    using lstack.pop_empty [OF that] by (simp add: pop_item_def)
  show "\<exists>s'. pop_item l s = Some (a, s') \<and> ring (ks_lh s') l xs \<and>
      unchanged (set xs) l (ks_lh s) (ks_lh s') \<and> s' = s\<lparr>ks_lh := ks_lh s'\<rparr>"
    if "ring (ks_lh s) l (xs @ [a])" for s xs a
    using lstack.pop_snoc [OF that] by (auto simp: pop_item_def)
qed

lemma on_lh_Some: "f (ks_lh s) = Some h \<Longrightarrow> on_lh f s = Some (s\<lparr>ks_lh := h\<rparr>)"
  by (simp add: on_lh_def)

end
