(* ===== verification/Mtask.thy ===== *)
theory Mtask
  imports Kproc
begin

text \<open>
  Creating, finding, ending and destroying processes and threads: \<open>proc.c\<close>, \<open>thread.c\<close>, \<open>mtask.c\<close>,
  \<open>cond.c\<close>, \<open>wait.c\<close>, the memory-map entries of \<open>mm.c\<close>, the stacks of
  \<open>arch/x86/src/proc/tasking.c\<close> and \<open>sched_idle_init\<close>. State and conventions are those of \<open>Kproc\<close>;
  the configuration is the default one (stack sizes, all strictness checks).
\<close>

abbreviation (input) CONFIG_PROC_KERN_STACK_SIZE :: u32 where "CONFIG_PROC_KERN_STACK_SIZE \<equiv> 4096"
abbreviation (input) CONFIG_PROC_USER_STACK_SIZE :: u32 where "CONFIG_PROC_USER_STACK_SIZE \<equiv> 32768"
abbreviation (input) CONFIG_PROC_USER_STACK_SIZE_MAX :: u32 where "CONFIG_PROC_USER_STACK_SIZE_MAX \<equiv> 65536"

section \<open>The current thread, the process list\<close>

definition mtask_get_curr_thread :: "kstate \<Rightarrow> addr option" where
  "mtask_get_curr_thread s = sched_get_curr_thread 0 s"

text \<open>\<open>Some NULL\<close> when there is no current thread.\<close>

definition mtask_get_curr_process :: "kstate \<Rightarrow> addr option" where
  "mtask_get_curr_process s = do {
     thread \<leftarrow> sched_get_curr_thread 0 s;
     if thread = NULL then Some NULL
     else do { T \<leftarrow> ks_threads s thread; Some (th_process T) }
   }"

definition mtask_insert_proc :: "addr \<Rightarrow> kstate \<Rightarrow> (int \<times> kstate) option" where
  "mtask_insert_proc p s = do {
     s \<leftarrow> on_lh (\<lambda>h. set_data h (proc_item_of p) p) s;
     s \<leftarrow> on_lh (\<lambda>h. llist_append h PROCS (proc_item_of p)) s;
     Some (0, s)
   }"

definition mtask_remove_proc :: "addr \<Rightarrow> kstate \<Rightarrow> (int \<times> kstate) option" where
  "mtask_remove_proc p s = do {
     s \<leftarrow> on_lh (\<lambda>h. llist_remove h PROCS (proc_item_of p)) s;
     Some (0, s)
   }"

definition proc_by_pid :: "int \<Rightarrow> kstate \<Rightarrow> addr option" where
  "proc_by_pid pid s = do {
     L \<leftarrow> lh_lists (ks_lh s) PROCS;
     if ll_list L = NULL then Some NULL
     else do {
       it \<leftarrow> llist_iterator_init (ks_lh s) PROCS \<lparr>it_first = NULL, it_curr = NULL\<rparr>;
       r \<leftarrow> iterate_find (ks_lh s) (\<lambda>p. do { P \<leftarrow> ks_procs s p; Some (pr_pid P = pid) }) it;
       Some (case r of None \<Rightarrow> NULL | Some p \<Rightarrow> p)
     }
   }"

partial_function (option) thread_by_tid_loop :: "u32 \<Rightarrow> kstate \<Rightarrow> llist_iterator \<Rightarrow> addr option" where
  "thread_by_tid_loop tid s p_iter = do {
     (r, p, p_iter) \<leftarrow> llist_iterate (ks_lh s) p_iter;
     if r = 0 then Some NULL
     else do {
       t_iter \<leftarrow> llist_iterator_init (ks_lh s) (threads_of (the p)) \<lparr>it_first = NULL, it_curr = NULL\<rparr>;
       f \<leftarrow> iterate_find (ks_lh s) (\<lambda>t. do { T \<leftarrow> ks_threads s t; Some (th_tid T = tid) }) t_iter;
       case f of Some t \<Rightarrow> Some t | None \<Rightarrow> thread_by_tid_loop tid s p_iter
     }
   }"

declare thread_by_tid_loop.simps [code]

definition thread_by_tid :: "int \<Rightarrow> kstate \<Rightarrow> addr option" where
  "thread_by_tid tid s = do {
     L \<leftarrow> lh_lists (ks_lh s) PROCS;
     if ll_list L = NULL then Some NULL
     else do {
       it \<leftarrow> llist_iterator_init (ks_lh s) PROCS \<lparr>it_first = NULL, it_curr = NULL\<rparr>;
       thread_by_tid_loop (of_int tid) s it
     }
   }"

definition get_pid :: "kstate \<Rightarrow> int option" where
  "get_pid s = do {
     thread \<leftarrow> mtask_get_curr_thread s;
     if thread = NULL then Some (- EUNSPEC)
     else do { T \<leftarrow> ks_threads s thread; P \<leftarrow> ks_procs s (th_process T); Some (pr_pid P) }
   }"

text \<open>
  \<open>next_pid\<close> is an \<open>int\<close> of 32 bits. The state counts on; the value of the variable, which only
  \<open>get_next_pid\<close> uses, is the count in 32 bits, so after \<open>0x7FFFFFFF\<close> come the negative numbers.
\<close>

definition signed32 :: "int \<Rightarrow> int" where
  "signed32 n = (n + 2 ^ 31) mod 2 ^ 32 - 2 ^ 31"

definition get_next_pid :: "kstate \<Rightarrow> int \<times> kstate" where
  "get_next_pid s = (signed32 (ks_next_pid s), s\<lparr>ks_next_pid := ks_next_pid s + 1\<rparr>)"

section \<open>Processes\<close>

text \<open>The first slot that satisfies \<open>P\<close>: \<open>for(i = 0; i < n; i++) if(P(a[i])) ...\<close>\<close>

fun first_slot :: "('a \<Rightarrow> bool) \<Rightarrow> 'a list \<Rightarrow> nat option" where
  "first_slot P [] = None"
| "first_slot P (x # xs) = (if P x then Some 0 else map_option Suc (first_slot P xs))"

definition proc_add_file :: "addr \<Rightarrow> addr \<Rightarrow> kstate \<Rightarrow> (int \<times> kstate) option" where
  "proc_add_file p file s = do {
     P \<leftarrow> ks_procs s p;
     case first_slot (\<lambda>f. f = NULL) (pr_open_files P) of
       None \<Rightarrow> Some (- ENFILE, s)
     | Some i \<Rightarrow> Some (int i, s\<lparr>ks_procs := (ks_procs s)(p \<mapsto> P\<lparr>pr_open_files := (pr_open_files P)[i := file],
                   pr_file_position := (pr_file_position P)[i := 0]\<rparr>)\<rparr>)
   }"

definition proc_add_child :: "addr \<Rightarrow> addr \<Rightarrow> kstate \<Rightarrow> (int \<times> kstate) option" where
  "proc_add_child parent child s = do {
     PP \<leftarrow> ks_procs s parent;
     s \<leftarrow> upd_proc child (\<lambda>C. C\<lparr>pr_parent := pr_pid PP\<rparr>) s;
     PP \<leftarrow> ks_procs s parent;
     case first_slot (\<lambda>c. c = NULL) (pr_children PP) of
       None \<Rightarrow> Some (- EUNSPEC, s)
     | Some i \<Rightarrow> do {
         s \<leftarrow> upd_proc parent (\<lambda>P. P\<lparr>pr_children := (pr_children P)[i := child]\<rparr>) s;
         Some (0, s)
       }
   }"

text \<open>The last entry of a memory map; no result when the entries form a cycle.\<close>

partial_function (option) mmap_last :: "kstate \<Rightarrow> addr \<Rightarrow> addr option" where
  "mmap_last s e = do {
     E \<leftarrow> ks_ments s e;
     if me_next E \<noteq> NULL then mmap_last s (me_next E) else Some e
   }"

declare mmap_last.simps [code]

definition upd_ment :: "addr \<Rightarrow> (kproc_mem_map_ent \<Rightarrow> kproc_mem_map_ent) \<Rightarrow> kstate \<Rightarrow> kstate option" where
  "upd_ment e f s = do { E \<leftarrow> ks_ments s e; Some (s\<lparr>ks_ments := (ks_ments s)(e \<mapsto> f E)\<rparr>) }"

definition proc_add_mmap_ents :: "addr \<Rightarrow> addr \<Rightarrow> kstate \<Rightarrow> (int \<times> kstate) option" where
  "proc_add_mmap_ents p entries s = do {
     P \<leftarrow> ks_procs s p;
     if pr_mmap P = NULL then do {
       s \<leftarrow> upd_proc p (\<lambda>P. P\<lparr>pr_mmap := entries\<rparr>) s;
       Some (0, s)
     }
     else do {
       l \<leftarrow> mmap_last s (pr_mmap P);
       s \<leftarrow> upd_ment l (\<lambda>E. E\<lparr>me_next := entries\<rparr>) s;
       Some (0, s)
     }
   }"

text \<open>The result of \<open>kmalloc\<close> is not checked.\<close>

definition proc_add_mmap_ent :: "addr \<Rightarrow> u32 \<Rightarrow> u32 \<Rightarrow> u32 \<Rightarrow> kstate \<Rightarrow> (int \<times> kstate) option" where
  "proc_add_mmap_ent p virt phys len s =
     (let (ent, s) = kmalloc_next s in
      if ent = NULL then None
      else proc_add_mmap_ents p ent
        (s\<lparr>ks_ments := (ks_ments s)(ent \<mapsto> \<lparr>me_virt = virt, me_phys = phys, me_length = len, me_next = NULL\<rparr>)\<rparr>))"

definition mm_proc_mmap_add :: "addr \<Rightarrow> u32 \<Rightarrow> u32 \<Rightarrow> u32 \<Rightarrow> kstate \<Rightarrow> (int \<times> kstate) option" where
  "mm_proc_mmap_add p phys virt sz s = do {
     _ \<leftarrow> ks_procs s p;
     let (ent, s) = kmalloc_next s;
     if ent = NULL then Some (- ENOMEM, s)
     else proc_add_mmap_ents p ent
       (s\<lparr>ks_ments := (ks_ments s)(ent \<mapsto> \<lparr>me_virt = virt, me_phys = phys, me_length = sz, me_next = NULL\<rparr>)\<rparr>)
   }"

text \<open>The loop of \<open>mm_proc_mmap_remove_virt\<close> and \<open>_phys\<close>, which differ in the field compared.\<close>

partial_function (option) mmap_remove_loop ::
    "(kproc_mem_map_ent \<Rightarrow> bool) \<Rightarrow> addr \<Rightarrow> addr \<Rightarrow> addr \<Rightarrow> kstate \<Rightarrow> (int \<times> kstate) option" where
  "mmap_remove_loop match p ent prev s =
     (if ent = NULL then Some (- EINVAL, s)
      else do {
        E \<leftarrow> ks_ments s ent;
        if match E then do {
          s \<leftarrow> (if prev \<noteq> NULL then upd_ment prev (\<lambda>F. F\<lparr>me_next := me_next E\<rparr>) s
                else upd_proc p (\<lambda>P. P\<lparr>pr_mmap := me_next E\<rparr>) s);
          Some (0, s\<lparr>ks_ments := (ks_ments s)(ent := None)\<rparr>)
        }
        else mmap_remove_loop match p (me_next E) ent s
      })"

declare mmap_remove_loop.simps [code]

definition mm_proc_mmap_remove_virt :: "addr \<Rightarrow> u32 \<Rightarrow> kstate \<Rightarrow> (int \<times> kstate) option" where
  "mm_proc_mmap_remove_virt p virt s = do {
     P \<leftarrow> ks_procs s p;
     mmap_remove_loop (\<lambda>E. me_virt E = virt) p (pr_mmap P) NULL s
   }"

definition mm_proc_mmap_remove_phys :: "addr \<Rightarrow> u32 \<Rightarrow> kstate \<Rightarrow> (int \<times> kstate) option" where
  "mm_proc_mmap_remove_phys p phys s = do {
     P \<leftarrow> ks_procs s p;
     mmap_remove_loop (\<lambda>E. me_phys E = phys) p (pr_mmap P) NULL s
   }"

text \<open>\<open>mmu_clone_table\<close> belongs to the page tables: a new table, and the call recorded.\<close>

definition clone_table :: "addr \<Rightarrow> kstate \<Rightarrow> addr \<times> kstate" where
  "clone_table src s = (let (new, s) = kmalloc_next s in (new, s\<lparr>ks_mmu := ks_mmu s @ [Mmu_clone src new]\<rparr>))"

definition map_table :: "addr \<Rightarrow> u32 \<Rightarrow> u32 \<Rightarrow> u32 \<Rightarrow> u32 \<Rightarrow> kstate \<Rightarrow> kstate" where
  "map_table table virt phys len flags s = s\<lparr>ks_mmu := ks_mmu s @ [Mmu_map table virt phys len flags]\<rparr>"

text \<open>The address of the new process, \<open>NULL\<close> if there is no memory.\<close>

definition proc_create :: "string \<Rightarrow> u8 \<Rightarrow> addr \<Rightarrow> kstate \<Rightarrow> addr \<times> kstate" where
  "proc_create name domain mmu_table s =
     (let (p, s) = kmalloc_next s in
      if p = NULL then (NULL, s)
      else
        let (pid, s) = get_next_pid s;
            s = put_proc p (zero_proc\<lparr>pr_name := take KPROC_NAME_MAX name, pr_pid := pid, pr_domain := domain, pr_cwd := ks_root s\<rparr>) s;
            s = s\<lparr>ks_lh := llist_init (ks_lh s) (threads_of p)\<rparr>;
            (table, s) = (if mmu_table \<noteq> NULL then (mmu_table, s) else clone_table (ks_kernel_table s) s)
        in (p, s\<lparr>ks_procs := (ks_procs s)(p := map_option (\<lambda>P. P\<lparr>pr_mmu_table := table\<rparr>) (ks_procs s p))\<rparr>))"

definition proc_add_thread :: "addr \<Rightarrow> addr \<Rightarrow> kstate \<Rightarrow> (int \<times> kstate) option" where
  "proc_add_thread p t s = do {
     s \<leftarrow> upd_thread t (\<lambda>T. T\<lparr>th_process := p\<rparr>) s;
     T \<leftarrow> ks_threads s t;
     s \<leftarrow> (if th_tid T = 0 then do {
             L \<leftarrow> lh_lists (ks_lh s) (threads_of p);
             P \<leftarrow> ks_procs s p;
             if ll_list L \<noteq> NULL then (let (pid, s) = get_next_pid s in upd_thread t (\<lambda>T. T\<lparr>th_tid := of_int pid\<rparr>) s)
             else upd_thread t (\<lambda>T. T\<lparr>th_tid := of_int (pr_pid P)\<rparr>) s
           }
           else Some s);
     s \<leftarrow> on_lh (\<lambda>h. set_data h (list_item_of t) t) s;
     s \<leftarrow> on_lh (\<lambda>h. llist_append h (threads_of p) (list_item_of t)) s;
     Some (0, s)
   }"

section \<open>Threads\<close>

text \<open>\<open>NULL\<close> if there is no memory; a stack size above the maximum is a panic.\<close>

definition thread_create :: "addr \<Rightarrow> addr \<Rightarrow> string \<Rightarrow> u32 \<Rightarrow> int \<Rightarrow> kstate \<Rightarrow> (addr \<times> kstate) option" where
  "thread_create entrypoint data name stack_size prio s =
     (let (t, s) = kmalloc_next s in
      if t = NULL then Some (NULL, s)
      else if CONFIG_PROC_USER_STACK_SIZE_MAX < stack_size then None
      else
        let stack_size = (if stack_size = 0 then CONFIG_PROC_USER_STACK_SIZE else stack_size) in
        Some (t, put_thread t (zero_thread\<lparr>th_name := take KPROC_NAME_MAX name, th_entrypoint := entrypoint,
                   th_prio := prio, th_stack_size := stack_size, th_data := data\<rparr>) s))"

definition thread_destroy :: "(nat \<Rightarrow> lock_t \<times> u64) \<Rightarrow> addr \<Rightarrow> kstate \<Rightarrow> (int \<times> kstate) option" where
  "thread_destroy env t s = do {
     _ \<leftarrow> ks_threads s t;
     (_, s) \<leftarrow> sched_remove_thread env t s;
     Some (0, free_thread t s)
   }"

definition thread_get_tid :: "kstate \<Rightarrow> int option" where
  "thread_get_tid s = do {
     thread \<leftarrow> mtask_get_curr_thread s;
     if thread = NULL then Some (- EUNSPEC)
     else do { T \<leftarrow> ks_threads s thread; Some (sint (th_tid T)) }
   }"

text \<open>x86: the user stack is mapped below \<open>0x7F000000\<close>, one maximal stack per thread of the process.\<close>

definition arch_proc_create_stack :: "addr \<Rightarrow> kstate \<Rightarrow> (int \<times> kstate) option" where
  "arch_proc_create_stack t s = do {
     T \<leftarrow> ks_threads s t;
     if th_process T = NULL then None
     else do {
       P \<leftarrow> ks_procs s (th_process T);
       tpos \<leftarrow> llist_get_position (ks_lh s) (threads_of (th_process T)) (list_item_of t);
       let virt = 0x7F000000 - of_int tpos * CONFIG_PROC_USER_STACK_SIZE_MAX;
       let (stack, s) = kmalloc_next s;
       let s = map_table (pr_mmu_table P) virt (of_nat stack) (th_stack_size T)
                 (if pr_domain P \<noteq> PROC_DOMAIN_USERSPACE then 0x13 else 0x3) s;
       s \<leftarrow> upd_thread t (\<lambda>T. T\<lparr>th_arch := (th_arch T)\<lparr>ar_user_size := th_stack_size T,
               ar_user_begin := virt + th_stack_size T, ar_ebp := virt + th_stack_size T\<rparr>\<rparr>) s;
       Some (0, s)
     }
   }"

definition arch_proc_create_kernel_stack :: "addr \<Rightarrow> kstate \<Rightarrow> (int \<times> kstate) option" where
  "arch_proc_create_kernel_stack t s = do {
     T \<leftarrow> ks_threads s t;
     P \<leftarrow> ks_procs s (th_process T);
     let (stack, s) = kmalloc_next s;
     let s = map_table (pr_mmu_table P) (of_nat stack) (of_nat stack) CONFIG_PROC_KERN_STACK_SIZE 0x13 s;
     s \<leftarrow> upd_thread t (\<lambda>T. T\<lparr>th_arch := (th_arch T)\<lparr>ar_kern_size := CONFIG_PROC_KERN_STACK_SIZE,
             ar_kern_begin := of_nat stack + CONFIG_PROC_KERN_STACK_SIZE\<rparr>\<rparr>) s;
     Some (0, s)
   }"

text \<open>\<open>entry\<close>: the address of \<open>_thread_entrypoint\<close>.\<close>

definition arch_setup_thread :: "u32 \<Rightarrow> addr \<Rightarrow> kstate \<Rightarrow> (int \<times> kstate) option" where
  "arch_setup_thread entry t s = do {
     (_, s) \<leftarrow> arch_proc_create_stack t s;
     (_, s) \<leftarrow> arch_proc_create_kernel_stack t s;
     s \<leftarrow> upd_thread t (\<lambda>T. T\<lparr>th_arch := (th_arch T)\<lparr>ar_eip := entry, ar_esp := ar_kern_begin (th_arch T),
             ar_stack_entry := ar_user_begin (th_arch T)\<rparr>\<rparr>) s;
     Some (0, s)
   }"

definition thread_spawn ::
    "(nat \<Rightarrow> lock_t \<times> u64) \<Rightarrow> u32 \<Rightarrow> addr \<Rightarrow> addr \<Rightarrow> string \<Rightarrow> u32 \<Rightarrow> int \<Rightarrow> kstate \<Rightarrow> (int \<times> kstate) option" where
  "thread_spawn env entry entrypoint data name stack_size prio s = do {
     curr_proc \<leftarrow> mtask_get_curr_process s;
     if curr_proc = NULL then Some (- EUNSPEC, s)
     else do {
       (t, s) \<leftarrow> thread_create entrypoint data name stack_size prio s;
       if t = NULL then Some (- EUNSPEC, s)
       else do {
         (_, s) \<leftarrow> proc_add_thread curr_proc t s;
         (_, s) \<leftarrow> arch_setup_thread entry t s;
         s \<leftarrow> upd_thread t (\<lambda>T. T\<lparr>th_flags := KTHREAD_FLAG_RUNNABLE OR KTHREAD_FLAG_RANONCE\<rparr>) s;
         (_, s) \<leftarrow> sched_enqueue_thread env t s;
         T \<leftarrow> ks_threads s t;
         Some (sint (th_tid T), s)
       }
     }
   }"

text \<open>\<open>while(proc->threads.list) ...\<close> of \<open>proc_destroy\<close>.\<close>

partial_function (option) destroy_threads :: "(nat \<Rightarrow> lock_t \<times> u64) \<Rightarrow> addr \<Rightarrow> kstate \<Rightarrow> kstate option" where
  "destroy_threads env p s = do {
     L \<leftarrow> lh_lists (ks_lh s) (threads_of p);
     if ll_list L = NULL then Some s
     else do {
       it \<leftarrow> lh_items (ks_lh s) (ll_list L);
       s \<leftarrow> on_lh (\<lambda>h. llist_remove h (threads_of p) (ll_list L)) s;
       (_, s) \<leftarrow> thread_destroy env (item_data it) s;
       destroy_threads env p s
     }
   }"

declare destroy_threads.simps [code]

definition free_if :: "addr \<Rightarrow> kstate \<Rightarrow> kstate" where
  "free_if a s = (if a \<noteq> NULL then kfree_block a s else s)"

definition proc_destroy :: "(nat \<Rightarrow> lock_t \<times> u64) \<Rightarrow> addr \<Rightarrow> kstate \<Rightarrow> (int \<times> kstate) option" where
  "proc_destroy env p s = do {
     P \<leftarrow> ks_procs s p;
     (_, s) \<leftarrow> mtask_remove_proc p s;
     let s = free_if (pr_mmap P) (free_if (pr_elf_data P) (free_if (pr_symbols P) (free_if (pr_mmu_table P) s)));
     s \<leftarrow> destroy_threads env p s;
     Some (0, free_proc p s)
   }"

section \<open>Tasks\<close>

text \<open>\<open>lock_env\<close>: the word of \<open>creat_task\<close> after each \<open>run_sched\<close> while waiting for it.\<close>

definition add_task ::
    "(nat \<Rightarrow> lock_t \<Rightarrow> lock_t) \<Rightarrow> (nat \<Rightarrow> lock_t \<times> u64) \<Rightarrow> u32 \<Rightarrow> addr \<Rightarrow> string \<Rightarrow> u32 \<Rightarrow> int \<Rightarrow> u8 \<Rightarrow> addr \<Rightarrow> kstate \<Rightarrow>
     (int \<times> kstate) option" where
  "add_task lock_env env entry process name stack_size pri domain mmu_table s = do {
     v \<leftarrow> lock lock_env 0 (ks_creat_task s);
     let s = s\<lparr>ks_creat_task := v\<rparr>;
     curr_proc \<leftarrow> mtask_get_curr_process s;
     let (p, s) = proc_create name domain mmu_table s;
     if p = NULL then Some (- EUNSPEC, s)
     else do {
       (r, s) \<leftarrow> (if curr_proc \<noteq> NULL then proc_add_child curr_proc p s else Some (0, s));
       if curr_proc \<noteq> NULL \<and> r \<noteq> 0 then Some (0, free_proc p (s\<lparr>ks_creat_task := unlock (ks_creat_task s)\<rparr>))
       else do {
         s \<leftarrow> upd_proc p (\<lambda>P. P\<lparr>pr_uid := 0, pr_gid := 0, pr_type := TYPE_RUNNABLE\<rparr>) s;
         (t, s) \<leftarrow> thread_create process NULL name stack_size pri s;
         (_, s) \<leftarrow> proc_add_thread p t s;
         (_, s) \<leftarrow> arch_setup_thread entry t s;
         s \<leftarrow> upd_thread t (\<lambda>T. T\<lparr>th_flags := th_flags T OR (KTHREAD_FLAG_RUNNABLE OR KTHREAD_FLAG_RANONCE)\<rparr>) s;
         (_, s) \<leftarrow> mtask_insert_proc p s;
         (_, s) \<leftarrow> sched_enqueue_thread env t s;
         P \<leftarrow> ks_procs s p;
         Some (pr_pid P, s\<lparr>ks_creat_task := unlock (ks_creat_task s)\<rparr>)
       }
     }
   }"

text \<open>One iteration per CPU; \<open>name\<close> is what \<open>sprintf\<close> wrote, \<open>idle\<close> the address of \<open>_idle_thread\<close>.\<close>

primrec idle_threads :: "u32 \<Rightarrow> addr \<Rightarrow> (nat \<Rightarrow> string) \<Rightarrow> addr \<Rightarrow> nat list \<Rightarrow> kstate \<Rightarrow> kstate option" where
  "idle_threads entry idle name p [] s = Some s"
| "idle_threads entry idle name p (cpu # cpus) s = do {
     (t, s) \<leftarrow> thread_create idle NULL (name cpu) 0x200 0 s;
     if t = NULL then None
     else do {
       s \<leftarrow> on_lh (\<lambda>h. set_data h (sched_item_of t) t) s;
       s \<leftarrow> upd_proc p (\<lambda>P. P\<lparr>pr_type := pr_type P OR TYPE_RUNNABLE\<rparr>) s;
       (_, s) \<leftarrow> proc_add_thread p t s;
       (_, s) \<leftarrow> arch_setup_thread entry t s;
       s \<leftarrow> upd_thread t (\<lambda>T. T\<lparr>th_flags := th_flags T OR KTHREAD_FLAG_RUNNABLE\<rparr>) s;
       s \<leftarrow> cpu_add_thread cpu t s;
       idle_threads entry idle name p cpus s
     }
   }"

definition sched_idle_init :: "u32 \<Rightarrow> addr \<Rightarrow> (nat \<Rightarrow> string) \<Rightarrow> kstate \<Rightarrow> kstate option" where
  "sched_idle_init entry idle name s = do {
     let (p, s) = proc_create ''idle'' 0 NULL s;
     if p = NULL then None
     else do {
       s \<leftarrow> idle_threads entry idle name p [0..<ks_n_cpus s] s;
       (_, s) \<leftarrow> mtask_insert_proc p s;
       Some s
     }
   }"

definition init_multitasking ::
    "(nat \<Rightarrow> lock_t \<Rightarrow> lock_t) \<Rightarrow> (nat \<Rightarrow> lock_t \<times> u64) \<Rightarrow> u32 \<Rightarrow> addr \<Rightarrow> (nat \<Rightarrow> string) \<Rightarrow> addr \<Rightarrow> string \<Rightarrow> kstate \<Rightarrow> kstate option" where
  "init_multitasking lock_env env entry idle idle_name process name s = do {
     let s = s\<lparr>ks_lh := llist_init (ks_lh s) PROCS\<rparr>;
     s \<leftarrow> sched_idle_init entry idle idle_name s;
     (tid, s) \<leftarrow> add_task lock_env env entry process name 0x2000 4 0 NULL s;
     thread \<leftarrow> thread_by_tid tid s;
     if thread = NULL then None else Some s
   }"

section \<open>Conditions, exit and wait\<close>

definition cond_init :: "addr \<Rightarrow> kstate \<Rightarrow> kstate" where
  "cond_init c s = s\<lparr>ks_conds := (ks_conds s)(c \<mapsto> 0), ks_lh := llist_init (ks_lh s) (cond_list_of c)\<rparr>"

text \<open>\<open>sched\<close>: the kernel state when the waiting thread runs again.\<close>

definition cond_wait ::
    "(nat \<Rightarrow> lock_t \<Rightarrow> lock_t) \<Rightarrow> (kstate \<Rightarrow> kstate option) \<Rightarrow> addr \<Rightarrow> kstate \<Rightarrow> (int \<times> kstate) option" where
  "cond_wait lock_env sched c s = do {
     thread \<leftarrow> mtask_get_curr_thread s;
     if thread = NULL then Some (- EUNSPEC, s)
     else do {
       let (item, s) = kmalloc_next s;
       if item = NULL then Some (- ENOMEM, s)
       else do {
         let s = s\<lparr>ks_citems := (ks_citems s)(item \<mapsto> thread), ks_lh := put_items [item] (Some (zero_item\<lparr>item_data := item\<rparr>)) (ks_lh s)\<rparr>;
         l \<leftarrow> ks_conds s c;
         v \<leftarrow> lock lock_env 0 l;
         let s = s\<lparr>ks_conds := (ks_conds s)(c \<mapsto> v)\<rparr>;
         s \<leftarrow> on_lh (\<lambda>h. llist_append h (cond_list_of c) item) s;
         let s = s\<lparr>ks_conds := (ks_conds s)(c \<mapsto> unlock v)\<rparr>;
         s \<leftarrow> upd_thread thread (\<lambda>T. T\<lparr>th_cond := c\<rparr>) s;
         s \<leftarrow> sched s;
         Some (0, s)
       }
     }
   }"

definition unblock_thread :: "addr \<Rightarrow> kstate \<Rightarrow> kstate option" where
  "unblock_thread ci s = do {
     t \<leftarrow> ks_citems s ci;
     s \<leftarrow> upd_thread t (\<lambda>T. T\<lparr>th_cond := NULL\<rparr>) s;
     Some (s\<lparr>ks_citems := (ks_citems s)(ci := None), ks_lh := put_items [ci] None (ks_lh s)\<rparr>)
   }"

definition unblock_item :: "addr \<Rightarrow> kstate \<Rightarrow> kstate option" where
  "unblock_item item s = do { it \<leftarrow> lh_items (ks_lh s) item; unblock_thread (item_data it) s }"

text \<open>\<open>_unblock_thread\<close> always returns 0, so that the loop runs until the list is empty.\<close>

definition cond_signal :: "(nat \<Rightarrow> lock_t \<Rightarrow> lock_t) \<Rightarrow> addr \<Rightarrow> kstate \<Rightarrow> (int \<times> kstate) option" where
  "cond_signal lock_env c s = do {
     l \<leftarrow> ks_conds s c;
     v \<leftarrow> lock lock_env 0 l;
     let s = s\<lparr>ks_conds := (ks_conds s)(c \<mapsto> v)\<rparr>;
     s \<leftarrow> drain (pop_item (cond_list_of c)) unblock_item s;
     Some (0, s\<lparr>ks_conds := (ks_conds s)(c \<mapsto> unlock v)\<rparr>)
   }"

definition free_cond :: "addr \<Rightarrow> kstate \<Rightarrow> kstate" where
  "free_cond c s = s\<lparr>ks_conds := (ks_conds s)(c := None),
     ks_lh := (ks_lh s)\<lparr>lh_lists := (lh_lists (ks_lh s))(cond_list_of c := None)\<rparr>\<rparr>"

text \<open>\<open>exit\<close> up to its endless loop of \<open>run_sched\<close>.\<close>

definition exit :: "(nat \<Rightarrow> lock_t \<Rightarrow> lock_t) \<Rightarrow> int \<Rightarrow> kstate \<Rightarrow> kstate option" where
  "exit lock_env code s = do {
     curr_proc \<leftarrow> mtask_get_curr_process s;
     s \<leftarrow> upd_proc curr_proc (\<lambda>P. P\<lparr>pr_type := (pr_type P AND NOT TYPE_RUNNABLE) OR TYPE_ZOMBIE, pr_exitcode := code\<rparr>) s;
     P \<leftarrow> ks_procs s curr_proc;
     if pr_parent P \<noteq> 0 then do {
       parent \<leftarrow> proc_by_pid (pr_parent P) s;
       PP \<leftarrow> ks_procs s parent;
       if pr_wait_cond PP \<noteq> NULL then do {
         (_, s) \<leftarrow> cond_signal lock_env (pr_wait_cond PP) s;
         upd_proc parent (\<lambda>P. P\<lparr>pr_wait_cond := NULL\<rparr>) (free_cond (pr_wait_cond PP) s)
       }
       else Some s
     }
     else Some s
   }"

definition child_dead :: "kstate \<Rightarrow> addr \<Rightarrow> bool option" where
  "child_dead s c =
     (if c = NULL then Some False else do { C \<leftarrow> ks_procs s c; Some (pr_type C AND TYPE_ZOMBIE \<noteq> 0) })"

fun find_dead :: "kstate \<Rightarrow> addr list \<Rightarrow> int \<Rightarrow> int option" where
  "find_dead s [] idx = Some (- EUNSPEC)"
| "find_dead s (c # cs) idx = do {
     d \<leftarrow> child_dead s c;
     if d then Some idx else find_dead s cs (idx + 1)
   }"

definition find_dead_child :: "addr \<Rightarrow> kstate \<Rightarrow> int option" where
  "find_dead_child p s = do { P \<leftarrow> ks_procs s p; find_dead s (pr_children P) 0 }"

text \<open>From \<open>CHILD_FOUND\<close> on: \<open>cpid\<close> is still 0.\<close>

definition wait_reap :: "(nat \<Rightarrow> lock_t \<times> u64) \<Rightarrow> addr \<Rightarrow> int \<Rightarrow> kstate \<Rightarrow> (int \<times> kstate) option" where
  "wait_reap env p chidx s = do {
     P \<leftarrow> ks_procs s p;
     let child = pr_children P ! nat chidx;
     s \<leftarrow> upd_proc p (\<lambda>P. P\<lparr>pr_children := (pr_children P)[nat chidx := NULL]\<rparr>) s;
     (_, s) \<leftarrow> proc_destroy env child s;
     Some (0, s)
   }"

definition wait ::
    "(nat \<Rightarrow> lock_t \<times> u64) \<Rightarrow> (nat \<Rightarrow> lock_t \<Rightarrow> lock_t) \<Rightarrow> (kstate \<Rightarrow> kstate option) \<Rightarrow> kstate \<Rightarrow> (int \<times> kstate) option" where
  "wait env lock_env sched s = do {
     curr_thread \<leftarrow> mtask_get_curr_thread s;
     T \<leftarrow> ks_threads s curr_thread;
     let p = th_process T;
     P \<leftarrow> ks_procs s p;
     if \<forall>c \<in> set (pr_children P). c = NULL then Some (- EUNSPEC, s)
     else do {
       chidx \<leftarrow> find_dead_child p s;
       if 0 \<le> chidx then wait_reap env p chidx s
       else do {
         s \<leftarrow> (if pr_wait_cond P = NULL then do {
                 let (c, s) = kmalloc_next s;
                 if c = NULL then None
                 else upd_proc p (\<lambda>P. P\<lparr>pr_wait_cond := c\<rparr>) (cond_init c s)
               }
               else Some s);
         P \<leftarrow> ks_procs s p;
         (_, s) \<leftarrow> cond_wait lock_env sched (pr_wait_cond P) s;
         chidx \<leftarrow> find_dead_child p s;
         if chidx < 0 then None else wait_reap env p chidx s
       }
     }
   }"

end
