(* ===== verification/Sched.thy ===== *)
theory Sched
  imports Mtask
begin

text \<open>
  What the scheduler of \<open>sched.c\<close> does with the threads of a CPU: \<open>sched_next_process\<close> takes them in
  turn, and no thread that may run is passed over; \<open>sched_processes\<close> moves the enqueued threads to
  the CPU's list.
\<close>

section \<open>The threads of a CPU\<close>

text \<open>
  \<open>cpu_queue s cpu ts\<close>: the CPU's list is well formed and holds the threads \<open>ts\<close>, each of them
  allocated and owned by an allocated process. No list item is at \<open>0xFFFFFFFF\<close>, the mark that
  \<open>sched_next_process\<close> uses.
\<close>

definition owned_thread :: "kstate \<Rightarrow> addr \<Rightarrow> bool" where
  "owned_thread s t \<longleftrightarrow> t \<noteq> NULL \<and> sched_item_of t < 0xFFFFFFFF \<and> dat (ks_lh s) (sched_item_of t) = Some t \<and>
     (case ks_threads s t of None \<Rightarrow> False | Some T \<Rightarrow> th_process T \<noteq> NULL \<and> ks_procs s (th_process T) \<noteq> None)"

definition cpu_queue :: "kstate \<Rightarrow> nat \<Rightarrow> addr list \<Rightarrow> bool" where
  "cpu_queue s cpu ts \<longleftrightarrow> ring (ks_lh s) (cpu_list s cpu) (map sched_item_of ts) \<and> (\<forall>t \<in> set ts. owned_thread s t)"

definition can_run :: "kstate \<Rightarrow> addr \<Rightarrow> bool" where
  "can_run s t = (case ks_threads s t of None \<Rightarrow> False
     | Some T \<Rightarrow> (case ks_procs s (th_process T) of None \<Rightarrow> False | Some P \<Rightarrow> may_run P T))"

lemma owned_threadE:
  assumes "owned_thread s t"
  obtains T P where "ks_threads s t = Some T" "th_process T \<noteq> NULL" "ks_procs s (th_process T) = Some P"
    "can_run s t = may_run P T" "t \<noteq> NULL"
  using assms by (auto simp: owned_thread_def can_run_def split: option.splits)

section \<open>Walking the ring\<close>

text \<open>A ring can be read from any of its items on.\<close>

lemma cyc_rotate: "cyc n p (xs @ ys) \<Longrightarrow> cyc n p (ys @ xs)"
  by (cases "xs = [] \<or> ys = []") (auto simp: cyc_def chain_append)

text \<open>From \<open>x\<close> the loop looks at the items \<open>xs\<close> that come before \<open>f\<close>, where it gives up.\<close>

lemma next_loop_chain:
  assumes "chain (nx (ks_lh s)) (pv (ks_lh s)) (map sched_item_of (x # xs))"
    and "nx (ks_lh s) (sched_item_of (last (x # xs))) = Some f" "f \<notin> sched_item_of ` set xs"
    and "\<forall>t \<in> set (x # xs). owned_thread s t" "f \<noteq> NULL" "f \<noteq> 0xFFFFFFFF"
  shows "next_loop s \<lparr>it_first = f, it_curr = sched_item_of x\<rparr> = find (can_run s) xs"
  using assms
proof (induction xs arbitrary: x)
  case Nil
  then show ?case
    by (auto simp: nx_Some llist_iterate_def next_loop.simps [of s "\<lparr>it_first = f, it_curr = _\<rparr>"])
next
  case (Cons y xs)
  let ?h = "ks_lh s"
  from Cons.prems(4) have oy: "owned_thread s y" by simp
  then obtain iy where y: "lh_items ?h (sched_item_of y) = Some iy" "item_data iy = y"
    by (auto simp: owned_thread_def dat_def)
  from oy obtain T P where T: "ks_threads s y = Some T" "th_process T \<noteq> NULL" "ks_procs s (th_process T) = Some P"
    "can_run s y = may_run P T" "y \<noteq> NULL" by (rule owned_threadE)
  from Cons.prems obtain ix where x: "lh_items ?h (sched_item_of x) = Some ix" "item_next ix = sched_item_of y"
    by (auto simp: nx_Some)
  have "llist_iterate ?h \<lparr>it_first = f, it_curr = sched_item_of x\<rparr> =
      Some (1, Some y, \<lparr>it_first = f, it_curr = sched_item_of y\<rparr>)"
    using x y Cons.prems(3,5) by (auto simp: llist_iterate_def)
  moreover have "next_loop s \<lparr>it_first = f, it_curr = sched_item_of y\<rparr> = find (can_run s) xs"
    using Cons.IH [of y] Cons.prems by simp
  ultimately show ?case
    using T Cons.prems(6) by (simp add: next_loop.simps [of s "\<lparr>it_first = f, it_curr = sched_item_of x\<rparr>"])
qed

text \<open>From the current thread on: the others in ring order, and the current one last.\<close>

lemma next_loop_ring:
  assumes q: "cpu_queue s cpu (us @ cur # vs)"
  shows "next_loop s \<lparr>it_first = 0xFFFFFFFF, it_curr = sched_item_of cur\<rparr> = find (can_run s) (vs @ us @ [cur])"
proof -
  let ?h = "ks_lh s" and ?it = "\<lparr>it_first = 0xFFFFFFFF, it_curr = sched_item_of cur\<rparr>"
  obtain y ys where ys: "vs @ us @ [cur] = y # ys" by (cases "vs @ us @ [cur]") auto
  have own: "\<forall>t \<in> set (us @ cur # vs). owned_thread s t" using q by (simp add: cpu_queue_def)
  then have own': "\<forall>t \<in> set (y # ys). owned_thread s t" by (auto simp flip: ys)
  have "cyc (nx ?h) (pv ?h) (map sched_item_of (us @ [cur]) @ map sched_item_of vs)"
    using q by (simp add: cpu_queue_def ring_def)
  from cyc_rotate [OF this] have c: "cyc (nx ?h) (pv ?h) (map sched_item_of (y # ys))"
    using arg_cong [OF ys, of "map sched_item_of"] by simp
  have last: "last (y # ys) = cur" using ys by (metis append_assoc last_snoc)
  have d: "distinct (map sched_item_of (us @ cur # vs))" using q by (simp add: cpu_queue_def ring_def)
  have "distinct (map sched_item_of (y # ys))"
    using d arg_cong [OF ys, of "map sched_item_of"] by (auto simp flip: ys)
  then have nin: "sched_item_of y \<notin> sched_item_of ` set ys" by simp
  have nc: "nx ?h (sched_item_of cur) = Some (sched_item_of y)"
  proof -
    have "last (map sched_item_of (y # ys)) = sched_item_of cur" using last last_map [of "y # ys"] by blast
    then show ?thesis using c unfolding cyc_def by simp
  qed
  then obtain ic where ic: "lh_items ?h (sched_item_of cur) = Some ic" "item_next ic = sched_item_of y"
    by (auto simp: nx_Some)
  from own' have oy: "owned_thread s y" by simp
  then obtain iy where iy: "lh_items ?h (sched_item_of y) = Some iy" "item_data iy = y"
    "sched_item_of y < 0xFFFFFFFF" by (auto simp: owned_thread_def dat_def)
  have it: "llist_iterate ?h ?it = Some (1, Some y, \<lparr>it_first = 0xFFFFFFFF, it_curr = sched_item_of y\<rparr>)"
    using ic iy by (simp add: llist_iterate_def)
  have rest: "next_loop s \<lparr>it_first = sched_item_of y, it_curr = sched_item_of y\<rparr> = find (can_run s) ys"
    using c last nin own' iy(3) nc by (intro next_loop_chain) (auto simp: cyc_def)
  from oy obtain T P where "ks_threads s y = Some T" "th_process T \<noteq> NULL" "ks_procs s (th_process T) = Some P"
    "can_run s y = may_run P T" "y \<noteq> NULL" by (rule owned_threadE)
  then show ?thesis
    using it rest by (simp add: next_loop.simps [of s ?it] ys)
qed

section \<open>Taking turns\<close>

text \<open>What a switch leaves alone: everything but the current thread and the statistics.\<close>

definition same_sched :: "kstate \<Rightarrow> kstate \<Rightarrow> bool" where
  "same_sched s s' \<longleftrightarrow> ks_lh s' = ks_lh s \<and> ks_procs s' = ks_procs s \<and> ks_cpu_threads s' = ks_cpu_threads s \<and>
     ks_n_cpus s' = ks_n_cpus s \<and> ks_time s' = ks_time s \<and>
     (\<forall>t. map_option (\<lambda>T. T\<lparr>th_time_last := 0, th_time_accum := 0, th_sched_count := 0\<rparr>) (ks_threads s' t) =
          map_option (\<lambda>T. T\<lparr>th_time_last := 0, th_time_accum := 0, th_sched_count := 0\<rparr>) (ks_threads s t))"

lemma stripped_eq:
  assumes "map_option (\<lambda>T. T\<lparr>th_time_last := 0, th_time_accum := 0, th_sched_count := 0\<rparr>) a =
     map_option (\<lambda>T. T\<lparr>th_time_last := 0, th_time_accum := 0, th_sched_count := 0\<rparr>) b"
  shows "a = None \<longleftrightarrow> b = None"
    and "a = Some T \<Longrightarrow> b = Some U \<Longrightarrow> th_process T = th_process U \<and> th_flags T = th_flags U \<and> th_cond T = th_cond U"
proof -
  show "a = None \<longleftrightarrow> b = None" using assms by (cases a; cases b) auto
  assume "a = Some T" "b = Some U"
  then have e: "T\<lparr>th_time_last := 0, th_time_accum := 0, th_sched_count := 0\<rparr> =
      U\<lparr>th_time_last := 0, th_time_accum := 0, th_sched_count := 0\<rparr>" using assms by simp
  from arg_cong [OF e, of th_process] arg_cong [OF e, of th_flags] arg_cong [OF e, of th_cond]
  show "th_process T = th_process U \<and> th_flags T = th_flags U \<and> th_cond T = th_cond U" by simp
qed

lemma same_sched_refl: "same_sched s s"
  by (simp add: same_sched_def)

lemma same_sched_trans: "same_sched s s' \<Longrightarrow> same_sched s' s'' \<Longrightarrow> same_sched s s''"
  by (simp add: same_sched_def)

lemma same_sched_can_run: "same_sched s s' \<Longrightarrow> can_run s' t = can_run s t"
proof -
  assume ss: "same_sched s s'"
  then have e: "map_option (\<lambda>T. T\<lparr>th_time_last := 0, th_time_accum := 0, th_sched_count := 0\<rparr>) (ks_threads s' t) =
      map_option (\<lambda>T. T\<lparr>th_time_last := 0, th_time_accum := 0, th_sched_count := 0\<rparr>) (ks_threads s t)"
    and p: "ks_procs s' = ks_procs s" by (simp_all add: same_sched_def)
  show ?thesis
  proof (cases "ks_threads s t")
    case None
    then show ?thesis using stripped_eq(1) [OF e] by (simp add: can_run_def)
  next
    case (Some U)
    then obtain T where T: "ks_threads s' t = Some T" using stripped_eq(1) [OF e] by auto
    from stripped_eq(2) [OF e T Some] show ?thesis
      using T Some p by (simp add: can_run_def may_run_def cong: option.case_cong)
  qed
qed

lemma same_sched_queue: "same_sched s s' \<Longrightarrow> cpu_queue s' cpu ts = cpu_queue s cpu ts"
proof -
  assume ss: "same_sched s s'"
  have "owned_thread s' t = owned_thread s t" for t
  proof -
    from ss have e: "map_option (\<lambda>T. T\<lparr>th_time_last := 0, th_time_accum := 0, th_sched_count := 0\<rparr>) (ks_threads s' t) =
        map_option (\<lambda>T. T\<lparr>th_time_last := 0, th_time_accum := 0, th_sched_count := 0\<rparr>) (ks_threads s t)"
      and "ks_procs s' = ks_procs s" "ks_lh s' = ks_lh s" by (simp_all add: same_sched_def)
    moreover obtain T U where "ks_threads s' t = None \<and> ks_threads s t = None \<or>
        ks_threads s' t = Some T \<and> ks_threads s t = Some U \<and> th_process T = th_process U"
      using stripped_eq [OF e] by (metis not_Some_eq)
    ultimately show ?thesis by (auto simp: owned_thread_def)
  qed
  with ss show ?thesis by (simp add: cpu_queue_def same_sched_def cpu_list_def)
qed

lemma same_sched_upd:
  assumes "upd_thread t f s = Some s'"
    and "\<And>T. (f T)\<lparr>th_time_last := 0, th_time_accum := 0, th_sched_count := 0\<rparr> =
         T\<lparr>th_time_last := 0, th_time_accum := 0, th_sched_count := 0\<rparr>"
  shows "same_sched s s'" "ks_curr s' = ks_curr s"
    "ks_threads s' = (ks_threads s)(t \<mapsto> f (the (ks_threads s t)))"
  using assms by (auto simp: upd_thread_def same_sched_def split: bind_splits)

text \<open>The threads after a switch from \<open>cur\<close> to \<open>t\<close> at \<open>time\<close>.\<close>

definition charge :: "u64 \<Rightarrow> addr \<Rightarrow> (addr \<rightharpoonup> kthread) \<Rightarrow> (addr \<rightharpoonup> kthread)" where
  "charge time cur M = M(cur := map_option (\<lambda>T. T\<lparr>th_time_accum := th_time_accum T + (time - th_time_last T)\<rparr>) (M cur))"

definition dispatch :: "u64 \<Rightarrow> addr \<Rightarrow> (addr \<rightharpoonup> kthread) \<Rightarrow> (addr \<rightharpoonup> kthread)" where
  "dispatch time t M = M(t := map_option (\<lambda>T. T\<lparr>th_sched_count := th_sched_count T + 1, th_time_last := time\<rparr>) (M t))"

lemma sched_next_cases:
  assumes q: "cpu_queue s cpu (us @ cur # vs)" and c: "ks_curr s = Some cs" "cpu < length cs" "cs ! cpu = cur"
  shows "sched_next_process cpu s = (case find (can_run s) (vs @ us @ [cur]) of None \<Rightarrow> None
     | Some t \<Rightarrow> Some (t, s\<lparr>ks_curr := Some (cs[cpu := t]),
         ks_threads := dispatch (ks_time s) t (charge (ks_time s) cur (ks_threads s))\<rparr>))"
proof -
  let ?f = "\<lambda>T. T\<lparr>th_time_accum := th_time_accum T + (ks_time s - th_time_last T)\<rparr>"
  from q obtain C where C: "ks_threads s cur = Some C"
    by (auto simp: cpu_queue_def owned_thread_def split: option.splits)
  define s1 where "s1 = s\<lparr>ks_threads := (ks_threads s)(cur \<mapsto> ?f C)\<rparr>"
  have u: "upd_thread cur ?f s = Some s1" using C by (simp add: upd_thread_def s1_def)
  then have ss: "same_sched s s1" by (rule same_sched_upd) simp
  have s1: "ks_curr s1 = Some cs" "ks_threads s1 = charge (ks_time s) cur (ks_threads s)" "ks_time s1 = ks_time s"
    using c(1) C by (simp_all add: s1_def charge_def)
  have eq: "can_run s1 = can_run s" using same_sched_can_run [OF ss] by auto
  have n: "next_loop s1 \<lparr>it_first = 0xFFFFFFFF, it_curr = sched_item_of cur\<rparr> = find (can_run s) (vs @ us @ [cur])"
    using next_loop_ring [of s1 cpu us cur vs] same_sched_queue [OF ss] q by (simp add: eq)
  show ?thesis
  proof (cases "find (can_run s) (vs @ us @ [cur])")
    case None
    then show ?thesis using u n c by (simp add: sched_next_process_def)
  next
    case (Some t)
    then have "can_run s1 t" using find_in_set [OF Some] eq by simp
    then obtain T where T: "ks_threads s1 t = Some T" by (auto simp: can_run_def split: option.splits)
    have "set_curr cpu t s1 = Some (s1\<lparr>ks_curr := Some (cs[cpu := t])\<rparr>)"
      using s1(1) c(2) by (simp add: set_curr_def)
    moreover have "upd_thread t (\<lambda>T. T\<lparr>th_sched_count := th_sched_count T + 1, th_time_last := ks_time s\<rparr>)
        (s1\<lparr>ks_curr := Some (cs[cpu := t])\<rparr>) =
        Some (s\<lparr>ks_curr := Some (cs[cpu := t]), ks_threads := dispatch (ks_time s) t (ks_threads s1)\<rparr>)"
      using T by (simp add: upd_thread_def dispatch_def s1_def)
    ultimately show ?thesis using u n c s1(2) Some
      by (simp add: sched_next_process_def Let_def)
  qed
qed

text \<open>
  C7 (round robin). \<open>sched_next_process\<close> takes the first thread that may run (its process is
  runnable, it is runnable and it waits for no condition) among the threads that follow the current
  one in the CPU's ring, the current one coming last; it panics exactly when there is none. The time
  since the last switch is charged to the old thread, the count of the new one goes up by one, and
  nothing else changes.
\<close>

theorem sched_next_round_robin:
  assumes "cpu_queue s cpu (us @ cur # vs)" "ks_curr s = Some cs" "cpu < length cs" "cs ! cpu = cur"
  shows "case find (can_run s) (vs @ us @ [cur]) of None \<Rightarrow> sched_next_process cpu s = None
     | Some t \<Rightarrow> \<exists>s'. sched_next_process cpu s = Some (t, s') \<and> ks_curr s' = Some (cs[cpu := t]) \<and> same_sched s s' \<and>
         ks_threads s' = dispatch (ks_time s) t (charge (ks_time s) cur (ks_threads s))"
  using sched_next_cases [OF assms]
  by (auto split: option.splits simp: same_sched_def dispatch_def charge_def option.map_comp comp_def)

text \<open>A ring of three threads at 1000, 2000, 3000, the second one blocked on a condition; 1000 runs on CPU 0.\<close>

definition ex_item :: "addr \<Rightarrow> addr \<Rightarrow> addr \<Rightarrow> llist_item option" where
  "ex_item d p n = Some \<lparr>item_data = d, item_prev = sched_item_of p, item_next = sched_item_of n\<rparr>"

definition ex_lh :: lheap where
  "ex_lh = \<lparr>lh_items = (\<lambda>_. None)(sched_item_of 1000 := ex_item 1000 3000 2000, sched_item_of 2000 := ex_item 2000 1000 3000,
       sched_item_of 3000 := ex_item 3000 2000 1000),
     lh_lists = (\<lambda>_. None)(64 \<mapsto> \<lparr>ll_list = sched_item_of 1000, ll_lock = 0\<rparr>, 8 \<mapsto> \<lparr>ll_list = 0, ll_lock = 0\<rparr>)\<rparr>"

definition ex_thread :: "addr \<Rightarrow> kthread" where
  "ex_thread cond = zero_thread\<lparr>th_flags := KTHREAD_FLAG_RUNNABLE, th_process := 500, th_cond := cond\<rparr>"

definition ex_state :: kstate where
  "ex_state = \<lparr>ks_lh = ex_lh, ks_threads = (\<lambda>_. None)(1000 \<mapsto> ex_thread 0, 2000 \<mapsto> ex_thread 700, 3000 \<mapsto> ex_thread 0),
     ks_procs = (\<lambda>_. None)(500 \<mapsto> zero_proc\<lparr>pr_type := TYPE_RUNNABLE\<rparr>), ks_ments = (\<lambda>_. None), ks_conds = (\<lambda>_. None), ks_citems = (\<lambda>_. None),
     ks_next_pid = 1, ks_cpu_threads = 64, ks_curr = Some [1000], ks_n_cpus = 1, ks_creat_task = 0, ks_time = 0,
     ks_root = 0, ks_kernel_table = 0, ks_new = [], ks_freed = [], ks_mmu = []\<rparr>"

lemmas ex_defs = ex_state_def ex_lh_def ex_item_def ex_thread_def zero_thread_def zero_proc_def

lemma ex_state_queue: "cpu_queue ex_state 0 [1000, 2000, 3000]"
  by (simp add: cpu_queue_def ring_def owned_thread_def cpu_list_def list_head_def cyc_def nx_def pv_def dat_def ex_defs)

lemma ex_state_can_run: "can_run ex_state 1000" "\<not> can_run ex_state 2000" "can_run ex_state 3000"
  by (simp_all add: can_run_def may_run_def ex_defs)

theorem sched_next_round_robin_witness:
  "\<exists>s'. sched_next_process 0 ex_state = Some (3000, s') \<and> ks_curr s' = Some [3000] \<and> same_sched ex_state s'"
  using sched_next_round_robin [of ex_state 0 "[]" 1000 "[2000, 3000]" "[1000]"] ex_state_queue ex_state_can_run
  by (auto simp: ex_state_def)

section \<open>No thread is passed over\<close>

primrec sched_turns :: "nat \<Rightarrow> nat \<Rightarrow> kstate \<Rightarrow> (addr list \<times> kstate) option" where
  "sched_turns cpu 0 s = Some ([], s)"
| "sched_turns cpu (Suc n) s = do {
     (t, s) \<leftarrow> sched_next_process cpu s;
     (ts, s) \<leftarrow> sched_turns cpu n s;
     Some (t # ts, s)
   }"

text \<open>If \<open>r\<close> comes at some place in the order after \<open>cur\<close>, the order after \<open>r\<close> starts at that place.\<close>

lemma turn_order:
  assumes "vs @ us @ [cur] = a @ r # b" "distinct (us @ cur # vs)"
  obtains us' vs' where "us @ cur # vs = us' @ r # vs'" "vs' @ us' @ [r] = b @ a @ [r]"
proof (cases "r = cur")
  case True
  have "b = []"
  proof (cases b rule: rev_cases)
    case (snoc b' z)
    with assms(1) True have "vs @ us = a @ cur # b'" by simp
    then have "cur \<in> set (vs @ us)" by simp
    with assms(2) show ?thesis by auto
  qed
  with True assms(1) that [of us vs] show ?thesis by simp
next
  case False
  then consider b1 where "vs = a @ r # b1" "b = b1 @ us @ [cur]"
    | a1 b1 where "us = a1 @ r # b1" "a = vs @ a1" "b = b1 @ [cur]"
  proof -
    from False assms(1) obtain b' where b': "b = b' @ [cur]" by (cases b rule: rev_cases) auto
    with assms(1) have "vs @ us = a @ r # b'" by simp
    then obtain zs where "vs = a @ zs \<and> zs @ us = r # b' \<or> a = vs @ zs \<and> us = zs @ r # b'"
      by (auto simp: append_eq_append_conv2)
    then show ?thesis using that b' by (cases zs) auto
  qed
  then show ?thesis
  proof cases
    case (1 b1)
    with that [of "us @ cur # a" b1] show ?thesis by simp
  next
    case (2 a1 b1)
    with that [of a1 "b1 @ cur # vs"] show ?thesis by simp
  qed
qed

lemma sched_turns_order:
  assumes "cpu_queue s cpu (us @ cur # vs)" "ks_curr s = Some cs" "cpu < length cs" "cs ! cpu = cur"
    and "n \<le> length (filter (can_run s) (vs @ us @ [cur]))"
  shows "\<exists>s'. sched_turns cpu n s = Some (take n (filter (can_run s) (vs @ us @ [cur])), s') \<and> same_sched s s'"
  using assms
proof (induction n arbitrary: s us cur vs cs)
  case 0
  then show ?case by (simp add: same_sched_refl)
next
  case (Suc n)
  let ?o = "vs @ us @ [cur]"
  from Suc.prems(5) obtain r rs where rs: "filter (can_run s) ?o = r # rs"
    by (cases "filter (can_run s) ?o") auto
  then obtain a b where ab: "?o = a @ r # b" "\<forall>x \<in> set a. \<not> can_run s x" "can_run s r" "rs = filter (can_run s) b"
    by (auto simp: filter_eq_Cons_iff simp del: filter_append)
  have "find (can_run s) ?o = Some r"
    unfolding ab(1) using ab(2,3) by (induction a) auto
  with sched_next_round_robin [OF Suc.prems(1-4)] obtain s1
    where s1: "sched_next_process cpu s = Some (r, s1)" "ks_curr s1 = Some (cs[cpu := r])" "same_sched s s1"
    by auto
  have "distinct (us @ cur # vs)"
    using Suc.prems(1) by (auto simp: cpu_queue_def ring_def distinct_map)
  with ab(1) obtain us' vs' where uv: "us @ cur # vs = us' @ r # vs'" "vs' @ us' @ [r] = b @ a @ [r]"
    by (rule turn_order)
  have cr: "can_run s1 = can_run s" using same_sched_can_run [OF s1(3)] by auto
  have o: "filter (can_run s1) (vs' @ us' @ [r]) = rs @ [r]"
    unfolding uv(2) cr using ab by simp
  have q: "cpu_queue s1 cpu (us' @ r # vs')"
    using Suc.prems(1) same_sched_queue [OF s1(3)] unfolding uv(1) by simp
  have len: "n \<le> length rs" using Suc.prems(5) unfolding rs by simp
  have "n \<le> length (filter (can_run s1) (vs' @ us' @ [r]))"
    unfolding o using len by simp
  then obtain s2 where "sched_turns cpu n s1 = Some (take n (rs @ [r]), s2)" "same_sched s1 s2"
    using Suc.IH [OF q s1(2)] Suc.prems(3) unfolding o by auto
  moreover have "take n (rs @ [r]) = take n rs" using len by simp
  ultimately show ?case using s1 same_sched_trans rs by (auto simp del: filter_append)
qed

text \<open>
  C18 (no starvation). As many switches as there are threads that may run give each of them exactly
  one turn, in the order of the CPU's ring from the current thread on; none is passed over and none
  runs twice.
\<close>

theorem sched_turns_all:
  assumes "cpu_queue s cpu (us @ cur # vs)" "ks_curr s = Some cs" "cpu < length cs" "cs ! cpu = cur"
  shows "\<exists>s'. sched_turns cpu (length (filter (can_run s) (us @ cur # vs))) s =
     Some (filter (can_run s) (vs @ us @ [cur]), s') \<and> same_sched s s'"
proof -
  have "length (filter (can_run s) (us @ cur # vs)) = length (filter (can_run s) (vs @ us @ [cur]))" by simp
  with sched_turns_order [OF assms, of "length (filter (can_run s) (us @ cur # vs))"] show ?thesis
    by (simp del: filter_append)
qed

theorem sched_turns_all_witness:
  "\<exists>s'. sched_turns 0 2 ex_state = Some ([3000, 1000], s')"
  using sched_turns_all [of ex_state 0 "[]" 1000 "[2000, 3000]" "[1000]"] ex_state_queue ex_state_can_run
  by (auto simp: ex_state_def numeral_2_eq_2)

section \<open>Assigning enqueued threads to the CPU\<close>

text \<open>
  The state while \<open>sched_processes\<close> runs, on one CPU whose list held \<open>cs\<close>: the items \<open>xs\<close> are still
  queued, the items \<open>as\<close> have been assigned.
\<close>

definition queued_item :: "kstate \<Rightarrow> addr \<Rightarrow> bool" where
  "queued_item s a \<longleftrightarrow> (\<exists>t. dat (ks_lh s) a = Some t \<and> a = sched_item_of t \<and> t \<noteq> NULL \<and> ks_threads s t \<noteq> None)"

definition assigning :: "kstate \<Rightarrow> addr list \<Rightarrow> kstate \<Rightarrow> addr list \<Rightarrow> addr list \<Rightarrow> bool" where
  "assigning s0 cs s xs as \<longleftrightarrow> ks_n_cpus s = 1 \<and> cpu_list s 0 \<noteq> THREAD_QUEUE \<and>
     ring (ks_lh s) (cpu_list s 0) (cs @ as) \<and> lock_word (ks_lh s) (cpu_list s 0) = Some 0 \<and>
     set (cs @ as) \<inter> set xs = {} \<and> (\<forall>a \<in> set xs. queued_item s a) \<and>
     s\<lparr>ks_lh := ks_lh s0\<rparr> = s0 \<and> (\<exists>c. c \<noteq> NULL \<and> ks_curr s = Some [c]) \<and>
     dat (ks_lh s) = dat (ks_lh s0) \<and> lock_word (ks_lh s) THREAD_QUEUE = lock_word (ks_lh s0) THREAD_QUEUE"

lemma assigningD:
  assumes "assigning s0 cs s xs as"
  shows "ks_n_cpus s = 1" "cpu_list s 0 \<noteq> THREAD_QUEUE" "ring (ks_lh s) (cpu_list s 0) (cs @ as)"
    "lock_word (ks_lh s) (cpu_list s 0) = Some 0" "set (cs @ as) \<inter> set xs = {}" "\<forall>a \<in> set xs. queued_item s a"
    "s\<lparr>ks_lh := ks_lh s0\<rparr> = s0" "\<exists>c. c \<noteq> NULL \<and> ks_curr s = Some [c]"
    "dat (ks_lh s) = dat (ks_lh s0)" "lock_word (ks_lh s) THREAD_QUEUE = lock_word (ks_lh s0) THREAD_QUEUE"
  using assms unfolding assigning_def by blast+

lemma schedule_item_step:
  assumes r: "ring (ks_lh s) THREAD_QUEUE (xs @ [a])" and h: "assigning s0 cs s (xs @ [a]) as"
    and r1: "ring (ks_lh s1) THREAD_QUEUE xs"
    and f: "unchanged (set xs) THREAD_QUEUE (ks_lh s) (ks_lh s1)" "s1 = s\<lparr>ks_lh := ks_lh s1\<rparr>"
  shows "\<exists>s2. schedule_item a s1 = Some s2 \<and> ring (ks_lh s2) THREAD_QUEUE xs \<and> assigning s0 cs s2 xs (as @ [a])"
proof -
  let ?l = "cpu_list s 0"
  note h = assigningD [OF h]
  obtain k where k: "s1 = s\<lparr>ks_lh := k\<rparr>" using f(2) by blast
  have l1: "cpu_list s1 0 = ?l" "ks_n_cpus s1 = 1" "ks_curr s1 = ks_curr s" "ks_threads s1 = ks_threads s"
    using h(1) by (simp_all add: k cpu_list_def)
  have d1: "dat (ks_lh s1) = dat (ks_lh s)" using f(1) by (simp add: unchanged_def)
  from h(6) obtain t where t: "dat (ks_lh s) a = Some t" "a = sched_item_of t" "t \<noteq> NULL" "ks_threads s t \<noteq> None"
    by (auto simp: queued_item_def)
  have rc: "ring (ks_lh s1) ?l (cs @ as)"
    using ring_unchanged [OF h(3) f(1) h(2)] h(5) by auto
  have lw: "lock_word (ks_lh s1) ?l = Some 0" using h(2,4) f(1) by (simp add: unchanged_def lock_word_def)
  have "dat (ks_lh s1) a = Some t" using t(1) d1 by simp
  then obtain it where it: "lh_items (ks_lh s1) a = Some it" "item_data it = t"
    by (auto simp: dat_def)
  have na: "a \<notin> set (cs @ as)" "a \<noteq> NULL" "a \<notin> set xs" using h(5) r by (auto simp: ring_def)
  obtain h2 where h2: "llist_append (ks_lh s1) ?l a = Some h2" "ring h2 ?l ((cs @ as) @ [a])"
    "unchanged (insert a (set (cs @ as))) ?l (ks_lh s1) h2"
    using rc na(1,2) _ lw by (rule llist_append_spec) (simp add: it)
  have r2: "ring h2 THREAD_QUEUE xs"
    using ring_unchanged [OF r1 h2(3) h(2) [symmetric]] h(5) na(3) by auto
  from h(8) obtain c where c: "c \<noteq> NULL" "ks_curr s = Some [c]" by blast
  have "schedule_item a s1 = Some (s1\<lparr>ks_lh := h2\<rparr>)"
    using it t(2-4) l1 h2(1) c llist_count_ring [OF rc]
    by (auto simp: schedule_item_def schedule_thread_def cpu_thread_count_def cpu_add_thread_def on_lh_Some
        sched_get_curr_thread_def)
  moreover have "assigning s0 cs (s1\<lparr>ks_lh := h2\<rparr>) xs (as @ [a])"
  proof -
    have u: "dat h2 = dat (ks_lh s)" "lock_word h2 ?l = Some 0"
      "lock_word h2 THREAD_QUEUE = lock_word (ks_lh s) THREAD_QUEUE"
      using h2(3) f(1) lw d1 h(2) by (auto simp: unchanged_def lock_word_def)
    have q: "\<forall>x \<in> set xs. queued_item (s1\<lparr>ks_lh := h2\<rparr>) x"
      using h(6) u(1) l1(4) by (simp add: queued_item_def)
    have s0: "(s1\<lparr>ks_lh := h2\<rparr>)\<lparr>ks_lh := ks_lh s0\<rparr> = s0" using h(7) by (simp add: k)
    have cl: "cpu_list (s1\<lparr>ks_lh := h2\<rparr>) 0 = ?l" using l1(1) by (simp add: cpu_list_def)
    have disj: "set (cs @ as @ [a]) \<inter> set xs = {}" using h(5) na(3) by auto
    show ?thesis
      unfolding assigning_def cl using h2(2) u q s0 l1 h(2,9,10) disj c
      by (intro conjI) simp_all
  qed
  ultimately show ?thesis using r2 by auto
qed

interpretation enqueued: item_stack_client "\<lambda>s. ring (ks_lh s) THREAD_QUEUE" "pop_item THREAD_QUEUE"
    "\<lambda>s s' xs. unchanged (set xs) THREAD_QUEUE (ks_lh s) (ks_lh s') \<and> s' = s\<lparr>ks_lh := ks_lh s'\<rparr>"
    schedule_item "assigning s0 cs" for s0 cs
  by unfold_locales (use schedule_item_step in blast)

text \<open>The kernel state when \<open>sched_processes\<close> is called: \<open>qs\<close> are the enqueued threads, \<open>cs\<close> those of the only CPU.\<close>

definition sched_ready :: "kstate \<Rightarrow> addr list \<Rightarrow> addr list \<Rightarrow> bool" where
  "sched_ready s qs cs \<longleftrightarrow> ks_n_cpus s = 1 \<and> cpu_list s 0 \<noteq> THREAD_QUEUE \<and> cpu_queue s 0 cs \<and>
     lock_word (ks_lh s) (cpu_list s 0) = Some 0 \<and> ring (ks_lh s) THREAD_QUEUE (map sched_item_of qs) \<and>
     set cs \<inter> set qs = {} \<and> (\<forall>t \<in> set qs. queued_item s (sched_item_of t)) \<and> (\<exists>c. c \<noteq> NULL \<and> ks_curr s = Some [c])"

lemma set_lock_self: "lock_word h l = Some v \<Longrightarrow> set_lock h l v = Some h"
  by (auto simp: lock_word_def set_lock_def fun_upd_idem_iff)

lemma sched_processes_held:
  assumes r: "sched_ready s qs cs" and l: "lock_word (ks_lh s) THREAD_QUEUE = Some 1"
  shows "\<exists>s'. sched_processes s = Some s' \<and> ring (ks_lh s') THREAD_QUEUE [] \<and>
     lock_word (ks_lh s') THREAD_QUEUE = Some 0 \<and>
     ring (ks_lh s') (cpu_list s 0) (map sched_item_of (cs @ rev qs)) \<and> s'\<lparr>ks_lh := ks_lh s\<rparr> = s"
proof -
  from l obtain L where L: "lh_lists (ks_lh s) THREAD_QUEUE = Some L" "ll_lock L = 1" by (auto simp: lock_word_Some)
  have "assigning s (map sched_item_of cs) s (map sched_item_of qs) []"
    using r unfolding sched_ready_def assigning_def cpu_queue_def by auto
  moreover have "ring (ks_lh s) THREAD_QUEUE (map sched_item_of qs)" using r by (simp add: sched_ready_def)
  ultimately obtain s1 where s1: "drain (pop_item THREAD_QUEUE) schedule_item s = Some s1" "ring (ks_lh s1) THREAD_QUEUE []"
      "assigning s (map sched_item_of cs) s1 [] ([] @ rev (map sched_item_of qs))"
    using enqueued.drain_all by blast
  note as = assigningD [OF s1(3)]
  have lw: "lh_lists (ks_lh s1) THREAD_QUEUE \<noteq> None" using as(10) l by (auto simp: lock_word_def)
  obtain h' where h': "llist_unlock (ks_lh s1) THREAD_QUEUE = Some h'" "lock_word h' THREAD_QUEUE = Some 0"
      "lh_items h' = lh_items (ks_lh s1)" "list_head h' = list_head (ks_lh s1)"
    using lw by (rule llist_unlock_spec)
  have cl: "cpu_list s1 0 = cpu_list s 0" 
    using arg_cong [OF as(7), of "\<lambda>s. cpu_list s 0"] by (simp add: cpu_list_def)
  have lock: "set_lock (ks_lh s) THREAD_QUEUE 1 = Some (ks_lh s)" using l by (rule set_lock_self)
  have "sched_processes s = Some (s1\<lparr>ks_lh := h'\<rparr>)"
    using L s1(1) h'(1) on_lh_Some [of "\<lambda>h. set_lock h THREAD_QUEUE 1" s, OF lock]
    by (simp add: sched_processes_def lock_try_def on_lh_Some)
  then show ?thesis
    using s1(2) h'(2) as(3,7) ring_same [OF h'(3,4)] cl by (simp add: rev_map)
qed

lemma sched_processes_free:
  assumes "lock_word (ks_lh s) THREAD_QUEUE = Some 0"
  shows "\<exists>h'. sched_processes s = Some (s\<lparr>ks_lh := h'\<rparr>) \<and> set_lock (ks_lh s) THREAD_QUEUE 1 = Some h'"
proof -
  from assms obtain L where L: "lh_lists (ks_lh s) THREAD_QUEUE = Some L" "ll_lock L = 0" by (auto simp: lock_word_Some)
  obtain h' where h': "set_lock (ks_lh s) THREAD_QUEUE 1 = Some h'"
    using L by (auto simp: set_lock_def)
  then show ?thesis using L on_lh_Some [of "\<lambda>h. set_lock h THREAD_QUEUE 1" s, OF h']
    by (simp add: sched_processes_def lock_try_def)
qed

text \<open>
  C19 (moving enqueued threads). On one CPU, \<open>sched_processes\<close> called while the queue's lock is held moves
  every enqueued thread to the end of the CPU's list, last one first, and leaves the queue empty and
  its lock free. Called while the lock is free (the inverted result of \<open>lock_try\<close>), it takes the
  lock and returns: the threads stay enqueued and the lock stays held until the next call.
\<close>

theorem sched_processes_moves:
  assumes "sched_ready s qs cs" "lock_word (ks_lh s) THREAD_QUEUE = Some w" "w = 0 \<or> w = 1"
  shows "\<exists>s'. sched_processes s = Some s' \<and>
     (if w = 1 then ring (ks_lh s') THREAD_QUEUE [] \<and> lock_word (ks_lh s') THREAD_QUEUE = Some 0 \<and>
        ring (ks_lh s') (cpu_list s 0) (map sched_item_of (cs @ rev qs))
      else ring (ks_lh s') THREAD_QUEUE (map sched_item_of qs) \<and> lock_word (ks_lh s') THREAD_QUEUE = Some 1 \<and>
        ring (ks_lh s') (cpu_list s 0) (map sched_item_of cs))"
proof (cases "w = 1")
  case True
  with sched_processes_held [OF assms(1)] assms(2) show ?thesis by auto
next
  case False
  with assms have "lock_word (ks_lh s) THREAD_QUEUE = Some 0" by simp
  from sched_processes_free [OF this] obtain h' where
    h': "sched_processes s = Some (s\<lparr>ks_lh := h'\<rparr>)" "set_lock (ks_lh s) THREAD_QUEUE 1 = Some h'" by blast
  have "lh_lists (ks_lh s) THREAD_QUEUE \<noteq> None" using assms(2) by (auto simp: lock_word_def)
  then obtain h2 where h2: "set_lock (ks_lh s) THREAD_QUEUE 1 = Some h2" "lock_word h2 THREAD_QUEUE = Some 1"
      "lh_items h2 = lh_items (ks_lh s)" "list_head h2 = list_head (ks_lh s)"
    by (rule set_lock_spec)
  with h' have "h2 = h'" by simp
  with h' h2 False assms(1) ring_same [OF h2(3,4)] show ?thesis
    by (simp add: sched_ready_def cpu_queue_def)
qed

text \<open>The same state with two threads enqueued, 4000 and 5000, and the queue's lock held.\<close>

definition ex_queued :: kstate where
  "ex_queued = ex_state\<lparr>ks_threads := (ks_threads ex_state)(4000 \<mapsto> ex_thread 0, 5000 \<mapsto> ex_thread 0),
     ks_lh := ex_lh\<lparr>lh_items := (lh_items ex_lh)(sched_item_of 4000 := ex_item 4000 5000 5000,
         sched_item_of 5000 := ex_item 5000 4000 4000),
       lh_lists := (lh_lists ex_lh)(8 \<mapsto> \<lparr>ll_list = sched_item_of 4000, ll_lock = 1\<rparr>)\<rparr>\<rparr>"

lemma ex_queued_ready: "sched_ready ex_queued [4000, 5000] [1000, 2000, 3000]" "lock_word (ks_lh ex_queued) 8 = Some 1"
proof -
  have "cpu_queue ex_queued 0 [1000, 2000, 3000]"
    by (simp add: cpu_queue_def ring_def owned_thread_def cpu_list_def list_head_def cyc_def nx_def pv_def dat_def
        ex_queued_def ex_defs)
  moreover have "ring (ks_lh ex_queued) 8 (map sched_item_of [4000, 5000])"
    by (simp add: ring_def list_head_def cyc_def nx_def pv_def ex_queued_def ex_defs)
  moreover have "\<forall>t \<in> {4000, 5000}. queued_item ex_queued (sched_item_of t)"
    by (simp add: queued_item_def dat_def ex_queued_def ex_defs)
  ultimately show "sched_ready ex_queued [4000, 5000] [1000, 2000, 3000]"
    by (simp add: sched_ready_def cpu_list_def lock_word_def ex_queued_def ex_state_def ex_lh_def)
  show "lock_word (ks_lh ex_queued) 8 = Some 1" by (simp add: lock_word_def ex_queued_def)
qed

theorem sched_processes_moves_witness:
  "\<exists>s'. sched_processes ex_queued = Some s' \<and> ring (ks_lh s') 8 [] \<and>
     ring (ks_lh s') 64 (map sched_item_of [1000, 2000, 3000, 5000, 4000])"
proof -
  have "cpu_list ex_queued 0 = 64" by (simp add: cpu_list_def ex_queued_def ex_state_def)
  with sched_processes_moves [OF ex_queued_ready] show ?thesis by auto
qed

end
