(* ===== verification/Proc_Life.thy ===== *)
theory Proc_Life
  imports Sched
begin

text \<open>
  The life of processes and threads: waking the threads that wait for a condition, ending a process,
  destroying it, its open files and its children.
\<close>

section \<open>Signalling a condition\<close>

text \<open>
  The state while \<open>cond_signal\<close> runs, from \<open>s0\<close> on: the waiters \<open>xs\<close> are still in the list, the
  waiters \<open>as\<close> have been woken and their items freed. \<open>w\<close> gives the thread of each item.
\<close>

definition wake :: "addr set \<Rightarrow> (addr \<rightharpoonup> kthread) \<Rightarrow> (addr \<rightharpoonup> kthread)" where
  "wake W M = (\<lambda>t. if t \<in> W then map_option (\<lambda>T. T\<lparr>th_cond := NULL\<rparr>) (M t) else M t)"

definition waiting_item :: "(addr \<Rightarrow> addr) \<Rightarrow> kstate \<Rightarrow> addr \<Rightarrow> bool" where
  "waiting_item w s a \<longleftrightarrow> dat (ks_lh s) a = Some a \<and> ks_citems s a = Some (w a) \<and> ks_threads s (w a) \<noteq> None"

definition waking :: "(addr \<Rightarrow> addr) \<Rightarrow> kstate \<Rightarrow> kstate \<Rightarrow> addr list \<Rightarrow> addr list \<Rightarrow> bool" where
  "waking w s0 s xs as \<longleftrightarrow> (\<forall>a \<in> set xs. waiting_item w s a) \<and> ks_threads s = wake (w ` set as) (ks_threads s0) \<and>
     (\<forall>a \<in> set as. ks_citems s a = None) \<and> ks_procs s = ks_procs s0 \<and> ks_curr s = ks_curr s0 \<and> ks_conds s = ks_conds s0"

lemma ring_free_items:
  assumes "ring h l xs" "set as \<inter> set xs = {}"
  shows "ring (put_items as None h) l xs"
proof -
  let ?h = "put_items as None h"
  have it: "lh_items ?h b = lh_items h b" if "b \<in> set xs" for b using that assms(2) by (auto simp: put_items_def)
  have "chain (nx ?h) (pv ?h) ys = chain (nx h) (pv h) ys" if "set ys \<subseteq> set xs" for ys
    using that by (induction "nx h" "pv h" ys rule: chain.induct) (auto simp: nx_def pv_def it)
  moreover have "nx ?h (last xs) = nx h (last xs)" "pv ?h (hd xs) = pv h (hd xs)" if "xs \<noteq> []"
    using that it by (simp_all add: nx_def pv_def)
  ultimately show ?thesis
    using assms(1) by (auto simp: ring_def cyc_def list_head_def put_items_def)
qed

lemma ring_free_item: "ring h l xs \<Longrightarrow> a \<notin> set xs \<Longrightarrow> ring (put_items [a] None h) l xs"
  by (rule ring_free_items) auto

lemma wake_insert: "M t \<noteq> None \<Longrightarrow> (wake W M)(t \<mapsto> (the (wake W M t))\<lparr>th_cond := NULL\<rparr>) = wake (insert t W) M"
  by (auto simp: wake_def)

lemma unblock_item_step:
  assumes r: "ring (ks_lh s) l (xs @ [a])" and h: "waking w s0 s (xs @ [a]) as"
    and r1: "ring (ks_lh s1) l xs"
    and f: "unchanged (set xs) l (ks_lh s) (ks_lh s1)" "s1 = s\<lparr>ks_lh := ks_lh s1\<rparr>"
  shows "\<exists>s2. unblock_item a s1 = Some s2 \<and> ring (ks_lh s2) l xs \<and> waking w s0 s2 xs (as @ [a])"
proof -
  obtain k where k: "s1 = s\<lparr>ks_lh := k\<rparr>" using f(2) by blast
  have d: "dat k = dat (ks_lh s)" using f(1) by (simp add: unchanged_def k)
  from h have a: "dat (ks_lh s) a = Some a" "ks_citems s a = Some (w a)" "ks_threads s (w a) \<noteq> None"
    by (auto simp: waking_def waiting_item_def)
  then obtain T where T: "ks_threads s (w a) = Some T" by auto
  have "dat k a = Some a" using a(1) d by simp
  then obtain it where it: "lh_items k a = Some it" "item_data it = a" by (auto simp: dat_def)
  define s2 where "s2 = s\<lparr>ks_threads := (ks_threads s)(w a \<mapsto> T\<lparr>th_cond := NULL\<rparr>), ks_citems := (ks_citems s)(a := None),
    ks_lh := put_items [a] None k\<rparr>"
  have "unblock_item a s1 = Some s2"
    using it T a(2) by (simp add: unblock_item_def unblock_thread_def upd_thread_def k s2_def)
  moreover have nin: "a \<notin> set xs" using r by (simp add: ring_def)
  have "ring (ks_lh s2) l xs" using ring_free_item [OF r1 nin] by (simp add: s2_def k)
  moreover have "waking w s0 s2 xs (as @ [a])"
  proof -
    have "waiting_item w s2 b" if "b \<in> set xs" for b
    proof -
      have "b \<noteq> a" using that nin by auto
      moreover have "waiting_item w s b" using h that by (simp add: waking_def)
      ultimately show ?thesis
        using d by (auto simp: waiting_item_def s2_def put_items_def dat_def fun_eq_iff)
    qed
    moreover have "ks_threads s2 = wake (w ` set (as @ [a])) (ks_threads s0)"
    proof -
      have e: "ks_threads s = wake (w ` set as) (ks_threads s0)" using h by (simp add: waking_def)
      then have "ks_threads s0 (w a) \<noteq> None" using a(3) by (auto simp: wake_def split: if_splits)
      from wake_insert [where M = "ks_threads s0" and t = "w a" and W = "w ` set as", OF this] show ?thesis
        using T e by (simp add: s2_def)
    qed
    ultimately show ?thesis using h by (simp add: waking_def s2_def)
  qed
  ultimately show ?thesis by blast
qed

interpretation waiters: item_stack_client "\<lambda>s. ring (ks_lh s) (cond_list_of c)" "pop_item (cond_list_of c)"
    "\<lambda>s s' xs. unchanged (set xs) (cond_list_of c) (ks_lh s) (ks_lh s') \<and> s' = s\<lparr>ks_lh := ks_lh s'\<rparr>"
    unblock_item "waking w s0" for c w s0
  by unfold_locales (use unblock_item_step in blast)

text \<open>
  C20 (signalling a condition). \<open>cond_signal\<close> on a condition whose list is well formed wakes every
  thread that waits on it, whatever their number, and no other thread: afterwards the list is empty,
  the items are freed and the condition's lock is free.
\<close>

theorem cond_signal_wakes_all:
  assumes "ks_conds s c = Some 0" "ring (ks_lh s) (cond_list_of c) items" "\<forall>a \<in> set items. waiting_item w s a"
  shows "\<exists>s'. cond_signal env c s = Some (0, s') \<and> ring (ks_lh s') (cond_list_of c) [] \<and> ks_conds s' c = Some 0 \<and>
     ks_threads s' = wake (w ` set items) (ks_threads s) \<and> (\<forall>a \<in> set items. ks_citems s' a = None) \<and>
     ks_procs s' = ks_procs s"
proof -
  let ?s = "s\<lparr>ks_conds := (ks_conds s)(c \<mapsto> 1)\<rparr>"
  have "waking w ?s ?s items []"
    using assms(3) by (simp add: waking_def wake_def waiting_item_def)
  then obtain s1 where s1: "drain (pop_item (cond_list_of c)) unblock_item ?s = Some s1" "ring (ks_lh s1) (cond_list_of c) []"
      "waking w ?s s1 [] ([] @ rev items)"
    using waiters.drain_all [of ?s c items w ?s "[]"] assms(2) by auto
  then show ?thesis
    using assms(1) by (simp add: cond_signal_def waking_def unlock_def)
qed

text \<open>Threads 1000 and 3000 wait on the condition at 700; 2000 does not.\<close>

definition ex_waiting :: kstate where
  "ex_waiting = ex_state\<lparr>ks_threads := (\<lambda>_. None)(1000 \<mapsto> ex_thread 700, 2000 \<mapsto> ex_thread 0, 3000 \<mapsto> ex_thread 700),
     ks_conds := (\<lambda>_. None)(700 \<mapsto> 0), ks_citems := (\<lambda>_. None)(6000 \<mapsto> 1000, 6100 \<mapsto> 3000),
     ks_lh := \<lparr>lh_items = (\<lambda>_. None)(6000 \<mapsto> \<lparr>item_data = 6000, item_prev = 6100, item_next = 6100\<rparr>,
         6100 \<mapsto> \<lparr>item_data = 6100, item_prev = 6000, item_next = 6000\<rparr>),
       lh_lists = (\<lambda>_. None)(704 \<mapsto> \<lparr>ll_list = 6000, ll_lock = 0\<rparr>)\<rparr>\<rparr>"

theorem cond_signal_wakes_all_witness:
  "\<exists>s'. cond_signal uncontended 700 ex_waiting = Some (0, s') \<and> ks_threads s' 3000 = Some (ex_thread 0)"
proof -
  let ?w = "\<lambda>a. if a = 6000 then 1000 else 3000"
  have "ring (ks_lh ex_waiting) (cond_list_of 700) [6000, 6100]"
    by (simp add: ring_def list_head_def cyc_def nx_def pv_def ex_waiting_def)
  moreover have "\<forall>a \<in> set [6000, 6100]. waiting_item ?w ex_waiting a"
    by (simp add: waiting_item_def dat_def ex_waiting_def)
  moreover have "ks_conds ex_waiting 700 = Some 0" by (simp add: ex_waiting_def)
  ultimately show ?thesis
    using cond_signal_wakes_all [of ex_waiting 700 "[6000, 6100]" ?w uncontended]
    by (auto simp: wake_def ex_waiting_def ex_thread_def)
qed

section \<open>Destroying a process\<close>

text \<open>
  The state in which \<open>proc_destroy\<close> is called, on one CPU: process \<open>p\<close> is in the process list behind
  the processes \<open>ps\<close>, its threads are \<open>t\<close> and at most one more, \<open>t\<close> is in the CPU's list behind the
  threads \<open>us\<close>, all locks are free, and no two list items coincide.
\<close>

definition destroyable ::
    "kstate \<Rightarrow> addr \<Rightarrow> addr list \<Rightarrow> addr list \<Rightarrow> addr \<Rightarrow> addr list \<Rightarrow> addr list \<Rightarrow> addr list \<Rightarrow> bool" where
  "destroyable s p ps qs t rest us vs \<longleftrightarrow>
     ks_procs s p \<noteq> None \<and> ks_threads s t \<noteq> None \<and> dat (ks_lh s) (list_item_of t) = Some t \<and> ks_n_cpus s = 1 \<and>
     ring (ks_lh s) PROCS (ps @ proc_item_of p # qs) \<and> lock_word (ks_lh s) PROCS = Some 0 \<and> ps \<noteq> [] \<and>
     ring (ks_lh s) (threads_of p) (map list_item_of (t # rest)) \<and> lock_word (ks_lh s) (threads_of p) = Some 0 \<and> length rest \<le> 1 \<and>
     ring (ks_lh s) (cpu_list s 0) (map sched_item_of (us @ t # vs)) \<and> lock_word (ks_lh s) (cpu_list s 0) = Some 0 \<and> us \<noteq> [] \<and>
     distinct [PROCS, threads_of p, cpu_list s 0] \<and>
     distinct ((ps @ proc_item_of p # qs) @ map list_item_of (t # rest) @ map sched_item_of (us @ t # vs))"

text \<open>\<open>sched_remove_thread\<close> on the only CPU, for a thread that is not the first of its list.\<close>

lemma sched_remove_thread_one:
  assumes n: "ks_n_cpus s = 1" and t: "ks_threads s t \<noteq> None"
    and r: "ring (ks_lh s) (cpu_list s 0) (map sched_item_of (us @ t # vs))" and us: "us \<noteq> []"
    and free: "lock_word (ks_lh s) (cpu_list s 0) = Some 0"
  shows "\<exists>h'. sched_remove_thread env t s = Some (0, s\<lparr>ks_lh := h'\<rparr>) \<and> ring h' (cpu_list s 0) (map sched_item_of (us @ vs)) \<and>
     unchanged (set (map sched_item_of (us @ t # vs))) (cpu_list s 0) (ks_lh s) h'"
proof -
  let ?l = "cpu_list s 0" and ?h = "ks_lh s" and ?a = "sched_item_of t"
  let ?us = "map sched_item_of us" and ?vs = "map sched_item_of vs"
  have r': "ring ?h ?l (?us @ ?a # ?vs)" using r by simp
  obtain L where L: "lh_lists ?h ?l = Some L" "ll_lock L = 0" using free by (auto simp: lock_word_Some)
  obtain h1 where h1: "set_lock ?h ?l 1 = Some h1" "lock_word h1 ?l = Some 1" "lh_items h1 = lh_items ?h"
      "list_head h1 = list_head ?h" "\<forall>m. m \<noteq> ?l \<longrightarrow> lh_lists h1 m = lh_lists ?h m"
    using L by (rule_tac set_lock_spec [of ?h ?l 1]) auto
  have "ring h1 ?l (?us @ ?a # ?vs)" using r' ring_same [OF h1(3,4)] by simp
  then obtain h2 where h2: "llist_remove_unlocked h1 ?l ?a = Some h2" "ring h2 ?l (?us @ ?vs)"
      "unchanged (set (?us @ ?a # ?vs)) ?l h1 h2"
    by (rule remove_unlocked_inner) (use us in simp)
  have "lh_lists h2 ?l \<noteq> None" using h2(2) by (auto simp: ring_def list_head_Some)
  then obtain h3 where h3: "llist_unlock h2 ?l = Some h3" "lock_word h3 ?l = Some 0" "lh_items h3 = lh_items h2"
      "list_head h3 = list_head h2" "\<forall>m. m \<noteq> ?l \<longrightarrow> lh_lists h3 m = lh_lists h2 m"
    by (rule llist_unlock_spec)
  have "index_of (?us @ ?a # ?vs) ?a \<noteq> None" by (subst index_of_None) simp
  then obtain k where k: "index_of (?us @ ?a # ?vs) ?a = Some k" by auto
  have pos: "llist_get_position ?h ?l ?a = Some (int k)"
    using llist_get_position_ring [OF r', of ?a] k by simp
  have lf: "lock_for (env(0 := (0, snd (env 0)))) (ks_time s) 2000 = Some (0, 1, 0)" by (simp add: lock_for_def lock_for_loop.simps)
  have "sched_remove_thread env t s = Some (0, s\<lparr>ks_lh := h3\<rparr>)"
    using n t pos L lf h1(1) h2(1) h3(1)
    by (auto simp: sched_remove_thread_def llist_lock_for_def on_lh_def cpu_list_def)
  moreover have "ring h3 ?l (map sched_item_of (us @ vs))" using h2(2) ring_same [OF h3(3,4)] by simp
  moreover have "unchanged (set (map sched_item_of (us @ t # vs))) ?l ?h h3"
    using h1 h2(3) h3 free nx_pv_same [OF h1(3)] nx_pv_same [OF h3(3)] by (simp add: unchanged_def)
  ultimately show ?thesis by blast
qed

lemma destroyableD:
  assumes "destroyable s p ps qs t rest us vs"
  shows "\<exists>P. ks_procs s p = Some P" "\<exists>T. ks_threads s t = Some T" "dat (ks_lh s) (list_item_of t) = Some t" "ks_n_cpus s = 1"
    "ring (ks_lh s) PROCS (ps @ proc_item_of p # qs)" "lock_word (ks_lh s) PROCS = Some 0" "ps \<noteq> []"
    "ring (ks_lh s) (threads_of p) (list_item_of t # map list_item_of rest)" "lock_word (ks_lh s) (threads_of p) = Some 0"
    "length (map list_item_of rest) \<le> 1"
    "ring (ks_lh s) (cpu_list s 0) (map sched_item_of (us @ t # vs))" "lock_word (ks_lh s) (cpu_list s 0) = Some 0" "us \<noteq> []"
    "PROCS \<noteq> threads_of p" "PROCS \<noteq> cpu_list s 0" "threads_of p \<noteq> cpu_list s 0"
    "set (ps @ proc_item_of p # qs) \<inter> set (list_item_of t # map list_item_of rest) = {}"
    "set (ps @ proc_item_of p # qs) \<inter> set (map sched_item_of (us @ t # vs)) = {}"
    "set (list_item_of t # map list_item_of rest) \<inter> set (map sched_item_of (us @ t # vs)) = {}"
    "distinct (ps @ proc_item_of p # qs)" "distinct (map sched_item_of (us @ t # vs))"
  using assms unfolding destroyable_def by (blast | simp | (auto; blast))+

text \<open>The loop of \<open>proc_destroy\<close> destroys the first thread only.\<close>

lemma destroy_threads_first:
  assumes t: "ks_threads s t \<noteq> None" and d: "dat (ks_lh s) (list_item_of t) = Some t" and n: "ks_n_cpus s = 1"
    and tr: "ring (ks_lh s) (threads_of p) (list_item_of t # rest)" "length rest \<le> 1" "lock_word (ks_lh s) (threads_of p) = Some 0"
    and cr: "ring (ks_lh s) (cpu_list s 0) (map sched_item_of (us @ t # vs))" "us \<noteq> []" "lock_word (ks_lh s) (cpu_list s 0) = Some 0"
    and ne: "threads_of p \<noteq> cpu_list s 0" and dj: "list_item_of t \<notin> set (map sched_item_of (us @ t # vs))"
  shows "\<exists>h1 h2. destroy_threads env p s = Some (free_thread t (s\<lparr>ks_lh := h2\<rparr>)) \<and>
     unchanged {list_item_of t} (threads_of p) (ks_lh s) h1 \<and>
     unchanged (set (map sched_item_of (us @ t # vs))) (cpu_list s 0) h1 h2 \<and>
     ring h2 (cpu_list s 0) (map sched_item_of (us @ vs)) \<and> list_head h2 (threads_of p) = Some NULL"
proof -
  let ?l = "threads_of p"
  obtain L where L: "lh_lists (ks_lh s) ?l = Some L" "ll_list L = list_item_of t"
    using tr(1) by (auto simp: ring_def list_head_Some)
  obtain it where it: "lh_items (ks_lh s) (list_item_of t) = Some it" "item_data it = t" using d by (auto simp: dat_def)
  obtain h1 where h1: "llist_remove (ks_lh s) ?l (list_item_of t) = Some h1" "ring h1 ?l []"
      "unchanged {list_item_of t} ?l (ks_lh s) h1"
    using tr by (rule llist_remove_clears)
  let ?s1 = "s\<lparr>ks_lh := h1\<rparr>"
  have cl: "cpu_list ?s1 0 = cpu_list s 0" by (simp add: cpu_list_def)
  have "ring h1 (cpu_list s 0) (map sched_item_of (us @ t # vs))"
    using ring_unchanged [OF cr(1) h1(3) ne [symmetric]] dj by auto
  moreover have "lock_word h1 (cpu_list s 0) = Some 0"
    using h1(3) cr(3) ne by (simp add: unchanged_def lock_word_def)
  ultimately obtain h2 where h2: "sched_remove_thread env t ?s1 = Some (0, ?s1\<lparr>ks_lh := h2\<rparr>)"
      "ring h2 (cpu_list s 0) (map sched_item_of (us @ vs))"
      "unchanged (set (map sched_item_of (us @ t # vs))) (cpu_list s 0) h1 h2"
    using sched_remove_thread_one [of ?s1 t us vs env] n t cr(2) cl by auto
  have hd: "list_head h2 ?l = Some NULL"
    using h1(2) h2(3) ne by (simp add: ring_def unchanged_def list_head_def)
  have "lh_lists (put_items [list_item_of t, sched_item_of t] None h2) ?l = lh_lists h2 ?l" by (simp add: put_items_def)
  then have stop: "destroy_threads env p (free_thread t (s\<lparr>ks_lh := h2\<rparr>)) = Some (free_thread t (s\<lparr>ks_lh := h2\<rparr>))"
    using hd by (subst destroy_threads.simps) (auto simp: free_thread_def list_head_Some)
  have td: "thread_destroy env t ?s1 = Some (0, free_thread t (s\<lparr>ks_lh := h2\<rparr>))"
    using t h2(1) by (auto simp: thread_destroy_def)
  have "ll_list L \<noteq> NULL" using tr(1) L(2) by (auto simp: ring_def)
  then have "destroy_threads env p s = Some (free_thread t (s\<lparr>ks_lh := h2\<rparr>))"
    using L it h1(1) td stop by (subst destroy_threads.simps) (simp add: on_lh_def)
  then show ?thesis using h1(3) h2(2,3) hd by blast
qed

text \<open>
  \<open>proc_destroy\<close> takes a process out of the process list, frees its
  tables, destroys its first thread (which leaves the CPU's list) and frees the process. For a process
  with one thread that is all of it. A second thread is not destroyed, because removing the first of
  two items empties the list: it stays in the CPU's list although its process is freed.
\<close>

theorem proc_destroy_first_thread:
  assumes "destroyable s p ps qs t rest us vs" "ks_procs s p = Some P"
  shows "\<exists>s'. proc_destroy env p s = Some (0, s') \<and> ks_procs s' = (ks_procs s)(p := None) \<and>
     ks_threads s' = (ks_threads s)(t := None) \<and> ring (ks_lh s') PROCS (ps @ qs) \<and>
     ring (ks_lh s') (cpu_list s 0) (map sched_item_of (us @ vs)) \<and>
     ks_freed s' = ks_freed s @ filter (\<lambda>a. a \<noteq> NULL) [pr_mmu_table P, pr_symbols P, pr_elf_data P, pr_mmap P]"
proof -
  note D = destroyableD [OF assms(1)]
  obtain h1 where h1: "llist_remove (ks_lh s) PROCS (proc_item_of p) = Some h1" "ring h1 PROCS (ps @ qs)"
      "unchanged (set (ps @ proc_item_of p # qs)) PROCS (ks_lh s) h1"
    using D(5,7,6) by (rule llist_remove_spec)
  define fr where "fr = ks_freed s @ filter (\<lambda>a. a \<noteq> NULL) [pr_mmu_table P, pr_symbols P, pr_elf_data P, pr_mmap P]"
  define s1 where "s1 = s\<lparr>ks_lh := h1, ks_freed := fr\<rparr>"
  have fs: "free_if (pr_mmap P) (free_if (pr_elf_data P) (free_if (pr_symbols P) (free_if (pr_mmu_table P) (s\<lparr>ks_lh := h1\<rparr>)))) = s1"
    by (simp add: free_if_def kfree_block_def s1_def fr_def)
  have cl: "cpu_list s1 0 = cpu_list s 0" by (simp add: cpu_list_def s1_def)
  have t1: "ring h1 (threads_of p) (list_item_of t # map list_item_of rest)" "lock_word h1 (threads_of p) = Some 0"
    using ring_unchanged [OF D(8) h1(3) D(14) [symmetric]] D(17) apply (simp only: Int_commute)
    using h1(3) D(9,14) by (simp add: unchanged_def lock_word_def)
  have c1: "ring h1 (cpu_list s 0) (map sched_item_of (us @ t # vs))" "lock_word h1 (cpu_list s 0) = Some 0"
    using ring_unchanged [OF D(11) h1(3) D(15) [symmetric]] D(18) apply (simp only: Int_commute)
    using h1(3) D(12,15) by (simp add: unchanged_def lock_word_def)
  have d1: "dat h1 (list_item_of t) = Some t" using h1(3) D(3) by (simp add: unchanged_def)
  have "list_item_of t \<notin> set (map sched_item_of (us @ t # vs))" using D(19) by auto
  then obtain h2 h3 where h3: "destroy_threads env p s1 = Some (free_thread t (s1\<lparr>ks_lh := h3\<rparr>))"
      "unchanged {list_item_of t} (threads_of p) h1 h2"
      "unchanged (set (map sched_item_of (us @ t # vs))) (cpu_list s 0) h2 h3"
      "ring h3 (cpu_list s 0) (map sched_item_of (us @ vs))" "list_head h3 (threads_of p) = Some NULL"
    using destroy_threads_first [of s1 t p "map list_item_of rest" us vs env] D(2,4,10,13,16) t1 c1 d1 cl
    by (auto simp: s1_def)
  have "ring h2 PROCS (ps @ qs)" using ring_unchanged [OF h1(2) h3(2) D(14)] D(17) by auto
  then have r3: "ring h3 PROCS (ps @ qs)" using ring_unchanged [OF _ h3(3) D(15)] D(18) by auto
  define hf where "hf = put_items [proc_item_of p] None (put_items [list_item_of t, sched_item_of t] None h3)"
  have p4: "ring hf PROCS (ps @ qs)" and c4: "ring hf (cpu_list s 0) (map sched_item_of (us @ vs))"
    unfolding hf_def using r3 h3(4) D(17-21) by (auto intro!: ring_free_items)
  have keep: "ring (hf\<lparr>lh_lists := (lh_lists hf)(threads_of p := None)\<rparr>) l xs = ring hf l xs" if "l \<noteq> threads_of p" for l xs
    using that nx_pv_same [of "hf\<lparr>lh_lists := (lh_lists hf)(threads_of p := None)\<rparr>" hf] by (simp add: ring_def list_head_def)
  have "proc_destroy env p s = Some (0, free_proc p (free_thread t (s1\<lparr>ks_lh := h3\<rparr>)))"
    using assms(2) h1(1) fs h3(1) by (simp add: proc_destroy_def mtask_remove_proc_def on_lh_def)
  moreover have "ks_lh (free_proc p (free_thread t (s1\<lparr>ks_lh := h3\<rparr>))) = hf\<lparr>lh_lists := (lh_lists hf)(threads_of p := None)\<rparr>"
    by (simp add: free_proc_def free_thread_def hf_def put_items_def)
  ultimately show ?thesis
    using p4 c4 keep [OF D(14)] keep [OF D(16) [symmetric]]
    by (simp add: free_proc_def free_thread_def s1_def fr_def)
qed

text \<open>
  Process 900 with the threads 2000 and 3000, in the process list behind process 300; the CPU runs
  the idle thread 1500 and these two.
\<close>

definition ex_link :: "addr \<Rightarrow> addr \<Rightarrow> addr \<Rightarrow> llist_item" where
  "ex_link d p n = \<lparr>item_data = d, item_prev = p, item_next = n\<rparr>"

definition ex_family :: kstate where
  "ex_family = ex_state\<lparr>ks_procs := (\<lambda>_. None)(300 \<mapsto> zero_proc, 900 \<mapsto> zero_proc\<lparr>pr_mmu_table := 4096\<rparr>),
     ks_threads := (\<lambda>_. None)(1500 \<mapsto> ex_thread 0, 2000 \<mapsto> ex_thread 0, 3000 \<mapsto> ex_thread 0),
     ks_lh := \<lparr>lh_items = (\<lambda>_. None)(520 \<mapsto> ex_link 300 1120 1120, 1120 \<mapsto> ex_link 900 520 520,
         2156 \<mapsto> ex_link 2000 3156 3156, 3156 \<mapsto> ex_link 3000 2156 2156,
         1668 \<mapsto> ex_link 1500 3168 2168, 2168 \<mapsto> ex_link 2000 1668 3168, 3168 \<mapsto> ex_link 3000 2168 1668),
       lh_lists = (\<lambda>_. None)(16 \<mapsto> \<lparr>ll_list = 520, ll_lock = 0\<rparr>, 1024 \<mapsto> \<lparr>ll_list = 2156, ll_lock = 0\<rparr>,
         64 \<mapsto> \<lparr>ll_list = 1668, ll_lock = 0\<rparr>)\<rparr>\<rparr>"

lemma ex_family_destroyable: "destroyable ex_family 900 [520] [] 2000 [3000] [1500] [3000]"
  by (simp add: destroyable_def ring_def list_head_def lock_word_def cyc_def nx_def pv_def dat_def cpu_list_def ex_link_def
      ex_family_def ex_state_def)

theorem proc_destroy_first_thread_witness:
  "\<exists>s'. proc_destroy (\<lambda>_. (0, 0)) 900 ex_family = Some (0, s') \<and> ks_procs s' 900 = None \<and>
     ks_threads s' 2000 = None \<and> ks_threads s' 3000 \<noteq> None \<and> ring (ks_lh s') 64 [1668, 3168] \<and> ks_freed s' = [4096]"
proof -
  have "ks_procs ex_family 900 = Some (zero_proc\<lparr>pr_mmu_table := 4096\<rparr>)" by (simp add: ex_family_def)
  from proc_destroy_first_thread [OF ex_family_destroyable this, of "\<lambda>_. (0, 0)"] show ?thesis
    by (auto simp: cpu_list_def ex_family_def ex_state_def zero_proc_def)
qed

section \<open>Open files and children\<close>

lemma first_slot_Some:
  "first_slot P xs = Some i \<longleftrightarrow> i < length xs \<and> P (xs ! i) \<and> (\<forall>j < i. \<not> P (xs ! j))"
proof (induction xs arbitrary: i)
  case (Cons x xs)
  then show ?case by (cases i) (auto simp: nth_Cons All_less_Suc2 split: nat.splits)
qed simp

lemma first_slot_None: "first_slot P xs = None \<longleftrightarrow> (\<forall>x \<in> set xs. \<not> P x)"
  by (induction xs) auto

end
