(* ===== verification/Procfs.thy ===== *)
theory Procfs
  imports Initrd Proc_Life
begin

text \<open>
  The file operations of the current process, \<open>kernel/src/fs/procfs.c\<close>: descriptors are indices of
  the process's table of open files. The state joins that of the processes and that of the file
  system; \<open>kmalloc\<close> and \<open>kfree\<close> of handles are the allocator of the process state and the handle
  store of the file system.

  A descriptor outside of the table makes the code read outside of the array, and \<open>memset\<close> of a
  handle that could not be allocated fails its address check: both are \<open>None\<close>.
\<close>

record sys =
  sys_k :: kstate
  sys_fs :: fs_state

abbreviation (input) SYSCALL_ACCESS_FLAG_CWDOVER :: u32 where "SYSCALL_ACCESS_FLAG_CWDOVER \<equiv> 1"

text \<open>\<open>thread->process\<close>, and its \<open>open_files[desc]\<close>.\<close>

definition process_of :: "addr \<Rightarrow> sys \<Rightarrow> (addr \<times> kproc) option" where
  "process_of thread s = do {
     T \<leftarrow> ks_threads (sys_k s) thread;
     P \<leftarrow> ks_procs (sys_k s) (th_process T);
     Some (th_process T, P)
   }"

definition open_file :: "int \<Rightarrow> kproc \<Rightarrow> addr option" where
  "open_file desc P = (if 0 \<le> desc \<and> nat desc < length (pr_open_files P) then Some (pr_open_files P ! nat desc) else None)"

definition proc_fs_read :: "vfs_ops \<Rightarrow> int \<Rightarrow> u32 \<Rightarrow> u32 \<Rightarrow> sys \<Rightarrow> (u32 \<times> u8 list \<times> sys) option" where
  "proc_fs_read V desc off sz s =
     (if int MAX_OPEN_FILES < desc then Some (0, [], s)
      else do {
        thread \<leftarrow> mtask_get_curr_thread (sys_k s);
        if thread = NULL then Some (0, [], s)
        else do {
          (p, P) \<leftarrow> process_of thread s;
          hand \<leftarrow> open_file desc P;
          if hand \<noteq> NULL then do {
            (n, data, w) \<leftarrow> fs_read V hand off sz (sys_fs s);
            Some (of_int n, data, s\<lparr>sys_fs := w\<rparr>)
          }
          else Some (0, [], s)
        }
      })"

text \<open>
  The loop of \<open>proc_fs_read_blk\<close> on a stream. \<open>env i\<close> is what the rest of the system does in the
  \<open>i\<close>-th \<open>run_sched\<close>; the loop does not end if nothing is ever written to the stream.
\<close>

partial_function (option) read_blk_loop ::
    "vfs_ops \<Rightarrow> (nat \<Rightarrow> sys \<Rightarrow> sys) \<Rightarrow> nat \<Rightarrow> addr \<Rightarrow> u32 \<Rightarrow> u32 \<Rightarrow> u32 \<Rightarrow> u8 list \<Rightarrow> sys \<Rightarrow> (u32 \<times> u8 list \<times> sys) option" where
  "read_blk_loop V env i file off sz count got s =
     (if count < sz then
        Option.bind (fs_read V file off (sz - count) (sys_fs s)) (\<lambda>(r, data, w).
          let s = s\<lparr>sys_fs := w\<rparr>; ret = (of_int r :: u32) in
          if 0x80000000 < ret then Some (count, got, s)
          else read_blk_loop V env (Suc i) file off sz (count + ret) (got @ data) (env i s))
      else Some (count, got, s))"

declare read_blk_loop.simps [code]

definition proc_fs_read_blk ::
    "vfs_ops \<Rightarrow> (nat \<Rightarrow> sys \<Rightarrow> sys) \<Rightarrow> int \<Rightarrow> u32 \<Rightarrow> u32 \<Rightarrow> sys \<Rightarrow> (u32 \<times> u8 list \<times> sys) option" where
  "proc_fs_read_blk V env desc off sz s =
     (if int MAX_OPEN_FILES < desc then Some (0, [], s)
      else do {
        thread \<leftarrow> mtask_get_curr_thread (sys_k s);
        if thread = NULL then Some (0, [], s)
        else do {
          (p, P) \<leftarrow> process_of thread s;
          file \<leftarrow> open_file desc P;
          if file \<noteq> NULL then do {
            H \<leftarrow> fs_hands (sys_fs s) file;
            stream \<leftarrow> (if kh_file H = NULL then Some False
                       else do { F \<leftarrow> fs_files (sys_fs s) (kh_file H); Some (kf_flags F AND FS_STREAM \<noteq> 0) });
            if stream \<and> kh_open_flags H AND OFLAGS_NONBLOCK = 0
            then read_blk_loop V env 0 file off sz 0 [] s
            else do {
              let off = pr_file_position P ! nat desc;
              (n, data, w) \<leftarrow> fs_read V file off sz (sys_fs s);
              let P = P\<lparr>pr_file_position := (pr_file_position P)[nat desc := off + of_int n]\<rparr>;
              Some (of_int n, data, s\<lparr>sys_fs := w, sys_k := (sys_k s)\<lparr>ks_procs := (ks_procs (sys_k s))(p \<mapsto> P)\<rparr>\<rparr>)
            }
          }
          else Some (0, [], s)
        }
      })"

definition proc_fs_write :: "vfs_ops \<Rightarrow> int \<Rightarrow> u32 \<Rightarrow> u32 \<Rightarrow> (nat \<Rightarrow> u8) \<Rightarrow> sys \<Rightarrow> (u32 \<times> sys) option" where
  "proc_fs_write V desc off sz buff s =
     (if int MAX_OPEN_FILES < desc then Some (0, s)
      else do {
        thread \<leftarrow> mtask_get_curr_thread (sys_k s);
        if thread = NULL then Some (of_int (- EUNSPEC), s)
        else do {
          (p, P) \<leftarrow> process_of thread s;
          hand \<leftarrow> open_file desc P;
          if hand \<noteq> NULL then do {
            (n, w) \<leftarrow> fs_write V hand off sz buff (sys_fs s);
            Some (of_int n, s\<lparr>sys_fs := w\<rparr>)
          }
          else Some (0, s)
        }
      })"

definition open_check_flags :: "kfile \<Rightarrow> u32 \<Rightarrow> int" where
  "open_check_flags F flags =
     (if flags AND OFLAGS_DIRECTORY \<noteq> 0 \<and> kf_flags F AND FS_DIR = 0 then - ENOTDIR else 0)"

text \<open>\<open>kfree\<close> of a handle.\<close>

definition free_hand :: "addr \<Rightarrow> sys \<Rightarrow> sys" where
  "free_hand hand s = s\<lparr>sys_fs := (sys_fs s)\<lparr>fs_hands := (fs_hands (sys_fs s))(hand := None)\<rparr>\<rparr>"

definition proc_fs_open :: "vfs_ops \<Rightarrow> string \<Rightarrow> u32 \<Rightarrow> sys \<Rightarrow> (int \<times> sys) option" where
  "proc_fs_open V name flags s = do {
     thread \<leftarrow> mtask_get_curr_thread (sys_k s);
     if thread = NULL then Some (- EUNSPEC, s)
     else do {
       (p, P) \<leftarrow> process_of thread s;
       if pr_cwd P = NULL then Some (- EUNSPEC, s)
       else do {
         file \<leftarrow> fs_find_file (sys_fs s) (pr_cwd P) name;
         if file = NULL then Some (- ENOENT, s)
         else do {
           F \<leftarrow> fs_files (sys_fs s) file;
           let e = open_check_flags F flags;
           if e < 0 then Some (e, s)
           else do {
             let (hand, k) = kmalloc_next (sys_k s);
             let s = s\<lparr>sys_k := k\<rparr>;
             if hand = NULL then None
             else do {
               let w = (sys_fs s)\<lparr>fs_hands := (fs_hands (sys_fs s))(hand \<mapsto> hand_zero\<lparr>kh_open_flags := flags\<rparr>)\<rparr>;
               (r, w) \<leftarrow> fs_open V file hand w;
               let s = s\<lparr>sys_fs := w\<rparr>;
               if r \<noteq> 0 then Some (- EUNSPEC, free_hand hand s)
               else do {
                 (ret, k) \<leftarrow> proc_add_file p hand (sys_k s);
                 let s = s\<lparr>sys_k := k\<rparr>;
                 if 0 < ret then do {
                   H \<leftarrow> fs_hands (sys_fs s) hand;
                   if kh_open_flags H AND OFLAGS_OPEN = 0 then None else Some (ret, s)
                 }
                 else Some (- ENFILE, free_hand hand s)
               }
             }
           }
         }
       }
     }
   }"

definition proc_fs_close :: "vfs_ops \<Rightarrow> int \<Rightarrow> sys \<Rightarrow> (int \<times> sys) option" where
  "proc_fs_close V desc s =
     (if int MAX_OPEN_FILES < desc then Some (- EBADF, s)
      else do {
        thread \<leftarrow> mtask_get_curr_thread (sys_k s);
        if thread = NULL then Some (- EUNSPEC, s)
        else do {
          (p, P) \<leftarrow> process_of thread s;
          hand \<leftarrow> open_file desc P;
          if hand \<noteq> NULL then do {
            (_, w) \<leftarrow> fs_close V hand (sys_fs s);
            let s = free_hand hand (s\<lparr>sys_fs := w\<rparr>);
            let P = P\<lparr>pr_open_files := (pr_open_files P)[nat desc := NULL]\<rparr>;
            Some (0, s\<lparr>sys_k := (sys_k s)\<lparr>ks_procs := (ks_procs (sys_k s))(p \<mapsto> P)\<rparr>\<rparr>)
          }
          else Some (- EBADF, s)
        }
      })"

text \<open>What \<open>proc_fs_mkdir\<close>, \<open>proc_fs_create\<close> and \<open>proc_fs_ioctl\<close> do with the handle of a descriptor.\<close>

definition with_desc :: "int \<Rightarrow> (addr \<Rightarrow> fs_state \<Rightarrow> (int \<times> fs_state) option) \<Rightarrow> sys \<Rightarrow> (int \<times> sys) option" where
  "with_desc desc g s =
     (if int MAX_OPEN_FILES < desc then Some (- EBADF, s)
      else do {
        thread \<leftarrow> mtask_get_curr_thread (sys_k s);
        if thread = NULL then Some (- EUNSPEC, s)
        else do {
          (p, P) \<leftarrow> process_of thread s;
          hand \<leftarrow> open_file desc P;
          if hand \<noteq> NULL then do { (r, w) \<leftarrow> g hand (sys_fs s); Some (r, s\<lparr>sys_fs := w\<rparr>) }
          else Some (- EBADF, s)
        }
      })"

definition proc_fs_mkdir :: "vfs_ops \<Rightarrow> int \<Rightarrow> string \<Rightarrow> u32 \<Rightarrow> sys \<Rightarrow> (int \<times> sys) option" where
  "proc_fs_mkdir V desc name perms =
     with_desc desc (\<lambda>hand w. do { H \<leftarrow> fs_hands w hand; fs_mkdir V (kh_file H) name perms w })"

definition proc_fs_create :: "vfs_ops \<Rightarrow> int \<Rightarrow> string \<Rightarrow> u32 \<Rightarrow> sys \<Rightarrow> (int \<times> sys) option" where
  "proc_fs_create V desc name perms =
     with_desc desc (\<lambda>hand w. do { H \<leftarrow> fs_hands w hand; fs_create V (kh_file H) name perms w })"

definition proc_fs_ioctl :: "vfs_ops \<Rightarrow> int \<Rightarrow> int \<Rightarrow> addr \<Rightarrow> sys \<Rightarrow> (int \<times> sys) option" where
  "proc_fs_ioctl V desc req args = with_desc desc (\<lambda>hand w. fs_ioctl V hand req args w)"

record dirinfo =
  di_ino :: u32
  di_n_children :: u32
  di_parent_ino :: u32
  di_name :: string

text \<open>\<open>has_dinfo\<close>: the pointer given is not \<open>NULL\<close>. What is stored there, if anything.\<close>

definition proc_fs_getdirinfo :: "int \<Rightarrow> bool \<Rightarrow> sys \<Rightarrow> (int \<times> dirinfo option) option" where
  "proc_fs_getdirinfo desc has_dinfo s =
     (if int MAX_OPEN_FILES < desc then Some (- EBADF, None)
      else if \<not> has_dinfo then Some (- EINVAL, None)
      else do {
        thread \<leftarrow> mtask_get_curr_thread (sys_k s);
        if thread = NULL then Some (- EUNSPEC, None)
        else do {
          (p, P) \<leftarrow> process_of thread s;
          hand \<leftarrow> open_file desc P;
          H \<leftarrow> (if hand = NULL then None else fs_hands (sys_fs s) hand);
          if kh_file H = NULL then Some (0, None)
          else do {
            F \<leftarrow> fs_files (sys_fs s) (kh_file H);
            pino \<leftarrow> (if kf_parent F \<noteq> NULL then do { D \<leftarrow> fs_files (sys_fs s) (kf_parent F); Some (kf_inode D) } else Some 0);
            n \<leftarrow> llist_count (fs_lists (sys_fs s)) (kh_file H);
            Some (0, Some \<lparr>di_ino = kf_inode F, di_n_children = of_int n, di_parent_ino = pino, di_name = kf_name F\<rparr>)
          }
        }
      })"

text \<open>The inode and name stored, if any; \<open>sizeof(struct user_dirent)\<close> is 4.\<close>

definition proc_fs_readdir :: "int \<Rightarrow> u32 \<Rightarrow> bool \<Rightarrow> u32 \<Rightarrow> sys \<Rightarrow> (int \<times> (u32 \<times> string) option) option" where
  "proc_fs_readdir desc idx has_buff buff_size s =
     (if int MAX_OPEN_FILES < desc then Some (- EBADF, None)
      else if \<not> has_buff then Some (- EINVAL, None)
      else if buff_size = 0 then Some (- EINVAL, None)
      else do {
        thread \<leftarrow> mtask_get_curr_thread (sys_k s);
        if thread = NULL then Some (- EUNSPEC, None)
        else do {
          (p, P) \<leftarrow> process_of thread s;
          hand \<leftarrow> open_file desc P;
          H \<leftarrow> (if hand = NULL then None else fs_hands (sys_fs s) hand);
          if kh_file H = NULL then Some (- EBADF, None)
          else do {
            F \<leftarrow> fs_files (sys_fs s) (kh_file H);
            r \<leftarrow> (if idx = 0 then Some (Some (kf_inode F, ''.''))
                 else if idx = 1 then do {
                   D \<leftarrow> (if kf_parent F \<noteq> NULL then fs_files (sys_fs s) (kf_parent F) else Some F);
                   Some (Some (kf_inode D, ''..''))
                 }
                 else do {
                   child \<leftarrow> llist_get (fs_lists (sys_fs s)) (kh_file H) (unat (idx - 2));
                   if child = NULL then Some None
                   else do {
                     it \<leftarrow> lh_items (fs_lists (sys_fs s)) child;
                     C \<leftarrow> fs_files (sys_fs s) (item_data it);
                     Some (Some (kf_inode C, kf_name C))
                   }
                 });
            Some (case r of None \<Rightarrow> (- EUNSPEC, None) | Some e \<Rightarrow> (4 + int (length (snd e)) + 1, Some e))
          }
        }
      })"

text \<open>\<open>pm\<close>: the page map of the address check; \<open>path_at\<close> and \<open>buf_at\<close> are the two pointers.\<close>

definition proc_fs_stat :: "page_map \<Rightarrow> addr \<Rightarrow> addr \<Rightarrow> string \<Rightarrow> kstat option \<Rightarrow> sys \<Rightarrow> (int \<times> kstat option) option" where
  "proc_fs_stat pm path_at buf_at path buf s =
     (if mm_check_addr pm path_at = 0 \<or> mm_check_addr pm buf_at = 0 then Some (- EINVAL, buf)
      else do {
        thread \<leftarrow> mtask_get_curr_thread (sys_k s);
        if thread = NULL then Some (- EUNSPEC, buf)
        else do {
          (p, P) \<leftarrow> process_of thread s;
          if pr_cwd P = NULL then Some (- EUNSPEC, buf)
          else do {
            file \<leftarrow> fs_find_file (sys_fs s) (pr_cwd P) path;
            if file = NULL then Some (- ENOENT, buf) else kfstat (sys_fs s) file buf
          }
        }
      })"

definition proc_fs_access :: "int \<Rightarrow> string \<Rightarrow> u32 \<Rightarrow> sys \<Rightarrow> int option" where
  "proc_fs_access dirfd pathname flags s = do {
     thread \<leftarrow> mtask_get_curr_thread (sys_k s);
     (p, P) \<leftarrow> (if thread = NULL then None else process_of thread s);
     let over = (flags AND SYSCALL_ACCESS_FLAG_CWDOVER \<noteq> 0);
     if over \<and> (dirfd < 0 \<or> int MAX_OPEN_FILES \<le> dirfd) then Some (- EBADF)
     else do {
       hand \<leftarrow> (if over then open_file dirfd P else Some NULL);
       if over \<and> hand = NULL then Some (- EBADF)
       else do {
         dir \<leftarrow> (if over then do { H \<leftarrow> fs_hands (sys_fs s) hand; Some (kh_file H) } else Some (pr_cwd P));
         file \<leftarrow> fs_find_file (sys_fs s) dir pathname;
         Some (if file = NULL then - ENOENT else 0)
       }
     }
   }"

section \<open>Descriptors\<close>

text \<open>\<open>p\<close> is the current process, with the record \<open>P\<close>.\<close>

definition current :: "sys \<Rightarrow> addr \<Rightarrow> kproc \<Rightarrow> bool" where
  "current s p P \<longleftrightarrow> (\<exists>thread T. mtask_get_curr_thread (sys_k s) = Some thread \<and> thread \<noteq> NULL \<and>
     ks_threads (sys_k s) thread = Some T \<and> th_process T = p \<and> ks_procs (sys_k s) p = Some P) \<and>
     length (pr_open_files P) = MAX_OPEN_FILES \<and> length (pr_file_position P) = MAX_OPEN_FILES"

lemma currentE:
  assumes "current s p P"
  obtains thread where "mtask_get_curr_thread (sys_k s) = Some thread" "thread \<noteq> NULL" "process_of thread s = Some (p, P)"
    "ks_procs (sys_k s) p = Some P" "length (pr_open_files P) = 8" "length (pr_file_position P) = 8"
  using assms that by (auto simp: current_def process_of_def)

lemma curr_thread_upd: "mtask_get_curr_thread (k\<lparr>ks_procs := ps\<rparr>) = mtask_get_curr_thread k"
    "mtask_get_curr_thread (k\<lparr>ks_new := as\<rparr>) = mtask_get_curr_thread k"
  by (simp_all add: mtask_get_curr_thread_def sched_get_curr_thread_def cong: option.case_cong)

lemma current_upd:
  assumes "current s p P" "length (pr_open_files P') = MAX_OPEN_FILES" "length (pr_file_position P') = MAX_OPEN_FILES"
    "sys_k s' = (sys_k s)\<lparr>ks_procs := (ks_procs (sys_k s))(p \<mapsto> P')\<rparr> \<or>
     sys_k s' = (sys_k s)\<lparr>ks_new := as, ks_procs := (ks_procs (sys_k s))(p \<mapsto> P')\<rparr>"
  shows "current s' p P'"
  using assms by (auto simp: current_def curr_thread_upd)

section \<open>Reading a file in pieces\<close>

fun read_seq :: "vfs_ops \<Rightarrow> (nat \<Rightarrow> sys \<Rightarrow> sys) \<Rightarrow> int \<Rightarrow> u32 list \<Rightarrow> sys \<Rightarrow> (u8 list \<times> sys) option" where
  "read_seq V env desc [] s = Some ([], s)"
| "read_seq V env desc (sz # szs) s = do {
     (n, data, s) \<leftarrow> proc_fs_read_blk V env desc 0 sz s;
     (rest, s) \<leftarrow> read_seq V env desc szs s;
     Some (data @ rest, s)
   }"

text \<open>A descriptor of a file of the ramdisk.\<close>

definition ramdisk_desc :: "vfs_ops \<Rightarrow> kproc \<Rightarrow> int \<Rightarrow> fs_state \<Rightarrow> kfile \<Rightarrow> bool" where
  "ramdisk_desc V P desc w F \<longleftrightarrow> 0 \<le> desc \<and> nat desc < MAX_OPEN_FILES \<and> (\<exists>hand H.
     pr_open_files P ! nat desc = hand \<and> hand \<noteq> NULL \<and> fs_hands w hand = Some H \<and> kh_ops H \<noteq> NULL \<and>
     vh_read V (kh_ops H) = Some initrd_read \<and> kh_file H \<noteq> NULL \<and> fs_files w (kh_file H) = Some F \<and>
     kf_flags F AND FS_STREAM = 0 \<and> kf_info F \<noteq> NULL)"

lemma read_blk_piece:
  assumes c: "current s p P" and r: "ramdisk_desc V P desc (sys_fs s) F"
    and b: "unat (pr_file_position P ! nat desc) + unat sz < 2 ^ 32"
  defines "data \<equiv> take (unat sz) (drop (unat (pr_file_position P ! nat desc)) (file_bytes (sys_fs s) F))"
  shows "\<exists>s'. proc_fs_read_blk V env desc off sz s = Some (of_nat (length data), data, s') \<and> sys_fs s' = sys_fs s \<and>
    current s' p (P\<lparr>pr_file_position := (pr_file_position P)[nat desc := pr_file_position P ! nat desc + of_nat (length data)]\<rparr>)"
proof -
  obtain thread where t: "mtask_get_curr_thread (sys_k s) = Some thread" "thread \<noteq> NULL" "process_of thread s = Some (p, P)"
    "length (pr_open_files P) = 8" "length (pr_file_position P) = 8" by (rule currentE [OF c])
  obtain hand H where h: "0 \<le> desc" "nat desc < 8" "pr_open_files P ! nat desc = hand" "hand \<noteq> NULL" "fs_hands (sys_fs s) hand = Some H"
    "kh_ops H \<noteq> NULL" "vh_read V (kh_ops H) = Some initrd_read" "kh_file H \<noteq> NULL" "fs_files (sys_fs s) (kh_file H) = Some F"
    "kf_flags F AND FS_STREAM = 0" "kf_info F \<noteq> NULL"
    using r by (auto simp: ramdisk_desc_def)
  have rd: "fs_read V hand (pr_file_position P ! nat desc) sz (sys_fs s) = Some (sint (of_nat (length data) :: u32), data, sys_fs s)"
    using h initrd_read_take [OF h(5,8,9,11) b] by (simp add: fs_read_def data_def Let_def)
  let ?P = "P\<lparr>pr_file_position := (pr_file_position P)[nat desc := pr_file_position P ! nat desc + of_nat (length data)]\<rparr>"
  let ?s = "s\<lparr>sys_fs := sys_fs s, sys_k := (sys_k s)\<lparr>ks_procs := (ks_procs (sys_k s))(p \<mapsto> ?P)\<rparr>\<rparr>"
  have "proc_fs_read_blk V env desc off sz s = Some (of_nat (length data), data, ?s)"
    using t h rd by (simp add: proc_fs_read_blk_def open_file_def nat_less_iff)
  moreover have "current ?s p ?P" by (rule current_upd [OF c]) (use t in auto)
  ultimately show ?thesis by auto
qed

lemma take_pieces: "take n xs @ take m (drop (length (take n xs)) xs) = take (n + m) xs"
  by (cases "n \<le> length xs") (simp_all add: take_add)

text \<open>
  No read of the sequence wraps around: the position it starts at and its size add up to less than \<open>2 ^ 32\<close>. Each
  read moves the position by what is left of the file, of \<open>len\<close> bytes, at most.
\<close>

fun reads_fit :: "nat \<Rightarrow> nat \<Rightarrow> u32 list \<Rightarrow> bool" where
  "reads_fit pos len [] = True"
| "reads_fit pos len (sz # szs) = (pos + unat sz < 2 ^ 32 \<and> reads_fit (pos + min (len - pos) (unat sz)) len szs)"

text \<open>
  C26 (reading a file in pieces). A sequence of reads through a descriptor of a file of the ramdisk, none of which
  wraps around (its position and size add up to less than \<open>2 ^ 32\<close>), returns together the bytes of the file from
  the descriptor's position on, as many as were asked for or are left, and leaves the position behind them. (A read that
  wraps around may return bytes behind the file.)
\<close>

theorem proc_fs_read_pieces:
  assumes "current s p P" "ramdisk_desc V P desc (sys_fs s) F"
    and "reads_fit (unat (pr_file_position P ! nat desc)) (length (file_bytes (sys_fs s) F)) szs"
  shows "let data = take (sum_list (map unat szs)) (drop (unat (pr_file_position P ! nat desc)) (file_bytes (sys_fs s) F)) in
    \<exists>s' P'. read_seq V env desc szs s = Some (data, s') \<and> sys_fs s' = sys_fs s \<and> current s' p P' \<and>
      pr_open_files P' = pr_open_files P \<and>
      unat (pr_file_position P' ! nat desc) = unat (pr_file_position P ! nat desc) + length data"
  using assms
proof (induction szs arbitrary: s P)
  case Nil
  then show ?case by auto
next
  case (Cons sz szs)
  let ?pos = "pr_file_position P ! nat desc" and ?bs = "file_bytes (sys_fs s) F"
  let ?d = "take (unat sz) (drop (unat ?pos) ?bs)"
  let ?P = "P\<lparr>pr_file_position := (pr_file_position P)[nat desc := ?pos + of_nat (length ?d)]\<rparr>"
  have b: "unat ?pos + unat sz < 2 ^ 32" "length ?d \<le> unat sz" using Cons.prems(3) by simp_all
  have desc: "nat desc < length (pr_file_position P)" using Cons.prems(1,2) by (simp add: current_def ramdisk_desc_def)
  obtain s1 where s1: "proc_fs_read_blk V env desc 0 sz s = Some (of_nat (length ?d), ?d, s1)" "sys_fs s1 = sys_fs s" "current s1 p ?P"
    using read_blk_piece [OF Cons.prems(1,2) b(1), of env 0] by blast
  have n: "unat (of_nat (length ?d) :: u32) = length ?d" using b by (intro unat_of_nat_u32) simp
  have "unat ?pos + unat (of_nat (length ?d) :: u32) < 4294967296" using b unfolding n by simp
  from unat_add_u32_lt [OF this] have pos: "unat (pr_file_position ?P ! nat desc) = unat ?pos + length ?d"
    unfolding n using desc by simp
  have r1: "ramdisk_desc V ?P desc (sys_fs s1) F" using Cons.prems(2) s1(2) by (simp add: ramdisk_desc_def)
  have small: "reads_fit (unat (pr_file_position ?P ! nat desc)) (length (file_bytes (sys_fs s1) F)) szs"
    unfolding pos s1(2) using Cons.prems(3) by simp
  have files: "pr_open_files ?P = pr_open_files P" by simp
  from Cons.IH [OF s1(3) r1 small, unfolded Let_def s1(2) pos files] obtain s2 P2 where s2:
    "read_seq V env desc szs s1 = Some (take (sum_list (map unat szs)) (drop (unat ?pos + length ?d) ?bs), s2)"
    "sys_fs s2 = sys_fs s" "current s2 p P2" "pr_open_files P2 = pr_open_files P"
    "unat (pr_file_position P2 ! nat desc) =
      unat ?pos + length ?d + length (take (sum_list (map unat szs)) (drop (unat ?pos + length ?d) ?bs))"
    by blast
  have cat: "?d @ take (sum_list (map unat szs)) (drop (unat ?pos + length ?d) ?bs) =
      take (sum_list (map unat (sz # szs))) (drop (unat ?pos) ?bs)"
    using take_pieces [of "unat sz" "drop (unat ?pos) ?bs" "sum_list (map unat szs)"]
    unfolding list.map sum_list.Cons drop_drop by (simp only: add.commute)
  show ?case
  proof -
    have "read_seq V env desc (sz # szs) s = Some (?d @ take (sum_list (map unat szs)) (drop (unat ?pos + length ?d) ?bs), s2)"
      using s1(1) s2(1) by simp
    then show ?thesis unfolding Let_def cat [symmetric] length_append add.assoc [symmetric] using s2(2-5) by blast
  qed
qed

definition ex_proc :: "addr list \<Rightarrow> kproc" where
  "ex_proc fs = zero_proc\<lparr>pr_cwd := 1, pr_open_files := fs\<rparr>"

definition ex_sys :: "addr list \<Rightarrow> fs_state \<Rightarrow> sys" where
  "ex_sys fs w = \<lparr>sys_k = ex_state\<lparr>ks_procs := [500 \<mapsto> ex_proc fs], ks_new := [77]\<rparr>, sys_fs = w\<rparr>"

lemma ex_sys_current: "length fs = MAX_OPEN_FILES \<Longrightarrow> current (ex_sys fs w) 500 (ex_proc fs)"
  by (simp add: current_def ex_sys_def ex_proc_def mtask_get_curr_thread_def sched_get_curr_thread_def ex_state_def ex_thread_def zero_proc_def)

definition ex_ramdisk :: fs_state where
  "ex_ramdisk = ex_file_open\<lparr>fs_hands := [9 \<mapsto> hand_zero\<lparr>kh_file := 5, kh_ops := initrd_hand_ops\<rparr>]\<rparr>"

theorem proc_fs_read_pieces_witness:
  "\<exists>s'. read_seq initrd_ops (\<lambda>_ w. w) 2 [1, 0, 8] (ex_sys [0, 0, 9, 0, 0, 0, 0, 0] ex_ramdisk) = Some ([100, 101, 102], s')"
proof -
  let ?fs = "[0, 0, 9, 0, 0, 0, 0, 0] :: addr list" and ?F = "kfile_zero\<lparr>kf_info := 100, kf_length := 3\<rparr>"
  have c: "current (ex_sys ?fs ex_ramdisk) 500 (ex_proc ?fs)" by (rule ex_sys_current) simp
  have r: "ramdisk_desc initrd_ops (ex_proc ?fs) 2 (sys_fs (ex_sys ?fs ex_ramdisk)) ?F"
    by (simp add: ramdisk_desc_def ex_proc_def ex_sys_def ex_ramdisk_def ex_file_open_def initrd_ops_def initrd_hand_ops_def kfile_zero_def)
  have b: "file_bytes ex_ramdisk ?F = [100, 101, 102]"
    by (simp add: file_bytes_def ex_ramdisk_def ex_file_open_def upt_rec)
  have "unat (pr_file_position (ex_proc ?fs) ! nat 2) = 0" by (simp add: ex_proc_def zero_proc_def)
  with proc_fs_read_pieces [OF c r, of "[1, 0, 8]" "\<lambda>_ w. w"] b show ?thesis by (auto simp: Let_def ex_sys_def)
qed

text \<open>
  C27 (opening a file). \<open>proc_fs_open\<close> of a file that is found and opens takes the lowest free
  descriptor. If that is not 0 it is returned, refers to the new handle and starts at position 0. If
  it is 0, the call fails with \<open>ENFILE\<close> and frees the handle, and descriptor 0 refers to the freed handle.
\<close>

theorem proc_fs_open_lowest:
  assumes c: "current s p P" and cwd: "pr_cwd P \<noteq> NULL" and f: "fs_find_file (sys_fs s) (pr_cwd P) name = Some f" "f \<noteq> NULL"
    and F: "fs_files (sys_fs s) f = Some F" "open_check_flags F flags = 0"
    and new: "ks_new (sys_k s) = hand # as" "hand \<noteq> NULL"
    and op: "fs_open V f hand ((sys_fs s)\<lparr>fs_hands := (fs_hands (sys_fs s))(hand \<mapsto> hand_zero\<lparr>kh_open_flags := flags\<rparr>)\<rparr>) = Some (0, w)"
    and H: "fs_hands w hand = Some H" "kh_open_flags H AND OFLAGS_OPEN \<noteq> 0"
    and slot: "i < MAX_OPEN_FILES" "pr_open_files P ! i = NULL" "\<And>j. j < i \<Longrightarrow> pr_open_files P ! j \<noteq> NULL"
  shows "\<exists>s'. proc_fs_open V name flags s = Some (if i = 0 then - ENFILE else int i, s') \<and>
    current s' p (P\<lparr>pr_open_files := (pr_open_files P)[i := hand], pr_file_position := (pr_file_position P)[i := 0]\<rparr>) \<and>
    fs_hands (sys_fs s') hand = (if i = 0 then None else Some H)"
proof -
  obtain thread where t: "mtask_get_curr_thread (sys_k s) = Some thread" "thread \<noteq> NULL" "process_of thread s = Some (p, P)"
    "ks_procs (sys_k s) p = Some P" "length (pr_open_files P) = 8" "length (pr_file_position P) = 8" by (rule currentE [OF c])
  have i: "first_slot (\<lambda>f. f = NULL) (pr_open_files P) = Some i"
    unfolding first_slot_Some using slot t(5) by simp
  let ?P = "P\<lparr>pr_open_files := (pr_open_files P)[i := hand], pr_file_position := (pr_file_position P)[i := 0]\<rparr>"
  let ?k = "(sys_k s)\<lparr>ks_new := as, ks_procs := (ks_procs (sys_k s))(p \<mapsto> ?P)\<rparr>"
  let ?s = "s\<lparr>sys_fs := w, sys_k := ?k\<rparr>"
  have "proc_fs_open V name flags s = Some (if i = 0 then - ENFILE else int i, if i = 0 then free_hand hand ?s else ?s)"
    using t cwd f F new op H i by (simp add: proc_fs_open_def kmalloc_next_def proc_add_file_def)
  moreover have "current ?s p ?P" "current (free_hand hand ?s) p ?P"
    by (rule current_upd [OF c, where as = as]; use t in \<open>simp add: free_hand_def\<close>)+
  moreover have "fs_hands (sys_fs (free_hand hand ?s)) hand = None" by (simp add: free_hand_def)
  ultimately show ?thesis using H(1) by (cases "i = 0") auto
qed

lemma find_dot: "f \<noteq> NULL \<Longrightarrow> fs_find_file w f ''.'' = Some f"
  by (subst fs_find_file.simps) simp

theorem proc_fs_open_lowest_witness:
  "(\<exists>s'. proc_fs_open initrd_ops ''.'' OFLAGS_READ (ex_sys [9, 9, 0, 0, 0, 0, 0, 0] ex_fs) = Some (2, s')) \<and>
   (\<exists>s'. proc_fs_open initrd_ops ''.'' OFLAGS_READ (ex_sys [0, 9, 0, 0, 0, 0, 0, 0] ex_fs) = Some (- ENFILE, s'))"
proof -
  let ?w = "ex_fs\<lparr>fs_hands := [77 \<mapsto> hand_zero\<lparr>kh_open_flags := OFLAGS_READ\<rparr>]\<rparr>"
  let ?H = "hand_zero\<lparr>kh_open_flags := OFLAGS_READ OR OFLAGS_OPEN, kh_file := 1\<rparr>"
  have op: "fs_open initrd_ops 1 77 ?w = Some (0, ?w\<lparr>fs_hands := [77 \<mapsto> ?H]\<rparr>)"
    by (simp add: fs_open_def upd_hand_def ex_fs_def ex_file_def kfile_zero_def hand_zero_def)
  have run: "\<exists>s'. proc_fs_open initrd_ops ''.'' OFLAGS_READ (ex_sys fs ex_fs) = Some (if i = 0 then - ENFILE else int i, s')"
    if "length fs = MAX_OPEN_FILES" "i < MAX_OPEN_FILES" "fs ! i = NULL" "\<And>j. j < i \<Longrightarrow> fs ! j \<noteq> NULL" for fs i
  proof -
    have pre: "pr_cwd (ex_proc fs) \<noteq> NULL" "fs_find_file (sys_fs (ex_sys fs ex_fs)) (pr_cwd (ex_proc fs)) ''.'' = Some 1" "(1 :: nat) \<noteq> NULL"
      "fs_files (sys_fs (ex_sys fs ex_fs)) 1 = Some (ex_file [] 0)" "open_check_flags (ex_file [] 0) OFLAGS_READ = 0"
      "ks_new (sys_k (ex_sys fs ex_fs)) = 77 # []" "(77 :: nat) \<noteq> NULL"
      by (simp_all add: ex_proc_def ex_sys_def find_dot ex_fs_def open_check_flags_def)
    have op': "fs_open initrd_ops 1 77 ((sys_fs (ex_sys fs ex_fs))\<lparr>fs_hands := (fs_hands (sys_fs (ex_sys fs ex_fs)))(77 \<mapsto>
        hand_zero\<lparr>kh_open_flags := OFLAGS_READ\<rparr>)\<rparr>) = Some (0, ?w\<lparr>fs_hands := [77 \<mapsto> ?H]\<rparr>)"
      using op by (simp add: ex_sys_def ex_fs_def)
    have H: "fs_hands (?w\<lparr>fs_hands := [77 \<mapsto> ?H]\<rparr>) 77 = Some ?H" "kh_open_flags ?H AND OFLAGS_OPEN \<noteq> 0" by simp_all
    have slot: "pr_open_files (ex_proc fs) = fs" by (simp add: ex_proc_def)
    show ?thesis
      using proc_fs_open_lowest [OF ex_sys_current [OF that(1)] pre op' H, of i] that(2-4) unfolding slot by blast
  qed
  show ?thesis
  proof -
    have nz: "[9, 9, 0, 0, 0, 0, 0, 0] ! j \<noteq> NULL" if "j < 2" for j using that by (cases j) (auto simp: less_Suc_eq)
    from run [of "[9, 9, 0, 0, 0, 0, 0, 0]" 2, OF _ _ _ nz] run [of "[0, 9, 0, 0, 0, 0, 0, 0]" 0] show ?thesis by simp
  qed
qed

text \<open>
  A descriptor above \<open>MAX_OPEN_FILES\<close> is refused, but one that is
  negative or equal to \<open>MAX_OPEN_FILES\<close> makes reading, writing and closing access memory outside of
  the table; only \<open>proc_fs_access\<close> refuses it.
\<close>

theorem proc_fs_desc_range:
  assumes "current s p P" "desc < 0 \<or> int MAX_OPEN_FILES \<le> desc"
  shows "(if desc \<le> int MAX_OPEN_FILES
    then proc_fs_read V desc off sz s = None \<and> proc_fs_read_blk V env desc off sz s = None \<and>
      proc_fs_write V desc off sz buff s = None \<and> proc_fs_close V desc s = None
    else proc_fs_read V desc off sz s = Some (0, [], s) \<and> proc_fs_read_blk V env desc off sz s = Some (0, [], s) \<and>
      proc_fs_write V desc off sz buff s = Some (0, s) \<and> proc_fs_close V desc s = Some (- EBADF, s)) \<and>
    proc_fs_access desc name SYSCALL_ACCESS_FLAG_CWDOVER s = Some (- EBADF)"
proof -
  obtain thread where t: "mtask_get_curr_thread (sys_k s) = Some thread" "thread \<noteq> NULL" "process_of thread s = Some (p, P)"
    "length (pr_open_files P) = 8" by (rule currentE [OF assms(1)])
  have out: "open_file desc P = None" if "desc \<le> 8" using assms(2) that t(4) by (auto simp: open_file_def)
  have "proc_fs_access desc name SYSCALL_ACCESS_FLAG_CWDOVER s = Some (- EBADF)"
    using t assms(2) by (auto simp: proc_fs_access_def)
  then show ?thesis
    using t out by (simp add: proc_fs_read_def proc_fs_read_blk_def proc_fs_write_def proc_fs_close_def)
qed

theorem proc_fs_desc_range_witness:
  "proc_fs_close initrd_ops 8 (ex_sys [0, 0, 0, 0, 0, 0, 0, 0] ex_fs) = None \<and>
   proc_fs_close initrd_ops 9 (ex_sys [0, 0, 0, 0, 0, 0, 0, 0] ex_fs) = Some (- EBADF, ex_sys [0, 0, 0, 0, 0, 0, 0, 0] ex_fs)"
proof -
  have c: "current (ex_sys [0, 0, 0, 0, 0, 0, 0, 0] ex_fs) 500 (ex_proc [0, 0, 0, 0, 0, 0, 0, 0])" by (rule ex_sys_current) simp
  from proc_fs_desc_range [OF c, of 8] proc_fs_desc_range [OF c, of 9] show ?thesis by simp
qed

end
