(* ===== verification/Cmdline.thy ===== *)
theory Cmdline
  imports Kstdlib
begin

text \<open>
  The kernel command line of \<open>kernel/src/kern/cmdline.c\<close>, and the debug levels of
  \<open>kernel/src/err/error.c\<close> that it sets.

  The command line is a C string in memory, because the parser may read past its end; the options
  copied from it are texts. \<open>kmalloc\<close> is taken to succeed, as the code does not check it. A loop that
  never meets a byte to stop at is \<open>None\<close>, as is \<open>kpanic\<close>.
\<close>

abbreviation (input) SPACE :: u8 where "SPACE \<equiv> 32"
abbreviation (input) DEBUGSRC_MAX :: nat where "DEBUGSRC_MAX \<equiv> 7"
abbreviation (input) ERR_INFO :: u8 where "ERR_INFO \<equiv> 3"
abbreviation (input) ERR_NONE :: u8 where "ERR_NONE \<equiv> 255"
abbreviation (input) INITRD_MODULE_MAX_LEN :: nat where "INITRD_MODULE_MAX_LEN \<equiv> 64"
abbreviation (input) INITEXEC_PATH_MAX_LEN :: nat where "INITEXEC_PATH_MAX_LEN \<equiv> 128"

record boot_options =
  init_ramdisk_name :: string
  init_executable :: string
  output_serial :: int

record cmdline_state =
  cl_cmdline :: addr
  cl_vars :: "string list"
  cl_boot :: boot_options
  cl_err_level :: "u8 list"

definition boot_options_init :: boot_options where
  "boot_options_init = \<lparr>init_ramdisk_name = '''', init_executable = ''/bin/linit'', output_serial = 0\<rparr>"

section \<open>Debug levels\<close>

definition err_level_init :: "u8 list" where
  "err_level_init = replicate DEBUGSRC_MAX ERR_INFO"

definition kdebug_set_errlvl :: "u32 \<Rightarrow> u32 \<Rightarrow> u8 list \<Rightarrow> u8 list" where
  "kdebug_set_errlvl src lvl levels = (if of_nat DEBUGSRC_MAX \<le> src then levels else levels[unat src := ucast lvl])"

definition kdebug_get_errlvl :: "u32 \<Rightarrow> u8 list \<Rightarrow> u8" where
  "kdebug_get_errlvl src levels = (if of_nat DEBUGSRC_MAX \<le> src then ERR_NONE else levels ! unat src)"

text \<open>Whether \<open>kdebug\<close> prints a message: \<open>SAFETY_CHECK(x)\<close> is \<open>x\<close>, and nothing stops a source out of range but this test.\<close>

definition kdebug_prints :: "u32 \<Rightarrow> u32 \<Rightarrow> u8 list \<Rightarrow> bool" where
  "kdebug_prints src lvl levels = (\<not> (of_nat DEBUGSRC_MAX \<le> src \<or> lvl < ucast (levels ! unat src)))"

section \<open>Splitting the command line\<close>

definition cmdline_set :: "addr \<Rightarrow> cmdline_state \<Rightarrow> cmdline_state" where
  "cmdline_set a st = st\<lparr>cl_cmdline := a\<rparr>"

partial_function (option) skip_spaces :: "mem \<Rightarrow> addr \<Rightarrow> addr option" where
  "skip_spaces m p = (if m p = SPACE then skip_spaces m (Suc p) else Some p)"

declare skip_spaces.simps [code]

partial_function (option) count_options :: "mem \<Rightarrow> addr \<Rightarrow> nat \<Rightarrow> nat option" where
  "count_options m p count =
     (if m p = 0 then Some count
      else if m p = SPACE then Option.bind (skip_spaces m p) (\<lambda>q. count_options m (Suc q) (Suc count))
      else count_options m (Suc p) count)"

declare count_options.simps [code]

partial_function (option) word_end :: "mem \<Rightarrow> addr \<Rightarrow> addr option" where
  "word_end m p = (if m p \<noteq> 0 \<and> m p \<noteq> SPACE then word_end m (Suc p) else Some p)"

declare word_end.simps [code]

fun copy_options :: "mem \<Rightarrow> nat \<Rightarrow> addr \<Rightarrow> string list option" where
  "copy_options m 0 p = Some []"
| "copy_options m (Suc n) p = do {
     q \<leftarrow> word_end m p;
     let var = map (\<lambda>i. char_of (unat (m i))) [p..<q];
     p \<leftarrow> skip_spaces m (Suc q);
     rest \<leftarrow> copy_options m n p;
     Some (var # rest)
   }"

definition cmdline_init :: "mem \<Rightarrow> cmdline_state \<Rightarrow> cmdline_state option" where
  "cmdline_init m st = do {
     p \<leftarrow> skip_spaces m (cl_cmdline st);
     if m p = 0 then Some st
     else do {
       count \<leftarrow> count_options m p 1;
       vars \<leftarrow> copy_options m count (cl_cmdline st);
       Some (st\<lparr>cl_vars := vars\<rparr>)
     }
   }"

section \<open>Looking up options\<close>

text \<open>Whether \<open>strncmp\<close> of two texts is 0; \<open>--num\<close> wraps around at 0.\<close>

fun strncmp_eq :: "string \<Rightarrow> string \<Rightarrow> u32 \<Rightarrow> bool" where
  "strncmp_eq (c # cs) (d # ds) num = (if c = d \<and> num \<noteq> 1 then strncmp_eq cs ds (num - 1) else c = d)"
| "strncmp_eq [] ds num = (ds = [])"
| "strncmp_eq (c # cs) [] num = False"

definition var_matches :: "string \<Rightarrow> string \<Rightarrow> bool" where
  "var_matches var v =
     (let sz = length (takeWhile (\<lambda>c. c \<noteq> CHR ''='') v) in sz = length var \<and> strncmp_eq var v (of_nat sz))"

definition find_var :: "string list \<Rightarrow> string \<Rightarrow> string option" where
  "find_var vars var = find (var_matches var) vars"

definition cmdline_getstr :: "string list \<Rightarrow> string \<Rightarrow> string option" where
  "cmdline_getstr vars var =
     (case find_var vars var of
        None \<Rightarrow> None
      | Some v \<Rightarrow> (case dropWhile (\<lambda>c. c \<noteq> CHR ''='') v of [] \<Rightarrow> None | _ # val \<Rightarrow> Some val))"

definition cmdline_getbool :: "string list \<Rightarrow> string \<Rightarrow> bool" where
  "cmdline_getbool vars var =
     (case cmdline_getstr vars var of
        None \<Rightarrow> find_var vars var \<noteq> None
      | Some v \<Rightarrow> v = ''true'' \<or> v = ''TRUE'')"

section \<open>Common options\<close>

definition handle_option :: "string list \<Rightarrow> string \<Rightarrow> nat \<Rightarrow> string \<Rightarrow> string option" where
  "handle_option vars var len opt =
     (case cmdline_getstr vars var of
        None \<Rightarrow> Some opt
      | Some val \<Rightarrow> if len < length val + 1 then None else Some val)"

lemma strtoul_loop_shorter: "strtoul_loop base val s = (v, rest) \<Longrightarrow> length rest \<le> length s"
  by (induction base val s rule: strtoul_loop.induct) (auto split: if_splits)

lemma strtoul_prefix_shorter: "strtoul_prefix base s = (b, rest) \<Longrightarrow> length rest \<le> length s"
  by (induction base s rule: strtoul_prefix.induct) (auto split: if_splits)

lemma strtoul_shorter: "strtoul s base = (v, Some rest) \<Longrightarrow> length rest \<le> length s"
  using length_dropWhile_le [of isspace s]
  by (fastforce simp: strtoul_def Let_def split: if_splits prod.splits dest!: strtoul_loop_shorter strtoul_prefix_shorter)

lemma strtoul_10: "strtoul s 10 = (v, r) \<Longrightarrow> length (the r) \<le> length s"
  using strtoul_shorter [of s 10 v "the r"] by (auto simp: strtoul_def Let_def split: prod.splits)

text \<open>The list \<open>source:level,source:level,...\<close>, where \<open>*\<close> stands for all sources.\<close>

function debug_levels :: "string \<Rightarrow> u8 list \<Rightarrow> u8 list" where
  "debug_levels dbglvl levels =
     (case dbglvl of
        [] \<Rightarrow> levels
      | c # cs \<Rightarrow>
          let (src, rest) = (if c = CHR ''*'' then (of_nat DEBUGSRC_MAX, cs)
                             else case strtoul dbglvl 10 of (v, r) \<Rightarrow> (v, the r))
          in (case rest of
                [] \<Rightarrow> levels
              | d # ds \<Rightarrow>
                  if d \<noteq> CHR '':'' then levels
                  else case strtoul ds 10 of
                    (lvl, r) \<Rightarrow>
                      let levels = (if src = of_nat DEBUGSRC_MAX
                                    then foldl (\<lambda>l s. kdebug_set_errlvl (of_nat s) lvl l) levels [0..<DEBUGSRC_MAX]
                                    else kdebug_set_errlvl src lvl levels)
                      in (case the r of
                            [] \<Rightarrow> levels
                          | e # es \<Rightarrow> if e \<noteq> CHR '','' then levels else debug_levels es levels)))"
  by pat_completeness auto

termination
  by (relation "measure (\<lambda>(s, l). length s)")
    (auto split: if_splits prod.splits dest!: strtoul_10 strtoul_10 [OF sym] sym [where t = "the x" for x])

declare debug_levels.simps [simp del]

definition cmdline_handle_common :: "cmdline_state \<Rightarrow> cmdline_state option" where
  "cmdline_handle_common st = do {
     let vars = cl_vars st;
     exe \<leftarrow> handle_option vars ''init'' INITEXEC_PATH_MAX_LEN (init_executable (cl_boot st));
     rd \<leftarrow> handle_option vars ''cpio'' INITRD_MODULE_MAX_LEN (init_ramdisk_name (cl_boot st));
     let exe = (if cmdline_getbool vars ''kterm'' then '''' else exe);
     let st = st\<lparr>cl_boot := (cl_boot st)\<lparr>init_executable := exe, init_ramdisk_name := rd\<rparr>\<rparr>;
     Some (case cmdline_getstr vars ''debug_level'' of
             None \<Rightarrow> st
           | Some d \<Rightarrow> st\<lparr>cl_err_level := debug_levels d (cl_err_level st)\<rparr>)
   }"

section \<open>What the splitting does\<close>

lemma cstr_at_append:
  "cstr_at m p (xs @ ys) \<longleftrightarrow> (\<forall>i < length xs. m (p + i) = of_char (xs ! i)) \<and> NUL \<notin> set xs \<and> cstr_at m (p + length xs) ys"
  by (induction xs arbitrary: p) (auto simp: All_less_Suc2)

lemma space_char [simp]: "(of_char CHR '' '' :: u8) = SPACE"
  by (simp add: of_char_u8)

lemma of_char_space [simp]: "(of_char c :: u8) = SPACE \<longleftrightarrow> c = CHR '' ''"
  using of_char_u8_inject [of c "CHR '' ''"] by (simp del: of_char_u8_inject)

lemma skip_spaces_run:
  assumes "cstr_at m p (replicate k CHR '' '' @ s)" "s = [] \<or> hd s \<noteq> CHR '' ''"
  shows "skip_spaces m p = Some (p + k)"
  using assms
proof (induction k arbitrary: p)
  case 0
  then show ?case by (cases s) (auto simp: skip_spaces.simps [of m p])
next
  case (Suc k)
  then show ?case by (simp add: skip_spaces.simps [of m p])
qed

text \<open>A line of words, with one or more spaces between them.\<close>

fun cmd_text :: "string \<Rightarrow> (nat \<times> string) list \<Rightarrow> string" where
  "cmd_text w [] = w"
| "cmd_text w ((k, v) # r) = w @ replicate (Suc k) CHR '' '' @ cmd_text v r"

abbreviation cmd_words :: "string \<Rightarrow> (nat \<times> string) list \<Rightarrow> string list" where "cmd_words w r \<equiv> w # map snd r"

definition is_word :: "string \<Rightarrow> bool" where "is_word w \<longleftrightarrow> w \<noteq> [] \<and> CHR '' '' \<notin> set w"

lemma hd_cmd_text: "is_word w \<Longrightarrow> hd (cmd_text w r) \<noteq> CHR '' '' \<and> cmd_text w r \<noteq> []"
  by (cases "(w, r)" rule: cmd_text.cases) (auto simp: is_word_def hd_append dest: hd_in_set)

lemma cmd_text_gap:
  assumes "cstr_at m p (cmd_text w ((k, v) # r))" "is_word v"
  defines "q \<equiv> p + length w"
  shows "m q = SPACE" "skip_spaces m q = Some (q + Suc k)" "skip_spaces m (Suc q) = Some (q + Suc k)"
    "cstr_at m (q + Suc k) (cmd_text v r)"
proof -
  have s: "cstr_at m q (replicate (Suc k) CHR '' '' @ cmd_text v r)"
    using assms(1) unfolding q_def cmd_text.simps cstr_at_append [of m p w] by blast
  then have s': "cstr_at m (Suc q) (replicate k CHR '' '' @ cmd_text v r)" and "m q = SPACE" by simp_all
  then show "m q = SPACE" by simp
  show "skip_spaces m q = Some (q + Suc k)" by (rule skip_spaces_run [OF s]) (use assms(2) hd_cmd_text in auto)
  show "skip_spaces m (Suc q) = Some (q + Suc k)" using skip_spaces_run [OF s'] assms(2) hd_cmd_text by auto
  show "cstr_at m (q + Suc k) (cmd_text v r)" using s unfolding cstr_at_append by simp
qed

lemma count_word: "cstr_at m p (w @ s) \<Longrightarrow> CHR '' '' \<notin> set w \<Longrightarrow> count_options m p n = count_options m (p + length w) n"
proof (induction w arbitrary: p)
  case (Cons c w)
  then show ?case by (auto simp: count_options.simps [of m p n])
qed simp

lemma count_line:
  "cstr_at m p (cmd_text w r) \<Longrightarrow> CHR '' '' \<notin> set w \<Longrightarrow> \<forall>v \<in> set (map snd r). is_word v \<Longrightarrow> count_options m p n = Some (n + length r)"
proof (induction r arbitrary: w p n)
  case Nil
  then show ?case
    using count_word [of m p w "[]" n] by (simp add: cstr_at_def count_options.simps [of m "p + length w"])
next
  case (Cons g r)
  obtain k v where g: "g = (k, v)" by fastforce
  have v: "is_word v" using Cons.prems(3) by (simp add: g)
  then obtain c v' where cv: "v = c # v'" by (cases v) (auto simp: is_word_def)
  let ?q = "p + length w"
  note gap = cmd_text_gap [OF Cons.prems(1) [unfolded g] v]
  have "cmd_text v r = c # cmd_text v' r" by (cases "(v, r)" rule: cmd_text.cases) (auto simp: cv)
  then have t: "cstr_at m (Suc (?q + Suc k)) (cmd_text v' r)" using gap(4) by simp
  have "count_options m p n = count_options m ?q n"
    using count_word [of m p w _ n] Cons.prems(1,2) by (simp add: g)
  also have "\<dots> = count_options m (Suc (?q + Suc k)) (Suc n)"
    using gap(1,2) by (subst count_options.simps) simp
  also have "\<dots> = Some (Suc n + length r)"
    by (rule Cons.IH [OF t]) (use v Cons.prems(3) in \<open>auto simp: cv is_word_def\<close>)
  finally show ?case by simp
qed

lemma word_end_run:
  "cstr_at m p (w @ s) \<Longrightarrow> CHR '' '' \<notin> set w \<Longrightarrow> s = [] \<or> hd s = CHR '' '' \<Longrightarrow> word_end m p = Some (p + length w)"
proof (induction w arbitrary: p)
  case Nil
  then show ?case by (cases s) (auto simp: word_end.simps [of m p])
next
  case (Cons c w)
  then show ?case by (auto simp: word_end.simps [of m p])
qed

lemma copied_word: "cstr_at m p (w @ s) \<Longrightarrow> map (\<lambda>i. char_of (unat (m i))) [p..<p + length w] = w"
  by (rule nth_equalityI) (auto simp: cstr_at_append)

lemma copy_line:
  assumes "cstr_at m p (cmd_text w r)" "CHR '' '' \<notin> set w" "\<forall>v \<in> set (map snd r). is_word v" "n \<le> Suc (length r)"
    and "n = Suc (length r) \<longrightarrow> m (Suc (p + length (cmd_text w r))) \<noteq> SPACE"
  shows "copy_options m n p = Some (take n (cmd_words w r))"
  using assms
proof (induction n arbitrary: w r p)
  case (Suc n)
  show ?case
  proof (cases r)
    case Nil
    then have "n = 0" "word_end m p = Some (p + length w)" "skip_spaces m (Suc (p + length w)) = Some (Suc (p + length w))"
      using Suc.prems word_end_run [of m p w "[]"] by (simp_all add: skip_spaces.simps [of m "Suc (p + length w)"])
    then show ?thesis using copied_word [of m p w "[]"] Suc.prems(1) by (simp add: Nil)
  next
    case (Cons g r')
    obtain k v where g: "g = (k, v)" by fastforce
    have v: "is_word v" using Suc.prems(3) by (simp add: Cons g)
    note gap = cmd_text_gap [OF Suc.prems(1) [unfolded Cons g] v]
    have w: "cstr_at m p (w @ replicate (Suc k) CHR '' '' @ cmd_text v r')" using Suc.prems(1) by (simp add: Cons g)
    have "copy_options m n (p + length w + Suc k) = Some (take n (cmd_words v r'))"
      by (rule Suc.IH [OF gap(4)]) (use Suc.prems v in \<open>auto simp: Cons g is_word_def add_ac\<close>)
    moreover have "word_end m p = Some (p + length w)" by (rule word_end_run [OF w]) (use Suc.prems(2) in auto)
    ultimately show ?thesis using gap(3) copied_word [OF w] by (simp add: Cons g)
  qed
qed simp

lemma strncmp_eq_take:
  "length var < 2 ^ 32 \<Longrightarrow> var \<noteq> [] \<Longrightarrow> length var \<le> length v \<Longrightarrow> strncmp_eq var v (of_nat (length var)) \<longleftrightarrow> take (length var) v = var"
proof (induction var arbitrary: v)
  case (Cons c cs)
  obtain d ds where v: "v = d # ds" using Cons.prems(3) by (cases v) auto
  have "(of_nat (length (c # cs)) :: u32) = 1 \<longleftrightarrow> cs = []"
  proof -
    have "unat (of_nat (length (c # cs)) :: u32) = length (c # cs)" using Cons.prems(1) by (intro unat_of_nat_u32) simp
    then show ?thesis by (metis One_nat_def Suc_inject length_0_conv length_Cons unat_1 word_unat_eq_iff)
  qed
  moreover have "(of_nat (length (c # cs)) :: u32) - 1 = of_nat (length cs)" by simp
  ultimately show ?case using Cons by (auto simp: v)
qed simp

text \<open>The word of the command line that sets an option, and its value.\<close>

abbreviation option_name :: "string \<Rightarrow> string" where "option_name \<equiv> takeWhile (\<lambda>c. c \<noteq> CHR ''='')"

lemma var_matches_name:
  assumes "var \<noteq> []" "length var < 2 ^ 32"
  shows "var_matches var v \<longleftrightarrow> option_name v = var"
proof -
  have le: "length (option_name v) \<le> length v" by (rule length_takeWhile_le)
  have "take (length (option_name v)) v = option_name v" by (metis takeWhile_eq_take)
  then show ?thesis
    unfolding var_matches_def Let_def using strncmp_eq_take [OF assms(2,1), of v] le by metis
qed

theorem cmdline_getstr_value:
  assumes "var \<noteq> []" "length var < 2 ^ 32"
  shows "cmdline_getstr vars var =
    (case find (\<lambda>v. option_name v = var) vars of
       None \<Rightarrow> None | Some v \<Rightarrow> if CHR ''='' \<in> set v then Some (drop (Suc (length var)) v) else None)"
proof -
  have "var_matches var = (\<lambda>v. option_name v = var)" using var_matches_name [OF assms] by blast
  then have fv: "find_var vars var = find (\<lambda>v. option_name v = var) vars" by (simp add: find_var_def)
  have val: "(case dropWhile (\<lambda>c. c \<noteq> CHR ''='') v of [] \<Rightarrow> None | _ # val \<Rightarrow> Some val) =
      (if CHR ''='' \<in> set v then Some (drop (Suc (length var)) v) else None)" if n: "option_name v = var" for v
  proof -
    have "v = var @ dropWhile (\<lambda>c. c \<noteq> CHR ''='') v" using takeWhile_dropWhile_id n by metis
    then have "drop (length var) v = dropWhile (\<lambda>c. c \<noteq> CHR ''='') v" by (metis append_eq_conv_conj)
    then have "drop (Suc (length var)) v = tl (dropWhile (\<lambda>c. c \<noteq> CHR ''='') v)" by (metis drop_Suc tl_drop)
    moreover have "dropWhile (\<lambda>c. c \<noteq> CHR ''='') v = [] \<longleftrightarrow> CHR ''='' \<notin> set v" by (auto simp: dropWhile_eq_Nil_conv)
    ultimately show ?thesis by (cases "dropWhile (\<lambda>c. c \<noteq> CHR ''='') v") (simp_all del: dropWhile_eq_Nil_conv)
  qed
  show ?thesis
  proof (cases "find (\<lambda>v. option_name v = var) vars")
    case (Some v)
    then show ?thesis using val [of v] find_in_set [OF Some] by (simp add: cmdline_getstr_def fv)
  qed (simp add: cmdline_getstr_def fv)
qed

text \<open>
  \<open>cmdline_init\<close> of a line that does not start with a space makes every
  word of it an option, in order, whatever the number of spaces between them. A line that starts
  with spaces gets an empty option first and loses its last word.
\<close>

theorem cmdline_init_splits:
  assumes "cstr_at m (cl_cmdline st) (replicate l CHR '' '' @ cmd_text w r)" "\<forall>v \<in> set (cmd_words w r). is_word v"
    and "m (Suc (cl_cmdline st + length (replicate l CHR '' '' @ cmd_text w r))) \<noteq> SPACE"
  shows "cmdline_init m st = Some (st\<lparr>cl_vars := if l = 0 then cmd_words w r else [] # butlast (cmd_words w r)\<rparr>)"
proof -
  let ?a = "cl_cmdline st"
  have w: "is_word w" and r: "\<forall>v \<in> set (map snd r). is_word v" using assms(2) by simp_all
  have sk: "skip_spaces m ?a = Some (?a + l)" by (rule skip_spaces_run [OF assms(1)]) (use w hd_cmd_text in auto)
  have t: "cstr_at m (?a + l) (cmd_text w r)" using assms(1) unfolding cstr_at_append by simp
  have "m (?a + l) \<noteq> 0" using t hd_cmd_text [OF w, of r] by (cases "cmd_text w r") auto
  moreover have "count_options m (?a + l) 1 = Some (Suc (length r))" using count_line [OF t _ r] w by (simp add: is_word_def)
  moreover have "copy_options m (Suc (length r)) ?a = Some (if l = 0 then cmd_words w r else [] # butlast (cmd_words w r))"
  proof (cases l)
    case 0
    then show ?thesis using copy_line [of m ?a w r "Suc (length r)"] assms(1,3) w r by (simp add: is_word_def)
  next
    case (Suc k)
    have s: "cstr_at m (Suc ?a) (replicate k CHR '' '' @ cmd_text w r)" "m ?a = SPACE" using assms(1) by (simp_all add: Suc)
    have "skip_spaces m (Suc ?a) = Some (?a + l)"
      using skip_spaces_run [OF s(1)] w hd_cmd_text by (auto simp: Suc)
    moreover have "copy_options m (length r) (?a + l) = Some (take (length r) (cmd_words w r))"
      using copy_line [OF t, of "length r"] w r by (simp add: is_word_def)
    ultimately show ?thesis using s(2) by (simp add: Suc word_end.simps [of m ?a] butlast_conv_take)
  qed
  ultimately show ?thesis using sk by (simp add: cmdline_init_def)
qed

definition ex_line :: mem where
  "ex_line a = (let t = ''  init=/a   quiet'' in if a < length t then of_char (t ! a) else 0)"

theorem cmdline_init_splits_witness:
  "cmdline_init ex_line \<lparr>cl_cmdline = 2, cl_vars = [], cl_boot = boot_options_init, cl_err_level = []\<rparr> =
     Some \<lparr>cl_cmdline = 2, cl_vars = [''init=/a'', ''quiet''], cl_boot = boot_options_init, cl_err_level = []\<rparr> \<and>
   cmdline_init ex_line \<lparr>cl_cmdline = 0, cl_vars = [], cl_boot = boot_options_init, cl_err_level = []\<rparr> =
     Some \<lparr>cl_cmdline = 0, cl_vars = ['''', ''init=/a''], cl_boot = boot_options_init, cl_err_level = []\<rparr>"
proof -
  have t: "cstr_at ex_line 2 (cmd_text ''init=/a'' [(2, ''quiet'')])"
    by (simp add: ex_line_def eval_nat_numeral)
  have "cstr_at ex_line 0 (replicate 2 CHR '' '' @ cmd_text ''init=/a'' [(2, ''quiet'')])"
    by (simp add: ex_line_def eval_nat_numeral)
  from cmdline_init_splits [of ex_line "\<lparr>cl_cmdline = 2, cl_vars = [], cl_boot = boot_options_init, cl_err_level = []\<rparr>" 0 "''init=/a''" "[(2, ''quiet'')]"]
    cmdline_init_splits [of ex_line "\<lparr>cl_cmdline = 0, cl_vars = [], cl_boot = boot_options_init, cl_err_level = []\<rparr>" 2 "''init=/a''" "[(2, ''quiet'')]"]
    this t show ?thesis by (simp add: is_word_def) (simp add: ex_line_def)
qed

end
