(* ===== verification/Elf.thy ===== *)
theory Elf
  imports Kstring
begin

text \<open>
  ELF images and symbol tables: \<open>kernel/src/proc/elf/elf.c\<close>, \<open>kernel/src/mm/symbols.c\<close>,
  \<open>kernel/src/mod/symbols.c\<close> and the structures of \<open>kernel/inc/proc/types/elf.h\<close>.

  An image lies in a byte memory with 32-bit addresses, and so do the symbol tables made from it:
  pointers and offsets are 32-bit words and wrap around. A structure is read from its little-endian
  bytes by the function \<open>..._at\<close>. All of memory can be read; \<open>None\<close> is a division by zero or a loop
  that does not end. \<open>Inl\<close> is an error return.
\<close>

unbundle bit_operations_syntax

section \<open>Memory\<close>

type_synonym bytes = "u32 \<Rightarrow> u8"

definition get16 :: "bytes \<Rightarrow> u32 \<Rightarrow> u16" where
  "get16 m a = of_nat (unat (m a) + 256 * unat (m (a + 1)))"

definition get32 :: "bytes \<Rightarrow> u32 \<Rightarrow> u32" where
  "get32 m a = of_nat (unat (m a) + 256 * (unat (m (a + 1)) + 256 * (unat (m (a + 2)) + 256 * unat (m (a + 3)))))"

definition put32 :: "u32 \<Rightarrow> u32 \<Rightarrow> bytes \<Rightarrow> bytes" where
  "put32 a v m = m(a := of_nat (unat v), a + 1 := of_nat (unat v div 256),
     a + 2 := of_nat (unat v div 65536), a + 3 := of_nat (unat v div 16777216))"

text \<open>\<open>memcpy\<close>, byte by byte.\<close>

definition copy_fwd :: "u32 \<Rightarrow> u32 \<Rightarrow> nat \<Rightarrow> bytes \<Rightarrow> bytes" where
  "copy_fwd d s n = fold (\<lambda>i m. m(d + of_nat i := m (s + of_nat i))) [0..<n]"

text \<open>\<open>!strcmp(p, name)\<close> for a constant \<open>name\<close>.\<close>

fun cstr_eq :: "bytes \<Rightarrow> u32 \<Rightarrow> string \<Rightarrow> bool" where
  "cstr_eq m p [] \<longleftrightarrow> m p = 0"
| "cstr_eq m p (c # cs) \<longleftrightarrow> m p = of_char c \<and> cstr_eq m (p + 1) cs"

section \<open>Structures\<close>

record Elf32_Ehdr =
  e_ident :: "u8 list"
  e_type :: u16
  e_machine :: u16
  e_version :: u32
  e_entry :: u32
  e_phoff :: u32
  e_shoff :: u32
  e_flags :: u32
  e_ehsize :: u16
  e_phentsize :: u16
  e_phnum :: u16
  e_shentsize :: u16
  e_shnum :: u16
  e_shstrndx :: u16

definition ehdr_at :: "bytes \<Rightarrow> u32 \<Rightarrow> Elf32_Ehdr" where
  "ehdr_at m a = \<lparr>e_ident = map (\<lambda>i. m (a + of_nat i)) [0..<16], e_type = get16 m (a + 16), e_machine = get16 m (a + 18),
     e_version = get32 m (a + 20), e_entry = get32 m (a + 24), e_phoff = get32 m (a + 28), e_shoff = get32 m (a + 32),
     e_flags = get32 m (a + 36), e_ehsize = get16 m (a + 40), e_phentsize = get16 m (a + 42), e_phnum = get16 m (a + 44),
     e_shentsize = get16 m (a + 46), e_shnum = get16 m (a + 48), e_shstrndx = get16 m (a + 50)\<rparr>"

record Elf32_Shdr =
  sh_name :: u32
  sh_type :: u32
  sh_flags :: u32
  sh_addr :: u32
  sh_offset :: u32
  sh_size :: u32
  sh_link :: u32
  sh_info :: u32
  sh_addralign :: u32
  sh_entsize :: u32

definition shdr_at :: "bytes \<Rightarrow> u32 \<Rightarrow> Elf32_Shdr" where
  "shdr_at m a = \<lparr>sh_name = get32 m a, sh_type = get32 m (a + 4), sh_flags = get32 m (a + 8), sh_addr = get32 m (a + 12),
     sh_offset = get32 m (a + 16), sh_size = get32 m (a + 20), sh_link = get32 m (a + 24), sh_info = get32 m (a + 28),
     sh_addralign = get32 m (a + 32), sh_entsize = get32 m (a + 36)\<rparr>"

record Elf32_Sym =
  st_name :: u32
  st_value :: u32
  st_size :: u32
  st_info :: u8
  st_other :: u8
  st_shndx :: u16

definition sym_at :: "bytes \<Rightarrow> u32 \<Rightarrow> Elf32_Sym" where
  "sym_at m a = \<lparr>st_name = get32 m a, st_value = get32 m (a + 4), st_size = get32 m (a + 8),
     st_info = m (a + 12), st_other = m (a + 13), st_shndx = get16 m (a + 14)\<rparr>"

record Elf32_Rel =
  r_offset :: u32
  r_info :: u32

definition rel_at :: "bytes \<Rightarrow> u32 \<Rightarrow> Elf32_Rel" where
  "rel_at m a = \<lparr>r_offset = get32 m a, r_info = get32 m (a + 4)\<rparr>"

record symbol =
  sym_name :: u32
  sym_addr :: u32
  sym_size :: u32
  sym_section :: u32

definition symbol_at :: "bytes \<Rightarrow> u32 \<Rightarrow> symbol" where
  "symbol_at m a = \<lparr>sym_name = get32 m a, sym_addr = get32 m (a + 4), sym_size = get32 m (a + 8), sym_section = get32 m (a + 12)\<rparr>"

abbreviation (input) SHT_PROGBITS :: u32 where "SHT_PROGBITS \<equiv> 1"
abbreviation (input) SHT_NOBITS :: u32 where "SHT_NOBITS \<equiv> 8"
abbreviation (input) SHT_REL :: u32 where "SHT_REL \<equiv> 9"
abbreviation (input) SHN_UNDEF :: u16 where "SHN_UNDEF \<equiv> 0"
abbreviation (input) SHN_ABS :: u16 where "SHN_ABS \<equiv> 0xFFF1"
abbreviation (input) SYM_END :: u32 where "SYM_END \<equiv> 0xFFFFFFFF"

section \<open>Sections\<close>

definition elf_get_sections :: "bytes \<Rightarrow> u32 \<Rightarrow> u32" where
  "elf_get_sections m elf = elf + e_shoff (ehdr_at m elf)"

text \<open>The address of \<open>sections[i]\<close>.\<close>

definition section_ptr :: "bytes \<Rightarrow> u32 \<Rightarrow> u32 \<Rightarrow> u32" where
  "section_ptr m elf i = elf_get_sections m elf + 40 * i"

definition section_at :: "bytes \<Rightarrow> u32 \<Rightarrow> u32 \<Rightarrow> Elf32_Shdr" where
  "section_at m elf i = shdr_at m (section_ptr m elf i)"

definition section_idxs :: "bytes \<Rightarrow> u32 \<Rightarrow> u32 list" where
  "section_idxs m elf = map of_nat [0..<unat (e_shnum (ehdr_at m elf))]"

definition elf_find_section_idx :: "bytes \<Rightarrow> u32 \<Rightarrow> string \<Rightarrow> int + u32" where
  "elf_find_section_idx m elf name =
     (let strTabSecStr = elf + sh_offset (section_at m elf (ucast (e_shstrndx (ehdr_at m elf)))) in
      case find (\<lambda>i. cstr_eq m (strTabSecStr + sh_name (section_at m elf i)) name) (section_idxs m elf) of
        Some i \<Rightarrow> Inr i
      | None \<Rightarrow> Inl (- ENOEXEC))"

definition elf_find_section :: "bytes \<Rightarrow> u32 \<Rightarrow> string \<Rightarrow> int + u32" where
  "elf_find_section m elf name =
     (case elf_find_section_idx m elf name of Inl _ \<Rightarrow> Inl (- ENOEXEC) | Inr idx \<Rightarrow> Inr (section_ptr m elf idx))"

definition elf_get_section :: "bytes \<Rightarrow> u32 \<Rightarrow> u32 \<Rightarrow> int + u32" where
  "elf_get_section m elf index =
     (if ucast (e_shnum (ehdr_at m elf)) < index then Inl (- EINVAL) else Inr (section_ptr m elf index))"

definition elf_find_data :: "bytes \<Rightarrow> u32 \<Rightarrow> u32 \<Rightarrow> u32" where
  "elf_find_data m elf a =
     (case find (\<lambda>i. let s = section_at m elf i in sh_addr s \<le> a \<and> a < sh_addr s + sh_size s) (section_idxs m elf) of
        Some i \<Rightarrow> let s = section_at m elf i in elf + sh_offset s + (a - sh_addr s)
      | None \<Rightarrow> 0)"

text \<open>\<open>HOST_CLASS\<close> and \<open>HOST_MACHINE\<close> of x86.\<close>

abbreviation (input) HOST_CLASS :: u8 where "HOST_CLASS \<equiv> 1"
abbreviation (input) HOST_MACHINE :: u16 where "HOST_MACHINE \<equiv> 3"

definition elf_check_header :: "bytes \<Rightarrow> u32 \<Rightarrow> int" where
  "elf_check_header m data =
     (let head = ehdr_at m data; id = e_ident head in
      if id ! 0 \<noteq> 0x7F \<or> id ! 1 \<noteq> of_char CHR ''E'' \<or> id ! 2 \<noteq> of_char CHR ''L'' \<or> id ! 3 \<noteq> of_char CHR ''F'' then - ENOEXEC
      else if id ! 4 \<noteq> HOST_CLASS then - ENOEXEC
      else if e_machine head \<noteq> HOST_MACHINE then - ENOEXEC
      else 0)"

text \<open>The result and what is stored in \<open>*shndx\<close>, if anything.\<close>

definition elf_shndx_from_symidx :: "bytes \<Rightarrow> u32 \<Rightarrow> u32 \<Rightarrow> int \<times> u32 option" where
  "elf_shndx_from_symidx m elf symidx =
     (case elf_find_section m elf ''.symtab'' of
        Inl _ \<Rightarrow> (- EUNSPEC, None)
      | Inr p \<Rightarrow>
          let symtab = shdr_at m p in
          if sh_size symtab < symidx * sh_entsize symtab then (- EUNSPEC, None)
          else
            let shndx = st_shndx (sym_at m (elf + sh_offset symtab + 16 * symidx)) in
            (if shndx = SHN_UNDEF then - ENOENT else 0, Some (ucast shndx)))"

section \<open>Symbol tables\<close>

definition put_symbol :: "u32 \<Rightarrow> symbol \<Rightarrow> bytes \<Rightarrow> bytes" where
  "put_symbol a s m =
     put32 (a + 8) (sym_size s) (put32 (a + 4) (sym_addr s) (put32 a (sym_name s) (put32 (a + 12) (sym_section s) m)))"

text \<open>The second loop of \<open>elf_load_symbols\<close>, over the indices \<open>is\<close>; \<open>idx\<close> entries are filled in already.\<close>

fun fill_symbols :: "u32 \<Rightarrow> u32 \<Rightarrow> u32 \<Rightarrow> nat list \<Rightarrow> nat \<Rightarrow> bytes \<Rightarrow> bytes" where
  "fill_symbols syms symbols strtab [] idx m = m"
| "fill_symbols syms symbols strtab (i # is) idx m =
     (let s = sym_at m (syms + 16 * of_nat i) in
      if st_shndx s \<noteq> SHN_UNDEF
      then fill_symbols syms symbols strtab is (Suc idx)
        (put_symbol (symbols + 16 * of_nat idx)
          \<lparr>sym_name = strtab + st_name s, sym_addr = st_value s, sym_size = st_size s, sym_section = ucast (st_shndx s)\<rparr> m)
      else fill_symbols syms symbols strtab is idx m)"

text \<open>
  \<open>symbols\<close> is what \<open>kmalloc\<close> returns. The result, the value stored in \<open>*symbols\<close>, if any, and the
  memory.
\<close>

definition elf_load_symbols :: "bytes \<Rightarrow> u32 \<Rightarrow> u32 \<Rightarrow> (int \<times> u32 option \<times> bytes) option" where
  "elf_load_symbols m elf symbols =
     (case (elf_find_section m elf ''.strtab'', elf_find_section m elf ''.symtab'') of
        (Inr strh, Inr symh) \<Rightarrow>
          let elf_strtab = shdr_at m strh; elf_symtab = shdr_at m symh; syms = elf + sh_offset elf_symtab in
          if sh_entsize elf_symtab = 0 then None
          else
            let n_syms = unat (sh_size elf_symtab) div unat (sh_entsize elf_symtab);
                used_syms = length (filter (\<lambda>i. st_shndx (sym_at m (syms + 16 * of_nat i)) \<noteq> SHN_UNDEF) [0..<n_syms]) in
            if symbols = 0 then Some (- ENOMEM, Some 0, m)
            else
              let sym_strtab = symbols + (of_nat used_syms + 1) * 16;
                  m = copy_fwd sym_strtab (elf + sh_offset elf_strtab) (unat (sh_size elf_strtab)) m;
                  m = fill_symbols syms symbols sym_strtab [0..<n_syms] 0 m;
                  end = symbols + 16 * of_nat used_syms in
              Some (0, Some symbols, put32 (end + 8) 0 (put32 (end + 4) SYM_END (put32 end 0 m)))
      | _ \<Rightarrow> Some (- 1, None, m))"

text \<open>\<open>mod/symbols.c\<close>: the exported symbols of the kernel lie between two addresses, those of a module end with a mark.\<close>

record lambda_symbol =
  ls_addr :: u32
  ls_name :: u32

definition lambda_symbol_at :: "bytes \<Rightarrow> u32 \<Rightarrow> lambda_symbol" where
  "lambda_symbol_at m a = \<lparr>ls_addr = get32 m a, ls_name = get32 m (a + 4)\<rparr>"

partial_function (option) find_kernel_loop :: "bytes \<Rightarrow> string \<Rightarrow> u32 \<Rightarrow> u32 \<Rightarrow> (int + u32) option" where
  "find_kernel_loop m symbol end ent =
     (if ent < end then
        if cstr_eq m (ls_name (lambda_symbol_at m ent)) symbol then Some (Inr (ls_addr (lambda_symbol_at m ent)))
        else find_kernel_loop m symbol end (ent + 8)
      else Some (Inl (- EUNSPEC)))"

declare find_kernel_loop.simps [code]

definition module_symbol_find_kernel :: "bytes \<Rightarrow> u32 \<times> u32 \<Rightarrow> string \<Rightarrow> (int + u32) option" where
  "module_symbol_find_kernel m exports symbol = find_kernel_loop m symbol (snd exports) (fst exports)"

partial_function (option) module_symbol_find_module :: "bytes \<Rightarrow> string \<Rightarrow> u32 \<Rightarrow> (int + u32) option" where
  "module_symbol_find_module m symbol ent =
     (if sym_addr (symbol_at m ent) \<noteq> SYM_END then
        if cstr_eq m (sym_name (symbol_at m ent)) symbol then Some (Inr (sym_addr (symbol_at m ent)))
        else module_symbol_find_module m symbol (ent + 16)
      else Some (Inl (- EUNSPEC)))"

declare module_symbol_find_module.simps [code]

text \<open>\<open>mm/symbols.c\<close>. The result is the entry's address, 0 if there is none.\<close>

partial_function (option) find_object_loop :: "bytes \<Rightarrow> u32 \<Rightarrow> u32 \<Rightarrow> u32 option" where
  "find_object_loop m a obj =
     (let s = symbol_at m obj in
      if sym_addr s \<noteq> SYM_END then
        if sym_addr s \<le> a \<and> a < sym_addr s + sym_size s then Some obj
        else find_object_loop m a (obj + 16)
      else Some 0)"

declare find_object_loop.simps [code]

definition sym_find_object :: "bytes \<Rightarrow> u32 \<Rightarrow> u32 \<Rightarrow> u32 \<Rightarrow> u32 \<Rightarrow> u32 option" where
  "sym_find_object m kern_start sym_objects a symbols =
     find_object_loop m (a - kern_start) (if symbols = 0 then sym_objects else symbols)"

end
