(* ===== verification/Elf_Symbols.thy ===== *)
theory Elf_Symbols
  imports Elf
begin

text \<open>
  What \<open>elf_load_symbols\<close> makes of an image, and what the lookups find in it. Addresses in an
  allocated block are written \<open>p + of_nat k\<close>: two of them differ if the offsets do, so that the block
  may lie anywhere.
\<close>

section \<open>Words in memory\<close>

lemma off_inj [simp]: "a < 4294967296 \<Longrightarrow> b < 4294967296 \<Longrightarrow> (p :: u32) + of_nat a = p + of_nat b \<longleftrightarrow> a = b"
  by (metis add_left_cancel unat_of_nat_u32)

lemma off_unat: "(x :: u32) = p + of_nat (unat (x - p))"
  by simp

lemma off_add: "(p :: u32) + of_nat k + 1 = p + of_nat (k + 1)" "(p :: u32) + of_nat k + 2 = p + of_nat (k + 2)"
  "(p :: u32) + of_nat k + 3 = p + of_nat (k + 3)" "(p :: u32) + of_nat k + 4 = p + of_nat (k + 4)"
  "(p :: u32) + of_nat k + 8 = p + of_nat (k + 8)" "(p :: u32) + of_nat k + 12 = p + of_nat (k + 12)"
  "(p :: u32) + of_nat k + 16 = p + of_nat (k + 16)"
  by simp_all

lemma bytes_of_word: "unat (of_nat (unat (v :: u32)) :: u8) + 256 * (unat (of_nat (unat v div 256) :: u8) +
    256 * (unat (of_nat (unat v div 65536) :: u8) + 256 * unat (of_nat (unat v div 16777216) :: u8))) = unat v"
proof -
  have "unat v mod 256 + 256 * (unat v div 256 mod 256 + 256 * (unat v div 65536 mod 256 + 256 * (unat v div 16777216 mod 256))) = unat v"
  proof -
    have d: "unat v div 65536 = unat v div 256 div 256" "unat v div 16777216 = unat v div 256 div 256 div 256"
      by (simp_all add: div_mult2_eq [symmetric])
    have "unat v div 256 div 256 div 256 < 256" using unat_u32_lt [of v] by (simp add: div_mult2_eq [symmetric] less_mult_imp_div_less)
    then show ?thesis unfolding d by (metis mod_less mod_mult_div_eq)
  qed
  moreover have "unat (of_nat n :: u8) = n mod 256" for n by (simp add: unat_of_nat)
  ultimately show ?thesis by (simp only:)
qed

lemma get32_put32 [simp]: "get32 (put32 a v m) a = v"
  using bytes_of_word [of v] by (simp add: get32_def put32_def)

lemma put32_at:
  assumes "k + 4 \<le> 4294967296" "j < 4294967296" "j < k \<or> k + 4 \<le> j"
  shows "put32 (p + of_nat k) v m (p + of_nat j) = m (p + of_nat j)"
proof -
  have "p + of_nat j \<noteq> p + of_nat (k + i)" if "i < 4" for i
    using assms that by (subst off_inj) auto
  from this [of 0] this [of 1] this [of 2] this [of 3] show ?thesis unfolding put32_def off_add by simp
qed

lemma get32_cong:
  assumes "\<And>i. i < 4 \<Longrightarrow> m' (a + of_nat i) = m (a + of_nat i)"
  shows "get32 m' a = get32 m a"
  using assms [of 0] assms [of 1] assms [of 2] assms [of 3] by (simp add: get32_def)

lemma get32_field_cong:
  assumes "\<And>i. i < n \<Longrightarrow> m' (a + of_nat i) = m (a + of_nat i)" "f + 4 \<le> n"
  shows "get32 m' (a + of_nat f) = get32 m (a + of_nat f)"
proof (rule get32_cong)
  fix i :: nat assume "i < 4"
  with assms(1) [of "f + i"] assms(2) show "m' (a + of_nat f + of_nat i) = m (a + of_nat f + of_nat i)" by (simp add: add.assoc)
qed

lemma symbol_at_cong:
  assumes "\<And>i. i < 16 \<Longrightarrow> m' (a + of_nat i) = m (a + of_nat i)"
  shows "symbol_at m' a = symbol_at m a"
  using get32_field_cong [of 16 m' a m 0] get32_field_cong [of 16 m' a m 4] get32_field_cong [of 16 m' a m 8]
    get32_field_cong [of 16 m' a m 12] assms by (simp add: symbol_at_def)

lemma sym_at_cong:
  assumes "\<And>i. i < 16 \<Longrightarrow> m' (a + of_nat i) = m (a + of_nat i)"
  shows "sym_at m' a = sym_at m a"
  using get32_field_cong [of 16 m' a m 0] get32_field_cong [of 16 m' a m 4] get32_field_cong [of 16 m' a m 8]
    assms assms [of 12] assms [of 13] assms [of 14] assms [of 15] by (simp add: sym_at_def get16_def add.assoc)

text \<open>A symbol-table entry that is written is read back, and the rest stays.\<close>

lemma put_symbol_at:
  assumes "k + 16 \<le> 4294967296" "j < 4294967296" "j < k \<or> k + 16 \<le> j"
  shows "put_symbol (p + of_nat k) s m (p + of_nat j) = m (p + of_nat j)"
proof -
  have "put32 (p + of_nat (k + f)) v n (p + of_nat j) = n (p + of_nat j)" if "f + 4 \<le> 16" for f v n
    using assms that by (intro put32_at) auto
  from this [of 0] this [of 4] this [of 8] this [of 12] show ?thesis unfolding put_symbol_def off_add by simp
qed

lemma get32_put32_other:
  assumes "i + 4 \<le> j \<or> j + 4 \<le> i" "i \<le> 16" "j \<le> 16"
  shows "get32 (put32 (a + of_nat i) v m) (a + of_nat j) = get32 m (a + of_nat j)"
proof (rule get32_cong)
  fix k :: nat assume "k < 4"
  with assms put32_at [of i "j + k" a v m] show "put32 (a + of_nat i) v m (a + of_nat j + of_nat k) = m (a + of_nat j + of_nat k)"
    by (auto simp: add.assoc)
qed

lemma symbol_at_put_symbol [simp]: "symbol_at (put_symbol a s m) a = s"
proof -
  have "get32 (put32 (a + of_nat i) v n) (a + of_nat j) = get32 n (a + of_nat j)" if "i + 4 \<le> j \<or> j + 4 \<le> i" "i \<le> 16" "j \<le> 16" for i j v n
    by (rule get32_put32_other [OF that])
  from this [of 8 0] this [of 8 4] this [of 8 12] this [of 4 0] this [of 4 12] this [of 0 12]
  show ?thesis by (simp add: symbol_at_def put_symbol_def)
qed

section \<open>Copies\<close>

lemma copy_fwd_apart:
  assumes "n \<le> 4294967296" "\<And>i. i < n \<Longrightarrow> n \<le> unat (s + of_nat i - d)"
  shows "copy_fwd d s n m = (\<lambda>x. if unat (x - d) < n then m (s + (x - d)) else m x)"
  using assms
proof (induction n)
  case 0
  then show ?case by (simp add: copy_fwd_def)
next
  case (Suc n)
  have IH: "copy_fwd d s n m = (\<lambda>x. if unat (x - d) < n then m (s + (x - d)) else m x)"
    using Suc.prems Suc_leD by (intro Suc.IH) (simp, meson less_SucI)
  have src: "\<not> unat (s + of_nat n - d) < n" using Suc.prems(2) [of n] by simp
  have n: "unat (of_nat n :: u32) = n" using Suc.prems(1) by (intro unat_of_nat_u32) simp
  have "copy_fwd d s (Suc n) m = (copy_fwd d s n m)(d + of_nat n := copy_fwd d s n m (s + of_nat n))"
    by (simp add: copy_fwd_def)
  also have "\<dots> = (\<lambda>x. if unat (x - d) < Suc n then m (s + (x - d)) else m x)"
  proof
    fix x
    have "x = d + of_nat n \<longleftrightarrow> unat (x - d) = n" using n by (metis add_diff_cancel_left' diff_add_cancel add.commute word_unat_eq_iff)
    then show "((copy_fwd d s n m)(d + of_nat n := copy_fwd d s n m (s + of_nat n))) x = (if unat (x - d) < Suc n then m (s + (x - d)) else m x)"
      unfolding IH using src n by auto
  qed
  finally show ?case .
qed

lemma copy_fwd_outside: "n \<le> unat (x - d) \<Longrightarrow> n \<le> 4294967296 \<Longrightarrow> copy_fwd d s n m x = m x"
proof (induction n)
  case (Suc n)
  have "x \<noteq> d + of_nat n" using Suc.prems unat_of_nat_u32 [of n] by auto
  then show ?case using Suc by (simp add: copy_fwd_def)
qed (simp add: copy_fwd_def)

lemma copy_frame:
  assumes "unat (x - p) < unat off \<or> unat off + L \<le> unat (x - p)" "unat off + L \<le> 4294967296"
  shows "copy_fwd (p + off) s L m x = m x"
proof (rule copy_fwd_outside)
  have "unat (y - off) = (if unat off \<le> unat y then unat y - unat off else unat y + 4294967296 - unat off)" for y :: u32
    by (simp add: unat_sub_if_size word_size)
  from this [of "x - p"] show "L \<le> unat (x - (p + off))" using assms by (auto simp: diff_diff_eq)
qed (use assms(2) in simp)

section \<open>Filling in the table\<close>

definition defined_syms :: "bytes \<Rightarrow> u32 \<Rightarrow> nat list \<Rightarrow> Elf32_Sym list" where
  "defined_syms m syms is = filter (\<lambda>s. st_shndx s \<noteq> SHN_UNDEF) (map (\<lambda>i. sym_at m (syms + 16 * of_nat i)) is)"

definition conv_sym :: "u32 \<Rightarrow> Elf32_Sym \<Rightarrow> symbol" where
  "conv_sym strtab s = \<lparr>sym_name = strtab + st_name s, sym_addr = st_value s, sym_size = st_size s, sym_section = ucast (st_shndx s)\<rparr>"

text \<open>The entries \<open>is\<close> of the image's table lie outside of the first \<open>n\<close> bytes of the block at \<open>p\<close>.\<close>

definition syms_apart :: "u32 \<Rightarrow> nat list \<Rightarrow> u32 \<Rightarrow> nat \<Rightarrow> bool" where
  "syms_apart syms is p n \<longleftrightarrow> (\<forall>i \<in> set is. \<forall>b < 16. n \<le> unat (syms + 16 * of_nat i + of_nat b - p))"

lemma defined_syms_cong:
  assumes "syms_apart syms is p n" "\<And>x. n \<le> unat (x - p) \<Longrightarrow> m' x = m x"
  shows "defined_syms m' syms is = defined_syms m syms is"
proof -
  have "sym_at m' (syms + 16 * of_nat i) = sym_at m (syms + 16 * of_nat i)" if "i \<in> set is" for i
    using assms that by (intro sym_at_cong) (simp add: syms_apart_def)
  then show ?thesis unfolding defined_syms_def by (auto intro!: arg_cong [where f = "filter _"])
qed

lemma fill_symbols_spec:
  assumes "syms_apart syms is p (16 * K)" "idx + length (defined_syms m syms is) \<le> K" "16 * K \<le> 4294967296"
  shows "(\<forall>x. unat (x - p) < 16 * idx \<or> 16 * K \<le> unat (x - p) \<longrightarrow> fill_symbols syms p strtab is idx m x = m x) \<and>
    (\<forall>j < length (defined_syms m syms is).
       symbol_at (fill_symbols syms p strtab is idx m) (p + of_nat (16 * (idx + j))) = conv_sym strtab (defined_syms m syms is ! j))"
  using assms(1,2)
proof (induction "is" arbitrary: idx m)
  case Nil
  then show ?case by (simp add: defined_syms_def)
next
  case (Cons i "is")
  let ?s = "sym_at m (syms + 16 * of_nat i)"
  have ap: "syms_apart syms is p (16 * K)" using Cons.prems(1) by (simp add: syms_apart_def)
  show ?case
  proof (cases "st_shndx ?s = SHN_UNDEF")
    case True
    then show ?thesis using Cons.IH [OF ap] Cons.prems(2) by (simp add: defined_syms_def)
  next
    case False
    let ?m = "put_symbol (p + of_nat (16 * idx)) (conv_sym strtab ?s) m"
    have step: "fill_symbols syms p strtab (i # is) idx m = fill_symbols syms p strtab is (Suc idx) ?m"
      using False by (simp add: conv_sym_def Let_def)
    have defs: "defined_syms m syms (i # is) = ?s # defined_syms m syms is" using False by (simp add: defined_syms_def)
    have K: "idx < K" using Cons.prems(2) unfolding defs by simp
    have same: "?m x = m x" if "unat (x - p) < 16 * idx \<or> 16 * Suc idx \<le> unat (x - p)" for x
      using put_symbol_at [of "16 * idx" "unat (x - p)" p "conv_sym strtab ?s" m] that K assms(3) by auto
    have defs': "defined_syms ?m syms is = defined_syms m syms is"
      using same K by (intro defined_syms_cong [OF ap]) auto
    have "Suc idx + length (defined_syms ?m syms is) \<le> K" using Cons.prems(2) unfolding defs defs' by simp
    from Cons.IH [OF ap this] have IH1: "\<And>x. unat (x - p) < 16 * Suc idx \<or> 16 * K \<le> unat (x - p) \<Longrightarrow> fill_symbols syms p strtab is (Suc idx) ?m x = ?m x"
      and IH2: "\<And>j. j < length (defined_syms m syms is) \<Longrightarrow>
        symbol_at (fill_symbols syms p strtab is (Suc idx) ?m) (p + of_nat (16 * (Suc idx + j))) = conv_sym strtab (defined_syms m syms is ! j)"
      unfolding defs' by blast+
    have "symbol_at (fill_symbols syms p strtab is (Suc idx) ?m) (p + of_nat (16 * idx)) = symbol_at ?m (p + of_nat (16 * idx))"
    proof (rule symbol_at_cong, rule IH1)
      fix b :: nat assume "b < 16"
      then have "unat (of_nat (16 * idx + b) :: u32) = 16 * idx + b" using K assms(3) by (intro unat_of_nat_u32) simp
      then show "unat (p + of_nat (16 * idx) + of_nat b - p) < 16 * Suc idx \<or> 16 * K \<le> unat (p + of_nat (16 * idx) + of_nat b - p)"
        using \<open>b < 16\<close> by (simp add: add.assoc)
    qed
    then have first: "symbol_at (fill_symbols syms p strtab is (Suc idx) ?m) (p + of_nat (16 * idx)) = conv_sym strtab ?s" by simp
    have "symbol_at (fill_symbols syms p strtab is (Suc idx) ?m) (p + of_nat (16 * (idx + j))) = conv_sym strtab ((?s # defined_syms m syms is) ! j)"
      if "j < Suc (length (defined_syms m syms is))" for j
      using first IH2 that by (cases j) (simp_all only: nth_Cons_0 nth_Cons_Suc add_0_right add_Suc_right add_Suc Suc_less_eq)
    moreover have "fill_symbols syms p strtab is (Suc idx) ?m x = m x" if "unat (x - p) < 16 * idx \<or> 16 * K \<le> unat (x - p)" for x
      using IH1 [of x] same [of x] that K by auto
    ultimately show ?thesis unfolding step defs length_Cons by blast
  qed
qed

section \<open>Tables\<close>

text \<open>The table at \<open>p\<close> has the entries \<open>ss\<close>, up to the end mark.\<close>

fun table_at :: "bytes \<Rightarrow> u32 \<Rightarrow> symbol list \<Rightarrow> bool" where
  "table_at m p [] \<longleftrightarrow> sym_addr (symbol_at m p) = SYM_END"
| "table_at m p (s # ss) \<longleftrightarrow> symbol_at m p = s \<and> sym_addr s \<noteq> SYM_END \<and> table_at m (p + 16) ss"

lemma table_at_nth:
  assumes "\<And>j. j < length ss \<Longrightarrow> symbol_at m (p + of_nat (16 * j)) = ss ! j" "\<forall>s \<in> set ss. sym_addr s \<noteq> SYM_END"
    "sym_addr (symbol_at m (p + of_nat (16 * length ss))) = SYM_END"
  shows "table_at m p ss"
  using assms
proof (induction ss arbitrary: p)
  case (Cons s ss)
  have "table_at m (p + 16) ss"
  proof (rule Cons.IH)
    show "symbol_at m (p + 16 + of_nat (16 * j)) = ss ! j" if "j < length ss" for j
      using Cons.prems(1) [of "Suc j"] that by (simp add: algebra_simps)
    show "sym_addr (symbol_at m (p + 16 + of_nat (16 * length ss))) = SYM_END"
      using Cons.prems(3) by (simp add: algebra_simps)
  qed (use Cons.prems(2) in simp)
  then show ?case using Cons.prems(1) [of 0] Cons.prems(2) by simp
qed simp

lemma find_module_table:
  "table_at m p ss \<Longrightarrow> module_symbol_find_module m n p =
     Some (case find (\<lambda>s. cstr_eq m (sym_name s) n) ss of Some s \<Rightarrow> Inr (sym_addr s) | None \<Rightarrow> Inl (- EUNSPEC))"
  by (induction ss arbitrary: p) (subst module_symbol_find_module.simps; auto)+

lemma find_map_eq: "(\<And>x. x \<in> set xs \<Longrightarrow> P (f x) = Q x) \<Longrightarrow> find P (map f xs) = map_option f (find Q xs)"
  by (induction xs) auto

lemma cstr_eq_cong:
  "(\<And>i. i \<le> length n \<Longrightarrow> b' (a + of_nat i) = b (a + of_nat i)) \<Longrightarrow> cstr_eq b' a n = cstr_eq b a n"
proof (induction n arbitrary: a)
  case Nil
  from Nil [of 0] show ?case by simp
next
  case (Cons c n)
  have "cstr_eq b' (a + 1) n = cstr_eq b (a + 1) n"
    using Cons.prems [of "Suc _"] by (intro Cons.IH) (simp add: algebra_simps)
  then show ?case using Cons.prems [of 0] by simp
qed

text \<open>A name of a string table is the same name in a copy of the table.\<close>

lemma cstr_eq_copy:
  assumes "\<And>j. j < L \<Longrightarrow> m' (d + of_nat j) = m (s + of_nat j)" "z < L" "m (s + of_nat z) = 0" "k \<le> z" "NUL \<notin> set n"
  shows "cstr_eq m' (d + of_nat k) n = cstr_eq m (s + of_nat k) n"
  using assms(4,5)
proof (induction n arbitrary: k)
  case Nil
  then show ?case using assms(1,2) by simp
next
  case (Cons c n)
  have same: "m' (d + of_nat k) = m (s + of_nat k)" using assms(1,2) Cons.prems(1) by simp
  show ?case
  proof (cases "k = z")
    case True
    then have "m (s + of_nat k) \<noteq> of_char c" using assms(3) Cons.prems(2) by (metis list.set_intros(1) of_char_u8_zero)
    then show ?thesis using same by simp
  next
    case False
    then show ?thesis using same Cons.IH [of "Suc k"] Cons.prems by (simp add: algebra_simps)
  qed
qed

text \<open>
  An image with a symbol table and a string table whose entries are outside of the block at \<open>p\<close> that
  is allocated for them, and in which every name ends within the string table.
\<close>

definition image_strs :: "bytes \<Rightarrow> u32 \<Rightarrow> u32 \<Rightarrow> u32" where "image_strs m elf strh = elf + sh_offset (shdr_at m strh)"

definition image_syms :: "bytes \<Rightarrow> u32 \<Rightarrow> u32 \<Rightarrow> Elf32_Sym list" where
  "image_syms m elf symh = defined_syms m (elf + sh_offset (shdr_at m symh))
     [0..<unat (sh_size (shdr_at m symh)) div unat (sh_entsize (shdr_at m symh))]"

definition loadable :: "bytes \<Rightarrow> u32 \<Rightarrow> u32 \<Rightarrow> u32 \<Rightarrow> u32 \<Rightarrow> bool" where
  "loadable m elf strh symh p \<longleftrightarrow>
     (let strtab = shdr_at m strh; symtab = shdr_at m symh; L = unat (sh_size strtab);
          tot = 16 * Suc (length (image_syms m elf symh)) + L in
      elf_find_section m elf ''.strtab'' = Inr strh \<and> elf_find_section m elf ''.symtab'' = Inr symh \<and>
      sh_entsize symtab \<noteq> 0 \<and> p \<noteq> 0 \<and> tot < 4294967296 \<and>
      syms_apart (elf + sh_offset symtab) [0..<unat (sh_size symtab) div unat (sh_entsize symtab)] p tot \<and>
      (\<forall>i < L. tot \<le> unat (elf + sh_offset strtab + of_nat i - p)) \<and>
      (\<forall>s \<in> set (image_syms m elf symh). st_value s \<noteq> SYM_END \<and>
         (\<exists>z < L. unat (st_name s) \<le> z \<and> m (elf + sh_offset strtab + of_nat z) = 0)))"

lemma syms_apart_mono: "syms_apart syms is p n \<Longrightarrow> k \<le> n \<Longrightarrow> syms_apart syms is p k"
  by (auto simp: syms_apart_def intro: le_trans)

lemma unat_off: "k < 4294967296 \<Longrightarrow> unat ((p :: u32) + of_nat k - p) = k"
  by (simp add: unat_of_nat_u32)

text \<open>The string table is copied behind the entries.\<close>

lemma copy_behind:
  assumes "\<And>i. i < L \<Longrightarrow> e + L \<le> unat (s + of_nat i - p)" "e + L < 4294967296"
  shows "\<And>j. j < L \<Longrightarrow> copy_fwd (p + of_nat e) s L m (p + of_nat e + of_nat j) = m (s + of_nat j)"
    and "\<And>x. e + L \<le> unat (x - p) \<Longrightarrow> copy_fwd (p + of_nat e) s L m x = m x"
proof -
  have e: "unat (of_nat e :: u32) = e" using assms(2) by (intro unat_of_nat_u32) simp
  have shift: "L \<le> unat (x - (p + of_nat e))" if "e + L \<le> unat (x - p)" for x
  proof -
    have "unat (x - p - of_nat e) = unat (x - p) - e" using that e by (subst unat_sub_u32) (simp_all add: word_le_nat_alt)
    then show ?thesis using that by (simp add: diff_diff_eq)
  qed
  have eq: "copy_fwd (p + of_nat e) s L m = (\<lambda>x. if unat (x - (p + of_nat e)) < L then m (s + (x - (p + of_nat e))) else m x)"
    using assms shift by (intro copy_fwd_apart) auto
  show "copy_fwd (p + of_nat e) s L m (p + of_nat e + of_nat j) = m (s + of_nat j)" if "j < L" for j
    using that assms(2) unat_of_nat_u32 [of j] unfolding eq by simp
  show "copy_fwd (p + of_nat e) s L m x = m x" if "e + L \<le> unat (x - p)" for x
    using shift [OF that] unfolding eq by simp
qed

text \<open>The end mark changes the three words of its entry that it sets.\<close>

definition put_end :: "u32 \<Rightarrow> bytes \<Rightarrow> bytes" where
  "put_end a m = put32 (a + 8) 0 (put32 (a + 4) SYM_END (put32 a 0 m))"

lemma put_end_spec:
  assumes "k + 16 < 4294967296"
  shows "sym_addr (symbol_at (put_end (p + of_nat k) m) (p + of_nat k)) = SYM_END"
    and "\<And>x. unat (x - p) < k \<or> k + 16 \<le> unat (x - p) \<Longrightarrow> put_end (p + of_nat k) m x = m x"
proof -
  show "sym_addr (symbol_at (put_end (p + of_nat k) m) (p + of_nat k)) = SYM_END"
    using get32_put32_other [of 8 4 "p + of_nat k"] by (simp add: put_end_def symbol_at_def)
  fix x assume x: "unat (x - p) < k \<or> k + 16 \<le> unat (x - p)"
  have "put32 (p + of_nat (k + f)) v n (p + of_nat (unat (x - p))) = n (p + of_nat (unat (x - p)))" if "f + 4 \<le> 16" for f v n
    using x assms that by (intro put32_at) auto
  from this [of 0] this [of 4] this [of 8] show "put_end (p + of_nat k) m x = m x"
    unfolding put_end_def off_add by simp
qed

lemma elf_load_symbols_spec:
  assumes "loadable m elf strh symh p"
  defines "K \<equiv> length (image_syms m elf symh)" and "L \<equiv> unat (sh_size (shdr_at m strh))"
  shows "\<exists>m'. elf_load_symbols m elf p = Some (0, Some p, m') \<and>
    table_at m' p (map (conv_sym (p + of_nat (16 * Suc K))) (image_syms m elf symh)) \<and>
    (\<forall>j < L. m' (p + of_nat (16 * Suc K) + of_nat j) = m (image_strs m elf strh + of_nat j)) \<and>
    (\<forall>x. 16 * Suc K + L \<le> unat (x - p) \<longrightarrow> m' x = m x)"
proof -
  let ?e = "16 * Suc K" and ?syms = "elf + sh_offset (shdr_at m symh)" and ?st = "image_strs m elf strh"
  let ?is = "[0..<unat (sh_size (shdr_at m symh)) div unat (sh_entsize (shdr_at m symh))]" and ?D = "image_syms m elf symh"
  note ld = assms(1) [unfolded loadable_def Let_def, folded K_def L_def image_strs_def]
  from ld have ap: "syms_apart ?syms ?is p (?e + L)" and tot: "?e + L < 4294967296"
    and src: "\<And>i. i < L \<Longrightarrow> ?e + L \<le> unat (?st + of_nat i - p)" by (auto simp: image_strs_def)
  define m1 where "m1 = copy_fwd (p + of_nat ?e) ?st L m"
  note m1 = copy_behind [OF src tot, where m = m, folded m1_def]
  have D: "defined_syms m1 ?syms ?is = ?D"
    unfolding image_syms_def by (rule defined_syms_cong [OF ap]) (rule m1(2))
  define m2 where "m2 = fill_symbols ?syms p (p + of_nat ?e) ?is 0 m1"
  have "syms_apart ?syms ?is p (16 * K)" "0 + length (defined_syms m1 ?syms ?is) \<le> K" "16 * K \<le> 4294967296"
    using syms_apart_mono [OF ap] tot unfolding D by (simp_all add: K_def)
  note fs = fill_symbols_spec [OF this, of "p + of_nat ?e", folded m2_def, unfolded D add_0]
  have m2: "m2 x = m1 x" if "16 * K \<le> unat (x - p)" for x using fs that by blast
  define m' where "m' = put_end (p + of_nat (16 * K)) m2"
  have k: "16 * K + 16 < 4294967296" using tot by simp
  note m' = put_end_spec [OF k, where p = p and m = m2, folded m'_def]
  have run: "elf_load_symbols m elf p = Some (0, Some p, m')"
  proof -
    have "length (filter (\<lambda>i. st_shndx (sym_at m (?syms + 16 * of_nat i)) \<noteq> SHN_UNDEF) ?is) = K"
      by (simp add: K_def image_syms_def defined_syms_def filter_map comp_def)
    moreover have "p + (of_nat K + 1) * 16 = p + of_nat ?e" "p + 16 * of_nat K = p + of_nat (16 * K)" by simp_all
    ultimately show ?thesis
      using ld unfolding elf_load_symbols_def Let_def m'_def m2_def m1_def put_end_def image_strs_def L_def
      by (simp only: sum.case prod.case if_False)
  qed
  have entry: "symbol_at m' (p + of_nat (16 * j)) = map (conv_sym (p + of_nat ?e)) ?D ! j" if "j < K" for j
  proof -
    have "m' (p + of_nat (16 * j) + of_nat i) = m2 (p + of_nat (16 * j) + of_nat i)" if "i < 16" for i
      using m'(2) [of "p + of_nat (16 * j + i)"] unat_off [of "16 * j + i" p] \<open>j < K\<close> that k by (simp add: add.assoc)
    then have "symbol_at m' (p + of_nat (16 * j)) = symbol_at m2 (p + of_nat (16 * j))" by (rule symbol_at_cong)
    then show ?thesis using fs that by (simp add: K_def)
  qed
  have "table_at m' p (map (conv_sym (p + of_nat ?e)) ?D)"
  proof (rule table_at_nth)
    show "\<forall>s \<in> set (map (conv_sym (p + of_nat ?e)) ?D). sym_addr s \<noteq> SYM_END" using ld by (auto simp: conv_sym_def)
  qed (use entry m'(1) in \<open>simp_all only: length_map K_def\<close>)
  moreover have "m' (p + of_nat ?e + of_nat j) = m (?st + of_nat j)" if "j < L" for j
    using m'(2) [of "p + of_nat (?e + j)"] m2 [of "p + of_nat (?e + j)"] unat_off [of "?e + j" p] m1(1) that tot by (simp add: add.assoc)
  moreover have "m' x = m x" if "?e + L \<le> unat (x - p)" for x
    using m'(2) [of x] m2 [of x] m1(2) [of x] that by simp
  ultimately show ?thesis using run by blast
qed

lemma loadable_name:
  assumes "loadable m elf strh symh p" "s \<in> set (image_syms m elf symh)"
  shows "\<exists>z < unat (sh_size (shdr_at m strh)). unat (st_name s) \<le> z \<and> m (image_strs m elf strh + of_nat z) = 0"
proof -
  have "\<forall>s \<in> set (image_syms m elf symh). st_value s \<noteq> SYM_END \<and>
      (\<exists>z < unat (sh_size (shdr_at m strh)). unat (st_name s) \<le> z \<and> m (elf + sh_offset (shdr_at m strh) + of_nat z) = 0)"
    using assms(1) unfolding loadable_def Let_def by (elim conjE)
  from bspec [OF this assms(2)] show ?thesis unfolding image_strs_def by (rule conjunct2)
qed

text \<open>
  C29 (symbols of an image). After \<open>elf_load_symbols\<close> of an image, a lookup of any name in the new
  table by \<open>module_symbol_find_module\<close> returns the value of the first defined symbol of that name in
  the image, and fails if there is none; no byte outside of the allocated block has changed.
\<close>

theorem elf_load_symbols_lookup:
  assumes "loadable m elf strh symh p" "NUL \<notin> set name"
  shows "\<exists>m'. elf_load_symbols m elf p = Some (0, Some p, m') \<and>
    module_symbol_find_module m' name p =
      Some (case find (\<lambda>s. cstr_eq m (image_strs m elf strh + st_name s) name) (image_syms m elf symh) of
          Some s \<Rightarrow> Inr (st_value s) | None \<Rightarrow> Inl (- EUNSPEC)) \<and>
    (\<forall>x. 16 * Suc (length (image_syms m elf symh)) + unat (sh_size (shdr_at m strh)) \<le> unat (x - p) \<longrightarrow> m' x = m x)"
proof -
  let ?st = "p + of_nat (16 * Suc (length (image_syms m elf symh)))"
  obtain m' where run: "elf_load_symbols m elf p = Some (0, Some p, m')"
    and tab: "table_at m' p (map (conv_sym ?st) (image_syms m elf symh))"
    and strs: "\<And>j. j < unat (sh_size (shdr_at m strh)) \<Longrightarrow> m' (?st + of_nat j) = m (image_strs m elf strh + of_nat j)"
    and out: "\<forall>x. 16 * Suc (length (image_syms m elf symh)) + unat (sh_size (shdr_at m strh)) \<le> unat (x - p) \<longrightarrow> m' x = m x"
    using elf_load_symbols_spec [OF assms(1)] by blast
  have names: "cstr_eq m' (?st + st_name s) name = cstr_eq m (image_strs m elf strh + st_name s) name"
    if s: "s \<in> set (image_syms m elf symh)" for s
  proof -
    obtain z where "z < unat (sh_size (shdr_at m strh))" "unat (st_name s) \<le> z" "m (image_strs m elf strh + of_nat z) = 0"
      using loadable_name [OF assms(1) s] by blast
    from cstr_eq_copy [where d = ?st and m' = m' and m = m and s = "image_strs m elf strh", OF strs this(1,3,2) assms(2)] show ?thesis by (simp only: of_nat_unat ucast_id)
  qed
  have "find (\<lambda>s. cstr_eq m' (sym_name s) name) (map (conv_sym ?st) (image_syms m elf symh)) =
      map_option (conv_sym ?st) (find (\<lambda>s. cstr_eq m (image_strs m elf strh + st_name s) name) (image_syms m elf symh))"
  proof (rule find_map_eq)
    fix s assume "s \<in> set (image_syms m elf symh)"
    from names [OF this] show "cstr_eq m' (sym_name (conv_sym ?st s)) name = cstr_eq m (image_strs m elf strh + st_name s) name"
      unfolding conv_sym_def symbol.simps .
  qed
  with find_module_table [OF tab, of name] run out show ?thesis
    by (auto simp: conv_sym_def split: option.splits)
qed

text \<open>A small image: a symbol table with the undefined symbol and \<open>f\<close>, and a string table.\<close>

definition ex_bytes :: bytes where
  "ex_bytes = (\<lambda>_. 0)(32 := 52, 48 := 2, 50 := 1,
     52 := 1, 56 := 2, 68 := 132, 72 := 32, 76 := 1, 84 := 4, 88 := 16,
     92 := 9, 96 := 3, 108 := 164, 112 := 19, 124 := 1,
     148 := 17, 152 := 64, 156 := 8, 160 := 18, 162 := 1,
     165 := 46, 166 := 115, 167 := 121, 168 := 109, 169 := 116, 170 := 97, 171 := 98,
     173 := 46, 174 := 115, 175 := 116, 176 := 114, 177 := 116, 178 := 97, 179 := 98, 181 := 102)"

lemma ex_ehdr [simp]: "e_shoff (ehdr_at ex_bytes 0) = 52" "e_shnum (ehdr_at ex_bytes 0) = 2" "e_shstrndx (ehdr_at ex_bytes 0) = 1"
  by (simp_all add: ehdr_at_def get32_def get16_def ex_bytes_def)

lemma ex_shdr [simp]:
  "shdr_at ex_bytes 52 = \<lparr>sh_name = 1, sh_type = 2, sh_flags = 0, sh_addr = 0, sh_offset = 132, sh_size = 32, sh_link = 1, sh_info = 0, sh_addralign = 4, sh_entsize = 16\<rparr>"
  "shdr_at ex_bytes 92 = \<lparr>sh_name = 9, sh_type = 3, sh_flags = 0, sh_addr = 0, sh_offset = 164, sh_size = 19, sh_link = 0, sh_info = 0, sh_addralign = 1, sh_entsize = 0\<rparr>"
  by (simp_all add: shdr_at_def get32_def ex_bytes_def)

lemma ex_sym [simp]:
  "sym_at ex_bytes 132 = \<lparr>st_name = 0, st_value = 0, st_size = 0, st_info = 0, st_other = 0, st_shndx = 0\<rparr>"
  "sym_at ex_bytes 148 = \<lparr>st_name = 17, st_value = 64, st_size = 8, st_info = 18, st_other = 0, st_shndx = 1\<rparr>"
  by (simp_all add: sym_at_def get32_def get16_def ex_bytes_def)

lemma ex_sections [simp]:
  "elf_find_section ex_bytes 0 ''.strtab'' = Inr 92" "elf_find_section ex_bytes 0 ''.symtab'' = Inr 52"
  by (simp_all add: elf_find_section_def elf_find_section_idx_def section_idxs_def section_at_def section_ptr_def elf_get_sections_def
      upt_rec Let_def)
    (simp_all add: ex_bytes_def of_char_def)

lemma ex_syms: "image_syms ex_bytes 0 52 = [\<lparr>st_name = 17, st_value = 64, st_size = 8, st_info = 18, st_other = 0, st_shndx = 1\<rparr>]"
  by (simp add: image_syms_def defined_syms_def upt_rec)

lemma ex_loadable: "loadable ex_bytes 0 92 52 0x1000"
proof -
  have a: "syms_apart 132 [0, 1] 4096 51"
  proof -
    have "\<forall>b < 16 :: nat. b \<in> set [0..<16]" by simp
    then have "\<forall>i \<in> {0, 1 :: nat}. \<forall>b \<in> set [0..<16]. (51 :: nat) \<le> unat (132 + 16 * of_nat i + of_nat b - (4096 :: u32))"
      by (simp add: upt_rec)
    then show ?thesis by (auto simp: syms_apart_def)
  qed
  have "\<forall>i \<in> set [0..<19]. (51 :: nat) \<le> unat (of_nat i - (3932 :: u32))" by (simp add: upt_rec)
  then have s: "(51 :: nat) \<le> unat (of_nat i - (3932 :: u32))" if "i < 19" for i using that by simp
  have z: "\<exists>z < 19. 17 \<le> z \<and> ex_bytes (164 + of_nat z) = 0" by (rule exI [of _ 18]) (simp add: ex_bytes_def)
  show ?thesis unfolding loadable_def Let_def ex_syms using a s z by (auto simp: upt_rec)
qed

theorem elf_load_symbols_lookup_witness:
  "(\<exists>m'. elf_load_symbols ex_bytes 0 0x1000 = Some (0, Some 0x1000, m') \<and> module_symbol_find_module m' ''f'' 0x1000 = Some (Inr 64)) \<and>
   (\<exists>m'. elf_load_symbols ex_bytes 0 0x1000 = Some (0, Some 0x1000, m') \<and> module_symbol_find_module m' ''g'' 0x1000 = Some (Inl (- EUNSPEC)))"
proof -
  have n: "cstr_eq ex_bytes (image_strs ex_bytes 0 92 + 17) ''f''" "\<not> cstr_eq ex_bytes (image_strs ex_bytes 0 92 + 17) ''g''"
    by (simp_all add: image_strs_def) (simp_all add: ex_bytes_def of_char_def)
  show ?thesis
    using elf_load_symbols_lookup [OF ex_loadable, of "''f''"] elf_load_symbols_lookup [OF ex_loadable, of "''g''"] n
    by (auto simp: ex_syms)
qed

end
