(* ===== verification/Module.thy ===== *)
theory Module
  imports Elf_Symbols Mmu_Sound Stream Mtask
begin

text \<open>
  The module loader, \<open>kernel/src/mod/module.c\<close> and \<open>kernel/src/mod/preload.c\<close>: reading a module from
  a file, placing its sections, translating its symbols, applying its relocations, checking what it
  requires and starting it.

  The memory is that of \<open>Mmu\<close>. The kernel's heap, in which images and symbol tables lie, is mapped at
  its physical addresses, so a pointer into the heap is an address of \<open>mm_byte\<close>. The addresses at which
  a module is placed, and those of the kernel's own image, go through the current table (\<open>phys_of\<close>).
  The array \<open>relocs\<close> is a list with its end mark, and the linked list of loaded modules, which is only
  appended to here, a list in its order. Results of the allocator are arguments. \<open>None\<close> is a division
  by zero, a fault, or a loop that does not end.
\<close>

unbundle bit_operations_syntax

section \<open>Memory through the current table\<close>

definition phys_of :: "mmu_state \<Rightarrow> u32 \<Rightarrow> u32" where
  "phys_of m v = (case snd (mmu_map_get_table m (mm_cr3 m) v) of Some p \<Rightarrow> p + (v AND 0xFFF) | None \<Rightarrow> v)"

definition vmem :: "mmu_state \<Rightarrow> bytes" where
  "vmem m v = mm_byte m (phys_of m v)"

definition vput8 :: "u32 \<Rightarrow> u8 \<Rightarrow> mmu_state \<Rightarrow> mmu_state" where
  "vput8 v b m = m\<lparr>mm_byte := (mm_byte m)(phys_of m v := b)\<rparr>"

definition vput32 :: "u32 \<Rightarrow> u32 \<Rightarrow> mmu_state \<Rightarrow> mmu_state" where
  "vput32 a v m = vput8 (a + 3) (of_nat (unat v div 16777216)) (vput8 (a + 2) (of_nat (unat v div 65536))
     (vput8 (a + 1) (of_nat (unat v div 256)) (vput8 a (of_nat (unat v)) m)))"

definition upd_bytes :: "(bytes \<Rightarrow> bytes) \<Rightarrow> mmu_state \<Rightarrow> mmu_state" where
  "upd_bytes f m = m\<lparr>mm_byte := f (mm_byte m)\<rparr>"

definition zero_bytes :: "u32 \<Rightarrow> nat \<Rightarrow> bytes \<Rightarrow> bytes" where
  "zero_bytes d n = fold (\<lambda>i m. m(d + of_nat i := 0)) [0..<n]"

section \<open>Relocations\<close>

record elf_reloc =
  rl_section :: u32
  rl_addr_virt :: u32
  rl_addr_phys :: u32
  rl_size :: u32

fun get_reloc :: "elf_reloc list \<Rightarrow> u32 \<Rightarrow> elf_reloc option" where
  "get_reloc [] section = None"
| "get_reloc (r # relocs) section =
     (if rl_section r = 0xFFFFFFFF then None
      else if rl_section r = section then Some r
      else get_reloc relocs section)"

definition translate_symbol :: "elf_reloc list \<Rightarrow> u32 \<Rightarrow> mmu_state \<Rightarrow> int \<times> mmu_state" where
  "translate_symbol relocs a m =
     (case get_reloc relocs (sym_section (symbol_at (mm_byte m) a)) of
        None \<Rightarrow> (- ENOENT, m)
      | Some reloc \<Rightarrow> (0, upd_bytes (put32 (a + 4) (rl_addr_virt reloc)) m))"

partial_function (option) translate_symbols :: "elf_reloc list \<Rightarrow> u32 \<Rightarrow> mmu_state \<Rightarrow> mmu_state option" where
  "translate_symbols relocs a m =
     (if sym_addr (symbol_at (mm_byte m) a) \<noteq> SYM_END
      then translate_symbols relocs (a + 16) (snd (translate_symbol relocs a m))
      else Some m)"

declare translate_symbols.simps [code]

definition translate_addr :: "elf_reloc list \<Rightarrow> u32 \<Rightarrow> u32 \<Rightarrow> u32" where
  "translate_addr relocs section a = (case get_reloc relocs section of None \<Rightarrow> 0 | Some reloc \<Rightarrow> rl_addr_virt reloc + a)"

definition R_TYPE :: "u32 \<Rightarrow> u8" where "R_TYPE i = ucast i"
definition R_SYM :: "u32 \<Rightarrow> u32" where "R_SYM i = drop_bit 8 i"

abbreviation (input) R_386_NONE :: u8 where "R_386_NONE \<equiv> 0"
abbreviation (input) R_386_32 :: u8 where "R_386_32 \<equiv> 1"
abbreviation (input) R_386_PC32 :: u8 where "R_386_PC32 \<equiv> 2"
abbreviation (input) R_386_GLOB_DAT :: u8 where "R_386_GLOB_DAT \<equiv> 6"
abbreviation (input) R_386_JMP_SLOT :: u8 where "R_386_JMP_SLOT \<equiv> 7"
abbreviation (input) R_386_RELATIVE :: u8 where "R_386_RELATIVE \<equiv> 8"

definition do_reloc :: "elf_reloc list \<Rightarrow> u32 \<Rightarrow> Elf32_Rel \<Rightarrow> u32 \<Rightarrow> mmu_state \<Rightarrow> int \<times> mmu_state" where
  "do_reloc relocs symaddr rel section m =
     (let dataaddr = translate_addr relocs section (r_offset rel); old = get32 (vmem m) dataaddr; t = R_TYPE (r_info rel) in
      if dataaddr < 0x1000 then (- EUNSPEC, m)
      else if t = R_386_NONE then (0, m)
      else if t = R_386_32 then (0, vput32 dataaddr (old + symaddr) m)
      else if t = R_386_PC32 then (0, vput32 dataaddr (old + (symaddr - dataaddr)) m)
      else if t = R_386_RELATIVE then (0, vput32 dataaddr (translate_addr relocs section old) m)
      else if t = R_386_GLOB_DAT \<or> t = R_386_JMP_SLOT then (0, vput32 dataaddr symaddr m)
      else (- EUNSPEC, m))"

section \<open>Symbols\<close>

record module_entry =
  me_ident :: u32
  me_func :: u32
  me_threads :: "int list"
  me_symbols :: u32

text \<open>\<open>exports\<close>: where the kernel's exported symbols lie.\<close>

fun find_in_modules :: "bytes \<Rightarrow> string \<Rightarrow> module_entry list \<Rightarrow> (int + u32) option" where
  "find_in_modules m ident [] = Some (Inl (- ENOENT))"
| "find_in_modules m ident (e # es) =
     (if me_symbols e \<noteq> 0 then do {
        r \<leftarrow> module_symbol_find_module m ident (me_symbols e);
        (case r of Inr a \<Rightarrow> Some (Inr a) | Inl _ \<Rightarrow> find_in_modules m ident es)
      }
      else find_in_modules m ident es)"

definition find_undefined_symbol :: "mmu_state \<Rightarrow> u32 \<times> u32 \<Rightarrow> module_entry list \<Rightarrow> string \<Rightarrow> (int + u32) option" where
  "find_undefined_symbol m exports loaded ident = do {
     r \<leftarrow> module_symbol_find_kernel (vmem m) exports ident;
     (case r of Inr a \<Rightarrow> Some (Inr a) | Inl _ \<Rightarrow> find_in_modules (mm_byte m) ident loaded)
   }"

text \<open>The C string at an address.\<close>

partial_function (option) cstr :: "bytes \<Rightarrow> u32 \<Rightarrow> string option" where
  "cstr m a = (if m a = 0 then Some [] else Option.bind (cstr m (a + 1)) (\<lambda>s. Some (char_of (unat (m a)) # s)))"

declare cstr.simps [code]

partial_function (option) find_internal :: "bytes \<Rightarrow> u32 \<Rightarrow> u32 \<Rightarrow> u32 \<Rightarrow> (int + u32) option" where
  "find_internal m shndx value a =
     (if sym_addr (symbol_at m a) \<noteq> SYM_END then
        if sym_section (symbol_at m a) = shndx then Some (Inr (sym_addr (symbol_at m a) + value))
        else find_internal m shndx value (a + 16)
      else Some (Inl (- ENOENT)))"

declare find_internal.simps [code]

definition find_symbol :: "mmu_state \<Rightarrow> u32 \<times> u32 \<Rightarrow> module_entry list \<Rightarrow> u32 \<Rightarrow> u32 \<Rightarrow> u32 \<Rightarrow> u32 \<Rightarrow> (int + u32) option" where
  "find_symbol m exports loaded elf symbols table index =
     (let symtab = section_at (mm_byte m) elf table in
      if sh_size symtab < index * sh_entsize symtab then Some (Inl (- EUNSPEC))
      else
        let s = sym_at (mm_byte m) (elf + sh_offset symtab + 16 * index) in
        if st_shndx s = SHN_ABS then Some (Inr (st_value s))
        else if st_shndx s = SHN_UNDEF then do {
          ident \<leftarrow> cstr (mm_byte m) (elf + sh_offset (section_at (mm_byte m) elf (sh_link symtab)) + st_name s);
          r \<leftarrow> find_undefined_symbol m exports loaded ident;
          Some (case r of Inr a \<Rightarrow> Inr a | Inl _ \<Rightarrow> Inl (- ENOENT))
        }
        else find_internal (mm_byte m) (ucast (st_shndx s)) (st_value s) symbols)"

definition RELOC_NEED_SYM :: "Elf32_Rel \<Rightarrow> bool" where
  "RELOC_NEED_SYM rel \<longleftrightarrow> R_TYPE (r_info rel) \<noteq> R_386_NONE \<and> R_TYPE (r_info rel) \<noteq> R_386_RELATIVE"

definition handle_reloc ::
    "u32 \<times> u32 \<Rightarrow> module_entry list \<Rightarrow> u32 \<Rightarrow> elf_reloc list \<Rightarrow> u32 \<Rightarrow> Elf32_Rel \<Rightarrow> u32 \<Rightarrow> u32 \<Rightarrow> mmu_state \<Rightarrow> (int \<times> mmu_state) option" where
  "handle_reloc exports loaded elf relocs symbols rel symtab shndx m = do {
     sy \<leftarrow> (if RELOC_NEED_SYM rel then find_symbol m exports loaded elf symbols symtab (R_SYM (r_info rel)) else Some (Inr 0));
     Some (case sy of
         Inl _ \<Rightarrow> (- ENOENT, m)
       | Inr symaddr \<Rightarrow> (case do_reloc relocs symaddr rel shndx m of (r, m) \<Rightarrow> (if r \<noteq> 0 then - EUNSPEC else 0, m)))
   }"

fun apply_rels ::
    "u32 \<times> u32 \<Rightarrow> module_entry list \<Rightarrow> u32 \<Rightarrow> elf_reloc list \<Rightarrow> u32 \<Rightarrow> u32 \<Rightarrow> u32 \<Rightarrow> u32 \<Rightarrow> nat list \<Rightarrow> mmu_state \<Rightarrow> (int \<times> mmu_state) option" where
  "apply_rels exports loaded elf relocs symbols symtab target rel [] m = Some (0, m)"
| "apply_rels exports loaded elf relocs symbols symtab target rel (j # js) m = do {
     (r, m) \<leftarrow> handle_reloc exports loaded elf relocs symbols (rel_at (mm_byte m) (rel + 8 * of_nat j)) symtab target m;
     if r \<noteq> 0 then Some (- EUNSPEC, m) else apply_rels exports loaded elf relocs symbols symtab target rel js m
   }"

fun apply_sections :: "u32 \<times> u32 \<Rightarrow> module_entry list \<Rightarrow> u32 \<Rightarrow> elf_reloc list \<Rightarrow> u32 \<Rightarrow> u32 list \<Rightarrow> mmu_state \<Rightarrow> (int \<times> mmu_state) option" where
  "apply_sections exports loaded elf relocs symbols [] m = Some (0, m)"
| "apply_sections exports loaded elf relocs symbols (i # is) m =
     (let s = section_at (mm_byte m) elf i in
      if sh_type s \<noteq> SHT_REL then apply_sections exports loaded elf relocs symbols is m
      else if sh_entsize s = 0 then None
      else do {
        (r, m) \<leftarrow> apply_rels exports loaded elf relocs symbols (sh_link s) (sh_info s) (elf + sh_offset s)
          [0..<unat (sh_size s) div unat (sh_entsize s)] m;
        if r \<noteq> 0 then Some (- EUNSPEC, m) else apply_sections exports loaded elf relocs symbols is m
      })"

definition module_apply_relocs :: "u32 \<times> u32 \<Rightarrow> module_entry list \<Rightarrow> u32 \<Rightarrow> elf_reloc list \<Rightarrow> u32 \<Rightarrow> mmu_state \<Rightarrow> (int \<times> mmu_state) option" where
  "module_apply_relocs exports loaded elf relocs symbols m =
     apply_sections exports loaded elf relocs symbols (section_idxs (mm_byte m) elf) m"

section \<open>Placing a module\<close>

definition FORCE_ALIGN :: "u32 \<Rightarrow> u32 \<Rightarrow> u32" where
  "FORCE_ALIGN v am = (if v AND am \<noteq> 0 then (v + am) AND NOT am else v)"

definition align_mask :: "Elf32_Shdr \<Rightarrow> u32" where
  "align_mask s = (if sh_addralign s \<noteq> 0 then sh_addralign s - 1 else 0)"

record place =
  pl_prog_base :: u32
  pl_prog_size :: u32
  pl_nobits_base :: u32
  pl_nobits_size :: u32

text \<open>The first loop: the memory that is needed, or \<open>None\<close> when a section is refused.\<close>

fun place_sizes :: "Elf32_Shdr list \<Rightarrow> place \<Rightarrow> place option" where
  "place_sizes [] pl = Some pl"
| "place_sizes (s # ss) pl =
     (if sh_addr s \<noteq> 0 then None
      else if 0x80 < sh_addralign s then None
      else if sh_type s = SHT_PROGBITS then
        place_sizes ss (pl\<lparr>pl_prog_base := FORCE_ALIGN (pl_prog_base pl) (align_mask s),
          pl_prog_size := FORCE_ALIGN (pl_prog_size pl) (align_mask s) + sh_size s\<rparr>)
      else if sh_type s = SHT_NOBITS then
        place_sizes ss (pl\<lparr>pl_nobits_base := FORCE_ALIGN (pl_nobits_base pl) (align_mask s),
          pl_nobits_size := FORCE_ALIGN (pl_nobits_size pl) (align_mask s) + sh_size s\<rparr>)
      else place_sizes ss pl)"

text \<open>
  The second loop, for the sections with the indices \<open>is\<close>; the offsets are those reached so far. The
  sections' contents are copied on the way. The last entry of the result is the end mark.
\<close>

abbreviation (input) reloc_end :: elf_reloc where
  "reloc_end \<equiv> \<lparr>rl_section = 0xFFFFFFFF, rl_addr_virt = 0xFFFFFFFF, rl_addr_phys = 0xFFFFFFFF, rl_size = 0\<rparr>"

fun place_sections :: "u32 \<Rightarrow> u32 \<times> u32 \<Rightarrow> u32 \<times> u32 \<Rightarrow> u32 list \<Rightarrow> u32 \<Rightarrow> u32 \<Rightarrow> bytes \<Rightarrow> elf_reloc list \<times> bytes" where
  "place_sections elf prog nobits [] prog_offset nobits_offset m = ([reloc_end], m)"
| "place_sections elf prog nobits (i # is) prog_offset nobits_offset m =
     (let s = section_at m elf i in
      if sh_type s = SHT_PROGBITS then
        let prog_offset = FORCE_ALIGN prog_offset (align_mask s);
            r = \<lparr>rl_section = i, rl_addr_virt = fst prog + prog_offset, rl_addr_phys = snd prog + prog_offset, rl_size = sh_size s\<rparr>;
            m = copy_fwd (rl_addr_phys r) (elf + sh_offset s) (unat (rl_size r)) m;
            (rs, m) = place_sections elf prog nobits is (prog_offset + sh_size s) nobits_offset m
        in (r # rs, m)
      else if sh_type s = SHT_NOBITS then
        let nobits_offset = FORCE_ALIGN nobits_offset (align_mask s);
            r = \<lparr>rl_section = i, rl_addr_virt = fst nobits + nobits_offset, rl_addr_phys = snd nobits + nobits_offset, rl_size = sh_size s\<rparr>;
            (rs, m) = place_sections elf prog nobits is prog_offset (nobits_offset + sh_size s) m
        in (r # rs, m)
      else place_sections elf prog nobits is prog_offset nobits_offset m)"

abbreviation (input) MODULE_SECTION :: string where "MODULE_SECTION \<equiv> ''.lambda_module_data''"

record lambda_mod_head =
  mh_head_magic :: u32
  mh_function :: u32
  mh_ident :: u32
  mh_requirements :: u32

definition mod_head_at :: "bytes \<Rightarrow> u32 \<Rightarrow> lambda_mod_head" where
  "mod_head_at m a = \<lparr>mh_head_magic = get32 m a, mh_function = get32 m (a + 12), mh_ident = get32 m (a + 16), mh_requirements = get32 m (a + 36)\<rparr>"

text \<open>
  \<open>prog_phys\<close> and \<open>nobits_phys\<close> are the results of \<open>kmamalloc\<close>. The result is the address of the
  module's header, 0 on failure.
\<close>

definition module_place ::
    "u32 \<times> u32 \<Rightarrow> module_entry list \<Rightarrow> u32 \<Rightarrow> u32 \<Rightarrow> u32 \<Rightarrow> u32 \<Rightarrow> module_entry \<Rightarrow> u32 \<Rightarrow> mmu_state \<Rightarrow> (u32 \<times> module_entry \<times> mmu_state) option" where
  "module_place exports loaded prog_phys nobits_phys elf baseaddr mod_ent symbols m =
     (case place_sizes (map (section_at (mm_byte m) elf) (section_idxs (mm_byte m) elf))
         \<lparr>pl_prog_base = baseaddr, pl_prog_size = 0, pl_nobits_base = 0, pl_nobits_size = 0\<rparr> of
        None \<Rightarrow> Some (0, mod_ent, m)
      | Some pl \<Rightarrow> do {
          let nobits_base = (pl_prog_base pl + 0x1000) AND NOT 0xFFF;
          (_, m) \<leftarrow> mmu_map (pl_prog_base pl) prog_phys (pl_prog_size pl) (1 OR 2 OR 4 OR MAP_KERNEL) m;
          (_, m) \<leftarrow> mmu_map nobits_base nobits_phys (pl_nobits_size pl) (1 OR 2 OR 4 OR MAP_KERNEL) m;
          let m = upd_bytes (zero_bytes nobits_phys (unat (pl_nobits_size pl))) m;
          let (relocs, bs) = place_sections elf (pl_prog_base pl, prog_phys) (nobits_base, nobits_phys)
            (section_idxs (mm_byte m) elf) 0 0 (mm_byte m);
          let m = m\<lparr>mm_byte := bs\<rparr>;
          m \<leftarrow> translate_symbols relocs symbols m;
          (r, m) \<leftarrow> module_apply_relocs exports loaded elf relocs symbols m;
          if r \<noteq> 0 then Some (0, mod_ent, m)
          else (case elf_find_section_idx (mm_byte m) elf MODULE_SECTION of
              Inl _ \<Rightarrow> Some (0, mod_ent, m)
            | Inr mod_section \<Rightarrow>
                let new_mod_head = translate_addr relocs mod_section 0; h = mod_head_at (vmem m) new_mod_head in
                Some (new_mod_head, mod_ent\<lparr>me_func := mh_function h, me_symbols := symbols, me_ident := mh_ident h\<rparr>, m))
        })"

section \<open>Reading, installing and preloading\<close>

record mod_state =
  md_mmu :: mmu_state
  md_fs :: fs_state
  md_loaded :: "module_entry list"
  md_current_base :: u32

definition store_bytes :: "u32 \<Rightarrow> u8 list \<Rightarrow> mod_state \<Rightarrow> mod_state" where
  "store_bytes a bs s = s\<lparr>md_mmu := write_bytes a bs (md_mmu s)\<rparr>"

text \<open>
  \<open>elf_data\<close> is the result of \<open>kmalloc\<close>. The value is the module section's address and the image.
\<close>

definition module_read :: "vfs_ops \<Rightarrow> u32 \<Rightarrow> addr \<Rightarrow> mod_state \<Rightarrow> ((int + u32 \<times> u32) \<times> mod_state) option" where
  "module_read V elf_data file s =
     (if file = NULL then Some (Inl (- EINVAL), s)
      else do {
        H \<leftarrow> fs_hands (md_fs s) file;
        (r, st) \<leftarrow> kfstat (md_fs s) (kh_file H) (Some kstat_any);
        if r < 0 then Some (Inl r, s)
        else if elf_data = 0 then Some (Inl (- ENOMEM), s)
        else do {
          let fsize = kstat.st_size (the st);
          (n, data, w) \<leftarrow> fs_read V file 0 52 (md_fs s);
          let s = store_bytes elf_data data (s\<lparr>md_fs := w\<rparr>);
          if of_int n \<noteq> (52 :: u32) then Some (Inl (- EUNSPEC), s)
          else if elf_check_header (mm_byte (md_mmu s)) elf_data \<noteq> 0 then Some (Inl (- EUNSPEC), s)
          else do {
            (n, data, w) \<leftarrow> fs_read V file 0 (ucast fsize) (md_fs s);
            let s = store_bytes elf_data data (s\<lparr>md_fs := w\<rparr>);
            let m = mm_byte (md_mmu s);
            if ucast (of_int n :: u32) \<noteq> fsize then Some (Inl (- EUNSPEC), s)
            else (case elf_find_section m elf_data MODULE_SECTION of
                Inl _ \<Rightarrow> Some (Inl (- EUNSPEC), s)
              | Inr sect \<Rightarrow>
                  if mh_head_magic (mod_head_at m (elf_data + sh_offset (shdr_at m sect))) \<noteq> 0xBAC0BEEF then Some (Inl (- EUNSPEC), s)
                  else Some (Inr (sh_addr (shdr_at m sect), elf_data), s))
          }
        }
      })"

text \<open>The loop over the requirements, a \<open>NULL\<close>-terminated array of strings.\<close>

partial_function (option) check_reqs :: "bytes \<Rightarrow> string list \<Rightarrow> u32 \<Rightarrow> int option" where
  "check_reqs m idents reqs =
     (if get32 m reqs = 0 then Some 0
      else if \<exists>ident \<in> set idents. cstr_eq m (get32 m reqs) ident then check_reqs m idents (reqs + 4)
      else Some (- EUNSPEC))"

declare check_reqs.simps [code]

definition idents :: "bytes \<Rightarrow> module_entry list \<Rightarrow> string list option" where
  "idents m es = those (map (\<lambda>e. cstr m (me_ident e)) es)"

definition check_requirements :: "mmu_state \<Rightarrow> module_entry list \<Rightarrow> u32 \<Rightarrow> int option" where
  "check_requirements m loaded mod_head =
     (let reqs = mh_requirements (mod_head_at (vmem m) mod_head) in
      if reqs = 0 then Some 0
      else do { ids \<leftarrow> idents (vmem m) loaded; check_reqs (vmem m) ids reqs })"

text \<open>
  \<open>alloc\<close> gives the results of the allocator in the order of the calls: the image, the symbol table,
  and the two regions of the module. \<open>run\<close> is the module's own function, called to start it.
\<close>

record mod_alloc =
  al_image :: u32
  al_symbols :: u32
  al_prog :: u32
  al_nobits :: u32

definition module_install ::
    "vfs_ops \<Rightarrow> u32 \<times> u32 \<Rightarrow> (module_entry \<Rightarrow> mod_state \<Rightarrow> (int \<times> mod_state) option) \<Rightarrow> mod_alloc \<Rightarrow> addr \<Rightarrow> mod_state \<Rightarrow> (int \<times> mod_state) option" where
  "module_install V exports run al file s = do {
     (r, s) \<leftarrow> module_read V (al_image al) file s;
     (case r of Inl _ \<Rightarrow> Some (- EUNSPEC, s)
      | Inr (_, elf) \<Rightarrow> do {
          (r, tab, bs) \<leftarrow> elf_load_symbols (mm_byte (md_mmu s)) elf (al_symbols al);
          let s = s\<lparr>md_mmu := upd_bytes (\<lambda>_. bs) (md_mmu s)\<rparr>;
          if r \<noteq> 0 then Some (- EUNSPEC, s)
          else do {
            (head, modent, m) \<leftarrow> module_place exports (md_loaded s) (al_prog al) (al_nobits al) elf (md_current_base s)
              \<lparr>me_ident = 0, me_func = 0, me_threads = [0, 0, 0, 0], me_symbols = 0\<rparr> (the tab) (md_mmu s);
            let s = s\<lparr>md_mmu := m\<rparr>;
            if head = 0 then Some (- EUNSPEC, s)
            else do {
              let s = s\<lparr>md_current_base := md_current_base s + 0x10000\<rparr>;
              r \<leftarrow> check_requirements (md_mmu s) (md_loaded s) head;
              if r \<noteq> 0 then Some (- EUNSPEC, s)
              else do {
                (_, s) \<leftarrow> run modent s;
                Some (0, s\<lparr>md_loaded := md_loaded s @ [modent]\<rparr>)
              }
            }
          }
        })
   }"

text \<open>\<open>preload.c\<close>: one line of the file, up to the next newline, names a module.\<close>

fun preload_lines :: "u8 list \<Rightarrow> u8 list list" where
  "preload_lines [] = []"
| "preload_lines (c # cs) =
     (let l = takeWhile (\<lambda>c. c \<noteq> 10) (c # cs) in l # preload_lines (drop (Suc (length l)) (c # cs)))"

abbreviation (input) MOD_MAXPATH :: nat where "MOD_MAXPATH \<equiv> 256"

text \<open>A line that is longer than the buffer for it is written past its end.\<close>

fun preload_loop ::
    "vfs_ops \<Rightarrow> u32 \<times> u32 \<Rightarrow> (module_entry \<Rightarrow> mod_state \<Rightarrow> (int \<times> mod_state) option) \<Rightarrow> (nat \<Rightarrow> addr \<times> mod_alloc) \<Rightarrow>
      nat \<Rightarrow> u8 list list \<Rightarrow> mod_state \<Rightarrow> (int \<times> mod_state) option" where
  "preload_loop V exports run al i [] s = Some (0, s)"
| "preload_loop V exports run al i (l # ls) s =
     (if MOD_MAXPATH < length l then None
      else do {
        let mod_path = map (\<lambda>c. char_of (unat c)) (takeWhile (\<lambda>c. c \<noteq> 0) l);
        mod_file \<leftarrow> fs_find_file (md_fs s) NULL mod_path;
        if mod_file = NULL then Some (- ENOENT, s)
        else do {
          (mod_hand, w) \<leftarrow> fs_handle_create_open V (fst (al i)) mod_file OFLAGS_READ (md_fs s);
          (r, s) \<leftarrow> module_install V exports run (snd (al i)) mod_hand (s\<lparr>md_fs := w\<rparr>);
          let s = s\<lparr>md_fs := snd (fs_handle_destroy mod_hand (md_fs s))\<rparr>;
          if r \<noteq> 0 then Some (- EUNSPEC, s) else preload_loop V exports run al (Suc i) ls s
        }
      })"

text \<open>\<open>hand\<close> is the handle allocated to read the list; \<open>buf_ok\<close> and \<open>path_ok\<close> whether the two buffers are.\<close>

definition modules_preload ::
    "vfs_ops \<Rightarrow> u32 \<times> u32 \<Rightarrow> (module_entry \<Rightarrow> mod_state \<Rightarrow> (int \<times> mod_state) option) \<Rightarrow> (nat \<Rightarrow> addr \<times> mod_alloc) \<Rightarrow>
      addr \<Rightarrow> bool \<Rightarrow> bool \<Rightarrow> string \<Rightarrow> mod_state \<Rightarrow> (int \<times> mod_state) option" where
  "modules_preload V exports run al hand buf_ok path_ok path s = do {
     (r, data, w) \<leftarrow> fs_read_file_by_path V hand buf_ok (Some path) NULL 0 (md_fs s);
     let s = s\<lparr>md_fs := w\<rparr>;
     if r \<noteq> 0 then Some (- ENOENT, s)
     else if \<not> path_ok then None
     else preload_loop V exports run al 0 (preload_lines (the data)) s
   }"

section \<open>Threads of a module\<close>

abbreviation (input) PRIO_DRIVER :: int where "PRIO_DRIVER \<equiv> 3"

text \<open>
  \<open>ident\<close> is the text of the module's identifier. The module is
  \<open>None\<close> when its pointer is \<open>NULL\<close>; the result has the module with its table of threads.
\<close>

definition module_start_thread ::
    "(nat \<Rightarrow> lock_t \<times> u64) \<Rightarrow> u32 \<Rightarrow> string \<Rightarrow> module_entry option \<Rightarrow> addr \<Rightarrow> addr \<Rightarrow> string option \<Rightarrow> kstate \<Rightarrow>
      (int \<times> module_entry option \<times> kstate) option" where
  "module_start_thread env tramp ident modp start data name s =
     (case modp of None \<Rightarrow> Some (- EINVAL, modp, s)
      | Some e \<Rightarrow>
          if start = NULL then Some (- EINVAL, modp, s)
          else
            let name = (case name of None \<Rightarrow> take 255 ident | Some n \<Rightarrow> n) in
            (case first_slot (\<lambda>t. t = 0) (me_threads e) of
               None \<Rightarrow> Some (- EUNSPEC, modp, s)
             | Some tidx \<Rightarrow> do {
                 (tid, s) \<leftarrow> thread_spawn env tramp start data name CONFIG_PROC_KERN_STACK_SIZE PRIO_DRIVER s;
                 if tid < 0 then Some (tid, modp, s)
                 else Some (tid, Some (e\<lparr>me_threads := (me_threads e)[tidx := tid]\<rparr>), s)
               }))"

end
