(* ===== verification/Module_Sound.thy ===== *)
theory Module_Sound
  imports Module
begin

text \<open>
  What the module loader does: translating a symbol table, applying relocations and laying out
  sections.
\<close>

section \<open>Tables in memory\<close>

lemma unat_shift: "unat ((x :: u32) - (p + 16)) = (if 16 \<le> unat (x - p) then unat (x - p) - 16 else unat (x - p) + 4294967280)"
proof (cases "16 \<le> unat (x - p)")
  case True
  then have "unat (x - p - 16) = unat (x - p) - unat (16 :: u32)" by (intro unat_sub_u32) (simp add: word_le_nat_alt)
  then show ?thesis using True by (simp add: diff_diff_eq)
next
  case False
  have u: "unat (- 16 :: u32) = 4294967280" by simp
  have "x - (p + 16) = x - p + - 16" by simp
  also have "unat \<dots> = unat (x - p) + 4294967280"
    using False u by (subst unat_add_u32_lt) simp_all
  finally show ?thesis using False by simp
qed

lemma table_at_cong:
  assumes "table_at b p ss" "\<And>x. unat (x - p) < 16 * length ss + 16 \<Longrightarrow> b' x = b x" "16 * length ss + 16 \<le> 4294967296"
  shows "table_at b' p ss"
  using assms
proof (induction ss arbitrary: p)
  case Nil
  have "symbol_at b' p = symbol_at b p"
    using Nil.prems(2) by (intro symbol_at_cong) (simp add: unat_of_nat_u32)
  then show ?case using Nil by simp
next
  case (Cons s ss)
  have "symbol_at b' p = symbol_at b p"
    using Cons.prems(2) by (intro symbol_at_cong) (simp add: unat_of_nat_u32)
  moreover have "table_at b' (p + 16) ss"
    using Cons.prems by (intro Cons.IH) (auto simp: unat_shift split: if_splits)
  ultimately show ?case using Cons.prems(1) by simp
qed

lemma symbol_at_put_addr: "symbol_at (put32 (p + 4) v b) p = (symbol_at b p)\<lparr>sym_addr := v\<rparr>"
  using get32_put32_other [of 4 0 p v b] get32_put32_other [of 4 8 p v b] get32_put32_other [of 4 12 p v b]
  by (simp add: symbol_at_def)

lemma put_addr_other: "16 \<le> unat (x - p) \<Longrightarrow> put32 (p + 4) v b x = b x"
  using put32_at [of 4 "unat (x - p)" p v b] by simp

section \<open>Translated symbols\<close>

definition relocated :: "elf_reloc list \<Rightarrow> symbol \<Rightarrow> symbol" where
  "relocated relocs s = (case get_reloc relocs (sym_section s) of Some r \<Rightarrow> s\<lparr>sym_addr := rl_addr_virt r\<rparr> | None \<Rightarrow> s)"

lemma translate_symbol_bytes:
  assumes "symbol_at (mm_byte m) p = s" "16 * n + 16 \<le> 4294967296"
  obtains b where "snd (translate_symbol relocs p m) = m\<lparr>mm_byte := b\<rparr>" "symbol_at b p = relocated relocs s"
    "\<And>x. 16 \<le> unat (x - p) \<Longrightarrow> b x = mm_byte m x"
proof (cases "get_reloc relocs (sym_section s)")
  case None
  then show ?thesis using assms(1) that [of "mm_byte m"] by (simp add: translate_symbol_def relocated_def)
next
  case (Some r)
  then show ?thesis
    using assms(1) that [of "put32 (p + 4) (rl_addr_virt r) (mm_byte m)"]
    by (simp add: translate_symbol_def relocated_def symbol_at_put_addr put_addr_other upd_bytes_def)
qed

lemma translate_symbols_table:
  assumes "table_at (mm_byte m) p ss" "16 * length ss + 16 \<le> 4294967296"
    "\<forall>s \<in> set ss. sym_addr (relocated relocs s) \<noteq> SYM_END"
  shows "\<exists>b. translate_symbols relocs p m = Some (m\<lparr>mm_byte := b\<rparr>) \<and> table_at b p (map (relocated relocs) ss) \<and>
    (\<forall>x. 16 * length ss \<le> unat (x - p) \<longrightarrow> b x = mm_byte m x)"
  using assms
proof (induction ss arbitrary: p m)
  case Nil
  then show ?case by (subst translate_symbols.simps) (simp add: exI [of _ "mm_byte m"])
next
  case (Cons s ss)
  obtain b where b: "snd (translate_symbol relocs p m) = m\<lparr>mm_byte := b\<rparr>" "symbol_at b p = relocated relocs s"
    "\<And>x. 16 \<le> unat (x - p) \<Longrightarrow> b x = mm_byte m x"
    using translate_symbol_bytes [of m p s "length ss" relocs] Cons.prems by auto
  have "table_at b (p + 16) ss"
  proof (rule table_at_cong)
    show "table_at (mm_byte m) (p + 16) ss" using Cons.prems(1) by simp
    show "b x = mm_byte m x" if "unat (x - (p + 16)) < 16 * length ss + 16" for x
      using that Cons.prems(2) by (intro b(3)) (simp add: unat_shift split: if_splits)
  qed (use Cons.prems(2) in simp)
  then obtain c where c: "translate_symbols relocs (p + 16) (m\<lparr>mm_byte := b\<rparr>) = Some (m\<lparr>mm_byte := c\<rparr>)"
    "table_at c (p + 16) (map (relocated relocs) ss)" "\<And>x. 16 * length ss \<le> unat (x - (p + 16)) \<Longrightarrow> c x = b x"
    using Cons.IH [of "m\<lparr>mm_byte := b\<rparr>" "p + 16"] Cons.prems by auto
  have "symbol_at c p = symbol_at b p"
  proof (rule symbol_at_cong, rule c(3))
    fix i :: nat assume "i < 16"
    then have "unat (p + of_nat i - p) = i" by (simp add: unat_of_nat_u32)
    then show "16 * length ss \<le> unat (p + of_nat i - (p + 16))"
      unfolding unat_shift using \<open>i < 16\<close> Cons.prems(2) by simp
  qed
  then have "table_at c p (map (relocated relocs) (s # ss))" using b(2) c(2) Cons.prems(3) by simp
  moreover have "c x = mm_byte m x" if "16 * length (s # ss) \<le> unat (x - p)" for x
    using c(3) [of x] b(3) [of x] that by (simp add: unat_shift)
  moreover have "translate_symbols relocs p m = Some (m\<lparr>mm_byte := c\<rparr>)"
    using Cons.prems(1) b(1) c(1) by (subst translate_symbols.simps) simp
  ultimately show ?case by blast
qed

lemma find_internal_table:
  "table_at b p ss \<Longrightarrow> find_internal b shndx value p =
     Some (case find (\<lambda>s. sym_section s = shndx) ss of Some s \<Rightarrow> Inr (sym_addr s + value) | None \<Rightarrow> Inl (- ENOENT))"
  by (induction ss arbitrary: p) (subst find_internal.simps; auto)+

text \<open>
  Once \<open>translate_symbols\<close> has run, a relocation against a symbol
  of the module itself resolves to the address at which the symbol's section is placed plus the
  symbol's value. A lookup by name, which other modules use, resolves to the address of the section
  alone: the value of the symbol is lost.
\<close>

theorem translate_symbols_resolution:
  assumes tab: "table_at (mm_byte m) p ss" and len: "16 * length ss + 16 \<le> 4294967296"
    and addrs: "\<forall>s \<in> set ss. sym_addr (relocated relocs s) \<noteq> SYM_END"
    and names: "\<forall>s \<in> set ss. \<forall>i \<le> length name. 16 * length ss \<le> unat (sym_name s + of_nat i - p)"
  shows "\<exists>m'. translate_symbols relocs p m = Some m' \<and>
    (\<forall>shndx r value. get_reloc relocs shndx = Some r \<and> shndx \<in> sym_section ` set ss \<longrightarrow>
       find_internal (mm_byte m') shndx value p = Some (Inr (rl_addr_virt r + value))) \<and>
    (\<forall>s r. find (\<lambda>s. cstr_eq (mm_byte m) (sym_name s) name) ss = Some s \<and> get_reloc relocs (sym_section s) = Some r \<longrightarrow>
       module_symbol_find_module (mm_byte m') name p = Some (Inr (rl_addr_virt r)))"
proof -
  obtain b where b: "translate_symbols relocs p m = Some (m\<lparr>mm_byte := b\<rparr>)" "table_at b p (map (relocated relocs) ss)"
    "\<And>x. 16 * length ss \<le> unat (x - p) \<Longrightarrow> b x = mm_byte m x"
    using translate_symbols_table [OF tab len addrs] by blast
  have sec: "sym_section (relocated relocs s) = sym_section s" "sym_name (relocated relocs s) = sym_name s" for s
    by (simp_all add: relocated_def split: option.splits)
  have find_sec: "find (\<lambda>s. sym_section s = shndx) (map (relocated relocs) ss) = map_option (relocated relocs) (find (\<lambda>s. sym_section s = shndx) ss)" for shndx
    by (rule find_map_eq) (simp add: sec)
  have "find (\<lambda>s. cstr_eq b (sym_name s) name) (map (relocated relocs) ss) =
      map_option (relocated relocs) (find (\<lambda>s. cstr_eq (mm_byte m) (sym_name s) name) ss)"
    using names b(3) by (intro find_map_eq) (simp add: sec, rule cstr_eq_cong, simp)
  note named = find_module_table [OF b(2), of name, unfolded this]
  have intern: "find_internal b shndx v p = Some (Inr (rl_addr_virt r + v))"
    if h: "get_reloc relocs shndx = Some r" "shndx \<in> sym_section ` set ss" for shndx r v
  proof -
    obtain s where s: "find (\<lambda>s. sym_section s = shndx) ss = Some s"
      using h(2) by (cases "find (\<lambda>s. sym_section s = shndx) ss") (auto simp: find_None_iff)
    then have "sym_section s = shndx" using find_in_set by fast
    then show ?thesis unfolding find_internal_table [OF b(2)] find_sec s using h(1) by (simp add: relocated_def)
  qed
  show ?thesis
    by (rule exI [of _ "m\<lparr>mm_byte := b\<rparr>"]) (auto simp: b(1) intern named relocated_def)
qed

text \<open>A table with one symbol, \<open>f\<close> of value \<open>0x40\<close> in section 1.\<close>

definition ex_table :: bytes where
  "ex_table = (\<lambda>_. 0)(0x1001 := 0x20, 0x1004 := 0x40, 0x100C := 1,
     0x1014 := 0xFF, 0x1015 := 0xFF, 0x1016 := 0xFF, 0x1017 := 0xFF, 0x2000 := 102)"

definition ex_relocs :: "elf_reloc list" where
  "ex_relocs = [\<lparr>rl_section = 1, rl_addr_virt = 0xD0000000, rl_addr_phys = 0x3000, rl_size = 0x80\<rparr>, reloc_end]"

lemma ex_table_at: "table_at ex_table 0x1000 [\<lparr>sym_name = 0x2000, sym_addr = 0x40, sym_size = 0, sym_section = 1\<rparr>]"
  by (simp add: symbol_at_def get32_def ex_table_def)

theorem translate_symbols_resolution_witness:
  "\<exists>m'. translate_symbols ex_relocs 0x1000 (mmu_empty\<lparr>mm_byte := ex_table\<rparr>) = Some m' \<and>
     find_internal (mm_byte m') 1 0x40 0x1000 = Some (Inr 0xD0000040) \<and>
     module_symbol_find_module (mm_byte m') ''f'' 0x1000 = Some (Inr 0xD0000000)"
proof -
  let ?ss = "[\<lparr>sym_name = 0x2000, sym_addr = 0x40, sym_size = 0, sym_section = 1\<rparr>]"
  have tab: "table_at (mm_byte (mmu_empty\<lparr>mm_byte := ex_table\<rparr>)) 0x1000 ?ss" using ex_table_at by simp
  have addrs: "\<forall>s \<in> set ?ss. sym_addr (relocated ex_relocs s) \<noteq> SYM_END" by (simp add: relocated_def ex_relocs_def)
  have names: "\<forall>s \<in> set ?ss. \<forall>i \<le> length ''f''. 16 * length ?ss \<le> unat (sym_name s + of_nat i - 0x1000)"
    by (auto simp: le_Suc_eq)
  have f: "cstr_eq ex_table 0x2000 ''f''" by (simp add: ex_table_def of_char_def)
  show ?thesis
    using translate_symbols_resolution [OF tab _ addrs names] f by (auto simp: ex_relocs_def)
qed

section \<open>The layout of a module\<close>

lemma and_not_split: "((x :: u32) AND a) + (x AND NOT a) = x"
proof -
  have "(x AND a) + (x AND NOT a) = (x AND a) OR (x AND NOT a)"
    by (rule disjunctive_add_eq_or) (simp add: and.assoc and.left_commute)
  also have "\<dots> = x" by (rule bit_eqI) (auto simp: bit_simps)
  finally show ?thesis .
qed

lemma unat_and_mask: "unat ((x :: u32) AND mask k) = unat x mod 2 ^ k"
  unfolding take_bit_eq_mask [symmetric] unsigned_take_bit_eq by (simp only: take_bit_eq_mod)

lemma unat_and_not_mask: "unat ((x :: u32) AND NOT (mask k)) = unat x - unat x mod 2 ^ k"
proof -
  have le: "x AND mask k \<le> x" by (simp add: word_le_nat_alt unat_and_mask)
  have "x AND NOT (mask k) = x - (x AND mask k)" using and_not_split [of x "mask k"] by (metis add_diff_cancel_left')
  then show ?thesis using unat_sub_u32 [OF le] by (simp only: unat_and_mask)
qed

lemma FORCE_ALIGN_spec:
  assumes "k \<le> 7" "unat v + 128 < 4294967296"
  shows "unat v \<le> unat (FORCE_ALIGN v (mask k))" "2 ^ k dvd unat (FORCE_ALIGN v (mask k))"
    "unat (FORCE_ALIGN v (mask k)) < unat v + 2 ^ k"
proof -
  let ?n = "unat v + (2 ^ k - 1)"
  have k: "(2 :: nat) ^ k \<le> 2 ^ 7" using assms(1) by (rule power_increasing) simp
  have m: "unat (mask k :: u32) = 2 ^ k - 1" 
  proof -
    have "k \<in> {0, 1, 2, 3, 4, 5, 6, 7}" using assms(1) by auto
    then show ?thesis by (auto simp: mask_eq_exp_minus_1)
  qed
  then have add: "unat (v + mask k) = ?n" using k assms(2) by (subst unat_add_u32_lt) simp_all
  have z: "v AND mask k \<noteq> 0 \<longleftrightarrow> unat v mod 2 ^ k \<noteq> 0" using unat_and_mask [of v k] by (metis unat_0 word_unat_eq_iff)
  have up: "unat (FORCE_ALIGN v (mask k)) = (if unat v mod 2 ^ k = 0 then unat v else ?n - ?n mod 2 ^ k)"
    unfolding FORCE_ALIGN_def using z by (simp add: unat_and_not_mask add)
  have "?n mod 2 ^ k < 2 ^ k" "0 < (2 :: nat) ^ k" by simp_all
  then have "unat v \<le> ?n - ?n mod 2 ^ k" "?n - ?n mod 2 ^ k < unat v + 2 ^ k" by linarith+
  then show "unat v \<le> unat (FORCE_ALIGN v (mask k))" "unat (FORCE_ALIGN v (mask k)) < unat v + 2 ^ k"
    unfolding up by (simp_all only: split: if_split) simp_all
  have "2 ^ k dvd ?n - ?n mod 2 ^ k" by (rule dvd_minus_mod)
  then show "2 ^ k dvd unat (FORCE_ALIGN v (mask k))"
    unfolding up by (simp only: mod_eq_0_iff_dvd split: if_split) simp
qed

text \<open>
  Pieces \<open>(offset, size, alignment)\<close> that lie one behind the other, each aligned, from \<open>lo\<close> up to
  \<open>hi\<close>.
\<close>

fun chained :: "nat \<Rightarrow> (nat \<times> nat \<times> nat) list \<Rightarrow> nat \<Rightarrow> bool" where
  "chained lo [] hi \<longleftrightarrow> lo = hi"
| "chained lo ((off, n, a) # ps) hi \<longleftrightarrow> lo \<le> off \<and> a dvd off \<and> chained (off + n) ps hi"

text \<open>Sections that \<open>place_sizes\<close> accepts and whose alignment is a power of two, as the ELF standard asks.\<close>

definition sect_ok :: "Elf32_Shdr \<Rightarrow> bool" where
  "sect_ok s \<longleftrightarrow> sh_addralign s = 0 \<or> (\<exists>k \<le> 7. sh_addralign s = 2 ^ k)"

definition sect_align :: "Elf32_Shdr \<Rightarrow> nat" where
  "sect_align s = (if sh_addralign s = 0 then 1 else unat (sh_addralign s))"

lemma sect_ok_mask:
  assumes "sect_ok s"
  obtains k where "k \<le> 7" "align_mask s = mask k" "sect_align s = 2 ^ k"
proof (cases "sh_addralign s = 0")
  case True
  then show ?thesis using that [of 0] by (simp add: align_mask_def sect_align_def)
next
  case False
  then obtain k where k: "k \<le> 7" "sh_addralign s = 2 ^ k" using assms by (auto simp: sect_ok_def)
  have "unat ((2 :: u32) ^ k) = 2 ^ k"
  proof -
    have "k \<in> {0, 1, 2, 3, 4, 5, 6, 7}" using k(1) by auto
    then show ?thesis by auto
  qed
  then show ?thesis using that [of k] k False by (simp add: align_mask_def sect_align_def mask_eq_exp_minus_1)
qed

text \<open>An upper bound of the room that sections take.\<close>

definition room :: "Elf32_Shdr list \<Rightarrow> nat" where
  "room ss = (\<Sum>s\<leftarrow>ss. unat (sh_size s) + 128)"

text \<open>The headers of the sections \<open>is\<close> are outside of the first \<open>n\<close> bytes of the block at \<open>p\<close>.\<close>

definition headers_apart :: "bytes \<Rightarrow> u32 \<Rightarrow> u32 list \<Rightarrow> u32 \<Rightarrow> nat \<Rightarrow> bool" where
  "headers_apart b elf is p n \<longleftrightarrow> (\<forall>k < 4. n \<le> unat (elf + 32 + of_nat k - p)) \<and>
     (\<forall>i \<in> set is. \<forall>k < 40. n \<le> unat (section_ptr b elf i + of_nat k - p))"

lemma shdr_at_cong:
  assumes "\<And>i. i < 40 \<Longrightarrow> b' (a + of_nat i) = b (a + of_nat i)"
  shows "shdr_at b' a = shdr_at b a"
proof -
  have "get32 b' (a + of_nat f) = get32 b (a + of_nat f)" if "f + 4 \<le> 40" for f
    using get32_field_cong [of 40 b' a b f] assms that by blast
  from this [of 0] this [of 4] this [of 8] this [of 12] this [of 16] this [of 20] this [of 24] this [of 28] this [of 32] this [of 36]
  show ?thesis by (simp add: shdr_at_def)
qed

lemma section_at_stable:
  assumes "headers_apart b elf is p n" "\<And>x. n \<le> unat (x - p) \<Longrightarrow> b' x = b x" "i \<in> set is"
  shows "section_ptr b' elf i = section_ptr b elf i" "section_at b' elf i = section_at b elf i"
proof -
  have "get32 b' (elf + 32) = get32 b (elf + 32)"
    using assms(1,2) by (intro get32_cong) (simp add: headers_apart_def)
  then show p: "section_ptr b' elf i = section_ptr b elf i"
    by (simp add: section_ptr_def elf_get_sections_def ehdr_at_def)
  show "section_at b' elf i = section_at b elf i"
    unfolding section_at_def p using assms by (intro shdr_at_cong) (simp add: headers_apart_def)
qed

definition pieces :: "(u32 \<Rightarrow> Elf32_Shdr) \<Rightarrow> u32 \<Rightarrow> u32 \<Rightarrow> elf_reloc list \<Rightarrow> (nat \<times> nat \<times> nat) list" where
  "pieces S ty base rs = map (\<lambda>r. (unat (rl_addr_phys r - base), unat (rl_size r), sect_align (S (rl_section r))))
     (filter (\<lambda>r. sh_type (S (rl_section r)) = ty) rs)"

definition placeable :: "bytes \<Rightarrow> u32 \<Rightarrow> u32 list \<Rightarrow> u32 \<Rightarrow> nat \<Rightarrow> bool" where
  "placeable b elf is p n \<longleftrightarrow> headers_apart b elf is p n \<and> (\<forall>i \<in> set is. sect_ok (section_at b elf i) \<and>
     (\<forall>j < unat (sh_size (section_at b elf i)). n \<le> unat (elf + sh_offset (section_at b elf i) + of_nat j - p)))"

lemma placeable_stable:
  assumes "placeable b elf (i # is) p n" "\<And>x. n \<le> unat (x - p) \<Longrightarrow> b' x = b x"
  shows "placeable b' elf is p n" "\<And>j. j \<in> set (i # is) \<Longrightarrow> section_at b' elf j = section_at b elf j"
proof -
  have h: "headers_apart b elf (i # is) p n" using assms(1) by (simp add: placeable_def)
  note st = section_at_stable [OF h assms(2)]
  show "\<And>j. j \<in> set (i # is) \<Longrightarrow> section_at b' elf j = section_at b elf j" using st(2) by blast
  then show "placeable b' elf is p n" using assms(1) st(1) by (simp add: placeable_def headers_apart_def)
qed

text \<open>What the second loop leaves behind, when the first one has accepted the sections.\<close>

definition placed_ok ::
    "(u32 \<Rightarrow> Elf32_Shdr) \<Rightarrow> u32 \<Rightarrow> u32 \<times> u32 \<Rightarrow> u32 \<times> u32 \<Rightarrow> u32 list \<Rightarrow> nat \<Rightarrow> nat \<Rightarrow> place \<Rightarrow> nat \<Rightarrow> bytes \<Rightarrow> elf_reloc list \<Rightarrow> bytes \<Rightarrow> bool" where
  "placed_ok S elf prog nobits is po no pl n b rs b' \<longleftrightarrow>
     map rl_section rs = filter (\<lambda>i. sh_type (S i) = SHT_PROGBITS \<or> sh_type (S i) = SHT_NOBITS) is \<and>
     chained po (pieces S SHT_PROGBITS (snd prog) rs) (unat (pl_prog_size pl)) \<and>
     chained no (pieces S SHT_NOBITS (snd nobits) rs) (unat (pl_nobits_size pl)) \<and>
     (\<forall>r \<in> set rs. rl_size r = sh_size (S (rl_section r)) \<and>
        (if sh_type (S (rl_section r)) = SHT_PROGBITS
         then rl_addr_virt r - fst prog = rl_addr_phys r - snd prog \<and>
           (\<forall>j < unat (rl_size r). b' (rl_addr_phys r + of_nat j) = b (elf + sh_offset (S (rl_section r)) + of_nat j))
         else rl_addr_virt r - fst nobits = rl_addr_phys r - snd nobits)) \<and>
     (\<forall>x. unat (x - snd prog) < po \<or> n \<le> unat (x - snd prog) \<longrightarrow> b' x = b x)"

lemma placed_ok_section: "placed_ok S elf prog nobits is po no pl n b rs b' \<Longrightarrow> r \<in> set rs \<Longrightarrow> rl_section r \<in> set is"
  unfolding placed_ok_def by (metis (no_types, lifting) filter_is_subset image_eqI list.set_map subsetD)

lemma placed_ok_cong:
  assumes "placed_ok S elf prog nobits is po no pl n b rs b'" "\<And>i. i \<in> set is \<Longrightarrow> S i = S' i"
  shows "placed_ok S' elf prog nobits is po no pl n b rs b'"
proof -
  have "\<And>r. r \<in> set rs \<Longrightarrow> S (rl_section r) = S' (rl_section r)" using assms placed_ok_section by blast
  then have "pieces S ty base rs = pieces S' ty base rs" for ty base
    unfolding pieces_def by (auto intro!: map_cong filter_cong)
  moreover have "filter (\<lambda>i. sh_type (S i) = SHT_PROGBITS \<or> sh_type (S i) = SHT_NOBITS) is =
      filter (\<lambda>i. sh_type (S' i) = SHT_PROGBITS \<or> sh_type (S' i) = SHT_NOBITS) is"
    using assms(2) by (intro filter_cong) auto
  ultimately show ?thesis using assms(1) \<open>\<And>r. r \<in> set rs \<Longrightarrow> S (rl_section r) = S' (rl_section r)\<close>
    unfolding placed_ok_def by simp
qed

lemma placed_ok_prog:
  assumes pl: "placeable b elf (i # is) (snd prog) n" and ty: "sh_type (section_at b elf i) = SHT_PROGBITS"
    and off: "po \<le> unat off" "sect_align (section_at b elf i) dvd unat off" "unat off + unat (sh_size (section_at b elf i)) \<le> n" "n < 4294967296"
    and b1: "b1 = copy_fwd (snd prog + off) (elf + sh_offset (section_at b elf i)) (unat (sh_size (section_at b elf i))) b"
    and ok: "placed_ok (section_at b elf) elf prog nobits is (unat (off + sh_size (section_at b elf i))) no pl' n b1 rs b'"
  shows "placed_ok (section_at b elf) elf prog nobits (i # is) po no pl' n b
    (\<lparr>rl_section = i, rl_addr_virt = fst prog + off, rl_addr_phys = snd prog + off, rl_size = sh_size (section_at b elf i)\<rparr> # rs) b'"
proof -
  let ?S = "section_at b elf" and ?p = "snd prog" and ?e = "unat off"
  let ?L = "unat (sh_size (?S i))" and ?src = "elf + sh_offset (?S i)"
  have e: "?p + off = ?p + of_nat ?e" by simp
  have add: "unat (off + sh_size (?S i)) = ?e + ?L" using off by (intro unat_add_u32_lt) simp
  have src: "n \<le> unat (elf + sh_offset (?S i') + of_nat j - ?p)" if "i' \<in> set (i # is)" "j < unat (sh_size (?S i'))" for i' j
    using pl that by (auto simp: placeable_def)
  have src0: "?e + ?L \<le> unat (?src + of_nat j - ?p)" if "j < ?L" for j using src [of i j] that off(3) by simp
  have tot: "?e + ?L < 4294967296" using off by simp
  have c: "b1 (?p + off + of_nat j) = b (?src + of_nat j)" if "j < ?L" for j
    using copy_behind(1) [where m = b, OF src0 tot that] unfolding b1 e .
  have b1_same: "b1 x = b x" if "unat (x - ?p) < ?e \<or> ?e + ?L \<le> unat (x - ?p)" for x
    using copy_frame [OF that, of ?src b] tot unfolding b1 by simp
  have frame: "b' x = b1 x" if "unat (x - ?p) < ?e + ?L \<or> n \<le> unat (x - ?p)" for x
    using ok that unfolding placed_ok_def add by blast
  have "unat (off + of_nat j) = ?e + j" if "j < ?L" for j
    using that off by (subst unat_add_u32_lt) (simp_all add: unat_of_nat_u32)
  then have first: "b' (?p + off + of_nat j) = b (?src + of_nat j)" if "j < ?L" for j
    using frame [of "?p + off + of_nat j"] c that by (simp add: add.assoc)
  have rest: "b1 (elf + sh_offset (?S (rl_section r)) + of_nat j) = b (elf + sh_offset (?S (rl_section r)) + of_nat j)"
    if "r \<in> set rs" "j < unat (sh_size (?S (rl_section r)))" for r j
    using src [of "rl_section r" j] placed_ok_section [OF ok that(1)] that(2) off(3) by (intro b1_same) simp
  show ?thesis
    unfolding placed_ok_def
  proof (intro conjI)
    show "\<forall>x. unat (x - ?p) < po \<or> n \<le> unat (x - ?p) \<longrightarrow> b' x = b x"
    proof (intro allI impI)
      fix x assume x: "unat (x - ?p) < po \<or> n \<le> unat (x - ?p)"
      then have "b' x = b1 x" using off by (intro frame) auto
      also have "\<dots> = b x" using x off by (intro b1_same) auto
      finally show "b' x = b x" .
    qed
  qed (use ok ty first rest off in \<open>auto simp: placed_ok_def pieces_def add\<close>)
qed

lemma placed_ok_nobits:
  assumes ty: "sh_type (section_at b elf i) = SHT_NOBITS"
    and off: "no \<le> unat off" "sect_align (section_at b elf i) dvd unat off" "unat off + unat (sh_size (section_at b elf i)) < 4294967296"
    and ok: "placed_ok (section_at b elf) elf prog nobits is po (unat (off + sh_size (section_at b elf i))) pl' n b rs b'"
  shows "placed_ok (section_at b elf) elf prog nobits (i # is) po no pl' n b
    (\<lparr>rl_section = i, rl_addr_virt = fst nobits + off, rl_addr_phys = snd nobits + off, rl_size = sh_size (section_at b elf i)\<rparr> # rs) b'"
proof -
  have "unat (off + sh_size (section_at b elf i)) = unat off + unat (sh_size (section_at b elf i))" using off(3) by (rule unat_add_u32_lt)
  then show ?thesis using ok ty off by (simp add: placed_ok_def pieces_def)
qed

lemma place_sections_ok:
  assumes "placeable b elf is (snd prog) n" "place_sizes (map (section_at b elf) is) pl = Some pl'"
    "unat (pl_prog_size pl) + room (map (section_at b elf) is) \<le> n" "n + 128 < 4294967296"
    "unat (pl_nobits_size pl) + room (map (section_at b elf) is) + 128 < 4294967296"
  shows "\<exists>rs b'. place_sections elf prog nobits is (pl_prog_size pl) (pl_nobits_size pl) b = (rs @ [reloc_end], b') \<and>
    placed_ok (section_at b elf) elf prog nobits is (unat (pl_prog_size pl)) (unat (pl_nobits_size pl)) pl' n b rs b'"
  using assms(1-3,5)
proof (induction "is" arbitrary: b pl)
  case Nil
  then show ?case by (simp add: placed_ok_def pieces_def)
next
  case (Cons i "is")
  let ?S = "section_at b elf" and ?s = "section_at b elf i"
  obtain k where k: "k \<le> 7" "align_mask ?s = mask k" "sect_align ?s = 2 ^ k"
    using Cons.prems(1) by (auto simp: placeable_def elim: sect_ok_mask)
  have acc: "sh_addr ?s = 0" "\<not> 0x80 < sh_addralign ?s" using Cons.prems(2) by (auto split: if_splits)
  consider (prog) "sh_type ?s = SHT_PROGBITS" | (nobits) "sh_type ?s = SHT_NOBITS" | (other) "sh_type ?s \<noteq> SHT_PROGBITS" "sh_type ?s \<noteq> SHT_NOBITS"
    by blast
  then show ?case
  proof cases
    case prog
    let ?off = "FORCE_ALIGN (pl_prog_size pl) (mask k)" and ?L = "sh_size ?s"
    let ?b = "copy_fwd (snd prog + ?off) (elf + sh_offset ?s) (unat ?L) b" and ?pl = "pl\<lparr>pl_prog_base := FORCE_ALIGN (pl_prog_base pl) (mask k), pl_prog_size := ?off + ?L\<rparr>"
    have room: "room (map ?S (i # is)) = unat ?L + 128 + room (map ?S is)" by (simp add: room_def)
    have "unat (pl_prog_size pl) + 128 < 4294967296" using Cons.prems(3) assms(4) room by simp
    note off = FORCE_ALIGN_spec [OF k(1) this]
    have "(2 :: nat) ^ k \<le> 2 ^ 7" using k(1) by (rule power_increasing) simp
    then have fits: "unat ?off + unat ?L + room (map ?S is) \<le> n" using off(3) Cons.prems(3) room by simp
    have add: "unat (?off + ?L) = unat ?off + unat ?L" using fits assms(4) by (intro unat_add_u32_lt) simp
    have frame: "?b x = b x" if "n \<le> unat (x - snd prog)" for x
      using that fits assms(4) by (intro copy_frame) auto
    note st = placeable_stable [OF Cons.prems(1) frame]
    have maps: "map (section_at ?b elf) is = map ?S is" using st(2) by simp
    have "place_sizes (map (section_at ?b elf) is) ?pl = Some pl'" using Cons.prems(2) prog acc k(2) unfolding maps by simp
    with Cons.IH [OF st(1), of ?pl] obtain rs b' where
      rs: "place_sections elf prog nobits is (?off + ?L) (pl_nobits_size pl) ?b = (rs @ [reloc_end], b')"
      and ok1: "placed_ok (section_at ?b elf) elf prog nobits is (unat (?off + ?L)) (unat (pl_nobits_size pl)) pl' n ?b rs b'"
      using fits Cons.prems(4) room unfolding maps by (auto simp: add)
    have "placed_ok ?S elf prog nobits is (unat (?off + ?L)) (unat (pl_nobits_size pl)) pl' n ?b rs b'"
      by (rule placed_ok_cong [OF ok1], rule st(2)) simp_all
    from placed_ok_prog [OF Cons.prems(1) prog off(1) _ _ _ refl this] off(2) fits assms(4) k(3)
    have "placed_ok ?S elf prog nobits (i # is) (unat (pl_prog_size pl)) (unat (pl_nobits_size pl)) pl' n b
      (\<lparr>rl_section = i, rl_addr_virt = fst prog + ?off, rl_addr_phys = snd prog + ?off, rl_size = ?L\<rparr> # rs) b'" by simp
    then show ?thesis using rs prog k(2) by (auto simp: Let_def)
  next
    case nobits
    let ?off = "FORCE_ALIGN (pl_nobits_size pl) (mask k)" and ?L = "sh_size ?s"
    let ?pl = "pl\<lparr>pl_nobits_base := FORCE_ALIGN (pl_nobits_base pl) (mask k), pl_nobits_size := ?off + ?L\<rparr>"
    have room: "room (map ?S (i # is)) = unat ?L + 128 + room (map ?S is)" by (simp add: room_def)
    have "unat (pl_nobits_size pl) + 128 < 4294967296" using Cons.prems(4) room by simp
    note off = FORCE_ALIGN_spec [OF k(1) this]
    have "(2 :: nat) ^ k \<le> 2 ^ 7" using k(1) by (rule power_increasing) simp
    then have fits: "unat ?off + unat ?L + room (map ?S is) + 128 < 4294967296" using off(3) Cons.prems(4) room by simp
    have add: "unat (?off + ?L) = unat ?off + unat ?L" using fits by (intro unat_add_u32_lt) simp
    have "placeable b elf is (snd prog) n" by (rule placeable_stable(1) [OF Cons.prems(1)]) simp
    moreover have "place_sizes (map ?S is) ?pl = Some pl'" using Cons.prems(2) nobits acc k(2) by simp
    ultimately obtain rs b' where
      rs: "place_sections elf prog nobits is (pl_prog_size pl) (?off + ?L) b = (rs @ [reloc_end], b')"
      and ok: "placed_ok ?S elf prog nobits is (unat (pl_prog_size pl)) (unat (?off + ?L)) pl' n b rs b'"
      using Cons.IH [of b ?pl] fits Cons.prems(3) room by (auto simp: add)
    from placed_ok_nobits [OF nobits off(1) _ _ ok] off(2) fits k(3)
    have "placed_ok ?S elf prog nobits (i # is) (unat (pl_prog_size pl)) (unat (pl_nobits_size pl)) pl' n b
      (\<lparr>rl_section = i, rl_addr_virt = fst nobits + ?off, rl_addr_phys = snd nobits + ?off, rl_size = ?L\<rparr> # rs) b'" by simp
    then show ?thesis using rs nobits k(2) by (auto simp: Let_def)
  next
    case other
    have "placeable b elf is (snd prog) n" by (rule placeable_stable(1) [OF Cons.prems(1)]) simp
    from Cons.IH [OF this, of pl] other Cons.prems acc obtain rs b' where
      "place_sections elf prog nobits is (pl_prog_size pl) (pl_nobits_size pl) b = (rs @ [reloc_end], b')"
      "placed_ok ?S elf prog nobits is (unat (pl_prog_size pl)) (unat (pl_nobits_size pl)) pl' n b rs b'"
      by (auto simp: room_def)
    then show ?thesis using other by (simp add: placed_ok_def Let_def)
  qed
qed

text \<open>The base of the program sections is aligned for each of them.\<close>

lemma FORCE_ALIGN_keeps:
  assumes "k \<le> 7" "unat v + 128 < 4294967296" "2 ^ j dvd unat v"
  shows "2 ^ j dvd unat (FORCE_ALIGN v (mask k))"
proof -
  note up = FORCE_ALIGN_spec [OF assms(1,2)]
  show ?thesis
  proof (cases "j \<le> k")
    case True
    then have "(2 :: nat) ^ j dvd 2 ^ k" by (rule le_imp_power_dvd)
    then show ?thesis using up(2) by (rule dvd_trans)
  next
    case False
    then have "(2 :: nat) ^ k dvd unat v" using assms(3) by (metis dvd_trans le_imp_power_dvd nat_le_linear)
    then have "2 ^ k dvd unat (FORCE_ALIGN v (mask k)) - unat v" using up(2) by (rule dvd_diff_nat [rotated])
    moreover have "unat (FORCE_ALIGN v (mask k)) - unat v < 2 ^ k" using up(1,3) by linarith
    ultimately have "unat (FORCE_ALIGN v (mask k)) = unat v" using up(1) by (metis dvd_imp_le le_antisym not_le zero_less_diff)
    then show ?thesis using assms(3) by simp
  qed
qed

lemma place_sizes_base:
  assumes "place_sizes ss pl = Some pl'" "\<forall>s \<in> set ss. sect_ok s" "unat (pl_prog_base pl) + 128 * length ss < 4294967296"
  shows "2 ^ j dvd unat (pl_prog_base pl) \<longrightarrow> 2 ^ j dvd unat (pl_prog_base pl')"
    "s \<in> set ss \<Longrightarrow> sh_type s = SHT_PROGBITS \<Longrightarrow> sect_align s dvd unat (pl_prog_base pl')"
proof -
  have "(\<forall>j. 2 ^ j dvd unat (pl_prog_base pl) \<longrightarrow> 2 ^ j dvd unat (pl_prog_base pl')) \<and>
    (\<forall>s \<in> set ss. sh_type s = SHT_PROGBITS \<longrightarrow> sect_align s dvd unat (pl_prog_base pl'))"
    using assms
  proof (induction ss arbitrary: pl)
    case (Cons s ss)
    from Cons.prems(2) obtain k where k: "k \<le> 7" "align_mask s = mask k" "sect_align s = 2 ^ k" by (auto elim: sect_ok_mask)
    show ?case
    proof (cases "sh_type s = SHT_PROGBITS")
      case True
      let ?b = "FORCE_ALIGN (pl_prog_base pl) (mask k)"
      have room: "unat (pl_prog_base pl) + 128 < 4294967296 \<or> ss = []" "unat (pl_prog_base pl) + 128 + 128 * length ss < 4294967296"
        using Cons.prems(3) by auto
      then have b: "unat (pl_prog_base pl) + 128 < 4294967296" by simp
      have "(2 :: nat) ^ k \<le> 2 ^ 7" using k(1) by (rule power_increasing) simp
      then have "unat ?b + 128 * length ss < 4294967296" using FORCE_ALIGN_spec(3) [OF k(1) b] room(2) by simp
      with Cons.IH Cons.prems(1,2) True k(2) FORCE_ALIGN_keeps [OF k(1) b] FORCE_ALIGN_spec(2) [OF k(1) b] show ?thesis
        by (auto simp: k(3) split: if_splits)
    next
      case False
      with Cons.IH Cons.prems show ?thesis by (auto split: if_splits)
    qed
  qed simp
  then show "2 ^ j dvd unat (pl_prog_base pl) \<longrightarrow> 2 ^ j dvd unat (pl_prog_base pl')"
    "s \<in> set ss \<Longrightarrow> sh_type s = SHT_PROGBITS \<Longrightarrow> sect_align s dvd unat (pl_prog_base pl')" by blast+
qed

lemma dvd_add_u32:
  assumes "2 ^ j dvd unat (a :: u32)" "2 ^ j dvd unat b" "j \<le> 7"
  shows "2 ^ j dvd unat (a + b)"
proof -
  have "(2 :: nat) ^ j dvd 4294967296" using le_imp_power_dvd [of j 32 "2 :: nat"] assms(3) by simp
  with assms(1,2) show ?thesis unfolding unat_add_u32 by (intro dvd_mod) (simp_all add: dvd_add)
qed

lemma nobits_base_aligned:
  assumes "j \<le> 7"
  shows "2 ^ j dvd unat ((a :: u32) AND NOT 0xFFF)"
proof -
  have "a AND NOT 0xFFF = a AND NOT (mask 12)" by (simp add: mask_eq_exp_minus_1)
  then have "2 ^ 12 dvd unat (a AND NOT 0xFFF)" by (simp only: unat_and_not_mask dvd_minus_mod)
  moreover have "(2 :: nat) ^ j dvd 2 ^ 12" by (rule le_imp_power_dvd) (use assms in simp)
  ultimately show ?thesis by (rule dvd_trans [rotated])
qed

lemma room_length: "128 * length ss \<le> room ss"
  by (induction ss) (simp_all add: room_def)

lemma chained_aligned:
  "chained lo ps hi \<Longrightarrow> (off, n, a) \<in> set ps \<Longrightarrow> a dvd off"
  by (induction ps arbitrary: lo) auto

lemma sect_align_power: "sect_ok s \<Longrightarrow> \<exists>j \<le> 7. sect_align s = 2 ^ j"
  by (metis sect_ok_mask)

text \<open>
  C30 (layout of a module). The sections of an image have alignments that are 0 or powers of two (\<open>sect_ok\<close>; the code only checks
  that they are at most 128), and \<open>place_sizes\<close> accepts them. Their sizes, with 128 bytes for each, do not exceed the room \<open>n\<close>
  behind \<open>prog_phys\<close>, the image's headers and contents are outside of that room, and no address overflows 32 bits. Then
  \<open>place_sections\<close>, with the base for zero-filled memory that \<open>_module_place\<close> computes, makes one entry for each program
  and zero-filled section, in order. Within the allocation of its kind each has an aligned place behind the previous one, within the
  size allocated; its virtual address is at the same offset from the virtual base of its kind, and is aligned. The contents of every
  program section are at its place, and nothing outside of the room has changed. (The two kinds' virtual ranges overlap when
  the program sections take more than the rest of the page their base is in and the next one.)
\<close>

theorem module_layout:
  assumes img: "placeable b elf (section_idxs b elf) prog_phys n"
    and sizes: "place_sizes (map (section_at b elf) (section_idxs b elf))
      \<lparr>pl_prog_base = base, pl_prog_size = 0, pl_nobits_base = 0, pl_nobits_size = 0\<rparr> = Some pl"
    and fits: "room (map (section_at b elf) (section_idxs b elf)) \<le> n" "n + 128 < 4294967296" "unat base + n < 4294967296"
    and nobits: "nobits_base = (pl_prog_base pl + 0x1000) AND NOT 0xFFF"
  shows "\<exists>rs b'. place_sections elf (pl_prog_base pl, prog_phys) (nobits_base, nobits_phys) (section_idxs b elf) 0 0 b = (rs @ [reloc_end], b') \<and>
    map rl_section rs = filter (\<lambda>i. sh_type (section_at b elf i) \<in> {SHT_PROGBITS, SHT_NOBITS}) (section_idxs b elf) \<and>
    chained 0 (pieces (section_at b elf) SHT_PROGBITS prog_phys rs) (unat (pl_prog_size pl)) \<and>
    chained 0 (pieces (section_at b elf) SHT_NOBITS nobits_phys rs) (unat (pl_nobits_size pl)) \<and>
    (\<forall>r \<in> set rs. rl_size r = sh_size (section_at b elf (rl_section r)) \<and>
       rl_addr_virt r = (if sh_type (section_at b elf (rl_section r)) = SHT_PROGBITS
         then pl_prog_base pl + (rl_addr_phys r - prog_phys) else nobits_base + (rl_addr_phys r - nobits_phys)) \<and>
       sect_align (section_at b elf (rl_section r)) dvd unat (rl_addr_virt r) \<and>
       (sh_type (section_at b elf (rl_section r)) = SHT_PROGBITS \<longrightarrow>
          (\<forall>j < unat (rl_size r). b' (rl_addr_phys r + of_nat j) = b (elf + sh_offset (section_at b elf (rl_section r)) + of_nat j)))) \<and>
    (\<forall>x. n \<le> unat (x - prog_phys) \<longrightarrow> b' x = b x)"
proof -
  define S where "S = section_at b elf"
  let ?is = "section_idxs b elf" and ?pl = "\<lparr>pl_prog_base = base, pl_prog_size = 0, pl_nobits_base = 0, pl_nobits_size = 0\<rparr>"
  obtain rs b' where rs: "place_sections elf (pl_prog_base pl, prog_phys) (nobits_base, nobits_phys) ?is 0 0 b = (rs @ [reloc_end], b')"
    and ok: "placed_ok S elf (pl_prog_base pl, prog_phys) (nobits_base, nobits_phys) ?is 0 0 pl n b rs b'"
    using place_sections_ok [of b elf ?is "(pl_prog_base pl, prog_phys)" n ?pl pl "(nobits_base, nobits_phys)"] img sizes fits
    by (auto simp: S_def)
  have "128 * length (map S ?is) \<le> room (map S ?is)" by (rule room_length)
  then have small: "unat (pl_prog_base ?pl) + 128 * length (map S ?is) < 4294967296" using fits(1,3) by (simp add: S_def)
  have sok: "\<forall>s \<in> set (map S ?is). sect_ok s" using img by (auto simp: placeable_def S_def)
  note base = place_sizes_base(2) [OF sizes [folded S_def] sok small]
  have virt: "rl_addr_virt r = (if sh_type (S (rl_section r)) = SHT_PROGBITS
      then pl_prog_base pl + (rl_addr_phys r - prog_phys) else nobits_base + (rl_addr_phys r - nobits_phys)) \<and>
      sect_align (S (rl_section r)) dvd unat (rl_addr_virt r)" if r: "r \<in> set rs" for r
  proof -
    let ?s = "S (rl_section r)"
    have i: "rl_section r \<in> set ?is" by (rule placed_ok_section [OF ok r])
    then obtain j where j: "j \<le> 7" "sect_align ?s = 2 ^ j" using sok sect_align_power by fastforce
    have "rl_section r \<in> set (filter (\<lambda>i. sh_type (S i) = SHT_PROGBITS \<or> sh_type (S i) = SHT_NOBITS) ?is)"
      using ok r unfolding placed_ok_def by (metis image_eqI set_map)
    then have kind: "sh_type ?s = SHT_PROGBITS \<or> sh_type ?s = SHT_NOBITS" by simp
    show ?thesis
    proof (cases "sh_type ?s = SHT_PROGBITS")
      case True
      have v: "rl_addr_virt r - pl_prog_base pl = rl_addr_phys r - prog_phys" using ok r True by (auto simp: placed_ok_def)
      have "chained 0 (pieces S SHT_PROGBITS prog_phys rs) (unat (pl_prog_size pl))" using ok by (simp add: placed_ok_def)
      moreover have "(unat (rl_addr_phys r - prog_phys), unat (rl_size r), sect_align ?s) \<in> set (pieces S SHT_PROGBITS prog_phys rs)"
        using r True by (auto simp: pieces_def)
      ultimately have "2 ^ j dvd unat (rl_addr_phys r - prog_phys)" using chained_aligned j(2) by metis
      moreover have "2 ^ j dvd unat (pl_prog_base pl)" using base [of ?s] True i j(2) by simp
      ultimately have "2 ^ j dvd unat (pl_prog_base pl + (rl_addr_phys r - prog_phys))" using j(1) by (intro dvd_add_u32)
      moreover have "rl_addr_virt r = pl_prog_base pl + (rl_addr_phys r - prog_phys)" using v by (simp add: diff_eq_eq add.commute)
      ultimately show ?thesis using True j(2) by simp
    next
      case False
      have v: "rl_addr_virt r - nobits_base = rl_addr_phys r - nobits_phys" using ok r False by (auto simp: placed_ok_def)
      have "chained 0 (pieces S SHT_NOBITS nobits_phys rs) (unat (pl_nobits_size pl))" using ok by (simp add: placed_ok_def)
      moreover have "(unat (rl_addr_phys r - nobits_phys), unat (rl_size r), sect_align ?s) \<in> set (pieces S SHT_NOBITS nobits_phys rs)"
        using r kind False by (auto simp: pieces_def)
      ultimately have "2 ^ j dvd unat (rl_addr_phys r - nobits_phys)" using chained_aligned j(2) by metis
      moreover have "2 ^ j dvd unat nobits_base" unfolding nobits by (rule nobits_base_aligned [OF j(1)])
      ultimately have "2 ^ j dvd unat (nobits_base + (rl_addr_phys r - nobits_phys))" using j(1) by (intro dvd_add_u32)
      moreover have "rl_addr_virt r = nobits_base + (rl_addr_phys r - nobits_phys)" using v by (simp add: diff_eq_eq add.commute)
      ultimately show ?thesis using False j(2) by simp
    qed
  qed
  have ent: "rl_size r = sh_size (S (rl_section r)) \<and>
      (sh_type (S (rl_section r)) = SHT_PROGBITS \<longrightarrow>
        (\<forall>j < unat (rl_size r). b' (rl_addr_phys r + of_nat j) = b (elf + sh_offset (S (rl_section r)) + of_nat j)))"
    if "r \<in> set rs" for r using ok that unfolding placed_ok_def by auto
  have "\<forall>r \<in> set rs. rl_size r = sh_size (S (rl_section r)) \<and>
      rl_addr_virt r = (if sh_type (S (rl_section r)) = SHT_PROGBITS
        then pl_prog_base pl + (rl_addr_phys r - prog_phys) else nobits_base + (rl_addr_phys r - nobits_phys)) \<and>
      sect_align (S (rl_section r)) dvd unat (rl_addr_virt r) \<and>
      (sh_type (S (rl_section r)) = SHT_PROGBITS \<longrightarrow>
        (\<forall>j < unat (rl_size r). b' (rl_addr_phys r + of_nat j) = b (elf + sh_offset (S (rl_section r)) + of_nat j)))"
    using virt ent by blast
  then show ?thesis
    using rs ok unfolding S_def [symmetric] by (intro exI [of _ rs] exI [of _ b']) (auto simp: placed_ok_def)
qed

text \<open>An image with three bytes of program and eight bytes of zero-filled memory.\<close>

definition ex_module :: bytes where
  "ex_module = (\<lambda>_. 0)(32 := 52, 48 := 2, 56 := 1, 68 := 132, 72 := 3, 84 := 4, 96 := 8, 112 := 8, 124 := 16,
     132 := 7, 133 := 8, 134 := 9)"

lemma ex_module_sections:
  "section_idxs ex_module 0 = [0, 1]" "section_ptr ex_module 0 0 = 52" "section_ptr ex_module 0 1 = 92"
  "section_at ex_module 0 0 = \<lparr>sh_name = 0, sh_type = 1, sh_flags = 0, sh_addr = 0, sh_offset = 132, sh_size = 3, sh_link = 0, sh_info = 0, sh_addralign = 4, sh_entsize = 0\<rparr>"
  "section_at ex_module 0 1 = \<lparr>sh_name = 0, sh_type = 8, sh_flags = 0, sh_addr = 0, sh_offset = 0, sh_size = 8, sh_link = 0, sh_info = 0, sh_addralign = 16, sh_entsize = 0\<rparr>"
  by (simp_all add: section_idxs_def section_at_def section_ptr_def elf_get_sections_def ehdr_at_def shdr_at_def get32_def get16_def ex_module_def upt_rec)

lemma ex_module_far: "unat x < 0x2000 \<Longrightarrow> 267 \<le> unat ((x :: u32) - 0x2000)"
  by (simp add: unat_sub_if_size word_size)

lemma ex_module_placeable: "placeable ex_module 0 [0, 1] 0x2000 267"
proof -
  have far: "267 \<le> unat (of_nat a + of_nat k - (0x2000 :: u32))" if "a + k < 0x2000" for a k
    using that unat_of_nat_u32 [of "a + k"] by (intro ex_module_far) simp
  have "sect_ok (section_at ex_module 0 0)" "sect_ok (section_at ex_module 0 1)"
    unfolding ex_module_sections sect_ok_def by (auto intro: exI [of _ 2] exI [of _ 4])
  then show ?thesis
    using far [of 32] far [of 52] far [of 92] far [of 132] far [of 0] by (simp add: placeable_def headers_apart_def ex_module_sections)
qed

theorem module_layout_witness:
  "\<exists>rs b'. place_sections 0 (0xD0000000, 0x2000) (0xD0001000, 0x3000) [0, 1] 0 0 ex_module = (rs @ [reloc_end], b') \<and>
     map rl_section rs = [0, 1] \<and> b' 0x2001 = ex_module 133"
proof -
  have pl: "place_sizes (map (section_at ex_module 0) (section_idxs ex_module 0))
      \<lparr>pl_prog_base = 0xD0000000, pl_prog_size = 0, pl_nobits_base = 0, pl_nobits_size = 0\<rparr> =
      Some \<lparr>pl_prog_base = 0xD0000000, pl_prog_size = 3, pl_nobits_base = 0, pl_nobits_size = 8\<rparr>"
    by (simp add: ex_module_sections align_mask_def FORCE_ALIGN_def)
  have room: "room (map (section_at ex_module 0) (section_idxs ex_module 0)) \<le> 267" by (simp add: ex_module_sections room_def)
  have img: "placeable ex_module 0 (section_idxs ex_module 0) 0x2000 267" using ex_module_placeable by (simp only: ex_module_sections(1))
  obtain rs b' where rs: "place_sections 0 (0xD0000000, 0x2000) (0xD0001000, 0x3000) [0, 1] 0 0 ex_module = (rs @ [reloc_end], b')"
    "map rl_section rs = [0, 1]" "chained 0 (pieces (section_at ex_module 0) SHT_PROGBITS 0x2000 rs) 3"
    and data: "\<And>r j. r \<in> set rs \<Longrightarrow> sh_type (section_at ex_module 0 (rl_section r)) = SHT_PROGBITS \<Longrightarrow> j < unat (sh_size (section_at ex_module 0 (rl_section r))) \<Longrightarrow>
      b' (rl_addr_phys r + of_nat j) = ex_module (0 + sh_offset (section_at ex_module 0 (rl_section r)) + of_nat j)"
    and rsz: "\<And>r. r \<in> set rs \<Longrightarrow> rl_size r = sh_size (section_at ex_module 0 (rl_section r))"
    using module_layout [OF img pl room, of "0xD0001000" "0x3000"] by (auto simp: ex_module_sections)
  obtain r r' where r: "rs = [r, r']" "rl_section r = 0" "rl_section r' = 1" using rs(2) by (auto simp: Cons_eq_map_conv)
  have "rl_addr_phys r = 0x2000"
    using rs(3) rsz [of r] r by (simp add: pieces_def ex_module_sections) (metis diff_eq_diff_eq cancel_comm_monoid_add_class.diff_cancel unat_eq_zero eq_iff_diff_eq_0)
  then have "b' 0x2001 = ex_module 133" using data [of r 1] r by (simp add: ex_module_sections)
  with rs(1,2) show ?thesis by (intro exI [of _ rs] exI [of _ b'] conjI)
qed

end
