(* ===== verification/Elf_Exec.thy ===== *)
theory Elf_Exec
  imports Module
begin

text \<open>
  Loading an ELF program: \<open>kernel/src/proc/elf/elf_exec.c\<close>. The memory is that of \<open>Mmu\<close>, as in
  \<open>Module\<close>: the image is in the kernel's heap, and so is the memory of the segments, which is then mapped
  into the new address space. The results of \<open>kmamalloc\<close> are the list \<open>allocs\<close>; an empty list is a
  failure, which is not checked.
\<close>

unbundle bit_operations_syntax

record Elf32_Phdr =
  p_type :: u32
  p_offset :: u32
  p_vaddr :: u32
  p_paddr :: u32
  p_filesz :: u32
  p_memsz :: u32
  p_flags :: u32
  p_align :: u32

definition phdr_at :: "bytes \<Rightarrow> u32 \<Rightarrow> Elf32_Phdr" where
  "phdr_at m a = \<lparr>p_type = get32 m a, p_offset = get32 m (a + 4), p_vaddr = get32 m (a + 8), p_paddr = get32 m (a + 12),
     p_filesz = get32 m (a + 16), p_memsz = get32 m (a + 20), p_flags = get32 m (a + 24), p_align = get32 m (a + 28)\<rparr>"

abbreviation (input) PT_LOAD :: u32 where "PT_LOAD \<equiv> 1"
abbreviation (input) PT_DYNAMIC :: u32 where "PT_DYNAMIC \<equiv> 2"

text \<open>The address of a segment's first byte in the memory allocated for it.\<close>

definition segment_phys :: "u32 \<Rightarrow> Elf32_Phdr \<Rightarrow> u32" where
  "segment_phys a ph = (if p_memsz ph AND 0xFFF \<noteq> 0 then a + (p_vaddr ph AND 0xFFF) else a)"

definition load_segment :: "u32 \<Rightarrow> u32 \<Rightarrow> u32 \<Rightarrow> Elf32_Phdr \<Rightarrow> mmu_state \<Rightarrow> (kproc_mem_map_ent \<times> mmu_state) option" where
  "load_segment elf table a ph m = do {
     let phys = segment_phys a ph;
     let m = (if p_filesz ph \<noteq> 0 then upd_bytes (copy_fwd phys (elf + p_offset ph) (unat (p_filesz ph))) m else m);
     let m = (if p_filesz ph < p_memsz ph
              then upd_bytes (zero_bytes (phys + p_filesz ph) (unat (p_memsz ph - p_filesz ph))) m else m);
     (_, m) \<leftarrow> mmu_map_table table (p_vaddr ph) phys (p_memsz ph) (1 OR 2 OR 4) m;
     Some (\<lparr>me_virt = p_vaddr ph, me_phys = phys, me_length = p_memsz ph, me_next = NULL\<rparr>, m)
   }"

text \<open>
  The loop of \<open>elf_read_phdr\<close> over the program headers \<open>is\<close>. The result has the entries of the memory
  map, in order, and the address of the dynamic section.
\<close>

fun read_phdrs :: "u32 \<Rightarrow> u32 \<Rightarrow> u32 \<Rightarrow> nat list \<Rightarrow> u32 list \<Rightarrow> u32 \<Rightarrow> mmu_state \<Rightarrow> (kproc_mem_map_ent list \<times> u32 \<times> mmu_state) option" where
  "read_phdrs elf table prog [] allocs dyn m = Some ([], dyn, m)"
| "read_phdrs elf table prog (i # is) allocs dyn m =
     (let ph = phdr_at (mm_byte m) (prog + 32 * of_nat i) in
      if p_type ph = PT_LOAD then do {
        (e, m) \<leftarrow> load_segment elf table (case allocs of [] \<Rightarrow> 0 | a # _ \<Rightarrow> a) ph m;
        (es, dyn, m) \<leftarrow> read_phdrs elf table prog is (tl allocs) dyn m;
        Some (e # es, dyn, m)
      }
      else if p_type ph = PT_DYNAMIC then read_phdrs elf table prog is allocs (p_vaddr ph) m
      else read_phdrs elf table prog is allocs dyn m)"

definition elf_read_phdr :: "u32 \<Rightarrow> u32 \<Rightarrow> u32 list \<Rightarrow> mmu_state \<Rightarrow> (kproc_mem_map_ent list \<times> u32 \<times> mmu_state) option" where
  "elf_read_phdr elf table allocs m =
     (let h = ehdr_at (mm_byte m) elf in
      read_phdrs elf table (elf + e_phoff h) [0..<unat (e_phnum h)] allocs 0 m)"

text \<open>
  The dynamic section is read at its address in the current table, although it was mapped into the
  new one.
\<close>

record proc_elf_data =
  ed_dynamic :: u32
  ed_dynamic_str :: u32
  ed_dynamic_str_len :: u32
  ed_dynamic_sym :: u32

abbreviation (input) DT_STRTAB :: u32 where "DT_STRTAB \<equiv> 5"
abbreviation (input) DT_SYMTAB :: u32 where "DT_SYMTAB \<equiv> 6"
abbreviation (input) DT_STRSZ :: u32 where "DT_STRSZ \<equiv> 10"

partial_function (option) read_dynamic :: "bytes \<Rightarrow> u32 \<Rightarrow> proc_elf_data \<Rightarrow> proc_elf_data option" where
  "read_dynamic m a ed =
     (let tag = get32 m a; val = get32 m (a + 4) in
      if tag = 0 then Some ed
      else read_dynamic m (a + 8)
        (if tag = DT_STRTAB then ed\<lparr>ed_dynamic_str := val\<rparr>
         else if tag = DT_STRSZ then ed\<lparr>ed_dynamic_str_len := val\<rparr>
         else if tag = DT_SYMTAB then ed\<lparr>ed_dynamic_sym := val\<rparr>
         else ed))"

declare read_dynamic.simps [code]

text \<open>\<open>symbols\<close> is the memory for the symbol table, \<open>ed\<close> the uninitialised structure. The result has the entry point.\<close>

record elf_loaded =
  el_entry :: u32
  el_symbols :: u32
  el_mmap :: "kproc_mem_map_ent list"
  el_data :: proc_elf_data

definition elf_exec_common :: "u32 \<Rightarrow> u32 \<Rightarrow> u32 list \<Rightarrow> u32 \<Rightarrow> proc_elf_data \<Rightarrow> mmu_state \<Rightarrow> (elf_loaded \<times> mmu_state) option" where
  "elf_exec_common data table allocs symbols ed m = do {
     (es, dyn, m) \<leftarrow> elf_read_phdr data table allocs m;
     (_, tab, bs) \<leftarrow> elf_load_symbols (mm_byte m) data symbols;
     let m = upd_bytes (\<lambda>_. bs) m;
     ed \<leftarrow> (if dyn \<noteq> 0 then read_dynamic (vmem m) dyn (ed\<lparr>ed_dynamic := dyn\<rparr>) else Some (ed\<lparr>ed_dynamic := 0\<rparr>));
     Some (\<lparr>el_entry = e_entry (ehdr_at (mm_byte m) data), el_symbols = (case tab of None \<Rightarrow> 0 | Some t \<Rightarrow> t),
            el_mmap = es, el_data = ed\<rparr>, m)
   }"

definition exec_elf :: "u32 \<Rightarrow> u32 \<Rightarrow> u32 list \<Rightarrow> u32 \<Rightarrow> proc_elf_data \<Rightarrow> mmu_state \<Rightarrow> (int \<times> elf_loaded option \<times> mmu_state) option" where
  "exec_elf file_data table allocs symbols ed m =
     (if elf_check_header (mm_byte m) file_data \<noteq> 0 then Some (- ENOEXEC, None, m)
      else do {
        (l, m) \<leftarrow> elf_exec_common file_data table allocs symbols ed m;
        Some (if el_entry l = 0 then - EUNSPEC else 0, Some l, m)
      })"

end
