(* ===== verification/Mmu_View.thy ===== *)
theory Mmu_View
  imports Mmu_Sound
begin

text \<open>
  What an address space shows: the byte that a directory maps at an address, and regions, ranges of
  \<open>l\<close> bytes that are mapped at \<open>v\<close> to the memory at \<open>p\<close>. The loader of programs and \<open>fork\<close> both build address
  spaces out of regions that are apart from each other.
\<close>

unbundle bit_operations_syntax

definition visible :: "mmu_state \<Rightarrow> u32 \<Rightarrow> u32 \<Rightarrow> u8 option" where
  "visible m t v = (case snd (mmu_map_get_table m t v) of Some f \<Rightarrow> Some (mm_byte m (f + (v AND 0xFFF))) | None \<Rightarrow> None)"

lemma visible_frame:
  assumes "visible m t v = x" "mmu_map_get_table m' t v = mmu_map_get_table m t v"
    and "\<And>f. snd (mmu_map_get_table m t v) = Some f \<Longrightarrow> mm_byte m' (f + (v AND 0xFFF)) = mm_byte m (f + (v AND 0xFFF))"
  shows "visible m' t v = x"
  using assms by (auto simp: visible_def split: option.splits)

definition in_mem :: "u32 \<Rightarrow> u32 \<Rightarrow> u32 \<Rightarrow> bool" where
  "in_mem p l x \<longleftrightarrow> unat (x - p) < unat l"

definition in_pages :: "u32 \<Rightarrow> u32 \<Rightarrow> u32 \<Rightarrow> bool" where
  "in_pages v l w \<longleftrightarrow> page v \<le> page w \<and> page w < page v + pages l"

text \<open>
  A region whose bytes are all in the pages that \<open>mmu_map_table\<close> maps for it: virtual and physical
  address have the same offset in the page, and the region does not reach into one page more than its
  size has.
\<close>

definition region_ok :: "u32 \<Rightarrow> u32 \<Rightarrow> u32 \<Rightarrow> bool" where
  "region_ok v p l \<longleftrightarrow> unat p mod 4096 = unat v mod 4096 \<and> unat v mod 4096 + unat l \<le> 4096 * pages l \<and>
     page v + pages l \<le> 786432 \<and> unat p + unat l \<le> 4294967296"

definition region_apart :: "u32 \<times> u32 \<times> u32 \<Rightarrow> u32 \<times> u32 \<times> u32 \<Rightarrow> bool" where
  "region_apart r r' \<longleftrightarrow> (case (r, r') of ((v, p, l), (v', p', l')) \<Rightarrow>
     (page v + pages l \<le> page v' \<or> page v' + pages l' \<le> page v) \<and>
     (unat p + unat l \<le> unat p' \<or> unat p' + unat l' \<le> unat p))"

lemma in_mem_iff:
  assumes "region_ok v p l"
  shows "in_mem p l x \<longleftrightarrow> unat p \<le> unat x \<and> unat x < unat p + unat l"
  using assms unat_u32_lt [of x] unfolding in_mem_def region_ok_def by (auto simp: unat_sub_if_size word_size)

lemma region_apartD:
  assumes "region_apart (v, p, l) (v', p', l')" "region_ok v p l" "region_ok v' p' l'"
  shows "in_mem p l x \<Longrightarrow> \<not> in_mem p' l' x" "in_pages v l w \<Longrightarrow> \<not> in_pages v' l' w"
  using assms(1) unfolding in_mem_iff [OF assms(2)] in_mem_iff [OF assms(3)] by (auto simp: region_apart_def in_pages_def)

lemma add_div_page: "(x + j) div 4096 = x div 4096 + (x mod 4096 + j) div (4096 :: nat)"
proof -
  have "x + j = (x mod 4096 + j) + 4096 * (x div 4096)" by simp
  then show ?thesis by (metis add.commute div_mult_self2 zero_neq_numeral)
qed

lemma unat_page_split: "v AND PAGE_MASK = of_nat (4096 * page v)" "v AND 0xFFF = of_nat (unat v mod 4096)"
proof -
  have "unat v < 4294967296" by (rule unat_u32_lt)
  then have "4096 * page v < 4294967296" "unat v mod 4096 < 4294967296" by linarith+
  then have "unat (of_nat (4096 * page v) :: u32) = 4096 * page v" "unat (of_nat (unat v mod 4096) :: u32) = unat v mod 4096"
    by (simp_all only: unat_of_nat_u32)
  then show "v AND PAGE_MASK = of_nat (4096 * page v)" "v AND 0xFFF = of_nat (unat v mod 4096)"
    by (simp_all add: word_unat_eq_iff unat_page_mask unat_low_bits mult.commute)
qed

text \<open>Where the \<open>j\<close>th byte of a region is, as an address and in memory.\<close>

lemma region_address:
  assumes "region_ok v p l" "j < unat l"
  shows "unat (v + of_nat j) = unat v + j" "low (v + of_nat j)" "in_pages v l (v + of_nat j)"
    "(p AND PAGE_MASK) + of_nat (4096 * (page (v + of_nat j) - page v)) + ((v + of_nat j) AND 0xFFF) = p + of_nat j"
proof -
  let ?r = "unat v mod 4096"
  have ok: "?r + unat l \<le> 4096 * pages l" "page v + pages l \<le> 786432" "unat p mod 4096 = ?r"
    using assms(1) unfolding region_ok_def by blast+
  have v: "unat v = 4096 * page v + ?r" by simp
  have lt: "unat v + j < 3221225472" using v ok assms(2) by linarith
  then show u: "unat (v + of_nat j) = unat v + j" by (subst unat_add_u32_lt) (simp_all add: unat_of_nat_u32)
  then show "low (v + of_nat j)" using lt by (simp add: word_less_nat_alt)
  have pg: "page (v + of_nat j) = page v + (?r + j) div 4096" unfolding u by (rule add_div_page)
  have "(?r + j) div 4096 < pages l" using ok(1) assms(2) by (intro less_mult_imp_div_less) simp
  then show "in_pages v l (v + of_nat j)" using pg by (simp add: in_pages_def)
  have low: "(v + of_nat j) AND 0xFFF = of_nat ((?r + j) mod 4096)"
    unfolding unat_page_split(2) u by (intro arg_cong [of _ _ of_nat]) presburger
  have p: "p = of_nat (4096 * page p + ?r)" using ok(3) by (metis mult_div_mod_eq of_nat_unat ucast_id)
  have "(p AND PAGE_MASK) + of_nat (4096 * ((?r + j) div 4096)) + of_nat ((?r + j) mod 4096) =
      (of_nat (4096 * page p + (4096 * ((?r + j) div 4096) + (?r + j) mod 4096)) :: u32)"
    unfolding unat_page_split(1) by (simp only: of_nat_add add.assoc)
  also have "\<dots> = of_nat (4096 * page p + ?r) + of_nat j" by (simp only: mult_div_mod_eq of_nat_add add.assoc)
  finally show "(p AND PAGE_MASK) + of_nat (4096 * (page (v + of_nat j) - page v)) + ((v + of_nat j) AND 0xFFF) = p + of_nat j"
    unfolding low pg p [symmetric] by simp
qed

lemma in_mem_offset: "j < unat l \<Longrightarrow> in_mem p l (p + of_nat j)"
  using less_trans [OF _ unat_u32_lt [of l], of j] unat_of_nat_u32 [of j] by (simp add: in_mem_def)

text \<open>A region stays visible while regions apart from it are mapped and filled.\<close>

lemma region_stays:
  assumes ok: "region_ok v p l" and j: "j < unat l" and vis: "visible m t (v + of_nat j) = x"
    and loc: "snd (mmu_map_get_table m t (v + of_nat j)) = Some (p + of_nat j - ((v + of_nat j) AND 0xFFF))"
    and apart: "\<And>v' p' l'. (v', p', l') \<in> R \<Longrightarrow> region_apart (v, p, l) (v', p', l') \<and> region_ok v' p' l'"
    and get: "(\<And>v' p' l'. (v', p', l') \<in> R \<Longrightarrow> \<not> in_pages v' l' (v + of_nat j)) \<Longrightarrow>
      mmu_map_get_table m' t (v + of_nat j) = mmu_map_get_table m t (v + of_nat j)"
    and bytes: "\<And>x. (\<And>v' p' l'. (v', p', l') \<in> R \<Longrightarrow> \<not> in_mem p' l' x) \<Longrightarrow> mm_byte m' x = mm_byte m x"
  shows "visible m' t (v + of_nat j) = x"
proof (rule visible_frame [OF vis])
  show "mmu_map_get_table m' t (v + of_nat j) = mmu_map_get_table m t (v + of_nat j)"
    using apart region_apartD(2) [OF _ ok] region_address(3) [OF ok j] by (intro get) blast
  have "mm_byte m' (p + of_nat j) = mm_byte m (p + of_nat j)"
    using apart region_apartD(1) [OF _ ok] in_mem_offset [OF j] by (intro bytes) blast
  then show "mm_byte m' (f + ((v + of_nat j) AND 0xFFF)) = mm_byte m (f + ((v + of_nat j) AND 0xFFF))"
    if "snd (mmu_map_get_table m t (v + of_nat j)) = Some f" for f using that loc by auto
qed

end
