(* ===== verification/Elf_Load.thy ===== *)
theory Elf_Load
  imports Elf_Exec Mmu_View
begin

text \<open>
  What a program sees of its image: after \<open>elf_read_phdr\<close> every byte of every segment is mapped into the
  new address space, with the contents of the file and zeroes behind them, for segments that the
  loader maps completely.
\<close>

unbundle bit_operations_syntax

lemma zero_bytes_at: "n \<le> 4294967296 \<Longrightarrow> zero_bytes d n m x = (if unat (x - d) < n then 0 else m x)"
proof (induction n)
  case (Suc n)
  have n: "unat (of_nat n :: u32) = n" using Suc.prems by (intro unat_of_nat_u32) simp
  have "x = d + of_nat n \<longleftrightarrow> unat (x - d) = n"
    using n by (metis add_diff_cancel_left' diff_add_cancel add.commute word_unat_eq_iff)
  then show ?case using Suc by (auto simp: zero_bytes_def)
qed (simp add: zero_bytes_def)

text \<open>
  A segment that is loaded to the page-aligned memory \<open>a\<close>: it has no more data in the file than in
  memory; its size is not a multiple of the page size unless it starts at a page; and it does not reach
  into one page more than its size says, which would not be mapped.
\<close>

definition seg_ok :: "u32 \<Rightarrow> Elf32_Phdr \<Rightarrow> bool" where
  "seg_ok a ph \<longleftrightarrow> aligned a \<and> p_filesz ph \<le> p_memsz ph \<and>
     (unat (p_vaddr ph) mod 4096 = 0 \<or> unat (p_memsz ph) mod 4096 \<noteq> 0) \<and>
     unat (p_vaddr ph) mod 4096 + unat (p_memsz ph) \<le> 4096 * pages (p_memsz ph) \<and>
     page (p_vaddr ph) + pages (p_memsz ph) \<le> 786432 \<and> unat a + 4096 + unat (p_memsz ph) < 4294967296"

abbreviation seg_block :: "u32 \<Rightarrow> Elf32_Phdr \<Rightarrow> u32 \<Rightarrow> bool" where
  "seg_block a ph \<equiv> in_mem (segment_phys a ph) (p_memsz ph)"

abbreviation seg_page :: "Elf32_Phdr \<Rightarrow> u32 \<Rightarrow> bool" where
  "seg_page ph \<equiv> in_pages (p_vaddr ph) (p_memsz ph)"

definition seg_region :: "u32 \<times> Elf32_Phdr \<Rightarrow> u32 \<times> u32 \<times> u32" where
  "seg_region s = (case s of (a, ph) \<Rightarrow> (p_vaddr ph, segment_phys a ph, p_memsz ph))"

definition seg_byte :: "bytes \<Rightarrow> u32 \<Rightarrow> Elf32_Phdr \<Rightarrow> nat \<Rightarrow> u8" where
  "seg_byte b elf ph j = (if j < unat (p_filesz ph) then b (elf + p_offset ph + of_nat j) else 0)"

lemma seg_ok_region:
  assumes "seg_ok a ph"
  shows "region_ok (p_vaddr ph) (segment_phys a ph) (p_memsz ph)"
proof -
  let ?v = "p_vaddr ph"
  have ok: "aligned a" "unat ?v mod 4096 = 0 \<or> unat (p_memsz ph) mod 4096 \<noteq> 0" "unat a + 4096 + unat (p_memsz ph) < 4294967296"
    "unat ?v mod 4096 + unat (p_memsz ph) \<le> 4096 * pages (p_memsz ph)" "page ?v + pages (p_memsz ph) \<le> 786432"
    using assms unfolding seg_ok_def by blast+
  have z: "x AND 0xFFF = 0 \<longleftrightarrow> unat x mod 4096 = 0" for x :: u32 using unat_low_bits [of x] by (metis unat_0 word_unat_eq_iff)
  have "p_vaddr ph AND 0xFFF = 0 \<or> p_memsz ph AND 0xFFF \<noteq> 0" using ok(2) unfolding z .
  then have "segment_phys a ph = a + (?v AND 0xFFF)" by (auto simp: segment_phys_def)
  moreover have r: "unat ?v mod 4096 < 4096" by simp
  then have "unat a + unat (?v AND 0xFFF) < 4294967296" using ok(3) unfolding unat_low_bits by linarith
  ultimately have p: "unat (segment_phys a ph) = unat a + unat ?v mod 4096"
    by (simp only:, subst unat_add_u32_lt) (simp_all add: unat_low_bits)
  have "(unat a + unat ?v mod 4096) mod 4096 = unat ?v mod 4096" using ok(1) by (metis add_0 mod_add_left_eq mod_mod_trivial)
  then show ?thesis unfolding region_ok_def p using ok(3-5) r by linarith
qed

definition seg_entry :: "u32 \<Rightarrow> Elf32_Phdr \<Rightarrow> kproc_mem_map_ent" where
  "seg_entry a ph = \<lparr>me_virt = p_vaddr ph, me_phys = segment_phys a ph, me_length = p_memsz ph, me_next = NULL\<rparr>"

text \<open>The memory of a segment before it is mapped.\<close>

definition seg_fill :: "u32 \<Rightarrow> u32 \<Rightarrow> Elf32_Phdr \<Rightarrow> bytes \<Rightarrow> bytes" where
  "seg_fill elf a ph b =
     (let b = (if p_filesz ph \<noteq> 0 then copy_fwd (segment_phys a ph) (elf + p_offset ph) (unat (p_filesz ph)) b else b) in
      if p_filesz ph < p_memsz ph
      then zero_bytes (segment_phys a ph + p_filesz ph) (unat (p_memsz ph - p_filesz ph)) b else b)"

lemma seg_fill_spec:
  assumes le: "p_filesz ph \<le> p_memsz ph"
    and src: "\<And>j. j < unat (p_filesz ph) \<Longrightarrow> \<not> seg_block a ph (elf + p_offset ph + of_nat j)"
  shows "j < unat (p_memsz ph) \<Longrightarrow> seg_fill elf a ph b (segment_phys a ph + of_nat j) = seg_byte b elf ph j"
    and "\<not> seg_block a ph x \<Longrightarrow> seg_fill elf a ph b x = b x"
proof -
  let ?p = "segment_phys a ph" and ?F = "unat (p_filesz ph)" and ?M = "unat (p_memsz ph)"
  let ?c = "copy_fwd ?p (elf + p_offset ph) ?F b"
  have FM: "?F \<le> ?M" "?M < 4294967296" using le by (simp_all add: word_le_nat_alt)
  have sub: "unat (p_memsz ph - p_filesz ph) = ?M - ?F" using le by (rule unat_sub_u32)
  have c: "?c = (\<lambda>x. if unat (x - ?p) < ?F then b (elf + p_offset ph + (x - ?p)) else b x)"
  proof (rule copy_fwd_apart)
    show "?F \<le> unat (elf + p_offset ph + of_nat i - ?p)" if "i < ?F" for i
      using src [OF that] FM by (simp add: in_mem_def)
  qed (use FM in linarith)
  have c0: "?c = b" if "p_filesz ph = 0" using that by (simp add: copy_fwd_def)
  have fill: "seg_fill elf a ph b x = (if unat (x - (?p + p_filesz ph)) < ?M - ?F then 0 else ?c x)" for x
  proof -
    have "seg_fill elf a ph b = (if p_filesz ph < p_memsz ph then zero_bytes (?p + p_filesz ph) (?M - ?F) ?c else ?c)"
      unfolding seg_fill_def Let_def sub using c0 by simp
    moreover have "?M - ?F \<le> 4294967296" using FM by linarith
    ultimately show ?thesis using FM by (cases "?F < ?M") (simp_all add: word_less_nat_alt zero_bytes_at)
  qed
  have shift: "unat (x - (?p + p_filesz ph)) = (if ?F \<le> unat (x - ?p) then unat (x - ?p) - ?F else unat (x - ?p) + 4294967296 - ?F)" for x
  proof -
    have "unat (y - p_filesz ph) = (if ?F \<le> unat y then unat y - ?F else unat y + 4294967296 - ?F)" for y :: u32
      by (simp add: unat_sub_if_size word_size)
    from this [of "x - ?p"] show ?thesis by (simp add: diff_diff_eq)
  qed
  show "seg_fill elf a ph b (?p + of_nat j) = seg_byte b elf ph j" if "j < ?M" for j
  proof -
    have "unat (of_nat j :: u32) = j" using that FM by (intro unat_of_nat_u32) linarith
    then have u: "unat (?p + of_nat j - ?p) = j" by simp
    have "\<not> j + 4294967296 - ?F < ?M - ?F" "\<not> j < ?F \<Longrightarrow> j - ?F < ?M - ?F" using that FM by linarith+
    then show ?thesis unfolding fill shift u c seg_byte_def by (cases "j < ?F") simp_all
  qed
  show "seg_fill elf a ph b x = b x" if "\<not> seg_block a ph x" for x
    unfolding fill shift c using that FM by (auto simp: in_mem_def)
qed

lemma load_segment_spec:
  assumes inv: "pt_inv D (n + pages (p_memsz ph)) m" and t: "t \<in> D" and ok: "seg_ok a ph"
    and src: "\<And>j. j < unat (p_filesz ph) \<Longrightarrow> \<not> seg_block a ph (elf + p_offset ph + of_nat j)"
  obtains m' where "load_segment elf t a ph m = Some (seg_entry a ph, m')" "pt_inv D n m'"
    "\<And>j. j < unat (p_memsz ph) \<Longrightarrow> visible m' t (p_vaddr ph + of_nat j) = Some (seg_byte (mm_byte m) elf ph j)"
    "\<And>j. j < unat (p_memsz ph) \<Longrightarrow> snd (mmu_map_get_table m' t (p_vaddr ph + of_nat j)) = Some (segment_phys a ph + of_nat j - ((p_vaddr ph + of_nat j) AND 0xFFF))"
    "\<And>d v. d \<in> D \<Longrightarrow> low v \<Longrightarrow> \<not> (d = t \<and> seg_page ph v) \<Longrightarrow> mmu_map_get_table m' d v = mmu_map_get_table m d v"
    "\<And>x. \<not> seg_block a ph x \<Longrightarrow> mm_byte m' x = mm_byte m x"
proof -
  let ?m = "m\<lparr>mm_byte := seg_fill elf a ph (mm_byte m)\<rparr>" and ?p = "segment_phys a ph"
  have le: "p_filesz ph \<le> p_memsz ph" and pg: "page (p_vaddr ph) + pages (p_memsz ph) \<le> 786432"
    and "unat a + 4096 + unat (p_memsz ph) < 4294967296" using ok unfolding seg_ok_def by blast+
  then have sz: "unat (p_memsz ph) \<le> 4294963200" by linarith
  have inv': "pt_inv D (n + pages (p_memsz ph)) ?m" using inv by simp
  obtain m' where m': "mmu_map_table t (p_vaddr ph) ?p (p_memsz ph) (1 OR 2 OR 4) ?m = Some (0, m')" "pt_inv D n m'" "same_regs ?m m'"
    and get: "\<And>d v. d \<in> D \<Longrightarrow> low v \<Longrightarrow> mmu_map_get_table m' d v = (if d = t \<and> seg_page ph v
      then (uint (seen_flags (1 OR 2 OR 4)), Some ((?p AND PAGE_MASK) + of_nat (4096 * (page v - page (p_vaddr ph))))) else mmu_map_get_table ?m d v)"
    using map_table_spec [OF inv' t pg sz, of ?p "1 OR 2 OR 4"] unfolding in_pages_def by blast
  have bytes: "mm_byte m' = seg_fill elf a ph (mm_byte m)" using m'(3) by (simp add: same_regs_def)
  have run: "load_segment elf t a ph m = Some (seg_entry a ph, m')"
  proof -
    have "(if p_filesz ph < p_memsz ph then upd_bytes (zero_bytes (?p + p_filesz ph) (unat (p_memsz ph - p_filesz ph)))
        (if p_filesz ph \<noteq> 0 then upd_bytes (copy_fwd ?p (elf + p_offset ph) (unat (p_filesz ph))) m else m)
      else (if p_filesz ph \<noteq> 0 then upd_bytes (copy_fwd ?p (elf + p_offset ph) (unat (p_filesz ph))) m else m)) = ?m"
      by (simp add: seg_fill_def upd_bytes_def Let_def)
    then show ?thesis using m'(1) unfolding load_segment_def Let_def seg_entry_def by simp
  qed
  have map: "mmu_map_get_table m' t (p_vaddr ph + of_nat j) = (uint (seen_flags (1 OR 2 OR 4)), Some ((?p AND PAGE_MASK) + of_nat (4096 * (page (p_vaddr ph + of_nat j) - page (p_vaddr ph)))))"
    if "j < unat (p_memsz ph)" for j
    using get [OF t region_address(2) [OF seg_ok_region [OF ok] that]] region_address(3) [OF seg_ok_region [OF ok] that] by simp
  show ?thesis
  proof (rule that [OF run m'(2)])
    fix j assume j: "j < unat (p_memsz ph)"
    show "visible m' t (p_vaddr ph + of_nat j) = Some (seg_byte (mm_byte m) elf ph j)"
      unfolding visible_def map [OF j] bytes using region_address(4) [OF seg_ok_region [OF ok] j] seg_fill_spec(1) [OF le src j] by simp
    show "snd (mmu_map_get_table m' t (p_vaddr ph + of_nat j)) = Some (?p + of_nat j - ((p_vaddr ph + of_nat j) AND 0xFFF))"
      unfolding map [OF j] region_address(4) [OF seg_ok_region [OF ok] j, symmetric] by simp
  next
    fix d v assume dv: "d \<in> D" "low v" "\<not> (d = t \<and> seg_page ph v)"
    show "mmu_map_get_table m' d v = mmu_map_get_table m d v" unfolding get [OF dv(1,2)] if_not_P [OF dv(3)] by simp
  next
    fix x assume "\<not> seg_block a ph x"
    with seg_fill_spec(2) [OF le src] show "mm_byte m' x = mm_byte m x" unfolding bytes by blast
  qed
qed

text \<open>
  The segments of a program with the memory they get, and when they do not disturb each other: their
  pages and their memory are apart, and their memory is apart from the image of \<open>sz\<close> bytes.
\<close>

definition image_phdrs :: "bytes \<Rightarrow> u32 \<Rightarrow> Elf32_Phdr list" where
  "image_phdrs b elf = (let h = ehdr_at b elf in map (\<lambda>i. phdr_at b (elf + e_phoff h + 32 * of_nat i)) [0..<unat (e_phnum h)])"

definition loads :: "Elf32_Phdr list \<Rightarrow> Elf32_Phdr list" where
  "loads = filter (\<lambda>ph. p_type ph = PT_LOAD)"

abbreviation seg_apart :: "u32 \<times> Elf32_Phdr \<Rightarrow> u32 \<times> Elf32_Phdr \<Rightarrow> bool" where
  "seg_apart s s' \<equiv> region_apart (seg_region s) (seg_region s')"

definition seg_image :: "u32 \<Rightarrow> nat \<Rightarrow> u32 \<times> Elf32_Phdr \<Rightarrow> bool" where
  "seg_image elf sz s \<longleftrightarrow> (case s of (a, ph) \<Rightarrow> seg_ok a ph \<and> unat (p_offset ph) + unat (p_filesz ph) \<le> sz \<and>
     (unat elf + sz \<le> unat (segment_phys a ph) \<or> unat (segment_phys a ph) + unat (p_memsz ph) \<le> unat elf))"

lemma seg_imageD:
  assumes "seg_image elf sz (a, ph)" "unat elf + sz \<le> 4294967296" "j < sz"
  shows "\<not> seg_block a ph (elf + of_nat j)"
proof -
  have "unat (elf + of_nat j) = unat elf + j" using assms(2,3) by (subst unat_add_u32_lt) (simp_all add: unat_of_nat_u32)
  moreover have "seg_ok a ph" using assms(1) by (simp add: seg_image_def)
  note in_mem_iff [OF seg_ok_region [OF this]]
  ultimately show ?thesis using assms(1,3) by (auto simp: seg_image_def)
qed

definition image_same :: "u32 \<Rightarrow> nat \<Rightarrow> bytes \<Rightarrow> bytes \<Rightarrow> bool" where
  "image_same elf sz b b' \<longleftrightarrow> (\<forall>j < sz. b' (elf + of_nat j) = b (elf + of_nat j))"

lemma image_sameD: "image_same elf sz b b' \<Longrightarrow> j < sz \<Longrightarrow> b' (elf + of_nat j) = b (elf + of_nat j)"
  by (simp add: image_same_def)

lemma get32_same:
  assumes "image_same elf sz b b'" "j + 4 \<le> sz"
  shows "get32 b' (elf + of_nat j) = get32 b (elf + of_nat j)"
proof -
  have "b' (elf + of_nat j + of_nat k) = b (elf + of_nat j + of_nat k)" if "k < 4" for k
    using image_sameD [OF assms(1), of "j + k"] assms(2) that by (simp add: add.assoc)
  from this [of 0] this [of 1] this [of 2] this [of 3] show ?thesis by (simp add: get32_def)
qed

lemma phdr_at_same:
  assumes "image_same elf sz b b'" "j + 32 \<le> sz"
  shows "phdr_at b' (elf + of_nat j) = phdr_at b (elf + of_nat j)"
proof -
  have "get32 b' (elf + of_nat j + of_nat k) = get32 b (elf + of_nat j + of_nat k)" if "k \<le> 28" for k
    using get32_same [OF assms(1), of "j + k"] assms(2) that by (simp add: add.assoc)
  from this [of 0] this [of 4] this [of 8] this [of 12] this [of 16] this [of 20] this [of 24] this [of 28]
  show ?thesis by (simp add: phdr_at_def)
qed

lemma seg_byte_same:
  assumes "image_same elf sz b b'" "unat (p_offset ph) + unat (p_filesz ph) \<le> sz"
  shows "seg_byte b' elf ph = seg_byte b elf ph"
proof
  fix j
  show "seg_byte b' elf ph j = seg_byte b elf ph j"
    using image_sameD [OF assms(1), of "unat (p_offset ph) + j"] assms(2) by (simp add: seg_byte_def add.assoc)
qed

abbreviation loaded_segments :: "u32 list \<Rightarrow> Elf32_Phdr list \<Rightarrow> (u32 \<times> Elf32_Phdr) list" where
  "loaded_segments allocs phs \<equiv> zip allocs (loads phs)"

lemma read_phdrs_spec:
  assumes "pt_inv D (n + (\<Sum>ph \<leftarrow> loads phs. pages (p_memsz ph))) m" and t: "t \<in> D"
    and "length allocs = length (loads phs)" and sz: "unat elf + sz \<le> 4294967296"
    and "image_same elf sz b (mm_byte m)" "phs = map (\<lambda>i. phdr_at b (prog + 32 * of_nat i)) is"
    and "\<forall>i \<in> set is. \<exists>j. prog + 32 * of_nat i = elf + of_nat j \<and> j + 32 \<le> sz"
    and "sorted_wrt seg_apart (loaded_segments allocs phs)" "\<forall>s \<in> set (loaded_segments allocs phs). seg_image elf sz s"
  shows "\<exists>m'. read_phdrs elf t prog is allocs dyn m =
        Some (map (\<lambda>(a, ph). seg_entry a ph) (loaded_segments allocs phs), foldl (\<lambda>d ph. if p_type ph = PT_DYNAMIC then p_vaddr ph else d) dyn phs, m') \<and>
      pt_inv D n m' \<and>
      (\<forall>(a, ph) \<in> set (loaded_segments allocs phs). \<forall>j < unat (p_memsz ph). visible m' t (p_vaddr ph + of_nat j) = Some (seg_byte b elf ph j)) \<and>
      (\<forall>d v. d \<in> D \<longrightarrow> low v \<longrightarrow> \<not> (d = t \<and> (\<exists>(a, ph) \<in> set (loaded_segments allocs phs). seg_page ph v)) \<longrightarrow> mmu_map_get_table m' d v = mmu_map_get_table m d v) \<and>
      (\<forall>x. (\<forall>(a, ph) \<in> set (loaded_segments allocs phs). \<not> seg_block a ph x) \<longrightarrow> mm_byte m' x = mm_byte m x)"
  using assms(1,3,5-9)
proof (induction "is" arbitrary: m allocs dyn phs)
  case Nil
  then show ?case by (simp add: loads_def)
next
  case (Cons i "is")
  let ?ph = "phdr_at b (prog + 32 * of_nat i)" and ?phs = "map (\<lambda>i. phdr_at b (prog + 32 * of_nat i)) is"
  have phs: "phs = ?ph # ?phs" using Cons.prems(4) by simp
  obtain k where "prog + 32 * of_nat i = elf + of_nat k" "k + 32 \<le> sz" using Cons.prems(5) by auto
  then have ph: "phdr_at (mm_byte m) (prog + 32 * of_nat i) = ?ph" using phdr_at_same [OF Cons.prems(3)] by simp
  have hdrs: "\<forall>i \<in> set is. \<exists>j. prog + 32 * of_nat i = elf + of_nat j \<and> j + 32 \<le> sz" using Cons.prems(5) by simp
  show ?case
  proof (cases "p_type ?ph = PT_LOAD")
    case False
    then have "loads phs = loads ?phs" unfolding phs loads_def by simp
    with Cons.IH [OF _ _ Cons.prems(3) refl hdrs, of allocs "if p_type ?ph = PT_DYNAMIC then p_vaddr ?ph else dyn"] Cons.prems(1,2,6,7) False
    show ?thesis unfolding phs by (cases "p_type ?ph = PT_DYNAMIC") (simp_all add: ph Let_def)
  next
    case True
    then have ld: "loads phs = ?ph # loads ?phs" unfolding phs loads_def by simp
    then obtain a as where al: "allocs = a # as" using Cons.prems(2) by (cases allocs) auto
    let ?rest = "loaded_segments as ?phs"
    have segs: "loaded_segments allocs phs = (a, ?ph) # ?rest" unfolding ld al by simp
    note im = Cons.prems(7) [unfolded segs, simplified]
    have ok: "seg_ok a ?ph" and fit: "unat (p_offset ?ph) + unat (p_filesz ?ph) \<le> sz" using im by (simp_all add: seg_image_def)
    have src: "\<not> seg_block a ?ph (elf + p_offset ?ph + of_nat j)" if "j < unat (p_filesz ?ph)" for j
      using seg_imageD [OF _ sz, of a ?ph "unat (p_offset ?ph) + j"] im that fit by (simp add: add.assoc)
    have inv: "pt_inv D (n + (\<Sum>ph \<leftarrow> loads ?phs. pages (p_memsz ph)) + pages (p_memsz ?ph)) m"
      using Cons.prems(1) unfolding ld by (simp add: ac_simps)
    from load_segment_spec [OF inv t ok src] obtain m1 where m1: "load_segment elf t a ?ph m = Some (seg_entry a ?ph, m1)"
      "pt_inv D (n + (\<Sum>ph \<leftarrow> loads ?phs. pages (p_memsz ph))) m1"
      and vis: "\<And>j. j < unat (p_memsz ?ph) \<Longrightarrow> visible m1 t (p_vaddr ?ph + of_nat j) = Some (seg_byte (mm_byte m) elf ?ph j)"
      and loc: "\<And>j. j < unat (p_memsz ?ph) \<Longrightarrow> snd (mmu_map_get_table m1 t (p_vaddr ?ph + of_nat j)) = Some (segment_phys a ?ph + of_nat j - ((p_vaddr ?ph + of_nat j) AND 0xFFF))"
      and fr: "\<And>d v. d \<in> D \<Longrightarrow> low v \<Longrightarrow> \<not> (d = t \<and> seg_page ?ph v) \<Longrightarrow> mmu_map_get_table m1 d v = mmu_map_get_table m d v"
        "\<And>x. \<not> seg_block a ?ph x \<Longrightarrow> mm_byte m1 x = mm_byte m x" by blast
    have same: "image_same elf sz b (mm_byte m1)"
      using Cons.prems(3) fr(2) [OF seg_imageD [OF _ sz]] im by (simp add: image_same_def)
    have ap: "sorted_wrt seg_apart ?rest" "\<forall>s \<in> set ?rest. seg_apart (a, ?ph) s" using Cons.prems(6) unfolding segs by simp_all
    have len: "length as = length (loads ?phs)" using Cons.prems(2) unfolding ld al by simp
    from Cons.IH [OF m1(2) len same refl hdrs ap(1), of dyn] im obtain m' where m': "read_phdrs elf t prog is as dyn m1 =
        Some (map (\<lambda>(a, ph). seg_entry a ph) ?rest, foldl (\<lambda>d ph. if p_type ph = PT_DYNAMIC then p_vaddr ph else d) dyn ?phs, m')" "pt_inv D n m'"
      and vis': "\<forall>(a, ph) \<in> set ?rest. \<forall>j < unat (p_memsz ph). visible m' t (p_vaddr ph + of_nat j) = Some (seg_byte b elf ph j)"
      and fr': "\<And>d v. d \<in> D \<Longrightarrow> low v \<Longrightarrow> \<not> (d = t \<and> (\<exists>(a, ph) \<in> set ?rest. seg_page ph v)) \<Longrightarrow> mmu_map_get_table m' d v = mmu_map_get_table m1 d v"
        "\<And>x. \<forall>(a, ph) \<in> set ?rest. \<not> seg_block a ph x \<Longrightarrow> mm_byte m' x = mm_byte m1 x" by auto
    have D: "region_apart (seg_region (a, ?ph)) r \<and> (case r of (v, p, l) \<Rightarrow> region_ok v p l)" if "r \<in> seg_region ` set ?rest" for r
      using that ap(2) im seg_ok_region by (auto simp: seg_image_def seg_region_def)
    have vis1: "visible m' t (p_vaddr ?ph + of_nat j) = Some (seg_byte b elf ?ph j)" if j: "j < unat (p_memsz ?ph)" for j
    proof (rule region_stays [OF seg_ok_region [OF ok] j _ loc [OF j], where R = "seg_region ` set ?rest"])
      show "visible m1 t (p_vaddr ?ph + of_nat j) = Some (seg_byte b elf ?ph j)"
        using vis [OF j] seg_byte_same [OF Cons.prems(3) fit] by simp
      show "region_apart (p_vaddr ?ph, segment_phys a ?ph, p_memsz ?ph) (v', p', l') \<and> region_ok v' p' l'"
        if "(v', p', l') \<in> seg_region ` set ?rest" for v' p' l' using D [OF that] by (simp add: seg_region_def)
      show "mmu_map_get_table m' t (p_vaddr ?ph + of_nat j) = mmu_map_get_table m1 t (p_vaddr ?ph + of_nat j)"
        if h: "\<And>v' p' l'. (v', p', l') \<in> seg_region ` set ?rest \<Longrightarrow> \<not> in_pages v' l' (p_vaddr ?ph + of_nat j)"
        using h by (intro fr'(1) [OF t region_address(2) [OF seg_ok_region [OF ok] j]]) (force simp: seg_region_def)
      show "mm_byte m' x = mm_byte m1 x" if "\<And>v' p' l'. (v', p', l') \<in> seg_region ` set ?rest \<Longrightarrow> \<not> in_mem p' l' x" for x
        using that by (intro fr'(2)) (force simp: seg_region_def)
    qed
    have run: "read_phdrs elf t prog (i # is) allocs dyn m =
        Some (map (\<lambda>(a, ph). seg_entry a ph) (loaded_segments allocs phs), foldl (\<lambda>d ph. if p_type ph = PT_DYNAMIC then p_vaddr ph else d) dyn phs, m')"
      unfolding segs unfolding phs al using True m1(1) m'(1) by (simp add: ph Let_def)
    show ?thesis
    proof (intro exI conjI)
      show "\<forall>(a, ph) \<in> set (loaded_segments allocs phs). \<forall>j < unat (p_memsz ph). visible m' t (p_vaddr ph + of_nat j) = Some (seg_byte b elf ph j)"
        unfolding segs using vis1 vis' by simp
      show "\<forall>d v. d \<in> D \<longrightarrow> low v \<longrightarrow> \<not> (d = t \<and> (\<exists>(a, ph) \<in> set (loaded_segments allocs phs). seg_page ph v)) \<longrightarrow> mmu_map_get_table m' d v = mmu_map_get_table m d v"
        unfolding segs using fr(1) fr'(1) by simp
      show "\<forall>x. (\<forall>(a, ph) \<in> set (loaded_segments allocs phs). \<not> seg_block a ph x) \<longrightarrow> mm_byte m' x = mm_byte m x"
        unfolding segs using fr(2) fr'(2) by simp
    qed (use run m'(2) in blast)+
  qed
qed

text \<open>
  C4 (a loaded program). The statement is about images all of whose \<open>PT_LOAD\<close> segments satisfy \<open>seg_ok\<close>: they are page aligned, or
  their size is not a multiple of a page and they end within as many pages from their first as their size
  has; they lie below \<open>KERNEL_OFFSET\<close>, and the file has no more bytes for them than their size. (An unaligned
  segment that reaches into one page more is excluded: the code does not map that page. So is an unaligned segment of whole pages: the code
  puts its contents at the wrong offset.) The program headers and the segments' contents lie in the image, the allocations succeed with page-aligned
  blocks, and segments (page by page), blocks and image are apart from each other. Then \<open>elf_read_phdr\<close> allocates, fills and maps every
  such segment: afterwards the new address space shows at each address of each segment the
  byte of the file, and zero behind the file's data; the process's memory map has one entry per
  segment, in order; the dynamic section is the last one named; and all other mappings below \<open>KERNEL_OFFSET\<close>, of this and of
  every other address space, and all memory outside the segments' are what they were.
\<close>

theorem elf_read_phdr_loads:
  fixes m :: mmu_state and elf :: u32
  defines "phs \<equiv> image_phdrs (mm_byte m) elf" and "h \<equiv> ehdr_at (mm_byte m) elf"
  assumes "pt_inv D (n + (\<Sum>ph \<leftarrow> loads phs. pages (p_memsz ph))) m" "t \<in> D" "length allocs = length (loads phs)"
    and "unat elf + sz \<le> 4294967296" "unat (e_phoff h) + 32 * unat (e_phnum h) \<le> sz"
    and "sorted_wrt seg_apart (loaded_segments allocs phs)" "\<forall>s \<in> set (loaded_segments allocs phs). seg_image elf sz s"
  shows "\<exists>m'. elf_read_phdr elf t allocs m =
        Some (map (\<lambda>(a, ph). seg_entry a ph) (loaded_segments allocs phs), foldl (\<lambda>d ph. if p_type ph = PT_DYNAMIC then p_vaddr ph else d) 0 phs, m') \<and>
      pt_inv D n m' \<and>
      (\<forall>(a, ph) \<in> set (loaded_segments allocs phs). \<forall>j < unat (p_memsz ph).
         visible m' t (p_vaddr ph + of_nat j) = Some (if j < unat (p_filesz ph) then mm_byte m (elf + p_offset ph + of_nat j) else 0)) \<and>
      (\<forall>d v. d \<in> D \<longrightarrow> low v \<longrightarrow> \<not> (d = t \<and> (\<exists>(a, ph) \<in> set (loaded_segments allocs phs). seg_page ph v)) \<longrightarrow> mmu_map_get_table m' d v = mmu_map_get_table m d v) \<and>
      (\<forall>x. (\<forall>(a, ph) \<in> set (loaded_segments allocs phs). \<not> seg_block a ph x) \<longrightarrow> mm_byte m' x = mm_byte m x)"
proof -
  have "\<exists>j. elf + e_phoff h + 32 * of_nat i = elf + of_nat j \<and> j + 32 \<le> sz" if "i < unat (e_phnum h)" for i
    using that assms(7) by (intro exI [of _ "unat (e_phoff h) + 32 * i"]) (simp add: add.assoc)
  then have hdrs: "\<forall>i \<in> set [0..<unat (e_phnum h)]. \<exists>j. elf + e_phoff h + 32 * of_nat i = elf + of_nat j \<and> j + 32 \<le> sz" by simp
  have img: "image_same elf sz (mm_byte m) (mm_byte m)" by (simp add: image_same_def)
  have phs: "phs = map (\<lambda>i. phdr_at (mm_byte m) (elf + e_phoff h + 32 * of_nat i)) [0..<unat (e_phnum h)]"
    by (simp add: phs_def h_def image_phdrs_def Let_def)
  show ?thesis unfolding elf_read_phdr_def Let_def
    using read_phdrs_spec [OF assms(3-6) img phs hdrs assms(8,9), of 0] by (simp add: h_def seg_byte_def)
qed

text \<open>An image with two segments and a dynamic section, at \<open>0x10000\<close>.\<close>

definition ex_program :: bytes where
  "ex_program = (\<lambda>_. 0)(0x1001C := 52, 0x1002C := 3,
     0x10034 := 1, 0x10038 := 148, 0x1003D := 0x50, 0x10044 := 2, 0x10048 := 2, 0x10034 + 32 := 1, 0x10038 + 32 := 150, 0x1003C + 32 := 8, 0x1003D + 32 := 0x60,
     0x10044 + 32 := 1, 0x10048 + 32 := 5, 0x10034 + 64 := 2, 0x1003C + 64 := 8, 0x1003D + 64 := 0x60, 0x10094 := 0x90, 0x10095 := 0xC3, 0x10096 := 42)"

definition ex_mmu :: mmu_state where
  "ex_mmu = \<lparr>mm_word = \<lambda>_. 0, mm_byte = ex_program, mm_cr3 = 0x1000, mm_kernel_cr3 = 0x1000, mm_new = [0x3000, 0x4000]\<rparr>"

definition ex_text :: Elf32_Phdr where
  "ex_text = \<lparr>p_type = 1, p_offset = 148, p_vaddr = 0x5000, p_paddr = 0, p_filesz = 2, p_memsz = 2, p_flags = 0, p_align = 0\<rparr>"

definition ex_data :: Elf32_Phdr where
  "ex_data = \<lparr>p_type = 1, p_offset = 150, p_vaddr = 0x6008, p_paddr = 0, p_filesz = 1, p_memsz = 5, p_flags = 0, p_align = 0\<rparr>"

lemma ex_phdrs: "image_phdrs ex_program 0x10000 =
    [ex_text, ex_data, \<lparr>p_type = 2, p_offset = 0, p_vaddr = 0x6008, p_paddr = 0, p_filesz = 0, p_memsz = 0, p_flags = 0, p_align = 0\<rparr>]"
  by (simp add: image_phdrs_def ehdr_at_def phdr_at_def get32_def get16_def ex_program_def upt_rec ex_text_def ex_data_def Let_def)

theorem elf_read_phdr_loads_witness:
  "\<exists>m'. elf_read_phdr 0x10000 0x1000 [0x20000, 0x22000] ex_mmu = Some ([seg_entry 0x20000 ex_text, seg_entry 0x22000 ex_data], 0x6008, m') \<and>
     visible m' 0x1000 0x5001 = Some 0xC3 \<and> visible m' 0x1000 0x6008 = Some 42 \<and> visible m' 0x1000 0x600C = Some 0"
proof -
  have b: "mm_byte ex_mmu = ex_program" by (simp add: ex_mmu_def)
  have l: "loads (image_phdrs (mm_byte ex_mmu) 0x10000) = [ex_text, ex_data]"
    unfolding b ex_phdrs by (simp add: loads_def ex_text_def ex_data_def)
  have inv: "pt_inv {0x1000} (0 + (\<Sum>ph \<leftarrow> loads (image_phdrs (mm_byte ex_mmu) 0x10000). pages (p_memsz ph))) ex_mmu"
    unfolding l by (simp add: pt_inv_def pres_def ex_mmu_def ex_text_def ex_data_def pages_def)
  have h: "unat (e_phoff (ehdr_at (mm_byte ex_mmu) 0x10000)) + 32 * unat (e_phnum (ehdr_at (mm_byte ex_mmu) 0x10000)) \<le> 151"
    unfolding b by (simp add: ehdr_at_def get32_def get16_def ex_program_def)
  have ap: "sorted_wrt seg_apart (zip [0x20000, 0x22000] (loads (image_phdrs (mm_byte ex_mmu) 0x10000)))"
    unfolding l by (simp add: region_apart_def seg_region_def ex_text_def ex_data_def segment_phys_def pages_def)
  have im: "\<forall>s \<in> set (zip [0x20000, 0x22000] (loads (image_phdrs (mm_byte ex_mmu) 0x10000))). seg_image 0x10000 151 s"
    unfolding l by (simp add: seg_image_def seg_ok_def ex_text_def ex_data_def segment_phys_def pages_def)
  have len: "length [0x20000 :: u32, 0x22000] = length (loads (image_phdrs (mm_byte ex_mmu) 0x10000))" unfolding l by simp
  from elf_read_phdr_loads [OF inv _ len _ h ap im] obtain m' where
    m': "elf_read_phdr 0x10000 0x1000 [0x20000, 0x22000] ex_mmu = Some ([seg_entry 0x20000 ex_text, seg_entry 0x22000 ex_data], 0x6008, m')"
    and v: "\<forall>j < unat (p_memsz ex_text). visible m' 0x1000 (p_vaddr ex_text + of_nat j) = Some (if j < unat (p_filesz ex_text) then ex_program (0x10000 + p_offset ex_text + of_nat j) else 0)"
      "\<forall>j < unat (p_memsz ex_data). visible m' 0x1000 (p_vaddr ex_data + of_nat j) = Some (if j < unat (p_filesz ex_data) then ex_program (0x10000 + p_offset ex_data + of_nat j) else 0)"
    unfolding l unfolding b ex_phdrs by (auto simp: ex_text_def ex_data_def)
  from v(1) [rule_format, of 1] v(2) [rule_format, of 0] v(2) [rule_format, of 4] m' show ?thesis
    by (auto simp: ex_text_def ex_data_def ex_program_def)
qed

end
