(* ===== verification/Fork.thy ===== *)
theory Fork
  imports Module
begin

text \<open>
  \<open>fork\<close>: \<open>kernel/src/proc/fork.c\<close>, with \<open>proc_copy_stack\<close> of \<open>arch/x86/src/proc/stack.c\<close> and
  \<open>arch_postfork_setup\<close> of \<open>arch/x86/src/proc/tasking.c\<close>.

  The state is that of the processes, \<open>kstate\<close>, together with that of the page tables, \<open>mmu_state\<close>. The
  operations on processes record their calls to the page tables in \<open>ks_mmu\<close>; \<open>run_calls\<close> carries them
  out. The kernel's heap is mapped at its own addresses, so that the registers saved on a kernel
  stack are bytes of \<open>mm_byte\<close>. The contents of memory that \<open>kmalloc\<close> returns and that is not written
  is the argument \<open>junk\<close>.
\<close>

unbundle bit_operations_syntax

fun run_call :: "mmu_call \<Rightarrow> mmu_state \<Rightarrow> mmu_state option" where
  "run_call (Mmu_clone src new) m = do {
     (_, m) \<leftarrow> mmu_clone_table (of_nat src) (m\<lparr>mm_new := of_nat new # mm_new m\<rparr>);
     Some m
   }"
| "run_call (Mmu_map table virt phys len flags) m = do {
     (_, m) \<leftarrow> mmu_map_table (of_nat table) virt phys len flags m;
     Some m
   }"

fun run_list :: "mmu_call list \<Rightarrow> mmu_state \<Rightarrow> mmu_state option" where
  "run_list [] m = Some m"
| "run_list (c # cs) m = do { m \<leftarrow> run_call c m; run_list cs m }"

definition run_calls :: "kstate \<Rightarrow> mmu_state \<Rightarrow> (kstate \<times> mmu_state) option" where
  "run_calls s m = do { m \<leftarrow> run_list (ks_mmu s) m; Some (s\<lparr>ks_mmu := []\<rparr>, m) }"

section \<open>The memory of the child\<close>

partial_function (option) count_ments :: "kstate \<Rightarrow> addr \<Rightarrow> nat option" where
  "count_ments s pent =
     (if pent = NULL then Some 0
      else do { E \<leftarrow> ks_ments s pent; n \<leftarrow> count_ments s (me_next E); Some (Suc n) })"

declare count_ments.simps [code]

text \<open>The physical address with the same alignment as the parent's, in a block of \<open>length + 0x1000\<close> bytes.\<close>

definition same_alignment :: "u32 \<Rightarrow> u32 \<Rightarrow> u32" where
  "same_alignment phys pphys =
     (if phys AND 0xFFF \<le> pphys AND 0xFFF then (phys AND PAGE_MASK) OR (pphys AND 0xFFF)
      else phys + (0x1000 - ((phys AND 0xFFF) - (pphys AND 0xFFF))))"

text \<open>
  The second loop of \<open>proc_copy_data\<close>, between the tables \<open>dest\<close> and \<open>src\<close>. \<open>cent->next\<close> of the last entry is
  not written.
\<close>

partial_function (option) copy_ments ::
    "u32 \<Rightarrow> u32 \<Rightarrow> addr \<Rightarrow> addr \<Rightarrow> kstate \<Rightarrow> mmu_state \<Rightarrow> (int \<times> kstate \<times> mmu_state) option" where
  "copy_ments dest src pent cent s m =
     (if pent = NULL then Some (0, s, m)
      else do {
        E \<leftarrow> ks_ments s pent;
        C \<leftarrow> ks_ments s cent;
        let next = (if me_next E \<noteq> NULL then cent + 16 else me_next C);
        let (a, s) = kmalloc_next s;
        let phys = (if of_nat a = (0 :: u32) then 0 else same_alignment (of_nat a) (me_phys E));
        s \<leftarrow> upd_ment cent (\<lambda>_. \<lparr>me_virt = me_virt E, me_phys = phys, me_length = me_length E, me_next = next\<rparr>) s;
        if of_nat a = (0 :: u32) then Some (- ENOMEM, s, m)
        else do {
          (r, m) \<leftarrow> mmu_map_table dest (me_virt E) phys (me_length E) (MAP_READ OR MAP_WRITE) m;
          if r \<noteq> 0 then Some (- EUNSPEC, s, m)
          else do {
            (r, m) \<leftarrow> mmu_copy_data dest (me_virt E) src (me_virt E) (me_length E) m;
            if r \<noteq> 0 then Some (- EUNSPEC, s, m)
            else copy_ments dest src (me_next E) next s m
          }
        }
      })"

declare copy_ments.simps [code]

definition put_ments :: "addr \<Rightarrow> nat \<Rightarrow> (nat \<Rightarrow> kproc_mem_map_ent) \<Rightarrow> kstate \<Rightarrow> kstate" where
  "put_ments base n junk s = s\<lparr>ks_ments := fold (\<lambda>i f. f(base + 16 * i \<mapsto> junk i)) [0..<n] (ks_ments s)\<rparr>"

definition proc_copy_data ::
    "(nat \<Rightarrow> kproc_mem_map_ent) \<Rightarrow> addr \<Rightarrow> addr \<Rightarrow> kstate \<Rightarrow> mmu_state \<Rightarrow> (int \<times> kstate \<times> mmu_state) option" where
  "proc_copy_data junk dest src s m = do {
     DT \<leftarrow> ks_threads s dest;
     ST \<leftarrow> ks_threads s src;
     DP \<leftarrow> ks_procs s (th_process DT);
     SP \<leftarrow> ks_procs s (th_process ST);
     n_ents \<leftarrow> count_ments s (pr_mmap SP);
     let (base, s) = kmalloc_next s;
     s \<leftarrow> upd_proc (th_process DT) (\<lambda>P. P\<lparr>pr_mmap := base\<rparr>) s;
     if base = NULL then Some (- ENOMEM, s, m)
     else copy_ments (of_nat (pr_mmu_table DP)) (of_nat (pr_mmu_table SP)) (pr_mmap SP) base (put_ments base n_ents junk s) m
   }"

text \<open>The result of the copy is ignored.\<close>

definition proc_copy_stack :: "addr \<Rightarrow> addr \<Rightarrow> kstate \<Rightarrow> mmu_state \<Rightarrow> (int \<times> mmu_state) option" where
  "proc_copy_stack dest src s m = do {
     DT \<leftarrow> ks_threads s dest;
     ST \<leftarrow> ks_threads s src;
     DP \<leftarrow> ks_procs s (th_process DT);
     SP \<leftarrow> ks_procs s (th_process ST);
     let end_src = ar_user_begin (th_arch ST) - ar_user_size (th_arch ST);
     let end_dest = ar_user_begin (th_arch DT) - ar_user_size (th_arch DT);
     (_, m) \<leftarrow> mmu_copy_data (of_nat (pr_mmu_table DP)) end_dest (of_nat (pr_mmu_table SP)) end_src (ar_user_size (th_arch ST)) m;
     Some (0, m)
   }"

text \<open>
  The child resumes in \<open>return_from_fork\<close> with the registers the parent had at its system call; the
  result of the call, in the structure \<open>ebx\<close> points to, is 0.
\<close>

definition arch_postfork_setup :: "u32 \<Rightarrow> addr \<Rightarrow> addr \<Rightarrow> kstate \<Rightarrow> mmu_state \<Rightarrow> (int \<times> kstate \<times> mmu_state) option" where
  "arch_postfork_setup return_from_fork parent chld s m = do {
     PT \<leftarrow> ks_threads s parent;
     CT \<leftarrow> ks_threads s chld;
     CP \<leftarrow> ks_procs s (th_process CT);
     let stack = ar_kern_begin (th_arch CT);
     s \<leftarrow> upd_thread chld (\<lambda>T. T\<lparr>th_arch := (th_arch T)\<lparr>ar_ebp := ar_ebp (th_arch PT), ar_esp := stack - 52, ar_eip := return_from_fork\<rparr>\<rparr>) s;
     let m = upd_bytes (copy_fwd (stack - 20) (ar_iret (th_arch PT)) 20) m;
     let m = upd_bytes (copy_fwd (stack - 52) (ar_pusha (th_arch PT)) 32) m;
     let syscall_args_virt = get32 (mm_byte m) (stack - 52 + 16);
     (r, m) \<leftarrow> mmu_write_data (of_nat (pr_mmu_table CP)) syscall_args_virt [0, 0, 0, 0] m;
     Some (if r \<noteq> 0 then - 1 else 0, s, m)
   }"

section \<open>The call\<close>

text \<open>The process and the thread of the child exist and are empty; \<open>cthread\<close> is the first of its threads.\<close>

definition fork_clone_process ::
    "u32 \<Rightarrow> (nat \<Rightarrow> kproc_mem_map_ent) \<Rightarrow> addr \<Rightarrow> addr \<Rightarrow> kstate \<Rightarrow> mmu_state \<Rightarrow> (int \<times> kstate \<times> mmu_state) option" where
  "fork_clone_process return_from_fork junk chld parent s m = do {
     (r, s) \<leftarrow> proc_add_child parent chld s;
     if r \<noteq> 0 then Some (- EUNSPEC, s\<lparr>ks_creat_task := unlock (ks_creat_task s)\<rparr>, m)
     else do {
       P \<leftarrow> ks_procs s parent;
       let (pid, s) = get_next_pid s;
       s \<leftarrow> upd_proc chld (\<lambda>C. C\<lparr>pr_name := take KPROC_NAME_MAX (pr_name P), pr_pid := pid, pr_uid := pr_uid P, pr_gid := pr_gid P,
              pr_cwd := pr_cwd P, pr_domain := pr_domain P, pr_open_files := pr_open_files P, pr_file_position := pr_file_position P\<rparr>) s;
       let (table, s) = clone_table (pr_mmu_table P) s;
       s \<leftarrow> upd_proc chld (\<lambda>C. C\<lparr>pr_mmu_table := table\<rparr>) s;
       L \<leftarrow> lh_lists (ks_lh s) (threads_of chld);
       it \<leftarrow> lh_items (ks_lh s) (ll_list L);
       let cthread = item_data it;
       pthread \<leftarrow> mtask_get_curr_thread s;
       PT \<leftarrow> ks_threads s pthread;
       s \<leftarrow> upd_thread cthread (\<lambda>T. T\<lparr>th_tid := of_int pid, th_prio := th_prio PT, th_entrypoint := th_entrypoint PT,
              th_stack_size := th_stack_size PT\<rparr>) s;
       (r, s) \<leftarrow> arch_proc_create_stack cthread s;
       (r', s) \<leftarrow> (if r \<noteq> 0 then Some (r, s) else arch_proc_create_kernel_stack cthread s);
       (s, m) \<leftarrow> run_calls s m;
       if r' \<noteq> 0 then Some (- EUNSPEC, s, m)
       else do {
         (r, m) \<leftarrow> proc_copy_stack cthread pthread s m;
         (r', s, m) \<leftarrow> (if r \<noteq> 0 then Some (r, s, m) else proc_copy_data junk cthread pthread s m);
         if r' \<noteq> 0 then Some (- EUNSPEC, s, m)
         else do {
           s \<leftarrow> upd_thread cthread (\<lambda>T. T\<lparr>th_flags := th_flags T OR KTHREAD_FLAG_RANONCE\<rparr>) s;
           (_, s, m) \<leftarrow> arch_postfork_setup return_from_fork pthread cthread s m;
           Some (0, s, m)
         }
       }
     }
   }"

text \<open>
  A failure of \<open>fork_clone_process\<close> returns at once: \<open>creat_task\<close> stays locked unless there was no slot
  for the child. \<open>None\<close> when there is no current thread or no memory for the two structures (a panic).
\<close>

definition fork ::
    "(nat \<Rightarrow> lock_t \<Rightarrow> lock_t) \<Rightarrow> (nat \<Rightarrow> lock_t \<times> u64) \<Rightarrow> u32 \<Rightarrow> (nat \<Rightarrow> kproc_mem_map_ent) \<Rightarrow> kstate \<Rightarrow> mmu_state \<Rightarrow>
     (int \<times> kstate \<times> mmu_state) option" where
  "fork lock_env env return_from_fork junk s m = do {
     thread \<leftarrow> mtask_get_curr_thread s;
     if thread = NULL then None
     else do {
       T \<leftarrow> ks_threads s thread;
       v \<leftarrow> lock lock_env 0 (ks_creat_task s);
       let s = s\<lparr>ks_creat_task := v\<rparr>;
       let (chld, s) = kmalloc_next s;
       let (cthread, s) = kmalloc_next s;
       if chld = NULL \<or> cthread = NULL then None
       else do {
         let s = put_thread cthread zero_thread (put_proc chld zero_proc s);
         let s = s\<lparr>ks_lh := llist_init (ks_lh s) (threads_of chld)\<rparr>;
         (_, s) \<leftarrow> proc_add_thread chld cthread s;
         (r, s, m) \<leftarrow> fork_clone_process return_from_fork junk chld (th_process T) s m;
         if r \<noteq> 0 then Some (- EUNSPEC, s, m)
         else do {
           s \<leftarrow> upd_proc chld (\<lambda>P. P\<lparr>pr_type := pr_type P OR TYPE_RUNNABLE\<rparr>) s;
           s \<leftarrow> upd_thread cthread (\<lambda>T. T\<lparr>th_flags := th_flags T OR KTHREAD_FLAG_RUNNABLE\<rparr>) s;
           (_, s) \<leftarrow> mtask_insert_proc chld s;
           (_, s) \<leftarrow> sched_enqueue_thread env cthread s;
           P \<leftarrow> ks_procs s chld;
           Some (pr_pid P, s\<lparr>ks_creat_task := unlock (ks_creat_task s)\<rparr>, m)
         }
       }
     }
   }"

end
