(* ===== verification/Mmu_Dup.thy ===== *)
theory Mmu_Dup
  imports Mmu_Copy
begin

text \<open>
  Copying from one address space to another (\<open>mmu_copy_data\<close>): two pages of physical memory are mapped
  for a while at their own addresses, and each byte of the range arrives where the destination maps it.
\<close>

lemma temporary_maps:
  assumes inv: "pt_inv D (4 + n) m" and c: "mm_cr3 m \<in> D" "mm_cr3 m \<noteq> 0" and p: "low sp" "low dp" "page sp \<noteq> page dp"
  obtains se de m1 m2 where "mmu_map_save m sp = Some se" "mmu_map_save m dp = Some de"
    "mmu_map sp sp 1 f m = Some (0, m1)" "mmu_map dp dp 1 g m1 = Some (0, m2)" "mm_byte m2 = mm_byte m"
    "\<And>b. \<exists>m3 m4. undo_map se sp (m2\<lparr>mm_byte := b\<rparr>) = Some m3 \<and> undo_map de dp m3 = Some m4 \<and> pt_inv D n m4 \<and>
      mm_byte m4 = b \<and> mm_cr3 m4 = mm_cr3 m \<and> same_view D m m4"
proof -
  have save: "\<exists>e. mmu_map_save m q = Some e" for q
    using c by (cases "mmu_map_get_table m (mm_cr3 m) q") (auto simp: mmu_map_save_def mmu_map_get_def)
  obtain se de where e: "mmu_map_save m sp = Some se" "mmu_map_save m dp = Some de" using save by blast
  have i: "pt_inv D (Suc (3 + n)) m" using inv by (simp add: eval_nat_numeral)
  obtain m1 where m1: "mmu_map sp sp 1 f m = Some (0, m1)" "pt_inv D (3 + n) m1" "same_regs m m1"
    "\<And>d w. d \<in> D \<Longrightarrow> low w \<Longrightarrow> mmu_map_get_table m1 d w =
      (if d = mm_cr3 m \<and> page w = page sp then (uint (seen_flags f), Some (sp AND PAGE_MASK)) else mmu_map_get_table m d w)"
    using mmu_map_page_spec [OF i c p(1), of 1 sp f] by auto
  obtain mb where mb: "pt_inv D (3 + n) mb" "same_regs m mb"
    "\<And>d w. d \<in> D \<Longrightarrow> low w \<Longrightarrow> mmu_map_get_table mb d w =
      (if d = mm_cr3 m \<and> page w = page dp then (uint (seen_flags g), Some (dp AND PAGE_MASK)) else mmu_map_get_table m d w)"
    using mmu_map_page_spec [OF i c p(2), of 1 dp g] by auto
  have c1: "mm_cr3 m1 = mm_cr3 m" "mm_cr3 mb = mm_cr3 m" using m1(3) mb(2) by (simp_all add: same_regs_def)
  have i1: "pt_inv D (Suc (2 + n)) m1" using m1(2) by (simp add: eval_nat_numeral)
  obtain m2 where m2: "mmu_map dp dp 1 g m1 = Some (0, m2)" "pt_inv D (2 + n) m2" "same_regs m1 m2"
    "\<And>d w. d \<in> D \<Longrightarrow> low w \<Longrightarrow> mmu_map_get_table m2 d w =
      (if d = mm_cr3 m \<and> page w = page dp then (uint (seen_flags g), Some (dp AND PAGE_MASK)) else mmu_map_get_table m1 d w)"
    using mmu_map_page_spec [OF i1, of dp 1 dp g] c p(2) c1 by auto
  have sb: "mmu_map_save mb sp = Some se"
    using e(1) c mb(3) [OF c(1) p(1)] c1 p(3) by (simp add: mmu_map_save_def mmu_map_get_def)
  have "\<exists>m3 m4. undo_map se sp (m2\<lparr>mm_byte := b\<rparr>) = Some m3 \<and> undo_map de dp m3 = Some m4 \<and> pt_inv D n m4 \<and>
      mm_byte m4 = b \<and> mm_cr3 m4 = mm_cr3 m \<and> same_view D m m4" for b
  proof -
    let ?m = "m2\<lparr>mm_byte := b\<rparr>"
    have cr: "mm_cr3 ?m = mm_cr3 m" using m2(3) c1 by (simp add: same_regs_def)
    have "\<exists>m3. undo_map se sp ?m = Some m3 \<and> pt_inv D (Suc n) m3 \<and> same_regs ?m m3 \<and> same_view D mb m3"
      by (rule undo_map_spec [OF _ _ _ p(1) _ sb]) (use m2(2,4) m1(4) mb(3) c cr c1 in \<open>auto split: if_splits\<close>)
    then obtain m3 where m3: "undo_map se sp ?m = Some m3" "pt_inv D (Suc n) m3" "same_regs ?m m3" "same_view D mb m3" by blast
    have cr3: "mm_cr3 m3 = mm_cr3 m" using m3(3) cr by (simp add: same_regs_def)
    have "\<exists>m4. undo_map de dp m3 = Some m4 \<and> pt_inv D n m4 \<and> same_regs m3 m4 \<and> same_view D m m4"
      by (rule undo_map_spec [OF m3(2) _ _ p(2) _ e(2)]) (use m3(4) mb(3) c cr3 in \<open>auto simp: same_view_def split: if_splits\<close>)
    with m3 cr3 show ?thesis by (auto simp: same_regs_def)
  qed
  with that [OF e m1(1) m2(1)] m1(3) m2(3) show ?thesis by (simp add: same_regs_def)
qed

lemma map_get_aligned: "mmu_map_get_table m t v = (i, Some p) \<Longrightarrow> aligned p"
  by (auto simp: mmu_map_get_table_def Let_def unat_page_mask split: if_splits)

lemma page_frame:
  assumes "mmu_map_get_table m t v = (i, Some p)"
  shows "page (xlate m t v) = page p"
proof -
  have "unat p mod 4096 + unat (v AND 0xFFF) < 4096" using map_get_aligned [OF assms] by (simp add: unat_low_bits)
  from same_page_add(1) [OF this] show ?thesis using assms by (simp add: xlate_def)
qed

lemma copy_loop_spec:
  assumes "pt_inv D (n + 4 * (len - off)) m" "mm_cr3 m \<in> D" "mm_cr3 m \<noteq> 0" and d: "d \<in> D" and t: "t \<in> D"
    and len: "unat virt + len \<le> 3221225472" and "off \<le> len"
    and "\<And>i. off \<le> i \<Longrightarrow> i < len \<Longrightarrow> mapped MAP_READ m t (virt + of_nat i)"
    and "\<And>i. off \<le> i \<Longrightarrow> i < len \<Longrightarrow> mapped MAP_WRITE m d (virt + of_nat i)"
    and "\<And>i j. i < len \<Longrightarrow> j < len \<Longrightarrow> xlate m t (virt + of_nat i) \<noteq> xlate m d (virt + of_nat j)"
  shows "\<exists>m'. copy_loop d virt t virt (of_nat len) (of_nat off) m = Some (0, m') \<and> pt_inv D n m' \<and>
    mm_cr3 m' = mm_cr3 m \<and> same_view D m m' \<and>
    mm_byte m' = store (\<lambda>i. xlate m d (virt + of_nat i)) (\<lambda>i. mm_byte m (xlate m t (virt + of_nat i))) [off..<len] (mm_byte m)"
  using assms(1-3,7-10)
proof (induction "len - off" arbitrary: off m rule: less_induct)
  case less
  show ?case
  proof (cases "off = len")
    case True
    then show ?thesis using less.prems(1) by (subst copy_loop.simps) (simp add: same_view_def store_def)
  next
    case False
    then have off: "off < len" using less.prems(4) by simp
    let ?a = "virt + of_nat off"
    let ?c = "chunk ?a (of_nat len - of_nat off)"
    let ?k = "unat ?c" and ?sp = "xlate m t ?a" and ?dp = "xlate m d ?a"
    note st = loop_step [OF len off]
    obtain i p where s: "mmu_map_get_table m t ?a = (i, Some p)" "0 \<le> i" "of_int i AND MAP_READ \<noteq> 0" "p + (?a AND 0xFFF) = ?sp"
      using mapped_get [OF less.prems(5) [OF order_refl off]] by blast
    obtain j q where g: "mmu_map_get_table m d ?a = (j, Some q)" "0 \<le> j" "of_int j AND MAP_WRITE \<noteq> 0" "q + (?a AND 0xFFF) = ?dp"
      using mapped_get [OF less.prems(6) [OF order_refl off]] by blast
    have pq: "p \<noteq> q" using less.prems(7) [OF off off] s(4) g(4) by auto
    then have pages: "page ?sp \<noteq> page ?dp"
      using aligned_eq [OF map_get_aligned [OF s(1)] map_get_aligned [OF g(1)]] page_frame [OF s(1)] page_frame [OF g(1)] by simp
    have low: "low ?sp" "low ?dp" using less.prems(5,6) [OF order_refl off] by (simp_all add: mapped_def)
    have "4 + (n + 4 * (len - (off + ?k))) \<le> n + 4 * (len - off)" using st(1,2) by linarith
    with less.prems(1) have inv: "pt_inv D (4 + (n + 4 * (len - (off + ?k)))) m" by (rule pt_inv_mono)
    obtain se de m1 m2 where m1: "mmu_map_save m ?sp = Some se" "mmu_map_save m ?dp = Some de"
        "mmu_map ?sp ?sp 1 MAP_READ m = Some (0, m1)" "mmu_map ?dp ?dp 1 MAP_WRITE m1 = Some (0, m2)" "mm_byte m2 = mm_byte m"
      and undo: "\<And>b. \<exists>m3 m4. undo_map se ?sp (m2\<lparr>mm_byte := b\<rparr>) = Some m3 \<and> undo_map de ?dp m3 = Some m4 \<and>
        pt_inv D (n + 4 * (len - (off + ?k))) m4 \<and> mm_byte m4 = b \<and> mm_cr3 m4 = mm_cr3 m \<and> same_view D m m4"
      by (rule temporary_maps [OF inv less.prems(2,3) low pages, where f = MAP_READ and g = MAP_WRITE]) blast
    let ?bs = "read_bytes m2 ?sp ?k"
    let ?w = "write_bytes ?dp ?bs m2"
    have w: "?w = m2\<lparr>mm_byte := mm_byte ?w\<rparr>" by (simp add: write_bytes_def)
    obtain m3 m4 where m4: "undo_map se ?sp ?w = Some m3" "undo_map de ?dp m3 = Some m4"
        "pt_inv D (n + 4 * (len - (off + ?k))) m4" "mm_byte m4 = mm_byte ?w" "mm_cr3 m4 = mm_cr3 m" "same_view D m m4"
      using undo [of "mm_byte ?w"] by (subst (asm) w [symmetric]) blast
    have run: "copy_loop d virt t virt (of_nat len) (of_nat off) m = copy_loop d virt t virt (of_nat len) (of_nat (off + ?k)) m4"
      using s g m1 m4(1,2) st(3) pq by (subst copy_loop.simps) (simp add: st(4) [symmetric] Let_def)
    let ?x = "\<lambda>i. xlate m d (virt + of_nat i)" and ?f = "\<lambda>i. mm_byte m (xlate m t (virt + of_nat i))"
    have "mm_byte ?w = store (\<lambda>i. ?dp + of_nat i) ((!) ?bs) [0..<?k] (mm_byte m)"
      using write_bytes_store [of ?bs ?dp m2] m1(5) st(2) len by (simp add: read_bytes_def)
    also have "\<dots> = store (\<lambda>i. ?x (off + i)) (\<lambda>i. ?f (off + i)) [0..<?k] (mm_byte m)"
      using st(5) [of _ m d] st(5) [of _ m t] m1(5) by (intro store_cong) (simp add: read_bytes_def)
    also have "\<dots> = store ?x ?f [off..<off + ?k] (mm_byte m)" by (rule store_shift)
    finally have b4: "mm_byte m4 = store ?x ?f [off..<off + ?k] (mm_byte m)" unfolding m4(4) .
    have x: "xlate m4 e (virt + of_nat i) = xlate m e (virt + of_nat i)" if "e \<in> D" "i < len" for e i
      by (rule same_view_xlate [OF m4(6) that(1) range_low [OF len that(2)]])
    have src: "mm_byte m4 (xlate m t (virt + of_nat i)) = ?f i" if "i < len" for i
    proof -
      have "xlate m t (virt + of_nat i) \<notin> ?x ` set [off..<off + ?k]"
      proof
        assume "xlate m t (virt + of_nat i) \<in> ?x ` set [off..<off + ?k]"
        then obtain j where "j < off + ?k" "xlate m t (virt + of_nat i) = ?x j" by auto
        with less.prems(7) [OF that, of j] st(2) show False by simp
      qed
      then show ?thesis unfolding b4 by (rule store_other)
    qed
    have meas: "len - (off + ?k) < len - off" using st(1) off by linarith
    have c4: "mm_cr3 m4 \<in> D" "mm_cr3 m4 \<noteq> 0" using less.prems(2,3) m4(5) by simp_all
    have ok: "mapped MAP_READ m4 t (virt + of_nat i)" "mapped MAP_WRITE m4 d (virt + of_nat i)" if "off + ?k \<le> i" "i < len" for i
      using less.prems(5,6) [of i] that same_view_mapped [OF m4(6) t range_low [OF len that(2)]] same_view_mapped [OF m4(6) d range_low [OF len that(2)]] by simp_all
    have ne: "xlate m4 t (virt + of_nat i) \<noteq> xlate m4 d (virt + of_nat j)" if "i < len" "j < len" for i j
      using less.prems(7) [OF that] x [OF t that(1)] x [OF d that(2)] by simp
    from less.hyps [OF meas m4(3) c4 st(2) ok ne] obtain m' where
      m': "copy_loop d virt t virt (of_nat len) (of_nat (off + ?k)) m4 = Some (0, m')" "pt_inv D n m'" "mm_cr3 m' = mm_cr3 m4" "same_view D m4 m'"
      and b': "mm_byte m' = store (\<lambda>i. xlate m4 d (virt + of_nat i)) (\<lambda>i. mm_byte m4 (xlate m4 t (virt + of_nat i))) [off + ?k..<len] (mm_byte m4)" by blast
    have "mm_byte m' = store ?x ?f [off + ?k..<len] (mm_byte m4)"
      unfolding b' using x d t src by (intro store_cong) simp
    also have "\<dots> = store ?x ?f [off..<len] (mm_byte m)"
      unfolding b4 store_append [symmetric] using upt_split [of off "off + ?k" len] st(2) by simp
    finally show ?thesis using run m' m4(5,6) same_view_trans by auto
  qed
qed

text \<open>
  A range that both address spaces map at the same addresses, to different memory.
\<close>

lemma mmu_copy_data_copies:
  assumes "pt_inv D (n + 4 * unat sz) m" "mm_cr3 m \<in> D" "mm_cr3 m \<noteq> 0" "d \<in> D" "t \<in> D" "unat virt + unat sz \<le> 3221225472"
    and "\<And>i. i < unat sz \<Longrightarrow> mapped MAP_READ m t (virt + of_nat i)" "\<And>i. i < unat sz \<Longrightarrow> mapped MAP_WRITE m d (virt + of_nat i)"
    and "\<And>i j. i < unat sz \<Longrightarrow> j < unat sz \<Longrightarrow> xlate m t (virt + of_nat i) \<noteq> xlate m d (virt + of_nat j)"
  shows "\<exists>m'. mmu_copy_data d virt t virt sz m = Some (0, m') \<and> pt_inv D n m' \<and> mm_cr3 m' = mm_cr3 m \<and> same_view D m m' \<and>
    mm_byte m' = store (\<lambda>i. xlate m d (virt + of_nat i)) (\<lambda>i. mm_byte m (xlate m t (virt + of_nat i))) [0..<unat sz] (mm_byte m)"
  using copy_loop_spec [of D n "unat sz" 0 m d t virt] assms by (simp add: mmu_copy_data_def)

end
