(* ===== verification/Fork_Sound.thy ===== *)
theory Fork_Sound
  imports Fork Mmu_Dup Mmu_View Sched
begin

text \<open>
  The memory of a forked process: \<open>proc_copy_data\<close> gives the child its own copy of every region of the
  parent's memory map, at the same addresses, and leaves the parent as it was.
\<close>

unbundle bit_operations_syntax

section \<open>One region\<close>

lemma copy_region:
  assumes inv: "pt_inv D (n + 4 * unat l + pages l) m" and c: "mm_cr3 m \<in> D" "mm_cr3 m \<noteq> 0" and d: "d \<in> D" and t: "t \<in> D" and dt: "d \<noteq> t"
    and ok: "region_ok v p l" and top: "unat p + unat l \<le> 3221225472"
    and src: "\<And>j. j < unat l \<Longrightarrow> mapped MAP_READ m t (v + of_nat j)" "\<And>j. j < unat l \<Longrightarrow> \<not> in_mem p l (xlate m t (v + of_nat j))"
  obtains m1 m' where "mmu_map_table d v p l 3 m = Some (0, m1)" "mmu_copy_data d v t v l m1 = Some (0, m')"
    "pt_inv D n m'" "mm_cr3 m' = mm_cr3 m"
    "\<And>j. j < unat l \<Longrightarrow> visible m' d (v + of_nat j) = visible m t (v + of_nat j)"
    "\<And>j. j < unat l \<Longrightarrow> snd (mmu_map_get_table m' d (v + of_nat j)) = Some (p + of_nat j - ((v + of_nat j) AND 0xFFF))"
    "\<And>e w. e \<in> D \<Longrightarrow> low w \<Longrightarrow> \<not> (e = d \<and> in_pages v l w) \<Longrightarrow> mmu_map_get_table m' e w = mmu_map_get_table m e w"
    "\<And>x. \<not> in_mem p l x \<Longrightarrow> mm_byte m' x = mm_byte m x"
proof -
  note addr = region_address [OF ok]
  have pg: "page v + pages l \<le> 786432" using ok unfolding region_ok_def by blast
  have len: "unat v + unat l \<le> 3221225472"
  proof -
    have "unat v mod 4096 + unat l \<le> 4096 * pages l" using ok unfolding region_ok_def by blast
    moreover have "unat v = 4096 * page v + unat v mod 4096" by simp
    ultimately show ?thesis using pg by linarith
  qed
  have sz: "unat l \<le> 4294963200" using top by linarith
  obtain m1 where m1: "mmu_map_table d v p l 3 m = Some (0, m1)" "pt_inv D (n + 4 * unat l) m1" "same_regs m m1"
    and get: "\<And>e w. e \<in> D \<Longrightarrow> low w \<Longrightarrow> mmu_map_get_table m1 e w = (if e = d \<and> in_pages v l w
      then (uint (seen_flags 3), Some ((p AND PAGE_MASK) + of_nat (4096 * (page w - page v)))) else mmu_map_get_table m e w)"
    using map_table_spec [OF inv d pg sz, of p 3] unfolding in_pages_def by blast
  have c1: "mm_cr3 m1 = mm_cr3 m" "mm_byte m1 = mm_byte m" using m1(3) by (simp_all add: same_regs_def)
  have getd: "mmu_map_get_table m1 d (v + of_nat j) = (3, Some (p + of_nat j - ((v + of_nat j) AND 0xFFF)))" if "j < unat l" for j
    unfolding get [OF d addr(2) [OF that]] using addr(3,4) [OF that] by (simp add: seen_flags_def eq_diff_eq)
  have gett: "mmu_map_get_table m1 t w = mmu_map_get_table m t w" if "low w" for w using get [OF t that] dt by simp
  have xd: "xlate m1 d (v + of_nat j) = p + of_nat j" if "j < unat l" for j unfolding xlate_def getd [OF that] by simp
  have xt: "xlate m1 t (v + of_nat j) = xlate m t (v + of_nat j)" if "j < unat l" for j
    unfolding xlate_def gett [OF addr(2) [OF that]] ..
  have lowd: "low (p + of_nat j)" if "j < unat l" for j using range_low [OF top that] .
  have inj: "i = j" if "p + of_nat i = p + of_nat j" "i < unat l" "j < unat l" for i j
    using that unat_u32_lt [of l] unat_of_nat_u32 [of i] unat_of_nat_u32 [of j] by (metis add_left_cancel less_trans)
  have "mapped MAP_READ m1 t (v + of_nat j)" "mapped MAP_WRITE m1 d (v + of_nat j)" if "j < unat l" for j
    using src(1) [OF that] gett [OF addr(2) [OF that]] xt [OF that] xd [OF that] getd [OF that] lowd [OF that] by (simp_all add: mapped_def)
  moreover have "xlate m1 t (v + of_nat i) \<noteq> xlate m1 d (v + of_nat j)" if "i < unat l" "j < unat l" for i j
    using src(2) [OF that(1)] in_mem_offset [OF that(2), of p] xt [OF that(1)] xd [OF that(2)] by metis
  ultimately obtain m' where m': "mmu_copy_data d v t v l m1 = Some (0, m')" "pt_inv D n m'" "mm_cr3 m' = mm_cr3 m1" "same_view D m1 m'"
    and b: "mm_byte m' = store (\<lambda>i. xlate m1 d (v + of_nat i)) (\<lambda>i. mm_byte m1 (xlate m1 t (v + of_nat i))) [0..<unat l] (mm_byte m1)"
    using mmu_copy_data_copies [OF m1(2) _ _ d t len] c c1(1) by auto
  have b: "mm_byte m' = store (\<lambda>i. p + of_nat i) (\<lambda>i. mm_byte m (xlate m t (v + of_nat i))) [0..<unat l] (mm_byte m)"
    unfolding b c1(2) by (rule store_cong) (simp add: xd xt)
  have inj': "inj_on (\<lambda>i. p + of_nat i :: u32) (set [0..<unat l])" using inj by (auto intro!: inj_onI)
  show ?thesis
  proof (rule that [OF m1(1) m'(1,2)])
    show "mm_cr3 m' = mm_cr3 m" using m'(3) c1(1) by simp
    show g: "snd (mmu_map_get_table m' d (v + of_nat j)) = Some (p + of_nat j - ((v + of_nat j) AND 0xFFF))" if "j < unat l" for j
      using m'(4) d addr(2) [OF that] getd [OF that] by (simp add: same_view_def)
    show "visible m' d (v + of_nat j) = visible m t (v + of_nat j)" if j: "j < unat l" for j
    proof -
      have "mm_byte m' (p + of_nat j) = mm_byte m (xlate m t (v + of_nat j))"
        unfolding b using store_same [OF _ inj', of j] j by simp
      moreover obtain i q where "mmu_map_get_table m t (v + of_nat j) = (i, Some q)" using mapped_get [OF src(1) [OF j]] by blast
      ultimately show ?thesis using g [OF j] by (simp add: visible_def xlate_def)
    qed
    show "mmu_map_get_table m' e w = mmu_map_get_table m e w" if "e \<in> D" "low w" "\<not> (e = d \<and> in_pages v l w)" for e w
      using m'(4) that(1,2) get [OF that(1,2)] that(3) by (auto simp: same_view_def)
    show "mm_byte m' x = mm_byte m x" if "\<not> in_mem p l x" for x
    proof -
      have "x \<notin> (\<lambda>i. p + of_nat i) ` set [0..<unat l]" using that in_mem_offset [of _ l p] by auto
      then show ?thesis unfolding b by (rule store_other)
    qed
  qed
qed

section \<open>All regions\<close>

text \<open>From \<open>m\<close> to \<open>m'\<close>, the regions \<open>R\<close> were copied from \<open>t\<close> to \<open>d\<close>, and nothing else changed.\<close>

definition copied :: "u32 set \<Rightarrow> u32 \<Rightarrow> u32 \<Rightarrow> (u32 \<times> u32 \<times> u32) set \<Rightarrow> mmu_state \<Rightarrow> mmu_state \<Rightarrow> bool" where
  "copied D d t R m m' \<longleftrightarrow> mm_cr3 m' = mm_cr3 m \<and>
     (\<forall>(v, p, l) \<in> R. \<forall>j < unat l. visible m' d (v + of_nat j) = visible m t (v + of_nat j)) \<and>
     (\<forall>e w. e \<in> D \<longrightarrow> low w \<longrightarrow> \<not> (e = d \<and> (\<exists>(v, p, l) \<in> R. in_pages v l w)) \<longrightarrow> mmu_map_get_table m' e w = mmu_map_get_table m e w) \<and>
     (\<forall>b. (\<forall>(v, p, l) \<in> R. \<not> in_mem p l b) \<longrightarrow> mm_byte m' b = mm_byte m b)"

lemma copiedD:
  assumes "copied D d t R m m'"
  shows "mm_cr3 m' = mm_cr3 m" "(v, p, l) \<in> R \<Longrightarrow> j < unat l \<Longrightarrow> visible m' d (v + of_nat j) = visible m t (v + of_nat j)"
    "e \<in> D \<Longrightarrow> low w \<Longrightarrow> (\<And>v p l. e = d \<Longrightarrow> (v, p, l) \<in> R \<Longrightarrow> \<not> in_pages v l w) \<Longrightarrow> mmu_map_get_table m' e w = mmu_map_get_table m e w"
    "(\<And>v p l. (v, p, l) \<in> R \<Longrightarrow> \<not> in_mem p l b) \<Longrightarrow> mm_byte m' b = mm_byte m b"
  using assms unfolding copied_def by blast+

lemma copied_step:
  assumes d: "d \<in> D" and t: "t \<in> D" and dt: "d \<noteq> t" and ok: "region_ok v p l"
    and c: "mm_cr3 m2 = mm_cr3 m" and vis: "\<And>j. j < unat l \<Longrightarrow> visible m2 d (v + of_nat j) = visible m t (v + of_nat j)"
    and loc: "\<And>j. j < unat l \<Longrightarrow> snd (mmu_map_get_table m2 d (v + of_nat j)) = Some (p + of_nat j - ((v + of_nat j) AND 0xFFF))"
    and get: "\<And>e w. e \<in> D \<Longrightarrow> low w \<Longrightarrow> \<not> (e = d \<and> in_pages v l w) \<Longrightarrow> mmu_map_get_table m2 e w = mmu_map_get_table m e w"
    and bytes: "\<And>x. \<not> in_mem p l x \<Longrightarrow> mm_byte m2 x = mm_byte m x"
    and apart: "\<And>v' p' l'. (v', p', l') \<in> R \<Longrightarrow> region_apart (v, p, l) (v', p', l') \<and> region_ok v' p' l'"
    and src: "\<And>v' p' l' j. (v', p', l') \<in> R \<Longrightarrow> j < unat l' \<Longrightarrow> \<not> in_mem p l (xlate m t (v' + of_nat j))"
    and R: "copied D d t R m2 m'"
  shows "copied D d t (insert (v, p, l) R) m m'"
proof -
  have first: "visible m' d (v + of_nat j) = visible m t (v + of_nat j)" if j: "j < unat l" for j
    using region_stays [OF ok j vis [OF j] loc [OF j] apart copiedD(3) [OF R d region_address(2) [OF ok j]] copiedD(4) [OF R]] by simp
  have rest: "visible m' d (v' + of_nat j) = visible m t (v' + of_nat j)" if r: "(v', p', l') \<in> R" "j < unat l'" for v' p' l' j
  proof -
    have low: "low (v' + of_nat j)" using region_address(2) apart [OF r(1)] r(2) by blast
    have "visible m2 t (v' + of_nat j) = visible m t (v' + of_nat j)"
    proof (rule visible_frame [OF refl])
      show "mmu_map_get_table m2 t (v' + of_nat j) = mmu_map_get_table m t (v' + of_nat j)" using get [OF t low] dt by simp
      show "mm_byte m2 (f + ((v' + of_nat j) AND 0xFFF)) = mm_byte m (f + ((v' + of_nat j) AND 0xFFF))"
        if "snd (mmu_map_get_table m t (v' + of_nat j)) = Some f" for f
        using bytes [OF src [OF r]] that by (simp add: xlate_def)
    qed
    then show ?thesis using copiedD(2) [OF R r] by simp
  qed
  show ?thesis unfolding copied_def
  proof (intro conjI allI impI)
    show "mm_cr3 m' = mm_cr3 m" using copiedD(1) [OF R] c by simp
    show "\<forall>(v, p, l) \<in> insert (v, p, l) R. \<forall>j < unat l. visible m' d (v + of_nat j) = visible m t (v + of_nat j)"
      using first rest by auto
    show "mmu_map_get_table m' e w = mmu_map_get_table m e w"
      if h: "e \<in> D" "low w" "\<not> (e = d \<and> (\<exists>(v, p, l) \<in> insert (v, p, l) R. in_pages v l w))" for e w
    proof -
      have "mmu_map_get_table m' e w = mmu_map_get_table m2 e w" using h(3) by (intro copiedD(3) [OF R h(1,2)]) blast
      also have "\<dots> = mmu_map_get_table m e w" using h(3) by (intro get [OF h(1,2)]) blast
      finally show ?thesis .
    qed
    show "mm_byte m' b = mm_byte m b" if h: "\<forall>(v, p, l) \<in> insert (v, p, l) R. \<not> in_mem p l b" for b
    proof -
      have "mm_byte m' b = mm_byte m2 b" using h by (intro copiedD(4) [OF R]) blast
      also have "\<dots> = mm_byte m b" using h by (intro bytes) blast
      finally show ?thesis .
    qed
  qed
qed

text \<open>
  A memory map: the entries of the list that starts at a pointer, each with its address and with the
  result of \<open>kmalloc\<close> for the child's copy.
\<close>

fun ment_chain :: "kstate \<Rightarrow> addr \<Rightarrow> (addr \<times> addr \<times> kproc_mem_map_ent) list \<Rightarrow> bool" where
  "ment_chain s p [] \<longleftrightarrow> p = NULL"
| "ment_chain s p ((q, a, E) # xs) \<longleftrightarrow> p = q \<and> p \<noteq> NULL \<and> ks_ments s p = Some E \<and> ment_chain s (me_next E) xs"

definition child_region :: "addr \<times> addr \<times> kproc_mem_map_ent \<Rightarrow> u32 \<times> u32 \<times> u32" where
  "child_region x = (case x of (q, a, E) \<Rightarrow> (me_virt E, same_alignment (of_nat a) (me_phys E), me_length E))"

definition copy_cost :: "kproc_mem_map_ent \<Rightarrow> nat" where
  "copy_cost E = 4 * unat (me_length E) + pages (me_length E)"

lemma ment_chain_cong:
  "ment_chain s p xs \<Longrightarrow> (\<And>x. x \<in> set xs \<Longrightarrow> ks_ments s' (fst x) = ks_ments s (fst x)) \<Longrightarrow> ment_chain s' p xs"
proof (induction s p xs rule: ment_chain.induct)
  case (2 s p q a E xs)
  then show ?case using "2.prems"(2) [of "(q, a, E)"] by auto
qed simp

lemma ment_chain_null: "ment_chain s p xs \<Longrightarrow> p = NULL \<longleftrightarrow> xs = []"
  by (cases xs) auto

text \<open>The child's entries at \<open>cent\<close>; \<open>f\<close> is the memory there before.\<close>

definition child_ents :: "addr \<Rightarrow> (addr \<Rightarrow> kproc_mem_map_ent option) \<Rightarrow> (addr \<times> addr \<times> kproc_mem_map_ent) list \<Rightarrow> (addr \<Rightarrow> kproc_mem_map_ent option) \<Rightarrow> bool" where
  "child_ents cent f xs g \<longleftrightarrow>
     (\<forall>i < length xs. g (cent + 16 * i) = Some \<lparr>me_virt = fst (child_region (xs ! i)), me_phys = fst (snd (child_region (xs ! i))),
        me_length = snd (snd (child_region (xs ! i))), me_next = if Suc i < length xs then cent + 16 * Suc i else me_next (the (f (cent + 16 * i)))\<rparr>) \<and>
     (\<forall>q. (\<forall>i < length xs. q \<noteq> cent + 16 * i) \<longrightarrow> g q = f q)"

lemma child_ents_Cons:
  assumes "child_ents (cent + 16) (f(cent \<mapsto> \<lparr>me_virt = v, me_phys = p, me_length = l, me_next = nxt\<rparr>)) xs g"
    and "child_region x = (v, p, l)" "nxt = (if xs \<noteq> [] then cent + 16 else me_next (the (f cent)))"
  shows "child_ents cent f (x # xs) g"
proof -
  let ?f = "f(cent \<mapsto> \<lparr>me_virt = v, me_phys = p, me_length = l, me_next = nxt\<rparr>)"
  have out: "g q = ?f q" if "\<And>i. i < length xs \<Longrightarrow> q \<noteq> cent + 16 + 16 * i" for q using assms(1) that unfolding child_ents_def by blast
  show ?thesis unfolding child_ents_def
  proof (intro conjI allI impI)
    fix i assume i: "i < length (x # xs)"
    show "g (cent + 16 * i) = Some \<lparr>me_virt = fst (child_region ((x # xs) ! i)), me_phys = fst (snd (child_region ((x # xs) ! i))),
        me_length = snd (snd (child_region ((x # xs) ! i))), me_next = if Suc i < length (x # xs) then cent + 16 * Suc i else me_next (the (f (cent + 16 * i)))\<rparr>"
    proof (cases i)
      case 0
      then show ?thesis using out [of cent] assms(2,3) by auto
    next
      case (Suc k)
      then show ?thesis using assms(1) i unfolding child_ents_def by (simp add: add.assoc)
    qed
  next
    fix q assume q: "\<forall>i < length (x # xs). q \<noteq> cent + 16 * i"
    have "q \<noteq> cent" using q [rule_format, of 0] by simp
    moreover have "q \<noteq> cent + 16 + 16 * i" if "i < length xs" for i using q [rule_format, of "Suc i"] that by simp
    ultimately show "g q = f q" using out [of q] by simp
  qed
qed

lemma child_ents_Nil [simp]: "child_ents cent f [] g \<longleftrightarrow> g = f"
  by (auto simp: child_ents_def)

definition ready :: "mmu_state \<Rightarrow> u32 \<Rightarrow> addr \<times> addr \<times> kproc_mem_map_ent \<Rightarrow> bool" where
  "ready m t x \<longleftrightarrow> (case x of (q, a, E) \<Rightarrow> (of_nat a :: u32) \<noteq> 0) \<and>
     (case child_region x of (v, p, l) \<Rightarrow> region_ok v p l \<and> unat p + unat l \<le> 3221225472 \<and> (\<forall>j < unat l. mapped MAP_READ m t (v + of_nat j)))"

definition sources_apart :: "mmu_state \<Rightarrow> u32 \<Rightarrow> (addr \<times> addr \<times> kproc_mem_map_ent) list \<Rightarrow> bool" where
  "sources_apart m t xs \<longleftrightarrow> (\<forall>x \<in> set xs. \<forall>y \<in> set xs. case (child_region x, child_region y) of
     ((v, p, l), (v', _, l')) \<Rightarrow> \<forall>j < unat l'. \<not> in_mem p l (xlate m t (v' + of_nat j)))"

lemma ready_frame:
  assumes "ready m t x" "\<And>w. low w \<Longrightarrow> mmu_map_get_table m' t w = mmu_map_get_table m t w"
  shows "ready m' t x"
proof -
  obtain v p l where r: "child_region x = (v, p, l)" by (cases "child_region x")
  with assms(1) have "region_ok v p l" by (simp add: ready_def)
  then have "mapped MAP_READ m' t (v + of_nat j) = mapped MAP_READ m t (v + of_nat j)" if "j < unat l" for j
    using region_address(2) [OF _ that] assms(2) by (simp add: mapped_def xlate_def)
  with assms(1) show ?thesis by (simp add: ready_def r)
qed

lemma sources_frame:
  assumes "sources_apart m t xs" "\<And>x. x \<in> set xs \<Longrightarrow> ready m t x" "\<And>w. low w \<Longrightarrow> mmu_map_get_table m' t w = mmu_map_get_table m t w"
  shows "sources_apart m' t xs"
proof -
  have "xlate m' t (v + of_nat j) = xlate m t (v + of_nat j)" if "x \<in> set xs" "child_region x = (v, p, l)" "j < unat l" for x v p l j
    using assms(2) [OF that(1)] that(2) region_address(2) [OF _ that(3), of v p] assms(3) by (simp add: xlate_def ready_def)
  then have "(\<forall>j < unat (snd (snd (child_region y))). \<not> in_mem p l (xlate m' t (fst (child_region y) + of_nat j))) =
      (\<forall>j < unat (snd (snd (child_region y))). \<not> in_mem p l (xlate m t (fst (child_region y) + of_nat j)))" if "y \<in> set xs" for y p l
    using that by (metis prod.collapse)
  with assms(1) show ?thesis unfolding sources_apart_def by (simp add: case_prod_beta)
qed

lemma copy_ments_spec:
  assumes d: "d \<in> D" and t: "t \<in> D" and dt: "d \<noteq> t"
    and "pt_inv D (n + (\<Sum>(q, a, E) \<leftarrow> xs. copy_cost E)) m" "mm_cr3 m \<in> D" "mm_cr3 m \<noteq> 0"
    and "ment_chain s pent xs" "ks_new s = map (\<lambda>(q, a, E). a) xs @ rest"
    and "\<forall>i < length xs. ks_ments s (cent + 16 * i) \<noteq> None" "\<forall>x \<in> set xs. \<forall>i < length xs. fst x \<noteq> cent + 16 * i"
    and "\<forall>x \<in> set xs. ready m t x" "sources_apart m t xs" "sorted_wrt (\<lambda>x y. region_apart (child_region x) (child_region y)) xs"
  shows "\<exists>f m'. copy_ments d t pent cent s m = Some (0, s\<lparr>ks_ments := f, ks_new := rest\<rparr>, m') \<and> child_ents cent (ks_ments s) xs f \<and>
    pt_inv D n m' \<and> copied D d t (child_region ` set xs) m m'"
  using assms(4-)
proof (induction xs arbitrary: pent cent s m)
  case Nil
  then show ?case by (subst copy_ments.simps) (auto simp: copied_def)
next
  case (Cons x xs)
  obtain q a E where x: "x = (q, a, E)" by (cases x)
  define v p l where "v = me_virt E" and "p = same_alignment (of_nat a) (me_phys E)" and "l = me_length E"
  have reg: "child_region x = (v, p, l)" by (simp add: x child_region_def v_def p_def l_def)
  have rd: "(of_nat a :: u32) \<noteq> 0" "region_ok v p l" "unat p + unat l \<le> 3221225472" and src: "\<And>j. j < unat l \<Longrightarrow> mapped MAP_READ m t (v + of_nat j)"
    using Cons.prems(8) reg by (simp_all add: ready_def x)
  have sa: "\<not> in_mem p l (xlate m t (v' + of_nat j))" if "y \<in> set (x # xs)" "child_region y = (v', p', l')" "j < unat l'" for y v' p' l' j
    using Cons.prems(9) that reg unfolding sources_apart_def by fastforce
  have inv: "pt_inv D (n + (\<Sum>(q, a, E) \<leftarrow> xs. copy_cost E) + 4 * unat l + pages l) m"
    using Cons.prems(1) by (simp add: x copy_cost_def l_def ac_simps)
  have src2: "\<not> in_mem p l (xlate m t (v + of_nat j))" if "j < unat l" for j using sa [OF _ reg that] by simp
  from copy_region [OF inv Cons.prems(2,3) d t dt rd(2,3) src src2] obtain m1 m2 where
    m1: "mmu_map_table d v p l 3 m = Some (0, m1)" "mmu_copy_data d v t v l m1 = Some (0, m2)"
    and m2: "pt_inv D (n + (\<Sum>(q, a, E) \<leftarrow> xs. copy_cost E)) m2" "mm_cr3 m2 = mm_cr3 m"
    and vis: "\<And>j. j < unat l \<Longrightarrow> visible m2 d (v + of_nat j) = visible m t (v + of_nat j)"
    and loc: "\<And>j. j < unat l \<Longrightarrow> snd (mmu_map_get_table m2 d (v + of_nat j)) = Some (p + of_nat j - ((v + of_nat j) AND 0xFFF))"
    and fr: "\<And>e w. e \<in> D \<Longrightarrow> low w \<Longrightarrow> \<not> (e = d \<and> in_pages v l w) \<Longrightarrow> mmu_map_get_table m2 e w = mmu_map_get_table m e w"
      "\<And>b. \<not> in_mem p l b \<Longrightarrow> mm_byte m2 b = mm_byte m b" by blast
  obtain C where C: "ks_ments s cent = Some C" using Cons.prems(6) [rule_format, of 0] by auto
  have E: "pent = q" "pent \<noteq> NULL" "ks_ments s pent = Some E" "ment_chain s (me_next E) xs" using Cons.prems(4) by (auto simp: x)
  let ?n = "if xs \<noteq> [] then cent + 16 else me_next C"
  let ?s = "s\<lparr>ks_new := map (\<lambda>(q, a, E). a) xs @ rest, ks_ments := (ks_ments s)(cent \<mapsto> \<lparr>me_virt = v, me_phys = p, me_length = l, me_next = ?n\<rparr>)\<rparr>"
  have nx: "me_next E \<noteq> NULL \<longleftrightarrow> xs \<noteq> []" using ment_chain_null [OF E(4)] by simp
  have run: "copy_ments d t pent cent s m = copy_ments d t (me_next E) ?n ?s m2"
  proof -
    have k: "kmalloc_next s = (a, s\<lparr>ks_new := map (\<lambda>(q, a, E). a) xs @ rest\<rparr>)" using Cons.prems(5) by (simp add: kmalloc_next_def x)
    have "(MAP_READ OR MAP_WRITE :: u32) = 3" by simp
    note e = this m1 [unfolded v_def p_def l_def]
    show ?thesis using E(2,3) C rd(1) nx
      by (subst copy_ments.simps) (simp add: k e upd_ment_def v_def p_def l_def Let_def)
  qed
  have "\<exists>f m'. copy_ments d t (me_next E) ?n ?s m2 = Some (0, ?s\<lparr>ks_ments := f, ks_new := rest\<rparr>, m') \<and>
      child_ents (cent + 16) (ks_ments ?s) xs f \<and> pt_inv D n m' \<and> copied D d t (child_region ` set xs) m2 m'"
  proof (cases "xs = []")
    case True
    then have "me_next E = NULL" using nx by simp
    then show ?thesis using True m2(1) by (subst copy_ments.simps) (auto simp: copied_def)
  next
    case False
    have par: "mmu_map_get_table m2 t w = mmu_map_get_table m t w" if "low w" for w using fr(1) [OF t that] dt by simp
    have "ment_chain ?s (me_next E) xs"
      using Cons.prems(7) by (intro ment_chain_cong [OF E(4)]) force
    moreover have "\<forall>i < length xs. ks_ments ?s (cent + 16 + 16 * i) \<noteq> None"
      using Cons.prems(6) [rule_format, of "Suc i" for i] by (simp add: add.assoc)
    moreover have "\<forall>x \<in> set xs. \<forall>i < length xs. fst x \<noteq> cent + 16 + 16 * i"
      using Cons.prems(7) [rule_format, of _ "Suc i" for i] by (simp add: add.assoc)
    moreover have "\<forall>x \<in> set xs. ready m2 t x" using ready_frame [OF _ par] Cons.prems(8) by simp
    moreover have "sources_apart m t xs" using Cons.prems(9) by (simp add: sources_apart_def)
    then have "sources_apart m2 t xs" using Cons.prems(8) by (intro sources_frame [OF _ _ par]) simp_all
    ultimately show ?thesis
      using Cons.IH [OF m2(1), of ?s "me_next E" "cent + 16"] Cons.prems(2,3,10) m2(2) False by (simp del: fun_upd_apply)
  qed
  then obtain f m' where res: "copy_ments d t (me_next E) ?n ?s m2 = Some (0, ?s\<lparr>ks_ments := f, ks_new := rest\<rparr>, m')"
    "child_ents (cent + 16) (ks_ments ?s) xs f" "pt_inv D n m'" "copied D d t (child_region ` set xs) m2 m'" by blast
  have "child_ents cent (ks_ments s) (x # xs) f"
    by (rule child_ents_Cons [OF _ reg]) (use res(2) C in auto)
  moreover have "copied D d t (child_region ` set (x # xs)) m m'"
  proof -
    have "region_apart (v, p, l) (v', p', l') \<and> region_ok v' p' l'" if "(v', p', l') \<in> child_region ` set xs" for v' p' l'
      using that Cons.prems(8,10) reg by (force simp: ready_def)
    moreover have "\<not> in_mem p l (xlate m t (v' + of_nat j))" if h: "(v', p', l') \<in> child_region ` set xs" "j < unat l'" for v' p' l' j
    proof -
      obtain y where "y \<in> set xs" "child_region y = (v', p', l')" using h(1) by (metis imageE)
      then show ?thesis using sa [of y v' p' l' j] h(2) by simp
    qed
    ultimately have "copied D d t (insert (v, p, l) (child_region ` set xs)) m m'"
      using copied_step [OF d t dt rd(2) m2(2) vis loc fr _ _ res(4)] by blast
    then show ?thesis using reg by simp
  qed
  ultimately show ?case using res(1,3) run by auto
qed

section \<open>The whole memory map\<close>

lemma same_alignment_spec:
  assumes "unat a + 4096 \<le> 4294967296"
  shows "unat (same_alignment a q) mod 4096 = unat q mod 4096" "unat a \<le> unat (same_alignment a q)" "unat (same_alignment a q) < unat a + 4096"
proof -
  let ?r = "unat a mod 4096" and ?k = "unat q mod 4096"
  have a: "unat a = 4096 * page a + ?r" by simp
  have lt: "?r < 4096" "?k < 4096" by simp_all
  have le: "a AND 0xFFF \<le> q AND 0xFFF \<longleftrightarrow> ?r \<le> ?k" by (simp add: word_le_nat_alt unat_low_bits)
  have "unat (same_alignment a q) = (if ?r \<le> ?k then 4096 * page a + ?k else unat a + (4096 - (?r - ?k)))"
  proof (cases "?r \<le> ?k")
    case True
    have "(a AND PAGE_MASK) AND (q AND 0xFFF) = (a AND q) AND (PAGE_MASK AND 0xFFF)" by (simp only: ac_simps)
    also have "\<dots> = 0" by simp
    finally have "(a AND PAGE_MASK) AND (q AND 0xFFF) = 0" .
    then have "(a AND PAGE_MASK) OR (q AND 0xFFF) = (a AND PAGE_MASK) + (q AND 0xFFF)" by (simp add: disjunctive_add_eq_or)
    moreover have "unat (a AND PAGE_MASK) + unat (q AND 0xFFF) = 4096 * page a + ?k" by (simp add: unat_page_mask unat_low_bits mult.commute)
    ultimately show ?thesis using True le assms a lt unfolding same_alignment_def
      by (simp add: unat_add_u32_lt)
  next
    case False
    have k: "unat ((a AND 0xFFF) - (q AND 0xFFF)) = ?r - ?k" using False le by (subst unat_sub_u32) (auto simp: unat_low_bits)
    then have "unat (0x1000 - ((a AND 0xFFF) - (q AND 0xFFF))) = 4096 - (?r - ?k)"
      using lt by (subst unat_sub_u32) (auto simp: word_le_nat_alt)
    then show ?thesis using False le assms a lt unfolding same_alignment_def by (simp add: unat_add_u32_lt)
  qed
  note val = this
  have u: "unat (same_alignment a q) = (if ?r \<le> ?k then 4096 * page a + ?k else 4096 * page a + 4096 + ?k)"
  proof -
    have "unat a + (4096 - (?r - ?k)) = 4096 * page a + 4096 + ?k" if "\<not> ?r \<le> ?k" using that a lt by linarith
    then show ?thesis by (simp add: val)
  qed
  show "unat (same_alignment a q) mod 4096 = ?k" "unat a \<le> unat (same_alignment a q)" "unat (same_alignment a q) < unat a + 4096"
  proof -
    have e: "4096 * page a + 4096 + ?k = 4096 * (page a + 1) + ?k" by simp
    show "unat (same_alignment a q) mod 4096 = ?k"
      unfolding u e by (cases "?r \<le> ?k") (simp_all only: if_True if_False mod_mult_self4 mod_mod_trivial)
    have "?r \<le> ?k \<Longrightarrow> unat a \<le> 4096 * page a + ?k \<and> 4096 * page a + ?k < unat a + 4096"
      "\<not> ?r \<le> ?k \<Longrightarrow> unat a \<le> 4096 * page a + 4096 + ?k \<and> 4096 * page a + 4096 + ?k < unat a + 4096" using a lt by linarith+
    then show "unat a \<le> unat (same_alignment a q)" "unat (same_alignment a q) < unat a + 4096" unfolding u by (simp_all only: split: if_split) auto
  qed
qed

lemma count_ments_chain: "ment_chain s p xs \<Longrightarrow> count_ments s p = Some (length xs)"
  by (induction s p xs rule: ment_chain.induct) (subst count_ments.simps, auto)+

lemma fold_ents:
  "fold (\<lambda>i f. f(base + 16 * i \<mapsto> junk i)) [0..<n] f q = (if \<exists>i < n. q = base + 16 * i then Some (junk ((q - base) div 16)) else f q)"
  by (induction n) (auto simp: less_Suc_eq)

lemma put_ments_at:
  "i < n \<Longrightarrow> ks_ments (put_ments base n junk s) (base + 16 * i) = Some (junk i)"
  "(\<And>i. i < n \<Longrightarrow> q \<noteq> base + 16 * i) \<Longrightarrow> ks_ments (put_ments base n junk s) q = ks_ments s q"
  by (auto simp: put_ments_def fold_ents)

text \<open>
  What \<open>fork\<close> relies on, for the parent's table \<open>t\<close>. Every region of its map is mapped, with physical memory
  at the same offset in the page, and does not reach into one page more than its size has; the
  allocator's blocks, of the region's size and a page, are apart from each other and from the memory the
  parent's regions are in; and so are the regions' pages.
\<close>

definition dup_ok :: "mmu_state \<Rightarrow> u32 \<Rightarrow> addr \<times> addr \<times> kproc_mem_map_ent \<Rightarrow> bool" where
  "dup_ok m t x \<longleftrightarrow> (case x of (q, a, E) \<Rightarrow> 0 < a \<and> a + unat (me_length E) + 4096 \<le> 3221225472 \<and>
     unat (me_phys E) mod 4096 = unat (me_virt E) mod 4096 \<and>
     unat (me_virt E) mod 4096 + unat (me_length E) \<le> 4096 * pages (me_length E) \<and> page (me_virt E) + pages (me_length E) \<le> 786432 \<and>
     (\<forall>j < unat (me_length E). mapped MAP_READ m t (me_virt E + of_nat j)))"

definition in_block :: "addr \<times> addr \<times> kproc_mem_map_ent \<Rightarrow> nat \<Rightarrow> bool" where
  "in_block x k \<longleftrightarrow> (case x of (q, a, E) \<Rightarrow> a \<le> k \<and> k < a + unat (me_length E) + 4096)"

definition blocks_apart :: "addr \<times> addr \<times> kproc_mem_map_ent \<Rightarrow> addr \<times> addr \<times> kproc_mem_map_ent \<Rightarrow> bool" where
  "blocks_apart x y \<longleftrightarrow> (case (x, y) of ((_, a, E), (_, a', E')) \<Rightarrow>
     (a + unat (me_length E) + 4096 \<le> a' \<or> a' + unat (me_length E') + 4096 \<le> a) \<and>
     (page (me_virt E) + pages (me_length E) \<le> page (me_virt E') \<or> page (me_virt E') + pages (me_length E') \<le> page (me_virt E)))"

lemma dup_ok_region:
  assumes "dup_ok m t x"
  shows "ready m t x" "child_region x = (v, p, l) \<Longrightarrow> in_mem p l k \<Longrightarrow> in_block x (unat k)"
    and "child_region x = (v, p, l) \<Longrightarrow> fst (snd x) \<le> unat p \<and> unat p + unat l \<le> fst (snd x) + unat l + 4096"
proof -
  obtain q a E where x: "x = (q, a, E)" by (cases x)
  let ?p = "same_alignment (of_nat a) (me_phys E)" and ?l = "me_length E" and ?v = "me_virt E"
  have h: "0 < a" "a + unat ?l + 4096 \<le> 3221225472" "unat (me_phys E) mod 4096 = unat ?v mod 4096"
    "unat ?v mod 4096 + unat ?l \<le> 4096 * pages ?l" "page ?v + pages ?l \<le> 786432" "\<forall>j < unat ?l. mapped MAP_READ m t (?v + of_nat j)"
    using assms unfolding dup_ok_def x prod.case by blast+
  have a: "unat (of_nat a :: u32) = a" using h(2) by (intro unat_of_nat_u32) linarith
  have "unat (of_nat a :: u32) + 4096 \<le> 4294967296" using a h(2) by linarith
  note sa = same_alignment_spec [OF this, of "me_phys E", unfolded a]
  have nz: "(of_nat a :: u32) \<noteq> 0" using a h(1) by (metis unat_0 less_irrefl)
  have ok: "region_ok ?v ?p ?l" "unat ?p + unat ?l \<le> 3221225472" unfolding region_ok_def using sa h by linarith+
  have reg: "child_region x = (?v, ?p, ?l)" by (simp add: x child_region_def)
  show "ready m t x" unfolding ready_def reg using nz ok h(6) by (simp add: x)
  show "child_region x = (v, p, l) \<Longrightarrow> in_mem p l k \<Longrightarrow> in_block x (unat k)"
    using in_mem_iff [OF ok(1)] sa unfolding reg by (auto simp: in_block_def x)
  show "child_region x = (v, p, l) \<Longrightarrow> fst (snd x) \<le> unat p \<and> unat p + unat l \<le> fst (snd x) + unat l + 4096"
    unfolding reg using sa by (auto simp: x)
qed

lemma blocks_apart_region:
  assumes "blocks_apart x y" "dup_ok m t x" "dup_ok m t y"
  shows "region_apart (child_region x) (child_region y)"
proof -
  obtain q a E q' a' E' where x: "x = (q, a, E)" "y = (q', a', E')" by (cases x, cases y)
  have r: "child_region x = (me_virt E, same_alignment (of_nat a) (me_phys E), me_length E)"
    "child_region y = (me_virt E', same_alignment (of_nat a') (me_phys E'), me_length E')" by (simp_all add: x child_region_def)
  show ?thesis using assms(1) dup_ok_region(3) [OF assms(2) r(1)] dup_ok_region(3) [OF assms(3) r(2)]
    unfolding r by (auto simp: region_apart_def blocks_apart_def x)
qed

text \<open>
  C3 (the memory of a forked process). The statement is about parents all of whose regions satisfy \<open>dup_ok\<close>: every
  byte is mapped readable in the parent, the region's pages are below \<open>KERNEL_OFFSET\<close>, its physical and virtual address have the same
  offset in the page, and the region ends within as many pages from its first as its size has. (A region that
  starts within a page and reaches into one page more is excluded: \<open>mmu_map_table\<close> does not map that page to
  the copy, so that the child goes on sharing it with the parent.) Different regions have different pages; the allocations succeed, with blocks apart from each
  other and from the parent's memory. Then \<open>proc_copy_data\<close> succeeds and afterwards the child's address space
  shows at every address of every region of the memory map what the parent's shows; the child's regions
  are in its own, newly allocated memory; the parent sees what it saw before; and the child's
  map has the parent's regions in order, in one allocated block.
\<close>

theorem proc_copy_data_copies:
  fixes DP SP :: kproc
  defines "d \<equiv> of_nat (pr_mmu_table DP)" and "t \<equiv> of_nat (pr_mmu_table SP)"
  assumes ths: "ks_threads s dest = Some DT" "ks_threads s src = Some ST" "ks_procs s (th_process DT) = Some DP" "ks_procs s (th_process ST) = Some SP"
    and chain: "ment_chain s (pr_mmap SP) xs" and new: "ks_new s = base # map (\<lambda>(q, a, E). a) xs @ rest" "base \<noteq> NULL"
    and fresh: "\<forall>x \<in> set xs. \<forall>i < length xs. fst x \<noteq> base + 16 * i"
    and mmu: "pt_inv D (n + (\<Sum>(q, a, E) \<leftarrow> xs. copy_cost E)) m" "mm_cr3 m \<in> D" "mm_cr3 m \<noteq> 0" "d \<in> D" "t \<in> D" "d \<noteq> t"
    and ok: "\<forall>x \<in> set xs. dup_ok m t x" "sorted_wrt blocks_apart xs"
    and src: "\<forall>x \<in> set xs. \<forall>(q, a, E) \<in> set xs. \<forall>j < unat (me_length E). \<not> in_block x (unat (xlate m t (me_virt E + of_nat j)))"
  shows "\<exists>s' m'. proc_copy_data junk dest src s m = Some (0, s', m') \<and> pt_inv D n m' \<and>
    (\<forall>(q, a, E) \<in> set xs. \<forall>j < unat (me_length E). visible m' d (me_virt E + of_nat j) = visible m t (me_virt E + of_nat j) \<and>
       visible m' t (me_virt E + of_nat j) = visible m t (me_virt E + of_nat j)) \<and>
    copied D d t (child_region ` set xs) m m' \<and>
    ks_procs s' = (ks_procs s)(th_process DT \<mapsto> DP\<lparr>pr_mmap := base\<rparr>) \<and>
    (\<forall>i < length xs. case child_region (xs ! i) of (v, p, l) \<Rightarrow> ks_ments s' (base + 16 * i) =
       Some \<lparr>me_virt = v, me_phys = p, me_length = l, me_next = if Suc i < length xs then base + 16 * Suc i else me_next (junk i)\<rparr>)"
proof -
  define s1 where "s1 = s\<lparr>ks_new := map (\<lambda>(q, a, E). a) xs @ rest, ks_procs := (ks_procs s)(th_process DT \<mapsto> DP\<lparr>pr_mmap := base\<rparr>)\<rparr>"
  define s2 where "s2 = put_ments base (length xs) junk s1"
  have run: "proc_copy_data junk dest src s m = copy_ments d t (pr_mmap SP) base s2 m"
    using new by (simp add: proc_copy_data_def ths count_ments_chain [OF chain] kmalloc_next_def upd_proc_def s1_def s2_def d_def t_def)
  have chain2: "ment_chain s2 (pr_mmap SP) xs"
  proof (rule ment_chain_cong [OF chain])
    fix x assume "x \<in> set xs"
    with fresh have "ks_ments s2 (fst x) = ks_ments s1 (fst x)" unfolding s2_def by (intro put_ments_at(2)) blast
    then show "ks_ments s2 (fst x) = ks_ments s (fst x)" by (simp add: s1_def)
  qed
  have "ks_new s2 = map (\<lambda>(q, a, E). a) xs @ rest" by (simp add: s2_def s1_def put_ments_def)
  moreover have "\<forall>i < length xs. ks_ments s2 (base + 16 * i) \<noteq> None" by (simp add: s2_def put_ments_at(1))
  moreover have "\<forall>x \<in> set xs. ready m t x" using ok(1) dup_ok_region(1) by blast
  moreover have sa: "sources_apart m t xs" unfolding sources_apart_def
  proof (intro ballI)
    fix x y assume xy: "x \<in> set xs" "y \<in> set xs"
    obtain q a E where y: "y = (q, a, E)" by (cases y)
    have "\<not> in_mem p l (xlate m t (me_virt E + of_nat j))" if "child_region x = (v, p, l)" "j < unat (me_length E)" for v p l j
      using dup_ok_region(2) [OF ok(1) [rule_format, OF xy(1)] that(1)] src xy that(2) y by blast
    then show "case (child_region x, child_region y) of ((v, p, l), v', _, l') \<Rightarrow> \<forall>j < unat l'. \<not> in_mem p l (xlate m t (v' + of_nat j))"
      by (cases "child_region x") (simp add: y child_region_def)
  qed
  moreover have "sorted_wrt (\<lambda>x y. region_apart (child_region x) (child_region y)) xs"
    using ok by (auto intro: sorted_wrt_mono_rel [OF _ ok(2)] blocks_apart_region)
  ultimately obtain f m' where m': "copy_ments d t (pr_mmap SP) base s2 m = Some (0, s2\<lparr>ks_ments := f, ks_new := rest\<rparr>, m')"
    "child_ents base (ks_ments s2) xs f" "pt_inv D n m'" and cp: "copied D d t (child_region ` set xs) m m'"
    using copy_ments_spec [OF mmu(4-6,1-3) chain2 _ _ fresh] by blast
  have par: "visible m' t (me_virt E + of_nat j) = visible m t (me_virt E + of_nat j)" if e: "(q, a, E) \<in> set xs" "j < unat (me_length E)" for q a E j
  proof (rule visible_frame [OF refl])
    have low: "low (me_virt E + of_nat j)"
      using dup_ok_region(1) [OF ok(1) [rule_format, OF e(1)]] region_address(2) [OF _ e(2)] by (auto simp: ready_def child_region_def)
    show "mmu_map_get_table m' t (me_virt E + of_nat j) = mmu_map_get_table m t (me_virt E + of_nat j)"
      using mmu(6) by (intro copiedD(3) [OF cp mmu(5) low]) simp
    have "mm_byte m' (xlate m t (me_virt E + of_nat j)) = mm_byte m (xlate m t (me_virt E + of_nat j))"
      using sa e unfolding sources_apart_def by (intro copiedD(4) [OF cp]) (fastforce simp: child_region_def)
    then show "mm_byte m' (f + ((me_virt E + of_nat j) AND 0xFFF)) = mm_byte m (f + ((me_virt E + of_nat j) AND 0xFFF))"
      if "snd (mmu_map_get_table m t (me_virt E + of_nat j)) = Some f" for f using that by (simp add: xlate_def)
  qed
  have chd: "visible m' d (me_virt E + of_nat j) = visible m t (me_virt E + of_nat j)" if "(q, a, E) \<in> set xs" "j < unat (me_length E)" for q a E j
    using copiedD(2) [OF cp _ that(2)] imageI [OF that(1), of child_region] by (simp add: child_region_def)
  have ents: "\<forall>i < length xs. case child_region (xs ! i) of (v, p, l) \<Rightarrow> f (base + 16 * i) =
       Some \<lparr>me_virt = v, me_phys = p, me_length = l, me_next = if Suc i < length xs then base + 16 * Suc i else me_next (junk i)\<rparr>"
    using m'(2) unfolding child_ents_def s2_def by (simp add: put_ments_at(1) case_prod_beta)
  have "ks_procs (s2\<lparr>ks_ments := f, ks_new := rest\<rparr>) = (ks_procs s)(th_process DT \<mapsto> DP\<lparr>pr_mmap := base\<rparr>)"
    by (simp add: s2_def s1_def put_ments_def)
  with run m'(1,3) cp par chd ents show ?thesis
    by (intro exI [of _ "s2\<lparr>ks_ments := f, ks_new := rest\<rparr>"] exI [of _ m']) auto
qed

text \<open>
  A parent with the directory at \<open>0x1000\<close> and one region of two bytes, and a child with an empty directory
  at \<open>0xC000\<close>.
\<close>

definition ex_ent :: kproc_mem_map_ent where
  "ex_ent = \<lparr>me_virt = 0x5010, me_phys = 0x9010, me_length = 2, me_next = NULL\<rparr>"

definition ex_fork :: kstate where
  "ex_fork = ex_state\<lparr>ks_threads := [100 \<mapsto> zero_thread\<lparr>th_process := 500\<rparr>, 300 \<mapsto> zero_thread\<lparr>th_process := 700\<rparr>],
     ks_procs := [500 \<mapsto> zero_proc\<lparr>pr_mmu_table := 0x1000, pr_mmap := 900\<rparr>, 700 \<mapsto> zero_proc\<lparr>pr_mmu_table := 0xC000\<rparr>],
     ks_ments := [900 \<mapsto> ex_ent], ks_new := [2000, 0x20008]\<rparr>"

definition ex_pair :: mmu_state where
  "ex_pair = mmu_small\<lparr>mm_byte := (\<lambda>_. 0)(0x9010 := 7, 0x9011 := 8),
     mm_new := [0x3000, 0x4000, 0x5000, 0x6000, 0x7000, 0x8000, 0xA000, 0xB000, 0xD000]\<rparr>"

lemma ex_pair_pde: "pde ex_pair 0x1000 v = (if page v div 1024 = 0 then 0x2007 else 0)" "pde ex_pair 0xC000 v = 0"
proof -
  show "pde ex_pair 0x1000 v = (if page v div 1024 = 0 then 0x2007 else 0)" using mmu_small_pde [of v] by (simp add: ex_pair_def)
  have "page (pde_addr 0xC000 v) = 12" by (subst page_pde_addr) simp_all
  then have "pde_addr 0xC000 v \<noteq> 0x1000" "pde_addr 0xC000 v \<noteq> 0x2014" by auto
  then show "pde ex_pair 0xC000 v = 0" by (simp add: ex_pair_def mmu_small_def)
qed

lemma ex_pair_inv: "pt_inv {0x1000, 0xC000} 9 ex_pair"
  by (auto simp: pt_inv_def pres_def ex_pair_pde) (auto simp: ex_pair_def)

lemma ex_pair_get:
  assumes "page v = 5"
  shows "mmu_map_get_table ex_pair 0x1000 v = (3, Some 0x9000)"
proof -
  have "entry ex_pair 0x1000 v = entry mmu_small 0x1000 v" by (simp add: ex_pair_def pgdir_get_page_entry_def Let_def)
  from map_get_entry [OF this] show ?thesis using mmu_small_get [OF assms] by simp
qed

theorem proc_copy_data_copies_witness:
  "\<exists>s' m'. proc_copy_data (\<lambda>_. ex_ent) 300 100 ex_fork ex_pair = Some (0, s', m') \<and>
     visible m' 0xC000 0x5010 = Some 7 \<and> visible m' 0xC000 0x5011 = Some 8 \<and>
     ks_ments s' 2000 = Some \<lparr>me_virt = 0x5010, me_phys = 0x20010, me_length = 2, me_next = NULL\<rparr>"
proof -
  let ?xs = "[(900, 0x20008, ex_ent)]" and ?D = "{0x1000, 0xC000 :: u32}"
  let ?P = "zero_proc\<lparr>pr_mmu_table := 0x1000, pr_mmap := 900\<rparr>" and ?C = "zero_proc\<lparr>pr_mmu_table := 0xC000\<rparr>"
  have all2: "(\<forall>j < 2. Q j) = (Q 0 \<and> Q (Suc 0))" for Q :: "nat \<Rightarrow> bool" by (auto simp: less_2_cases_iff)
  have x: "xlate ex_pair 0x1000 0x5010 = 0x9010" "xlate ex_pair 0x1000 0x5011 = 0x9011" by (simp_all add: xlate_def ex_pair_get)
  have vis: "visible ex_pair 0x1000 0x5010 = Some 7" "visible ex_pair 0x1000 0x5011 = Some 8"
    by (simp_all add: visible_def ex_pair_get) (simp_all add: ex_pair_def)
  have al: "same_alignment 0x20008 0x9010 = 0x20010" by (simp add: same_alignment_def)
  have chain: "ment_chain ex_fork (pr_mmap ?P) ?xs" by (simp add: ex_fork_def ex_ent_def)
  have new: "ks_new ex_fork = 2000 # map (\<lambda>(q, a, E). a) ?xs @ []" by (simp add: ex_fork_def)
  have inv: "pt_inv ?D (0 + (\<Sum>(q, a, E) \<leftarrow> ?xs. copy_cost E)) ex_pair"
    using ex_pair_inv by (simp add: copy_cost_def ex_ent_def pages_def)
  have cr: "mm_cr3 ex_pair \<in> ?D" "mm_cr3 ex_pair \<noteq> 0" by (simp_all add: ex_pair_def mmu_small_def)
  have ok: "\<forall>x \<in> set ?xs. dup_ok ex_pair (of_nat (pr_mmu_table ?P)) x"
    by (simp add: dup_ok_def ex_ent_def pages_def all2 mapped_def x ex_pair_get)
  have src: "\<forall>x \<in> set ?xs. \<forall>(q, a, E) \<in> set ?xs. \<forall>j < unat (me_length E). \<not> in_block x (unat (xlate ex_pair (of_nat (pr_mmu_table ?P)) (me_virt E + of_nat j)))"
    by (simp add: in_block_def ex_ent_def all2 x)
  have "\<exists>s' m'. proc_copy_data (\<lambda>_. ex_ent) 300 100 ex_fork ex_pair = Some (0, s', m') \<and> pt_inv ?D 0 m' \<and>
    (\<forall>(q, a, E) \<in> set ?xs. \<forall>j < unat (me_length E). visible m' (of_nat (pr_mmu_table ?C)) (me_virt E + of_nat j) = visible ex_pair (of_nat (pr_mmu_table ?P)) (me_virt E + of_nat j) \<and>
       visible m' (of_nat (pr_mmu_table ?P)) (me_virt E + of_nat j) = visible ex_pair (of_nat (pr_mmu_table ?P)) (me_virt E + of_nat j)) \<and>
    copied ?D (of_nat (pr_mmu_table ?C)) (of_nat (pr_mmu_table ?P)) (child_region ` set ?xs) ex_pair m' \<and>
    ks_procs s' = (ks_procs ex_fork)(700 \<mapsto> ?C\<lparr>pr_mmap := 2000\<rparr>) \<and>
    (\<forall>i < length ?xs. case child_region (?xs ! i) of (v, p, l) \<Rightarrow> ks_ments s' (2000 + 16 * i) =
       Some \<lparr>me_virt = v, me_phys = p, me_length = l, me_next = if Suc i < length ?xs then 2000 + 16 * Suc i else me_next ((\<lambda>_. ex_ent) i)\<rparr>)"
    using proc_copy_data_copies [where s = ex_fork and dest = 300 and src = 100 and DT = "zero_thread\<lparr>th_process := 700\<rparr>" and ST = "zero_thread\<lparr>th_process := 500\<rparr>"
      and DP = ?C and SP = ?P and junk = "\<lambda>_. ex_ent", OF _ _ _ _ chain new _ _ inv cr _ _ _ ok _ src]
    by (simp add: ex_fork_def)
  then show ?thesis using vis al by (auto simp: ex_ent_def child_region_def all2)
qed

end
