(* ===== verification/Exec_Args.thy ===== *)
theory Exec_Args
  imports Elf_Symbols Mmu
begin

text \<open>
  The arguments of a new program image: \<open>_store_arguments\<close> and \<open>_exec_copy_arguments\<close> of
  \<open>kernel/src/proc/exec.c\<close>.

  Both copy the two \<open>NULL\<close>-terminated arrays of strings, \<open>argv\<close> and \<open>envp\<close>, to one block: first the
  pointers of \<open>argv\<close>, then those of \<open>envp\<close>, each with its \<open>NULL\<close>, then the strings. The block is what the
  allocator returns. The memory is the byte memory of \<open>Elf\<close>, as the running process sees it; \<open>None\<close> is a
  loop over memory that does not end.
\<close>

section \<open>The code\<close>

partial_function (option) strlen_at :: "bytes \<Rightarrow> u32 \<Rightarrow> nat option" where
  "strlen_at m a = (if m a = 0 then Some 0 else Option.bind (strlen_at m (a + 1)) (\<lambda>n. Some (Suc n)))"

declare strlen_at.simps [code]

text \<open>
  \<open>for(i = 0; argv[i]; i++)\<close> with the sizes: the number of strings, and the sum of \<open>sizeof(char *) +
  strlen(argv[i]) + 1\<close>.
\<close>

partial_function (option) args_size :: "bytes \<Rightarrow> u32 \<Rightarrow> (nat \<times> nat) option" where
  "args_size m argv =
     (if get32 m argv = 0 then Some (0, 0)
      else Option.bind (strlen_at m (get32 m argv)) (\<lambda>l.
        Option.bind (args_size m (argv + 4)) (\<lambda>(n, sz). Some (Suc n, sz + (4 + l + 1)))))"

declare args_size.simps [code]

text \<open>
  The loop that copies \<open>n\<close> strings: \<open>dst\<close> is the new array, \<open>off\<close> the offset in the block \<open>data\<close> of the
  next string. The result is the memory and the offset behind the last string.
\<close>

fun copy_args :: "u32 \<Rightarrow> u32 \<Rightarrow> u32 \<Rightarrow> nat \<Rightarrow> nat \<Rightarrow> bytes \<Rightarrow> (bytes \<times> nat) option" where
  "copy_args data src dst 0 off m = Some (m, off)"
| "copy_args data src dst (Suc n) off m = do {
     let m = put32 dst (data + of_nat off) m;
     l \<leftarrow> strlen_at m (get32 m src);
     let m = copy_fwd (get32 m dst) (get32 m src) (l + 1) m;
     l \<leftarrow> strlen_at m (get32 m src);
     copy_args data (src + 4) (dst + 4) n (off + (l + 1)) m
   }"

text \<open>
  The common part of the two functions. The result is \<open>argv\<close>, \<open>envp\<close>, the size of the block, the offset
  reached and the memory.
\<close>

definition copy_arguments :: "bytes \<Rightarrow> u32 \<Rightarrow> u32 \<Rightarrow> u32 \<Rightarrow> (u32 \<times> u32 \<times> nat \<times> nat \<times> bytes) option" where
  "copy_arguments m data argv envp = do {
     (argc, sza) \<leftarrow> args_size m argv;
     (envc, sze) \<leftarrow> args_size m envp;
     let new_envp = data + 4 * (of_nat argc + 1);
     (m, off) \<leftarrow> copy_args data argv data argc ((argc + envc + 2) * 4) m;
     let m = put32 (data + 4 * of_nat argc) 0 m;
     (m, off) \<leftarrow> copy_args data envp new_envp envc off m;
     let m = put32 (new_envp + 4 * of_nat envc) 0 m;
     Some (data, new_envp, 2 * 4 + sza + sze, off, m)
   }"

section \<open>Strings and arrays\<close>

text \<open>The \<open>NULL\<close>-terminated array at \<open>a\<close> points to the strings \<open>ss\<close>.\<close>

fun args_at :: "bytes \<Rightarrow> u32 \<Rightarrow> string list \<Rightarrow> bool" where
  "args_at m a [] \<longleftrightarrow> get32 m a = 0"
| "args_at m a (s # ss) \<longleftrightarrow> get32 m a \<noteq> 0 \<and> cstr_eq m (get32 m a) s \<and> NUL \<notin> set s \<and> args_at m (a + 4) ss"

text \<open>The array and its strings are outside of the first \<open>n\<close> bytes of the block at \<open>p\<close>.\<close>

fun args_apart :: "bytes \<Rightarrow> u32 \<Rightarrow> string list \<Rightarrow> u32 \<Rightarrow> nat \<Rightarrow> bool" where
  "args_apart m a [] p n \<longleftrightarrow> (\<forall>k < 4. n \<le> unat (a + of_nat k - p))"
| "args_apart m a (s # ss) p n \<longleftrightarrow> (\<forall>k < 4. n \<le> unat (a + of_nat k - p)) \<and>
     (\<forall>k \<le> length s. n \<le> unat (get32 m a + of_nat k - p)) \<and> args_apart m (a + 4) ss p n"

definition str_bytes :: "string list \<Rightarrow> nat" where
  "str_bytes ss = (\<Sum>s\<leftarrow>ss. length s + 1)"

lemma str_bytes_simps [simp]: "str_bytes [] = 0" "str_bytes (s # ss) = length s + 1 + str_bytes ss"
  by (simp_all add: str_bytes_def)

lemma cstr_eq_copied:
  "cstr_eq b a n \<Longrightarrow> (\<And>i. i \<le> length n \<Longrightarrow> b' (d + of_nat i) = b (a + of_nat i)) \<Longrightarrow> cstr_eq b' d n"
proof (induction n arbitrary: a d)
  case Nil
  from Nil(2) [of 0] Nil(1) show ?case by simp
next
  case (Cons c n)
  have "cstr_eq b' (d + 1) n"
    using Cons.prems(1) Cons.prems(2) [of "Suc _"] by (intro Cons.IH [of "a + 1"]) (simp_all add: algebra_simps)
  then show ?case using Cons.prems(1) Cons.prems(2) [of 0] by simp
qed

lemma strlen_at_cstr: "cstr_eq m a s \<Longrightarrow> NUL \<notin> set s \<Longrightarrow> strlen_at m a = Some (length s)"
  by (induction s arbitrary: a) (subst strlen_at.simps; auto)+

lemma args_size_args: "args_at m a ss \<Longrightarrow> args_size m a = Some (length ss, 4 * length ss + str_bytes ss)"
  by (induction ss arbitrary: a) (subst args_size.simps; auto simp: strlen_at_cstr)+

lemma args_stable:
  assumes "args_at m a ss" "args_apart m a ss p n" "\<And>x. n \<le> unat (x - p) \<Longrightarrow> m' x = m x"
  shows "args_at m' a ss \<and> args_apart m' a ss p n"
  using assms(1,2)
proof (induction ss arbitrary: a)
  case Nil
  have "get32 m' a = get32 m a" using Nil.prems(2) assms(3) by (intro get32_cong) simp
  then show ?case using Nil by simp
next
  case (Cons s ss)
  have g: "get32 m' a = get32 m a" using Cons.prems(2) assms(3) by (intro get32_cong) simp
  have "cstr_eq m' (get32 m a) s = cstr_eq m (get32 m a) s" using Cons.prems(2) assms(3) by (intro cstr_eq_cong) simp
  then show ?case using g Cons by simp
qed

section \<open>The new block\<close>

text \<open>
  Pointers at the offsets \<open>d\<close>, \<open>d + 4\<close>, ... of the block, to the strings \<open>ss\<close> that lie one behind the
  other from the offset \<open>lo\<close> up to \<open>hi\<close>.
\<close>

fun laid :: "bytes \<Rightarrow> u32 \<Rightarrow> nat \<Rightarrow> nat \<Rightarrow> nat \<Rightarrow> string list \<Rightarrow> bool" where
  "laid m p d lo hi [] \<longleftrightarrow> lo = hi"
| "laid m p d lo hi (s # ss) \<longleftrightarrow> get32 m (p + of_nat d) = p + of_nat lo \<and> cstr_eq m (p + of_nat lo) s \<and>
     laid m p (d + 4) (lo + (length s + 1)) hi ss"

lemma laid_end: "laid m p d lo hi ss \<Longrightarrow> hi = lo + str_bytes ss"
  by (induction ss arbitrary: d lo) force+

lemma laid_stable:
  assumes "laid m p d lo hi ss" "d + 4 * length ss \<le> 4294967296" "hi \<le> 4294967296"
    "\<And>k. d \<le> k \<and> k < d + 4 * length ss \<or> lo \<le> k \<and> k < hi \<Longrightarrow> m' (p + of_nat k) = m (p + of_nat k)"
  shows "laid m' p d lo hi ss"
  using assms
proof (induction ss arbitrary: d lo)
  case (Cons s ss)
  have hi: "hi = lo + (length s + 1) + str_bytes ss" using laid_end [OF Cons.prems(1)] by simp
  have "get32 m' (p + of_nat d) = get32 m (p + of_nat d)"
  proof (rule get32_cong)
    fix i :: nat assume "i < 4"
    then show "m' (p + of_nat d + of_nat i) = m (p + of_nat d + of_nat i)"
      using Cons.prems(4) [of "d + i"] by (simp add: add.assoc)
  qed
  moreover have "cstr_eq m' (p + of_nat lo) s = cstr_eq m (p + of_nat lo) s"
  proof (rule cstr_eq_cong)
    fix i assume "i \<le> length s"
    then show "m' (p + of_nat lo + of_nat i) = m (p + of_nat lo + of_nat i)"
      using Cons.prems(4) [of "lo + i"] hi by (simp add: add.assoc)
  qed
  moreover have "laid m' p (d + 4) (lo + (length s + 1)) hi ss"
    using Cons.prems by (intro Cons.IH) auto
  ultimately show ?case using Cons.prems(1) by simp
qed simp

lemma laid_args:
  assumes "laid m p d lo hi ss" "get32 m (p + of_nat (d + 4 * length ss)) = 0" "\<And>s. s \<in> set ss \<Longrightarrow> NUL \<notin> set s"
    "unat p + hi \<le> 4294967296" "p \<noteq> 0"
  shows "args_at m (p + of_nat d) ss"
  using assms
proof (induction ss arbitrary: d lo)
  case (Cons s ss)
  have "lo < hi" using laid_end [OF Cons.prems(1)] by simp
  then have "unat (p + of_nat lo) = unat p + lo" using Cons.prems(4) by (subst unat_add_u32_lt) (simp_all add: unat_of_nat_u32)
  then have "p + of_nat lo \<noteq> 0" using Cons.prems(5) by (metis add_is_0 unat_eq_zero)
  moreover have "args_at m (p + of_nat (d + 4)) ss" using Cons.prems by (intro Cons.IH) (auto simp: algebra_simps)
  ultimately show ?case using Cons.prems by (simp add: add.assoc)
qed simp

lemma copy_args_spec:
  assumes "args_at m src ss" "args_apart m src ss p T" "d + 4 * length ss \<le> off" "off + str_bytes ss \<le> T" "T < 4294967296"
  shows "\<exists>m'. copy_args p src (p + of_nat d) (length ss) off m = Some (m', off + str_bytes ss) \<and>
    laid m' p d off (off + str_bytes ss) ss \<and>
    (\<forall>x. \<not> (d \<le> unat (x - p) \<and> unat (x - p) < d + 4 * length ss \<or> off \<le> unat (x - p) \<and> unat (x - p) < off + str_bytes ss) \<longrightarrow> m' x = m x)"
  using assms(1-4)
proof (induction ss arbitrary: m src d off)
  case Nil
  then show ?case by simp
next
  case (Cons s ss)
  let ?L = "length s + 1"
  define m1 where "m1 = put32 (p + of_nat d) (p + of_nat off) m"
  have bounds: "d + 4 \<le> off" "off + ?L + str_bytes ss \<le> T" using Cons.prems(3,4) by simp_all
  have m1: "m1 x = m x" if "unat (x - p) < d \<or> d + 4 \<le> unat (x - p)" for x
    using put32_at [of d "unat (x - p)" p "p + of_nat off" m] that bounds assms(5) unfolding m1_def by simp
  have st1: "args_at m1 src (s # ss) \<and> args_apart m1 src (s # ss) p T"
    by (rule args_stable [OF Cons.prems(1,2)], rule m1) (use bounds in simp)
  have slot: "get32 m1 (p + of_nat d) = p + of_nat off" by (simp add: m1_def)
  define m2 where "m2 = copy_fwd (p + of_nat off) (get32 m1 src) ?L m1"
  have off: "unat (of_nat off :: u32) = off" using bounds assms(5) by (intro unat_of_nat_u32) simp
  have m2: "m2 x = m1 x" if "unat (x - p) < off \<or> off + ?L \<le> unat (x - p)" for x
    using copy_frame [of x p "of_nat off" ?L "get32 m1 src" m1] that off bounds assms(5) unfolding m2_def by simp
  have str: "m2 (p + of_nat off + of_nat j) = m1 (get32 m1 src + of_nat j)" if "j \<le> length s" for j
    unfolding m2_def
  proof (rule copy_behind(1))
    show "off + ?L \<le> unat (get32 m1 src + of_nat i - p)" if "i < ?L" for i
    proof -
      have "T \<le> unat (get32 m1 src + of_nat i - p)" using st1 that by simp
      then show ?thesis using bounds by simp
    qed
  qed (use that bounds assms(5) in simp_all)
  have st2: "args_at m2 src (s # ss) \<and> args_apart m2 src (s # ss) p T"
    by (rule args_stable [OF conjunct1 [OF st1] conjunct2 [OF st1]], rule m2) (use bounds in simp)
  obtain m' where m': "copy_args p (src + 4) (p + of_nat (d + 4)) (length ss) (off + ?L) m2 = Some (m', off + ?L + str_bytes ss)"
    "laid m' p (d + 4) (off + ?L) (off + ?L + str_bytes ss) ss"
    and frame: "\<And>x. \<not> (d + 4 \<le> unat (x - p) \<and> unat (x - p) < d + 4 + 4 * length ss \<or>
      off + ?L \<le> unat (x - p) \<and> unat (x - p) < off + ?L + str_bytes ss) \<Longrightarrow> m' x = m2 x"
    using Cons.IH [of m2 "src + 4" "d + 4" "off + ?L"] st2 Cons.prems(3) bounds(2) by auto
  have run: "copy_args p src (p + of_nat d) (length (s # ss)) off m = Some (m', off + str_bytes (s # ss))"
  proof -
    have "strlen_at m1 (get32 m1 src) = Some (length s)" "strlen_at m2 (get32 m2 src) = Some (length s)"
      using st1 st2 by (simp_all add: strlen_at_cstr)
    moreover have "copy_fwd (p + of_nat off) (get32 m1 src) (Suc (length s)) m1 = m2" by (simp add: m2_def)
    ultimately show ?thesis using m'(1) slot by (simp add: m1_def [symmetric] add.assoc)
  qed
  have at: "unat (p + of_nat k - p) = k" if "k < T" for k using that assms(5) by (intro unat_off) simp
  have "get32 m' (p + of_nat d) = get32 m1 (p + of_nat d)"
  proof (rule get32_cong)
    fix i :: nat assume "i < 4"
    then show "m' (p + of_nat d + of_nat i) = m1 (p + of_nat d + of_nat i)"
      using frame [of "p + of_nat (d + i)"] m2 [of "p + of_nat (d + i)"] at [of "d + i"] bounds by (simp add: add.assoc)
  qed
  moreover have "cstr_eq m' (p + of_nat off) s"
  proof (rule cstr_eq_copied [of m1 "get32 m1 src"])
    fix i assume "i \<le> length s"
    then show "m' (p + of_nat off + of_nat i) = m1 (get32 m1 src + of_nat i)"
      using frame [of "p + of_nat (off + i)"] str [of i] at [of "off + i"] bounds Cons.prems(3) by (simp add: add.assoc)
  qed (use st1 in simp)
  moreover have "m' x = m x" if "\<not> (d \<le> unat (x - p) \<and> unat (x - p) < d + 4 * length (s # ss) \<or>
      off \<le> unat (x - p) \<and> unat (x - p) < off + str_bytes (s # ss))" for x
    using frame [of x] m2 [of x] m1 [of x] that by fastforce
  ultimately show ?case using run m'(2) slot by (auto simp: add.assoc)
qed

text \<open>A word of the block changes only the four bytes at its offset.\<close>

lemma put32_block: "k + 4 \<le> 4294967296 \<Longrightarrow> unat (x - p) < k \<or> k + 4 \<le> unat (x - p) \<Longrightarrow> put32 (p + of_nat k) v m x = m x"
  using put32_at [of k "unat (x - p)" p v m] by simp

definition block_size :: "string list \<Rightarrow> string list \<Rightarrow> nat" where
  "block_size as es = 8 + 4 * (length as + length es) + str_bytes as + str_bytes es"

lemma word_stable:
  assumes "\<And>j. k \<le> j \<and> j < k + 4 \<Longrightarrow> m' (p + of_nat j) = m (p + of_nat j)"
  shows "get32 m' (p + of_nat k) = get32 m (p + of_nat k)"
  by (rule get32_cong) (use assms [of "k + _"] in \<open>simp add: add.assoc\<close>)

lemma args_at_nul: "args_at m a ss \<Longrightarrow> s \<in> set ss \<Longrightarrow> NUL \<notin> set s"
  by (induction ss arbitrary: a) auto

text \<open>The two arrays are laid out behind one another, each with its end mark.\<close>

lemma copy_arguments_laid:
  assumes args: "args_at m argv as" "args_at m envp es"
    and ap: "args_apart m argv as p (block_size as es)" "args_apart m envp es p (block_size as es)"
    and size: "block_size as es < 4294967296"
  defines "n \<equiv> 4 * length as" and "e \<equiv> 4 * length es" and "hi \<equiv> (length as + length es + 2) * 4 + str_bytes as"
  shows "\<exists>m'. copy_arguments m p argv envp = Some (p, p + of_nat (n + 4), block_size as es, block_size as es, m') \<and>
    laid m' p 0 (n + e + 8) hi as \<and> get32 m' (p + of_nat n) = 0 \<and>
    laid m' p (n + 4) hi (block_size as es) es \<and> get32 m' (p + of_nat (n + 4 + e)) = 0 \<and>
    (\<forall>x. block_size as es \<le> unat (x - p) \<longrightarrow> m' x = m x)"
proof -
  let ?T = "block_size as es" and ?o = "(length as + length es + 2) * 4"
  have o: "?o = n + e + 8" "hi = ?o + str_bytes as" by (simp_all add: n_def e_def hi_def)
  have T: "?T = hi + str_bytes es" "?T < 4294967296" using size by (simp_all add: block_size_def hi_def)
  obtain m1 where m1: "copy_args p argv (p + of_nat 0) (length as) ?o m = Some (m1, hi)" "laid m1 p 0 ?o hi as"
    and f1: "\<And>x. \<not> (unat (x - p) < n \<or> ?o \<le> unat (x - p) \<and> unat (x - p) < hi) \<Longrightarrow> m1 x = m x"
    using copy_args_spec [OF args(1) ap(1), of 0 ?o] T unfolding n_def o(2) by auto
  define m2 where "m2 = put32 (p + of_nat n) 0 m1"
  have f2: "m2 x = m1 x" if "unat (x - p) < n \<or> n + 4 \<le> unat (x - p)" for x
    unfolding m2_def using that T o by (intro put32_block) auto
  have "args_at m2 envp es \<and> args_apart m2 envp es p ?T"
    by (rule args_stable [OF args(2) ap(2)]) (use f1 f2 T o in simp)
  then obtain m3 where m3: "copy_args p envp (p + of_nat (n + 4)) (length es) hi m2 = Some (m3, ?T)" "laid m3 p (n + 4) hi ?T es"
    and f3: "\<And>x. \<not> (n + 4 \<le> unat (x - p) \<and> unat (x - p) < n + 4 + e \<or> hi \<le> unat (x - p) \<and> unat (x - p) < ?T) \<Longrightarrow> m3 x = m2 x"
    using copy_args_spec [of m2 envp es p ?T "n + 4" hi] T o unfolding e_def by auto
  define m4 where "m4 = put32 (p + of_nat (n + 4 + e)) 0 m3"
  have f4: "m4 x = m3 x" if "unat (x - p) < n + 4 + e \<or> n + 4 + e + 4 \<le> unat (x - p)" for x
    unfolding m4_def using that T o by (intro put32_block) auto
  have run: "copy_arguments m p argv envp = Some (p, p + of_nat (n + 4), ?T, ?T, m4)"
  proof -
    have "p + 4 * (of_nat (length as) + 1) = p + of_nat (n + 4)" "p + 4 * of_nat (length as) = p + of_nat n"
      "p + of_nat (n + 4) + 4 * of_nat (length es) = p + of_nat (n + 4 + e)" "p + of_nat 0 = p" by (simp_all add: n_def e_def algebra_simps)
    then show ?thesis
      using args_size_args [OF args(1)] args_size_args [OF args(2)] m1(1) m3(1)
      by (simp only: copy_arguments_def Let_def m2_def [symmetric] m4_def [symmetric] bind.bind_lunit prod.case) (simp add: block_size_def)
  qed
  have at: "unat (p + of_nat k - p) = k" if "k < ?T" for k using that T by (intro unat_off) simp
  have as: "m4 (p + of_nat k) = m1 (p + of_nat k)" if k: "k < n \<or> ?o \<le> k \<and> k < hi" for k
  proof -
    have "unat (p + of_nat k - p) = k" using k T o by (intro at) auto
    then show ?thesis using f4 f3 f2 k o by auto
  qed
  have es: "m4 (p + of_nat k) = m3 (p + of_nat k)" if k: "n + 4 \<le> k \<and> k < n + 4 + e \<or> hi \<le> k \<and> k < ?T" for k
  proof -
    have "unat (p + of_nat k - p) = k" using k T o by (intro at) auto
    then show ?thesis using f4 k o by auto
  qed
  have mark: "m4 (p + of_nat k) = m2 (p + of_nat k)" if k: "n \<le> k \<and> k < n + 4" for k
  proof -
    have "unat (p + of_nat k - p) = k" using k T o by (intro at) auto
    then show ?thesis using f4 f3 k o by auto
  qed
  have "laid m4 p 0 (n + e + 8) hi as"
    unfolding o(1) [symmetric] by (rule laid_stable [OF m1(2)]) (use T o as n_def in auto)
  moreover have "laid m4 p (n + 4) hi ?T es"
    by (rule laid_stable [OF m3(2)]) (use T o es e_def in auto)
  moreover have "get32 m4 (p + of_nat n) = 0" using word_stable [of n m4 p m2] mark by (simp add: m2_def)
  moreover have "get32 m4 (p + of_nat (n + 4 + e)) = 0" unfolding m4_def by (rule get32_put32)
  moreover have "m4 x = m x" if "?T \<le> unat (x - p)" for x using that f4 f3 f2 f1 T o by auto
  ultimately show ?thesis using run by blast
qed

text \<open>
  C31 (the arguments of a program). The arrays \<open>argv\<close> and \<open>envp\<close> that \<open>_store_arguments\<close> and
  \<open>_exec_copy_arguments\<close> build hold the same strings as the given ones, take exactly the size that was
  allocated for them, and no byte outside of that block changes.
\<close>

theorem copy_arguments_copies:
  assumes args: "args_at m argv as" "args_at m envp es"
    and ap: "args_apart m argv as p (block_size as es)" "args_apart m envp es p (block_size as es)"
    and p: "unat p + block_size as es < 4294967296" "p \<noteq> 0"
  shows "\<exists>m' envp'. copy_arguments m p argv envp = Some (p, envp', block_size as es, block_size as es, m') \<and>
    args_at m' p as \<and> args_at m' envp' es \<and> (\<forall>x. block_size as es \<le> unat (x - p) \<longrightarrow> m' x = m x)"
proof -
  let ?T = "block_size as es" and ?n = "4 * length as" and ?hi = "(length as + length es + 2) * 4 + str_bytes as"
  have T: "?T < 4294967296" "unat p + ?hi \<le> 4294967296" "unat p + ?T \<le> 4294967296" using p(1) by (simp_all add: block_size_def)
  obtain m' where m': "copy_arguments m p argv envp = Some (p, p + of_nat (?n + 4), ?T, ?T, m')"
    and as: "laid m' p 0 (?n + 4 * length es + 8) ?hi as" "get32 m' (p + of_nat (0 + 4 * length as)) = 0"
    and es: "laid m' p (?n + 4) ?hi ?T es" "get32 m' (p + of_nat (?n + 4 + 4 * length es)) = 0"
    and out: "\<forall>x. ?T \<le> unat (x - p) \<longrightarrow> m' x = m x"
    using copy_arguments_laid [OF args ap T(1)] by auto
  have "args_at m' (p + of_nat 0) as" "args_at m' (p + of_nat (?n + 4)) es"
    using laid_args [OF as args_at_nul [OF args(1)] T(2) p(2)] laid_args [OF es args_at_nul [OF args(2)] T(3) p(2)] by blast+
  then show ?thesis using m' out by auto
qed

definition ex_args :: bytes where
  "ex_args = (\<lambda>_. 0)(0x101 := 2, 0x200 := 97)"

lemma ex_args_at: "args_at ex_args 0x100 [''a'']" "args_at ex_args 0x110 []"
  by (simp_all add: get32_def ex_args_def of_char_def)

theorem copy_arguments_copies_witness:
  "\<exists>m' envp'. copy_arguments ex_args 0x1000 0x100 0x110 = Some (0x1000, envp', 14, 14, m') \<and> args_at m' 0x1000 [''a''] \<and> args_at m' envp' []"
proof -
  have T: "block_size [''a''] [] = 14" by (simp add: block_size_def)
  have far: "14 \<le> unat (of_nat a + of_nat k - (0x1000 :: u32))" if "a + k < 0x1000" for a k
  proof -
    have "unat (of_nat (a + k) :: u32) = a + k" using that by (intro unat_of_nat_u32) simp
    then show ?thesis using that by (simp add: unat_sub_if_size word_size)
  qed
  have g: "get32 ex_args 0x100 = 0x200" by (simp add: get32_def ex_args_def)
  have ap: "args_apart ex_args 0x100 [''a''] 0x1000 (block_size [''a''] [])" "args_apart ex_args 0x110 [] 0x1000 (block_size [''a''] [])"
    unfolding T using far [of "0x100"] far [of "0x104"] far [of "0x110"] far [of "0x200"] by (simp_all add: g)
  have p: "unat (0x1000 :: u32) + block_size [''a''] [] < 4294967296" unfolding T by simp
  from copy_arguments_copies [OF ex_args_at ap p] show ?thesis unfolding T by auto
qed

end
