(* ===== verification/Exec.thy ===== *)
theory Exec
  imports Elf_Exec Exec_Args Fork
begin

text \<open>
  \<open>execve\<close>: the replacement of a process's image, \<open>kernel/src/proc/exec.c\<close>, with
  \<open>arch_setup_user_stack\<close> of \<open>arch/x86/src/proc/tasking.c\<close>. The state is that of the processes, of the page
  tables and of the files. Addresses of the running program go through the current table (\<open>vmem\<close>); blocks
  of the kernel's heap are at their own addresses.

  The results of the allocator that do not come from \<open>ks_new\<close> are in the record \<open>exec_allocs\<close>.
\<close>

unbundle bit_operations_syntax

record exec_allocs =
  xa_data :: u32
  xa_hand :: addr
  xa_file :: u32
  xa_segments :: "u32 list"
  xa_entries :: "addr list"
  xa_symbols :: u32
  xa_elf_data :: addr
  xa_store :: u32
  xa_buffer :: u32

record exec_data =
  xd_file_data :: u32
  xd_file_size :: nat
  xd_argv :: u32
  xd_envp :: u32
  xd_name :: string
  xd_entrypoint :: u32
  xd_mmu_table :: u32
  xd_symbols :: u32
  xd_mmap_entries :: addr
  xd_elf_data :: addr

abbreviation (input) KTHREAD_FLAG_STACKSETUP :: u32 where "KTHREAD_FLAG_STACKSETUP \<equiv> 4"
abbreviation (input) ELF_IDENT :: u32 where "ELF_IDENT \<equiv> 0x464C457F"

section \<open>The arguments\<close>

text \<open>The bytes \<open>b\<close> of a block that a function wrote through its pointer.\<close>

definition put_block :: "u32 \<Rightarrow> nat \<Rightarrow> bytes \<Rightarrow> mmu_state \<Rightarrow> mmu_state" where
  "put_block p n b m = upd_bytes (\<lambda>f x. if unat (x - p) < n then b x else f x) m"

definition store_arguments :: "u32 \<Rightarrow> u32 \<Rightarrow> u32 \<Rightarrow> mmu_state \<Rightarrow> (u32 \<times> u32 \<times> mmu_state) option" where
  "store_arguments data argv envp m = do {
     (_, sza) \<leftarrow> args_size (vmem m) argv;
     (_, sze) \<leftarrow> args_size (vmem m) envp;
     (_, m) \<leftarrow> mmu_map data data (of_nat (8 + sza + sze)) (MAP_READ OR MAP_WRITE) m;
     (n_argv, n_envp, sz, _, b) \<leftarrow> copy_arguments (vmem m) data argv envp;
     Some (n_argv, n_envp, put_block data sz b m)
   }"

definition exec_copy_arguments :: "u32 \<Rightarrow> u32 \<Rightarrow> u32 \<Rightarrow> u32 \<Rightarrow> mmu_state \<Rightarrow> (u32 \<times> u32 \<times> mmu_state) option" where
  "exec_copy_arguments table new_buffer argv envp m = do {
     (_, sza) \<leftarrow> args_size (vmem m) argv;
     (_, sze) \<leftarrow> args_size (vmem m) envp;
     (_, m) \<leftarrow> mmu_map_table table new_buffer new_buffer (of_nat (8 + sza + sze)) (MAP_READ OR MAP_WRITE) m;
     (n_argv, n_envp, sz, _, b) \<leftarrow> copy_arguments (vmem m) new_buffer argv envp;
     Some (n_argv, n_envp, put_block new_buffer sz b m)
   }"

text \<open>\<open>STACK_PUSH\<close> of three words: \<open>envp\<close>, \<open>argv\<close>, \<open>argc\<close>.\<close>

definition arch_setup_user_stack :: "addr \<Rightarrow> u32 \<Rightarrow> u32 \<Rightarrow> u32 \<Rightarrow> kstate \<Rightarrow> mmu_state \<Rightarrow> (kstate \<times> mmu_state) option" where
  "arch_setup_user_stack thread argc argv envp s m = do {
     T \<leftarrow> ks_threads s thread;
     let esp = ar_ebp (th_arch T);
     let m = vput32 (esp - 12) argc (vput32 (esp - 8) argv (vput32 (esp - 4) envp m));
     s \<leftarrow> upd_thread thread (\<lambda>T. T\<lparr>th_arch := (th_arch T)\<lparr>ar_esp := esp - 12, ar_stack_entry := esp - 12\<rparr>,
            th_flags := th_flags T OR KTHREAD_FLAG_STACKSETUP\<rparr>) s;
     Some (s, m)
   }"

section \<open>The new image\<close>

text \<open>
  The fields that \<open>_exec_replace_process_image\<close> sets after it has cleared the structure; everything else,
  the exit code and the condition of a waiting parent included, is 0.
\<close>

definition replaced_proc :: "exec_data \<Rightarrow> kproc \<Rightarrow> kproc" where
  "replaced_proc X P = zero_proc\<lparr>pr_name := take KPROC_NAME_MAX (xd_name X), pr_pid := pr_pid P, pr_uid := pr_uid P, pr_gid := pr_gid P,
     pr_type := pr_type P, pr_domain := pr_domain P, pr_parent := pr_parent P, pr_cwd := pr_cwd P,
     pr_mmu_table := unat (xd_mmu_table X), pr_symbols := unat (xd_symbols X), pr_mmap := xd_mmap_entries X, pr_elf_data := xd_elf_data X,
     pr_children := pr_children P, pr_open_files := pr_open_files P, pr_file_position := pr_file_position P\<rparr>"

text \<open>
  Up to the call of \<open>run_sched\<close>, from which the old thread does not return. \<open>entry_fn\<close> is the address of
  \<open>_thread_entrypoint\<close>; \<open>None\<close> is also a failed allocation of the thread, which is not checked. The number of
  arguments is counted in the array given, in the old address space.
\<close>

definition exec_replace_process_image ::
    "(nat \<Rightarrow> lock_t \<times> u64) \<Rightarrow> u32 \<Rightarrow> exec_allocs \<Rightarrow> exec_data \<Rightarrow> kstate \<Rightarrow> mmu_state \<Rightarrow> (kstate \<times> mmu_state) option" where
  "exec_replace_process_image env entry_fn A X s m = do {
     (st_argv, st_envp, m) \<leftarrow> store_arguments (xa_store A) (xd_argv X) (xd_envp X) m;
     old_thread \<leftarrow> mtask_get_curr_thread s;
     OT \<leftarrow> ks_threads s old_thread;
     let curr_proc = th_process OT;
     P \<leftarrow> ks_procs s curr_proc;
     s \<leftarrow> upd_proc curr_proc (replaced_proc X) s;
     s \<leftarrow> on_lh (\<lambda>h. set_data h (proc_item_of curr_proc) curr_proc) s;
     let (thread, s) = kmalloc_next s;
     if thread = NULL then None
     else do {
       let s = put_thread thread (zero_thread\<lparr>th_name := take KPROC_NAME_MAX (pr_name (replaced_proc X P)), th_process := curr_proc,
                 th_entrypoint := unat (xd_entrypoint X), th_prio := th_prio OT, th_tid := th_tid OT, th_stack_size := th_stack_size OT\<rparr>) s;
       let s = s\<lparr>ks_lh := llist_init (ks_lh s) (threads_of curr_proc)\<rparr>;
       (_, s) \<leftarrow> proc_add_thread curr_proc thread s;
       (_, s) \<leftarrow> arch_setup_thread entry_fn thread s;
       (s, m) \<leftarrow> run_calls s m;
       (argc, _) \<leftarrow> args_size (vmem m) (xd_argv X);
       (n_argv, n_envp, m) \<leftarrow> exec_copy_arguments (xd_mmu_table X) (xa_buffer A) st_argv st_envp m;
       let s = kfree_block (unat (xa_store A)) s;
       let m = m\<lparr>mm_cr3 := xd_mmu_table X\<rparr>;
       (s, m) \<leftarrow> arch_setup_user_stack thread (of_nat argc) n_argv n_envp s m;
       s \<leftarrow> upd_thread thread (\<lambda>T. T\<lparr>th_flags := (th_flags T OR KTHREAD_FLAG_RUNNABLE) AND NOT KTHREAD_FLAG_RANONCE\<rparr>) s;
       s \<leftarrow> sched_replace_thread thread s;
       (_, s) \<leftarrow> thread_destroy env old_thread s;
       Some (s, m)
     }
   }"

section \<open>The system call\<close>

text \<open>The entries of the new memory map, at the addresses \<open>kmalloc\<close> returned for them.\<close>

fun put_mmap :: "addr list \<Rightarrow> kproc_mem_map_ent list \<Rightarrow> kstate \<Rightarrow> kstate" where
  "put_mmap (a # as) (E # Es) s =
     put_mmap as Es (s\<lparr>ks_ments := (ks_ments s)(a \<mapsto> E\<lparr>me_next := case (as, Es) of (b # _, _ # _) \<Rightarrow> b | _ \<Rightarrow> NULL\<rparr>)\<rparr>)"
| "put_mmap _ _ s = s"

definition put_file :: "u32 \<Rightarrow> u8 list \<Rightarrow> mmu_state \<Rightarrow> mmu_state" where
  "put_file a bs = upd_bytes (\<lambda>f x. if unat (x - a) < length bs then bs ! unat (x - a) else f x)"

record exec_state =
  xs_k :: kstate
  xs_m :: mmu_state
  xs_fs :: fs_state

text \<open>
  The result: \<open>Inl\<close> the error returned, \<open>Inr\<close> when the new image is in place. A relative file name is
  looked up from the root. \<open>junk\<close> is what the memory of the \<open>exec_data_t\<close> held, \<open>ed\<close> that of the ELF data.
\<close>

definition execve ::
    "vfs_ops \<Rightarrow> (nat \<Rightarrow> lock_t \<times> u64) \<Rightarrow> u32 \<Rightarrow> exec_allocs \<Rightarrow> addr \<Rightarrow> proc_elf_data \<Rightarrow> string \<Rightarrow> string \<Rightarrow> u32 \<Rightarrow> u32 \<Rightarrow>
     exec_state \<Rightarrow> ((int + unit) \<times> exec_state) option" where
  "execve V env entry_fn A junk ed filename arg0 argv envp x =
     (if xa_data A = 0 then Some (Inl (- ENOMEM), x)
      else do {
        (r, data, w) \<leftarrow> fs_read_file_by_path V (xa_hand A) (xa_file A \<noteq> 0) (Some filename) NULL 0 (xs_fs x);
        let x = x\<lparr>xs_fs := w\<rparr>;
        if r \<noteq> 0 then Some (Inl (- ENOENT), x\<lparr>xs_k := kfree_block (unat (xa_data A)) (xs_k x)\<rparr>)
        else do {
          bs \<leftarrow> data;
          let m = put_file (xa_file A) bs (xs_m x);
          (table, m) \<leftarrow> mmu_clone_table (mm_kernel_cr3 m) m;
          let s = xs_k x;
          (ret, l, m) \<leftarrow> (if get32 (mm_byte m) (xa_file A) = ELF_IDENT
            then exec_elf (xa_file A) table (xa_segments A) (xa_symbols A) ed m else Some (- EUNSPEC, None, m));
          let s = (case l of None \<Rightarrow> s | Some l \<Rightarrow> put_mmap (xa_entries A) (el_mmap l) s);
          (done, s, m) \<leftarrow> (case l of
              Some l \<Rightarrow> if ret = 0 then do {
                  (s, m) \<leftarrow> exec_replace_process_image env entry_fn A
                    \<lparr>xd_file_data = xa_file A, xd_file_size = length bs, xd_argv = argv, xd_envp = envp, xd_name = take KPROC_NAME_MAX arg0,
                      xd_entrypoint = el_entry l, xd_mmu_table = table, xd_symbols = el_symbols l,
                      xd_mmap_entries = (case (xa_entries A, el_mmap l) of (a # _, _ # _) \<Rightarrow> a | _ \<Rightarrow> junk), xd_elf_data = xa_elf_data A\<rparr> s m;
                  Some (True, s, m)
                } else Some (False, s, m)
            | None \<Rightarrow> Some (False, s, m));
          if done then Some (Inr (), x\<lparr>xs_k := s, xs_m := m\<rparr>)
          else Some (Inl ret, x\<lparr>xs_k := kfree_block (unat (xa_data A)) (kfree_block (unat (xa_file A)) s), xs_m := m\<rparr>)
        }
      })"

end
