(* ===== verification/Syscall.thy ===== *)
theory Syscall
  imports Exec Procfs
begin

text \<open>
  The system call table of \<open>kernel/src/proc/syscalls.c\<close>, its x86 entry (\<open>arch/x86/src/proc/syscall.c\<close>), and
  \<open>mmap\<close> (\<open>kernel/src/mm/mmap.c\<close>).
\<close>

unbundle bit_operations_syntax

section \<open>Memory\<close>

abbreviation (input) SYSCALL_MMAPFLAG_FIXED :: u32 where "SYSCALL_MMAPFLAG_FIXED \<equiv> 0x10"
abbreviation (input) SYSCALL_MMAPFLAG_ANONYMOUS :: u32 where "SYSCALL_MMAPFLAG_ANONYMOUS \<equiv> 0x20"

text \<open>
  Only anonymous memory; an allocation that fails is not noticed, and one for a misaligned fixed
  address is lost. The flags of the protection have the values of those of the page tables.
\<close>

definition mmap :: "u32 \<Rightarrow> u32 \<Rightarrow> u32 \<Rightarrow> u32 \<Rightarrow> u32 \<Rightarrow> kstate \<Rightarrow> (u32 \<times> kstate) option" where
  "mmap a len prot flags off s =
     (if flags AND SYSCALL_MMAPFLAG_ANONYMOUS = 0 then Some (0, s)
      else
        let len = (if len mod PAGE_SZ \<noteq> 0 then (len AND NOT (PAGE_SZ - 1)) + PAGE_SZ else len) in
        if off mod PAGE_SZ \<noteq> 0 then Some (0xFFFFFFFF, s)
        else
          let (phys, s) = kmalloc_next s in
          if flags AND SYSCALL_MMAPFLAG_FIXED \<noteq> 0 \<and> a mod PAGE_SZ \<noteq> 0 then Some (0, s)
          else do {
            let virt = (if flags AND SYSCALL_MMAPFLAG_FIXED \<noteq> 0 then a else of_nat phys);
            p \<leftarrow> mtask_get_curr_process s;
            P \<leftarrow> ks_procs s p;
            let s = map_table (pr_mmu_table P) virt (of_nat phys) len
              ((if prot AND 1 \<noteq> 0 then 1 else 0) OR (if prot AND 2 \<noteq> 0 then 2 else 0) OR (if prot AND 4 \<noteq> 0 then 4 else 0)) s;
            (_, s) \<leftarrow> mm_proc_mmap_add p (of_nat phys) virt len s;
            Some (virt, s)
          })"

definition munmap :: "u32 \<Rightarrow> u32 \<Rightarrow> int" where
  "munmap a len = 0"

section \<open>The table\<close>

datatype syscall = SysExit | SysMmap | SysMunmap | SysAccess | SysReaddir | SysStat | SysRead | SysWrite | SysOpen | SysClose
  | SysMkdir | SysCreate | SysIoctl | SysReadBlk | SysGetdirinfo | SysFork | SysExecve | SysWait | SysTaskSwitch

text \<open>\<open>_syscalls\<close>: the function and the number of its arguments; \<open>None\<close> an entry with no function.\<close>

definition syscalls :: "(syscall \<times> nat) option list" where
  "syscalls = [None, None, None, Some (SysExit, 1), Some (SysMmap, 6), Some (SysMunmap, 2), None, None, None,
     Some (SysAccess, 4), Some (SysReaddir, 4), Some (SysStat, 3), Some (SysRead, 4), Some (SysWrite, 4), Some (SysOpen, 2),
     Some (SysClose, 1), Some (SysMkdir, 3), Some (SysCreate, 3), Some (SysIoctl, 3), Some (SysReadBlk, 4), Some (SysGetdirinfo, 2),
     Some (SysFork, 0), Some (SysExecve, 3), Some (SysWait, 1), Some (SysTaskSwitch, 0)]"

definition syscall_stringify :: "u32 \<Rightarrow> string" where
  "syscall_stringify scn =
     (if scn = 3 then ''EXIT'' else if scn = 4 then ''MMAP'' else if scn = 5 then ''MUNMAP'' else if scn = 10 then ''READDIR''
      else if scn = 9 then ''ACCESS'' else if scn = 11 then ''STAT'' else if scn = 12 then ''READ'' else if scn = 13 then ''WRITE''
      else if scn = 14 then ''OPEN'' else if scn = 15 then ''CLOSE'' else if scn = 16 then ''MKDIR'' else if scn = 17 then ''CREATE''
      else if scn = 18 then ''IOCTL'' else if scn = 19 then ''READ_BLK'' else if scn = 20 then ''GETDIRINFO'' else if scn = 21 then ''FORK''
      else if scn = 22 then ''EXECVE'' else if scn = 23 then ''WAIT'' else if scn = 24 then ''TASK_SWITCH'' else ''UNKNOWN'')"

text \<open>
  The arguments are words in memory at \<open>args\<close>, the first of which is replaced by the result. \<open>call\<close> is what
  the functions of the table do with their arguments.
\<close>

definition syscall_args :: "bytes \<Rightarrow> u32 \<Rightarrow> nat \<Rightarrow> u32 list" where
  "syscall_args b args n = map (\<lambda>i. get32 b (args + 4 * of_nat i)) [0..<n]"

definition syscall_service ::
    "(syscall \<Rightarrow> u32 list \<Rightarrow> 's \<times> mmu_state \<Rightarrow> (u32 \<times> 's \<times> mmu_state) option) \<Rightarrow> u32 \<Rightarrow> u32 \<Rightarrow> 's \<times> mmu_state \<Rightarrow> (int \<times> 's \<times> mmu_state) option" where
  "syscall_service call scn args st =
     (if length syscalls \<le> unat scn then Some (- ENOSYS, st)
      else case syscalls ! unat scn of None \<Rightarrow> Some (- ENOSYS, st)
      | Some (f, nargs) \<Rightarrow> do {
          (r, s, m) \<leftarrow> call f (syscall_args (vmem (snd st)) args nargs) st;
          Some (0, s, vput32 args r m)
        })"

text \<open>
  The interrupt: the registers' places are kept in the thread, for \<open>fork\<close>; a call that is refused ends the
  process. \<open>pregs\<close> and \<open>iregs\<close> point to the registers saved on the kernel stack, \<open>frame\<close> to the pointer itself.
\<close>

definition arch_syscall_interrupt ::
    "(syscall \<Rightarrow> u32 list \<Rightarrow> kstate \<times> mmu_state \<Rightarrow> (u32 \<times> kstate \<times> mmu_state) option) \<Rightarrow> (nat \<Rightarrow> lock_t \<Rightarrow> lock_t) \<Rightarrow>
     u32 \<Rightarrow> u32 \<Rightarrow> u32 \<Rightarrow> kstate \<times> mmu_state \<Rightarrow> (kstate \<times> mmu_state) option" where
  "arch_syscall_interrupt call lock_env frame pregs iregs st = do {
     let (s, m) = st;
     t \<leftarrow> mtask_get_curr_thread s;
     s \<leftarrow> upd_thread t (\<lambda>T. T\<lparr>th_arch := (th_arch T)\<lparr>ar_esp := frame, ar_pusha := pregs, ar_iret := iregs\<rparr>\<rparr>) s;
     (r, s, m) \<leftarrow> syscall_service call (get32 (mm_byte m) (pregs + 28)) (get32 (mm_byte m) (pregs + 16)) (s, m);
     if r \<noteq> 0 then do { s \<leftarrow> exit lock_env 1 s; Some (s, m) } else Some (s, m)
   }"

end
