(* ===== verification/Kernel_Inv.thy ===== *)
theory Kernel_Inv
  imports Syscall
begin

text \<open>
  The kernel as a state machine: one step per operation on processes and threads, in any order.
  No process identifier is given twice before the 32-bit counter overflows.
\<close>

unbundle bit_operations_syntax

section \<open>Process identifiers\<close>

text \<open>
  As long as \<open>next_pid\<close> has not wrapped around, the identifiers given out are positive, below the
  next one, and belong to one process each; a process without an identifier has 0.
\<close>

definition pids_ok :: "(addr \<rightharpoonup> kproc) \<Rightarrow> int \<Rightarrow> bool" where
  "pids_ok f n \<longleftrightarrow> 0 < n \<and> (n \<le> 2 ^ 31 \<longrightarrow> (\<forall>p P. f p = Some P \<longrightarrow> 0 \<le> pr_pid P \<and> pr_pid P < n) \<and>
     (\<forall>p q P Q. f p = Some P \<longrightarrow> f q = Some Q \<longrightarrow> pr_pid P \<noteq> 0 \<longrightarrow> pr_pid P = pr_pid Q \<longrightarrow> p = q))"

definition kinv :: "kstate \<Rightarrow> bool" where
  "kinv s \<longleftrightarrow> pids_ok (ks_procs s) (ks_next_pid s)"

lemma kinv_cong: "ks_procs s' = ks_procs s \<Longrightarrow> ks_next_pid s' = ks_next_pid s \<Longrightarrow> kinv s' = kinv s"
  by (simp add: kinv_def)

lemma kinv_upds [simp]:
  "kinv (s\<lparr>ks_lh := a1\<rparr>) = kinv s" "kinv (s\<lparr>ks_threads := a2\<rparr>) = kinv s" "kinv (s\<lparr>ks_ments := a3\<rparr>) = kinv s"
  "kinv (s\<lparr>ks_conds := a4\<rparr>) = kinv s" "kinv (s\<lparr>ks_citems := a5\<rparr>) = kinv s" "kinv (s\<lparr>ks_cpu_threads := a6\<rparr>) = kinv s"
  "kinv (s\<lparr>ks_curr := a7\<rparr>) = kinv s" "kinv (s\<lparr>ks_n_cpus := a8\<rparr>) = kinv s" "kinv (s\<lparr>ks_creat_task := a9\<rparr>) = kinv s"
  "kinv (s\<lparr>ks_new := a10\<rparr>) = kinv s" "kinv (s\<lparr>ks_freed := a11\<rparr>) = kinv s" "kinv (s\<lparr>ks_mmu := a12\<rparr>) = kinv s" "kinv (s\<lparr>ks_time := a13\<rparr>) = kinv s"
  by (simp_all add: kinv_def)

lemma pids_ok_mono: "pids_ok f n \<Longrightarrow> n \<le> n' \<Longrightarrow> pids_ok f n'"
  unfolding pids_ok_def by (meson less_le_trans order_trans)

lemma pids_ok_upd:
  assumes "pids_ok f n" "pr_pid P = 0 \<or> (f p = Some Q \<and> pr_pid P = pr_pid Q)"
  shows "pids_ok (f(p \<mapsto> P)) n"
  using assms unfolding pids_ok_def by (auto split: if_splits)

lemma signed32_small: "0 < n \<Longrightarrow> n < 2 ^ 31 \<Longrightarrow> signed32 n = n"
  by (simp add: signed32_def)

lemma pids_ok_fresh:
  assumes "pids_ok f n" "pr_pid P = signed32 n"
  shows "pids_ok (f(p \<mapsto> P)) (n + 1)"
proof (cases "n + 1 \<le> 2 ^ 31")
  case True
  with assms have "pr_pid P = n" by (simp add: pids_ok_def signed32_small)
  with assms(1) True show ?thesis unfolding pids_ok_def by (auto split: if_splits) fastforce+
qed (use assms(1) in \<open>simp add: pids_ok_def\<close>)

lemma kinv_put:
  "kinv s \<Longrightarrow> pr_pid P = 0 \<or> (ks_procs s p = Some Q \<and> pr_pid P = pr_pid Q) \<Longrightarrow>
   kinv (s\<lparr>ks_procs := (ks_procs s)(p \<mapsto> P)\<rparr>)"
  by (simp add: kinv_def pids_ok_upd)

lemma kinv_upd_proc:
  assumes "upd_proc p f s = Some s'" "kinv s" "\<And>P. pr_pid (f P) = pr_pid P"
  shows "kinv s'"
  using assms by (auto simp: upd_proc_def bind_eq_Some_conv intro!: kinv_put)

section \<open>Steps that keep the process table\<close>

named_theorems kpres

lemma prim_kinv [kpres]:
  "on_lh g s = Some s' \<Longrightarrow> kinv s \<Longrightarrow> kinv s'" "upd_thread t h s = Some s' \<Longrightarrow> kinv s \<Longrightarrow> kinv s'"
  "upd_ment e k s = Some s' \<Longrightarrow> kinv s \<Longrightarrow> kinv s'" "kmalloc_next s = (a, s') \<Longrightarrow> kinv s \<Longrightarrow> kinv s'"
  "set_curr cpu t s = Some s' \<Longrightarrow> kinv s \<Longrightarrow> kinv s'" "pop_item l s = Some (i, s') \<Longrightarrow> kinv s \<Longrightarrow> kinv s'"
  "clone_table src s = (b, s') \<Longrightarrow> kinv s \<Longrightarrow> kinv s'"
  by (auto simp: on_lh_def upd_thread_def upd_ment_def kmalloc_next_def set_curr_def pop_item_def clone_table_def bind_eq_Some_conv Let_def
      split: list.splits option.splits if_splits prod.splits)

lemma plain_kinv [simp]:
  "kinv (kfree_block a s) = kinv s" "kinv (put_thread t T s) = kinv s" "kinv (free_thread t s) = kinv s" "kinv (map_table tb v p l fl s) = kinv s"
  "kinv (cond_init c s) = kinv s" "kinv (free_cond c s) = kinv s" "kinv (free_if a s) = kinv s" "kinv (put_ments b n j s) = kinv s"
  by (simp_all add: kfree_block_def put_thread_def free_thread_def map_table_def cond_init_def free_cond_def free_if_def put_ments_def)

lemma lock_kinv [kpres]: "llist_lock_for env l ms s = Some (r, s') \<Longrightarrow> kinv s \<Longrightarrow> kinv s'"
  by (auto simp: llist_lock_for_def bind_eq_Some_conv split: prod.splits dest: kpres)

lemma drain_kinv:
  assumes "drain pop body s = Some s'" "kinv s" "\<And>x i y. pop x = Some (i, y) \<Longrightarrow> kinv x \<Longrightarrow> kinv y" "\<And>i x y. body i x = Some y \<Longrightarrow> kinv x \<Longrightarrow> kinv y"
  shows "kinv s'"
proof -
  have "pop = pop \<longrightarrow> body = body \<longrightarrow> kinv s \<longrightarrow> kinv s'"
  proof (rule drain.raw_induct [where P = "\<lambda>pop' body' x y. pop' = pop \<longrightarrow> body' = body \<longrightarrow> kinv x \<longrightarrow> kinv y", OF _ assms(1)], intro impI)
    fix dr pop' body' h y
    assume IH: "\<And>p b x y. dr p b x = Some y \<Longrightarrow> p = pop \<longrightarrow> b = body \<longrightarrow> kinv x \<longrightarrow> kinv y"
      and run: "pop' h \<bind> (\<lambda>(item, h). if item = 0 then Some h else body' item h \<bind> dr pop' body') = Some y"
      and eq: "pop' = pop" "body' = body" and h: "kinv h"
    from run eq obtain i h1 where p: "pop h = Some (i, h1)" "(if i = 0 then Some h1 else body i h1 \<bind> dr pop body) = Some y"
      by (auto simp: bind_eq_Some_conv)
    with assms(3) h have "kinv h1" by blast
    with p(2) assms(4) IH show "kinv y" by (fastforce simp: bind_eq_Some_conv split: if_splits)
  qed
  then show ?thesis using assms(2) by simp
qed

lemma sched_kinv [kpres]:
  "sched_enqueue_thread env t s = Some (r, s') \<Longrightarrow> kinv s \<Longrightarrow> kinv s'"
  "cpu_add_thread cpu t s = Some s' \<Longrightarrow> kinv s \<Longrightarrow> kinv s'"
  by (auto simp: sched_enqueue_thread_def cpu_add_thread_def bind_eq_Some_conv split: if_splits prod.splits dest: kpres)

lemma sched_remove_kinv: "sched_remove_from env t is s = Some (r, s') \<Longrightarrow> kinv s \<Longrightarrow> kinv s'"
  by (induction "is") (auto simp: bind_eq_Some_conv split: if_splits prod.splits dest: kpres)

lemma schedule_kinv [kpres]:
  "schedule_thread t s = Some s' \<Longrightarrow> kinv s \<Longrightarrow> kinv s'" "schedule_item i s = Some s' \<Longrightarrow> kinv s \<Longrightarrow> kinv s'"
  by (auto simp: schedule_thread_def schedule_item_def bind_eq_Some_conv split: if_splits dest: kpres)

lemma sched_processes_kinv [kpres]: "sched_processes s = Some s' \<Longrightarrow> kinv s \<Longrightarrow> kinv s'"
  by (auto simp: sched_processes_def bind_eq_Some_conv Let_def case_prod_beta split: if_splits dest: kpres dest!: drain_kinv [OF _ _ prim_kinv(6) schedule_kinv(2)])

lemma sched_next_kinv [kpres]: "sched_next_process cpu s = Some (t, s') \<Longrightarrow> kinv s \<Longrightarrow> kinv s'"
  by (auto simp: sched_next_process_def bind_eq_Some_conv Let_def split: option.splits if_splits dest: kpres)

lemma snd_kinv [simp]:
  "kinv (snd (kmalloc_next s)) = kinv s" "kinv (snd (clone_table src s)) = kinv s" "kinv s \<Longrightarrow> kinv (snd (get_next_pid s))"
proof -
  show "kinv (snd (kmalloc_next s)) = kinv s" for s by (simp add: kmalloc_next_def split: list.splits)
  then show "kinv (snd (clone_table src s)) = kinv s" by (simp add: clone_table_def case_prod_beta Let_def)
  show "kinv s \<Longrightarrow> kinv (snd (get_next_pid s))" using pids_ok_mono by (fastforce simp: get_next_pid_def kinv_def)
qed

lemma thread_kinv [kpres]:
  "thread_create e d nm sz pr s = Some (t, s') \<Longrightarrow> kinv s \<Longrightarrow> kinv s'"
  "thread_destroy env t s = Some (r, s') \<Longrightarrow> kinv s \<Longrightarrow> kinv s'"
  by (auto simp: thread_create_def thread_destroy_def sched_remove_thread_def bind_eq_Some_conv Let_def case_prod_beta split: if_splits
      dest: kpres sched_remove_kinv)

lemma stack_kinv [kpres]:
  "arch_proc_create_stack t s = Some (r, s') \<Longrightarrow> kinv s \<Longrightarrow> kinv s'"
  "arch_proc_create_kernel_stack t s = Some (r, s') \<Longrightarrow> kinv s \<Longrightarrow> kinv s'"
  by (auto simp: arch_proc_create_stack_def arch_proc_create_kernel_stack_def bind_eq_Some_conv Let_def case_prod_beta split: if_splits dest: kpres)

lemma setup_kinv [kpres]: "arch_setup_thread e t s = Some (r, s') \<Longrightarrow> kinv s \<Longrightarrow> kinv s'"
  by (auto simp: arch_setup_thread_def bind_eq_Some_conv Let_def case_prod_beta dest: kpres)

lemma list_kinv [kpres]:
  "mtask_insert_proc p s = Some (r, s') \<Longrightarrow> kinv s \<Longrightarrow> kinv s'" "mtask_remove_proc p s = Some (r, s') \<Longrightarrow> kinv s \<Longrightarrow> kinv s'"
  by (auto simp: mtask_insert_proc_def mtask_remove_proc_def bind_eq_Some_conv Let_def case_prod_beta dest: kpres)

lemma next_pid_kinv [kpres]: "get_next_pid s = (pid, s') \<Longrightarrow> kinv s \<Longrightarrow> kinv s'"
  using pids_ok_mono by (fastforce simp: get_next_pid_def kinv_def)

lemma add_thread_kinv [kpres]: "proc_add_thread p t s = Some (r, s') \<Longrightarrow> kinv s \<Longrightarrow> kinv s'"
  by (auto simp: proc_add_thread_def bind_eq_Some_conv Let_def case_prod_beta split: if_splits; (elim kpres | simp | rule snd_kinv(3))+)

lemma spawn_kinv [kpres]: "thread_spawn env e ep d nm sz pr s = Some (r, s') \<Longrightarrow> kinv s \<Longrightarrow> kinv s'"
  by (auto simp: thread_spawn_def bind_eq_Some_conv Let_def case_prod_beta split: if_splits; (elim kpres | simp | rule snd_kinv(3))+)

lemma replace_kinv [kpres]: "sched_replace_thread t s = Some s' \<Longrightarrow> kinv s \<Longrightarrow> kinv s'"
  by (auto simp: sched_replace_thread_def bind_eq_Some_conv Let_def case_prod_beta split: option.splits dest: kpres)

lemma run_calls_kinv [kpres]: "run_calls s m = Some (s', m') \<Longrightarrow> kinv s \<Longrightarrow> kinv s'"
  by (auto simp: run_calls_def bind_eq_Some_conv Let_def case_prod_beta)

section \<open>Steps on the process table\<close>

lemma add_file_kinv [kpres]: "proc_add_file p f s = Some (r, s') \<Longrightarrow> kinv s \<Longrightarrow> kinv s'"
  by (auto simp: proc_add_file_def bind_eq_Some_conv Let_def case_prod_beta split: option.splits intro!: kinv_put)

text \<open>An update of one process that keeps its identifier.\<close>

lemma upd_kinv [kpres]:
  "upd_proc p (\<lambda>P. P\<lparr>pr_parent := a\<rparr>) s = Some s' \<Longrightarrow> kinv s \<Longrightarrow> kinv s'"
  "upd_proc p (\<lambda>P. P\<lparr>pr_children := (pr_children P)[i := c]\<rparr>) s = Some s' \<Longrightarrow> kinv s \<Longrightarrow> kinv s'"
  "upd_proc p (\<lambda>P. P\<lparr>pr_mmap := c\<rparr>) s = Some s' \<Longrightarrow> kinv s \<Longrightarrow> kinv s'"
  "upd_proc p (\<lambda>P. P\<lparr>pr_mmu_table := c\<rparr>) s = Some s' \<Longrightarrow> kinv s \<Longrightarrow> kinv s'"
  "upd_proc p (\<lambda>P. P\<lparr>pr_wait_cond := c\<rparr>) s = Some s' \<Longrightarrow> kinv s \<Longrightarrow> kinv s'"
  "upd_proc p (\<lambda>P. P\<lparr>pr_type := f (pr_type P)\<rparr>) s = Some s' \<Longrightarrow> kinv s \<Longrightarrow> kinv s'"
  "upd_proc p (\<lambda>P. P\<lparr>pr_type := f (pr_type P), pr_exitcode := a\<rparr>) s = Some s' \<Longrightarrow> kinv s \<Longrightarrow> kinv s'"
  "upd_proc p (\<lambda>P. P\<lparr>pr_uid := a, pr_gid := b, pr_type := u\<rparr>) s = Some s' \<Longrightarrow> kinv s \<Longrightarrow> kinv s'"
  by (erule kinv_upd_proc; simp)+

lemma add_child_kinv [kpres]: "proc_add_child p c s = Some (r, s') \<Longrightarrow> kinv s \<Longrightarrow> kinv s'"
  by (auto simp: proc_add_child_def bind_eq_Some_conv split: option.splits; (elim kpres | simp | rule snd_kinv(3))+)

lemma mmap_kinv [kpres]:
  "proc_add_mmap_ents p e s = Some (r, s') \<Longrightarrow> kinv s \<Longrightarrow> kinv s'"
  by (auto simp: proc_add_mmap_ents_def bind_eq_Some_conv split: if_splits; (elim kpres | simp | rule snd_kinv(3))+)

lemma mmap_add_kinv [kpres]: "mm_proc_mmap_add p ph v l s = Some (r, s') \<Longrightarrow> kinv s \<Longrightarrow> kinv s'"
  by (auto simp: mm_proc_mmap_add_def bind_eq_Some_conv Let_def case_prod_beta split: if_splits; (elim kpres | simp | rule snd_kinv(3))+)

lemma mmap_call_kinv [kpres]: "mmap a l pt fl off s = Some (r, s') \<Longrightarrow> kinv s \<Longrightarrow> kinv s'"
  by (auto simp: mmap_def bind_eq_Some_conv Let_def case_prod_beta split: if_splits; (elim kpres | simp | rule snd_kinv(3))+)

lemma free_proc_kinv [simp]: "kinv s \<Longrightarrow> kinv (free_proc p s)"
  by (auto simp: kinv_def free_proc_def pids_ok_def split: if_splits)

lemma destroy_threads_kinv [kpres]: "destroy_threads env p s = Some s' \<Longrightarrow> kinv s \<Longrightarrow> kinv s'"
proof -
  assume run: "destroy_threads env p s = Some s'" and s: "kinv s"
  have "kinv s \<longrightarrow> kinv s'"
    by (rule destroy_threads.raw_induct [where P = "\<lambda>e q x y. kinv x \<longrightarrow> kinv y", OF _ run])
      (auto simp: bind_eq_Some_conv case_prod_beta split: if_splits; metis (no_types, lifting) prim_kinv(1) thread_kinv(2))
  with s show ?thesis by simp
qed

lemma destroy_kinv [kpres]: "proc_destroy env p s = Some (r, s') \<Longrightarrow> kinv s \<Longrightarrow> kinv s'"
  by (auto simp: proc_destroy_def bind_eq_Some_conv Let_def case_prod_beta intro!: free_proc_kinv; (elim kpres | simp | rule snd_kinv(3))+)

text \<open>A process that gets the next identifier.\<close>

lemma kinv_fresh:
  assumes "kinv s" "pr_pid P = signed32 (ks_next_pid s)" "ks_procs s' = (ks_procs s)(p \<mapsto> P)" "ks_next_pid s' = ks_next_pid s + 1"
  shows "kinv s'"
  using assms by (simp add: kinv_def pids_ok_fresh)

lemma same_next [simp]: "ks_procs (snd (kmalloc_next s)) = ks_procs s" "ks_next_pid (snd (kmalloc_next s)) = ks_next_pid s"
    "ks_procs (snd (clone_table t s)) = ks_procs s" "ks_next_pid (snd (clone_table t s)) = ks_next_pid s"
  by (simp_all add: clone_table_def kmalloc_next_def Let_def case_prod_beta split: list.splits)

lemma create_kinv: "kinv s \<Longrightarrow> kinv (snd (proc_create nm dm tb s))"
proof (cases "fst (kmalloc_next s) = NULL")
  case True
  then show "kinv s \<Longrightarrow> ?thesis" by (simp add: proc_create_def case_prod_beta Let_def)
next
  case False
  assume s: "kinv s"
  let ?s = "snd (kmalloc_next s)" and ?p = "fst (kmalloc_next s)"
  let ?P = "zero_proc\<lparr>pr_name := take KPROC_NAME_MAX nm, pr_pid := signed32 (ks_next_pid s), pr_domain := dm, pr_cwd := ks_root ?s\<rparr>"
  have "\<exists>tab. ks_procs (snd (proc_create nm dm tb s)) = (ks_procs s)(?p \<mapsto> ?P\<lparr>pr_mmu_table := tab\<rparr>)"
    using False by (cases "0 < tb") (auto simp: proc_create_def get_next_pid_def case_prod_beta Let_def put_proc_def)
  moreover have "ks_next_pid (snd (proc_create nm dm tb s)) = ks_next_pid s + 1"
    using False by (cases "0 < tb") (simp_all add: proc_create_def get_next_pid_def case_prod_beta Let_def put_proc_def)
  ultimately obtain tab where "ks_procs (snd (proc_create nm dm tb s)) = (ks_procs s)(?p \<mapsto> ?P\<lparr>pr_mmu_table := tab\<rparr>)"
      "ks_next_pid (snd (proc_create nm dm tb s)) = ks_next_pid s + 1" by blast
  then show ?thesis by (rule kinv_fresh [OF s, rotated 1]) simp
qed

lemma create_pair_kinv [kpres]: "proc_create nm dm tb s = (p, s') \<Longrightarrow> kinv s \<Longrightarrow> kinv s'"
  using create_kinv by (metis snd_conv)

lemma add_task_kinv [kpres]: "add_task le env e ps nm sz pr dm tb s = Some (r, s') \<Longrightarrow> kinv s \<Longrightarrow> kinv s'"
  by (auto simp: add_task_def bind_eq_Some_conv Let_def case_prod_beta split: if_splits intro!: free_proc_kinv; (elim kpres | simp | rule create_kinv)+)

section \<open>Conditions, \<open>exit\<close>, \<open>wait\<close>, \<open>fork\<close>, \<open>exec\<close>\<close>

lemma unblock_kinv [kpres]: "unblock_item i s = Some s' \<Longrightarrow> kinv s \<Longrightarrow> kinv s'"
  by (auto simp: unblock_item_def unblock_thread_def bind_eq_Some_conv; (elim kpres | simp | rule snd_kinv(3))+)

lemma signal_kinv [kpres]: "cond_signal le c s = Some (r, s') \<Longrightarrow> kinv s \<Longrightarrow> kinv s'"
proof -
  assume run: "cond_signal le c s = Some (r, s')" and s: "kinv s"
  then obtain v y where y: "drain (pop_item (cond_list_of c)) unblock_item (s\<lparr>ks_conds := (ks_conds s)(c \<mapsto> v)\<rparr>) = Some y"
      "s' = y\<lparr>ks_conds := (ks_conds y)(c \<mapsto> unlock v)\<rparr>" by (auto simp: cond_signal_def bind_eq_Some_conv Let_def)
  have "kinv y" by (rule drain_kinv [OF y(1) _ prim_kinv(6) unblock_kinv]) (simp_all add: s)
  then show "kinv s'" by (simp add: y(2))
qed

lemma exit_kinv [kpres]: "exit le code s = Some s' \<Longrightarrow> kinv s \<Longrightarrow> kinv s'"
  by (auto simp: exit_def bind_eq_Some_conv Let_def split: if_splits; (elim kpres | simp)+)

lemma reap_kinv [kpres]: "wait_reap env p i s = Some (r, s') \<Longrightarrow> kinv s \<Longrightarrow> kinv s'"
  by (auto simp: wait_reap_def bind_eq_Some_conv Let_def case_prod_beta; (elim kpres | simp)+)

text \<open>
  Weakest preconditions for runs that may fail: the rules take a \<open>do\<close> block apart and leave the
  invariant of its last state, which is then followed back to the first.
\<close>

definition wp :: "'a option \<Rightarrow> ('a \<Rightarrow> bool) \<Rightarrow> bool" where
  "wp x Q \<longleftrightarrow> (\<forall>y. x = Some y \<longrightarrow> Q y)"

lemma wpD: "wp x Q \<Longrightarrow> x = Some y \<Longrightarrow> Q y"
  by (simp add: wp_def)

lemma wp_rules:
  "wp (if c then x else y) (\<lambda>z. wp (f z) Q) \<Longrightarrow> wp ((if c then x else y) \<bind> f) Q"
  "(\<And>a b c. x3 = Some (a, b, c) \<Longrightarrow> wp (f3 a b c) Q) \<Longrightarrow> wp (x3 \<bind> (\<lambda>(a, b, c). f3 a b c)) Q"
  "(\<And>a b. x2 = Some (a, b) \<Longrightarrow> wp (f2 a b) Q) \<Longrightarrow> wp (x2 \<bind> (\<lambda>(a, b). f2 a b)) Q"
  "(\<And>a. x1 = Some a \<Longrightarrow> wp (f1 a) Q) \<Longrightarrow> wp (x1 \<bind> f1) Q"
  "(\<And>a b. e2 = (a, b) \<Longrightarrow> wp (g2 a b) Q) \<Longrightarrow> wp (let (a, b) = e2 in g2 a b) Q"
  "wp (g1 e1) Q \<Longrightarrow> wp (Let e1 g1) Q"
  "(d \<Longrightarrow> wp v Q) \<Longrightarrow> (\<not> d \<Longrightarrow> wp w Q) \<Longrightarrow> wp (if d then v else w) Q"
  "Q r \<Longrightarrow> wp (Some r) Q"
  "wp None Q"
  by (auto simp: wp_def bind_eq_Some_conv split: prod.splits if_splits)

lemma wp_call: "(\<And>y. x = Some y \<Longrightarrow> Q y) \<Longrightarrow> wp x Q"
  by (simp add: wp_def)

lemma wp_call2: "(\<And>a b. x = Some (a, b) \<Longrightarrow> Q (a, b)) \<Longrightarrow> wp x Q"
  by (simp add: wp_def)

lemma wp_call3: "(\<And>a b c. x = Some (a, b, c) \<Longrightarrow> Q (a, b, c)) \<Longrightarrow> wp x Q"
  by (simp add: wp_def)

lemmas kplain = kinv_upds plain_kinv

text \<open>While a thread waits the others run: \<open>sched\<close> is any sequence of their operations.\<close>

lemma cond_wait_kinv:
  assumes sched: "\<And>x y. sched x = Some y \<Longrightarrow> kinv x \<Longrightarrow> kinv y" and run: "cond_wait le sched c s = Some (r, s')" and s: "kinv s"
  shows "kinv s'"
proof -
  have "wp (cond_wait le sched c s) (\<lambda>y. kinv (snd y))"
    unfolding cond_wait_def using s
    by - (rule wp_rules | assumption | elim kpres sched | simp (no_asm) only: kplain snd_conv)+
  from wpD [OF this run] show ?thesis by simp
qed

lemma wait_kinv:
  assumes sched: "\<And>x y. sched x = Some y \<Longrightarrow> kinv x \<Longrightarrow> kinv y" and run: "wait env le sched s = Some (r, s')" and s: "kinv s"
  shows "kinv s'"
proof -
  have cw: "cond_wait le sched c x = Some (r, y) \<Longrightarrow> kinv x \<Longrightarrow> kinv y" for c x r y using cond_wait_kinv sched by blast
  have "wp (wait env le sched s) (\<lambda>y. kinv (snd y))"
    unfolding wait_def using s
    by - (rule wp_rules | simp (no_asm) only: kplain snd_conv prod.case | rule wp_call2 | rule wp_call | assumption | elim kpres cw)+
  from wpD [OF this run] show ?thesis by simp
qed

lemma copy_ments_kinv [kpres]:
  assumes "copy_ments d src pe ce s m = Some (r, s', m')" "kinv s"
  shows "kinv s'"
proof -
  have "kinv s \<longrightarrow> kinv (fst (snd (r, s', m')))"
  proof (rule copy_ments.raw_induct [where P = "\<lambda>d src pe ce x m y. kinv x \<longrightarrow> kinv (fst (snd y))", OF _ assms(1)], intro impI)
    fix cm :: "u32 \<Rightarrow> u32 \<Rightarrow> addr \<Rightarrow> addr \<Rightarrow> kstate \<Rightarrow> mmu_state \<Rightarrow> (int \<times> kstate \<times> mmu_state) option"
    fix d src pe ce x m y
    assume IH: "\<And>d src pe ce x m y. cm d src pe ce x m = Some y \<Longrightarrow> kinv x \<longrightarrow> kinv (fst (snd y))" and x: "kinv x"
    have cm: "cm d src pe ce x m = Some (r, x', m') \<Longrightarrow> kinv x \<Longrightarrow> kinv x'" for d src pe ce x m r x' m' using IH by fastforce
    assume run: "(if pe = NULL then Some (0, x, m)
      else do {
        E \<leftarrow> ks_ments x pe;
        C \<leftarrow> ks_ments x ce;
        let next = (if me_next E \<noteq> NULL then ce + 16 else me_next C);
        let (a, s) = kmalloc_next x;
        let phys = (if of_nat a = (0 :: u32) then 0 else same_alignment (of_nat a) (me_phys E));
        s \<leftarrow> upd_ment ce (\<lambda>_. \<lparr>me_virt = me_virt E, me_phys = phys, me_length = me_length E, me_next = next\<rparr>) s;
        if of_nat a = (0 :: u32) then Some (- ENOMEM, s, m)
        else do {
          (r, m) \<leftarrow> mmu_map_table d (me_virt E) phys (me_length E) (MAP_READ OR MAP_WRITE) m;
          if r \<noteq> 0 then Some (- EUNSPEC, s, m)
          else do {
            (r, m) \<leftarrow> mmu_copy_data d (me_virt E) src (me_virt E) (me_length E) m;
            if r \<noteq> 0 then Some (- EUNSPEC, s, m)
            else cm d src (me_next E) next s m
          }
        }
      }) = Some y"
    show "kinv (fst (snd y))"
      by (rule wpD [OF _ run])
        (rule wp_rules | rule wp_call3 | assumption | elim kpres cm | simp (no_asm) only: kplain fst_conv snd_conv | rule x)+
  qed
  with assms(2) show ?thesis by simp
qed

lemma copy_data_kinv [kpres]: "proc_copy_data junk d src s m = Some (r, s', m') \<Longrightarrow> kinv s \<Longrightarrow> kinv s'"
proof -
  assume run: "proc_copy_data junk d src s m = Some (r, s', m')" and s: "kinv s"
  have "wp (proc_copy_data junk d src s m) (\<lambda>y. kinv (fst (snd y)))"
    unfolding proc_copy_data_def using s
    by - (rule wp_rules | rule wp_call3 | assumption | elim kpres | simp (no_asm) only: kplain fst_conv snd_conv)+
  from wpD [OF this run] show ?thesis by simp
qed

lemma postfork_kinv [kpres]: "arch_postfork_setup rf p c s m = Some (r, s', m') \<Longrightarrow> kinv s \<Longrightarrow> kinv s'"
  by (auto simp: arch_postfork_setup_def bind_eq_Some_conv Let_def case_prod_beta; (elim kpres | simp)+)

text \<open>The child's structure gets the parent's name and open files, and the next identifier.\<close>

lemma clone_pid_kinv:
  assumes "get_next_pid s = (pid, s1)" "kinv s" "ks_procs s q = Some P"
    and upd: "upd_proc p (\<lambda>C. C\<lparr>pr_name := take KPROC_NAME_MAX (pr_name P), pr_pid := pid, pr_uid := a, pr_gid := b,
       pr_cwd := c, pr_domain := d, pr_open_files := pr_open_files P, pr_file_position := pr_file_position P\<rparr>) s1 = Some s2"
  shows "kinv s2"
proof -
  from upd assms(1) obtain C where C: "ks_procs s p = Some C" and eq: "pid = signed32 (ks_next_pid s)" "ks_next_pid s2 = ks_next_pid s + 1"
      "ks_procs s2 = (ks_procs s)(p \<mapsto> C\<lparr>pr_name := take KPROC_NAME_MAX (pr_name P), pr_pid := pid, pr_uid := a, pr_gid := b,
       pr_cwd := c, pr_domain := d, pr_open_files := pr_open_files P, pr_file_position := pr_file_position P\<rparr>)"
    by (auto simp: upd_proc_def get_next_pid_def bind_eq_Some_conv)
  show ?thesis by (rule kinv_fresh [OF assms(2) _ eq(3,2)]) (simp add: eq(1))
qed

lemma clone_process_kinv [kpres]: "fork_clone_process rf junk c p s m = Some (r, s', m') \<Longrightarrow> kinv s \<Longrightarrow> kinv s'"
proof -
  assume run: "fork_clone_process rf junk c p s m = Some (r, s', m')" and s: "kinv s"
  have "wp (fork_clone_process rf junk c p s m) (\<lambda>y. kinv (fst (snd y)))"
    unfolding fork_clone_process_def using s
    by - (rule wp_rules | simp (no_asm) only: kplain fst_conv snd_conv prod.case | rule wp_call3 | rule wp_call2 | assumption | elim kpres
        | (erule clone_pid_kinv [rotated 3], assumption))+
  from wpD [OF this run] show ?thesis by simp
qed

lemma put_zero_kinv: "kinv s \<Longrightarrow> kinv (put_proc p zero_proc s)"
  using kinv_put [of s zero_proc p] by (simp add: put_proc_def zero_proc_def)

lemma fork_kinv [kpres]: "fork le env rf junk s m = Some (r, s', m') \<Longrightarrow> kinv s \<Longrightarrow> kinv s'"
proof -
  assume run: "fork le env rf junk s m = Some (r, s', m')" and s: "kinv s"
  have "wp (fork le env rf junk s m) (\<lambda>y. kinv (fst (snd y)))"
    unfolding fork_def using s
    by - (rule wp_rules | simp (no_asm) only: kplain fst_conv snd_conv prod.case | assumption | elim kpres | rule put_zero_kinv)+
  from wpD [OF this run] show ?thesis by simp
qed

lemma replaced_kinv [kpres]: "upd_proc p (replaced_proc X) s = Some s' \<Longrightarrow> kinv s \<Longrightarrow> kinv s'"
  by (erule kinv_upd_proc) (simp_all add: replaced_proc_def)

lemma user_stack_kinv [kpres]: "arch_setup_user_stack t a b c s m = Some (s', m') \<Longrightarrow> kinv s \<Longrightarrow> kinv s'"
  by (auto simp: arch_setup_user_stack_def bind_eq_Some_conv Let_def; elim kpres; simp)

lemma image_kinv [kpres]: "exec_replace_process_image env ef A X s m = Some (s', m') \<Longrightarrow> kinv s \<Longrightarrow> kinv s'"
proof -
  assume run: "exec_replace_process_image env ef A X s m = Some (s', m')" and s: "kinv s"
  have "wp (exec_replace_process_image env ef A X s m) (\<lambda>y. kinv (fst y))"
    unfolding exec_replace_process_image_def using s
    by - (rule wp_rules | simp (no_asm) only: kplain fst_conv snd_conv prod.case | assumption | elim kpres)+
  from wpD [OF this run] show ?thesis by simp
qed

lemma put_mmap_kinv [simp]: "kinv (put_mmap as Es s) = kinv s"
  by (induction as Es s rule: put_mmap.induct) simp_all

lemma wp_option:
  "(l = None \<Longrightarrow> wp x (\<lambda>z. wp (f z) Q)) \<Longrightarrow> (\<And>e. l = Some e \<Longrightarrow> wp (y e) (\<lambda>z. wp (f z) Q)) \<Longrightarrow>
   wp ((case l of None \<Rightarrow> x | Some e \<Rightarrow> y e) \<bind> f) Q"
  by (cases l) (auto simp: wp_def bind_eq_Some_conv)

lemma state_parts:
  "xs_k (x\<lparr>xs_fs := w\<rparr>) = xs_k x" "xs_k (x\<lparr>xs_k := k\<rparr>) = k" "xs_k (x\<lparr>xs_m := m\<rparr>) = xs_k x" "xs_k (x\<lparr>xs_k := k, xs_m := m\<rparr>) = k"
  "sys_k (y\<lparr>sys_fs := w\<rparr>) = sys_k y" "sys_k (y\<lparr>sys_k := k\<rparr>) = k" "sys_k (y\<lparr>sys_fs := w, sys_k := k\<rparr>) = k"
  by simp_all

lemma put_mmap_case [simp]: "kinv (case l of None \<Rightarrow> s | Some e \<Rightarrow> put_mmap as (el_mmap e) s) = kinv s"
  by (simp split: option.splits)

lemma execve_kinv: "execve V env ef A junk ed fn a0 argv envp x = Some (r, x') \<Longrightarrow> kinv (xs_k x) \<Longrightarrow> kinv (xs_k x')"
proof -
  assume run: "execve V env ef A junk ed fn a0 argv envp x = Some (r, x')" and x: "kinv (xs_k x)"
  have "wp (execve V env ef A junk ed fn a0 argv envp x) (\<lambda>y. kinv (xs_k (snd y)))"
    unfolding execve_def using x
    by - (rule wp_option | rule wp_rules | simp (no_asm) only: kplain fst_conv snd_conv prod.case state_parts put_mmap_case
        | rule wp_call3 | assumption | elim kpres)+
  from wpD [OF this run] show ?thesis by simp
qed

section \<open>Descriptors\<close>

lemma process_of_found: "process_of t s = Some (p, P) \<Longrightarrow> ks_procs (sys_k s) p = Some P"
  by (auto simp: process_of_def bind_eq_Some_conv)

lemma put_files_kinv:
  assumes "process_of t s = Some (p, P)" "kinv (sys_k s)"
  shows "kinv ((sys_k s)\<lparr>ks_procs := (ks_procs (sys_k s))(p \<mapsto> P\<lparr>pr_open_files := (pr_open_files P)[i := a]\<rparr>)\<rparr>)"
    and "kinv ((sys_k s)\<lparr>ks_procs := (ks_procs (sys_k s))(p \<mapsto> P\<lparr>pr_file_position := (pr_file_position P)[i := b]\<rparr>)\<rparr>)"
  using process_of_found [OF assms(1)] assms(2) by (auto intro!: kinv_put)

lemma free_hand_k [simp]: "sys_k (free_hand h s) = sys_k s"
  by (simp add: free_hand_def)

lemma with_desc_kinv: "with_desc d g s = Some (r, s') \<Longrightarrow> sys_k s' = sys_k s"
  by (auto simp: with_desc_def bind_eq_Some_conv case_prod_beta split: if_splits)

lemma plain_files_kinv:
  "proc_fs_read V d off sz s = Some (n, bs, s') \<Longrightarrow> sys_k s' = sys_k s"
  "proc_fs_write V d off sz b s = Some (n, s') \<Longrightarrow> sys_k s' = sys_k s"
  "proc_fs_mkdir V d nm pm s = Some (r, s') \<Longrightarrow> sys_k s' = sys_k s"
  "proc_fs_create V d nm pm s = Some (r, s') \<Longrightarrow> sys_k s' = sys_k s"
  "proc_fs_ioctl V d q ag s = Some (r, s') \<Longrightarrow> sys_k s' = sys_k s"
  by (auto simp: proc_fs_read_def proc_fs_write_def proc_fs_mkdir_def proc_fs_create_def proc_fs_ioctl_def bind_eq_Some_conv case_prod_beta
      split: if_splits dest: with_desc_kinv)

lemma open_kinv: "proc_fs_open V nm fl s = Some (r, s') \<Longrightarrow> kinv (sys_k s) \<Longrightarrow> kinv (sys_k s')"
  by (auto simp: proc_fs_open_def bind_eq_Some_conv Let_def case_prod_beta split: if_splits; (elim kpres | simp)+)

lemma close_kinv: "proc_fs_close V d s = Some (r, s') \<Longrightarrow> kinv (sys_k s) \<Longrightarrow> kinv (sys_k s')"
  by (auto simp: proc_fs_close_def bind_eq_Some_conv Let_def case_prod_beta put_files_kinv split: if_splits)

lemma read_blk_loop_kinv:
  assumes "\<And>i x. kinv (sys_k x) \<Longrightarrow> kinv (sys_k (env i x))" "read_blk_loop V env i f off sz n got s = Some (c, bs, s')" "kinv (sys_k s)"
  shows "kinv (sys_k s')"
proof -
  have "env = env \<longrightarrow> kinv (sys_k s) \<longrightarrow> kinv (sys_k (snd (snd (c, bs, s'))))"
    by (rule read_blk_loop.raw_induct [where P = "\<lambda>V e i f off sz n got x y. e = env \<longrightarrow> kinv (sys_k x) \<longrightarrow> kinv (sys_k (snd (snd y)))", OF _ assms(2)])
      (use assms(1) in \<open>fastforce simp: bind_eq_Some_conv case_prod_beta Let_def split: if_splits\<close>)
  with assms(3) show ?thesis by simp
qed

lemma read_blk_kinv:
  assumes "\<And>i x. kinv (sys_k x) \<Longrightarrow> kinv (sys_k (env i x))" and run: "proc_fs_read_blk V env d off sz s = Some (n, bs, s')" and s: "kinv (sys_k s)"
  shows "kinv (sys_k s')"
proof -
  have loop: "read_blk_loop V env i f off sz n got s = Some (c, bs, s') \<Longrightarrow> kinv (sys_k s')" for i f off sz n got c bs s'
    using read_blk_loop_kinv assms(1) s by blast
  have "wp (proc_fs_read_blk V env d off sz s) (\<lambda>y. kinv (sys_k (snd (snd y))))"
    unfolding proc_fs_read_blk_def using s
    by - (rule wp_rules | assumption | simp (no_asm) only: snd_conv state_parts | erule (1) put_files_kinv | rule wp_call3 | erule loop)+
  from wpD [OF this run] show ?thesis by simp
qed

section \<open>The kernel as a state machine\<close>

text \<open>
  One step for every operation on processes and threads, at any time and with any arguments. The
  operations that wait (\<open>cond_wait\<close>, \<open>wait\<close>, a blocking read) let the others run.
\<close>

inductive kstep :: "kstate \<Rightarrow> kstate \<Rightarrow> bool" where
  sched_init: "sched_init n s = Some (r, s') \<Longrightarrow> kstep s s'"
| init_multitasking: "init_multitasking le env e idle idle_nm ps nm s = Some s' \<Longrightarrow> kstep s s'"
| add_task: "add_task le env e ps nm sz pri domn tb s = Some (r, s') \<Longrightarrow> kstep s s'"
| proc_create: "proc_create nm domn tb s = (p, s') \<Longrightarrow> kstep s s'"
| proc_add_child: "proc_add_child p c s = Some (r, s') \<Longrightarrow> kstep s s'"
| proc_destroy: "proc_destroy env p s = Some (r, s') \<Longrightarrow> kstep s s'"
| thread_create: "thread_create e d nm sz pri s = Some (t, s') \<Longrightarrow> kstep s s'"
| thread_spawn: "thread_spawn env e ep d nm sz pri s = Some (r, s') \<Longrightarrow> kstep s s'"
| thread_destroy: "thread_destroy env t s = Some (r, s') \<Longrightarrow> kstep s s'"
| sched_enqueue: "sched_enqueue_thread env t s = Some (r, s') \<Longrightarrow> kstep s s'"
| sched_processes: "sched_processes s = Some s' \<Longrightarrow> kstep s s'"
| sched_next_process: "sched_next_process cpu s = Some (t, s') \<Longrightarrow> kstep s s'"
| cond_wait: "\<forall>x y. sched x = Some y \<longrightarrow> kstep\<^sup>*\<^sup>* x y \<Longrightarrow> cond_wait le sched c s = Some (r, s') \<Longrightarrow> kstep s s'"
| cond_signal: "cond_signal le c s = Some (r, s') \<Longrightarrow> kstep s s'"
| exit: "exit le code s = Some s' \<Longrightarrow> kstep s s'"
| wait: "\<forall>x y. sched x = Some y \<longrightarrow> kstep\<^sup>*\<^sup>* x y \<Longrightarrow> wait env le sched s = Some (r, s') \<Longrightarrow> kstep s s'"
| fork: "fork le env rf junk s m = Some (r, s', m') \<Longrightarrow> kstep s s'"
| execve: "execve V env ef A jk ed fn a0 argv envp x = Some (r', x') \<Longrightarrow> kstep (xs_k x) (xs_k x')"
| mmap: "mmap a l pt fl off s = Some (w, s') \<Longrightarrow> kstep s s'"
| proc_add_mmap_ent: "proc_add_mmap_ent p v ph l s = Some (r, s') \<Longrightarrow> kstep s s'"
| mm_proc_mmap_add: "mm_proc_mmap_add p ph v l s = Some (r, s') \<Longrightarrow> kstep s s'"
| mm_proc_mmap_remove_virt: "mm_proc_mmap_remove_virt p v s = Some (r, s') \<Longrightarrow> kstep s s'"
| mm_proc_mmap_remove_phys: "mm_proc_mmap_remove_phys p ph s = Some (r, s') \<Longrightarrow> kstep s s'"
| proc_fs_open: "proc_fs_open V nm fl f = Some (r, f') \<Longrightarrow> kstep (sys_k f) (sys_k f')"
| proc_fs_close: "proc_fs_close V desc f = Some (r, f') \<Longrightarrow> kstep (sys_k f) (sys_k f')"
| proc_fs_read: "proc_fs_read V desc off sz f = Some (n', bs, f') \<Longrightarrow> kstep (sys_k f) (sys_k f')"
| proc_fs_read_blk:
    "\<forall>i x. kstep\<^sup>*\<^sup>* (sys_k x) (sys_k (run i x)) \<Longrightarrow> proc_fs_read_blk V run desc off sz f = Some (n', bs, f') \<Longrightarrow> kstep (sys_k f) (sys_k f')"
| proc_fs_write: "proc_fs_write V desc off sz b f = Some (n', f') \<Longrightarrow> kstep (sys_k f) (sys_k f')"
| proc_fs_mkdir: "proc_fs_mkdir V desc nm pm f = Some (r, f') \<Longrightarrow> kstep (sys_k f) (sys_k f')"
| proc_fs_create: "proc_fs_create V desc nm pm f = Some (r, f') \<Longrightarrow> kstep (sys_k f) (sys_k f')"
| proc_fs_ioctl: "proc_fs_ioctl V desc q ag f = Some (r, f') \<Longrightarrow> kstep (sys_k f) (sys_k f')"

lemma add_ment_kinv [kpres]: "proc_add_mmap_ent p v ph l s = Some (r, s') \<Longrightarrow> kinv s \<Longrightarrow> kinv s'"
  by (auto simp: proc_add_mmap_ent_def bind_eq_Some_conv Let_def case_prod_beta split: if_splits; (elim kpres | simp)+)

lemma remove_loop_kinv [kpres]: "mmap_remove_loop mt p e b s = Some (r, s') \<Longrightarrow> kinv s \<Longrightarrow> kinv s'"
proof -
  assume run: "mmap_remove_loop mt p e b s = Some (r, s')" and s: "kinv s"
  have "kinv s \<longrightarrow> kinv (snd (r, s'))"
    by (rule mmap_remove_loop.raw_induct [where P = "\<lambda>mt p e b x y. kinv x \<longrightarrow> kinv (snd y)", OF _ run])
      (auto simp: bind_eq_Some_conv split: if_splits; elim kpres; simp)
  with s show ?thesis by simp
qed

lemma mmap_remove_kinv [kpres]:
  "mm_proc_mmap_remove_virt p v s = Some (r, s') \<Longrightarrow> kinv s \<Longrightarrow> kinv s'"
  "mm_proc_mmap_remove_phys p w s = Some (r, s') \<Longrightarrow> kinv s \<Longrightarrow> kinv s'"
  by (auto simp: mm_proc_mmap_remove_virt_def mm_proc_mmap_remove_phys_def bind_eq_Some_conv elim: kpres)

lemma sched_init_kinv [kpres]: "sched_init n s = Some (r, s') \<Longrightarrow> kinv s \<Longrightarrow> kinv s'"
  by (auto simp: sched_init_def Let_def case_prod_beta split: if_splits)

lemma idle_threads_kinv [kpres]: "idle_threads e idle nm p cpus s = Some s' \<Longrightarrow> kinv s \<Longrightarrow> kinv s'"
proof (induction cpus arbitrary: s s')
  case (Cons cpu cpus)
  have "wp (idle_threads e idle nm p (cpu # cpus) s) kinv"
    unfolding idle_threads.simps using Cons.prems(2)
    by - (rule wp_rules | rule wp_call | assumption | elim kpres Cons.IH | simp (no_asm) only: kplain)+
  from wpD [OF this Cons.prems(1)] show ?case .
qed simp

lemma multitasking_kinv [kpres]: "init_multitasking le env e idle inm ps nm s = Some s' \<Longrightarrow> kinv s \<Longrightarrow> kinv s'"
proof -
  assume run: "init_multitasking le env e idle inm ps nm s = Some s'" and s: "kinv s"
  have idle: "sched_idle_init e idle inm x = Some y \<Longrightarrow> kinv x \<Longrightarrow> kinv y" for x y
    unfolding sched_idle_init_def by (erule wpD [rotated]) (rule wp_rules | assumption | elim kpres | simp (no_asm) only: kplain)+
  have "wp (init_multitasking le env e idle inm ps nm s) kinv"
    unfolding init_multitasking_def using s
    by - (rule wp_rules | assumption | elim kpres idle | simp (no_asm) only: kplain)+
  from wpD [OF this run] show ?thesis .
qed

lemma rtranclp_keeps: "(\<lambda>x y. R x y \<and> (J x \<longrightarrow> J y))\<^sup>*\<^sup>* x y \<Longrightarrow> J x \<Longrightarrow> J y"
  by (induction rule: rtranclp_induct) auto

lemma kstep_kinv: "kstep s s' \<Longrightarrow> kinv s \<Longrightarrow> kinv s'"
proof (induction rule: kstep.induct)
  case (cond_wait sched le c s r s')
  then show ?case by (intro cond_wait_kinv [OF _ cond_wait(2)]) (blast intro: rtranclp_keeps)+
next
  case (wait sched env le s r s')
  then show ?case by (intro wait_kinv [OF _ wait(2)]) (blast intro: rtranclp_keeps)+
next
  case (proc_fs_read_blk run V desc off sz f n bs f')
  then show ?case by (intro read_blk_kinv [OF _ proc_fs_read_blk(2)]) (blast intro: rtranclp_keeps)+
qed (auto elim: kpres execve_kinv open_kinv close_kinv dest: plain_files_kinv)

text \<open>A step relation with an invariant, and the kernel as one.\<close>

locale invariant_system =
  fixes step :: "'s \<Rightarrow> 's \<Rightarrow> bool" and inv :: "'s \<Rightarrow> bool"
  assumes kept: "step s s' \<Longrightarrow> inv s \<Longrightarrow> inv s'"
begin

lemma reachable: "step\<^sup>*\<^sup>* s s' \<Longrightarrow> inv s \<Longrightarrow> inv s'"
  by (induction rule: rtranclp_induct) (auto intro: kept)

end

interpretation kernel: invariant_system kstep kinv
  by unfold_locales (rule kstep_kinv)

text \<open>Before \<open>init_multitasking\<close> there are no processes, and \<open>next_pid\<close> is 1.\<close>

lemma start_kinv: "ks_procs s = Map.empty \<Longrightarrow> ks_next_pid s = 1 \<Longrightarrow> kinv s"
  by (simp add: kinv_def pids_ok_def)

section \<open>Reachable process tables\<close>

definition ex_boot :: kstate where
  "ex_boot = ex_state\<lparr>ks_procs := Map.empty, ks_next_pid := 1, ks_new := [0x1000, 0x2000]\<rparr>"

definition ex_one :: kstate where
  "ex_one = snd (proc_create ''init'' 0 5 ex_boot)"

definition ex_two :: kstate where
  "ex_two = snd (proc_create ''lshell'' 0 5 ex_one)"

lemma ex_run: "kstep\<^sup>*\<^sup>* ex_boot ex_one" "kstep\<^sup>*\<^sup>* ex_boot ex_two"
proof -
  show one: "kstep\<^sup>*\<^sup>* ex_boot ex_one"
    unfolding ex_one_def by (rule r_into_rtranclp, rule kstep.proc_create) (rule prod.collapse [symmetric])
  have "kstep ex_one ex_two"
    unfolding ex_two_def by (rule kstep.proc_create) (rule prod.collapse [symmetric])
  with one show "kstep\<^sup>*\<^sup>* ex_boot ex_two" by simp
qed

lemma ex_procs:
  "ks_procs ex_boot = Map.empty" "ks_next_pid ex_boot = 1"
  "\<exists>P. ks_procs ex_two 0x1000 = Some P \<and> pr_name P = ''init'' \<and> pr_pid P = 1"
  "\<exists>P. ks_procs ex_two 0x2000 = Some P \<and> pr_name P = ''lshell'' \<and> pr_pid P = 2" "ks_next_pid ex_two \<le> 2 ^ 31"
  by (simp_all add: signed32_def ex_boot_def ex_one_def ex_two_def proc_create_def kmalloc_next_def get_next_pid_def put_proc_def)

text \<open>
  C5 (a process identifier is given once). In every state that the operations of the kernel reach from its start, as
  long as fewer than \<open>2 ^ 31\<close> identifiers have been given (to processes and threads together, so that the 32-bit
  \<open>next_pid\<close> has not overflowed), two processes with an identifier have different ones, and all are positive
  and below the next one to be given: \<open>fork\<close>, \<open>add_task\<close> and \<open>proc_create\<close> never give out the identifier of a
  process that exists, and \<open>execve\<close> keeps it. The structure \<open>fork\<close> has just cleared has the identifier 0.
\<close>

theorem process_ids_unique:
  assumes "ks_procs s = Map.empty" "ks_next_pid s = 1" "kstep\<^sup>*\<^sup>* s s'" "ks_next_pid s' \<le> 2 ^ 31"
    and "ks_procs s' p = Some P" "ks_procs s' q = Some Q" "p \<noteq> q" "pr_pid P \<noteq> 0"
  shows "pr_pid P \<noteq> pr_pid Q \<and> 0 < pr_pid P \<and> pr_pid P < ks_next_pid s'"
  using kernel.reachable [OF assms(3) start_kinv [OF assms(1,2)]] assms(4-8) unfolding kinv_def pids_ok_def
  by (metis order_le_less)

theorem process_ids_unique_witness:
  "\<exists>P Q. ks_procs ex_two 0x1000 = Some P \<and> ks_procs ex_two 0x2000 = Some Q \<and> pr_pid P \<noteq> pr_pid Q \<and> pr_pid P < ks_next_pid ex_two"
proof -
  obtain P Q where P: "ks_procs ex_two 0x1000 = Some P" "pr_pid P = 1" and Q: "ks_procs ex_two 0x2000 = Some Q"
    using ex_procs(3,4) by blast
  with process_ids_unique [OF ex_procs(1,2) ex_run(2) ex_procs(5) P(1) Q] show ?thesis by simp
qed

end
