(* ===== verification/Vga.thy ===== *)
theory Vga
  imports Lambda_Prelude
begin

text \<open>
  The text console of \<open>kernel/arch/x86/src/dev/vga/print.c\<close>: the cursor, the colours, the escape sequences and
  the video memory of 80 by 25 cells of two bytes. A store outside of the video memory or of one of the
  buffers is \<open>None\<close>.
\<close>

unbundle bit_operations_syntax

section \<open>State\<close>

record vga =
  vg_bkgc :: u8
  vg_forc :: u8
  vg_xpos :: int
  vg_ypos :: int
  vg_vidmem :: "u8 list"
  vg_buff :: "u8 list"
  vg_is_esc :: int
  vg_buff_loc :: nat

abbreviation (input) xres :: int where "xres \<equiv> 80"
abbreviation (input) yres :: int where "yres \<equiv> 25"

text \<open>A store through \<open>vidmem\<close>.\<close>

definition vid_put :: "int \<Rightarrow> u8 \<Rightarrow> vga \<Rightarrow> vga option" where
  "vid_put i b v = (if 0 \<le> i \<and> nat i < length (vg_vidmem v) then Some (v\<lparr>vg_vidmem := (vg_vidmem v)[nat i := b]\<rparr>) else None)"

section \<open>Clearing and scrolling\<close>

function clear_loop :: "nat \<Rightarrow> nat \<Rightarrow> u8 list \<Rightarrow> u8 list" where
  "clear_loop i n mem = (if i < n then clear_loop (i + 1) n (mem[i := 0]) else mem)"
  by pat_completeness auto
termination by (relation "measure (\<lambda>(i, n, mem). n - i)") auto

function scroll_loop :: "nat \<Rightarrow> nat \<Rightarrow> nat \<Rightarrow> u8 list \<Rightarrow> u8 list" where
  "scroll_loop i n d mem = (if i < n then scroll_loop (i + 1) n d (mem[i := mem ! (i + d)]) else mem)"
  by pat_completeness auto
termination by (relation "measure (\<lambda>(i, n, d, mem). n - i)") auto

declare clear_loop.simps [simp del] scroll_loop.simps [simp del]

definition vga_clear :: "vga \<Rightarrow> vga" where
  "vga_clear v = v\<lparr>vg_vidmem := clear_loop 0 (nat (xres * yres * 2)) (vg_vidmem v)\<rparr>"

definition scrollup :: "vga \<Rightarrow> vga" where
  "scrollup v = v\<lparr>vg_vidmem :=
     clear_loop (nat (xres * (yres - 1) * 2)) (nat (xres * yres * 2)) (scroll_loop 0 (nat (xres * (yres - 1) * 2)) (nat (xres * 2)) (vg_vidmem v))\<rparr>"

section \<open>Escape sequences\<close>

definition is_ansi :: "u8 \<Rightarrow> bool" where
  "is_ansi x \<longleftrightarrow> x \<in> {0x41, 0x42, 0x43, 0x44, 0x73, 0x75, 0x48, 0x4A, 0x4B, 0x6D}"

text \<open>
  The digits at the start of \<open>str\<close>, in an \<open>int\<close> that wraps around; \<open>None\<close> when they do not end within the buffer.
\<close>

fun vga_get_dec :: "u8 list \<Rightarrow> u32 \<Rightarrow> int option" where
  "vga_get_dec [] n = None"
| "vga_get_dec (c # cs) n = (if 0x30 \<le> c \<and> c \<le> 0x39 then vga_get_dec cs (n * 10 + ucast (c - 0x30)) else Some (sint n))"

definition ansi_to_vga :: "u8 list" where
  "ansi_to_vga = [0, 4, 2, 6, 1, 5, 3, 7, 8, 12, 10, 14, 9, 13, 11, 15]"

text \<open>The \<open>switch\<close> of \<open>m_escape\<close>.\<close>

definition set_colours :: "int \<Rightarrow> vga \<Rightarrow> vga" where
  "set_colours n v =
    (if n = 0 \<or> n = 22 then v\<lparr>vg_bkgc := 0, vg_forc := 7\<rparr>
    else if n = 1 then v\<lparr>vg_forc := vg_forc v OR 8\<rparr>
    else if n = 2 \<or> n = 21 then v\<lparr>vg_forc := vg_forc v AND NOT 8\<rparr>
    else if n = 7 \<or> n = 27 then v\<lparr>vg_forc := vg_bkgc v, vg_bkgc := vg_forc v\<rparr>
    else if n \<in> {3, 4, 5, 6, 8, 9, 20, 23, 24, 25, 26, 28, 29} then v
    else if n = 39 then v\<lparr>vg_forc := 7\<rparr>
    else if n = 49 then v\<lparr>vg_bkgc := 0\<rparr>
    else if 30 \<le> n \<and> n \<le> 37 then v\<lparr>vg_forc := ansi_to_vga ! nat (n - 30)\<rparr>
    else if 40 \<le> n \<and> n \<le> 47 then v\<lparr>vg_bkgc := ansi_to_vga ! nat (n - 40)\<rparr>
    else if 90 \<le> n \<and> n \<le> 97 then v\<lparr>vg_forc := ansi_to_vga ! nat (n - 90 + 8)\<rparr>
    else if 100 \<le> n \<and> n \<le> 107 then v\<lparr>vg_bkgc := ansi_to_vga ! nat (n - 100 + 8)\<rparr>
    else v)"

definition m_escape :: "vga \<Rightarrow> vga option" where
  "m_escape v = do { n \<leftarrow> vga_get_dec (vg_buff v) 0; Some (set_colours n v) }"

definition ansi_escape :: "vga \<Rightarrow> vga option" where
  "ansi_escape v =
     (let v = v\<lparr>vg_is_esc := 2\<rparr> in
      if vg_buff v ! (vg_buff_loc v - 1) = 0x6D then m_escape v else Some v)"

section \<open>Characters\<close>

text \<open>The checks after the \<open>switch\<close>: the end of a line and of the screen.\<close>

definition vga_wrap :: "vga \<Rightarrow> vga" where
  "vga_wrap v =
     (let v = (if xres \<le> vg_xpos v then v\<lparr>vg_xpos := 0, vg_ypos := vg_ypos v + 1\<rparr> else v) in
      if yres \<le> vg_ypos v then scrollup (v\<lparr>vg_ypos := yres - 1\<rparr>) else v)"

text \<open>The \<open>switch\<close>. A tab sets the column with \<open>(xpos + 8) & ~8\<close>.\<close>

definition vga_char :: "u8 \<Rightarrow> vga \<Rightarrow> vga option" where
  "vga_char c v =
     (if c = 0 then Some v
      else if c = 0x09 then Some (vga_wrap (v\<lparr>vg_xpos := (vg_xpos v + 8) AND NOT 8\<rparr>))
      else if c = 0x0A then Some (vga_wrap (v\<lparr>vg_xpos := 0, vg_ypos := vg_ypos v + 1\<rparr>))
      else if c = 0x1B then Some (v\<lparr>vg_is_esc := 3, vg_buff_loc := 0\<rparr>)
      else do {
        v \<leftarrow> vid_put ((vg_xpos v + vg_ypos v * xres) * 2) c v;
        v \<leftarrow> vid_put ((vg_xpos v + vg_ypos v * xres) * 2 + 1) (push_bit 4 (vg_bkgc v) OR vg_forc v) v;
        Some (vga_wrap (v\<lparr>vg_xpos := vg_xpos v + 1\<rparr>))
      })"

text \<open>\<open>buff[buff_loc++] = c\<close>.\<close>

definition buff_put :: "u8 \<Rightarrow> vga \<Rightarrow> vga option" where
  "buff_put c v =
     (if vg_buff_loc v < length (vg_buff v)
      then Some (v\<lparr>vg_buff := (vg_buff v)[vg_buff_loc v := c], vg_buff_loc := vg_buff_loc v + 1\<rparr>) else None)"

definition vga_put :: "u8 \<Rightarrow> vga \<Rightarrow> vga option" where
  "vga_put c v =
     (if vg_is_esc v \<noteq> 0 then
        if vg_is_esc v = 3 then
          if c = 0x5B then Some (v\<lparr>vg_is_esc := 1\<rparr>) else vga_char c (v\<lparr>vg_is_esc := 0\<rparr>)
        else do {
          v \<leftarrow> buff_put c v;
          if vg_is_esc v = 2 then vga_char c v
          else if is_ansi c then ansi_escape v
          else Some v
        }
      else vga_char c v)"

text \<open>A string ends at its first NUL; the list has the bytes up to there.\<close>

fun vga_print :: "u8 list \<Rightarrow> vga \<Rightarrow> vga option" where
  "vga_print [] v = Some v"
| "vga_print (c # cs) v = do { v \<leftarrow> vga_put c v; vga_print cs v }"

section \<open>Numbers\<close>

definition nums :: "u8 list" where
  "nums = map (of_char :: char \<Rightarrow> u8) ''0123456789ABCDEF''"

text \<open>
  \<open>ans\<close> as far as it is filled, the first digit last. \<open>None\<close> is a store outside of its 16 bytes or a read
  outside of \<open>nums\<close>.
\<close>

function digits_loop :: "u32 \<Rightarrow> u32 \<Rightarrow> u8 list \<Rightarrow> u8 list option" where
  "digits_loop n base ans =
     (if n = 0 then Some ans
      else if 16 \<le> length ans \<or> length nums \<le> unat (n mod base) then None
      else digits_loop (n div base) base (ans @ [nums ! unat (n mod base)]))"
  by pat_completeness auto
termination by (relation "measure (\<lambda>(n, base, ans). 16 - length ans)") auto

declare digits_loop.simps [simp del]

definition vga_printnum :: "u32 \<Rightarrow> u32 \<Rightarrow> vga \<Rightarrow> vga option" where
  "vga_printnum n base v =
     (if base = 0 then Some v
      else do {
        ans \<leftarrow> digits_loop n base [];
        vga_print (rev (if ans = [] then [0x30] else ans)) v
      })"

end
