(* ===== verification/Vga_Sound.thy ===== *)
theory Vga_Sound
  imports Vga
begin

text \<open>
  The console shows what is printed: \<open>vga_put\<close> implements a terminal that is a grid of cells, scrolls by a
  row and has its cursor always on the grid.
\<close>

unbundle bit_operations_syntax

section \<open>The terminal\<close>

type_synonym cell = "u8 \<times> u8"
type_synonym terminal = "cell list list \<times> nat \<times> nat"

definition term_wrap :: "terminal \<Rightarrow> terminal" where
  "term_wrap = (\<lambda>(rows, x, y).
     let (x, y) = (if 80 \<le> x then (0, y + 1) else (x, y)) in
     if 25 \<le> y then (List.tl rows @ [replicate 80 (0, 0)], x, 24) else (rows, x, y))"

text \<open>The next column of a tab: it moves only when the bit of 8 is set in the column.\<close>

definition tab_stop :: "nat \<Rightarrow> nat" where
  "tab_stop x = (if odd (x div 8) then x + 8 else x)"

definition term_put :: "u8 \<Rightarrow> u8 \<Rightarrow> terminal \<Rightarrow> terminal" where
  "term_put attr c = (\<lambda>(rows, x, y).
     if c = 0 \<or> c = 0x1B then (rows, x, y)
     else if c = 0x09 then term_wrap (rows, tab_stop x, y)
     else if c = 0x0A then term_wrap (rows, 0, y + 1)
     else term_wrap (rows[y := (rows ! y)[x := (c, attr)]], x + 1, y))"

text \<open>What the video memory shows.\<close>

definition cell_index :: "nat \<Rightarrow> nat \<Rightarrow> nat" where
  "cell_index x y = (x + y * 80) * 2"

definition cell_at :: "u8 list \<Rightarrow> nat \<Rightarrow> nat \<Rightarrow> cell" where
  "cell_at mem y x = (mem ! cell_index x y, mem ! (cell_index x y + 1))"

definition grid :: "u8 list \<Rightarrow> cell list list" where
  "grid mem = map (\<lambda>y. map (cell_at mem y) [0..<80]) [0..<25]"

definition terminal_of :: "vga \<Rightarrow> terminal" where
  "terminal_of v = (grid (vg_vidmem v), nat (vg_xpos v), nat (vg_ypos v))"

definition attribute :: "vga \<Rightarrow> u8" where
  "attribute v = push_bit 4 (vg_bkgc v) OR vg_forc v"

definition vga_ok :: "vga \<Rightarrow> bool" where
  "vga_ok v \<longleftrightarrow> length (vg_vidmem v) = 4000 \<and> length (vg_buff v) = 256 \<and> 0 \<le> vg_xpos v \<and> vg_xpos v < 80 \<and> 0 \<le> vg_ypos v \<and> vg_ypos v < 25 \<and>
     vg_is_esc v \<in> {0, 1, 2, 3} \<and> vg_buff_loc v \<le> 256"

section \<open>The loops\<close>

lemma clear_loop_length [simp]: "length (clear_loop i n mem) = length mem"
  by (induction i n mem rule: clear_loop.induct) (subst clear_loop.simps, simp)

lemma clear_loop_nth: "k < length mem \<Longrightarrow> clear_loop i n mem ! k = (if i \<le> k \<and> k < n then 0 else mem ! k)"
proof (induction i n mem rule: clear_loop.induct)
  case (1 i n mem)
  show ?case
  proof (cases "i < n")
    case True
    with 1 show ?thesis by (subst clear_loop.simps) (auto simp: nth_list_update)
  qed (use clear_loop.simps [of i n mem] in auto)
qed

lemma scroll_loop_length [simp]: "length (scroll_loop i n d mem) = length mem"
  by (induction i n d mem rule: scroll_loop.induct) (subst scroll_loop.simps, simp)

lemma scroll_loop_nth: "k < length mem \<Longrightarrow> n + d \<le> length mem \<Longrightarrow> 0 < d \<Longrightarrow> scroll_loop i n d mem ! k = (if i \<le> k \<and> k < n then mem ! (k + d) else mem ! k)"
proof (induction i n d mem rule: scroll_loop.induct)
  case (1 i n d mem)
  show ?case
  proof (cases "i < n")
    case True
    with 1 show ?thesis by (subst scroll_loop.simps) (auto simp: nth_list_update)
  qed (use scroll_loop.simps [of i n d mem] in auto)
qed

section \<open>Cells\<close>

lemma grid_length [simp]: "length (grid mem) = 25"
  by (simp add: grid_def)

lemma grid_row: "y < 25 \<Longrightarrow> grid mem ! y = map (cell_at mem y) [0..<80]"
  by (simp add: grid_def)

lemma cell_index_eq: "x < 80 \<Longrightarrow> x' < 80 \<Longrightarrow> (cell_index x y = cell_index x' y') = (x = x' \<and> y = y')"
proof -
  assume "x < 80" "x' < 80"
  moreover from this have "(x + y * 80) mod 80 = x" "(x' + y' * 80) mod 80 = x'" "(x + y * 80) div 80 = y" "(x' + y' * 80) div 80 = y'" by simp_all
  ultimately show ?thesis unfolding cell_index_def by (metis mult_right_cancel zero_neq_numeral)
qed

lemma cell_index_parity: "cell_index x y \<noteq> Suc (cell_index x' y')"
proof -
  have "even (cell_index x y)" "odd (Suc (cell_index x' y'))" by (simp_all add: cell_index_def)
  then show ?thesis by metis
qed

lemma cell_index_range: "x < 80 \<Longrightarrow> y < 25 \<Longrightarrow> Suc (cell_index x y) < 4000"
  by (simp add: cell_index_def)

lemma cell_put:
  assumes "length mem = 4000" "x < 80" "y < 25" "x' < 80" "y' < 25"
  shows "cell_at (mem[cell_index x y := c, Suc (cell_index x y) := a]) y' x' = (if x' = x \<and> y' = y then (c, a) else cell_at mem y' x')"
  using assms cell_index_range [of x y] cell_index_range [of x' y'] cell_index_parity [of x y x' y'] cell_index_parity [of x' y' x y]
    cell_index_eq [of x x' y y'] unfolding cell_at_def by (auto simp: nth_list_update)

lemma grid_put:
  assumes "length mem = 4000" "x < 80" "y < 25"
  shows "grid (mem[cell_index x y := c, Suc (cell_index x y) := a]) = (grid mem)[y := (grid mem ! y)[x := (c, a)]]"
proof (rule nth_equalityI)
  fix i assume "i < length (grid (mem[cell_index x y := c, Suc (cell_index x y) := a]))"
  then have i: "i < 25" by simp
  show "grid (mem[cell_index x y := c, Suc (cell_index x y) := a]) ! i = (grid mem)[y := (grid mem ! y)[x := (c, a)]] ! i"
  proof (rule nth_equalityI)
    fix j assume "j < length (grid (mem[cell_index x y := c, Suc (cell_index x y) := a]) ! i)"
    then have j: "j < 80" using i by (simp add: grid_row)
    with i assms show "grid (mem[cell_index x y := c, Suc (cell_index x y) := a]) ! i ! j = (grid mem)[y := (grid mem ! y)[x := (c, a)]] ! i ! j"
      by (auto simp: grid_row cell_put nth_list_update)
  qed (use i assms in \<open>auto simp: grid_row nth_list_update\<close>)
qed simp

lemma scroll_cell:
  assumes "length mem = 4000" "x < 80" "y < 25"
  shows "cell_at (clear_loop 3840 4000 (scroll_loop 0 3840 160 mem)) y x = (if y = 24 then (0, 0) else cell_at mem (y + 1) x)"
proof -
  have k: "(y = 24) = (3840 \<le> cell_index x y)" "(y = 24) = (3840 \<le> Suc (cell_index x y))" "cell_index x (y + 1) = cell_index x y + 160"
    using assms by (auto simp: cell_index_def)
  show ?thesis using assms cell_index_range [of x y] k unfolding cell_at_def by (auto simp: clear_loop_nth scroll_loop_nth)
qed

lemma grid_scroll:
  assumes "length mem = 4000"
  shows "grid (clear_loop 3840 4000 (scroll_loop 0 3840 160 mem)) = List.tl (grid mem) @ [replicate 80 (0, 0)]"
proof (rule nth_equalityI)
  fix i assume "i < length (grid (clear_loop 3840 4000 (scroll_loop 0 3840 160 mem)))"
  then have i: "i < 25" by simp
  show "grid (clear_loop 3840 4000 (scroll_loop 0 3840 160 mem)) ! i = (List.tl (grid mem) @ [replicate 80 (0, 0)]) ! i"
    using i by (intro nth_equalityI) (auto simp: grid_row nth_append nth_tl scroll_cell [OF assms])
qed simp

section \<open>Steps\<close>

lemma scrollup_ok: "vga_ok v \<Longrightarrow> vga_ok (scrollup v)"
  by (simp add: vga_ok_def scrollup_def)

lemma vga_wrap_terminal:
  assumes "length (vg_vidmem v) = 4000" "0 \<le> vg_xpos v" "0 \<le> vg_ypos v"
  shows "terminal_of (vga_wrap v) = term_wrap (terminal_of v)"
  using assms by (auto simp: vga_wrap_def term_wrap_def terminal_of_def scrollup_def Let_def grid_scroll nat_add_distrib nat_le_iff le_nat_iff)

lemma vga_wrap_ok:
  assumes "length (vg_vidmem v) = 4000" "length (vg_buff v) = 256" "0 \<le> vg_xpos v" "0 \<le> vg_ypos v" "vg_ypos v < 26" "vg_xpos v < 80 \<or> vg_ypos v < 25"
    "vg_is_esc v \<in> {0, 1, 2, 3}" "vg_buff_loc v \<le> 256"
  shows "vga_ok (vga_wrap v)"
  using assms by (auto simp: vga_wrap_def vga_ok_def scrollup_def Let_def)

lemma tab_column: "0 \<le> x \<Longrightarrow> x < 80 \<Longrightarrow> (x + 8) AND NOT 8 = int (tab_stop (nat x))"
proof -
  assume "0 \<le> x" "x < 80"
  then have "nat x \<in> set [0..<80]" "x = int (nat x)" by auto
  moreover have "\<forall>n \<in> set [0..<80]. (int n + 8) AND NOT 8 = int (tab_stop n)" by code_simp
  ultimately show ?thesis by metis
qed

lemma tab_stop_bound: "x < 80 \<Longrightarrow> tab_stop x < 88"
  by (simp add: tab_stop_def)

lemma vga_char_spec:
  assumes "vga_ok v"
  shows "\<exists>v'. vga_char c v = Some v' \<and> vga_ok v' \<and> terminal_of v' = term_put (attribute v) c (terminal_of v)"
proof -
  obtain x y where xy: "vg_xpos v = int x" "vg_ypos v = int y" "x < 80" "y < 25" "length (vg_vidmem v) = 4000" "length (vg_buff v) = 256"
      "vg_is_esc v \<in> {0, 1, 2, 3}" "vg_buff_loc v \<le> 256"
    using assms unfolding vga_ok_def by (metis int_nat_eq nat_less_iff of_nat_numeral zero_le_imp_eq_int)
  consider "c = 0 \<or> c = 0x1B" | "c = 0x09" | "c = 0x0A" | "c \<notin> {0, 0x1B, 0x09, 0x0A}" by blast
  then show ?thesis
  proof cases
    case 1
    with assms show ?thesis by (auto simp: vga_char_def term_put_def terminal_of_def vga_ok_def)
  next
    case 2
    let ?v = "v\<lparr>vg_xpos := int (tab_stop x)\<rparr>"
    have "vga_ok (vga_wrap ?v)" by (rule vga_wrap_ok) (use xy tab_stop_bound [of x] in auto)
    moreover have "terminal_of (vga_wrap ?v) = term_wrap (terminal_of ?v)" by (rule vga_wrap_terminal) (use xy in auto)
    ultimately show ?thesis using 2 xy tab_column [of "int x"] by (simp add: vga_char_def term_put_def terminal_of_def)
  next
    case 3
    let ?v = "v\<lparr>vg_xpos := 0, vg_ypos := vg_ypos v + 1\<rparr>"
    have "vga_ok (vga_wrap ?v)" by (rule vga_wrap_ok) (use xy in auto)
    moreover have "terminal_of (vga_wrap ?v) = term_wrap (terminal_of ?v)" by (rule vga_wrap_terminal) (use xy in auto)
    ultimately show ?thesis using 3 xy by (simp add: vga_char_def term_put_def terminal_of_def nat_add_distrib)
  next
    case 4
    let ?m = "(vg_vidmem v)[cell_index x y := c, Suc (cell_index x y) := attribute v]"
    let ?v = "v\<lparr>vg_vidmem := ?m, vg_xpos := int x + 1\<rparr>"
    have "vga_ok (vga_wrap ?v)" by (rule vga_wrap_ok) (use xy in auto)
    moreover have "terminal_of (vga_wrap ?v) = term_wrap (terminal_of ?v)" by (rule vga_wrap_terminal) (use xy in auto)
    moreover have "terminal_of ?v = ((grid (vg_vidmem v))[y := (grid (vg_vidmem v) ! y)[x := (c, attribute v)]], x + 1, y)"
      using xy by (simp add: terminal_of_def grid_put nat_add_distrib)
    moreover have "(int x + int y * 80) * 2 = int (cell_index x y)" by (simp add: cell_index_def)
    then have "vga_char c v = Some (vga_wrap ?v)"
      using 4 xy cell_index_range [of x y] by (simp add: vga_char_def vid_put_def attribute_def nat_add_distrib)
    ultimately show ?thesis using 4 xy by (simp add: term_put_def terminal_of_def)
  qed
qed

lemma vga_get_dec_some: "\<exists>b \<in> set cs. \<not> (0x30 \<le> b \<and> b \<le> 0x39) \<Longrightarrow> \<exists>k. vga_get_dec cs n = Some k"
  by (induction cs arbitrary: n) auto

lemma set_colours_only: "\<exists>a b. set_colours n v = v\<lparr>vg_bkgc := a, vg_forc := b\<rparr>"
proof -
  have ifI: "\<exists>a b. w = v\<lparr>vg_bkgc := a, vg_forc := b\<rparr> \<Longrightarrow> \<exists>a b. w' = v\<lparr>vg_bkgc := a, vg_forc := b\<rparr> \<Longrightarrow>
      \<exists>a b. (if c then w else w') = v\<lparr>vg_bkgc := a, vg_forc := b\<rparr>" for c w w' by simp
  have one: "\<exists>a b. v = v\<lparr>vg_bkgc := a, vg_forc := b\<rparr>" "\<exists>a b. v\<lparr>vg_bkgc := x\<rparr> = v\<lparr>vg_bkgc := a, vg_forc := b\<rparr>"
      "\<exists>a b. v\<lparr>vg_forc := x\<rparr> = v\<lparr>vg_bkgc := a, vg_forc := b\<rparr>" "\<exists>a b. v\<lparr>vg_bkgc := x, vg_forc := y\<rparr> = v\<lparr>vg_bkgc := a, vg_forc := b\<rparr>"
      "\<exists>a b. v\<lparr>vg_forc := y, vg_bkgc := x\<rparr> = v\<lparr>vg_bkgc := a, vg_forc := b\<rparr>" for x y
    by (cases v; auto)+
  show ?thesis unfolding set_colours_def by (intro ifI one)
qed

lemma m_escape_spec:
  assumes "vga_ok v" "0x6D \<in> set (vg_buff v)"
  shows "\<exists>v'. m_escape v = Some v' \<and> vga_ok v' \<and> terminal_of v' = terminal_of v \<and> vg_is_esc v' = vg_is_esc v \<and> vg_buff_loc v' = vg_buff_loc v"
proof -
  have "\<not> (0x6D :: u8) \<le> 0x39" by simp
  with vga_get_dec_some [of "vg_buff v" 0] assms(2) obtain k where "vga_get_dec (vg_buff v) 0 = Some k" by blast
  moreover obtain a b where "set_colours k v = v\<lparr>vg_bkgc := a, vg_forc := b\<rparr>" using set_colours_only by blast
  ultimately show ?thesis using assms(1) by (simp add: m_escape_def vga_ok_def terminal_of_def)
qed

lemma buff_put_spec:
  assumes "vga_ok v" "vg_buff_loc v < 256"
  shows "\<exists>v'. buff_put c v = Some v' \<and> vga_ok v' \<and> terminal_of v' = terminal_of v \<and> attribute v' = attribute v \<and> vg_is_esc v' = vg_is_esc v \<and>
    vg_buff_loc v' = vg_buff_loc v + 1 \<and> vg_buff v' ! vg_buff_loc v = c \<and> c \<in> set (vg_buff v')"
  using assms by (auto simp: buff_put_def vga_ok_def terminal_of_def attribute_def set_update_memI)

lemma ansi_escape_spec:
  assumes "vga_ok v" "vg_buff v ! (vg_buff_loc v - 1) = c" "c \<in> set (vg_buff v)"
  shows "\<exists>v'. ansi_escape v = Some v' \<and> vga_ok v' \<and> terminal_of v' = terminal_of v \<and> vg_is_esc v' = 2 \<and> vg_buff_loc v' = vg_buff_loc v"
proof -
  let ?v = "v\<lparr>vg_is_esc := 2\<rparr>"
  have ok: "vga_ok ?v" "terminal_of ?v = terminal_of v" using assms(1) by (auto simp: vga_ok_def terminal_of_def)
  show ?thesis
  proof (cases "c = 0x6D")
    case True
    with m_escape_spec [of ?v] ok assms(2,3) show ?thesis by (auto simp: ansi_escape_def)
  next
    case False
    with ok assms(2) show ?thesis by (simp add: ansi_escape_def)
  qed
qed

section \<open>What is printed\<close>

text \<open>The characters that reach the screen: those outside of a sequence, and those after one.\<close>

definition displayed :: "vga \<Rightarrow> u8 \<Rightarrow> bool" where
  "displayed v c \<longleftrightarrow> vg_is_esc v = 0 \<or> vg_is_esc v = 2 \<or> (vg_is_esc v = 3 \<and> c \<noteq> 0x5B)"

text \<open>
  C37 (the console is a terminal). \<open>vga_put\<close> on a well-formed console with room in its escape buffer returns and
  keeps it well formed: the cursor stays on the screen. A character that is not part of an escape
  sequence changes what the screen shows as on a terminal that is a grid of cells: it is stored at the cursor in the
  current colours, lines wrap, and at the bottom the grid loses its first row and gets an empty last one, so that
  the copying of the video memory is a scroll by one row. Characters of a sequence change nothing there.
\<close>

theorem vga_put_refines:
  assumes "vga_ok v" "vg_is_esc v \<in> {1, 2} \<longrightarrow> vg_buff_loc v < 256"
  shows "\<exists>v'. vga_put c v = Some v' \<and> vga_ok v' \<and>
    terminal_of v' = (if displayed v c then term_put (attribute v) c (terminal_of v) else terminal_of v)"
proof -
  consider "vg_is_esc v = 0" | "vg_is_esc v = 3" | "vg_is_esc v = 1" | "vg_is_esc v = 2" using assms(1) unfolding vga_ok_def by blast
  then show ?thesis
  proof cases
    case 1
    with vga_char_spec [OF assms(1), of c] show ?thesis by (simp add: vga_put_def displayed_def)
  next
    case 2
    have e: "vga_ok (v\<lparr>vg_is_esc := k\<rparr>)" "terminal_of (v\<lparr>vg_is_esc := k\<rparr>) = terminal_of v" "attribute (v\<lparr>vg_is_esc := k\<rparr>) = attribute v" if "k \<in> {0, 1}" for k
      using assms(1) that by (auto simp: vga_ok_def terminal_of_def attribute_def)
    from 2 vga_char_spec [OF e(1), of 0 c] e show ?thesis by (cases "c = 0x5B") (auto simp: vga_put_def displayed_def)
  next
    case 3
    with assms buff_put_spec [OF assms(1), of c] obtain v1 where v1: "buff_put c v = Some v1" "vga_ok v1" "terminal_of v1 = terminal_of v"
        "vg_is_esc v1 = 1" "vg_buff v1 ! (vg_buff_loc v1 - 1) = c" "c \<in> set (vg_buff v1)" by auto
    with 3 ansi_escape_spec [OF v1(2,5,6)] show ?thesis by (auto simp: vga_put_def displayed_def)
  next
    case 4
    with assms buff_put_spec [OF assms(1), of c] obtain v1 where v1: "buff_put c v = Some v1" "vga_ok v1" "terminal_of v1 = terminal_of v"
        "attribute v1 = attribute v" "vg_is_esc v1 = 2" by auto
    with 4 vga_char_spec [OF v1(2), of c] show ?thesis by (auto simp: vga_put_def displayed_def)
  qed
qed

definition ex_vga :: vga where
  "ex_vga = \<lparr>vg_bkgc = 0, vg_forc = 7, vg_xpos = 79, vg_ypos = 24, vg_vidmem = replicate 4000 0, vg_buff = replicate 256 0, vg_is_esc = 0, vg_buff_loc = 0\<rparr>"

theorem vga_put_refines_witness:
  "\<exists>v'. vga_put 0x41 ex_vga = Some v' \<and> vga_ok v' \<and> terminal_of v' = term_put (attribute ex_vga) 0x41 (terminal_of ex_vga)"
  using vga_put_refines [of ex_vga "0x41"] by (simp add: ex_vga_def vga_ok_def displayed_def)

section \<open>After a sequence\<close>

lemma vga_char_keeps: "vga_char c v = Some v' \<Longrightarrow> c \<noteq> 0x1B \<Longrightarrow> vg_is_esc v' = vg_is_esc v \<and> vg_buff_loc v' = vg_buff_loc v"
  by (auto simp: vga_char_def vid_put_def vga_wrap_def scrollup_def Let_def bind_eq_Some_conv split: if_splits)

lemma after_sequence_step:
  assumes "vga_ok v" "vg_is_esc v = 2" "vg_buff_loc v < 256" "c \<noteq> 0x1B"
  shows "\<exists>v'. vga_put c v = Some v' \<and> vga_ok v' \<and> vg_is_esc v' = 2 \<and> vg_buff_loc v' = vg_buff_loc v + 1"
proof -
  obtain v1 where v1: "buff_put c v = Some v1" "vga_ok v1" "vg_is_esc v1 = 2" "vg_buff_loc v1 = vg_buff_loc v + 1"
    using buff_put_spec [OF assms(1,3), of c] assms(2) by auto
  with vga_char_spec [OF v1(2), of c] vga_char_keeps [OF _ assms(4), of v1] assms(2) show ?thesis by (fastforce simp: vga_put_def)
qed

lemma after_sequence:
  assumes "vga_ok v" "vg_is_esc v = 2" "0x1B \<notin> set cs"
  shows "(vga_print cs v = None) = (256 < vg_buff_loc v + length cs)"
  using assms
proof (induction cs arbitrary: v)
  case Nil
  then show ?case by (simp add: vga_ok_def)
next
  case (Cons c cs)
  show ?case
  proof (cases "vg_buff_loc v < 256")
    case True
    with Cons.prems after_sequence_step [of v c] obtain v' where
      "vga_put c v = Some v'" "vga_ok v'" "vg_is_esc v' = 2" "vg_buff_loc v' = vg_buff_loc v + 1" by auto
    with Cons.IH [of v'] Cons.prems(3) show ?thesis by simp
  next
    case False
    with Cons.prems show ?thesis by (simp add: vga_put_def buff_put_def vga_ok_def)
  qed
qed

lemma reset_sequence:
  assumes "vga_ok v" "vg_is_esc v = 0"
  shows "\<exists>v'. vga_print ([0x1B, 0x5B, 0x30, 0x6D] @ cs) v = vga_print cs v' \<and> vga_ok v' \<and> vg_is_esc v' = 2 \<and> vg_buff_loc v' = 2"
proof -
  let ?v2 = "v\<lparr>vg_buff_loc := 0, vg_is_esc := 1\<rparr>"
  have "vga_ok ?v2" using assms(1) by (simp add: vga_ok_def)
  with buff_put_spec [of ?v2 "0x30"] obtain v3 where v3: "buff_put 0x30 ?v2 = Some v3" "vga_ok v3" "vg_is_esc v3 = 1" "vg_buff_loc v3 = 1" by auto
  with buff_put_spec [of v3 "0x6D"] obtain v4 where v4: "buff_put 0x6D v3 = Some v4" "vga_ok v4" "vg_is_esc v4 = 1" "vg_buff_loc v4 = 2"
    "vg_buff v4 ! (vg_buff_loc v4 - 1) = 0x6D" "0x6D \<in> set (vg_buff v4)" by auto
  from ansi_escape_spec [OF v4(2,5,6)] v4(4) obtain v5 where "ansi_escape v4 = Some v5" "vga_ok v5" "vg_is_esc v5 = 2" "vg_buff_loc v5 = 2" by auto
  moreover have "is_ansi 0x6D" "\<not> is_ansi 0x30" by (simp_all add: is_ansi_def)
  ultimately show ?thesis using assms(2) v3 v4 by (intro exI [of _ v5]) (simp add: vga_put_def vga_char_def)
qed

text \<open>
  C38 (text after a colour change overruns the escape buffer). After a complete escape sequence every further
  character is still stored in the 256 bytes of the escape buffer, although no sequence is being read: text
  that follows \<open>ESC [ 0 m\<close> without another escape leaves the buffer exactly when it is longer than 254 characters.
\<close>

theorem colour_text_overruns:
  assumes "vga_ok v" "vg_is_esc v = 0" "0x1B \<notin> set cs"
  shows "(vga_print ([0x1B, 0x5B, 0x30, 0x6D] @ cs) v = None) = (254 < length cs)"
proof -
  from reset_sequence [OF assms(1,2), of cs] obtain v' where v': "vga_print ([0x1B, 0x5B, 0x30, 0x6D] @ cs) v = vga_print cs v'"
      "vga_ok v'" "vg_is_esc v' = 2" "vg_buff_loc v' = 2" by blast
  from after_sequence [OF v'(2,3) assms(3)] show ?thesis unfolding v'(1) v'(4) by auto
qed

theorem colour_text_overruns_witness:
  "vga_print ([0x1B, 0x5B, 0x30, 0x6D] @ replicate 255 0x41) ex_vga = None \<and> vga_print ([0x1B, 0x5B, 0x30, 0x6D] @ replicate 254 0x41) ex_vga \<noteq> None"
proof -
  have "vga_ok ex_vga" "vg_is_esc ex_vga = 0" "(0x1B :: u8) \<notin> set (replicate n 0x41)" for n by (simp_all add: ex_vga_def vga_ok_def)
  then show ?thesis using colour_text_overruns [of ex_vga "replicate 255 0x41"] colour_text_overruns [of ex_vga "replicate 254 0x41"] by simp
qed

section \<open>Numbers\<close>

text \<open>The digits of a number, the lowest first; 0 has none.\<close>

function low_digits :: "nat \<Rightarrow> nat \<Rightarrow> nat list" where
  "low_digits b n = (if n = 0 \<or> b < 2 then [] else (n mod b) # low_digits b (n div b))"
  by pat_completeness auto
termination by (relation "measure snd") auto

declare low_digits.simps [simp del]

lemma low_digits_value: "2 \<le> b \<Longrightarrow> foldr (\<lambda>d acc. d + b * acc) (low_digits b n) 0 = n"
  by (induction b n rule: low_digits.induct) (subst low_digits.simps, simp)

lemma digits_loop_spec:
  assumes "2 \<le> base" "base \<le> 16" "length ans \<le> 16"
  shows "digits_loop n base ans =
    (if unat n < unat base ^ (16 - length ans) then Some (ans @ map ((!) nums) (low_digits (unat base) (unat n))) else None)"
  using assms
proof (induction n base ans rule: digits_loop.induct)
  case (1 n base ans)
  have b: "2 \<le> unat base" "unat base \<le> 16" using 1(2,3) by (simp_all add: word_le_nat_alt)
  have nums: "length nums = 16" by (simp add: nums_def)
  show ?case
  proof (cases "n = 0")
    case True
    then show ?thesis using b by (subst digits_loop.simps) (simp add: low_digits.simps)
  next
    case n: False
    have mod: "unat (n mod base) < 16" "unat (n mod base) = unat n mod unat base" using b by (auto simp: unat_mod intro: order.strict_trans2 [OF mod_less_divisor])
    show ?thesis
    proof (cases "length ans < 16")
      case True
      have len: "16 - length ans = Suc (16 - length (ans @ [nums ! unat (n mod base)]))" using True by simp
      have "unat n < unat base ^ (16 - length ans) \<longleftrightarrow> unat (n div base) < unat base ^ (16 - length (ans @ [nums ! unat (n mod base)]))"
        unfolding len using b by (simp add: unat_div less_mult_imp_div_less div_less_iff_less_mult mult.commute)
      moreover have "low_digits (unat base) (unat n) = unat (n mod base) # low_digits (unat base) (unat (n div base))"
        using n b by (subst low_digits.simps) (simp add: unat_div mod(2) unat_eq_0)
      ultimately show ?thesis
        using 1(1) [OF n] True nums mod(1) 1(2,3) n by (subst digits_loop.simps) simp
    next
      case False
      then have "\<not> unat n < unat base ^ (16 - length ans)" using n by (simp add: unat_gt_0)
      with False n show ?thesis by (subst digits_loop.simps) simp
    qed
  qed
qed

text \<open>
  In bases from 4 on every number fits the 16 digits of the buffer; in base 2 the 17th digit of a
  number from \<open>2 ^ 16\<close> on is stored behind it.
\<close>

lemma vga_printnum_digits:
  assumes "4 \<le> base" "base \<le> 16" "n \<noteq> 0"
  shows "vga_printnum n base v = vga_print (map ((!) nums) (rev (low_digits (unat base) (unat n)))) v"
proof -
  have "unat n < 2 ^ 32" by (rule order.strict_trans2 [OF unsigned_less]) simp
  also have "(2 :: nat) ^ 32 = 4 ^ 16" by simp
  also have "4 ^ 16 \<le> unat base ^ 16" using assms(1) by (intro power_mono) (simp_all add: word_le_nat_alt)
  finally have d: "digits_loop n base [] = Some (map ((!) nums) (low_digits (unat base) (unat n)))"
    using digits_loop_spec [of base "[]" n] assms(1,2) by (simp add: order_trans [of 2 4 base])
  have "low_digits (unat base) (unat n) \<noteq> []" using assms(1,3) by (subst low_digits.simps) (simp add: unat_eq_0 word_le_nat_alt)
  with d assms(1) show ?thesis by (auto simp: vga_printnum_def rev_map)
qed

lemma vga_printnum_binary: "vga_printnum n 2 v = None \<longleftrightarrow> 2 ^ 16 \<le> unat n \<or>
    vga_print (rev (let a = map ((!) nums) (low_digits 2 (unat n)) in if a = [] then [0x30] else a)) v = None"
  using digits_loop_spec [of 2 "[]" n] by (auto simp: vga_printnum_def Let_def not_less)

end
