(* ===== verification/Input.thy ===== *)
theory Input
  imports Fs Kproc Cbuff
begin

text \<open>
  Input devices: their list (\<open>kernel/src/io/input.c\<close>), the keyboard's interrupt handler
  (\<open>kernel/arch/x86/src/dev/keyb/input.c\<close>) and the task that turns events into characters
  (\<open>kernel/src/proc/ktask/kinput.c\<close>). Events travel as 12 bytes each through the circular buffer of their device.

  A device is a structure at an address, its place in the list 76 bytes behind it. What \<open>kput\<close> shows is
  the list of the characters given to it.
\<close>

unbundle bit_operations_syntax

section \<open>Devices and events\<close>

record input_dev =
  id_driver :: u16
  id_device :: u16
  id_state :: u32
  id_name :: "u8 list"
  id_iev_buff :: "cbuff option"

record input_event =
  ie_driver :: u16
  ie_device :: u16
  ie_type :: u32
  ie_data :: u32

record input_state =
  in_lh :: lheap
  in_devs :: "addr \<rightharpoonup> input_dev"
  in_dest :: addr
  in_fs :: fs_state
  in_out :: "u8 list"

abbreviation (input) EVENT_KEYPRESS :: u32 where "EVENT_KEYPRESS \<equiv> 0"
abbreviation (input) IDRIVER_KEYBOARD :: u16 where "IDRIVER_KEYBOARD \<equiv> 0"
abbreviation (input) KEYB_STATE_SHIFT :: u32 where "KEYB_STATE_SHIFT \<equiv> 1"
abbreviation (input) KEYB_STATE_CTRL :: u32 where "KEYB_STATE_CTRL \<equiv> 2"
abbreviation (input) KEYB_STATE_ALT :: u32 where "KEYB_STATE_ALT \<equiv> 4"

text \<open>The address of \<open>idevs\<close>, and the member \<open>n\<close> of \<open>union input_id\<close>: \<open>driver\<close> is its low half.\<close>

definition IDEVS :: addr where
  "IDEVS = 8"

definition idev_item_of :: "addr \<Rightarrow> addr" where
  "idev_item_of d = d + 76"

definition id_n :: "input_dev \<Rightarrow> u32" where
  "id_n D = ucast (id_driver D) OR push_bit 16 (ucast (id_device D))"

section \<open>The list of devices\<close>

text \<open>The data that \<open>while(llist_iterate(&iter, &idev))\<close> sees.\<close>

definition idev_list :: "input_state \<Rightarrow> addr list option" where
  "idev_list s = do { it \<leftarrow> llist_iterator_init (in_lh s) IDEVS \<lparr>it_first = NULL, it_curr = NULL\<rparr>; iterate_all (in_lh s) it }"

fun next_devid_loop :: "input_state \<Rightarrow> u16 \<Rightarrow> addr list \<Rightarrow> int \<Rightarrow> int option" where
  "next_devid_loop s driver [] l = Some l"
| "next_devid_loop s driver (d # ds) l = do {
     D \<leftarrow> in_devs s d;
     next_devid_loop s driver ds (if id_driver D = driver \<and> l < uint (id_device D) then uint (id_device D) else l)
   }"

definition get_next_devid :: "u16 \<Rightarrow> input_state \<Rightarrow> u16 option" where
  "get_next_devid driver s = do {
     ds \<leftarrow> idev_list s;
     l \<leftarrow> next_devid_loop s driver ds (- 1);
     Some (of_int (l + 1))
   }"

text \<open>\<open>None\<close> is the panic, or a name that does not fit its 64 bytes with its terminator.\<close>

definition add_input_dev :: "addr \<Rightarrow> u16 \<Rightarrow> u8 list \<Rightarrow> bool \<Rightarrow> bool \<Rightarrow> input_state \<Rightarrow> input_state option" where
  "add_input_dev idev driver name name_by_id id_to_alpha s =
     (if idev = NULL then None
      else do {
        D \<leftarrow> in_devs s idev;
        h \<leftarrow> set_data (in_lh s) (idev_item_of idev) idev;
        let s = s\<lparr>in_lh := h, in_devs := (in_devs s)(idev \<mapsto> D\<lparr>id_driver := driver\<rparr>)\<rparr>;
        n \<leftarrow> get_next_devid driver s;
        if 64 < length name + (if name_by_id then 2 else 1) then None
        else do {
          let nm = (if name_by_id then takeWhile (\<lambda>c. c \<noteq> 0) (name @ [ucast n + (if id_to_alpha then 0x61 else 0)]) else name);
          let s = s\<lparr>in_devs := (in_devs s)(idev \<mapsto> D\<lparr>id_driver := driver, id_device := n, id_state := 0, id_name := nm\<rparr>)\<rparr>;
          h \<leftarrow> llist_append (in_lh s) IDEVS (idev_item_of idev);
          Some (s\<lparr>in_lh := h\<rparr>)
        }
      })"

definition get_idevice :: "u16 \<Rightarrow> u16 \<Rightarrow> input_state \<Rightarrow> addr option" where
  "get_idevice driver device s = do {
     let n = push_bit 16 (ucast driver) OR (ucast device :: u32);
     it \<leftarrow> llist_iterator_init (in_lh s) IDEVS \<lparr>it_first = NULL, it_curr = NULL\<rparr>;
     r \<leftarrow> iterate_find (in_lh s) (\<lambda>d. do { D \<leftarrow> in_devs s d; Some (id_n D = n) }) it;
     Some (case r of None \<Rightarrow> NULL | Some d \<Rightarrow> d)
   }"

section \<open>The keyboard\<close>

definition process_keycode :: "u32 \<Rightarrow> u32 \<Rightarrow> u32" where
  "process_keycode keycode st =
     (if keycode = 0x2A \<or> keycode = 0x36 then st OR KEYB_STATE_SHIFT
      else if keycode = 0xAA \<or> keycode = 0xB6 then st AND NOT KEYB_STATE_SHIFT
      else if keycode = 0x1D then st OR KEYB_STATE_CTRL
      else if keycode = 0x9D then st AND NOT KEYB_STATE_CTRL
      else if keycode = 0x38 then st OR KEYB_STATE_ALT
      else if keycode = 0xB8 then st AND NOT KEYB_STATE_ALT
      else st)"

text \<open>The bytes of a \<open>struct input_event\<close>, and the structure they are.\<close>

definition bytes16 :: "u16 \<Rightarrow> u8 list" where
  "bytes16 w = [of_nat (unat w), of_nat (unat w div 256)]"

definition bytes32 :: "u32 \<Rightarrow> u8 list" where
  "bytes32 w = [of_nat (unat w), of_nat (unat w div 256), of_nat (unat w div 65536), of_nat (unat w div 16777216)]"

definition event_bytes :: "input_event \<Rightarrow> u8 list" where
  "event_bytes e = bytes16 (ie_driver e) @ bytes16 (ie_device e) @ bytes32 (ie_type e) @ bytes32 (ie_data e)"

definition word_at :: "u8 list \<Rightarrow> nat \<Rightarrow> nat \<Rightarrow> nat" where
  "word_at bs i n = foldr (\<lambda>b acc. unat b + 256 * acc) (take n (drop i bs)) 0"

definition event_of :: "u8 list \<Rightarrow> input_event" where
  "event_of bs = \<lparr>ie_driver = of_nat (word_at bs 0 2), ie_device = of_nat (word_at bs 2 2), ie_type = of_nat (word_at bs 4 4),
     ie_data = of_nat (word_at bs 8 4)\<rparr>"

text \<open>\<open>keyb\<close>: the address of \<open>keyb_dev\<close>. The result of \<open>cbuff_write\<close> is not used.\<close>

definition keyb_handle :: "addr \<Rightarrow> u32 \<Rightarrow> input_state \<Rightarrow> input_state option" where
  "keyb_handle keyb keycode s = do {
     D \<leftarrow> in_devs s keyb;
     let D = D\<lparr>id_state := process_keycode keycode (id_state D)\<rparr>;
     let iev = \<lparr>ie_driver = IDRIVER_KEYBOARD, ie_device = id_device D, ie_type = EVENT_KEYPRESS, ie_data = keycode\<rparr>;
     let (_, b) = cbuff_write (Some (\<lambda>i. event_bytes iev ! i)) 12 (id_iev_buff D);
     Some (s\<lparr>in_devs := (in_devs s)(keyb \<mapsto> D\<lparr>id_iev_buff := b\<rparr>)\<rparr>)
   }"

text \<open>The interrupt handler reads one byte from the port: \<open>code\<close>.\<close>

definition keyb_int :: "addr \<Rightarrow> u8 \<Rightarrow> input_state \<Rightarrow> input_state option" where
  "keyb_int keyb code = keyb_handle keyb (ucast code)"

text \<open>The end of \<open>keyb_init\<close>, after the self-test of the hardware.\<close>

definition keyb_register :: "addr \<Rightarrow> cbuff \<Rightarrow> input_state \<Rightarrow> input_state option" where
  "keyb_register keyb buff s = do {
     s \<leftarrow> add_input_dev keyb IDRIVER_KEYBOARD (map of_char ''keyb'') False False s;
     D \<leftarrow> in_devs s keyb;
     Some (s\<lparr>in_devs := (in_devs s)(keyb \<mapsto> D\<lparr>id_iev_buff := Some buff\<rparr>)\<rparr>)
   }"

section \<open>The input task\<close>

text \<open>The two tables: four rows of 16 keys, then zeroes; quotes, backslashes and controls are written by their codes.\<close>

definition keytab_lower :: "u8 list" where
  "keytab_lower =
     [0, 0] @ map of_char ''1234567890-='' @ [8, 9] @
     map of_char ''qwertyuiop[]'' @ [10, 0] @ map of_char ''as'' @
     map of_char ''dfghjkl;'' @ [39, 96, 0, 92] @ map of_char ''zxcv'' @
     map of_char ''bnm,./'' @ [0, 0, 0, 32, 0, 0, 0, 0, 0, 0] @ replicate 192 0"

definition keytab_upper :: "u8 list" where
  "keytab_upper =
     [0, 0] @ map of_char ''!@#$%^&*()_+'' @ [8, 9] @
     map of_char ''QWERTYUIOP{}'' @ [10, 0] @ map of_char ''AS'' @
     map of_char ''DFGHJKL:'' @ [34, 126, 0, 124] @ map of_char ''ZXCV'' @
     map of_char ''BNM<>?'' @ [0, 0, 0, 32, 0, 0, 0, 0, 0, 0] @ replicate 192 0"

definition keytab :: "bool \<Rightarrow> u8 list" where
  "keytab shift = (if shift then keytab_upper else keytab_lower)"

text \<open>The state of the keyboard is the one when the event is read; \<open>None\<close>: a code outside of the table.\<close>

definition keycode_to_char :: "input_event \<Rightarrow> input_state \<Rightarrow> u8 option" where
  "keycode_to_char iev s =
     (if ie_driver iev = IDRIVER_KEYBOARD then do {
        idev \<leftarrow> get_idevice IDRIVER_KEYBOARD (ie_device iev) s;
        if idev = NULL then Some 0
        else do {
          D \<leftarrow> in_devs s idev;
          let tab = keytab (id_state D AND KEYB_STATE_SHIFT = KEYB_STATE_SHIFT);
          if unat (ie_data iev) < length tab then Some (tab ! unat (ie_data iev)) else None
        }
      }
      else Some 0)"

definition send_input_char :: "vfs_ops \<Rightarrow> u8 \<Rightarrow> input_state \<Rightarrow> input_state option" where
  "send_input_char V c s = do {
     w \<leftarrow> (if in_dest s \<noteq> NULL then map_option snd (fs_write V (in_dest s) 0 1 (\<lambda>_. c) (in_fs s)) else Some (in_fs s));
     Some (s\<lparr>in_fs := w, in_out := in_out s @ [c]\<rparr>)
   }"

text \<open>The inner loop of \<open>kinput_task\<close>: the events of the device at \<open>d\<close>.\<close>

partial_function (option) read_events :: "vfs_ops \<Rightarrow> addr \<Rightarrow> input_state \<Rightarrow> input_state option" where
  "read_events V d s =
     Option.bind (in_devs s d) (\<lambda>D.
       let (r, bs, b) = cbuff_read True 12 (id_iev_buff D);
           s = s\<lparr>in_devs := (in_devs s)(d \<mapsto> D\<lparr>id_iev_buff := b\<rparr>)\<rparr> in
       if r < 0 then Some s
       else
         let iev = event_of bs in
         Option.bind (if ie_type iev = EVENT_KEYPRESS then keycode_to_char iev s else Some (ucast (ie_data iev))) (\<lambda>c.
         Option.bind (send_input_char V c s) (read_events V d)))"

declare read_events.simps [code]

fun read_devices :: "vfs_ops \<Rightarrow> addr list \<Rightarrow> input_state \<Rightarrow> input_state option" where
  "read_devices V [] s = Some s"
| "read_devices V (d # ds) s = do {
     D \<leftarrow> in_devs s d;
     s \<leftarrow> (if id_iev_buff D = None then Some s else read_events V d s);
     read_devices V ds s
   }"

text \<open>One turn of the endless loop, up to its \<open>delay\<close>.\<close>

definition kinput_turn :: "vfs_ops \<Rightarrow> input_state \<Rightarrow> input_state option" where
  "kinput_turn V s = do { ds \<leftarrow> idev_list s; read_devices V ds s }"

end
