(* ===== verification/Input_Sound.thy ===== *)
theory Input_Sound
  imports Input Stream Elf_Symbols
begin

text \<open>
  What is typed is read: the events of the keyboard come out of its buffer whole and in order, and one turn of the input
  task turns each of them into a character of the stream that takes the input.
\<close>

unbundle bit_operations_syntax

section \<open>Events as bytes\<close>

lemma word16_parts: "foldr (\<lambda>b acc. unat b + 256 * acc) (bytes16 w) 0 = unat w"
proof -
  have "unat w < 256 * 256" using unsigned_less [of w] by simp
  then have "unat w div 256 < 256" by (rule less_mult_imp_div_less)
  then have "unat w mod 256 + 256 * (unat w div 256 mod 256) = unat w" by simp
  moreover have "unat (of_nat n :: u8) = n mod 256" for n by (simp add: unat_of_nat)
  ultimately show ?thesis by (simp only: bytes16_def foldr.simps comp_def id_def mult_0_right add_0_right)
qed

lemma word32_parts: "foldr (\<lambda>b acc. unat b + 256 * acc) (bytes32 w) 0 = unat w"
  using bytes_of_word [of w] by (simp only: bytes32_def foldr.simps comp_def id_def mult_0_right add_0_right)

lemma bytes_length: "length (bytes16 w) = 2" "length (bytes32 v) = 4"
  by (simp_all add: bytes16_def bytes32_def)

lemma event_bytes_length [simp]: "length (event_bytes e) = 12"
  by (simp add: event_bytes_def bytes_length)

lemma event_of_bytes [simp]: "event_of (event_bytes e) = e"
proof -
  have "word_at (event_bytes e) 0 2 = unat (ie_driver e)" "word_at (event_bytes e) 2 2 = unat (ie_device e)"
    "word_at (event_bytes e) 4 4 = unat (ie_type e)" "word_at (event_bytes e) 8 4 = unat (ie_data e)"
    by (simp_all add: word_at_def event_bytes_def bytes_length word16_parts word32_parts)
  then show ?thesis by (simp add: event_of_def)
qed

section \<open>The keyboard's buffer\<close>

text \<open>The events that are waiting in a buffer.\<close>

definition holds :: "cbuff option \<Rightarrow> input_event list \<Rightarrow> bool" where
  "holds b es \<longleftrightarrow> cbuff_wf b \<and> contents b = concat (map event_bytes es) \<and> capacity b = 192"

lemma events_length [simp]: "length (concat (map event_bytes es)) = 12 * length es"
  by (induction es) auto

lemma holds_write:
  assumes "holds b es"
  shows "\<exists>r b'. cbuff_write (Some (\<lambda>i. event_bytes e ! i)) 12 b = (r, b') \<and> holds b' (if length es < 16 then es @ [e] else es)"
proof (cases "length es < 16")
  case True
  have "map (\<lambda>i. event_bytes e ! i) [0..<12] = event_bytes e" using map_nth [of "event_bytes e"] by simp
  moreover have "12 \<le> 192 - 12 * length es" "unat (12 :: u32) = 12" using True by simp_all
  ultimately show ?thesis using assms True cbuff_write_spec [of b 12 "\<lambda>i. event_bytes e ! i"] by (auto simp: holds_def)
next
  case False
  with assms cbuff_write_spec [of b 12 "\<lambda>i. event_bytes e ! i"] show ?thesis by (simp add: holds_def)
qed

lemma holds_read:
  assumes "holds b (e # es)"
  shows "\<exists>b'. cbuff_read True 12 b = (0, event_bytes e, b') \<and> holds b' es"
  using assms cbuff_read_spec [of b 12] by (auto simp: holds_def)

lemma holds_empty: "holds b [] \<Longrightarrow> cbuff_read True 12 b = (- ENODATA, [], b)"
  using cbuff_read_spec [of b 12] by (simp add: holds_def)

section \<open>Typing and reading\<close>

text \<open>The number \<open>get_idevice\<close> looks for has the two halves of the identifier exchanged.\<close>

lemma id_n_swapped:
  "id_n D = push_bit 16 (ucast driver) OR ucast device \<longleftrightarrow> id_driver D = device \<and> id_device D = driver"
proof
  assume eq: "id_n D = push_bit 16 (ucast driver) OR ucast device"
  have "bit (id_driver D) n = bit device n" if "n < 16" for n
    using arg_cong [OF eq, of "\<lambda>w. bit w n"] that by (simp add: id_n_def bit_simps)
  moreover have no: "\<not> bit (w :: u16) (n + 16)" for w n using bit_imp_le_length [of w "n + 16"] by auto
  moreover have "bit (id_device D) n = bit driver n" if "n < 16" for n
    using arg_cong [OF eq, of "\<lambda>w. bit w (n + 16)"] that no by (simp add: id_n_def bit_simps)
  ultimately show "id_driver D = device \<and> id_device D = driver" by (auto intro!: bit_word_eqI)
qed (simp add: id_n_def or.commute)

text \<open>
  The keyboard at \<open>k\<close> is one of the devices of the list, with the events \<open>es\<close> waiting; no other is a
  keyboard, and none has an event waiting. On x86 the serial port comes first in the list.
\<close>

definition quiet :: "cbuff option \<Rightarrow> bool" where
  "quiet b \<longleftrightarrow> b = None \<or> cbuff_wf b \<and> contents b = []"

definition keyboard :: "input_state \<Rightarrow> addr list \<Rightarrow> addr \<Rightarrow> u32 \<Rightarrow> input_event list \<Rightarrow> bool" where
  "keyboard s ds k st es \<longleftrightarrow> k \<in> set ds \<and> NULL \<notin> set ds \<and> ring (in_lh s) IDEVS (map idev_item_of ds) \<and>
     (\<forall>d \<in> set ds. dat (in_lh s) (idev_item_of d) = Some d) \<and>
     (\<exists>D. in_devs s k = Some D \<and> id_driver D = 0 \<and> id_device D = 0 \<and> id_state D = st \<and> holds (id_iev_buff D) es) \<and>
     (\<forall>d \<in> set ds - {k}. \<exists>D. in_devs s d = Some D \<and> id_driver D \<noteq> 0 \<and> quiet (id_iev_buff D))"

definition key_event :: "u8 \<Rightarrow> input_event" where
  "key_event c = \<lparr>ie_driver = 0, ie_device = 0, ie_type = 0, ie_data = ucast c\<rparr>"

lemma keyb_int_step:
  assumes "keyboard s ds k st es"
  shows "\<exists>s'. keyb_int k c s = Some s' \<and> keyboard s' ds k (process_keycode (ucast c) st) (if length es < 16 then es @ [key_event c] else es) \<and>
    in_out s' = in_out s \<and> in_dest s' = in_dest s \<and> in_fs s' = in_fs s"
proof -
  from assms obtain D where D: "in_devs s k = Some D" "id_driver D = 0" "id_device D = 0" "id_state D = st" "holds (id_iev_buff D) es"
    by (auto simp: keyboard_def)
  from holds_write [OF D(5), of "key_event c"] obtain r b where
    "cbuff_write (Some (\<lambda>i. event_bytes (key_event c) ! i)) 12 (id_iev_buff D) = (r, b)" "holds b (if length es < 16 then es @ [key_event c] else es)" by blast
  then show ?thesis using assms D by (auto simp: keyb_int_def keyb_handle_def keyboard_def key_event_def)
qed

fun type_keys :: "addr \<Rightarrow> u8 list \<Rightarrow> input_state \<Rightarrow> input_state option" where
  "type_keys k [] s = Some s"
| "type_keys k (c # cs) s = do { s \<leftarrow> keyb_int k c s; type_keys k cs s }"

definition keys_state :: "u8 list \<Rightarrow> u32 \<Rightarrow> u32" where
  "keys_state cs st = fold (\<lambda>c. process_keycode (ucast c)) cs st"

lemma type_keys_spec:
  assumes "keyboard s ds k st es" "length es \<le> 16"
  shows "\<exists>s'. type_keys k cs s = Some s' \<and> keyboard s' ds k (keys_state cs st) (es @ map key_event (take (16 - length es) cs)) \<and>
    in_out s' = in_out s \<and> in_dest s' = in_dest s \<and> in_fs s' = in_fs s"
  using assms
proof (induction cs arbitrary: s st es)
  case (Cons c cs)
  from keyb_int_step [OF Cons.prems(1), of c] obtain s1 where s1: "keyb_int k c s = Some s1"
      "keyboard s1 ds k (process_keycode (ucast c) st) (if length es < 16 then es @ [key_event c] else es)"
      "in_out s1 = in_out s" "in_dest s1 = in_dest s" "in_fs s1 = in_fs s" by blast
  show ?case
  proof (cases "length es < 16")
    case True
    then have "16 - length es = Suc (16 - length (es @ [key_event c]))" by simp
    with Cons.IH [OF s1(2)] Cons.prems(2) True s1 show ?thesis by (auto simp: keys_state_def)
  next
    case False
    with Cons.IH [OF s1(2)] Cons.prems(2) s1 show ?thesis by (simp add: keys_state_def)
  qed
qed (simp add: keys_state_def)

lemma keyboard_list: "keyboard s ds k st es \<Longrightarrow> idev_list s = Some ds"
proof -
  assume k: "keyboard s ds k st es"
  then have "map (the \<circ> dat (in_lh s)) (map idev_item_of ds) = ds" by (auto simp: keyboard_def intro!: map_idI)
  with k iterate_all_ring [of "in_lh s" IDEVS "map idev_item_of ds" NULL NULL] show ?thesis by (auto simp: keyboard_def idev_list_def)
qed

lemma keyboard_is:
  assumes "keyboard s ds k st es" "d \<in> set ds"
  obtains D where "in_devs s d = Some D" "id_n D = 0 \<longleftrightarrow> d = k"
proof (cases "d = k")
  case True
  with assms that show ?thesis by (auto simp: keyboard_def id_n_def)
next
  case False
  with assms obtain D where "in_devs s d = Some D" "id_driver D \<noteq> 0" by (auto simp: keyboard_def)
  with that False id_n_swapped [of D 0 0] show ?thesis by auto
qed

lemma get_keyboard:
  assumes "keyboard s ds k st es"
  shows "get_idevice 0 0 s = Some k"
proof -
  from keyboard_list [OF assms] obtain it where
    it: "llist_iterator_init (in_lh s) IDEVS \<lparr>it_first = NULL, it_curr = NULL\<rparr> = Some it" "iterate_all (in_lh s) it = Some ds"
    by (auto simp: idev_list_def bind_eq_Some_conv)
  have "\<forall>d \<in> set ds. do { D \<leftarrow> in_devs s d; Some (id_n D = 0) } = Some (d = k)"
  proof
    fix d assume "d \<in> set ds"
    with assms obtain D where "in_devs s d = Some D" "id_n D = 0 \<longleftrightarrow> d = k" by (rule keyboard_is)
    then show "do { D \<leftarrow> in_devs s d; Some (id_n D = 0) } = Some (d = k)" by simp
  qed
  from iterate_find_all [OF it(2) this] have "iterate_find (in_lh s) (\<lambda>d. do { D \<leftarrow> in_devs s d; Some (id_n D = 0) }) it = Some (find (\<lambda>d. d = k) ds)" .
  moreover have "find (\<lambda>d. d = k) xs = Some k" if "k \<in> set xs" for xs using that by (induction xs) auto
  then have "find (\<lambda>d. d = k) ds = Some k" using assms by (simp add: keyboard_def)
  ultimately show ?thesis using it by (simp add: get_idevice_def)
qed

text \<open>The stream that gets the characters takes those it has room for.\<close>

lemma take_snoc_take: "take n (take n (xs @ [c]) @ cs) = take n (xs @ c # cs)"
  by (cases "length xs < n") (simp_all add: min_def)

definition key_char :: "u32 \<Rightarrow> u8 \<Rightarrow> u8" where
  "key_char st c = keytab (st AND 1 = 1) ! unat c"

lemma keytab_length [simp]: "length (keytab sh) = 256"
  by (simp add: keytab_def keytab_lower_def keytab_upper_def)

lemma key_code: "unat (ucast (c :: u8) :: u32) = unat c"
proof -
  have "unat c < 2 ^ 32" using unat_u8_lt [of c] by (rule order.strict_trans) simp
  then show ?thesis by (simp add: unsigned_ucast_eq take_bit_nat_eq_self)
qed

lemma send_spec:
  assumes V: "vh_write V = vh_write stream_ops" and q: "stream_at (in_fs s) (in_dest s) q"
  obtains w q' where "send_input_char V c s = Some (s\<lparr>in_fs := w, in_out := in_out s @ [c]\<rparr>)" "stream_at w (in_dest s) q'"
    "contents (Some q') = take (capacity (Some q)) (contents (Some q) @ [c])" "capacity (Some q') = capacity (Some q)"
proof -
  from q have d: "in_dest s \<noteq> NULL" and wf: "cbuff_wf (Some q)" by (auto simp: stream_at_def)
  have fw: "fs_write V = fs_write stream_ops" by (intro ext) (simp only: fs_write_def V)
  let ?n = "min (unat (1 :: u32)) (capacity (Some q) - length (contents (Some q)))"
  from fs_write_stream [OF q, of 0 1 "\<lambda>_. c"] obtain w q' where
    w: "fs_write stream_ops (in_dest s) 0 1 (\<lambda>_. c) (in_fs s) = Some (sint (of_nat ?n :: u32), w)" "stream_at w (in_dest s) q'"
      "contents (Some q') = contents (Some q) @ map (\<lambda>_. c) [0..<?n]" "capacity (Some q') = capacity (Some q)" .
  have "length (contents (Some q)) \<le> capacity (Some q)" using wf by (rule contents_le_capacity)
  then have "contents (Some q') = take (capacity (Some q)) (contents (Some q) @ [c])"
    using w(3) by (cases "length (contents (Some q)) < capacity (Some q)") (auto simp: min_def)
  moreover have "send_input_char V c s = Some (s\<lparr>in_fs := w, in_out := in_out s @ [c]\<rparr>)"
    using w(1) d by (simp add: send_input_char_def fw)
  ultimately show thesis using w(2,4) that by blast
qed

lemma read_events_spec:
  assumes "keyboard s ds k st (map key_event cs)" "vh_write V = vh_write stream_ops" "stream_at (in_fs s) (in_dest s) q"
  shows "\<exists>s' q'. read_events V k s = Some s' \<and> keyboard s' ds k st [] \<and> in_out s' = in_out s @ map (key_char st) cs \<and> in_dest s' = in_dest s \<and>
    stream_at (in_fs s') (in_dest s) q' \<and> contents (Some q') = take (capacity (Some q)) (contents (Some q) @ map (key_char st) cs)"
  using assms(1,3)
proof (induction cs arbitrary: s q)
  case Nil
  then obtain D where D: "in_devs s k = Some D" "holds (id_iev_buff D) []" by (auto simp: keyboard_def)
  have "(in_devs s)(k \<mapsto> D) = in_devs s" using D(1) by (simp add: fun_upd_idem)
  moreover have "length (contents (Some q)) \<le> capacity (Some q)" using Nil(2) by (intro contents_le_capacity) (auto simp: stream_at_def)
  ultimately show ?case using Nil D holds_empty by (subst read_events.simps) auto
next
  case (Cons c cs)
  then obtain D where D: "in_devs s k = Some D" "holds (id_iev_buff D) (key_event c # map key_event cs)" "id_state D = st" by (auto simp: keyboard_def)
  from holds_read [OF D(2)] obtain b where b: "cbuff_read True 12 (id_iev_buff D) = (0, event_bytes (key_event c), b)" "holds b (map key_event cs)" by blast
  let ?s1 = "s\<lparr>in_devs := (in_devs s)(k \<mapsto> D\<lparr>id_iev_buff := b\<rparr>)\<rparr>"
  have k1: "keyboard ?s1 ds k st (map key_event cs)" using Cons.prems(1) D b(2) by (auto simp: keyboard_def)
  have ch: "keycode_to_char (key_event c) ?s1 = Some (key_char st c)"
    using get_keyboard [OF k1] Cons.prems(1) D(3) by (auto simp: keycode_to_char_def key_event_def key_char_def key_code keyboard_def)
  have st1: "stream_at (in_fs ?s1) (in_dest ?s1) q" using Cons.prems(2) by simp
  obtain w q1 where w: "send_input_char V (key_char st c) ?s1 = Some (?s1\<lparr>in_fs := w, in_out := in_out ?s1 @ [key_char st c]\<rparr>)"
      "stream_at w (in_dest ?s1) q1" "contents (Some q1) = take (capacity (Some q)) (contents (Some q) @ [key_char st c])"
      "capacity (Some q1) = capacity (Some q)"
    by (rule send_spec [OF assms(2) st1])
  let ?s2 = "?s1\<lparr>in_fs := w, in_out := in_out s @ [key_char st c]\<rparr>"
  have "keyboard ?s2 ds k st (map key_event cs)" "stream_at (in_fs ?s2) (in_dest ?s2) q1" using k1 w(2) by (auto simp: keyboard_def)
  from Cons.IH [OF this] obtain s' q' where s': "read_events V k ?s2 = Some s'" "keyboard s' ds k st []"
      "in_out s' = in_out ?s2 @ map (key_char st) cs" "in_dest s' = in_dest ?s2" "stream_at (in_fs s') (in_dest ?s2) q'"
      and q': "contents (Some q') = take (capacity (Some q1)) (contents (Some q1) @ map (key_char st) cs)" by blast
  have "contents (Some q') = take (capacity (Some q)) (contents (Some q) @ map (key_char st) (c # cs))"
    unfolding q' w(3,4) take_snoc_take list.map by (rule refl)
  moreover have "in_out s' = in_out s @ map (key_char st) (c # cs)" "in_dest s' = in_dest s" "stream_at (in_fs s') (in_dest s) q'"
    using s'(3-5) by simp_all
  moreover have "read_events V k s = read_events V k ?s2"
    using D b ch w(1) by (subst read_events.simps) (simp add: key_event_def)
  ultimately show ?case using s'(1,2) by metis
qed

text \<open>A quiet device is passed over.\<close>

lemma read_quiet:
  assumes "\<forall>d \<in> set ds. \<exists>D. in_devs s d = Some D \<and> quiet (id_iev_buff D)"
  shows "read_devices V ds s = Some s"
  using assms
proof (induction ds)
  case (Cons d ds)
  then obtain D where D: "in_devs s d = Some D" "quiet (id_iev_buff D)" by auto
  have "read_events V d s = Some s" if "id_iev_buff D \<noteq> None"
  proof -
    from that D(2) have "cbuff_read True 12 (id_iev_buff D) = (- ENODATA, [], id_iev_buff D)"
      using cbuff_read_spec [of "id_iev_buff D" 12] by (auto simp: quiet_def)
    moreover have "(in_devs s)(d \<mapsto> D) = in_devs s" using D(1) by (simp add: fun_upd_idem)
    ultimately show ?thesis using D(1) by (subst read_events.simps) simp
  qed
  with Cons D(1) show ?case by auto
qed simp

lemma read_devices_append: "read_devices V (xs @ ys) s = Option.bind (read_devices V xs s) (read_devices V ys)"
  by (induction xs arbitrary: s) (auto split: bind_splits if_splits)

lemma keyboard_others: "keyboard s ds k st es \<Longrightarrow> \<forall>d \<in> set ds - {k}. \<exists>D. in_devs s d = Some D \<and> quiet (id_iev_buff D)"
  by (auto simp: keyboard_def)

lemma keyboard_quiet: "keyboard s ds k st [] \<Longrightarrow> \<forall>d \<in> set ds. \<exists>D. in_devs s d = Some D \<and> quiet (id_iev_buff D)"
  by (auto simp: keyboard_def holds_def quiet_def)

text \<open>
  C39 (typed keys are read). The keyboard is one device of the list, as on x86, where the serial port comes before it;
  it is the only keyboard, no other device has an event waiting, and the file that gets the input is an open stream, which
  it is once the kernel's terminal or the first program has been started. Key codes that arrive while the keyboard's buffer is empty are kept in
  order, at most 16 of them, the rest dropped whole. One turn of the input task then ends and leaves the buffer empty. For
  each key kept it echoes one character and appends it to the stream behind what the stream held, as far as the stream
  has room. The character is looked up with the shift state after the last key, not with the state when the key was pressed.
\<close>

theorem typed_keys_read:
  assumes "keyboard s ds k st []" "vh_write V = vh_write stream_ops" "stream_at (in_fs s) (in_dest s) q"
  shows "\<exists>s1 s2 q2. type_keys k cs s = Some s1 \<and> kinput_turn V s1 = Some s2 \<and> keyboard s2 ds k (keys_state cs st) [] \<and>
    in_out s2 = in_out s @ map (key_char (keys_state cs st)) (take 16 cs) \<and>
    stream_at (in_fs s2) (in_dest s2) q2 \<and> in_dest s2 = in_dest s \<and>
    contents (Some q2) = take (capacity (Some q)) (contents (Some q) @ map (key_char (keys_state cs st)) (take 16 cs))"
proof -
  from type_keys_spec [OF assms(1), of cs] obtain s1 where s1: "type_keys k cs s = Some s1"
      "keyboard s1 ds k (keys_state cs st) (map key_event (take 16 cs))" "in_out s1 = in_out s" "in_dest s1 = in_dest s" "in_fs s1 = in_fs s" by auto
  have st1: "stream_at (in_fs s1) (in_dest s1) q" using assms(3) s1 by simp
  from read_events_spec [OF s1(2) assms(2) st1] s1 obtain s2 q2 where s2: "read_events V k s1 = Some s2" "keyboard s2 ds k (keys_state cs st) []"
      "in_out s2 = in_out s @ map (key_char (keys_state cs st)) (take 16 cs)" "in_dest s2 = in_dest s" "stream_at (in_fs s2) (in_dest s) q2"
      "contents (Some q2) = take (capacity (Some q)) (contents (Some q) @ map (key_char (keys_state cs st)) (take 16 cs))" by auto
  from s1(2) obtain D where D: "in_devs s1 k = Some D" "id_iev_buff D \<noteq> None" by (auto simp: keyboard_def holds_def cbuff_wf_def split: option.splits)
  from s1(2) have "k \<in> set ds" by (simp add: keyboard_def)
  then obtain us vs where ds: "ds = us @ k # vs" "k \<notin> set us" by (metis split_list_first)
  have "read_devices V us s1 = Some s1" by (rule read_quiet) (use keyboard_others [OF s1(2)] ds in auto)
  moreover have "read_devices V vs s2 = Some s2" by (rule read_quiet) (use keyboard_quiet [OF s2(2)] ds in auto)
  ultimately have "read_devices V ds s1 = Some s2" using D s2(1) by (auto simp: ds read_devices_append)
  then have "kinput_turn V s1 = Some s2" using keyboard_list [OF s1(2)] by (simp add: kinput_turn_def)
  with s1(1) s2 show ?thesis by auto
qed

definition ex_keyb :: input_dev where
  "ex_keyb = \<lparr>id_driver = 0, id_device = 0, id_state = 0, id_name = [], id_iev_buff = Some \<lparr>cb_begin = 5, cb_count = 0, cb_size = 192, cb_buff = Some (\<lambda>_. 0)\<rparr>\<rparr>"

definition ex_serial :: input_dev where
  "ex_serial = \<lparr>id_driver = 2, id_device = 0, id_state = 0, id_name = [], id_iev_buff = Some \<lparr>cb_begin = 0, cb_count = 0, cb_size = 192, cb_buff = Some (\<lambda>_. 0)\<rparr>\<rparr>"

text \<open>The serial port (2000) and the keyboard (1000); the input goes to the stream of \<open>ex_stream\<close>, which holds two bytes of four.\<close>

definition ex_input :: input_state where
  "ex_input = \<lparr>in_lh = \<lparr>lh_items = [2076 \<mapsto> \<lparr>item_data = 2000, item_prev = 1076, item_next = 1076\<rparr>, 1076 \<mapsto> \<lparr>item_data = 1000, item_prev = 2076, item_next = 2076\<rparr>],
       lh_lists = [IDEVS \<mapsto> \<lparr>ll_list = 2076, ll_lock = 0\<rparr>]\<rparr>,
     in_devs = [2000 \<mapsto> ex_serial, 1000 \<mapsto> ex_keyb], in_dest = 9, in_fs = ex_stream, in_out = []\<rparr>"

lemma ex_input_keyboard: "keyboard ex_input [2000, 1000] 1000 0 []"
  by (auto simp: keyboard_def ex_input_def ex_keyb_def ex_serial_def idev_item_of_def IDEVS_def ring_def list_head_def cyc_def nx_def pv_def dat_def
      holds_def quiet_def cbuff_wf_def contents_def capacity_def)

text \<open>Shift, \<open>a\<close> and the release of shift in one turn: a small letter. The stream has no room for the third character.\<close>

theorem typed_keys_read_witness:
  "\<exists>s1 s2 q2. type_keys 1000 [0x2A, 0x1E, 0xAA] ex_input = Some s1 \<and> kinput_turn stream_ops s1 = Some s2 \<and>
    in_out s2 = [0, of_char (CHR ''a''), 0] \<and> stream_at (in_fs s2) 9 q2 \<and> contents (Some q2) = [7, 8, 0, of_char (CHR ''a'')]"
proof -
  have c: "map (key_char (keys_state [0x2A, 0x1E, 0xAA] 0)) (take 16 [0x2A, 0x1E, 0xAA]) = [0, of_char (CHR ''a''), 0]" by code_simp
  have i: "in_out ex_input = []" "in_dest ex_input = 9" "in_fs ex_input = ex_stream" by (simp_all add: ex_input_def)
  have q: "capacity (Some (the ex_cbuff)) = 4" "contents (Some (the ex_cbuff)) = [7, 8]"
    using ex_cbuff_facts by (auto simp: ex_cbuff_def)
  have s: "stream_at (in_fs ex_input) (in_dest ex_input) (the ex_cbuff)" using ex_stream_at i by simp
  from typed_keys_read [OF ex_input_keyboard refl s, of "[0x2A, 0x1E, 0xAA]", unfolded c i q]
  obtain s1 s2 q2 where "type_keys 1000 [0x2A, 0x1E, 0xAA] ex_input = Some s1" "kinput_turn stream_ops s1 = Some s2"
    "in_out s2 = [] @ [0, of_char (CHR ''a''), 0]" "stream_at (in_fs s2) (in_dest s2) q2" "in_dest s2 = 9"
    "contents (Some q2) = take 4 ([7, 8] @ [0, of_char (CHR ''a''), 0])" by blast
  then show ?thesis by (intro exI [of _ s1] exI [of _ s2] exI [of _ q2]) simp
qed

end
