(* ===== verification/Ktime.thy ===== *)
theory Ktime
  imports Mtask
begin

text \<open>
  Kernel time: the time blocks of \<open>kernel/src/time/time.c\<close> and \<open>delay\<close> (\<open>kernel/src/time/delay.c\<close>). An event is the
  address of a function; \<open>call\<close> is what calling it with its data does to the blocks and to the rest of the
  system.
\<close>

section \<open>Time blocks\<close>

record time_block =
  tb_event :: addr
  tb_data :: addr
  tb_end :: u64
  tb_tid :: int

record timers =
  tm_blocks :: "time_block list"
  tm_time :: u64

abbreviation (input) MAX_TIME_BLOCKS :: nat where "MAX_TIME_BLOCKS \<equiv> 64"

type_synonym 's event_call = "addr \<Rightarrow> addr \<Rightarrow> timers \<times> 's \<Rightarrow> (timers \<times> 's) option"

definition do_time_block_timeup :: "'s event_call \<Rightarrow> nat \<Rightarrow> timers \<times> 's \<Rightarrow> (timers \<times> 's) option" where
  "do_time_block_timeup call n = (\<lambda>(tm, s).
     let B = tm_blocks tm ! n in
     call (tb_event B) (tb_data B) (tm\<lparr>tm_blocks := (tm_blocks tm)[n := B\<lparr>tb_event := NULL, tb_end := 0, tb_tid := 0\<rparr>]\<rparr>, s))"

text \<open>\<open>None\<close> is the panic when no block is free.\<close>

definition add_time_block :: "addr \<Rightarrow> addr \<Rightarrow> u64 \<Rightarrow> int \<Rightarrow> timers \<Rightarrow> timers option" where
  "add_time_block func data off tid tm =
     (case first_slot (\<lambda>B. tb_event B = NULL) (tm_blocks tm) of
        None \<Rightarrow> None
      | Some i \<Rightarrow> Some (tm\<lparr>tm_blocks := (tm_blocks tm)[i := \<lparr>tb_event = func, tb_data = data, tb_end = tm_time tm + off, tb_tid = tid\<rparr>]\<rparr>))"

fun update_blocks :: "'s event_call \<Rightarrow> nat list \<Rightarrow> timers \<times> 's \<Rightarrow> (timers \<times> 's) option" where
  "update_blocks call [] st = Some st"
| "update_blocks call (i # is) st = do {
     let B = tm_blocks (fst st) ! i;
     st \<leftarrow> (if tb_event B \<noteq> NULL \<and> tb_end B \<le> tm_time (fst st) then do_time_block_timeup call i st else Some st);
     update_blocks call is st
   }"

definition time_update :: "'s event_call \<Rightarrow> u64 \<Rightarrow> timers \<times> 's \<Rightarrow> (timers \<times> 's) option" where
  "time_update call off = (\<lambda>(tm, s). update_blocks call [0..<MAX_TIME_BLOCKS] (tm\<lparr>tm_time := tm_time tm + off\<rparr>, s))"

section \<open>Waiting\<close>

text \<open>
  \<open>_time_over\<close> at the address \<open>time_over\<close>: it signals the condition. \<open>delay\<close> takes a number of milliseconds;
  \<open>sched\<close> is what runs while it waits, the timer interrupts included.
\<close>

definition time_over_call :: "(nat \<Rightarrow> lock_t \<Rightarrow> lock_t) \<Rightarrow> addr \<Rightarrow> kstate event_call" where
  "time_over_call lock_env time_over f data = (\<lambda>(tm, s).
     if f = time_over then do { (_, s) \<leftarrow> cond_signal lock_env data s; Some (tm, s) } else None)"

definition delay ::
    "(nat \<Rightarrow> lock_t \<Rightarrow> lock_t) \<Rightarrow> addr \<Rightarrow> (timers \<Rightarrow> kstate \<Rightarrow> kstate option) \<Rightarrow> (kstate \<Rightarrow> timers) \<Rightarrow> u32 \<Rightarrow> timers \<times> kstate \<Rightarrow> (timers \<times> kstate) option" where
  "delay lock_env time_over sched after ms = (\<lambda>(tm, s). do {
     curr_thread \<leftarrow> mtask_get_curr_thread s;
     let (cond, s) = kmalloc_next s;
     if cond = NULL then None
     else do {
       T \<leftarrow> ks_threads s curr_thread;
       tm \<leftarrow> add_time_block time_over cond (ucast ms * 1000000) (sint (th_tid T)) tm;
       (_, s) \<leftarrow> cond_wait lock_env (sched tm) cond (cond_init cond s);
       Some (after s, kfree_block cond (free_cond cond s))
     }
   })"

section \<open>Blocks that run out\<close>

text \<open>A call that is only recorded, and the blocks a tick calls.\<close>

definition log_call :: "(addr \<times> addr) list event_call" where
  "log_call f d = (\<lambda>(tm, log). Some (tm, log @ [(f, d)]))"

definition expired :: "u64 \<Rightarrow> time_block \<Rightarrow> bool" where
  "expired t B \<longleftrightarrow> tb_event B \<noteq> NULL \<and> tb_end B \<le> t"

definition spent :: "u64 \<Rightarrow> time_block \<Rightarrow> time_block" where
  "spent t B = (if expired t B then B\<lparr>tb_event := NULL, tb_end := 0, tb_tid := 0\<rparr> else B)"

definition called :: "u64 \<Rightarrow> time_block list \<Rightarrow> (addr \<times> addr) list" where
  "called t Bs = map (\<lambda>B. (tb_event B, tb_data B)) (filter (expired t) Bs)"

lemma update_blocks_log:
  assumes "n \<le> length (tm_blocks tm)"
  shows "update_blocks log_call [length (tm_blocks tm) - n..<length (tm_blocks tm)] (tm, log) =
    Some (tm\<lparr>tm_blocks := take (length (tm_blocks tm) - n) (tm_blocks tm) @
        map (spent (tm_time tm)) (drop (length (tm_blocks tm) - n) (tm_blocks tm))\<rparr>,
      log @ called (tm_time tm) (drop (length (tm_blocks tm) - n) (tm_blocks tm)))"
  using assms
proof (induction n arbitrary: tm log)
  case 0
  then show ?case by (simp add: called_def)
next
  case (Suc n)
  let ?l = "length (tm_blocks tm)" and ?i = "length (tm_blocks tm) - Suc n"
  let ?B = "tm_blocks tm ! ?i" and ?t = "tm_time tm"
  have i: "?i < ?l" "?l - n = Suc ?i" using Suc.prems by auto
  have idx: "[?i..<?l] = ?i # [?l - n..<?l]" using i by (simp add: upt_conv_Cons)
  have drop: "drop ?i (tm_blocks tm) = ?B # drop (?l - n) (tm_blocks tm)" using i by (simp add: Cons_nth_drop_Suc)
  have take: "take (?l - n) ((tm_blocks tm)[?i := b]) = take ?i (tm_blocks tm) @ [b]" for b
    using i by (simp add: take_Suc_conv_app_nth)
  have rest: "drop (?l - n) ((tm_blocks tm)[?i := b]) = drop (?l - n) (tm_blocks tm)" for b using i by simp
  let ?tm = "tm\<lparr>tm_blocks := (tm_blocks tm)[?i := spent ?t ?B]\<rparr>"
  have step: "update_blocks log_call [?i..<?l] (tm, log) =
      update_blocks log_call [?l - n..<?l] (?tm, log @ called ?t [?B])"
    unfolding idx by (auto simp: expired_def spent_def called_def do_time_block_timeup_def log_call_def Let_def)
  have "update_blocks log_call [?l - n..<?l] (?tm, log @ called ?t [?B]) =
      Some (?tm\<lparr>tm_blocks := take (?l - n) (tm_blocks ?tm) @ map (spent ?t) (drop (?l - n) (tm_blocks ?tm))\<rparr>,
        (log @ called ?t [?B]) @ called ?t (drop (?l - n) (tm_blocks ?tm)))"
    using Suc.IH [of ?tm] Suc.prems by simp
  then show ?case unfolding step drop by (simp add: take rest called_def)
qed

lemma time_update_log:
  assumes "length (tm_blocks tm) = MAX_TIME_BLOCKS"
  shows "time_update log_call off (tm, log) =
    Some (\<lparr>tm_blocks = map (spent (tm_time tm + off)) (tm_blocks tm), tm_time = tm_time tm + off\<rparr>, log @ called (tm_time tm + off) (tm_blocks tm))"
  using update_blocks_log [of MAX_TIME_BLOCKS "tm\<lparr>tm_time := tm_time tm + off\<rparr>" log] assms by (cases tm) (simp add: time_update_def)

section \<open>A block over time\<close>

fun ticks :: "'s event_call \<Rightarrow> u64 list \<Rightarrow> timers \<times> 's \<Rightarrow> (timers \<times> 's) option" where
  "ticks call [] st = Some st"
| "ticks call (off # offs) st = do { st \<leftarrow> time_update call off st; ticks call offs st }"

definition keyed :: "addr \<Rightarrow> addr \<Rightarrow> time_block \<Rightarrow> bool" where
  "keyed f d B \<longleftrightarrow> tb_event B = f \<and> tb_data B = d"

lemma keyed_spent: "f \<noteq> NULL \<Longrightarrow> filter (keyed f d) (map (spent t) Bs) = filter (\<lambda>B. \<not> expired t B) (filter (keyed f d) Bs)"
  by (induction Bs) (auto simp: spent_def keyed_def)

lemma called_count: "f \<noteq> NULL \<Longrightarrow> count_list (called t Bs) (f, d) = length (filter (expired t) (filter (keyed f d) Bs))"
  by (induction Bs) (auto simp: called_def keyed_def)

lemma count_list_append: "count_list (xs @ ys) x = count_list xs x + count_list ys x"
  by (induction xs) auto

lemma ticks_none:
  assumes "length (tm_blocks tm) = MAX_TIME_BLOCKS" "f \<noteq> NULL" "filter (keyed f d) (tm_blocks tm) = []"
  shows "\<exists>tm' log'. ticks log_call os (tm, log) = Some (tm', log') \<and> count_list log' (f, d) = count_list log (f, d)"
  using assms
proof (induction os arbitrary: tm log)
  case (Cons off os)
  let ?t = "tm_time tm + off"
  let ?tm = "\<lparr>tm_blocks = map (spent ?t) (tm_blocks tm), tm_time = ?t\<rparr>"
  have "length (tm_blocks ?tm) = MAX_TIME_BLOCKS" "filter (keyed f d) (tm_blocks ?tm) = []"
    using Cons.prems by (simp_all add: keyed_spent del: filter_empty_conv)
  from Cons.IH [OF this(1) Cons.prems(2) this(2), of "log @ called ?t (tm_blocks tm)"] Cons.prems time_update_log [OF Cons.prems(1)]
  show ?case by (simp add: count_list_append called_count del: filter_empty_conv)
qed simp

lemma ticks_one:
  assumes "length (tm_blocks tm) = MAX_TIME_BLOCKS" "f \<noteq> NULL" "filter (keyed f d) (tm_blocks tm) = [B]"
    and "unat (tm_time tm) + sum_list (map unat os) < 2 ^ 64"
  shows "\<exists>tm' log'. ticks log_call os (tm, log) = Some (tm', log') \<and>
    count_list log' (f, d) = count_list log (f, d) + (if os \<noteq> [] \<and> unat (tb_end B) \<le> unat (tm_time tm) + sum_list (map unat os) then 1 else 0)"
  using assms
proof (induction os arbitrary: tm log)
  case (Cons off os)
  let ?t = "tm_time tm + off"
  let ?tm = "\<lparr>tm_blocks = map (spent ?t) (tm_blocks tm), tm_time = ?t\<rparr>"
  have t: "unat ?t = unat (tm_time tm) + unat off" using Cons.prems(4) by (subst unat_plus_simple [THEN iffD1]) (auto simp: no_olen_add_nat)
  have len: "length (tm_blocks ?tm) = MAX_TIME_BLOCKS" using Cons.prems(1) by simp
  have B: "keyed f d B" using Cons.prems(3) by (metis filter_eq_ConsD)
  note step = time_update_log [OF Cons.prems(1), of off log]
  have ex: "expired ?t B = (unat (tb_end B) \<le> unat (tm_time tm) + unat off)"
    using B Cons.prems(2) t by (simp add: expired_def keyed_def word_le_nat_alt)
  show ?case
  proof (cases "expired ?t B")
    case True
    then have "filter (keyed f d) (tm_blocks ?tm) = []" using Cons.prems by (simp add: keyed_spent del: filter_empty_conv)
    from ticks_none [OF len Cons.prems(2) this, of os "log @ called ?t (tm_blocks tm)"] True step ex Cons.prems(2,3)
    show ?thesis by (simp add: count_list_append called_count)
  next
    case False
    then have "filter (keyed f d) (tm_blocks ?tm) = [B]" using Cons.prems by (simp add: keyed_spent)
    from Cons.IH [OF len Cons.prems(2) this, of "log @ called ?t (tm_blocks tm)"] False step ex Cons.prems(2,3,4) t
    show ?thesis by (auto simp: count_list_append called_count add.assoc)
  qed
qed simp

lemma first_slot_take: "first_slot P xs = Some i \<Longrightarrow> i < length xs \<and> P (xs ! i)"
  by (induction xs arbitrary: i) (auto split: if_splits option.splits)

lemma filter_update_new:
  assumes "i < length xs" "\<forall>x \<in> set xs. \<not> P x" "P b"
  shows "filter P (xs[i := b]) = [b]"
  using assms
proof (induction xs arbitrary: i)
  case (Cons x xs)
  then show ?case by (cases i) (simp_all add: filter_empty_conv)
qed simp

text \<open>
  C40 (a time block runs out once, and on time). A block added with an offset calls its function once: at the first
  tick at which the kernel time has advanced by at least the offset, and never again. Before that it is not
  called, however many other blocks run out. The functions of the blocks only record that they were called, they
  change no blocks (as that of \<open>delay\<close>, the kernel's only one), the time does not overflow, and no other block has
  the same function and data.
\<close>

theorem time_block_runs_out_once:
  assumes "length (tm_blocks tm) = MAX_TIME_BLOCKS" "f \<noteq> NULL" "add_time_block f d off tid tm = Some tm1"
    and "\<forall>B \<in> set (tm_blocks tm). \<not> keyed f d B"
    and "unat (tm_time tm) + unat off < 2 ^ 64" "unat (tm_time tm) + sum_list (map unat os) < 2 ^ 64"
  shows "\<exists>tm2 log. ticks log_call os (tm1, []) = Some (tm2, log) \<and>
    count_list log (f, d) = (if os \<noteq> [] \<and> unat off \<le> sum_list (map unat os) then 1 else 0)"
proof -
  let ?B = "\<lparr>tb_event = f, tb_data = d, tb_end = tm_time tm + off, tb_tid = tid\<rparr>"
  from assms(3) obtain i where i: "first_slot (\<lambda>B. tb_event B = NULL) (tm_blocks tm) = Some i" "tm1 = tm\<lparr>tm_blocks := (tm_blocks tm)[i := ?B]\<rparr>"
    by (auto simp: add_time_block_def split: option.splits)
  have "filter (keyed f d) (tm_blocks tm1) = [?B]"
    using filter_update_new [of i "tm_blocks tm" "keyed f d" ?B] first_slot_take [OF i(1)] assms(4) by (simp add: i(2) keyed_def)
  moreover have "unat (tb_end ?B) = unat (tm_time tm) + unat off"
    using assms(5) by (simp, subst unat_plus_simple [THEN iffD1]) (auto simp: no_olen_add_nat)
  ultimately show ?thesis
    using ticks_one [of tm1 f d ?B os "[]"] assms(1,2,6) by (auto simp: i(2))
qed

definition ex_timers :: timers where
  "ex_timers = \<lparr>tm_blocks = replicate 64 \<lparr>tb_event = NULL, tb_data = 0, tb_end = 0, tb_tid = 0\<rparr>, tm_time = 5\<rparr>"

theorem time_block_runs_out_once_witness:
  "\<exists>tm1 tm2 log. add_time_block 100 7 20 3 ex_timers = Some tm1 \<and> ticks log_call [10, 10, 10] (tm1, []) = Some (tm2, log) \<and> count_list log (100, 7) = 1"
proof -
  obtain tm1 where tm1: "add_time_block 100 7 20 3 ex_timers = Some tm1" by (simp add: add_time_block_def ex_timers_def numeral_eq_Suc)
  have "length (tm_blocks ex_timers) = MAX_TIME_BLOCKS" "\<forall>B \<in> set (tm_blocks ex_timers). \<not> keyed 100 7 B"
    "unat (tm_time ex_timers) + unat (20 :: u64) < 2 ^ 64" "unat (tm_time ex_timers) + sum_list (map unat [10, 10, 10 :: u64]) < 2 ^ 64"
    by (simp_all add: ex_timers_def keyed_def)
  from time_block_runs_out_once [OF this(1) _ tm1 this(2-4)] tm1 show ?thesis by auto
qed

end
