(* ===== verification/Kterm.thy ===== *)
theory Kterm
  imports Lambda_Prelude
begin

text \<open>
  The command loop of the kernel's terminal, \<open>kterm_task\<close> in \<open>kernel/src/proc/ktask/kterm.c\<close>: reading a line with its
  editing, splitting it and finding the command. A store outside of \<open>input\<close> or \<open>argv\<close> is \<open>None\<close>.
\<close>

record kterm_line =
  kl_input :: "u8 list"
  kl_iloc :: int

datatype kterm_function = Kterm_help | Kterm_exec | Kterm_ls | Kterm_mod | Kterm_dbgc

definition kterm_ents :: "(u8 list \<times> kterm_function) list" where
  "kterm_ents = [(map of_char ''help'', Kterm_help), (map of_char ''exec'', Kterm_exec), (map of_char ''ls'', Kterm_ls),
     (map of_char ''mod'', Kterm_mod), (map of_char ''dbgc'', Kterm_dbgc)]"

definition kterm_hash :: "u8 list \<Rightarrow> u32" where
  "kterm_hash s = foldl (\<lambda>h c. push_bit 5 h + h + ucast c) 5381 s"

section \<open>Reading a line\<close>

definition input_put :: "int \<Rightarrow> u8 \<Rightarrow> kterm_line \<Rightarrow> kterm_line option" where
  "input_put i c l = (if 0 \<le> i \<and> nat i < length (kl_input l) then Some (l\<lparr>kl_input := (kl_input l)[nat i := c]\<rparr>) else None)"

text \<open>
  The characters that the stream delivers, and those left. \<open>None\<close> is also a line that never ends. A
  backspace overwrites the last character with a space.
\<close>

fun kterm_read :: "u8 list \<Rightarrow> kterm_line \<Rightarrow> (kterm_line \<times> u8 list) option" where
  "kterm_read [] l = None"
| "kterm_read (t # ts) l =
     (if t = 0x0A \<or> t = 0x0D then Some (l, ts)
      else if t = 0x08 then do {
        l \<leftarrow> input_put (kl_iloc l - 1) 0x20 l;
        kterm_read ts (l\<lparr>kl_iloc := kl_iloc l - 1\<rparr>)
      }
      else if t \<noteq> 0 then do {
        l \<leftarrow> input_put (kl_iloc l) t l;
        kterm_read ts (l\<lparr>kl_iloc := kl_iloc l + 1\<rparr>)
      }
      else kterm_read ts l)"

section \<open>Splitting and finding\<close>

abbreviation (input) KTERM_ARGS :: nat where "KTERM_ARGS \<equiv> 32"

definition is_sep :: "u8 \<Rightarrow> bool" where
  "is_sep c \<longleftrightarrow> c = 0x20 \<or> c = 0x09 \<or> c = 0"

text \<open>The loop over the line and its terminator; \<open>cur\<close> is the part from \<open>cstring\<close> on.\<close>

fun kterm_split :: "u8 list \<Rightarrow> u8 list \<Rightarrow> u8 list list \<Rightarrow> u8 list list option" where
  "kterm_split [] cur argv = Some argv"
| "kterm_split (c # cs) cur argv =
     (if is_sep c then if length argv < KTERM_ARGS then kterm_split cs [] (argv @ [cur]) else None
      else kterm_split cs (cur @ [c]) argv)"

fun kterm_find :: "u8 list \<Rightarrow> (u8 list \<times> kterm_function) list \<Rightarrow> kterm_function option" where
  "kterm_find s [] = None"
| "kterm_find s ((n, f) # es) = (if kterm_hash n = kterm_hash s \<and> n = s then Some f else kterm_find s es)"

text \<open>
  One turn of the endless loop, up to the call of the function: the arguments, and the function if there is one.
  \<open>strlen\<close> of a line without a terminator reads behind the buffer.
\<close>

definition kterm_turn :: "u8 list \<Rightarrow> (u8 list list \<times> kterm_function option \<times> u8 list) option" where
  "kterm_turn keys = do {
     (l, rest) \<leftarrow> kterm_read keys \<lparr>kl_input = replicate 512 0, kl_iloc = 0\<rparr>;
     if 0 \<in> set (kl_input l) then do {
       argv \<leftarrow> kterm_split (takeWhile (\<lambda>c. c \<noteq> 0) (kl_input l) @ [0]) [] [];
       Some (argv, kterm_find (hd argv) kterm_ents, rest)
     }
     else None
   }"

section \<open>Commands\<close>

fun words_of :: "u8 list \<Rightarrow> u8 list list" where
  "words_of [] = [[]]"
| "words_of (c # cs) = (if is_sep c then [] # words_of cs else (case words_of cs of [] \<Rightarrow> [[c]] | w # ws \<Rightarrow> (c # w) # ws))"

lemma words_of_nonempty [simp]: "words_of s \<noteq> []"
  by (induction s) (auto split: list.splits)

lemma kterm_split_words:
  "kterm_split (s @ [0]) cur argv =
     (if length argv + length (words_of s) \<le> KTERM_ARGS then Some (argv @ (cur @ hd (words_of s)) # List.tl (words_of s)) else None)"
proof (induction s arbitrary: cur argv)
  case Nil
  then show ?case by (simp add: is_sep_def)
next
  case (Cons c s)
  obtain w ws where "words_of s = w # ws" by (meson neq_Nil_conv words_of_nonempty)
  with Cons show ?case by auto
qed

lemma kterm_find_name: "kterm_find s es = map_of es s"
  by (induction es) auto

lemma kterm_read_plain:
  assumes "\<forall>t \<in> set s. t \<notin> {0, 8, 10, 13}" "length d + length s \<le> length b" "e = 0x0A \<or> e = 0x0D" "take (length d) b = d"
  shows "kterm_read (s @ e # rest) \<lparr>kl_input = b, kl_iloc = int (length d)\<rparr> =
    Some (\<lparr>kl_input = d @ s @ drop (length d + length s) b, kl_iloc = int (length d + length s)\<rparr>, rest)"
  using assms
proof (induction s arbitrary: d b)
  case Nil
  have "b = d @ drop (length d) b" using append_take_drop_id [of "length d" b] Nil.prems(4) by simp
  then show ?case using Nil.prems(3) by auto
next
  case (Cons t s)
  let ?b = "b[length d := t]"
  have b: "take (length (d @ [t])) ?b = d @ [t]" using Cons.prems(2,4) by (simp add: take_Suc_conv_app_nth)
  have "kterm_read (s @ e # rest) \<lparr>kl_input = ?b, kl_iloc = int (length (d @ [t]))\<rparr> =
      Some (\<lparr>kl_input = (d @ [t]) @ s @ drop (length (d @ [t]) + length s) ?b, kl_iloc = int (length (d @ [t]) + length s)\<rparr>, rest)"
    by (rule Cons.IH) (use Cons.prems b in auto)
  with Cons.prems show ?case by (simp add: input_put_def add.commute)
qed

text \<open>
  A line without editing that fits its buffer and has at most 32 words is split at every space and tab, and the
  command is the one whose name is the first word.
\<close>

lemma kterm_turn_command:
  assumes "\<forall>t \<in> set s. t \<notin> {0, 8, 10, 13}" "length s < 512" "length (words_of s) \<le> KTERM_ARGS"
  shows "kterm_turn (s @ 0x0A # rest) = Some (words_of s, map_of kterm_ents (hd (words_of s)), rest)"
proof -
  have r: "kterm_read (s @ 0x0A # rest) \<lparr>kl_input = replicate 512 0, kl_iloc = 0\<rparr> =
      Some (\<lparr>kl_input = s @ replicate (512 - length s) 0, kl_iloc = int (length s)\<rparr>, rest)"
    using kterm_read_plain [OF assms(1), of "[]" "replicate 512 0" "0x0A" rest] assms(2) by simp
  obtain n where n: "512 - length s = Suc n" using assms(2) by (cases "512 - length s") auto
  have "takeWhile (\<lambda>c. c \<noteq> 0) (s @ 0 # replicate n 0) = s"
    using assms(1) by (subst takeWhile_append2) auto
  moreover obtain w ws where "words_of s = w # ws" by (meson neq_Nil_conv words_of_nonempty)
  ultimately show ?thesis using r n assms(3) kterm_split_words [of s "[]" "[]"]
    by (simp add: kterm_turn_def kterm_find_name)
qed

text \<open>A backspace as the first character stores in front of the buffer.\<close>

lemma kterm_backspace_first: "kterm_turn (0x08 # keys) = None"
  by (simp add: kterm_turn_def input_put_def)

end
