(* ===== verification/Uenv.thy ===== *)
theory Uenv
  imports Lambda_Prelude "HOL-Library.Sublist"
begin

text \<open>
  The environment of a user program: \<open>getenv\<close>, \<open>setenv\<close> (\<open>user/lib/src/stdlib\<close>), \<open>execvp\<close>
  (\<open>user/lib/src/unistd/execvp.c\<close>) and the copy of the environment at start-up (\<open>user/lib/src/libinit.c\<close>). Strings are
  lists of characters without the terminating NUL; \<open>environ\<close> is the list of its entries, \<open>None\<close> for \<open>NULL\<close>.
\<close>

section \<open>Strings\<close>

definition char_int :: "char \<Rightarrow> int" where
  "char_int c = sint (of_char c :: u8)"

definition first_int :: "string \<Rightarrow> int" where
  "first_int s = (case s of [] \<Rightarrow> 0 | c # _ \<Rightarrow> char_int c)"

text \<open>The loop of \<open>strncmp\<close>: \<open>--n\<close> is only evaluated when both strings go on.\<close>

fun u_strncmp_loop :: "string \<Rightarrow> string \<Rightarrow> nat \<Rightarrow> int" where
  "u_strncmp_loop (x # a) (y # b) n =
     (if n - 1 \<noteq> 0 then if x \<noteq> y then char_int x - char_int y else u_strncmp_loop a b (n - 1) else char_int x - char_int y)"
| "u_strncmp_loop a b n = first_int a - first_int b"

definition u_strncmp :: "string \<Rightarrow> string \<Rightarrow> nat \<Rightarrow> int" where
  "u_strncmp a b n = (if n = 0 then 0 else u_strncmp_loop a b n)"

text \<open>The index of the first \<open>c\<close>, which is not NUL.\<close>

fun u_strchr :: "string \<Rightarrow> char \<Rightarrow> nat option" where
  "u_strchr [] c = None"
| "u_strchr (x # s) c = (if x = c then Some 0 else map_option Suc (u_strchr s c))"

section \<open>Variables\<close>

text \<open>\<open>eq && !strncmp(environ[i], name, eq - environ[i])\<close>.\<close>

definition env_match :: "string \<Rightarrow> string \<Rightarrow> bool" where
  "env_match name e = (case u_strchr e CHR ''='' of None \<Rightarrow> False | Some q \<Rightarrow> u_strncmp e name q = 0)"

fun getenv_loop :: "string \<Rightarrow> string list \<Rightarrow> string option" where
  "getenv_loop name [] = None"
| "getenv_loop name (e # es) =
     (case u_strchr e CHR ''='' of
        None \<Rightarrow> getenv_loop name es
      | Some q \<Rightarrow> if u_strncmp e name q = 0 then Some (drop (q + 1) e) else getenv_loop name es)"

definition getenv :: "string \<Rightarrow> string list option \<Rightarrow> string option" where
  "getenv name environ = (case environ of None \<Rightarrow> None | Some es \<Rightarrow> getenv_loop name es)"

text \<open>The index of the entry that \<open>setenv\<close> replaces.\<close>

fun env_index :: "string \<Rightarrow> string list \<Rightarrow> nat option" where
  "env_index name [] = None"
| "env_index name (e # es) = (if env_match name e then Some 0 else map_option Suc (env_index name es))"

text \<open>\<open>malloc_ok\<close>, \<open>realloc_ok\<close>: whether the allocations succeed; \<open>None\<close> is a null pointer.\<close>

definition setenv ::
    "bool \<Rightarrow> bool \<Rightarrow> string option \<Rightarrow> string option \<Rightarrow> bool \<Rightarrow> string list option \<Rightarrow> int \<times> string list option" where
  "setenv malloc_ok realloc_ok name val overwrite environ =
     (case (environ, name, val) of
        (Some es, Some n, Some v) \<Rightarrow>
          if n = [] \<or> \<not> malloc_ok then (- 1, environ)
          else
            let new = n @ ''='' @ v in
            (case env_index n es of
               Some i \<Rightarrow> (0, Some (if overwrite then es[i := new] else es))
             | None \<Rightarrow> if realloc_ok then (0, Some (es @ [new])) else (- 1, environ))
      | _ \<Rightarrow> (- 1, environ))"

text \<open>\<open>_lib_init\<close>: with no variables \<open>environ\<close> stays \<open>NULL\<close>. \<open>dup_ok\<close>: whether each \<open>strdup\<close> succeeds; \<open>None\<close> is \<open>exit\<close>.\<close>

definition lib_init_env :: "bool \<Rightarrow> string list \<Rightarrow> string list option option" where
  "lib_init_env dup_ok envp = (if envp = [] then Some None else if dup_ok then Some (Some envp) else None)"

section \<open>Programs by name\<close>

abbreviation (input) EXECVP_PATH_MAX :: nat where "EXECVP_PATH_MAX \<equiv> 255"

text \<open>
  The loop over the directories of \<open>PATH\<close>; \<open>access_ok\<close> is \<open>!access(file, X_OK)\<close>. The result is the file that is
  executed.
\<close>

function execvp_loop :: "(string \<Rightarrow> bool) \<Rightarrow> string \<Rightarrow> string \<Rightarrow> string option" where
  "execvp_loop access_ok path env_path =
     (let colon = u_strchr env_path CHR '':'';
          len = (case colon of Some e \<Rightarrow> e | None \<Rightarrow> length env_path);
          filepath = take len env_path @ ''/'' @ path in
      if length path + len + 1 < EXECVP_PATH_MAX \<and> access_ok filepath then Some filepath
      else case colon of Some e \<Rightarrow> execvp_loop access_ok path (drop (e + 1) env_path) | None \<Rightarrow> None)"
  by pat_completeness auto
termination
proof (relation "measure (\<lambda>(_, _, p). length p)")
  fix access_ok :: "string \<Rightarrow> bool" and path env_path :: string and x xa xb x2
  assume "x = u_strchr env_path CHR '':''" "x = Some x2"
  then have "env_path \<noteq> []" by auto
  then show "((access_ok, path, drop (x2 + 1) env_path), access_ok, path, env_path) \<in> measure (\<lambda>(_, _, p). length p)" by simp
qed simp

declare execvp_loop.simps [simp del]

text \<open>\<open>Some file\<close> when \<open>execve\<close> is called for it with the given arguments, \<open>None\<close> when -1 is returned.\<close>

definition execvp :: "(string \<Rightarrow> bool) \<Rightarrow> string list option \<Rightarrow> string option \<Rightarrow> bool \<Rightarrow> string option" where
  "execvp access_ok environ path has_argv =
     (case path of
        None \<Rightarrow> None
      | Some p \<Rightarrow>
          if \<not> has_argv then None
          else if u_strchr p CHR ''/'' \<noteq> None then Some p
          else execvp_loop access_ok p (case getenv ''PATH'' environ of None \<Rightarrow> ''/bin:/usr/bin'' | Some e \<Rightarrow> e))"

section \<open>Matching\<close>

lemma u_strchr_Some: "u_strchr s c = Some q \<longleftrightarrow> q < length s \<and> s ! q = c \<and> c \<notin> set (take q s)"
proof (induction s arbitrary: q)
  case (Cons x s)
  then show ?case by (cases q) auto
qed simp

lemma u_strchr_None: "u_strchr s c = None \<longleftrightarrow> c \<notin> set s"
  by (induction s) auto

lemma u_strchr_append: "c \<notin> set n \<Longrightarrow> u_strchr (n @ c # v) c = Some (length n)"
  by (induction n) auto

lemma char_int_inject: "char_int x = char_int y \<longleftrightarrow> x = y"
proof -
  have "sint (of_char x :: u8) = sint (of_char y :: u8) \<longleftrightarrow> (of_char x :: u8) = of_char y" 
    using signed_word_eqI [of "of_char x :: u8" "of_char y"] by auto
  then show ?thesis by (simp add: char_int_def)
qed

lemma char_int_0: "x \<noteq> CHR 0x00 \<Longrightarrow> char_int x \<noteq> 0"
  using char_int_inject [of x "CHR 0x00"] by (simp add: char_int_def)

lemma u_strncmp_loop_prefix:
  assumes "0 < n" "n \<le> length a" "CHR 0x00 \<notin> set a" "CHR 0x00 \<notin> set b"
  shows "u_strncmp_loop a b n = 0 \<longleftrightarrow> prefix (take n a) b"
  using assms
proof (induction a arbitrary: b n)
  case (Cons x a)
  then obtain m where n: "n = Suc m" by (cases n) auto
  show ?case
  proof (cases b)
    case Nil
    with Cons.prems n show ?thesis by (auto simp: first_int_def char_int_0)
  next
    case b: (Cons y b')
    show ?thesis
    proof (cases "m = 0")
      case True
      with n b show ?thesis by (simp add: char_int_inject)
    next
      case False
      with Cons n b show ?thesis by (simp add: char_int_inject)
    qed
  qed
qed simp

text \<open>An entry is found for every name that begins with the entry's name.\<close>

lemma env_match_prefix:
  assumes "CHR 0x00 \<notin> set e" "CHR 0x00 \<notin> set name"
  shows "env_match name e \<longleftrightarrow> (\<exists>k v. e = k @ CHR ''='' # v \<and> CHR ''='' \<notin> set k \<and> prefix k name)"
proof (cases "u_strchr e CHR ''=''")
  case None
  moreover from this have "CHR ''='' \<notin> set e" by (simp add: u_strchr_None)
  ultimately show ?thesis by (auto simp: env_match_def)
next
  case (Some q)
  then have q: "q < length e" "e ! q = CHR ''=''" "CHR ''='' \<notin> set (take q e)" by (simp_all add: u_strchr_Some)
  have "u_strncmp e name q = 0 \<longleftrightarrow> prefix (take q e) name"
    using u_strncmp_loop_prefix [of q e name] assms q(1) by (cases "q = 0") (auto simp: u_strncmp_def)
  then have m: "env_match name e \<longleftrightarrow> prefix (take q e) name" using Some by (simp add: env_match_def)
  have e: "e = take q e @ CHR ''='' # drop (Suc q) e" using id_take_nth_drop [OF q(1)] q(2) by simp
  have "k = take q e" if "e = k @ CHR ''='' # v" "CHR ''='' \<notin> set k" for k v
    using that Some u_strchr_append [of "CHR ''=''" k v] by simp
  with m e q(3) show ?thesis by metis
qed

end
