(* ===== verification/Lshell.thy ===== *)
theory Lshell
  imports Uenv
begin

text \<open>
  The shell's command line, \<open>user/utils/lshell/src/shell.c\<close>: splitting a line into arguments, in three runs over
  it (count, allocate, store), and the replacement of variables. A parameter is the block of memory \<open>malloc\<close>
  returned for it, a list of as many characters as were asked for; while the line is split, a store or read outside of a
  block, or through a null pointer, is \<open>None\<close>. While variables are replaced the memory behind a block is there too, and
  the stores that reach it are listed.
\<close>

abbreviation (input) QUOTE_REPLACE :: char where "QUOTE_REPLACE \<equiv> CHR 0x1F"
abbreviation (input) DOLLAR_REPLACE :: char where "DOLLAR_REPLACE \<equiv> CHR 0x01"
abbreviation (input) MAX_PARAMS :: nat where "MAX_PARAMS \<equiv> 32"
abbreviation (input) MAX_ENVLEN :: nat where "MAX_ENVLEN \<equiv> 64"
abbreviation (input) NUL0 :: char where "NUL0 \<equiv> CHR 0x00"

definition u_isspace :: "char \<Rightarrow> bool" where
  "u_isspace c \<longleftrightarrow> c \<in> {CHR '' '', CHR 0x0A, CHR 0x0D, CHR 0x0C, CHR 0x09, CHR 0x0B}"

definition u_isalnum :: "char \<Rightarrow> bool" where
  "u_isalnum c \<longleftrightarrow> (65 \<le> char_int c \<and> char_int c \<le> 90) \<or> (97 \<le> char_int c \<and> char_int c \<le> 122) \<or> (48 \<le> char_int c \<and> char_int c \<le> 57)"

section \<open>Splitting\<close>

datatype run = RUN_COUNT | RUN_ALLOC | RUN_REAL

text \<open>The array of parameters: \<open>None\<close> an entry that is \<open>NULL\<close>.\<close>

type_synonym params = "string option list"

text \<open>\<open>params[param][len] = c\<close>.\<close>

definition param_put :: "nat \<Rightarrow> nat \<Rightarrow> char \<Rightarrow> params \<Rightarrow> params option" where
  "param_put param len c ps =
     (if param < length ps then
        case ps ! param of
          Some b \<Rightarrow> if len < length b then Some (ps[param := Some (b[len := c])]) else None
        | None \<Rightarrow> None
      else None)"

definition store_char :: "run \<Rightarrow> nat \<Rightarrow> nat \<Rightarrow> char \<Rightarrow> params \<Rightarrow> params option" where
  "store_char run param len c ps = (if run = RUN_REAL then param_put param len c ps else Some ps)"

text \<open>
  The end of a parameter. \<open>mal i\<close> is the block that \<open>malloc(len + 1)\<close> returned for parameter \<open>i\<close>: its
  contents, or \<open>None\<close>. \<open>Inl\<close> is \<open>goto FAILURE\<close>.
\<close>

type_synonym allocs = "nat \<Rightarrow> nat \<Rightarrow> string option"

definition end_param :: "allocs \<Rightarrow> run \<Rightarrow> nat \<Rightarrow> nat \<Rightarrow> params \<Rightarrow> (params + params) option" where
  "end_param mal run param len ps =
     (case run of
        RUN_COUNT \<Rightarrow> Some (Inr ps)
      | RUN_ALLOC \<Rightarrow>
          (if param < length ps then
             case mal param (len + 1) of
               None \<Rightarrow> Some (Inl (ps[param := None]))
             | Some b \<Rightarrow> Some (Inr (ps[param := Some b]))
           else None)
      | RUN_REAL \<Rightarrow> map_option Inr (param_put param len NUL0 ps))"

text \<open>
  One run over the rest of the line. \<open>strch\<close> is the open quote, NUL for none. The result is \<open>Inl\<close> for
  \<open>goto FAILURE\<close>, or the array, the last parameter and its length.
\<close>

function split_loop :: "allocs \<Rightarrow> run \<Rightarrow> string \<Rightarrow> char \<Rightarrow> nat \<Rightarrow> nat \<Rightarrow> params \<Rightarrow> (params + params \<times> nat \<times> nat) option" where
  "split_loop mal run [] strch param len ps = Some (Inr (ps, param, len))"
| "split_loop mal run (c # cs) strch param len ps =
     (if strch \<noteq> NUL0 \<and> c = strch then do {
        ps \<leftarrow> store_char run param len QUOTE_REPLACE ps;
        split_loop mal run cs NUL0 param (len + 1) ps
      }
      else if u_isspace c \<and> strch = NUL0 then do {
        r \<leftarrow> end_param mal run param len ps;
        case r of
          Inl ps \<Rightarrow> Some (Inl ps)
        | Inr ps \<Rightarrow> if MAX_PARAMS \<le> param + 1 then Some (Inl ps) else split_loop mal run (dropWhile u_isspace cs) strch (param + 1) 0 ps
      }
      else if c = CHR 0x5C \<and> cs \<noteq> [] then do {
        ps \<leftarrow> store_char run param len (if hd cs = CHR ''$'' then DOLLAR_REPLACE else hd cs) ps;
        split_loop mal run (tl cs) strch param (len + 1) ps
      }
      else if strch = NUL0 \<and> (c = CHR 0x27 \<or> c = CHR 0x22) then do {
        ps \<leftarrow> store_char run param len QUOTE_REPLACE ps;
        split_loop mal run cs c param (len + 1) ps
      }
      else do {
        ps \<leftarrow> store_char run param len c ps;
        split_loop mal run cs strch param (len + 1) ps
      })"
  by pat_completeness auto
termination by (relation "measure (\<lambda>(_, _, cs, _). length cs)") (auto simp: length_dropWhile_le le_imp_less_Suc)

text \<open>
  The three runs. \<open>list_ok\<close>: whether the array can be allocated. The result is the list returned, \<open>None\<close> for
  \<open>NULL\<close>; the outer \<open>None\<close> includes \<open>FAILURE\<close> in the first run, where the array is still \<open>NULL\<close>.
\<close>

definition args_split :: "allocs \<Rightarrow> bool \<Rightarrow> string \<Rightarrow> params option option" where
  "args_split mal list_ok str = do {
     r \<leftarrow> split_loop mal RUN_COUNT str NUL0 0 0 [];
     case r of
       Inl _ \<Rightarrow> None
     | Inr (_, param, len) \<Rightarrow>
         if \<not> list_ok then Some None
         else do {
           r \<leftarrow> split_loop mal RUN_ALLOC str NUL0 0 0 (replicate (param + 2) None);
           case r of
             Inl _ \<Rightarrow> Some None
           | Inr (ps, param, len) \<Rightarrow> do {
               r \<leftarrow> end_param mal RUN_ALLOC param len ps;
               case r of
                 Inl _ \<Rightarrow> Some None
               | Inr ps \<Rightarrow> do {
                   r \<leftarrow> split_loop mal RUN_REAL str NUL0 0 0 (ps[param + 1 := None]);
                   case r of
                     Inl _ \<Rightarrow> Some None
                   | Inr (ps, param, len) \<Rightarrow> do {
                       ps \<leftarrow> param_put param len NUL0 ps;
                       Some (Some (ps[param + 1 := None]))
                     }
                 }
             }
         }
   }"

section \<open>Replacing variables\<close>

text \<open>
  An argument's block: its size, the memory from its start on (the block and what lies behind it, as far as that is
  known), and the positions behind the block that have been stored to. An access past the known memory is \<open>None\<close>.
\<close>

record block =
  bk_size :: nat
  bk_mem :: string
  bk_over :: "nat list"

definition buf_get :: "block \<Rightarrow> nat \<Rightarrow> char option" where
  "buf_get B i = (if i < length (bk_mem B) then Some (bk_mem B ! i) else None)"

text \<open>\<open>strlen(&arg[from])\<close>.\<close>

definition strlen_at :: "block \<Rightarrow> nat \<Rightarrow> nat option" where
  "strlen_at B from = u_strchr (drop from (bk_mem B)) NUL0"

definition buf_store :: "nat \<Rightarrow> string \<Rightarrow> block \<Rightarrow> block option" where
  "buf_store dst s B =
     (if dst + length s \<le> length (bk_mem B) then
        Some (B\<lparr>bk_mem := take dst (bk_mem B) @ s @ drop (dst + length s) (bk_mem B),
                bk_over := bk_over B @ filter (\<lambda>i. bk_size B \<le> i) [dst..<dst + length s]\<rparr>)
      else None)"

text \<open>\<open>memmove\<close> within the memory of an argument.\<close>

definition buf_move :: "nat \<Rightarrow> nat \<Rightarrow> nat \<Rightarrow> block \<Rightarrow> block option" where
  "buf_move dst src n B = (if src + n \<le> length (bk_mem B) then buf_store dst (take n (drop src (bk_mem B))) B else None)"

text \<open>
  \<open>realloc\<close> for a size that is not 0, when it succeeds: another block with the first bytes of the old one. \<open>fill n\<close>
  is what the memory from the new block on held.
\<close>

definition realloc_block :: "(nat \<Rightarrow> string) \<Rightarrow> nat \<Rightarrow> block \<Rightarrow> block" where
  "realloc_block fill n B =
     (let m = min (bk_size B) n in B\<lparr>bk_size := n, bk_mem := take m (bk_mem B) @ drop m (fill n)\<rparr>)"

text \<open>The end of the name behind a \<open>$\<close>: the first character at \<open>k\<close> or later that is not part of a name.\<close>

function var_end :: "block \<Rightarrow> nat \<Rightarrow> nat \<Rightarrow> nat option option" where
  "var_end b k arg_len =
     (if k < arg_len + 1 then do {
        c \<leftarrow> buf_get b k;
        if c \<noteq> CHR ''_'' \<and> \<not> u_isalnum c then Some (Some k) else var_end b (k + 1) arg_len
      }
      else Some None)"
  by pat_completeness auto
termination by (relation "measure (\<lambda>(_, k, n). n + 1 - k)") auto

declare var_end.simps [simp del]

text \<open>
  The replacement of the name between \<open>j + 1\<close> and \<open>k\<close> by its value: \<open>Inl\<close> the error returned, or the next \<open>j\<close>,
  \<open>arg_len\<close> and the block. For no bytes \<open>realloc\<close> returns \<open>NULL\<close>, otherwise it succeeds, as does \<open>malloc\<close>.
\<close>

definition expand_var :: "(nat \<Rightarrow> string) \<Rightarrow> string list option \<Rightarrow> nat \<Rightarrow> nat \<Rightarrow> nat \<Rightarrow> block \<Rightarrow> (int + nat \<times> nat \<times> block) option" where
  "expand_var fill environ j k arg_len b =
     (let var_sz = k - (j + 1) in
      if MAX_ENVLEN < var_sz then Some (Inl (- 1))
      else
        let v = (case getenv (take var_sz (drop (j + 1) (bk_mem b))) environ of None \<Rightarrow> [] | Some v \<Rightarrow> v);
            n = arg_len - (var_sz + 1) + length v in
        if n = 0 then Some (Inl (- 1))
        else do {
          let b = realloc_block fill n b;
          l \<leftarrow> strlen_at b k;
          b \<leftarrow> buf_move (j + length v) k l b;
          b \<leftarrow> buf_store j v b;
          b \<leftarrow> buf_store n [NUL0] b;
          Some (Inr (j + length v, n, b))
        })"

lemma expand_var_progress: "expand_var fill environ j k arg_len b = Some (Inr (j', n, b')) \<Longrightarrow> j < arg_len \<Longrightarrow> n - Suc j' < arg_len - j"
  by (auto simp: expand_var_def Let_def bind_eq_Some_conv split: if_splits)

text \<open>One argument. \<open>Inl\<close> is the error returned.\<close>

function replace_arg :: "(nat \<Rightarrow> string) \<Rightarrow> string list option \<Rightarrow> nat \<Rightarrow> nat \<Rightarrow> block \<Rightarrow> (int + block) option" where
  "replace_arg fill environ j arg_len b =
     (if j < arg_len then do {
        c \<leftarrow> buf_get b j;
        if c = CHR ''$'' then do {
          e \<leftarrow> var_end b (j + 1) arg_len;
          case e of
            None \<Rightarrow> replace_arg fill environ (j + 1) arg_len b
          | Some k \<Rightarrow> do {
              r \<leftarrow> expand_var fill environ j k arg_len b;
              case r of Inl err \<Rightarrow> Some (Inl err) | Inr (j, arg_len, b) \<Rightarrow> replace_arg fill environ (j + 1) arg_len b
            }
        }
        else if c = DOLLAR_REPLACE then replace_arg fill environ (j + 1) arg_len (b\<lparr>bk_mem := (bk_mem b)[j := CHR ''$'']\<rparr>)
        else if c = QUOTE_REPLACE then do {
          l \<leftarrow> strlen_at b (j + 1);
          b \<leftarrow> buf_move j (j + 1) (l + 1) b;
          replace_arg fill environ j (arg_len - 1) b
        }
        else replace_arg fill environ (j + 1) arg_len b
      }
      else Some (Inr b))"
  by pat_completeness auto
termination by (relation "measure (\<lambda>(_, _, j, n, _). n - j)") (auto dest: expand_var_progress)

declare replace_arg.simps [simp del]

text \<open>The arguments up to the \<open>NULL\<close> entry; each is a string in its block, or behind it too after a replacement.\<close>

fun args_replace :: "(nat \<Rightarrow> string) \<Rightarrow> string list option \<Rightarrow> params \<Rightarrow> (int + params) option" where
  "args_replace fill environ (Some b # ps) = do {
     let B = \<lparr>bk_size = length b, bk_mem = b, bk_over = []\<rparr>;
     arg_len \<leftarrow> strlen_at B 0;
     r \<leftarrow> replace_arg fill environ 0 arg_len B;
     case r of
       Inl e \<Rightarrow> Some (Inl e)
     | Inr B \<Rightarrow> do {
         r \<leftarrow> args_replace fill environ ps;
         Some (map_sum id (\<lambda>ps. Some (bk_mem B) # ps) r)
       }
   }"
| "args_replace fill environ ps = Some (Inr ps)"

section \<open>Commands\<close>

text \<open>The string in a block, and the arguments of an array up to its \<open>NULL\<close>.\<close>

definition c_string :: "string \<Rightarrow> string" where
  "c_string b = takeWhile (\<lambda>c. c \<noteq> NUL0) b"

definition arg_strings :: "params \<Rightarrow> string list" where
  "arg_strings ps = map (c_string \<circ> the) (takeWhile (\<lambda>p. p \<noteq> None) ps)"

text \<open>What the child of \<open>_execute_command\<close> executes: the file and its arguments; \<open>None\<close> when \<open>execvp\<close> returns.\<close>

definition execute_command :: "(string \<Rightarrow> bool) \<Rightarrow> string list option \<Rightarrow> params \<Rightarrow> (string \<times> string list) option" where
  "execute_command access_ok environ args =
     (case args of
        Some b # _ \<Rightarrow> map_option (\<lambda>f. (f, arg_strings args)) (execvp access_ok environ (Some (c_string b)) True)
      | _ \<Rightarrow> None)"

definition handle_command ::
    "allocs \<Rightarrow> bool \<Rightarrow> (nat \<Rightarrow> string) \<Rightarrow> (string \<Rightarrow> bool) \<Rightarrow> string list option \<Rightarrow> string \<Rightarrow> (string \<times> string list) option option" where
  "handle_command mal list_ok fill access_ok environ str = do {
     a \<leftarrow> args_split mal list_ok str;
     case a of
       None \<Rightarrow> Some None
     | Some args \<Rightarrow> do {
         r \<leftarrow> args_replace fill environ args;
         case r of Inl _ \<Rightarrow> Some None | Inr args \<Rightarrow> Some (execute_command access_ok environ args)
       }
   }"

end
