(* ===== verification/Uenv_Sound.thy ===== *)
theory Uenv_Sound
  imports Uenv
begin

text \<open>
  What the user library's environment promises: a variable that is set is read back, unless the name of
  another one is the beginning of its name; programs are searched in the directories of \<open>PATH\<close> in order.
\<close>

section \<open>Lookup as a search\<close>

definition env_val :: "string \<Rightarrow> string" where
  "env_val e = drop (Suc (the (u_strchr e CHR ''=''))) e"

lemma getenv_find: "getenv_loop name es = map_option env_val (find (env_match name) es)"
  by (induction es) (auto simp: env_match_def env_val_def split: option.splits)

lemma env_index_None: "env_index name es = None \<longleftrightarrow> (\<forall>e \<in> set es. \<not> env_match name e)"
  by (induction es) auto

lemma env_index_Some:
  "env_index name es = Some i \<Longrightarrow> i < length es \<and> env_match name (es ! i) \<and> (\<forall>e \<in> set (take i es). \<not> env_match name e)"
  by (induction es arbitrary: i) (auto split: if_splits)

lemma find_append: "find p (xs @ ys) = (case find p xs of None \<Rightarrow> find p ys | Some x \<Rightarrow> Some x)"
  by (induction xs) auto

lemma find_none: "\<forall>x \<in> set xs. \<not> p x \<Longrightarrow> find p xs = None"
  by (induction xs) auto

abbreviation env_entry :: "string \<Rightarrow> string \<Rightarrow> string" where
  "env_entry k v \<equiv> k @ CHR ''='' # v"

lemma entry_val: "CHR ''='' \<notin> set k \<Longrightarrow> env_val (env_entry k v) = v"
  by (simp add: env_val_def u_strchr_append)

lemma entry_match:
  assumes "CHR ''='' \<notin> set k" "CHR 0x00 \<notin> set k" "CHR 0x00 \<notin> set v" "CHR 0x00 \<notin> set m"
  shows "env_match m (env_entry k v) \<longleftrightarrow> prefix k m"
proof -
  have "k' = k" if "env_entry k v = env_entry k' v'" "CHR ''='' \<notin> set k'" for k' v'
    using that u_strchr_append [OF assms(1), of v] u_strchr_append [OF that(2), of v'] by simp
  then show ?thesis using env_match_prefix [of "env_entry k v" m] assms by auto
qed

section \<open>Setting a variable\<close>

text \<open>
  C35 (a variable that is set is read back). \<open>setenv\<close> with overwriting, when its allocations succeed and no env_entry's
  name is a proper beginning of the new name, makes \<open>getenv\<close> return the value, and for every name that does not
  begin with the one set \<open>getenv\<close> returns what it returned before.
\<close>

theorem setenv_getenv:
  assumes "\<forall>e \<in> set es. CHR 0x00 \<notin> set e" "CHR 0x00 \<notin> set name" "CHR 0x00 \<notin> set v" "CHR ''='' \<notin> set name" "name \<noteq> []"
    and keys: "\<forall>k w. env_entry k w \<in> set es \<longrightarrow> CHR ''='' \<notin> set k \<longrightarrow> prefix k name \<longrightarrow> k = name"
  shows "\<exists>es'. setenv True True (Some name) (Some v) True (Some es) = (0, Some es') \<and> getenv name (Some es') = Some v \<and>
    (\<forall>m. CHR 0x00 \<notin> set m \<longrightarrow> \<not> prefix name m \<longrightarrow> getenv m (Some es') = getenv m (Some es))"
proof -
  note new = entry_match [OF assms(4,2,3)]
  show ?thesis
  proof (cases "env_index name es")
    case None
    then have "\<forall>e \<in> set es. \<not> env_match name e" by (simp add: env_index_None)
    then show ?thesis using None assms(2,4,5) new by (auto simp: setenv_def getenv_def getenv_find find_append find_none entry_val split: option.splits)
  next
    case (Some i)
    from env_index_Some [OF Some] have i: "i < length es" "env_match name (es ! i)" "\<forall>e \<in> set (take i es). \<not> env_match name e" by auto
    then have mem: "es ! i \<in> set es" by simp
    with i(2) env_match_prefix [of "es ! i" name] assms(1,2) obtain k w where k: "es ! i = env_entry k w" "CHR ''='' \<notin> set k" "prefix k name" by auto
    with keys mem have k': "es ! i = env_entry name w" by metis
    have w: "CHR 0x00 \<notin> set w" using assms(1) mem k' by (metis UnCI list.set_intros(2) set_append)
    have es: "es = take i es @ env_entry name w # drop (Suc i) es" using id_take_nth_drop [OF i(1)] k' by simp
    have es': "es[i := env_entry name v] = take i es @ env_entry name v # drop (Suc i) es" using i(1) by (simp add: upd_conv_take_nth_drop)
    have "find (env_match m) (es[i := env_entry name v]) = find (env_match m) es" if "CHR 0x00 \<notin> set m" "\<not> prefix name m" for m
      unfolding es' using that new [of m] entry_match [OF assms(4,2) w, of m] by (subst (3) es) (simp add: find_append split: option.splits)
    moreover have "find (env_match name) (es[i := env_entry name v]) = Some (env_entry name v)"
      unfolding es' using i(3) new [of name] assms(2) by (simp add: find_append find_none)
    ultimately show ?thesis using Some assms(4,5) by (simp add: setenv_def getenv_def getenv_find entry_val)
  qed
qed

theorem setenv_getenv_witness:
  "\<exists>es'. setenv True True (Some ''PS1'') (Some ''# '') True (Some [''PATH=/bin'', ''PS1=> '']) = (0, Some es') \<and>
     getenv ''PS1'' (Some es') = Some ''# '' \<and> getenv ''PATH'' (Some es') = Some ''/bin''"
proof -
  have "CHR ''='' \<notin> set k \<longrightarrow> prefix k ''PS1'' \<longrightarrow> k = ''PS1''" if "env_entry k w \<in> set [''PATH=/bin'', ''PS1=> '']" for k w
    using that by (auto simp: append_eq_Cons_conv Cons_eq_append_conv)
  then have k: "\<forall>k w. env_entry k w \<in> set [''PATH=/bin'', ''PS1=> ''] \<longrightarrow> CHR ''='' \<notin> set k \<longrightarrow> prefix k ''PS1'' \<longrightarrow> k = ''PS1''" by blast
  have "getenv ''PATH'' (Some [''PATH=/bin'', ''PS1=> '']) = Some ''/bin''" by code_simp
  moreover from setenv_getenv [of "[''PATH=/bin'', ''PS1=> '']" "''PS1''" "''# ''", OF _ _ _ _ _ k] obtain es' where
    "setenv True True (Some ''PS1'') (Some ''# '') True (Some [''PATH=/bin'', ''PS1=> '']) = (0, Some es')" "getenv ''PS1'' (Some es') = Some ''# ''"
    "\<forall>m. CHR 0x00 \<notin> set m \<longrightarrow> \<not> prefix ''PS1'' m \<longrightarrow> getenv m (Some es') = getenv m (Some [''PATH=/bin'', ''PS1=> ''])" by auto
  moreover from this(3) have "getenv ''PATH'' (Some es') = getenv ''PATH'' (Some [''PATH=/bin'', ''PS1=> ''])" by simp
  ultimately show ?thesis by auto
qed

text \<open>
  If a variable's name is a proper beginning of another name that is
  not set, \<open>getenv\<close> of the longer name returns the value of the shorter one, and \<open>setenv\<close> of the longer name
  replaces the env_entry: the shorter variable is gone.
\<close>

text \<open>
  If a variable's name is a proper beginning of another name that is not set, \<open>getenv\<close> of the longer name returns
  the value of the shorter one, and \<open>setenv\<close> of the longer name replaces the entry: the shorter variable is gone.
\<close>

theorem setenv_takes_over:
  assumes "CHR 0x00 \<notin> set k" "CHR 0x00 \<notin> set w" "CHR ''='' \<notin> set k" "CHR 0x00 \<notin> set name" "CHR 0x00 \<notin> set v" "CHR ''='' \<notin> set name"
    and "strict_prefix k name" "\<forall>e \<in> set (xs @ ys). \<not> env_match name e \<and> \<not> env_match k e"
  shows "getenv name (Some (xs @ env_entry k w # ys)) = Some w \<and> getenv k (Some (xs @ env_entry k w # ys)) = Some w \<and>
    (\<exists>es'. setenv True True (Some name) (Some v) True (Some (xs @ env_entry k w # ys)) = (0, Some es') \<and> getenv k (Some es') = None)"
proof -
  have m: "env_match name (env_entry k w)" "env_match k (env_entry k w)" "\<not> env_match k (env_entry name v)"
    using entry_match [OF assms(3,1,2)] entry_match [OF assms(6,4,5)] assms(1,4,7) by (auto simp: strict_prefix_def)
  have idx: "env_index name (xs @ env_entry k w # ys) = Some (length xs)"
    using assms(8) m(1) by (induction xs) auto
  have "name \<noteq> []" using assms(7) by auto
  then show ?thesis
    using m idx assms(3,8) by (simp add: setenv_def getenv_def getenv_find find_append find_none entry_val)
qed

theorem setenv_takes_over_witness:
  "getenv ''PATHEXT'' (Some [''PATH=/bin'']) = Some ''/bin'' \<and>
   (\<exists>es'. setenv True True (Some ''PATHEXT'') (Some ''exe'') True (Some [''PATH=/bin'']) = (0, Some es') \<and> getenv ''PATH'' (Some es') = None)"
  using setenv_takes_over [of "''PATH''" "''/bin''" "''PATHEXT''" "''exe''" "[]" "[]"] by simp

section \<open>The search path\<close>

fun split_on :: "char \<Rightarrow> string \<Rightarrow> string list" where
  "split_on c [] = [[]]"
| "split_on c (x # xs) = (if x = c then [] # split_on c xs else (case split_on c xs of [] \<Rightarrow> [[x]] | d # ds \<Rightarrow> (x # d) # ds))"

lemma split_on_step:
  "split_on c s = (case u_strchr s c of None \<Rightarrow> [s] | Some e \<Rightarrow> take e s # split_on c (drop (e + 1) s))"
  by (induction s) (auto split: option.splits)

text \<open>
  C36 (programs are found in the order of \<open>PATH\<close>). A name without a slash is executed from the first directory of
  \<open>PATH\<close>, or of \<open>/bin:/usr/bin\<close> without it, in which the file is executable and whose path fits the buffer; if there is none the
  call fails.
\<close>

theorem execvp_searches_path:
  assumes "CHR ''/'' \<notin> set p"
  shows "execvp access_ok environ (Some p) True =
    map_option (\<lambda>d. d @ ''/'' @ p) (find (\<lambda>d. length p + length d + 1 < EXECVP_PATH_MAX \<and> access_ok (d @ ''/'' @ p))
      (split_on CHR '':'' (case getenv ''PATH'' environ of None \<Rightarrow> ''/bin:/usr/bin'' | Some e \<Rightarrow> e)))"
proof -
  have "execvp_loop access_ok p path =
      map_option (\<lambda>d. d @ ''/'' @ p) (find (\<lambda>d. length p + length d + 1 < EXECVP_PATH_MAX \<and> access_ok (d @ ''/'' @ p)) (split_on CHR '':'' path))" for path
  proof (induction path rule: measure_induct_rule [where f = length])
    case (less path)
    show ?case
    proof (cases "u_strchr path CHR '':''")
      case None
      then show ?thesis by (subst execvp_loop.simps, subst split_on_step) (simp add: Let_def)
    next
      case (Some e)
      then have e: "e < length path" by (simp add: u_strchr_Some)
      then have "length (drop (e + 1) path) < length path" by simp
      from less [OF this] Some e show ?thesis by (subst execvp_loop.simps, subst split_on_step) (simp add: Let_def min_def)
    qed
  qed
  then show ?thesis using assms u_strchr_None [of p "CHR ''/''"] by (simp add: execvp_def)
qed

theorem execvp_searches_path_witness:
  "execvp (\<lambda>f. f = ''/bin/ls'') (Some [''PATH=/:/bin'']) (Some ''ls'') True = Some ''/bin/ls''"
proof -
  have "getenv ''PATH'' (Some [''PATH=/:/bin'']) = Some ''/:/bin''" by code_simp
  then show ?thesis using execvp_searches_path [of "''ls''" "\<lambda>f. f = ''/bin/ls''" "Some [''PATH=/:/bin'']"] by simp
qed

end
