(* ===== verification/Lshell_Sound.thy ===== *)
theory Lshell_Sound
  imports Lshell Uenv_Sound
begin

text \<open>
  The three runs of the shell's splitter agree, so that every store of the last one is inside of the block the second one
  allocated, and together they compute the words of the line.
\<close>

section \<open>The words of a line\<close>

text \<open>What the next characters mean: one character of a word, or the end of a word; with the rest of the line.\<close>

datatype lexed = Emit char string char | Sep string

definition lex_char :: "char \<Rightarrow> char \<Rightarrow> string \<Rightarrow> lexed" where
  "lex_char st c cs =
     (if st \<noteq> NUL0 \<and> c = st then Emit QUOTE_REPLACE cs NUL0
      else if u_isspace c \<and> st = NUL0 then Sep (dropWhile u_isspace cs)
      else if c = CHR 0x5C \<and> cs \<noteq> [] then Emit (if hd cs = CHR ''$'' then DOLLAR_REPLACE else hd cs) (tl cs) st
      else if st = NUL0 \<and> (c = CHR 0x27 \<or> c = CHR 0x22) then Emit QUOTE_REPLACE cs c
      else Emit c cs st)"

lemma lex_char_rest: "lex_char st c cs = Emit x r st' \<Longrightarrow> length r \<le> length cs" "lex_char st c cs = Sep r \<Longrightarrow> length r \<le> length cs"
  by (auto simp: lex_char_def length_dropWhile_le split: if_splits)

function tokens :: "string \<Rightarrow> char \<Rightarrow> string \<Rightarrow> string list" where
  "tokens [] st acc = [acc]"
| "tokens (c # cs) st acc = (case lex_char st c cs of Emit x r st' \<Rightarrow> tokens r st' (acc @ [x]) | Sep r \<Rightarrow> acc # tokens r st [])"
  by pat_completeness auto
termination by (relation "measure (\<lambda>(cs, _). length cs)") (auto dest: lex_char_rest [THEN le_imp_less_Suc])

definition line_words :: "string \<Rightarrow> string list" where
  "line_words str = tokens str NUL0 []"

lemma tokens_nonempty [simp]: "tokens cs st acc \<noteq> []"
  by (induction cs st acc rule: tokens.induct) (auto split: lexed.splits)

lemma split_loop_lex:
  "split_loop mal run (c # cs) st param len ps =
     (case lex_char st c cs of
        Emit x r st' \<Rightarrow> do { ps \<leftarrow> store_char run param len x ps; split_loop mal run r st' param (len + 1) ps }
      | Sep r \<Rightarrow> do {
          e \<leftarrow> end_param mal run param len ps;
          case e of Inl ps \<Rightarrow> Some (Inl ps) | Inr ps \<Rightarrow> if MAX_PARAMS \<le> param + 1 then Some (Inl ps) else split_loop mal run r st (param + 1) 0 ps
        })"
  by (simp only: split_loop.simps(2) lex_char_def if_distrib [of "case_lexed f g" for f g] lexed.case)

declare split_loop.simps(2) [simp del]

section \<open>The runs\<close>

lemma run_count:
  assumes "param < MAX_PARAMS"
  shows "split_loop mal RUN_COUNT cs st param (length acc) ps =
    Some (if param + length (tokens cs st acc) \<le> MAX_PARAMS then Inr (ps, param + length (tokens cs st acc) - 1, length (last (tokens cs st acc)))
          else Inl ps)"
  using assms
proof (induction cs st acc arbitrary: param rule: tokens.induct)
  case (2 c cs st acc)
  show ?case
  proof (cases "lex_char st c cs")
    case (Emit x r st')
    with 2(1) [OF Emit, of param] 2(3) show ?thesis by (simp add: split_loop_lex store_char_def)
  next
    case (Sep r)
    obtain t ts where "tokens r st [] = t # ts" by (meson neq_Nil_conv tokens_nonempty)
    with 2(2) [OF Sep, of "param + 1"] 2(3) Sep show ?thesis by (auto simp: split_loop_lex end_param_def)
  qed
qed simp

definition sized :: "string \<Rightarrow> string \<Rightarrow> bool" where
  "sized t b \<longleftrightarrow> length b = length t + 1"

lemma sized_upd [simp]: "sized t (b[i := x]) = sized t b"
  by (simp add: sized_def)

text \<open>Every allocation succeeds.\<close>

definition allocates :: "allocs \<Rightarrow> bool" where
  "allocates mal \<longleftrightarrow> (\<forall>i n. \<exists>b. mal i n = Some b \<and> length b = n)"

lemma run_alloc:
  assumes "allocates mal" "length pre + length (tokens cs st acc) \<le> MAX_PARAMS"
  shows "\<exists>bs. split_loop mal RUN_ALLOC cs st (length pre) (length acc) (pre @ replicate (length (tokens cs st acc) + 1) None) =
    Some (Inr (pre @ map Some bs @ [None, None], length pre + length (tokens cs st acc) - 1, length (last (tokens cs st acc)))) \<and>
    list_all2 sized (butlast (tokens cs st acc)) bs"
  using assms(2)
proof (induction cs st acc arbitrary: pre rule: tokens.induct)
  case (2 c cs st acc)
  show ?case
  proof (cases "lex_char st c cs")
    case (Emit x r st')
    with 2(1) [OF Emit, of pre] 2(3) show ?thesis by (simp add: split_loop_lex store_char_def)
  next
    case (Sep r)
    obtain b where b: "mal (length pre) (length acc + 1) = Some b" "length b = length acc + 1" using assms(1) by (auto simp: allocates_def)
    obtain t ts where "tokens r st [] = t # ts" by (meson neq_Nil_conv tokens_nonempty)
    with 2(3) Sep have n: "length (pre @ [Some b]) + length (tokens r st []) \<le> MAX_PARAMS" "length pre + 1 < MAX_PARAMS" by auto
    from 2(2) [OF Sep n(1)] obtain bs where bs:
      "split_loop mal RUN_ALLOC r st (length pre + 1) 0 ((pre @ [Some b]) @ replicate (length (tokens r st []) + 1) None) =
        Some (Inr ((pre @ [Some b]) @ map Some bs @ [None, None], length pre + length (tokens r st []), length (last (tokens r st []))))"
      "list_all2 sized (butlast (tokens r st [])) bs" by auto
    have "end_param mal RUN_ALLOC (length pre) (length acc) (pre @ None # replicate (length (tokens r st []) + 1) None) =
        Some (Inr ((pre @ [Some b]) @ replicate (length (tokens r st []) + 1) None))"
      using b by (simp add: end_param_def list_update_append)
    moreover have "sized acc b" using b(2) by (simp add: sized_def)
    ultimately show ?thesis using Sep bs n(2) by (intro exI [of _ "b # bs"]) (simp add: split_loop_lex)
  qed
qed (auto simp: numeral_2_eq_2)

lemma tokens_hd: "prefix acc (hd (tokens cs st acc))"
proof (induction cs st acc rule: tokens.induct)
  case (2 c cs st acc)
  then show ?case by (auto split: lexed.splits dest: append_prefixD)
qed simp

lemma put_acc: "length b = length acc + 1 \<Longrightarrow> take (length acc) b = acc \<Longrightarrow> b[length acc := x] = acc @ [x]"
proof -
  assume len: "length b = length acc + 1" and acc: "take (length acc) b = acc"
  then have "length (drop (length acc) b) = Suc 0" by simp
  then obtain y where "drop (length acc) b = [y]" by (metis length_0_conv length_Suc_conv)
  with acc have "b = acc @ [y]" by (metis append_take_drop_id)
  then show ?thesis by simp
qed

lemma param_put_at:
  assumes "len < length b"
  shows "param_put (length pre) len c (pre @ Some b # rest) = Some (pre @ Some (b[len := c]) # rest)"
  using assms by (simp add: param_put_def list_update_append)

lemma run_real:
  assumes "length pre + length (tokens cs st acc) \<le> MAX_PARAMS" "list_all2 sized (tokens cs st acc) (b # bs)" "take (length acc) b = acc"
  shows "\<exists>bl. split_loop mal RUN_REAL cs st (length pre) (length acc) (pre @ map Some (b # bs) @ [None]) =
    Some (Inr (pre @ map (\<lambda>t. Some (t @ [NUL0])) (butlast (tokens cs st acc)) @ [Some bl, None],
      length pre + length (tokens cs st acc) - 1, length (last (tokens cs st acc)))) \<and>
    sized (last (tokens cs st acc)) bl \<and> take (length (last (tokens cs st acc))) bl = last (tokens cs st acc)"
  using assms
proof (induction cs st acc arbitrary: pre b bs rule: tokens.induct)
  case (2 c cs st acc)
  show ?case
  proof (cases "lex_char st c cs")
    case (Emit x r st')
    have "sized (hd (tokens r st' (acc @ [x]))) b" using 2(4) Emit by (cases "tokens r st' (acc @ [x])") auto
    then have len: "length acc + 1 < length b" using prefix_length_le [OF tokens_hd [of "acc @ [x]" r st']] by (simp add: sized_def)
    let ?b = "b[length acc := x]"
    have "take (length (acc @ [x])) ?b = acc @ [x]" using len 2(5) by (simp add: take_Suc_conv_app_nth)
    moreover have "list_all2 sized (tokens r st' (acc @ [x])) (?b # bs)"
      using 2(4) Emit by (cases "tokens r st' (acc @ [x])") auto
    ultimately show ?thesis using 2(1) [OF Emit, of pre ?b bs] 2(3) Emit len
      by (simp add: split_loop_lex store_char_def param_put_at)
  next
    case (Sep r)
    then have sz: "sized acc b" and rest: "list_all2 sized (tokens r st []) bs" using 2(4) by simp_all
    from rest obtain b1 bs1 where bs: "bs = b1 # bs1" by (metis list_all2_Nil2 neq_Nil_conv tokens_nonempty)
    obtain t ts where t: "tokens r st [] = t # ts" by (meson neq_Nil_conv tokens_nonempty)
    have n: "length (pre @ [Some (acc @ [NUL0])]) + length (tokens r st []) \<le> MAX_PARAMS" "length pre + 1 < MAX_PARAMS" using 2(3) Sep t by auto
    have e: "end_param mal RUN_REAL (length pre) (length acc) (pre @ Some b # map Some bs @ [None]) =
        Some (Inr ((pre @ [Some (acc @ [NUL0])]) @ map Some (b1 # bs1) @ [None]))"
      using sz put_acc [of b acc] 2(5) bs by (simp add: end_param_def param_put_at sized_def)
    from 2(2) [OF Sep n(1) rest [unfolded bs]] obtain bl where
      "split_loop mal RUN_REAL r st (length pre + 1) 0 ((pre @ [Some (acc @ [NUL0])]) @ map Some (b1 # bs1) @ [None]) =
        Some (Inr ((pre @ [Some (acc @ [NUL0])]) @ map (\<lambda>t. Some (t @ [NUL0])) (butlast (tokens r st [])) @ [Some bl, None],
          length pre + length (tokens r st []), length (last (tokens r st []))))"
      "sized (last (tokens r st [])) bl" "take (length (last (tokens r st []))) bl = last (tokens r st [])" by auto
    then show ?thesis using Sep e n(2) by (intro exI [of _ bl]) (simp add: split_loop_lex)
  qed
qed simp

lemma args_split_eq:
  assumes "allocates mal"
  shows "args_split mal True str =
    (if length (line_words str) \<le> MAX_PARAMS then Some (Some (map (\<lambda>t. Some (t @ [NUL0])) (line_words str) @ [None])) else None)"
proof -
  let ?T = "line_words str"
  have T: "?T = tokens str NUL0 []" by (simp add: line_words_def)
  obtain t ts where ne: "?T = t # ts" by (metis T neq_Nil_conv tokens_nonempty)
  have L: "length ?T = Suc (length ts)" by (simp add: ne)
  have bl: "butlast ?T @ [last ?T] = ?T" by (rule append_butlast_last_id) (simp add: ne)
  note count = run_count [of 0 mal str NUL0 "[]" "[]", folded T]
  show ?thesis
  proof (cases "length ?T \<le> MAX_PARAMS")
    case True
    obtain bs where bs: "split_loop mal RUN_ALLOC str NUL0 0 0 (replicate (length ?T + 1) None) =
        Some (Inr (map Some bs @ [None, None], length ?T - 1, length (last ?T)))" "list_all2 sized (butlast ?T) bs"
      using run_alloc [OF assms, of "[]" str NUL0 "[]"] True by (auto simp: T)
    have lbs: "length bs = length ?T - 1" using list_all2_lengthD [OF bs(2)] by simp
    obtain b where b: "mal (length ?T - 1) (length (last ?T) + 1) = Some b" "length b = length (last ?T) + 1" using assms unfolding allocates_def by blast
    have e: "end_param mal RUN_ALLOC (length ?T - 1) (length (last ?T)) (map Some bs @ [None, None]) = Some (Inr (map Some (bs @ [b]) @ [None]))"
      using b lbs by (simp add: end_param_def list_update_append)
    have "list_all2 sized ?T (bs @ [b])"
      by (subst bl [symmetric], rule list_all2_appendI [OF bs(2)]) (simp add: sized_def b(2))
    then obtain b0 bs0 where b0: "bs @ [b] = b0 # bs0" "list_all2 sized ?T (b0 # bs0)" by (cases "bs @ [b]") auto
    from run_real [of "[]" str NUL0 "[]" b0 bs0 mal] True b0(2) obtain bl where r:
      "split_loop mal RUN_REAL str NUL0 0 0 (map Some (b0 # bs0) @ [None]) =
        Some (Inr (map (\<lambda>t. Some (t @ [NUL0])) (butlast ?T) @ [Some bl, None], length ?T - 1, length (last ?T)))"
      "sized (last ?T) bl" "take (length (last ?T)) bl = last ?T" by (auto simp: T)
    have p: "param_put (length ?T - 1) (length (last ?T)) NUL0 (map (\<lambda>t. Some (t @ [NUL0])) (butlast ?T) @ [Some bl, None]) =
        Some (map (\<lambda>t. Some (t @ [NUL0])) (butlast ?T) @ [Some (last ?T @ [NUL0]), None])"
      using param_put_at [of "length (last ?T)" bl "map (\<lambda>t. Some (t @ [NUL0])) (butlast ?T)" NUL0 "[None]"] put_acc [of bl "last ?T"] r(2,3)
      by (simp add: sized_def)
    have "map (\<lambda>t. Some (t @ [NUL0])) (butlast ?T) @ [Some (last ?T @ [NUL0])] = map (\<lambda>t. Some (t @ [NUL0])) ?T"
      by (subst (3) bl [symmetric]) simp
    then have res: "(map (\<lambda>t. Some (t @ [NUL0])) (butlast ?T) @ [Some (last ?T @ [NUL0]), None])[Suc (length ts) := None] = map (\<lambda>t. Some (t @ [NUL0])) ?T @ [None]"
      using L by (simp add: list_update_append)
    have "length bs0 = length ts" using b0(1) lbs L by (metis Suc_inject diff_Suc_1 length_Cons length_append_singleton)
    then have same: "(map Some (b0 # bs0) @ [None])[Suc (length ts) := None] = map Some (b0 # bs0) @ [None]" by (simp add: list_update_append)
    show ?thesis
      using count True bs(1) e r(1) p unfolding args_split_def L b0(1) by (simp add: same [simplified] res)
  next
    case False
    then show ?thesis using count by (simp add: args_split_def)
  qed
qed

text \<open>
  C33 (the shell splits a line into its words). When its allocations succeed, \<open>_args_split\<close> of a line of at most 32 words
  returns the words, each in a block of exactly its length and terminated, and the \<open>NULL\<close> behind the last: the three
  runs agree on the lengths, and no store is outside of what was allocated. With more words the
  first run goes to its failure exit while the array is still a null pointer, and reads through it.
\<close>

theorem args_split_words:
  assumes "allocates mal"
  shows "args_split mal True str =
    (if length (line_words str) \<le> MAX_PARAMS then Some (Some (map (\<lambda>t. Some (t @ [NUL0])) (line_words str) @ [None])) else None)"
  using args_split_eq [OF assms] .

theorem args_split_words_witness:
  "args_split (\<lambda>i n. Some (replicate n CHR ''?'')) True ''echo  \"a b\" c'' =
     Some (Some [Some (''echo'' @ [NUL0]), Some ([QUOTE_REPLACE] @ ''a b'' @ [QUOTE_REPLACE, NUL0]), Some (''c'' @ [NUL0]), None])"
proof -
  have "allocates (\<lambda>i n. Some (replicate n CHR ''?''))" by (simp add: allocates_def)
  moreover have "line_words ''echo  \"a b\" c'' = [''echo'', [QUOTE_REPLACE] @ ''a b'' @ [QUOTE_REPLACE], ''c'']" by code_simp
  ultimately show ?thesis using args_split_words [of "\<lambda>i n. Some (replicate n CHR ''?'')" "''echo  \"a b\" c''"] by simp
qed

section \<open>Quotes and variables\<close>

definition unquote :: "string \<Rightarrow> string" where
  "unquote s = map (\<lambda>c. if c = DOLLAR_REPLACE then CHR ''$'' else c) (filter (\<lambda>c. c \<noteq> QUOTE_REPLACE) s)"

lemma buf_get_at: "bk_mem B = don @ c # s \<Longrightarrow> buf_get B (length don) = Some c"
  by (simp add: buf_get_def)

lemma strlen_at_mid: "bk_mem B = don @ s @ NUL0 # r \<Longrightarrow> NUL0 \<notin> set s \<Longrightarrow> strlen_at B (length don) = Some (length s)"
  by (simp add: strlen_at_def u_strchr_append)

lemma over_inside: "dst + n \<le> (m :: nat) \<Longrightarrow> filter (\<lambda>i. m \<le> i) [dst..<dst + n] = []"
  by (auto simp: filter_empty_conv)

lemma buf_store_inside:
  "dst + length s \<le> bk_size B \<Longrightarrow> dst + length s \<le> length (bk_mem B) \<Longrightarrow>
   buf_store dst s B = Some (B\<lparr>bk_mem := take dst (bk_mem B) @ s @ drop (dst + length s) (bk_mem B)\<rparr>)"
  by (simp add: buf_store_def over_inside)

lemma buf_move_down:
  assumes "bk_mem B = don @ c # s @ NUL0 # r" "length don + length s < bk_size B"
  shows "buf_move (length don) (length don + 1) (length s + 1) B = Some (B\<lparr>bk_mem := don @ s @ NUL0 # NUL0 # r\<rparr>)"
proof -
  have "take (length s + 1) (drop (length don + 1) (bk_mem B)) = s @ [NUL0]" using assms(1) by simp
  then show ?thesis using assms buf_store_inside [of "length don" "s @ [NUL0]" B] by (simp add: buf_move_def)
qed

text \<open>Up to the first dollar sign, and behind the last.\<close>

lemma replace_marks:
  assumes "NUL0 \<notin> set (p @ t)" "CHR ''$'' \<notin> set p" "bk_mem B = don @ p @ t @ NUL0 # r" "length don + length p + length t \<le> bk_size B"
  shows "\<exists>r'. replace_arg fill env (length don) (length don + length p + length t) B =
    replace_arg fill env (length don + length (unquote p)) (length don + length (unquote p) + length t) (B\<lparr>bk_mem := don @ unquote p @ t @ NUL0 # r'\<rparr>) \<and>
    length (don @ unquote p @ t @ NUL0 # r') = length (bk_mem B)"
  using assms
proof (induction p arbitrary: don r B)
  case Nil
  then have "B\<lparr>bk_mem := don @ t @ NUL0 # r\<rparr> = B" by (cases B) simp
  moreover have "unquote [] = []" by (simp add: unquote_def)
  ultimately show ?case using Nil by (intro exI [of _ r]) (simp only: append_Nil list.size add_0_right simp_thms)
next
  case (Cons c p)
  consider "c = DOLLAR_REPLACE" | "c = QUOTE_REPLACE" | "c \<notin> {CHR ''$'', DOLLAR_REPLACE, QUOTE_REPLACE}" using Cons.prems(2) by auto
  then show ?case
  proof cases
    case 1
    let ?B = "B\<lparr>bk_mem := (bk_mem B)[length don := CHR ''$'']\<rparr>"
    have B: "bk_mem ?B = (don @ [CHR ''$'']) @ p @ t @ NUL0 # r" using Cons.prems(3) by (simp add: list_update_append)
    have g: "buf_get B (length don) = Some c" using Cons.prems(3) by (intro buf_get_at) simp
    have u: "unquote (c # p) = CHR ''$'' # unquote p" using 1 by (simp add: unquote_def)
    from Cons.IH [OF _ _ B] Cons.prems obtain r' where
      "replace_arg fill env (Suc (length don)) (Suc (length don + length p + length t)) ?B =
        replace_arg fill env (Suc (length don + length (unquote p))) (Suc (length don + length (unquote p) + length t))
          (B\<lparr>bk_mem := don @ CHR ''$'' # unquote p @ t @ NUL0 # r'\<rparr>)" "Suc (length don + length (unquote p @ t @ NUL0 # r')) = length (bk_mem B)" by auto
    then show ?thesis unfolding u using g 1 by (intro exI [of _ r']) (subst replace_arg.simps, simp)
  next
    case 2
    let ?B = "B\<lparr>bk_mem := don @ p @ t @ NUL0 # NUL0 # r\<rparr>"
    have g: "buf_get B (length don) = Some c" using Cons.prems(3) by (intro buf_get_at) simp
    have l: "strlen_at B (length don + 1) = Some (length (p @ t))"
      using strlen_at_mid [of B "don @ [c]" "p @ t" r] Cons.prems(1,3) by simp
    have m: "buf_move (length don) (length don + 1) (length (p @ t) + 1) B = Some ?B"
      using buf_move_down [of B don c "p @ t" r] Cons.prems(3,4) by simp
    have u: "unquote (c # p) = unquote p" using 2 by (simp add: unquote_def)
    have B: "bk_mem ?B = don @ p @ t @ NUL0 # (NUL0 # r)" by simp
    from Cons.IH [OF _ _ B] Cons.prems obtain r' where
      "replace_arg fill env (length don) (length don + length p + length t) ?B =
        replace_arg fill env (length don + length (unquote p)) (length don + length (unquote p) + length t) (B\<lparr>bk_mem := don @ unquote p @ t @ NUL0 # r'\<rparr>)"
      "length (don @ unquote p @ t @ NUL0 # r') = length (bk_mem B)" by auto
    then show ?thesis unfolding u using g l m 2 by (intro exI [of _ r']) (subst replace_arg.simps, simp)
  next
    case 3
    have B: "bk_mem B = (don @ [c]) @ p @ t @ NUL0 # r" using Cons.prems(3) by simp
    have g: "buf_get B (length don) = Some c" using Cons.prems(3) by (intro buf_get_at) simp
    have u: "unquote (c # p) = c # unquote p" using 3 by (simp add: unquote_def)
    from Cons.IH [OF _ _ B] Cons.prems obtain r' where
      "replace_arg fill env (Suc (length don)) (Suc (length don + length p + length t)) B =
        replace_arg fill env (Suc (length don + length (unquote p))) (Suc (length don + length (unquote p) + length t))
          (B\<lparr>bk_mem := don @ c # unquote p @ t @ NUL0 # r'\<rparr>)" "Suc (length don + length (unquote p @ t @ NUL0 # r')) = length (bk_mem B)" by auto
    then show ?thesis unfolding u using g 3 by (intro exI [of _ r']) (subst replace_arg.simps, simp)
  qed
qed

lemma replace_plain:
  assumes "NUL0 \<notin> set s" "CHR ''$'' \<notin> set s" "bk_mem B = don @ s @ NUL0 # r" "length don + length s \<le> bk_size B"
  shows "\<exists>r'. replace_arg fill env (length don) (length don + length s) B = Some (Inr (B\<lparr>bk_mem := don @ unquote s @ NUL0 # r'\<rparr>))"
  using replace_marks [of s "[]" B don r fill env] assms by (auto simp: replace_arg.simps [of fill env "length don + length (unquote s)"])

text \<open>A name, and a value that is longer than the reference to it.\<close>

definition name_char :: "char \<Rightarrow> bool" where
  "name_char c \<longleftrightarrow> c = CHR ''_'' \<or> u_isalnum c"

lemma var_end_name:
  assumes "\<forall>c \<in> set name. name_char c" "\<not> name_char c" "bk_mem B = pre @ name @ c # r" "length pre + length name \<le> arg_len"
  shows "var_end B (length pre) arg_len = Some (Some (length pre + length name))"
  using assms
proof (induction name arbitrary: pre)
  case Nil
  then show ?case by (subst var_end.simps) (simp add: buf_get_def name_char_def)
next
  case (Cons x name)
  with Cons.IH [of "pre @ [x]"] show ?case by (subst var_end.simps) (auto simp: buf_get_def name_char_def)
qed

lemma expand_longer:
  assumes mem: "bk_mem B = don @ CHR ''$'' # name @ post @ NUL0 # r" and nul: "NUL0 \<notin> set post"
    and name: "length name \<le> MAX_ENVLEN" "getenv name env = Some v" "length name + 1 < length v"
    and size: "length don + 1 + length name + length post < bk_size B" "bk_size B \<le> length (bk_mem B)"
    and fill: "length (don @ v @ post) < length (fill (length (don @ v @ post)))"
  shows "\<exists>r'. expand_var fill env (length don) (length don + 1 + length name) (length don + 1 + length name + length post) B =
    Some (Inr (length don + length v, length (don @ v @ post),
      \<lparr>bk_size = length (don @ v @ post), bk_mem = don @ v @ post @ NUL0 # r', bk_over = bk_over B @ [length (don @ v @ post)]\<rparr>))"
proof -
  define n where "n = length (don @ v @ post)"
  define k where "k = length don + 1 + length name"
  let ?m = "min (bk_size B) n"
  have m: "k + length post < ?m" "?m \<le> length (bk_mem B)" "?m \<le> n" using size name(3) by (auto simp: n_def k_def)
  let ?B = "realloc_block fill n B"
  define mem1 where "mem1 = bk_mem ?B"
  have len: "length mem1 = length (fill n)" "n < length mem1" using m fill by (auto simp: mem1_def realloc_block_def n_def Let_def)
  let ?a = "don @ CHR ''$'' # name @ post @ [NUL0]"
  obtain x where "?m = length ?a + x" using less_imp_Suc_add [OF m(1)] by (auto simp: k_def)
  moreover have "bk_mem B = ?a @ r" by (simp add: mem)
  ultimately have "take ?m (bk_mem B) = ?a @ take x r" by simp
  then obtain r1 where mem1: "mem1 = don @ CHR ''$'' # name @ post @ NUL0 # r1"
    by (auto simp: mem1_def realloc_block_def Let_def)
  have sz: "bk_size ?B = n" "bk_over ?B = bk_over B" by (simp_all add: realloc_block_def Let_def)
  have l: "strlen_at ?B k = Some (length post)"
    using strlen_at_mid [of ?B "don @ CHR ''$'' # name" post r1] mem1 nul by (simp add: mem1_def k_def)
  let ?B2 = "?B\<lparr>bk_mem := take (length don + length v) mem1 @ post @ drop n mem1\<rparr>"
  have bm: "bk_mem ?B = mem1" by (simp add: mem1_def)
  have dp: "take (length post) (drop k mem1) = post" by (simp add: mem1 k_def)
  have dn: "length don + length v + length post = n" "length don + length v \<le> n" by (simp_all add: n_def)
  have b2: "buf_move (length don + length v) k (length post) ?B = Some ?B2"
    using buf_store_inside [of "length don + length v" post ?B] len m unfolding buf_move_def bm dp sz dn by simp
  let ?B3 = "?B\<lparr>bk_mem := don @ v @ post @ drop n mem1\<rparr>"
  have td: "take (length don) mem1 = don" by (simp add: mem1)
  have b3: "buf_store (length don) v ?B2 = Some ?B3"
    using buf_store_inside [of "length don" v ?B2] len sz td dn by simp
  have b4: "buf_store n [NUL0] ?B3 = Some (?B3\<lparr>bk_mem := don @ v @ post @ NUL0 # drop (Suc n) mem1, bk_over := bk_over B @ [n]\<rparr>)"
    using len sz dn by (simp add: buf_store_def n_def [symmetric])
  have nm: "take (k - (length don + 1)) (drop (length don + 1) (bk_mem B)) = name" by (simp add: mem k_def)
  have n: "k + length post - (k - (length don + 1) + 1) + length v = n" by (simp add: k_def n_def)
  have "expand_var fill env (length don) k (k + length post) B =
    Some (Inr (length don + length v, n, \<lparr>bk_size = n, bk_mem = don @ v @ post @ NUL0 # drop (Suc n) mem1, bk_over = bk_over B @ [n]\<rparr>))"
    unfolding expand_var_def nm Let_def name(2) option.case n using name l b2 b3 b4 sz by (auto simp: k_def n_def)
  then show ?thesis unfolding n_def k_def by blast
qed

text \<open>
  C34 (quotes and variables). \<open>_args_replace\<close> of an argument without a dollar sign removes the marks of its
  quotes and restores its escaped dollar signs, with every store inside of its block. Of an argument with one variable, which
  is set to a value longer than the reference to it (the dollar sign and the name, of at most 64 characters), it replaces the
  variable by its value, and the marks before and behind it as above, except that the character right behind the variable is not
  looked at: a quote's mark stays there. The block has then been reallocated to the length of the text without room for the
  terminator, and the one store behind it is that of the terminator. Allocations succeed. (A shorter value makes the reallocation
  cut off the end of the argument before it is moved.)
\<close>

theorem replace_arg_result:
  assumes "NUL0 \<notin> set s" "length s < sz" "sz \<le> length (s @ NUL0 # r)"
    and "B = \<lparr>bk_size = sz, bk_mem = s @ NUL0 # r, bk_over = []\<rparr>"
  shows "(CHR ''$'' \<notin> set s \<longrightarrow>
      (\<exists>r'. replace_arg fill env 0 (length s) B = Some (Inr \<lparr>bk_size = sz, bk_mem = unquote s @ NUL0 # r', bk_over = []\<rparr>))) \<and>
    (\<forall>p name post v. s = p @ CHR ''$'' # name @ post \<and> CHR ''$'' \<notin> set p \<and> CHR ''$'' \<notin> set (drop 1 post) \<and>
      (\<forall>c \<in> set name. name_char c) \<and> (post = [] \<or> \<not> name_char (hd post)) \<and> length name \<le> MAX_ENVLEN \<and>
      getenv name env = Some v \<and> length name + 1 < length v \<and> NUL0 \<notin> set v \<and> (\<forall>n. n < length (fill n)) \<longrightarrow>
      (\<exists>r'. replace_arg fill env 0 (length s) B = Some (Inr
        \<lparr>bk_size = length (unquote p @ v @ post), bk_mem = unquote p @ v @ take 1 post @ unquote (drop 1 post) @ NUL0 # r',
         bk_over = [length (unquote p @ v @ post)]\<rparr>)))"
proof (intro conjI impI allI)
  assume "CHR ''$'' \<notin> set s"
  with replace_plain [of s B "[]" r fill env] assms show "\<exists>r'. replace_arg fill env 0 (length s) B =
    Some (Inr \<lparr>bk_size = sz, bk_mem = unquote s @ NUL0 # r', bk_over = []\<rparr>)" by simp
next
  fix p name post v
  assume h: "s = p @ CHR ''$'' # name @ post \<and> CHR ''$'' \<notin> set p \<and> CHR ''$'' \<notin> set (drop 1 post) \<and>
      (\<forall>c \<in> set name. name_char c) \<and> (post = [] \<or> \<not> name_char (hd post)) \<and> length name \<le> MAX_ENVLEN \<and>
      getenv name env = Some v \<and> length name + 1 < length v \<and> NUL0 \<notin> set v \<and> (\<forall>n. n < length (fill n))"
  let ?d = "unquote p" and ?t = "CHR ''$'' # name @ post"
  let ?n = "length (?d @ v @ post)"
  from replace_marks [of p ?t B "[]" r fill env] assms h obtain r1 where
    r1: "replace_arg fill env 0 (length s) B =
        replace_arg fill env (length ?d) (length ?d + length ?t) \<lparr>bk_size = sz, bk_mem = ?d @ ?t @ NUL0 # r1, bk_over = []\<rparr>"
      "length (?d @ ?t @ NUL0 # r1) = length (s @ NUL0 # r)" by auto
  let ?B1 = "\<lparr>bk_size = sz, bk_mem = ?d @ ?t @ NUL0 # r1, bk_over = []\<rparr>"
  have up: "length ?d \<le> length p" by (simp add: unquote_def)
  have post: "NUL0 \<notin> set post" and pf: "length ?d + 1 + length name + length post < sz" using assms(1,2) h up by auto
  from expand_longer [of ?B1 ?d name post r1 env v fill] h post pf r1(2) assms(3) obtain r2 where
    ex: "expand_var fill env (length ?d) (length ?d + 1 + length name) (length ?d + 1 + length name + length post) ?B1 =
      Some (Inr (length ?d + length v, ?n, \<lparr>bk_size = ?n, bk_mem = ?d @ v @ post @ NUL0 # r2, bk_over = [?n]\<rparr>))" by auto
  let ?B2 = "\<lparr>bk_size = ?n, bk_mem = ?d @ v @ post @ NUL0 # r2, bk_over = [?n]\<rparr>"
  have nul: "\<not> name_char NUL0" by (simp add: name_char_def u_isalnum_def char_int_def)
  have ve: "var_end ?B1 (length ?d + 1) (length ?d + length ?t) = Some (Some (length ?d + 1 + length name))"
  proof (cases post)
    case Nil
    with h nul show ?thesis using var_end_name [of name NUL0 ?B1 "?d @ [CHR ''$'']" r1 "length ?d + length ?t"] by simp
  next
    case (Cons c cs)
    with h show ?thesis using var_end_name [of name c ?B1 "?d @ [CHR ''$'']" "cs @ NUL0 # r1" "length ?d + length ?t"] by simp
  qed
  have "buf_get ?B1 (length ?d) = Some (CHR ''$'')" by (rule buf_get_at) simp
  then have step: "replace_arg fill env (length ?d) (length ?d + length ?t) ?B1 = replace_arg fill env (length ?d + length v + 1) ?n ?B2"
    using ve ex by (subst replace_arg.simps) (simp add: add.assoc)
  have "\<exists>r'. replace_arg fill env (length ?d + length v + 1) ?n ?B2 =
      Some (Inr \<lparr>bk_size = ?n, bk_mem = ?d @ v @ take 1 post @ unquote (drop 1 post) @ NUL0 # r', bk_over = [?n]\<rparr>)"
  proof (cases post)
    case Nil
    then show ?thesis by (intro exI [of _ r2]) (subst replace_arg.simps, simp add: unquote_def)
  next
    case (Cons c cs)
    with h post have "NUL0 \<notin> set cs" "CHR ''$'' \<notin> set cs" by auto
    with replace_plain [of cs ?B2 "?d @ v @ [c]" r2 fill env] Cons show ?thesis by (auto simp: add.assoc)
  qed
  with r1(1) step show "\<exists>r'. replace_arg fill env 0 (length s) B = Some (Inr
      \<lparr>bk_size = length (unquote p @ v @ post), bk_mem = unquote p @ v @ take 1 post @ unquote (drop 1 post) @ NUL0 # r',
       bk_over = [length (unquote p @ v @ post)]\<rparr>)" by simp
qed

text \<open>\<open>"$D"/x\<close> with \<open>D\<close> set to \<open>/bin\<close>: the mark of the quote behind the variable stays.\<close>

theorem replace_arg_result_witness:
  "\<exists>r'. replace_arg (\<lambda>n. replicate (n + 9) CHR ''?'') (Some [''D=/bin'']) 0 6
      \<lparr>bk_size = 7, bk_mem = [QUOTE_REPLACE] @ ''$D'' @ [QUOTE_REPLACE] @ ''/x'' @ [NUL0], bk_over = []\<rparr> =
    Some (Inr \<lparr>bk_size = 7, bk_mem = ''/bin'' @ [QUOTE_REPLACE] @ ''/x'' @ NUL0 # r', bk_over = [7]\<rparr>)"
proof -
  let ?p = "[QUOTE_REPLACE]" and ?n = "''D''" and ?post = "[QUOTE_REPLACE] @ ''/x''" and ?v = "''/bin''"
  have "getenv ?n (Some [''D=/bin'']) = Some ?v" by code_simp
  moreover have "\<not> name_char QUOTE_REPLACE" "name_char CHR ''D''" by (simp_all add: name_char_def u_isalnum_def char_int_def)
  moreover have u: "unquote ?p = []" "unquote (drop 1 ?post) = ''/x''" "take 1 ?post = [QUOTE_REPLACE]" by (simp_all add: unquote_def)
  ultimately show ?thesis
    using replace_arg_result [of "?p @ CHR ''$'' # ?n @ ?post" 7 "[]" "\<lparr>bk_size = 7, bk_mem = (?p @ CHR ''$'' # ?n @ ?post) @ NUL0 # [], bk_over = []\<rparr>"
      "\<lambda>n. replicate (n + 9) CHR ''?''" "Some [''D=/bin'']", THEN conjunct2, rule_format, of ?p ?n ?post ?v] by (simp add: eval_nat_numeral)
qed

section \<open>Commands\<close>

lemma tokens_chars:
  assumes "x = NUL0 \<or> x = CHR ''$''" "x \<notin> set cs" "x \<notin> set acc" "t \<in> set (tokens cs st acc)"
  shows "x \<notin> set t"
  using assms(2-4)
proof (induction cs st acc rule: tokens.induct)
  case (2 c cs st acc)
  show ?case
  proof (cases "lex_char st c cs")
    case (Emit y r st')
    then have "x \<noteq> y \<and> x \<notin> set r" using 2(3) assms(1)
      by (cases cs) (auto simp: lex_char_def split: if_splits)
    with 2(1) [OF Emit] 2(3-5) Emit show ?thesis by auto
  next
    case (Sep r)
    then have "x \<notin> set r" using 2(3) by (auto simp: lex_char_def split: if_splits dest: set_dropWhileD)
    with 2(2) [OF Sep] 2(4,5) Sep show ?thesis by auto
  qed
qed simp

lemma args_replace_plain:
  assumes "\<forall>t \<in> set ts. NUL0 \<notin> set t \<and> CHR ''$'' \<notin> set t"
  shows "\<exists>bs. args_replace fill env (map (\<lambda>t. Some (t @ [NUL0])) ts @ [None]) = Some (Inr (map Some bs @ [None])) \<and> map c_string bs = map unquote ts"
  using assms
proof (induction ts)
  case (Cons t ts)
  then obtain bs where bs: "args_replace fill env (map (\<lambda>t. Some (t @ [NUL0])) ts @ [None]) = Some (Inr (map Some bs @ [None]))"
      "map c_string bs = map unquote ts" by auto
  let ?B = "\<lparr>bk_size = length (t @ [NUL0]), bk_mem = t @ [NUL0], bk_over = []\<rparr>"
  have l: "strlen_at ?B 0 = Some (length t)" using strlen_at_mid [of ?B "[]" t "[]"] Cons.prems by simp
  obtain r where r: "replace_arg fill env 0 (length t) ?B = Some (Inr (?B\<lparr>bk_mem := unquote t @ NUL0 # r\<rparr>))"
    using replace_plain [of t ?B "[]" "[]" fill env] Cons.prems by auto
  have "NUL0 \<notin> set (unquote t)" using Cons.prems by (auto simp: unquote_def)
  then have "c_string (unquote t @ NUL0 # r) = unquote t" unfolding c_string_def by (subst takeWhile_append2) auto
  with bs l r show ?case by (intro exI [of _ "(unquote t @ NUL0 # r) # bs"]) simp
qed simp

lemma arg_strings_blocks: "arg_strings (map Some bs @ [None]) = map c_string bs"
  by (induction bs) (simp_all add: arg_strings_def)

text \<open>
  C32 (a command line runs the program it names). For a line of at most 32 words without dollar signs the shell, when its
  allocations succeed, looks for the program that the first word names, its quotes removed, and executes it with all words, their quotes
  removed, as the arguments; if the search fails nothing is executed.
\<close>

theorem handle_command_runs:
  assumes "allocates mal" "NUL0 \<notin> set str" "CHR ''$'' \<notin> set str" "length (line_words str) \<le> MAX_PARAMS"
  shows "handle_command mal True fill access_ok environ str =
    Some (map_option (\<lambda>f. (f, map unquote (line_words str))) (execvp access_ok environ (Some (unquote (hd (line_words str)))) True))"
proof -
  obtain t ts where T: "line_words str = t # ts" by (metis line_words_def neq_Nil_conv tokens_nonempty)
  have "\<forall>t \<in> set (line_words str). NUL0 \<notin> set t \<and> CHR ''$'' \<notin> set t"
    using tokens_chars [of NUL0 str "[]"] tokens_chars [of "CHR ''$''" str "[]"] assms(2,3) by (auto simp: line_words_def)
  from args_replace_plain [OF this, of fill environ] obtain bs where
    bs: "args_replace fill environ (map (\<lambda>t. Some (t @ [NUL0])) (line_words str) @ [None]) = Some (Inr (map Some bs @ [None]))"
      "map c_string bs = map unquote (line_words str)" by blast
  from bs(2) T obtain b bs1 where b: "bs = b # bs1" "c_string b = unquote t" by auto
  have "execute_command access_ok environ (map Some bs @ [None]) =
      map_option (\<lambda>f. (f, map unquote (line_words str))) (execvp access_ok environ (Some (unquote t)) True)"
    using arg_strings_blocks [of bs] bs(2) b by (simp add: execute_command_def)
  then show ?thesis using args_split_eq [OF assms(1), of str] assms(4) bs(1) T by (simp add: handle_command_def)
qed

theorem handle_command_runs_witness:
  "handle_command (\<lambda>i n. Some (replicate n CHR ''?'')) True (\<lambda>n. []) (\<lambda>f. f = ''/bin/echo'') (Some [''PATH=/:/bin'']) ''echo \"a b\"'' =
     Some (Some (''/bin/echo'', [''echo'', ''a b'']))"
proof -
  have "allocates (\<lambda>i n. Some (replicate n CHR ''?''))" by (simp add: allocates_def)
  moreover have "line_words ''echo \"a b\"'' = [''echo'', [QUOTE_REPLACE] @ ''a b'' @ [QUOTE_REPLACE]]" by code_simp
  moreover have "execvp (\<lambda>f. f = ''/bin/echo'') (Some [''PATH=/:/bin'']) (Some ''echo'') True = Some ''/bin/echo''" by code_simp
  ultimately show ?thesis
    using handle_command_runs [of "\<lambda>i n. Some (replicate n CHR ''?'')" "''echo \"a b\"''" "\<lambda>n. []" "\<lambda>f. f = ''/bin/echo''" "Some [''PATH=/:/bin'']"]
    by (simp add: unquote_def)
qed

end
