(* ===== verification/Spec2Isabelle.thy ===== *)
theory Spec2Isabelle
  imports Ualloc Koutput Lzop_Tokens Mmu_Copy Procfs Cmdline Module_Sound Elf_Load Fork_Sound Kernel_Inv Vga_Sound Input_Sound Ktime Kterm Lshell_Sound
begin

text \<open>
  Verification of the Lambda OS kernel.

  Lambda OS is a small monolithic kernel in C for x86 (with a partial ARM port), a C library and a few
  user programs. This development models the machine-independent core of the kernel, the x86 page
  tables, console and keyboard, and the allocator, the environment and the shell of user space, and proves what
  makes them correct. The target is ILP32: \<open>int\<close>, \<open>size_t\<close> and pointers have 32 bits.

  \<^bold>\<open>The program's parts and how they interact.\<close>
  \<^item> Everything rests on the heap (\<open>kernel/src/mm/alloc.c\<close>), the string functions
    (\<open>kernel/src/std/string.c\<close>), spin locks (\<open>kernel/src/proc/atomic/lock.c\<close>), circular doubly linked
    lists (\<open>kernel/src/data/llist.c\<close>) and circular buffers (\<open>kernel/src/data/cbuff.c\<close>).
  \<^item> Page tables (\<open>kernel/arch/x86/src/mm\<close>, \<open>kernel/src/mm/mmu.c\<close>) give each process its address space.
  \<^item> Processes own threads, open files and memory maps (\<open>kernel/src/proc\<close>). New threads are queued,
    distributed over the CPUs and run in turn by the scheduler (\<open>sched.c\<close>).
  \<^item> The file system (\<open>kernel/src/fs\<close>) is a tree of files with operation tables. The boot ramdisk, a
    CPIO archive possibly compressed with LZO, fills it; streams are pipes over circular buffers; the
    system calls on descriptors (\<open>procfs.c\<close>) work on the current process.
  \<^item> Modules are relocatable ELF files (\<open>kernel/src/proc/elf\<close>, \<open>kernel/src/mod\<close>) that are placed in kernel
    memory and linked against the kernel's exported symbols and each other.
  \<^item> Programs get a copy of their parent's address space by \<open>fork\<close> and a new image by \<open>execve\<close>, which reads an ELF
    file, builds an address space and puts the arguments into it; they reach the kernel by the system call
    table (\<open>syscalls.c\<close>).
  \<^item> The timer advances the kernel time and calls what has run out (\<open>kernel/src/time\<close>); keys go from the
    interrupt through a circular buffer to the input task, and text to the console.
  \<^item> The command line sets boot options and debug levels (\<open>kernel/src/kern/cmdline.c\<close>).
  \<^item> In user space the library keeps the environment and finds programs, and the shell turns lines into
    commands.

  \<^bold>\<open>Conventions.\<close> An address is a \<open>nat\<close>, except where addresses are computed with and may wrap
  around, in the page tables and in ELF images, where it is a 32-bit word; 0 is \<open>NULL\<close>. A C \<open>int\<close> is an
  \<open>int\<close>, and an error return a negated error number. A call that does not come back (a panic, a fault,
  a loop that never ends) is \<open>None\<close>. Structures that are linked by pointers live in stores (maps from
  addresses to records), so that aliasing and dangling pointers show. What other CPUs and interrupts do
  to a lock word while it is waited for is a function argument, as are the results of an allocator where
  a component only uses what it returns.

  \<^bold>\<open>Theories.\<close>
  \<^item> \<open>Lambda_Prelude\<close>: machine types, error numbers, C strings in memory, word arithmetic.
  \<^item> \<open>Kstring\<close>: \<open>string.c\<close> and \<open>mm_check_addr\<close>. Copies and comparisons; \<open>memcmp\<close> reports the last
    difference instead of the first.
  \<^item> \<open>Katomic\<close>: \<open>lock.c\<close> and \<open>lock.h\<close>. When \<open>lock\<close> and \<open>lock_for\<close> return and at which attempt, and that \<open>lock_try\<close> has
    its result the wrong way round.
  \<^item> \<open>Llist\<close>, \<open>Llist_Ring\<close>, \<open>Llist_Iface\<close>: \<open>llist.c\<close> on a store of items; a ring invariant; an interface locale
    whose laws are the effect of each operation on the abstract list, interpreted on the model.
    Removing the first of several items breaks the list.
  \<^item> \<open>Cbuff\<close>: \<open>cbuff.c\<close>, a refinement of a bounded queue. \<open>Tlock\<close>: \<open>tlock.c\<close> over it.
  \<^item> \<open>Kalloc\<close>, \<open>Kalloc_Heap\<close>, \<open>Kalloc_Sound\<close>: \<open>alloc.c\<close>. The allocation table as the code has it; the heap
    invariant; allocation is aligned, best fit and never hands out used memory; freeing is sound under
    an explicit condition, and a lemma shows what happens without it.
  \<^item> \<open>Ualloc\<close>: \<open>user/lib/src/stdlib/alloc.c\<close>, simulated by the kernel's allocator.
  \<^item> \<open>Mmu\<close>, \<open>Mmu_Sound\<close>, \<open>Mmu_Copy\<close>: page tables, mapping and unmapping of ranges, copying between address
    spaces. A locale of address spaces is interpreted on the two-level tables. \<open>Mmu_View\<close>: the bytes an address
    space shows, and regions that keep apart. \<open>Mmu_Dup\<close>: the copy of a range through temporary mappings.
  \<^item> \<open>Fs\<close>, \<open>Fs_Tree\<close>: \<open>fs.c\<close> and \<open>stat.c\<close>; path lookup refines a walk in a tree. \<open>Stream\<close>: \<open>stream.c\<close>.
    \<open>Initrd\<close>: \<open>initrd.c\<close>. \<open>Lzop\<close>: \<open>lzop.c\<close> and \<open>comp.c\<close>, with the bounds of the block decoder;
    \<open>Lzop_Tokens\<close>: the instructions of LZO1X, their encoding and what they mean, which the decoder computes.
    \<open>Procfs\<close>: \<open>procfs.c\<close> on the joined state of processes and files.
  \<^item> \<open>Kproc\<close>, \<open>Mtask\<close>, \<open>Sched\<close>, \<open>Proc_Life\<close>: processes, threads and the scheduler (\<open>proc.c\<close>, \<open>thread.c\<close>,
    \<open>mtask.c\<close>, \<open>sched.c\<close>, \<open>cond.c\<close>, \<open>wait.c\<close>, part of \<open>mm.c\<close> and of x86 \<open>tasking.c\<close>). Round robin, fairness,
    waking of waiters, destruction.
  \<^item> \<open>Kstdlib\<close>, \<open>Koutput\<close>: number parsing, path splitting and formatted output; printing and parsing
    are inverse to each other.
  \<^item> \<open>Cmdline\<close>: \<open>cmdline.c\<close> and the levels of \<open>error.c\<close>.
  \<^item> \<open>Elf\<close>, \<open>Elf_Symbols\<close>, \<open>Module\<close>, \<open>Module_Sound\<close>: ELF images, symbol tables, the module loader.

  \<^item> \<open>Fork\<close>, \<open>Fork_Sound\<close>: \<open>fork.c\<close> on processes and page tables together; the child's address space shows what the
    parent's does, from memory of its own.
  \<^item> \<open>Elf_Exec\<close>, \<open>Elf_Load\<close>, \<open>Exec_Args\<close>, \<open>Exec\<close>: \<open>elf_exec.c\<close> and \<open>exec.c\<close>. After loading, the new address space shows every
    segment of the file; the copied arguments are those given; the process gets its new image.
  \<^item> \<open>Syscall\<close>: the table, its dispatch, the x86 entry and \<open>mmap\<close>.
  \<^item> \<open>Kernel_Inv\<close>: the kernel as a step relation, one step per operation on processes, threads, descriptors and memory maps in
    any order; a locale of systems with an invariant is interpreted on it. In every reachable state identifiers are
    unique, as long as the 32-bit counter has not overflowed.
  \<^item> \<open>Vga\<close>, \<open>Vga_Sound\<close>: \<open>vga/print.c\<close>, a refinement of a terminal; the overrun of its escape buffer. \<open>Input\<close>, \<open>Input_Sound\<close>:
    \<open>input.c\<close>, the keyboard and \<open>kinput.c\<close>, from key to the stream that gets the input. \<open>Kterm\<close>: the command loop of \<open>kterm.c\<close>. \<open>Ktime\<close>: \<open>time.c\<close> and \<open>delay.c\<close>; a block runs out once.
  \<^item> \<open>Uenv\<close>, \<open>Uenv_Sound\<close>: \<open>getenv\<close>, \<open>setenv\<close>, \<open>execvp\<close>. \<open>Lshell\<close>, \<open>Lshell_Sound\<close>: \<open>lshell/src/shell.c\<close>, from a command line to the
    program that is executed; its three runs are equivalent to a tokenizer. The block of an argument is modelled with
    the memory behind it, so that a store behind the block is recorded and the program goes on.

  \<^bold>\<open>Bounds and fuel.\<close> No definition uses fuel. Loops over data are structural or have a termination
  proof; loops that may not end are \<open>partial_function (option)\<close>, and the theorems about them state that
  they return. Sizes are those of the machine: 32-bit arithmetic wraps around, and each theorem that
  needs the absence of a wrap says so.

  \<^bold>\<open>Not modelled.\<close> The boot code, interrupt and descriptor tables, context switch and serial port of
  \<open>kernel/arch\<close> (assembly and port input/output), the ARM and RISC-V ports, the debug
  task and the commands of the kernel terminal (\<open>kernel/src/proc/ktask\<close>, interactive input/output), \<open>main.c\<close> (a sequence of
  initialisation calls), the other user programs and the loadable modules. Of the shell the prompt and the reading
  of lines, of the keyboard the self-test of the hardware are left out.
\<close>

end
